(* ===== verification/Dist_Prelude.thy ===== *)
theory Dist_Prelude
  imports Main "HOL-Library.AList" "HOL-Library.Sublist"
begin

text \<open>
  Shared vocabulary of the development: Python values, strings and bytes, exceptions,
  insertion-ordered dictionaries (association lists, updated in place, as Python's
  \<open>dict\<close> and \<open>OrderedDict\<close> keep their order) and decimal numerals as
  \<open>str(int)\<close> prints them.

  A Python \<open>bytes\<close> object is a list of \<open>char\<close>, one per byte. A Python
  \<open>str\<close> is a list of \<open>char\<close> too, one per code point; code points above 255 are
  outside the model.
\<close>

section \<open>Automation\<close>

named_theorems dict_simps \<open>what the dictionary operations do to lookups and key sets\<close>
named_theorems node_simps \<open>frame equations of the handlers\<close>

section \<open>Python values and exceptions\<close>

type_synonym bytes = string
type_synonym addr = string

datatype pyval = PNone | PBool bool | PInt int | PStr string | PBytes bytes

text \<open>
  The exceptions the modelled code raises or lets through. \<open>NotLeaderError\<close> carries the
  leader's id and address when they are known; \<open>PyException\<close> is a plain
  \<open>Exception(message)\<close>.
\<close>

datatype exn =
    NotLeaderError "nat option" "addr option"
  | TimeoutError string
  | IndexError
  | KeyError string
  | TypeError
  | ValueError string
  | PyException string

section \<open>Dictionaries\<close>

type_synonym ('k, 'v) dict = "('k \<times> 'v) list"

definition dget :: "('k, 'v) dict \<Rightarrow> 'k \<Rightarrow> 'v option" where
  "dget d k = map_of d k"

definition dget_or :: "('k, 'v) dict \<Rightarrow> 'k \<Rightarrow> 'v \<Rightarrow> 'v" where
  "dget_or d k x = (case dget d k of None \<Rightarrow> x | Some v \<Rightarrow> v)"

definition dset :: "('k, 'v) dict \<Rightarrow> 'k \<Rightarrow> 'v \<Rightarrow> ('k, 'v) dict" where
  "dset d k v = AList.update k v d"

definition dpop :: "('k, 'v) dict \<Rightarrow> 'k \<Rightarrow> ('k, 'v) dict" where
  "dpop d k = AList.delete k d"

definition dsetdefault :: "('k, 'v) dict \<Rightarrow> 'k \<Rightarrow> 'v \<Rightarrow> ('k, 'v) dict" where
  "dsetdefault d k v = (case dget d k of None \<Rightarrow> dset d k v | Some _ \<Rightarrow> d)"

definition dkeys :: "('k, 'v) dict \<Rightarrow> 'k list" where
  "dkeys d = map fst d"

definition dvalues :: "('k, 'v) dict \<Rightarrow> 'v list" where
  "dvalues d = map snd d"

text \<open>\<open>OrderedDict.move_to_end\<close>.\<close>

definition dmove_to_end :: "('k, 'v) dict \<Rightarrow> 'k \<Rightarrow> ('k, 'v) dict" where
  "dmove_to_end d k = (case dget d k of None \<Rightarrow> d | Some v \<Rightarrow> dpop d k @ [(k, v)])"

text \<open>\<open>dict(pairs)\<close>, and the dict comprehensions: a later pair replaces an earlier one.\<close>

definition dict_of :: "('k \<times> 'v) list \<Rightarrow> ('k, 'v) dict" where
  "dict_of ps = foldl (\<lambda>d p. dset d (fst p) (snd p)) [] ps"

definition wf_dict :: "('k, 'v) dict \<Rightarrow> bool" where
  "wf_dict d \<longleftrightarrow> distinct (map fst d)"

lemma dget_Nil [dict_simps, simp]: "dget [] k = None"
  by (simp add: dget_def)

lemma dget_Cons: "dget ((k, v) # d) x = (if x = k then Some v else dget d x)"
  by (simp add: dget_def)

lemma dget_dset [dict_simps, simp]: "dget (dset d k v) x = (if x = k then Some v else dget d x)"
  by (simp add: dget_def dset_def update_conv')

lemma dget_dpop [dict_simps, simp]: "dget (dpop d k) x = (if x = k then None else dget d x)"
  by (simp add: dget_def dpop_def delete_conv')

lemma dget_append: "dget (d @ e) x = (case dget d x of None \<Rightarrow> dget e x | Some v \<Rightarrow> Some v)"
  by (auto simp: dget_def map_add_def split: option.splits)

lemma dget_dmove_to_end [dict_simps, simp]: "dget (dmove_to_end d k) x = dget d x"
  by (auto simp: dmove_to_end_def dget_append dget_Cons split: option.splits)

lemma dget_dsetdefault [dict_simps, simp]:
  "dget (dsetdefault d k v) x = (if x = k \<and> dget d k = None then Some v else dget d x)"
  by (auto simp: dsetdefault_def split: option.splits)

lemma wf_Nil [simp]: "wf_dict []"
  by (simp add: wf_dict_def)

lemma wf_dset [simp, intro]: "wf_dict d \<Longrightarrow> wf_dict (dset d k v)"
  by (simp add: wf_dict_def dset_def distinct_update)

lemma wf_dpop [simp, intro]: "wf_dict d \<Longrightarrow> wf_dict (dpop d k)"
  by (simp add: wf_dict_def dpop_def distinct_delete)

lemma wf_dsetdefault [simp, intro]: "wf_dict d \<Longrightarrow> wf_dict (dsetdefault d k v)"
  by (simp add: dsetdefault_def split: option.splits)

lemma keys_dset [dict_simps]: "fst ` set (dset d k v) = insert k (fst ` set d)"
  by (simp add: dset_def dom_update)

lemma keys_dpop [dict_simps]: "fst ` set (dpop d k) = fst ` set d - {k}"
proof -
  have "fst ` set (dpop d k) = set (map fst (AList.delete k d))"
    by (simp add: dpop_def)
  also have "\<dots> = fst ` set d - {k}"
    by (simp only: delete_keys) (simp add: set_removeAll)
  finally show ?thesis .
qed

lemma dget_None_iff: "dget d k = None \<longleftrightarrow> k \<notin> fst ` set d"
  by (simp add: dget_def map_of_eq_None_iff)

lemma dget_in_set: "dget d k = Some v \<Longrightarrow> (k, v) \<in> set d"
  by (simp add: dget_def map_of_SomeD)

lemma wf_dget_iff: "wf_dict d \<Longrightarrow> dget d k = Some v \<longleftrightarrow> (k, v) \<in> set d"
  by (simp add: wf_dict_def dget_def map_of_eq_Some_iff)

lemma dpop_absent: "dget d k = None \<Longrightarrow> dpop d k = d"
  by (simp add: dget_None_iff dpop_def)

lemma length_dset: "length (dset d k v) = (if dget d k = None then Suc (length d) else length d)"
  unfolding dset_def dget_def by (induction d) auto

lemma dset_absent: "dget d k = None \<Longrightarrow> dset d k v = d @ [(k, v)]"
  unfolding dset_def dget_def by (induction d) (auto split: if_splits)

lemma wf_dmove_to_end [simp, intro]: "wf_dict d \<Longrightarrow> wf_dict (dmove_to_end d k)"
  using wf_dpop [of d k] keys_dpop [of d k]
  by (auto simp: wf_dict_def dmove_to_end_def split: option.splits)

lemma length_dpop_present:
  "wf_dict d \<Longrightarrow> dget d k = Some v \<Longrightarrow> Suc (length (dpop d k)) = length d"
proof (induction d)
  case Nil
  then show ?case by simp
next
  case (Cons p d)
  obtain k' v' where p: "p = (k', v')" by (cases p)
  show ?case
  proof (cases "k' = k")
    case True
    with Cons.prems p have "k \<notin> fst ` set d" by (simp add: wf_dict_def)
    with True p show ?thesis by (simp add: dpop_def)
  next
    case False
    with Cons p show ?thesis by (simp add: dpop_def wf_dict_def dget_Cons)
  qed
qed

lemma length_dmove_to_end [simp]: "wf_dict d \<Longrightarrow> length (dmove_to_end d k) = length d"
  by (auto simp: dmove_to_end_def dest: length_dpop_present split: option.splits)

lemma dict_of_snoc: "dict_of (ps @ [p]) = dset (dict_of ps) (fst p) (snd p)"
  by (simp add: dict_of_def)

lemma dict_of_distinct: "distinct (map fst ps) \<Longrightarrow> dict_of ps = ps"
proof (induction ps rule: rev_induct)
  case Nil
  then show ?case by (simp add: dict_of_def)
next
  case (snoc p ps)
  then have "dget ps (fst p) = None"
    by (auto simp: dget_None_iff)
  with snoc show ?case by (simp add: dict_of_snoc dset_absent)
qed

lemma wf_dict_of [simp]: "wf_dict (dict_of ps)"
  by (induction ps rule: rev_induct) (auto simp: dict_of_snoc, simp add: dict_of_def)

section \<open>Decimal numerals\<close>

definition digit_char :: "nat \<Rightarrow> char" where
  "digit_char d = (char_of (48 + d))"

definition is_digit :: "char \<Rightarrow> bool" where
  "is_digit c \<longleftrightarrow> 48 \<le> (of_char c :: nat) \<and> (of_char c :: nat) \<le> 57"

definition digit_val :: "char \<Rightarrow> nat" where
  "digit_val c = of_char c - 48"

fun nat_str :: "nat \<Rightarrow> string" where
  "nat_str n = (if n < 10 then [digit_char n] else nat_str (n div 10) @ [digit_char (n mod 10)])"

declare nat_str.simps [simp del]

definition int_str :: "int \<Rightarrow> string" where
  "int_str i = (if i < 0 then CHR ''-'' # nat_str (nat (- i)) else nat_str (nat i))"

text \<open>\<open>int(s)\<close> on a non-empty string of ASCII digits.\<close>

definition digits_val :: "string \<Rightarrow> nat" where
  "digits_val s = foldl (\<lambda>a c. 10 * a + digit_val c) 0 s"

lemma digit_char_digit: "d < 10 \<Longrightarrow> is_digit (digit_char d) \<and> digit_val (digit_char d) = d"
  by (simp add: is_digit_def digit_char_def digit_val_def)

lemma nat_str_digits: "list_all is_digit (nat_str n)"
proof (induction n rule: nat_str.induct)
  case (1 n)
  show ?case
  proof (cases "n < 10")
    case True
    then show ?thesis by (simp add: nat_str.simps [of n] digit_char_digit)
  next
    case False
    with 1 have "list_all is_digit (nat_str (n div 10))" by simp
    with False show ?thesis
      by (simp add: nat_str.simps [of n] digit_char_digit)
  qed
qed

lemma nat_str_nonempty [simp]: "nat_str n \<noteq> []"
  by (subst nat_str.simps) simp

lemma digits_val_snoc: "digits_val (s @ [c]) = 10 * digits_val s + digit_val c"
  by (simp add: digits_val_def)

lemma digits_val_nat_str [simp]: "digits_val (nat_str n) = n"
proof (induction n rule: nat_str.induct)
  case (1 n)
  show ?case
  proof (cases "n < 10")
    case True
    then show ?thesis
      by (simp add: nat_str.simps [of n] digits_val_def digit_char_digit)
  next
    case False
    with 1 have "digits_val (nat_str (n div 10)) = n div 10" by simp
    with False show ?thesis
      by (simp add: nat_str.simps [of n] digits_val_snoc digit_char_digit)
  qed
qed

lemma nat_str_inj: "nat_str m = nat_str n \<Longrightarrow> m = n"
  by (metis digits_val_nat_str)

lemma not_digit_in_nat_str: "\<not> is_digit c \<Longrightarrow> c \<notin> set (nat_str n)"
  using nat_str_digits [of n] by (auto simp: list_all_iff)

lemma int_str_inj: "int_str i = int_str j \<Longrightarrow> i = j"
proof -
  have "CHR ''-'' \<notin> set (nat_str k)" for k by (rule not_digit_in_nat_str) (simp add: is_digit_def)
  then have m: "nat_str k \<noteq> CHR ''-'' # x" for k x by (metis list.set_intros(1))
  assume "int_str i = int_str j"
  with m m [symmetric] have "(i < 0) = (j < 0) \<and> nat (abs i) = nat (abs j)"
    by (auto simp: int_str_def split: if_splits dest: nat_str_inj)
  then show "i = j" by auto
qed

section \<open>Strings\<close>

text \<open>\<open>s.split(sep, n)\<close> with a one-character separator: at most \<open>n\<close> splits.\<close>

fun split_at_char :: "char \<Rightarrow> string \<Rightarrow> string \<times> string option" where
  "split_at_char c [] = ([], None)"
| "split_at_char c (x # xs) =
     (if x = c then ([], Some xs)
      else (let (a, b) = split_at_char c xs in (x # a, b)))"

primrec split_max :: "nat \<Rightarrow> char \<Rightarrow> string \<Rightarrow> string list" where
  "split_max 0 c s = [s]"
| "split_max (Suc n) c s =
     (case split_at_char c s of
        (a, None) \<Rightarrow> [a]
      | (a, Some rest) \<Rightarrow> a # split_max n c rest)"

text \<open>\<open>s.split(sep)\<close> with a one-character separator.\<close>

fun split_on :: "char \<Rightarrow> string \<Rightarrow> string list" where
  "split_on c [] = [[]]"
| "split_on c (x # xs) =
     (if x = c then [] # split_on c xs
      else (case split_on c xs of [] \<Rightarrow> [[x]] | p # ps \<Rightarrow> (x # p) # ps))"

definition startswith :: "string \<Rightarrow> string \<Rightarrow> bool" where
  "startswith s p \<longleftrightarrow> take (length p) s = p"

lemma split_at_char_append:
  "c \<notin> set a \<Longrightarrow> split_at_char c (a @ c # rest) = (a, Some rest)"
  by (induction a) auto

lemma split_at_char_none: "c \<notin> set s \<Longrightarrow> split_at_char c s = (s, None)"
  by (induction s) auto

lemma split_on_none: "c \<notin> set s \<Longrightarrow> split_on c s = [s]"
  by (induction s) auto

lemma startswith_append [simp]: "startswith (p @ s) p"
  by (simp add: startswith_def)

section \<open>Printing exceptions\<close>

definition opt_nat_str :: "nat option \<Rightarrow> string" where
  "opt_nat_str l = (case l of None \<Rightarrow> ''None'' | Some i \<Rightarrow> nat_str i)"

text \<open>\<open>str(e)\<close> and \<open>type(e).__name__\<close>.\<close>

fun exn_str :: "exn \<Rightarrow> string" where
  "exn_str (NotLeaderError l a) = ''Not the leader. Leader is node '' @ opt_nat_str l @ '' at ''
       @ (case a of None \<Rightarrow> ''None'' | Some s \<Rightarrow> s)"
| "exn_str (TimeoutError s) = s"
| "exn_str IndexError = ''list index out of range''"
| "exn_str (KeyError k) = [CHR 0x27] @ k @ [CHR 0x27]"
| "exn_str TypeError = ''unsupported operand type''"
| "exn_str (ValueError s) = s"
| "exn_str (PyException s) = s"

fun exn_name :: "exn \<Rightarrow> string" where
  "exn_name (NotLeaderError l a) = ''NotLeaderError''"
| "exn_name (TimeoutError s) = ''TimeoutError''"
| "exn_name IndexError = ''IndexError''"
| "exn_name (KeyError k) = ''KeyError''"
| "exn_name TypeError = ''TypeError''"
| "exn_name (ValueError s) = ''ValueError''"
| "exn_name (PyException s) = ''Exception''"

section \<open>Lists\<close>

text \<open>Agreement of two logs up to a position.\<close>

lemma take_eq_mono: "take n xs = take n ys \<Longrightarrow> m \<le> n \<Longrightarrow> take m xs = take m ys"
  by (metis min.absorb1 take_take)

lemma take_eq_nth: "take n xs = take n ys \<Longrightarrow> k < n \<Longrightarrow> k < length xs \<Longrightarrow> xs ! k = ys ! k"
  by (metis nth_take)

lemma take_eq_length: "take n xs = take n ys \<Longrightarrow> n \<le> length xs \<Longrightarrow> n \<le> length ys"
  by (metis length_take min.absorb_iff2 min.cobounded1)

lemma take_Suc_eqI:
  "take k xs = take k ys \<Longrightarrow> k < length xs \<Longrightarrow> k < length ys \<Longrightarrow> xs ! k = ys ! k
   \<Longrightarrow> take (Suc k) xs = take (Suc k) ys"
  by (simp add: take_Suc_conv_app_nth)

end
