(* ===== verification/Codec.thy ===== *)
theory Codec
  imports Dist_Prelude
begin

text \<open>
  The standard-library codecs the program's data passes through: hexadecimal
  (\<open>bytes.hex\<close>, \<open>bytes.fromhex\<close>: the log on disk and in memory), Base64
  (\<open>base64.b64encode\<close>, \<open>b64decode\<close>: values inside JSON) and JSON
  (\<open>json.dumps\<close>, \<open>json.loads\<close>: commands, snapshots and persisted state), each with
  its round trip. A locale \<open>codec\<close> is the contract the state machines rely on. A decoder
  returns \<open>None\<close> where Python raises \<open>ValueError\<close> (\<open>fromhex\<close> does not skip
  white space, which \<open>hex\<close> never writes). JSON floats are outside the model.
\<close>

section \<open>The contract\<close>

locale codec =
  fixes enc :: "'a \<Rightarrow> string" and dec :: "string \<Rightarrow> 'a option" and ok :: "'a \<Rightarrow> bool"
  assumes dec_enc: "ok x \<Longrightarrow> dec (enc x) = Some x"
begin

lemma enc_inj: "ok x \<Longrightarrow> ok y \<Longrightarrow> enc x = enc y \<Longrightarrow> x = y"
  by (metis dec_enc option.inject)

lemma map_dec_enc: "list_all ok xs \<Longrightarrow> map (\<lambda>x. dec (enc x)) xs = map Some xs"
  by (induction xs) (simp_all add: dec_enc)

end

section \<open>Hexadecimal\<close>

definition hex_char :: "nat \<Rightarrow> char" where
  "hex_char n = (if n < 10 then char_of (48 + n) else char_of (87 + n))"

definition hex_val :: "char \<Rightarrow> nat option" where
  "hex_val c = (let n = of_char c in
     if 48 \<le> n \<and> n \<le> 57 then Some (n - 48)
     else if 97 \<le> n \<and> n \<le> 102 then Some (n - 87)
     else if 65 \<le> n \<and> n \<le> 70 then Some (n - 55)
     else None)"

primrec hex :: "bytes \<Rightarrow> string" where
  "hex [] = []"
| "hex (b # bs) = hex_char (of_char b div 16) # hex_char (of_char b mod 16) # hex bs"

fun fromhex :: "string \<Rightarrow> bytes option" where
  "fromhex [] = Some []"
| "fromhex [c] = None"
| "fromhex (c # d # s) =
     (case (hex_val c, hex_val d, fromhex s) of
        (Some x, Some y, Some r) \<Rightarrow> Some (char_of (16 * x + y) # r)
      | _ \<Rightarrow> None)"

lemma hex_val_hex_char [simp]: "n < 16 \<Longrightarrow> hex_val (hex_char n) = Some n"
  by (simp add: hex_val_def hex_char_def Let_def)

lemma of_char_div_16 [simp]: "(of_char c :: nat) div 16 < 16"
  using nat_of_char_less_256 [of c] by linarith

interpretation hex: codec hex fromhex "\<lambda>_. True"
proof
  fix b :: bytes
  show "fromhex (hex b) = Some b"
    by (induction b) simp_all
qed

lemma fromhex_hex [simp]: "fromhex (hex b) = Some b"
  by (simp add: hex.dec_enc)

lemma hex_Nil_iff [simp]: "hex b = [] \<longleftrightarrow> b = []"
  by (cases b) simp_all

section \<open>Base64\<close>

definition b64_alphabet :: string where
  "b64_alphabet = ''ABCDEFGHIJKLMNOPQRSTUVWXYZabcdefghijklmnopqrstuvwxyz0123456789+/''"

definition b64_char :: "nat \<Rightarrow> char" where
  "b64_char n = b64_alphabet ! n"

definition b64_val :: "char \<Rightarrow> nat option" where
  "b64_val c = map_of (zip b64_alphabet [0..<64]) c"

text \<open>The four sextets of three bytes and the three bytes of four sextets.\<close>

definition sextet1 :: "char \<Rightarrow> nat" where
  "sextet1 a = of_char a div 4"

definition sextet2 :: "char \<Rightarrow> char \<Rightarrow> nat" where
  "sextet2 a b = of_char a mod 4 * 16 + of_char b div 16"

definition sextet3 :: "char \<Rightarrow> char \<Rightarrow> nat" where
  "sextet3 b c = of_char b mod 16 * 4 + of_char c div 64"

definition sextet4 :: "char \<Rightarrow> nat" where
  "sextet4 c = of_char c mod 64"

definition octet1 :: "nat \<Rightarrow> nat \<Rightarrow> char" where
  "octet1 w x = char_of (w * 4 + x div 16)"

definition octet2 :: "nat \<Rightarrow> nat \<Rightarrow> char" where
  "octet2 x y = char_of (x mod 16 * 16 + y div 4)"

definition octet3 :: "nat \<Rightarrow> nat \<Rightarrow> char" where
  "octet3 y z = char_of (y mod 4 * 64 + z)"

fun b64encode :: "bytes \<Rightarrow> string" where
  "b64encode [] = []"
| "b64encode [a] =
     [b64_char (sextet1 a), b64_char (sextet2 a (CHR 0x00)), CHR ''='', CHR ''='']"
| "b64encode [a, b] =
     [b64_char (sextet1 a), b64_char (sextet2 a b), b64_char (sextet3 b (CHR 0x00)), CHR ''='']"
| "b64encode (a # b # c # r) =
     b64_char (sextet1 a) # b64_char (sextet2 a b) # b64_char (sextet3 b c)
     # b64_char (sextet4 c) # b64encode r"

fun b64decode :: "string \<Rightarrow> bytes option" where
  "b64decode [] = Some []"
| "b64decode (p # q # r # s # t) =
     (case (b64_val p, b64_val q) of
        (Some w, Some x) \<Rightarrow>
          if r = CHR ''='' \<and> s = CHR ''='' \<and> t = [] then Some [octet1 w x]
          else (case b64_val r of None \<Rightarrow> None
          | Some y \<Rightarrow>
             if s = CHR ''='' \<and> t = [] then Some [octet1 w x, octet2 x y]
             else (case (b64_val s, b64decode t) of
                 (Some z, Some l) \<Rightarrow> Some (octet1 w x # octet2 x y # octet3 y z # l)
               | _ \<Rightarrow> None))
      | _ \<Rightarrow> None)"
| "b64decode _ = None"

lemma b64_table: "\<forall>n \<in> set [0..<64]. b64_val (b64_char n) = Some n \<and> b64_char n \<noteq> CHR ''=''"
  by code_simp

lemma b64_val_char [simp]: "n < 64 \<Longrightarrow> b64_val (b64_char n) = Some n"
  using b64_table by auto

lemma b64_char_pad [simp]: "n < 64 \<Longrightarrow> b64_char n \<noteq> CHR ''=''"
  using b64_table by auto

lemma byte_parts:
  "(of_char a :: nat) div 4 < 64" "(of_char a :: nat) div 16 < 16" "(of_char a :: nat) div 64 < 4"
  using nat_of_char_less_256 [of a] by linarith+

lemma sextet_bounds [simp]:
  "sextet1 a < 64" "sextet2 a b < 64" "sextet3 b c < 64" "sextet4 c < 64"
proof -
  have "(of_char a :: nat) mod 4 < 4" "(of_char b :: nat) mod 16 < 16" "(of_char c :: nat) mod 64 < 64"
    by simp_all
  with byte_parts [of a] byte_parts [of b] byte_parts [of c]
  show "sextet1 a < 64" "sextet2 a b < 64" "sextet3 b c < 64" "sextet4 c < 64"
    unfolding sextet1_def sextet2_def sextet3_def sextet4_def by linarith+
qed

lemma octet1_sextets [simp]: "octet1 (sextet1 a) (sextet2 a b) = a"
proof -
  have "(of_char a mod 4 * 16 + of_char b div 16) div 16 = (of_char a :: nat) mod 4"
    using byte_parts(2) [of b] by simp
  then show ?thesis by (simp add: octet1_def sextet1_def sextet2_def)
qed

lemma octet2_sextets [simp]: "octet2 (sextet2 a b) (sextet3 b c) = b"
proof -
  have "(of_char a mod 4 * 16 + of_char b div 16) mod 16 = (of_char b :: nat) div 16"
    "(of_char b mod 16 * 4 + of_char c div 64) div 4 = (of_char b :: nat) mod 16"
    using byte_parts(2) [of b] byte_parts(3) [of c] by simp_all
  then show ?thesis by (simp add: octet2_def sextet2_def sextet3_def)
qed

lemma octet3_sextets [simp]: "octet3 (sextet3 b c) (sextet4 c) = c"
proof -
  have "(of_char b mod 16 * 4 + of_char c div 64) mod 4 = (of_char c :: nat) div 64"
    using byte_parts(3) [of c] by simp
  then show ?thesis by (simp add: octet3_def sextet3_def sextet4_def)
qed

lemma b64decode_encode: "b64decode (b64encode b) = Some b"
  by (induction b rule: b64encode.induct) (simp_all)

interpretation b64: codec b64encode b64decode "\<lambda>_. True"
  by unfold_locales (rule b64decode_encode)


section \<open>UTF-8\<close>

text \<open>\<open>str.encode("utf-8")\<close> and \<open>bytes.decode("utf-8")\<close> for code points up to 255.\<close>

fun utf8_encode :: "string \<Rightarrow> bytes" where
  "utf8_encode [] = []"
| "utf8_encode (c # s) =
     (if of_char c < (128 :: nat) then c # utf8_encode s
      else char_of (192 + of_char c div 64 :: nat) # char_of (128 + of_char c mod 64 :: nat) # utf8_encode s)"

fun utf8_decode :: "bytes \<Rightarrow> string option" where
  "utf8_decode [] = Some []"
| "utf8_decode (c # s) =
     (if of_char c < (128 :: nat) then map_option (Cons c) (utf8_decode s)
      else (case s of
              [] \<Rightarrow> None
            | d # r \<Rightarrow>
                if 194 \<le> (of_char c :: nat) \<and> of_char c \<le> (195 :: nat)
                   \<and> 128 \<le> (of_char d :: nat) \<and> of_char d < (192 :: nat)
                then map_option (Cons (char_of ((of_char c - 192) * 64 + (of_char d - 128) :: nat))) (utf8_decode r)
                else None))"

lemma utf8_decode_encode: "utf8_decode (utf8_encode s) = Some s"
proof (induction s)
  case (Cons c s)
  show ?case
  proof (cases "of_char c < (128 :: nat)")
    case True
    with Cons show ?thesis by simp
  next
    case False
    let ?n = "of_char c :: nat"
    have n: "?n < 256" by (rule nat_of_char_less_256)
    with False have q: "2 \<le> ?n div 64" "?n div 64 \<le> 3" by linarith+
    have "of_char (char_of (192 + ?n div 64 :: nat) :: char) = 192 + ?n div 64"
      and "of_char (char_of (128 + ?n mod 64 :: nat) :: char) = 128 + ?n mod 64" using q by simp_all
    moreover have "char_of (?n div 64 * 64 + ?n mod 64) = c" by (simp add: div_mult_mod_eq)
    ultimately show ?thesis using False Cons q by simp
  qed
qed simp

interpretation utf8: codec utf8_encode utf8_decode "\<lambda>_. True"
  by unfold_locales (rule utf8_decode_encode)

end
