(* ===== verification/Json.thy ===== *)
theory Json
  imports Codec
begin

text \<open>
  \<open>json.dumps\<close> with its default separators and \<open>ensure_ascii\<close>, and \<open>json.loads\<close> on
  the values the program exchanges: null, booleans, integers, strings, arrays, objects.
  The parser takes fuel; \<open>loads\<close> gives it one more than the length of its input, which
  \<open>loads_dumps\<close> shows is enough for every text \<open>dumps\<close> prints.
\<close>

datatype json = JNull | JBool bool | JInt int | JStr string | JArr "json list"
  | JObj "(string \<times> json) list"

section \<open>Printing\<close>

definition printable :: "char \<Rightarrow> bool" where
  "printable c \<longleftrightarrow> 32 \<le> (of_char c :: nat) \<and> (of_char c :: nat) \<le> 126 \<and> c \<noteq> CHR 0x22 \<and> c \<noteq> CHR 0x5C"

definition esc :: "char \<Rightarrow> string" where
  "esc c =
     (if printable c then [c]
      else if c = CHR 0x22 then [CHR 0x5C, CHR 0x22]
      else if c = CHR 0x5C then [CHR 0x5C, CHR 0x5C]
      else if c = CHR 0x0A then [CHR 0x5C, CHR ''n'']
      else if c = CHR 0x0D then [CHR 0x5C, CHR ''r'']
      else if c = CHR 0x09 then [CHR 0x5C, CHR ''t'']
      else if c = CHR 0x0C then [CHR 0x5C, CHR ''f'']
      else if c = CHR 0x08 then [CHR 0x5C, CHR ''b'']
      else [CHR 0x5C, CHR ''u'', CHR ''0'', CHR ''0'',
            hex_char (of_char c div 16), hex_char (of_char c mod 16)])"

definition quote :: "string \<Rightarrow> string" where
  "quote s = CHR 0x22 # concat (map esc s) @ [CHR 0x22]"

fun dumps :: "json \<Rightarrow> string"
  and dumps_list :: "json list \<Rightarrow> string"
  and dumps_pairs :: "(string \<times> json) list \<Rightarrow> string"
  where
  "dumps JNull = ''null''"
| "dumps (JBool b) = (if b then ''true'' else ''false'')"
| "dumps (JInt i) = int_str i"
| "dumps (JStr s) = quote s"
| "dumps (JArr xs) = CHR ''['' # dumps_list xs @ '']''"
| "dumps (JObj ps) = CHR ''{'' # dumps_pairs ps @ ''}''"
| "dumps_list [] = []"
| "dumps_list [x] = dumps x"
| "dumps_list (x # y # xs) = dumps x @ '', '' @ dumps_list (y # xs)"
| "dumps_pairs [] = []"
| "dumps_pairs [(k, v)] = quote k @ '': '' @ dumps v"
| "dumps_pairs ((k, v) # q # ps) = quote k @ '': '' @ dumps v @ '', '' @ dumps_pairs (q # ps)"

section \<open>Parsing\<close>

definition is_ws :: "char \<Rightarrow> bool" where
  "is_ws c \<longleftrightarrow> c = CHR '' '' \<or> c = CHR 0x09 \<or> c = CHR 0x0A \<or> c = CHR 0x0D"

definition skip_ws :: "string \<Rightarrow> string" where
  "skip_ws s = dropWhile is_ws s"

definition unescape :: "char \<Rightarrow> char option" where
  "unescape e =
     (if e = CHR 0x22 then Some (CHR 0x22) else if e = CHR 0x5C then Some (CHR 0x5C)
      else if e = CHR ''/'' then Some (CHR ''/'') else if e = CHR ''n'' then Some (CHR 0x0A)
      else if e = CHR ''r'' then Some (CHR 0x0D) else if e = CHR ''t'' then Some (CHR 0x09)
      else if e = CHR ''f'' then Some (CHR 0x0C) else if e = CHR ''b'' then Some (CHR 0x08)
      else None)"

definition hex4 :: "char \<Rightarrow> char \<Rightarrow> char \<Rightarrow> char \<Rightarrow> char option" where
  "hex4 a b c d =
     (case (hex_val a, hex_val b, hex_val c, hex_val d) of
        (Some p, Some q, Some r, Some s) \<Rightarrow>
          (let n = 4096 * p + 256 * q + 16 * r + s
           in if n < 256 then Some (char_of n) else None)
      | _ \<Rightarrow> None)"

definition cons_fst :: "char \<Rightarrow> (string \<times> string) option \<Rightarrow> (string \<times> string) option" where
  "cons_fst c r = (case r of None \<Rightarrow> None | Some (s, t) \<Rightarrow> Some (c # s, t))"

text \<open>The rest of a string literal, after its opening quote.\<close>

fun pstr :: "string \<Rightarrow> (string \<times> string) option" where
  "pstr [] = None"
| "pstr (c # r) =
     (if c = CHR 0x22 then Some ([], r)
      else if c = CHR 0x5C then
        (case r of
           [] \<Rightarrow> None
         | e # r' \<Rightarrow>
             (case unescape e of
                Some x \<Rightarrow> cons_fst x (pstr r')
              | None \<Rightarrow>
                  if e = CHR ''u'' then
                    (case r' of
                       h1 # h2 # h3 # h4 # r'' \<Rightarrow>
                         (case hex4 h1 h2 h3 h4 of
                            Some x \<Rightarrow> cons_fst x (pstr r'')
                          | None \<Rightarrow> None)
                     | _ \<Rightarrow> None)
                  else None))
      else if (of_char c :: nat) < 32 then None
      else cons_fst c (pstr r))"

text \<open>An integer literal, its sign already read. A fraction or an exponent is a float.\<close>

definition float_mark :: "char \<Rightarrow> bool" where
  "float_mark c \<longleftrightarrow> c = CHR ''.'' \<or> c = CHR ''e'' \<or> c = CHR ''E''"

definition pnum :: "string \<Rightarrow> (nat \<times> string) option" where
  "pnum s =
     (let ds = takeWhile is_digit s; r = dropWhile is_digit s in
      if ds = [] \<or> (hd ds = CHR ''0'' \<and> tl ds \<noteq> []) then None
      else if r \<noteq> [] \<and> float_mark (hd r) then None
      else Some (digits_val ds, r))"

definition literal :: "string \<Rightarrow> json \<Rightarrow> string \<Rightarrow> (json \<times> string) option" where
  "literal w j s = (if startswith s w then Some (j, drop (length w) s) else None)"

fun pj :: "nat \<Rightarrow> string \<Rightarrow> (json \<times> string) option"
  and parr :: "nat \<Rightarrow> string \<Rightarrow> (json list \<times> string) option"
  and pobj :: "nat \<Rightarrow> string \<Rightarrow> ((string \<times> json) list \<times> string) option"
  where
  "pj 0 s = None"
| "pj (Suc n) s =
     (case skip_ws s of
        [] \<Rightarrow> None
      | c # r \<Rightarrow>
          if c = CHR ''{'' then
            (case skip_ws r of
               [] \<Rightarrow> None
             | d # r' \<Rightarrow>
                 if d = CHR ''}'' then Some (JObj [], r')
                 else (case pobj n (d # r') of
                         None \<Rightarrow> None | Some (ps, t) \<Rightarrow> Some (JObj (dict_of ps), t)))
          else if c = CHR ''['' then
            (case skip_ws r of
               [] \<Rightarrow> None
             | d # r' \<Rightarrow>
                 if d = CHR '']'' then Some (JArr [], r')
                 else (case parr n (d # r') of
                         None \<Rightarrow> None | Some (xs, t) \<Rightarrow> Some (JArr xs, t)))
          else if c = CHR 0x22 then
            (case pstr r of None \<Rightarrow> None | Some (x, t) \<Rightarrow> Some (JStr x, t))
          else if c = CHR ''-'' then
            (case pnum r of None \<Rightarrow> None | Some (k, t) \<Rightarrow> Some (JInt (- int k), t))
          else if is_digit c then
            (case pnum (c # r) of None \<Rightarrow> None | Some (k, t) \<Rightarrow> Some (JInt (int k), t))
          else if c = CHR ''n'' then literal ''null'' JNull (c # r)
          else if c = CHR ''t'' then literal ''true'' (JBool True) (c # r)
          else literal ''false'' (JBool False) (c # r))"
| "parr 0 s = None"
| "parr (Suc n) s =
     (case pj n s of
        None \<Rightarrow> None
      | Some (v, t) \<Rightarrow>
          (case skip_ws t of
             [] \<Rightarrow> None
           | c # u \<Rightarrow>
               if c = CHR '']'' then Some ([v], u)
               else if c = CHR '','' then
                 (case parr n u of None \<Rightarrow> None | Some (vs, w) \<Rightarrow> Some (v # vs, w))
               else None))"
| "pobj 0 s = None"
| "pobj (Suc n) s =
     (case skip_ws s of
        [] \<Rightarrow> None
      | c # r \<Rightarrow>
          if c \<noteq> CHR 0x22 then None
          else (case pstr r of
            None \<Rightarrow> None
          | Some (k, t) \<Rightarrow>
              (case skip_ws t of
                 [] \<Rightarrow> None
               | d # u \<Rightarrow>
                   if d \<noteq> CHR '':'' then None
                   else (case pj n u of
                     None \<Rightarrow> None
                   | Some (v, w) \<Rightarrow>
                       (case skip_ws w of
                          [] \<Rightarrow> None
                        | e # x \<Rightarrow>
                            if e = CHR ''}'' then Some ([(k, v)], x)
                            else if e = CHR '','' then
                              (case pobj n x of
                                 None \<Rightarrow> None | Some (ps, y) \<Rightarrow> Some ((k, v) # ps, y))
                            else None)))))"

definition loads :: "string \<Rightarrow> json option" where
  "loads s =
     (case pj (Suc (length s)) s of
        None \<Rightarrow> None
      | Some (j, t) \<Rightarrow> if skip_ws t = [] then Some j else None)"

section \<open>Access to parsed objects\<close>

text \<open>\<open>d.get(k)\<close> on a parsed object; \<open>None\<close> for a missing key.\<close>

definition jget :: "(string \<times> json) list \<Rightarrow> string \<Rightarrow> json option" where
  "jget ps k = dget ps k"

section \<open>Round trip\<close>

text \<open>Objects whose keys are distinct at every level: what a Python dict prints.\<close>

fun jwf :: "json \<Rightarrow> bool" where
  "jwf (JArr xs) = list_all jwf xs"
| "jwf (JObj ps) = (distinct (map fst ps) \<and> list_all jwf (map snd ps))"
| "jwf _ = True"


declare pstr.simps [simp del]

lemma hex_val_0 [simp]: "hex_val (CHR ''0'') = Some 0"
  by (simp add: hex_val_def)

lemma hex4_byte: "hex4 (CHR ''0'') (CHR ''0'') (hex_char (of_char c div 16)) (hex_char (of_char c mod 16)) = Some c"
  by (simp add: hex4_def Let_def)

lemma pstr_plain: "printable c \<Longrightarrow> pstr (c # t) = cons_fst c (pstr t)"
  by (subst pstr.simps) (simp add: printable_def)

lemma pstr_escape: "unescape e = Some x \<Longrightarrow> pstr (CHR 0x5C # e # t) = cons_fst x (pstr t)"
  by (subst pstr.simps) simp

lemma pstr_hex: "hex4 a b h k = Some x \<Longrightarrow> pstr (CHR 0x5C # CHR ''u'' # a # b # h # k # t) = cons_fst x (pstr t)"
  by (subst pstr.simps) (simp add: unescape_def)

lemma pstr_end: "pstr (CHR 0x22 # t) = Some ([], t)"
  by (subst pstr.simps) simp

lemma pstr_esc: "pstr (esc c @ t) = cons_fst c (pstr t)"
proof (cases "c \<in> {CHR 0x22, CHR 0x5C, CHR 0x0A, CHR 0x0D, CHR 0x09, CHR 0x0C, CHR 0x08}")
  case True
  then show ?thesis by (auto simp: esc_def printable_def pstr_escape unescape_def)
next
  case False
  show ?thesis
  proof (cases "printable c")
    case True
    then show ?thesis by (simp add: esc_def pstr_plain)
  next
    case False
    with \<open>c \<notin> _\<close> show ?thesis by (simp add: esc_def pstr_hex hex4_byte)
  qed
qed

lemma pstr_quote: "pstr (concat (map esc s) @ CHR 0x22 # t) = Some (s, t)"
  by (induction s) (simp_all add: pstr_esc pstr_end cons_fst_def)

definition num_stop :: "string \<Rightarrow> bool" where
  "num_stop s \<longleftrightarrow> s = [] \<or> (\<not> is_digit (hd s) \<and> \<not> float_mark (hd s))"

lemma nat_str_hd_zero: "hd (nat_str n) = CHR ''0'' \<Longrightarrow> n = 0"
proof (induction n rule: nat_str.induct)
  case (1 n)
  show ?case
  proof (cases "n < 10")
    case True
    with "1.prems" have "(of_char (digit_char n) :: nat) = 48"
      by (simp add: nat_str.simps [of n])
    with True show ?thesis by (simp add: digit_char_def)
  next
    case False
    with "1.prems" have "hd (nat_str (n div 10)) = CHR ''0''"
      by (simp add: nat_str.simps [of n])
    with 1 False show ?thesis by auto
  qed
qed

lemma nat_str_0 [simp]: "nat_str 0 = ''0''"
  by code_simp

lemma takeWhile_nat_str:
  "num_stop r \<Longrightarrow> takeWhile is_digit (nat_str n @ r) = nat_str n"
  "num_stop r \<Longrightarrow> dropWhile is_digit (nat_str n @ r) = r"
  using nat_str_digits [of n]
  by (cases r; auto simp: num_stop_def list_all_iff takeWhile_append dropWhile_append)+

lemma pnum_nat_str: "num_stop r \<Longrightarrow> pnum (nat_str n @ r) = Some (n, r)"
  using nat_str_hd_zero [of n] by (auto simp: pnum_def takeWhile_nat_str num_stop_def Let_def)

lemma skip_ws_space [simp]: "skip_ws (CHR '' '' # s) = skip_ws s"
  by (simp add: skip_ws_def is_ws_def)

lemma skip_ws_solid: "\<not> is_ws c \<Longrightarrow> skip_ws (c # s) = c # s"
  by (simp add: skip_ws_def)

lemma pj_space [simp]: "pj n (CHR '' '' # s) = pj n s"
  by (cases n) simp_all

lemma parr_space [simp]: "parr n (CHR '' '' # s) = parr n s"
  by (cases n) simp_all

lemma pobj_space [simp]: "pobj n (CHR '' '' # s) = pobj n s"
  by (cases n) simp_all

text \<open>The first character of a printed value is solid and closes no bracket.\<close>

definition opens :: "char \<Rightarrow> bool" where
  "opens c \<longleftrightarrow> \<not> is_ws c \<and> c \<noteq> CHR '']'' \<and> c \<noteq> CHR ''}''"

lemma digit_opens: "is_digit c \<Longrightarrow> opens c"
  by (auto simp: opens_def is_digit_def is_ws_def)

lemma nat_str_hd_digit: "is_digit (hd (nat_str n))"
  using nat_str_digits [of n] nat_str_nonempty [of n] by (cases "nat_str n") auto

lemma dumps_opens: "\<exists>c r. dumps j = c # r \<and> opens c"
proof (cases j)
  case (JInt i)
  have "\<exists>c r. nat_str n = c # r \<and> opens c" for n
    using nat_str_hd_digit [of n] by (cases "nat_str n") (auto intro: digit_opens)
  with JInt show ?thesis by (auto simp: int_str_def opens_def is_ws_def)
qed (auto simp: opens_def is_ws_def quote_def)

lemma dumps_list_opens: "xs \<noteq> [] \<Longrightarrow> \<exists>c r. dumps_list xs = c # r \<and> opens c"
  using dumps_opens by (cases xs rule: dumps_list.cases) (simp_all, metis append_Cons)

lemma num_stop_sep [simp]: "num_stop (CHR '','' # r)" "num_stop (CHR '']'' # r)" "num_stop (CHR ''}'' # r)"
  by (simp_all add: num_stop_def is_digit_def float_mark_def)

lemma pj_int: "num_stop r \<Longrightarrow> pj (Suc n) (int_str i @ r) = Some (JInt i, r)"
proof -
  assume r: "num_stop r"
  obtain d ds where d: "nat_str (nat i) = d # ds" "is_digit d"
    using nat_str_hd_digit [of "nat i"] nat_str_nonempty [of "nat i"]
    by (cases "nat_str (nat i)") auto
  then have "skip_ws (d # ds @ r) = d # ds @ r"
    using digit_opens [of d] by (simp add: skip_ws_solid opens_def)
  moreover have "d \<noteq> CHR ''{''" "d \<noteq> CHR ''[''" "d \<noteq> CHR 0x22" "d \<noteq> CHR ''-''"
    using d(2) by (auto simp: is_digit_def)
  ultimately show ?thesis
    using r d pnum_nat_str [OF r, of "nat i"] pnum_nat_str [OF r, of "nat (- i)"]
    by (auto simp: int_str_def skip_ws_solid is_ws_def)
qed

lemma skip_ws_opens: "opens c \<Longrightarrow> skip_ws (c # s) = c # s"
  by (simp add: opens_def skip_ws_solid)

lemma solids [simp]:
  "skip_ws (CHR '']'' # s) = CHR '']'' # s" "skip_ws (CHR ''}'' # s) = CHR ''}'' # s"
  "skip_ws (CHR ''['' # s) = CHR ''['' # s" "skip_ws (CHR ''{'' # s) = CHR ''{'' # s"
  "skip_ws (CHR '','' # s) = CHR '','' # s" "skip_ws (CHR '':'' # s) = CHR '':'' # s"
  "skip_ws (CHR 0x22 # s) = CHR 0x22 # s" "skip_ws (CHR ''n'' # s) = CHR ''n'' # s"
  "skip_ws (CHR ''t'' # s) = CHR ''t'' # s" "skip_ws (CHR ''f'' # s) = CHR ''f'' # s"
  by (simp_all add: skip_ws_solid is_ws_def)

lemma dumps_pairs_quote: "ps \<noteq> [] \<Longrightarrow> \<exists>r. dumps_pairs ps = CHR 0x22 # r"
  by (cases ps rule: dumps_pairs.cases) (auto simp: quote_def)

lemma is_digit_facts [simp]:
  "\<not> is_digit (CHR ''n'')" "\<not> is_digit (CHR ''t'')" "\<not> is_digit (CHR ''f'')"
  by (simp_all add: is_digit_def)

lemma parse_dumps:
  "jwf j \<Longrightarrow> length (dumps j) \<le> n \<Longrightarrow> num_stop r \<Longrightarrow> pj n (dumps j @ r) = Some (j, r)"
  "list_all jwf xs \<Longrightarrow> xs \<noteq> [] \<Longrightarrow> length (dumps_list xs) < n
   \<Longrightarrow> parr n (dumps_list xs @ CHR '']'' # r) = Some (xs, r)"
  "list_all jwf (map snd ps) \<Longrightarrow> ps \<noteq> [] \<Longrightarrow> length (dumps_pairs ps) < n
   \<Longrightarrow> pobj n (dumps_pairs ps @ CHR ''}'' # r) = Some (ps, r)"
proof (induction j and xs and ps arbitrary: n r and n r and n r
       rule: dumps_dumps_list_dumps_pairs.induct)
  case 1
  then show ?case by (cases n) (simp_all add: literal_def startswith_def)
next
  case (2 b)
  then show ?case by (cases n; cases b) (simp_all add: literal_def startswith_def)
next
  case (3 i)
  then show ?case
    using dumps_opens [of "JInt i"] by (cases n) (auto simp: pj_int simp del: pj.simps)
next
  case (4 s)
  then show ?case by (cases n) (simp_all add: quote_def pstr_quote)
next
  case (5 xs)
  then obtain m where n: "n = Suc m" by (cases n) auto
  show ?case
  proof (cases "xs = []")
    case True
    with n show ?thesis by simp
  next
    case False
    obtain c t where c: "dumps_list xs = c # t" "opens c" using dumps_list_opens [OF False] by blast
    have "parr m (dumps_list xs @ CHR '']'' # r) = Some (xs, r)"
      using 5 False n by simp
    with c n show ?thesis by (simp add: skip_ws_opens) (simp add: opens_def)
  qed
next
  case (6 ps)
  then obtain m where n: "n = Suc m" by (cases n) auto
  show ?case
  proof (cases "ps = []")
    case True
    with n show ?thesis by (simp add: dict_of_def)
  next
    case False
    obtain t where c: "dumps_pairs ps = CHR 0x22 # t" using dumps_pairs_quote [OF False] by blast
    have "pobj m (dumps_pairs ps @ CHR ''}'' # r) = Some (ps, r)"
      using 6 False n by simp
    with c n 6 show ?thesis by (simp add: dict_of_distinct)
  qed
next
  case 7
  then show ?case by simp
next
  case (8 x)
  then show ?case by (cases n) simp_all
next
  case (9 x y xs)
  then show ?case by (cases n) simp_all
next
  case 10
  then show ?case by simp
next
  case (11 k v)
  then show ?case by (cases n) (simp_all add: quote_def pstr_quote)
next
  case (12 k v q ps)
  then show ?case by (cases n) (simp_all add: quote_def pstr_quote)
qed

theorem loads_dumps: "jwf j \<Longrightarrow> loads (dumps j) = Some j"
  using parse_dumps(1) [of j "Suc (length (dumps j))" "[]"]
  by (simp add: loads_def num_stop_def skip_ws_def del: pj.simps)

interpretation json: codec dumps loads jwf
  by unfold_locales (rule loads_dumps)

lemma dumps_nonempty [simp]: "dumps j \<noteq> []"
  using dumps_opens [of j] by auto

end
