(* ===== verification/Raft_Node.thy ===== *)
theory Raft_Node
  imports Json
begin

text \<open>
  The consensus engine of \<open>part2_3_replication/raft_node.py\<close>: the state of one
  \<open>RaftNode\<close> and one definition per method.

  A method that runs under \<open>self.lock\<close> is one function on the node's record: the lock
  makes it atomic. A method that releases the lock in the middle is one function per locked
  section (\<open>append_entry\<close>: the append and the wait; an election: its start, each reply, its
  end; the applier: collecting and applying). What a closure captures is state: an election
  in progress is a \<open>ballot\<close>, a waiter object is a cell of \<open>waiters\<close> that
  \<open>commit_waiters\<close> points to, so the caller still sees it after it left the map; the cell also
  holds the index the waiting call of \<open>append_entry\<close> has in its local variable \<open>idx\<close>.

  Terms, indices and node ids are \<open>nat\<close>: they come from counters that start at 0 and from
  peers that run this code. \<open>client_id\<close> and \<open>seq_num\<close> come from clients, so
  \<open>seq_num\<close> is an \<open>int\<close>. Timers are modelled by whether they are armed; a timeout is
  a step of the environment. The two files under \<open>persist_dir\<close> are the JSON texts the code
  writes (\<open>None\<close>: no file yet).
\<close>

section \<open>State\<close>

record log_entry =
  e_term :: nat
  e_index :: nat
  op_type :: string
  filename :: string
  data :: string            \<comment> \<open>hexadecimal in the log, bytes when handed to \<open>apply_fn\<close>\<close>
  client_id :: string
  seq_num :: int

datatype role = Follower | Candidate | Leader

text \<open>What \<open>apply_fn\<close> returned (a dict or \<open>None\<close>) or raised.\<close>

datatype outcome = RNone | RDict "(string, pyval) dict" | RExn exn

record waiter =
  w_index :: nat            \<comment> \<open>the caller's local \<open>idx\<close>\<close>
  w_term :: nat
  w_client :: string
  w_seq :: int
  w_event :: bool
  w_result :: outcome

record ballot =
  b_last_idx :: nat
  b_last_term :: nat
  b_votes :: nat
  b_needed :: nat

record raft_node =
  node_id :: nat
  peers :: "(nat, addr) dict"
  current_term :: nat
  voted_for :: "nat option"
  log :: "log_entry list"
  commit_index :: nat
  last_applied :: nat
  state :: role
  leader_id :: "nat option"
  next_index :: "(nat, nat) dict"
  match_index :: "(nat, nat) dict"
  election_timer :: bool
  hb_threads :: nat
  ballots :: "(nat, ballot) dict"
  apply_queue :: "(nat \<times> log_entry) list"
  waiters :: "waiter list"
  commit_waiters :: "(nat, nat) dict"
  isolated :: bool
  heal_timer :: bool
  disk_hard :: "string option"
  disk_log :: "string option"

record rv_args =
  rv_term :: nat
  rv_candidate :: nat
  rv_last_idx :: nat
  rv_last_term :: nat

record rv_reply =
  rvr_term :: nat
  rvr_granted :: bool

record ae_args =
  ae_term :: nat
  ae_leader :: nat
  ae_prev_idx :: nat
  ae_prev_term :: nat
  ae_entries :: "log_entry list"
  ae_commit :: nat

record ae_reply =
  aer_term :: nat
  aer_success :: bool
  aer_conflict_idx :: nat
  aer_conflict_term :: nat

record is_args =
  is_term :: nat
  is_leader_id :: nat
  is_last_idx :: nat
  is_last_term :: nat
  is_data :: bytes

section \<open>Log helpers\<close>

definition last_log_index :: "raft_node \<Rightarrow> nat" where
  "last_log_index nd = (if log nd = [] then 0 else e_index (last (log nd)))"

definition last_log_term :: "raft_node \<Rightarrow> nat" where
  "last_log_term nd = (if log nd = [] then 0 else e_term (last (log nd)))"

definition noop_entry :: "nat \<Rightarrow> nat \<Rightarrow> log_entry" where
  "noop_entry t i = \<lparr>e_term = t, e_index = i, op_type = ''noop'', filename = [], data = [],
                     client_id = [], seq_num = 0\<rparr>"

section \<open>Persistence\<close>

definition hard_state_json :: "nat \<Rightarrow> nat option \<Rightarrow> json" where
  "hard_state_json t v = JObj [(''current_term'', JInt (int t)),
     (''voted_for'', case v of None \<Rightarrow> JNull | Some c \<Rightarrow> JInt (int c))]"

definition entry_json :: "log_entry \<Rightarrow> json" where
  "entry_json e = JObj [(''term'', JInt (int (e_term e))), (''index'', JInt (int (e_index e))),
     (''op_type'', JStr (op_type e)), (''filename'', JStr (filename e)), (''data'', JStr (data e)),
     (''client_id'', JStr (client_id e)), (''seq_num'', JInt (seq_num e))]"

definition json_entry :: "json \<Rightarrow> log_entry option" where
  "json_entry j = (case j of JObj d \<Rightarrow>
     (case (jget d ''term'', jget d ''index'', jget d ''op_type'', jget d ''filename'',
            jget d ''data'', jget d ''client_id'', jget d ''seq_num'') of
        (Some (JInt t), Some (JInt i), Some (JStr p), Some (JStr f), Some (JStr b), Some (JStr c),
         Some (JInt s)) \<Rightarrow>
          Some \<lparr>e_term = nat t, e_index = nat i, op_type = p, filename = f, data = b,
                client_id = c, seq_num = s\<rparr>
      | _ \<Rightarrow> None)
   | _ \<Rightarrow> None)"

definition persist_hard_state :: "raft_node \<Rightarrow> raft_node" where
  "persist_hard_state nd =
     nd\<lparr>disk_hard := Some (dumps (hard_state_json (current_term nd) (voted_for nd)))\<rparr>"

definition persist_log :: "raft_node \<Rightarrow> raft_node" where
  "persist_log nd = nd\<lparr>disk_log := Some (dumps (JArr (map entry_json (log nd))))\<rparr>"

definition load_hard_state :: "raft_node \<Rightarrow> raft_node" where
  "load_hard_state nd =
     (case disk_hard nd of
        None \<Rightarrow> nd
      | Some s \<Rightarrow>
          (case loads s of
             Some (JObj d) \<Rightarrow>
               nd\<lparr>current_term := (case jget d ''current_term'' of Some (JInt t) \<Rightarrow> nat t | _ \<Rightarrow> 0),
                  voted_for := (case jget d ''voted_for'' of Some (JInt c) \<Rightarrow> Some (nat c) | _ \<Rightarrow> None)\<rparr>
           | _ \<Rightarrow> nd))"

definition load_log :: "raft_node \<Rightarrow> raft_node" where
  "load_log nd =
     (case disk_log nd of
        None \<Rightarrow> nd
      | Some s \<Rightarrow>
          (case loads s of
             Some (JArr js) \<Rightarrow>
               (case those (map json_entry js) of Some es \<Rightarrow> nd\<lparr>log := es\<rparr> | None \<Rightarrow> nd)
           | _ \<Rightarrow> nd))"

definition load_persistent_state :: "raft_node \<Rightarrow> raft_node" where
  "load_persistent_state nd = load_log (load_hard_state nd)"

section \<open>Timers, waiters, stepping down\<close>

definition reset_election_timer :: "raft_node \<Rightarrow> raft_node" where
  "reset_election_timer nd = nd\<lparr>election_timer := True\<rparr>"

definition fail_waiter :: "exn \<Rightarrow> waiter \<Rightarrow> waiter" where
  "fail_waiter x w =
     w\<lparr>w_result := (if w_result w = RNone then RExn x else w_result w), w_event := True\<rparr>"

definition fail_all_waiters :: "exn \<Rightarrow> raft_node \<Rightarrow> raft_node" where
  "fail_all_waiters x nd =
     nd\<lparr>waiters := foldl (\<lambda>ws r. ws[r := fail_waiter x (ws ! r)]) (waiters nd)
                       (dvalues (commit_waiters nd)),
        commit_waiters := []\<rparr>"

definition become_follower :: "nat \<Rightarrow> raft_node \<Rightarrow> raft_node" where
  "become_follower t nd =
     fail_all_waiters (NotLeaderError None None)
       (reset_election_timer
         (persist_hard_state (nd\<lparr>state := Follower, current_term := t, voted_for := None\<rparr>)))"

definition candidate_log_up_to_date :: "raft_node \<Rightarrow> nat \<Rightarrow> nat \<Rightarrow> bool" where
  "candidate_log_up_to_date nd cand_idx cand_term =
     (if cand_term \<noteq> last_log_term nd then cand_term > last_log_term nd
      else cand_idx \<ge> last_log_index nd)"

text \<open>\<open>__init__\<close>: the volatile fields at their initial values, then the files are read.\<close>

definition init_node :: "nat \<Rightarrow> (nat, addr) dict \<Rightarrow> string option \<Rightarrow> string option \<Rightarrow> raft_node" where
  "init_node i ps hard lg =
     reset_election_timer (load_persistent_state
       \<lparr>node_id = i, peers = ps, current_term = 0, voted_for = None, log = [],
        commit_index = 0, last_applied = 0, state = Follower, leader_id = None,
        next_index = [], match_index = [], election_timer = False, hb_threads = 0,
        ballots = [], apply_queue = [], waiters = [], commit_waiters = [],
        isolated = False, heal_timer = False, disk_hard = hard, disk_log = lg\<rparr>)"

section \<open>Public queries\<close>

definition is_leader :: "raft_node \<Rightarrow> bool" where
  "is_leader nd \<longleftrightarrow> state nd = Leader"

definition get_leader_info :: "raft_node \<Rightarrow> nat option \<times> addr option" where
  "get_leader_info nd =
     (case leader_id nd of
        None \<Rightarrow> (None, None)
      | Some l \<Rightarrow> if l = node_id nd then (Some l, None) else (Some l, dget (peers nd) l))"

record node_status =
  s_node_id :: nat
  s_state :: role
  s_term :: nat
  s_leader_id :: "nat option"
  s_commit_index :: nat
  s_last_applied :: nat
  s_last_log_index :: nat
  s_last_log_term :: nat
  s_isolated :: bool
  s_match_index :: "(nat, nat) dict"

definition status :: "raft_node \<Rightarrow> node_status" where
  "status nd =
     \<lparr>s_node_id = node_id nd, s_state = state nd, s_term = current_term nd,
      s_leader_id = leader_id nd, s_commit_index = commit_index nd,
      s_last_applied = last_applied nd, s_last_log_index = last_log_index nd,
      s_last_log_term = last_log_term nd, s_isolated = isolated nd,
      s_match_index = (if state nd = Leader then match_index nd else [])\<rparr>"

text \<open>\<open>heal_after > 0\<close> arms the timer that will call \<open>set_isolated(False)\<close>.\<close>

definition set_isolated :: "bool \<Rightarrow> bool \<Rightarrow> raft_node \<Rightarrow> raft_node" where
  "set_isolated on heal nd = nd\<lparr>isolated := on, heal_timer := (on \<and> heal)\<rparr>"

definition heal :: "raft_node \<Rightarrow> raft_node" where
  "heal nd = set_isolated False False nd"

section \<open>RPC handlers\<close>

definition handle_request_vote :: "rv_args \<Rightarrow> raft_node \<Rightarrow> raft_node \<times> rv_reply" where
  "handle_request_vote a nd0 =
     (let nd = (if rv_term a > current_term nd0 then become_follower (rv_term a) nd0 else nd0);
          granted = (rv_term a \<ge> current_term nd
                     \<and> (voted_for nd = None \<or> voted_for nd = Some (rv_candidate a))
                     \<and> candidate_log_up_to_date nd (rv_last_idx a) (rv_last_term a));
          nd' = (if granted
                 then reset_election_timer
                        (persist_hard_state (nd\<lparr>voted_for := Some (rv_candidate a)\<rparr>))
                 else nd)
      in (nd', \<lparr>rvr_term = current_term nd', rvr_granted = granted\<rparr>))"

text \<open>The \<open>while ci > 1 and self.log[ci - 2]["term"] == conflict_term\<close> loop.\<close>

fun conflict_start :: "log_entry list \<Rightarrow> nat \<Rightarrow> nat \<Rightarrow> nat" where
  "conflict_start l t 0 = 0"
| "conflict_start l t (Suc c) =
     (if Suc c > 1 \<and> e_term (l ! (Suc c - 2)) = t then conflict_start l t c else Suc c)"

text \<open>The \<open>for entry in entries\<close> loop: the log and the running \<open>insert_at\<close>.\<close>

fun append_new :: "log_entry list \<Rightarrow> nat \<Rightarrow> log_entry list \<Rightarrow> log_entry list" where
  "append_new l pos [] = l"
| "append_new l pos (e # es) =
     (if pos < length l then
        (if e_term (l ! pos) \<noteq> e_term e
         then append_new (take pos l @ [e]) (pos + 1) es
         else append_new l (pos + 1) es)
      else append_new (l @ [e]) (pos + 1) es)"

definition ae_reject :: "raft_node \<Rightarrow> nat \<Rightarrow> nat \<Rightarrow> ae_reply" where
  "ae_reject nd ci ct = \<lparr>aer_term = current_term nd, aer_success = False,
                         aer_conflict_idx = ci, aer_conflict_term = ct\<rparr>"

text \<open>The part after the consistency check: append, persist, advance the commit index.\<close>

definition ae_accept :: "ae_args \<Rightarrow> raft_node \<Rightarrow> raft_node \<times> (exn + ae_reply)" where
  "ae_accept a nd =
     (let nd1 = nd\<lparr>log := append_new (log nd) (ae_prev_idx a) (ae_entries a)\<rparr>;
          nd2 = (if ae_entries a \<noteq> [] then persist_log nd1 else nd1);
          nd3 = (if ae_commit a > commit_index nd2
                 then nd2\<lparr>commit_index := min (ae_commit a) (last_log_index nd2)\<rparr> else nd2)
      in (nd3, Inr \<lparr>aer_term = current_term nd3, aer_success = True,
                    aer_conflict_idx = 0, aer_conflict_term = 0\<rparr>))"

text \<open>A request of the current or a later term comes from its leader: follow it.\<close>

definition ae_follow :: "ae_args \<Rightarrow> raft_node \<Rightarrow> raft_node" where
  "ae_follow a nd =
     (let nd1 = (if ae_term a > current_term nd then become_follower (ae_term a) nd
                 else if state nd = Candidate then become_follower (ae_term a) nd
                 else nd)
      in reset_election_timer (nd1\<lparr>leader_id := Some (ae_leader a)\<rparr>))"

definition handle_append_entries :: "ae_args \<Rightarrow> raft_node \<Rightarrow> raft_node \<times> (exn + ae_reply)" where
  "handle_append_entries a nd0 =
     (if ae_term a < current_term nd0 then (nd0, Inr (ae_reject nd0 0 0))
      else
        (let nd = ae_follow a nd0; p = ae_prev_idx a
         in if p > 0 then
              (if last_log_index nd < p then (nd, Inr (ae_reject nd (last_log_index nd + 1) 0))
               else if length (log nd) < p then (nd, Inl IndexError)
               else (let et = e_term (log nd ! (p - 1)) in
                     if et \<noteq> ae_prev_term a
                     then (nd, Inr (ae_reject nd (conflict_start (log nd) et p) et))
                     else ae_accept a nd))
            else ae_accept a nd))"

text \<open>
  \<open>handle_install_snapshot\<close>: a locked section, the state machine's \<open>apply_fn\<close> outside the
  lock, a second locked section. \<open>apply_fn\<close> is an argument; its exceptions are caught.
\<close>

definition install_snapshot_begin :: "is_args \<Rightarrow> raft_node \<Rightarrow> raft_node" where
  "install_snapshot_begin a nd0 =
     (let nd = (if is_term a > current_term nd0 then become_follower (is_term a) nd0 else nd0)
      in reset_election_timer (nd\<lparr>leader_id := Some (is_leader_id a)\<rparr>))"

definition install_snapshot_end :: "is_args \<Rightarrow> raft_node \<Rightarrow> raft_node \<times> nat" where
  "install_snapshot_end a nd =
     (let l = (if is_last_idx a \<le> last_log_index nd then drop (is_last_idx a) (log nd)
               else [noop_entry (is_last_term a) (is_last_idx a)]);
          nd' = persist_log (nd\<lparr>log := l, commit_index := max (commit_index nd) (is_last_idx a),
                                last_applied := max (last_applied nd) (is_last_idx a)\<rparr>)
      in (nd', current_term nd'))"

definition handle_install_snapshot ::
  "(bytes \<Rightarrow> 's \<Rightarrow> 's) \<Rightarrow> is_args \<Rightarrow> raft_node \<Rightarrow> 's \<Rightarrow> raft_node \<times> 's \<times> nat" where
  "handle_install_snapshot apply_snapshot a nd sm =
     (let nd1 = install_snapshot_begin a nd;
          sm' = apply_snapshot (is_data a) sm;
          (nd2, t) = install_snapshot_end a nd1
      in (nd2, sm', t))"

section \<open>Elections\<close>

definition majority :: "raft_node \<Rightarrow> nat" where
  "majority nd = (length (peers nd) + 1) div 2 + 1"

text \<open>
  The first locked section of \<open>_start_election\<close>, run when the election timer fires. The
  votes of the election are the ballot kept under its term.
\<close>

definition start_election :: "raft_node \<Rightarrow> raft_node" where
  "start_election nd0 =
     (let nd = nd0\<lparr>election_timer := False\<rparr> in
      if state nd = Leader then nd
      else
        (let nd1 = persist_hard_state
                     (nd\<lparr>state := Candidate, current_term := current_term nd + 1,
                         voted_for := Some (node_id nd), leader_id := None\<rparr>)
         in nd1\<lparr>ballots := dset (ballots nd1) (current_term nd1)
                  \<lparr>b_last_idx = last_log_index nd1, b_last_term = last_log_term nd1,
                   b_votes = 1, b_needed = majority nd1\<rparr>\<rparr>))"

text \<open>What \<open>request_vote_from\<close> sends for the election of term \<open>t\<close>; nothing while isolated.\<close>

definition request_vote_msg :: "raft_node \<Rightarrow> nat \<Rightarrow> rv_args option" where
  "request_vote_msg nd t =
     (if isolated nd then None
      else case dget (ballots nd) t of
             None \<Rightarrow> None
           | Some b \<Rightarrow> Some \<lparr>rv_term = t, rv_candidate = node_id nd,
                             rv_last_idx = b_last_idx b, rv_last_term = b_last_term b\<rparr>)"

definition handle_vote_reply :: "nat \<Rightarrow> rv_reply \<Rightarrow> raft_node \<Rightarrow> raft_node" where
  "handle_vote_reply t r nd =
     (if rvr_term r > current_term nd then become_follower (rvr_term r) nd
      else if rvr_granted r then
        (case dget (ballots nd) t of
           None \<Rightarrow> nd
         | Some b \<Rightarrow> nd\<lparr>ballots := dset (ballots nd) t (b\<lparr>b_votes := b_votes b + 1\<rparr>)\<rparr>)
      else nd)"

definition become_leader :: "raft_node \<Rightarrow> raft_node" where
  "become_leader nd0 =
     (let me = node_id nd0; last_idx = last_log_index nd0;
          nd1 = nd0\<lparr>state := Leader, leader_id := Some me,
                    next_index := foldl (\<lambda>d p. dset d p (last_idx + 1)) (next_index nd0) (dkeys (peers nd0)),
                    match_index := dset (foldl (\<lambda>d p. dset d p 0) (match_index nd0) (dkeys (peers nd0)))
                                     me last_idx\<rparr>;
          nd2 = persist_log (nd1\<lparr>log := log nd1 @ [noop_entry (current_term nd1) (last_idx + 1)]\<rparr>)
      in nd2\<lparr>match_index := dset (match_index nd2) me (last_idx + 1),
             next_index := dset (next_index nd2) me (last_idx + 2),
             election_timer := False, hb_threads := hb_threads nd2 + 1\<rparr>)"

text \<open>The last locked section of \<open>_start_election\<close>, after the wait for votes.\<close>

definition finish_election :: "nat \<Rightarrow> raft_node \<Rightarrow> raft_node" where
  "finish_election t nd0 =
     (case dget (ballots nd0) t of
        None \<Rightarrow> nd0
      | Some b \<Rightarrow>
          (let nd = nd0\<lparr>ballots := dpop (ballots nd0) t\<rparr> in
           if state nd \<noteq> Candidate \<or> current_term nd \<noteq> t then nd
           else if b_votes b \<ge> b_needed b then become_leader nd
           else reset_election_timer nd))"

section \<open>Leader behaviour\<close>

text \<open>One turn of the heartbeat loop: \<open>False\<close> ends the thread.\<close>

definition hb_turn :: "raft_node \<Rightarrow> raft_node \<times> bool" where
  "hb_turn nd = (if state nd \<noteq> Leader then (nd\<lparr>hb_threads := hb_threads nd - 1\<rparr>, False) else (nd, True))"

text \<open>
  The request for one peer. \<open>None\<close>: nothing is sent. Reading \<open>self.log[prev_idx - 1]\<close> past
  the end of the log raises.
\<close>

definition append_entries_msg :: "raft_node \<Rightarrow> nat \<Rightarrow> exn + ae_args option" where
  "append_entries_msg nd peer =
     (if state nd \<noteq> Leader \<or> isolated nd then Inr None
      else
        (let prev = dget_or (next_index nd) peer 1 - 1 in
         if prev > length (log nd) then Inl IndexError
         else Inr (Some
           \<lparr>ae_term = current_term nd, ae_leader = node_id nd, ae_prev_idx = prev,
            ae_prev_term = (if prev > 0 then e_term (log nd ! (prev - 1)) else 0),
            ae_entries = drop prev (log nd), ae_commit = commit_index nd\<rparr>)))"

definition replicated_count :: "raft_node \<Rightarrow> nat \<Rightarrow> nat" where
  "replicated_count nd idx = length (filter (\<lambda>m. m \<ge> idx) (dvalues (match_index nd)))"

fun advance_from :: "raft_node \<Rightarrow> nat \<Rightarrow> raft_node" where
  "advance_from nd 0 = nd"
| "advance_from nd (Suc i) =
     (if Suc i \<le> commit_index nd then nd
      else if replicated_count nd (Suc i) \<ge> majority nd \<and> Suc i \<le> length (log nd)
              \<and> e_term (log nd ! i) = current_term nd
           then nd\<lparr>commit_index := Suc i\<rparr>
           else advance_from nd i)"

definition advance_commit_index :: "raft_node \<Rightarrow> raft_node" where
  "advance_commit_index nd = advance_from nd (last_log_index nd)"

text \<open>The \<open>for i in range(len(self.log) - 1, -1, -1)\<close> loop: 0 when no entry has the term.\<close>

fun last_with_term :: "log_entry list \<Rightarrow> nat \<Rightarrow> nat \<Rightarrow> nat" where
  "last_with_term l t 0 = 0"
| "last_with_term l t (Suc i) = (if e_term (l ! i) = t then Suc i else last_with_term l t i)"

text \<open>The reply to the request \<open>a\<close> sent to \<open>peer\<close>.\<close>

definition handle_append_reply :: "nat \<Rightarrow> ae_args \<Rightarrow> ae_reply \<Rightarrow> raft_node \<Rightarrow> raft_node" where
  "handle_append_reply peer a r nd =
     (if aer_term r > current_term nd then become_follower (aer_term r) nd
      else if state nd \<noteq> Leader then nd
      else if aer_success r then
        (let new_match = ae_prev_idx a + length (ae_entries a);
             nd1 = (if new_match > dget_or (match_index nd) peer 0
                    then nd\<lparr>match_index := dset (match_index nd) peer new_match,
                            next_index := dset (next_index nd) peer (new_match + 1)\<rparr>
                    else nd)
         in advance_commit_index nd1)
      else
        (let ci = aer_conflict_idx r; ct = aer_conflict_term r in
         if ct > 0 then
           (let found = last_with_term (log nd) ct (length (log nd))
            in nd\<lparr>next_index := dset (next_index nd) peer (if found \<noteq> 0 then found + 1 else ci)\<rparr>)
         else nd\<lparr>next_index := dset (next_index nd) peer (max 1 ci)\<rparr>))"

section \<open>Client entries\<close>

definition client_entry ::
  "nat \<Rightarrow> nat \<Rightarrow> string \<Rightarrow> string \<Rightarrow> bytes \<Rightarrow> string \<Rightarrow> int \<Rightarrow> log_entry" where
  "client_entry t i op f b c s =
     \<lparr>e_term = t, e_index = i, op_type = op, filename = f, data = hex b, client_id = c, seq_num = s\<rparr>"

text \<open>The locked section of \<open>append_entry\<close>: the new node, the entry's index and its waiter.\<close>

definition append_entry_begin ::
  "string \<Rightarrow> string \<Rightarrow> bytes \<Rightarrow> string \<Rightarrow> int \<Rightarrow> raft_node \<Rightarrow> exn + (raft_node \<times> nat \<times> nat)" where
  "append_entry_begin op f b c s nd =
     (if state nd \<noteq> Leader
      then Inl (NotLeaderError (leader_id nd)
                  (case leader_id nd of None \<Rightarrow> None | Some l \<Rightarrow> dget (peers nd) l))
      else
        (let idx = last_log_index nd + 1; ref = length (waiters nd);
             nd1 = persist_log (nd\<lparr>log := log nd @ [client_entry (current_term nd) idx op f b c s]\<rparr>)
         in Inr (nd1\<lparr>match_index := dset (match_index nd1) (node_id nd) idx,
                     next_index := dset (next_index nd1) (node_id nd) (idx + 1),
                     waiters := waiters nd1 @ [\<lparr>w_index = idx, w_term = current_term nd, w_client = c, w_seq = s,
                                               w_event = False, w_result = RNone\<rparr>],
                     commit_waiters := dset (commit_waiters nd1) idx ref\<rparr>, idx, ref)))"

text \<open>
  The end of \<open>append_entry\<close>, when the event was set or the wait timed out.
  \<open>Inr None\<close> is Python's \<open>None\<close> (a committed no-op).
\<close>

definition append_entry_end :: "nat \<Rightarrow> nat \<Rightarrow> raft_node \<Rightarrow> raft_node \<times> (exn + (string, pyval) dict option)" where
  "append_entry_end idx ref nd =
     (if \<not> w_event (waiters nd ! ref) then
        ((if dget (commit_waiters nd) idx = Some ref
          then nd\<lparr>commit_waiters := dpop (commit_waiters nd) idx\<rparr> else nd),
         Inl (TimeoutError (''Entry '' @ nat_str idx @ '' not committed within 10.0s'')))
      else (nd, case w_result (waiters nd ! ref) of
                  RExn x \<Rightarrow> Inl x
                | RNone \<Rightarrow> Inr None
                | RDict d \<Rightarrow> Inr (Some d)))"

section \<open>Applier thread\<close>

text \<open>
  One turn of the applier: the locked section that collects copies of the newly committed
  entries (when the previous ones are all applied), then one step per collected entry.
\<close>

definition to_apply :: "raft_node \<Rightarrow> (nat \<times> log_entry) list" where
  "to_apply nd = map (\<lambda>i. (i, log nd ! (i - 1)))
                   (filter (\<lambda>i. 1 \<le> i \<and> i \<le> length (log nd)) [last_applied nd + 1 ..< commit_index nd + 1])"

definition applier_collect :: "raft_node \<Rightarrow> raft_node" where
  "applier_collect nd =
     (if last_applied nd \<ge> commit_index nd then nd
      else nd\<lparr>apply_queue := to_apply nd, last_applied := commit_index nd\<rparr>)"

text \<open>The two shapes of argument \<open>RaftNode\<close> calls \<open>apply_fn\<close> with.\<close>

datatype apply_arg = SnapshotArg bytes | EntryArg log_entry

text \<open>
  The call of \<open>apply_fn\<close> for one entry: the entry's data as bytes, the new state of the
  state machine and what was returned or raised. A bad hexadecimal string raises
  \<open>ValueError\<close>, caught like any exception of \<open>apply_fn\<close>.
\<close>

definition run_apply :: "(log_entry \<Rightarrow> 's \<Rightarrow> 's \<times> (exn + (string, pyval) dict)) \<Rightarrow> log_entry \<Rightarrow> 's \<Rightarrow> 's \<times> outcome" where
  "run_apply apply_fn e sm =
     (if op_type e = ''noop'' then (sm, RNone)
      else (case (if data e = [] then Some [] else fromhex (data e)) of
              None \<Rightarrow> (sm, RExn (ValueError ''non-hexadecimal number found in fromhex() arg''))
            | Some b \<Rightarrow>
                (case apply_fn (e\<lparr>data := b\<rparr>) sm of
                   (sm', Inl x) \<Rightarrow> (sm', RExn x)
                 | (sm', Inr d) \<Rightarrow> (sm', RDict d))))"

text \<open>The second locked section of the loop: hand the result to the waiter of this index.\<close>

definition resolve_waiter :: "nat \<Rightarrow> log_entry \<Rightarrow> outcome \<Rightarrow> raft_node \<Rightarrow> raft_node" where
  "resolve_waiter idx e res nd =
     (case dget (commit_waiters nd) idx of
        None \<Rightarrow> nd
      | Some ref \<Rightarrow>
          (let w = waiters nd ! ref;
               same = (w_term w = e_term e \<and> w_client w = client_id e \<and> w_seq w = seq_num e);
               out = (if same then res
                      else RExn (NotLeaderError (leader_id nd)
                             (case leader_id nd of None \<Rightarrow> None | Some l \<Rightarrow> dget (peers nd) l)))
           in nd\<lparr>waiters := (waiters nd)[ref := w\<lparr>w_result := out, w_event := True\<rparr>],
                 commit_waiters := dpop (commit_waiters nd) idx\<rparr>))"

definition applier_apply ::
  "(log_entry \<Rightarrow> 's \<Rightarrow> 's \<times> (exn + (string, pyval) dict)) \<Rightarrow> raft_node \<Rightarrow> 's \<Rightarrow> raft_node \<times> 's" where
  "applier_apply apply_fn nd sm =
     (case apply_queue nd of
        [] \<Rightarrow> (nd, sm)
      | (idx, e) # q \<Rightarrow>
          (let (sm', res) = run_apply apply_fn e sm
           in (resolve_waiter idx e res (nd\<lparr>apply_queue := q\<rparr>), sm')))"

end
