(* ===== verification/Raft_Spec.thy ===== *)
theory Raft_Spec
  imports Raft_Node
begin

text \<open>
  The abstract Raft protocol: terms, votes, logs and commit indices of the nodes, plus what
  the safety argument remembers of the past (votes with the voter's log at that moment, the
  leader and the leader's log of each term, acknowledged prefixes, append requests sent).
  \<open>astep Q\<close> is its step relation over a quorum predicate \<open>Q\<close>; the locale
  \<open>quorum_system\<close> proves election safety, log matching, leader completeness and state
  machine safety for any \<open>Q\<close> whose quorums intersect.

  Two steps are those of this implementation, not of the Raft paper: \<open>step_down\<close> forgets
  the vote of a candidate that hears from the leader of its own term
  (\<open>_become_follower\<close> always clears \<open>voted_for\<close>), and \<open>accept\<close> bounds the
  follower's commit index by its own log length, not by the last new entry.
\<close>

section \<open>State and steps\<close>

record raft_spec =
  a_term :: "nat \<Rightarrow> nat"
  a_vote :: "nat \<Rightarrow> nat option"
  a_role :: "nat \<Rightarrow> role"
  a_log :: "nat \<Rightarrow> log_entry list"
  a_commit :: "nat \<Rightarrow> nat"
  a_votes :: "(nat \<times> nat \<times> nat \<times> log_entry list) set"
  a_ldr :: "nat \<Rightarrow> nat option"
  a_llog :: "nat \<Rightarrow> log_entry list"
  a_acks :: "(nat \<times> nat \<times> nat) set"
  a_ae :: "(nat \<times> nat \<times> nat \<times> log_entry list \<times> nat) set"

definition lterm :: "log_entry list \<Rightarrow> nat" where
  "lterm l = (if l = [] then 0 else e_term (last l))"

definition up_to_date :: "log_entry list \<Rightarrow> log_entry list \<Rightarrow> bool" where
  "up_to_date c l \<longleftrightarrow> lterm c > lterm l \<or> (lterm c = lterm l \<and> length c \<ge> length l)"

definition a_init :: raft_spec where
  "a_init = \<lparr>a_term = (\<lambda>_. 0), a_vote = (\<lambda>_. None), a_role = (\<lambda>_. Follower), a_log = (\<lambda>_. []),
             a_commit = (\<lambda>_. 0), a_votes = {}, a_ldr = (\<lambda>_. None), a_llog = (\<lambda>_. []),
             a_acks = {}, a_ae = {}\<rparr>"

definition a_timeout :: "nat \<Rightarrow> raft_spec \<Rightarrow> raft_spec" where
  "a_timeout n s = s\<lparr>a_term := (a_term s)(n := a_term s n + 1), a_vote := (a_vote s)(n := Some n),
     a_role := (a_role s)(n := Candidate),
     a_votes := insert (a_term s n + 1, n, n, a_log s n) (a_votes s)\<rparr>"

definition a_see_term :: "nat \<Rightarrow> nat \<Rightarrow> raft_spec \<Rightarrow> raft_spec" where
  "a_see_term n t s = s\<lparr>a_term := (a_term s)(n := t), a_vote := (a_vote s)(n := None),
     a_role := (a_role s)(n := Follower)\<rparr>"

definition a_step_down :: "nat \<Rightarrow> raft_spec \<Rightarrow> raft_spec" where
  "a_step_down n s = s\<lparr>a_vote := (a_vote s)(n := None), a_role := (a_role s)(n := Follower)\<rparr>"

definition a_grant :: "nat \<Rightarrow> nat \<Rightarrow> raft_spec \<Rightarrow> raft_spec" where
  "a_grant v c s = s\<lparr>a_vote := (a_vote s)(v := Some c),
     a_votes := insert (a_term s v, v, c, a_log s v) (a_votes s)\<rparr>"

definition a_lead :: "nat \<Rightarrow> log_entry \<Rightarrow> raft_spec \<Rightarrow> raft_spec" where
  "a_lead n e s = s\<lparr>a_role := (a_role s)(n := Leader),
     a_log := (a_log s)(n := a_log s n @ [e]),
     a_ldr := (a_ldr s)(a_term s n := Some n),
     a_llog := (a_llog s)(a_term s n := a_log s n @ [e]),
     a_acks := insert (a_term s n, n, length (a_log s n) + 1) (a_acks s)\<rparr>"

definition a_append :: "nat \<Rightarrow> log_entry \<Rightarrow> raft_spec \<Rightarrow> raft_spec" where
  "a_append n e s = s\<lparr>a_log := (a_log s)(n := a_log s n @ [e]),
     a_llog := (a_llog s)(a_term s n := a_log s n @ [e]),
     a_acks := insert (a_term s n, n, length (a_log s n) + 1) (a_acks s)\<rparr>"

definition a_send :: "nat \<Rightarrow> nat \<Rightarrow> raft_spec \<Rightarrow> raft_spec" where
  "a_send n p s =
     s\<lparr>a_ae := insert (a_term s n, n, p, drop p (a_log s n), a_commit s n) (a_ae s)\<rparr>"

definition a_accept :: "nat \<Rightarrow> nat \<Rightarrow> log_entry list \<Rightarrow> nat \<Rightarrow> raft_spec \<Rightarrow> raft_spec" where
  "a_accept n p es c s =
     (let l = append_new (a_log s n) p es in
      s\<lparr>a_log := (a_log s)(n := l),
        a_commit := (a_commit s)(n := if c > a_commit s n then min c (length l) else a_commit s n),
        a_acks := insert (a_term s n, n, p + length es) (a_acks s)\<rparr>)"

definition a_commit_to :: "nat \<Rightarrow> nat \<Rightarrow> raft_spec \<Rightarrow> raft_spec" where
  "a_commit_to n i s = s\<lparr>a_commit := (a_commit s)(n := i)\<rparr>"

definition a_restart :: "nat \<Rightarrow> raft_spec \<Rightarrow> raft_spec" where
  "a_restart n s = s\<lparr>a_role := (a_role s)(n := Follower), a_commit := (a_commit s)(n := 0)\<rparr>"

inductive astep :: "(nat set \<Rightarrow> bool) \<Rightarrow> raft_spec \<Rightarrow> raft_spec \<Rightarrow> bool" for Q where
  timeout: "a_role s n \<noteq> Leader \<Longrightarrow> astep Q s (a_timeout n s)"
| see_term: "a_term s n < t \<Longrightarrow> astep Q s (a_see_term n t s)"
| step_down: "a_role s n = Candidate \<Longrightarrow> a_ldr s (a_term s n) \<noteq> None \<Longrightarrow> astep Q s (a_step_down n s)"
| grant: "v \<noteq> c \<Longrightarrow> a_vote s v = None \<or> a_vote s v = Some c \<Longrightarrow> (a_term s v, c, c, l) \<in> a_votes s
    \<Longrightarrow> up_to_date l (a_log s v) \<Longrightarrow> astep Q s (a_grant v c s)"
| lead: "a_role s n = Candidate \<Longrightarrow> Q S \<Longrightarrow> \<forall>v\<in>S. \<exists>l. (a_term s n, v, n, l) \<in> a_votes s
    \<Longrightarrow> e_term e = a_term s n \<Longrightarrow> astep Q s (a_lead n e s)"
| append: "a_role s n = Leader \<Longrightarrow> e_term e = a_term s n \<Longrightarrow> astep Q s (a_append n e s)"
| send: "a_role s n = Leader \<Longrightarrow> p \<le> length (a_log s n) \<Longrightarrow> astep Q s (a_send n p s)"
| accept: "a_role s n \<noteq> Candidate \<Longrightarrow> n \<noteq> l \<Longrightarrow> (a_term s n, l, p, es, c) \<in> a_ae s
    \<Longrightarrow> p \<le> length (a_log s n)
    \<Longrightarrow> p > 0 \<longrightarrow> e_term (a_log s n ! (p - 1)) = e_term (a_llog s (a_term s n) ! (p - 1))
    \<Longrightarrow> astep Q s (a_accept n p es c s)"
| commit: "a_role s n = Leader \<Longrightarrow> 0 < i \<Longrightarrow> i \<le> length (a_log s n)
    \<Longrightarrow> e_term (a_log s n ! (i - 1)) = a_term s n
    \<Longrightarrow> Q S \<Longrightarrow> \<forall>v\<in>S. \<exists>m\<ge>i. (a_term s n, v, m) \<in> a_acks s \<Longrightarrow> astep Q s (a_commit_to n i s)"
| restart: "astep Q s (a_restart n s)"

section \<open>Invariants\<close>

text \<open>Every entry of the log was appended by the leader of its term, after the same prefix.\<close>

definition good_log :: "raft_spec \<Rightarrow> log_entry list \<Rightarrow> bool" where
  "good_log s l \<longleftrightarrow> (\<forall>k < length l. a_ldr s (e_term (l ! k)) \<noteq> None
                     \<and> take (Suc k) l = take (Suc k) (a_llog s (e_term (l ! k))))"

text \<open>
  A prefix of the term-\<open>t\<close> leader's log is still in \<open>l\<close>, or a leader of a later term up to
  \<open>u\<close> does not have it.
\<close>

definition kept :: "raft_spec \<Rightarrow> nat \<Rightarrow> nat \<Rightarrow> log_entry list \<Rightarrow> nat \<Rightarrow> bool" where
  "kept s t m l u \<longleftrightarrow>
     (m \<le> length l \<and> take m l = take m (a_llog s t))
     \<or> (\<exists>t'. t < t' \<and> t' \<le> u \<and> a_ldr s t' \<noteq> None \<and> take m (a_llog s t') \<noteq> take m (a_llog s t))"

definition committed :: "(nat set \<Rightarrow> bool) \<Rightarrow> raft_spec \<Rightarrow> nat \<Rightarrow> nat \<Rightarrow> bool" where
  "committed Q s t m \<longleftrightarrow> a_ldr s t \<noteq> None \<and> 0 < m \<and> m \<le> length (a_llog s t)
     \<and> e_term (a_llog s t ! (m - 1)) = t
     \<and> (\<exists>S. Q S \<and> (\<forall>v\<in>S. \<exists>m'\<ge>m. (t, v, m') \<in> a_acks s))"

definition inv_votes :: "raft_spec \<Rightarrow> bool" where
  "inv_votes s \<longleftrightarrow>
     (\<forall>t v c l. (t, v, c, l) \<in> a_votes s \<longrightarrow> 0 < t \<and> t \<le> a_term s v)
     \<and> (\<forall>t c l l'. (t, c, c, l) \<in> a_votes s \<longrightarrow> (t, c, c, l') \<in> a_votes s \<longrightarrow> l = l')
     \<and> (\<forall>n. a_role s n = Candidate \<longrightarrow> a_vote s n = Some n
            \<and> (a_term s n, n, n, a_log s n) \<in> a_votes s \<and> a_ldr s (a_term s n) \<noteq> Some n)
     \<and> (\<forall>v c l. (a_term s v, v, c, l) \<in> a_votes s \<longrightarrow> a_vote s v = Some c
            \<or> (c = v \<and> a_role s v = Follower \<and> (\<exists>k. a_ldr s (a_term s v) = Some k \<and> k \<noteq> v)))
     \<and> (\<forall>t v c c' l l'. (t, v, c, l) \<in> a_votes s \<longrightarrow> (t, v, c', l') \<in> a_votes s \<longrightarrow> c \<noteq> c'
            \<longrightarrow> (c = v \<or> c' = v) \<and> (\<exists>k. a_ldr s t = Some k \<and> k \<noteq> v))"

definition inv_leader :: "raft_spec \<Rightarrow> bool" where
  "inv_leader s \<longleftrightarrow>
     (\<forall>n. a_role s n = Leader \<longrightarrow> a_ldr s (a_term s n) = Some n \<and> a_log s n = a_llog s (a_term s n)
            \<and> a_vote s n = Some n)
     \<and> (\<forall>t k. a_ldr s t = Some k \<longrightarrow> (\<exists>c es. (t, k, k, c) \<in> a_votes s \<and> a_llog s t = c @ es
            \<and> es \<noteq> [] \<and> (\<forall>e\<in>set es. e_term e = t)))"

definition inv_logs :: "raft_spec \<Rightarrow> bool" where
  "inv_logs s \<longleftrightarrow>
     (\<forall>n. good_log s (a_log s n) \<and> (\<forall>e\<in>set (a_log s n). e_term e \<le> a_term s n))
     \<and> (\<forall>t. a_ldr s t \<noteq> None \<longrightarrow> good_log s (a_llog s t))
     \<and> (\<forall>t v c l. (t, v, c, l) \<in> a_votes s \<longrightarrow> good_log s l)
     \<and> (\<forall>t c l. (t, c, c, l) \<in> a_votes s \<longrightarrow> (\<forall>e\<in>set l. e_term e < t))
     \<and> (\<forall>t v c l. (t, v, c, l) \<in> a_votes s \<longrightarrow> (\<exists>l'. (t, c, c, l') \<in> a_votes s \<and> up_to_date l' l))"

definition inv_acks :: "raft_spec \<Rightarrow> bool" where
  "inv_acks s \<longleftrightarrow>
     (\<forall>t n m. (t, n, m) \<in> a_acks s \<longrightarrow> t \<le> a_term s n \<and> a_ldr s t \<noteq> None \<and> m \<le> length (a_llog s t))
     \<and> (\<forall>t n m' m. (t, n, m') \<in> a_acks s \<longrightarrow> m \<le> m' \<longrightarrow> kept s t m (a_log s n) (a_term s n))
     \<and> (\<forall>t n m' m u c l. (t, n, m') \<in> a_acks s \<longrightarrow> m \<le> m' \<longrightarrow> (u, n, c, l) \<in> a_votes s \<longrightarrow> t < u
            \<longrightarrow> kept s t m l u)"

definition inv_elected :: "(nat set \<Rightarrow> bool) \<Rightarrow> raft_spec \<Rightarrow> bool" where
  "inv_elected Q s \<longleftrightarrow>
     (\<forall>u k. a_ldr s u = Some k \<longrightarrow> (\<exists>S. Q S \<and> (\<forall>v\<in>S. \<exists>l. (u, v, k, l) \<in> a_votes s
        \<and> (\<forall>t m' m. (t, v, m') \<in> a_acks s \<longrightarrow> m \<le> m' \<longrightarrow> t < u \<longrightarrow> kept s t m l (u - 1)))))"

definition inv_commit :: "(nat set \<Rightarrow> bool) \<Rightarrow> raft_spec \<Rightarrow> bool" where
  "inv_commit Q s \<longleftrightarrow>
     (\<forall>n. a_commit s n \<le> length (a_log s n) \<and> (a_commit s n = 0
        \<or> (\<exists>t m. committed Q s t m \<and> a_commit s n \<le> m \<and> t \<le> a_term s n
                 \<and> take (a_commit s n) (a_log s n) = take (a_commit s n) (a_llog s t))))
     \<and> (\<forall>t k p es c. (t, k, p, es, c) \<in> a_ae s \<longrightarrow> a_ldr s t = Some k
        \<and> (\<exists>q. p \<le> q \<and> q \<le> length (a_llog s t) \<and> es = drop p (take q (a_llog s t)) \<and> c \<le> q)
        \<and> (c = 0 \<or> (\<exists>t0 m. committed Q s t0 m \<and> c \<le> m \<and> t0 \<le> t)))"

definition spec_inv :: "(nat set \<Rightarrow> bool) \<Rightarrow> raft_spec \<Rightarrow> bool" where
  "spec_inv Q s \<longleftrightarrow> inv_votes s \<and> inv_leader s \<and> inv_logs s \<and> inv_acks s \<and> inv_elected Q s \<and> inv_commit Q s"

lemma spec_inv_init: "spec_inv Q a_init"
  by (simp add: spec_inv_def inv_votes_def inv_leader_def inv_logs_def inv_acks_def inv_elected_def
      inv_commit_def a_init_def good_log_def)

text \<open>The conjuncts as rules.\<close>

lemma inv_votesD:
  assumes "inv_votes s"
  shows "(t, v, c, l) \<in> a_votes s \<Longrightarrow> 0 < t \<and> t \<le> a_term s v"
    and "(t, n, n, l) \<in> a_votes s \<Longrightarrow> (t, n, n, l') \<in> a_votes s \<Longrightarrow> l = l'"
    and "a_role s n = Candidate \<Longrightarrow> a_vote s n = Some n
           \<and> (a_term s n, n, n, a_log s n) \<in> a_votes s \<and> a_ldr s (a_term s n) \<noteq> Some n"
    and "(a_term s v, v, c, l) \<in> a_votes s \<Longrightarrow> a_vote s v = Some c
           \<or> (c = v \<and> a_role s v = Follower \<and> (\<exists>k. a_ldr s (a_term s v) = Some k \<and> k \<noteq> v))"
    and "(t, v, c, l) \<in> a_votes s \<Longrightarrow> (t, v, c', l') \<in> a_votes s \<Longrightarrow> c \<noteq> c'
           \<Longrightarrow> (c = v \<or> c' = v) \<and> (\<exists>k. a_ldr s t = Some k \<and> k \<noteq> v)"
    and "a_role s n = Candidate \<Longrightarrow> (a_term s n, n, c, l) \<in> a_votes s \<Longrightarrow> c = n"
proof -
  note a = assms [unfolded inv_votes_def]
  note i1 = conjunct1 [OF a] and a2 = conjunct2 [OF a]
  note i2 = conjunct1 [OF a2] and a3 = conjunct2 [OF a2]
  note i3 = conjunct1 [OF a3] and a4 = conjunct2 [OF a3]
  note i4 = conjunct1 [OF a4] and i5 = conjunct2 [OF a4]
  show "(t, v, c, l) \<in> a_votes s \<Longrightarrow> 0 < t \<and> t \<le> a_term s v" using i1 by blast
  show "(t, n, n, l) \<in> a_votes s \<Longrightarrow> (t, n, n, l') \<in> a_votes s \<Longrightarrow> l = l'" using i2 by blast
  show c: "a_role s n = Candidate \<Longrightarrow> a_vote s n = Some n
           \<and> (a_term s n, n, n, a_log s n) \<in> a_votes s \<and> a_ldr s (a_term s n) \<noteq> Some n" using i3 by blast
  show v: "(a_term s v, v, c, l) \<in> a_votes s \<Longrightarrow> a_vote s v = Some c
           \<or> (c = v \<and> a_role s v = Follower \<and> (\<exists>k. a_ldr s (a_term s v) = Some k \<and> k \<noteq> v))" for v
    using i4 by blast
  show "(t, v, c, l) \<in> a_votes s \<Longrightarrow> (t, v, c', l') \<in> a_votes s \<Longrightarrow> c \<noteq> c'
           \<Longrightarrow> (c = v \<or> c' = v) \<and> (\<exists>k. a_ldr s t = Some k \<and> k \<noteq> v)" using i5 by blast
  show "a_role s n = Candidate \<Longrightarrow> (a_term s n, n, c, l) \<in> a_votes s \<Longrightarrow> c = n"
    using c v [of n] by auto
qed

lemma inv_leaderD:
  assumes "inv_leader s"
  shows "a_role s n = Leader \<Longrightarrow> a_ldr s (a_term s n) = Some n \<and> a_log s n = a_llog s (a_term s n)
           \<and> a_vote s n = Some n"
    and "a_ldr s t = Some k \<Longrightarrow> \<exists>c es. (t, k, k, c) \<in> a_votes s \<and> a_llog s t = c @ es \<and> es \<noteq> []
           \<and> (\<forall>e\<in>set es. e_term e = t)"
  using assms unfolding inv_leader_def by simp_all

lemma inv_logsD:
  assumes "inv_logs s"
  shows "good_log s (a_log s n)"
    and "e \<in> set (a_log s n) \<Longrightarrow> e_term e \<le> a_term s n"
    and "a_ldr s t \<noteq> None \<Longrightarrow> good_log s (a_llog s t)"
    and "(t, v, c, l) \<in> a_votes s \<Longrightarrow> good_log s l"
    and "(t, c, c, l) \<in> a_votes s \<Longrightarrow> e \<in> set l \<Longrightarrow> e_term e < t"
    and "(t, v, c, l) \<in> a_votes s \<Longrightarrow> \<exists>l'. (t, c, c, l') \<in> a_votes s \<and> up_to_date l' l"
proof -
  note a = assms [unfolded inv_logs_def]
  note i1 = conjunct1 [OF a] and a2 = conjunct2 [OF a]
  note i2 = conjunct1 [OF a2] and a3 = conjunct2 [OF a2]
  note i3 = conjunct1 [OF a3] and a4 = conjunct2 [OF a3]
  note i4 = conjunct1 [OF a4] and i5 = conjunct2 [OF a4]
  show "good_log s (a_log s n)" using i1 by blast
  show "e \<in> set (a_log s n) \<Longrightarrow> e_term e \<le> a_term s n" using i1 by blast
  show "a_ldr s t \<noteq> None \<Longrightarrow> good_log s (a_llog s t)" using i2 by blast
  show "(t, v, c, l) \<in> a_votes s \<Longrightarrow> good_log s l" using i3 by blast
  show "(t, c, c, l) \<in> a_votes s \<Longrightarrow> e \<in> set l \<Longrightarrow> e_term e < t" using i4 by blast
  show "(t, v, c, l) \<in> a_votes s \<Longrightarrow> \<exists>l'. (t, c, c, l') \<in> a_votes s \<and> up_to_date l' l" using i5 by blast
qed

lemma inv_acksD:
  assumes "inv_acks s"
  shows "(t, n, m) \<in> a_acks s \<Longrightarrow> t \<le> a_term s n \<and> a_ldr s t \<noteq> None \<and> m \<le> length (a_llog s t)"
    and "(t, n, m') \<in> a_acks s \<Longrightarrow> m \<le> m' \<Longrightarrow> kept s t m (a_log s n) (a_term s n)"
    and "(t, n, m') \<in> a_acks s \<Longrightarrow> m \<le> m' \<Longrightarrow> (u, n, c, l) \<in> a_votes s \<Longrightarrow> t < u \<Longrightarrow> kept s t m l u"
proof -
  note a = assms [unfolded inv_acks_def]
  note i1 = conjunct1 [OF a] and i2 = conjunct1 [OF conjunct2 [OF a]] and i3 = conjunct2 [OF conjunct2 [OF a]]
  show "(t, n, m) \<in> a_acks s \<Longrightarrow> t \<le> a_term s n \<and> a_ldr s t \<noteq> None \<and> m \<le> length (a_llog s t)"
    using i1 by blast
  show "(t, n, m') \<in> a_acks s \<Longrightarrow> m \<le> m' \<Longrightarrow> kept s t m (a_log s n) (a_term s n)" using i2 by blast
  show "(t, n, m') \<in> a_acks s \<Longrightarrow> m \<le> m' \<Longrightarrow> (u, n, c, l) \<in> a_votes s \<Longrightarrow> t < u \<Longrightarrow> kept s t m l u"
    using i3 by blast
qed

lemma inv_electedD:
  assumes "inv_elected Q s" "a_ldr s u = Some k"
  obtains S where "Q S" "\<forall>v\<in>S. \<exists>l. (u, v, k, l) \<in> a_votes s
    \<and> (\<forall>t m' m. (t, v, m') \<in> a_acks s \<longrightarrow> m \<le> m' \<longrightarrow> t < u \<longrightarrow> kept s t m l (u - 1))"
  using assms unfolding inv_elected_def by blast

lemma inv_commitD:
  assumes "inv_commit Q s"
  shows "a_commit s n \<le> length (a_log s n)"
    and "0 < a_commit s n \<Longrightarrow> \<exists>t m. committed Q s t m \<and> a_commit s n \<le> m \<and> t \<le> a_term s n
           \<and> take (a_commit s n) (a_log s n) = take (a_commit s n) (a_llog s t)"
    and "(t, k, p, es, c) \<in> a_ae s \<Longrightarrow> a_ldr s t = Some k
           \<and> (\<exists>q. p \<le> q \<and> q \<le> length (a_llog s t) \<and> es = drop p (take q (a_llog s t)) \<and> c \<le> q)"
    and "(t, k, p, es, c) \<in> a_ae s \<Longrightarrow> 0 < c \<Longrightarrow> \<exists>t0 m. committed Q s t0 m \<and> c \<le> m \<and> t0 \<le> t"
proof -
  from assms have n: "a_commit s n \<le> length (a_log s n) \<and> (a_commit s n = 0
        \<or> (\<exists>t m. committed Q s t m \<and> a_commit s n \<le> m \<and> t \<le> a_term s n
                 \<and> take (a_commit s n) (a_log s n) = take (a_commit s n) (a_llog s t)))"
    unfolding inv_commit_def by blast
  then show "a_commit s n \<le> length (a_log s n)" by blast
  from n show "0 < a_commit s n \<Longrightarrow> \<exists>t m. committed Q s t m \<and> a_commit s n \<le> m \<and> t \<le> a_term s n
           \<and> take (a_commit s n) (a_log s n) = take (a_commit s n) (a_llog s t)" by simp
  assume "(t, k, p, es, c) \<in> a_ae s"
  with assms have a: "a_ldr s t = Some k
        \<and> (\<exists>q. p \<le> q \<and> q \<le> length (a_llog s t) \<and> es = drop p (take q (a_llog s t)) \<and> c \<le> q)
        \<and> (c = 0 \<or> (\<exists>t0 m. committed Q s t0 m \<and> c \<le> m \<and> t0 \<le> t))"
    unfolding inv_commit_def by blast
  then show "a_ldr s t = Some k
     \<and> (\<exists>q. p \<le> q \<and> q \<le> length (a_llog s t) \<and> es = drop p (take q (a_llog s t)) \<and> c \<le> q)" by blast
  from a show "0 < c \<Longrightarrow> \<exists>t0 m. committed Q s t0 m \<and> c \<le> m \<and> t0 \<le> t" by simp
qed

section \<open>The history only grows\<close>

definition extends :: "raft_spec \<Rightarrow> raft_spec \<Rightarrow> bool" where
  "extends s s' \<longleftrightarrow> (\<forall>t. a_ldr s t \<noteq> None \<longrightarrow> a_ldr s' t = a_ldr s t
      \<and> (\<exists>es. a_llog s' t = a_llog s t @ es \<and> (\<forall>e\<in>set es. e_term e = t)))
    \<and> a_votes s \<subseteq> a_votes s' \<and> a_acks s \<subseteq> a_acks s'"

lemma extends_refl [simp]: "extends s s"
  by (simp add: extends_def)

lemma extends_ldr: "extends s s' \<Longrightarrow> a_ldr s t \<noteq> None \<Longrightarrow> a_ldr s' t = a_ldr s t"
  by (simp add: extends_def)

lemma extends_llog:
  assumes "extends s s'" "a_ldr s t \<noteq> None"
  obtains es where "a_llog s' t = a_llog s t @ es" "\<forall>e\<in>set es. e_term e = t"
  using assms unfolding extends_def by blast

lemma extends_take:
  assumes "extends s s'" "a_ldr s t \<noteq> None" "m \<le> length (a_llog s t)"
  shows "take m (a_llog s' t) = take m (a_llog s t)"
proof -
  obtain es where "a_llog s' t = a_llog s t @ es" by (rule extends_llog [OF assms(1,2)])
  with assms(3) show ?thesis by simp
qed

lemma extends_length:
  assumes "extends s s'" "a_ldr s t \<noteq> None"
  shows "length (a_llog s t) \<le> length (a_llog s' t)"
proof -
  obtain es where "a_llog s' t = a_llog s t @ es" by (rule extends_llog [OF assms])
  then show ?thesis by simp
qed

lemma good_log_extends:
  assumes g: "good_log s l" and x: "extends s s'" shows "good_log s' l"
  unfolding good_log_def
proof (intro allI impI)
  fix k assume k: "k < length l"
  let ?t = "e_term (l ! k)"
  from g k have 1: "a_ldr s ?t \<noteq> None" "take (Suc k) l = take (Suc k) (a_llog s ?t)"
    by (simp_all add: good_log_def)
  from 1(2) k have "Suc k \<le> length (a_llog s ?t)"
    by (metis Suc_leI take_eq_length)
  with 1 x show "a_ldr s' ?t \<noteq> None \<and> take (Suc k) l = take (Suc k) (a_llog s' ?t)"
    using extends_ldr [OF x 1(1)] extends_take [OF x 1(1)] by simp
qed

lemma good_log_Nil [simp]: "good_log s []"
  by (simp add: good_log_def)

lemma committed_extends:
  assumes c: "committed Q s t m" and x: "extends s s'"
  shows "committed Q s' t m"
proof -
  from c have l: "a_ldr s t \<noteq> None" and m: "m \<le> length (a_llog s t)" "0 < m"
    and e: "e_term (a_llog s t ! (m - 1)) = t"
    by (auto simp: committed_def)
  obtain S where S: "Q S" "\<forall>v\<in>S. \<exists>m'\<ge>m. (t, v, m') \<in> a_acks s"
    using c by (auto simp: committed_def)
  have "a_llog s' t ! (m - 1) = a_llog s t ! (m - 1)"
    using extends_take [OF x l m(1)] m by (metis diff_less nth_take zero_less_one)
  moreover have "\<forall>v\<in>S. \<exists>m'\<ge>m. (t, v, m') \<in> a_acks s'"
    using S(2) x unfolding extends_def by blast
  ultimately show ?thesis
    using S(1) e m l extends_ldr [OF x l] extends_length [OF x l]
    unfolding committed_def by auto
qed

text \<open>Terms in a leader's log: below its election they are smaller, from there on its own.\<close>

lemma llog_terms:
  assumes "inv_leader s" "inv_logs s" "a_ldr s t \<noteq> None"
  shows "\<forall>e\<in>set (a_llog s t). e_term e \<le> t"
    and "\<exists>k < length (a_llog s t). e_term (a_llog s t ! k) = t"
    and "last (a_llog s t) \<in> set (a_llog s t) \<and> e_term (last (a_llog s t)) = t"
proof -
  obtain k c es where k: "a_ldr s t = Some k" "(t, k, k, c) \<in> a_votes s" "a_llog s t = c @ es"
    "es \<noteq> []" "\<forall>e\<in>set es. e_term e = t"
    using assms(3) inv_leaderD(2) [OF assms(1)] by blast
  moreover have "\<forall>e\<in>set c. e_term e < t" using inv_logsD(5) [OF assms(2) k(2)] by blast
  ultimately show "\<forall>e\<in>set (a_llog s t). e_term e \<le> t" by auto
  from k have "length c < length (a_llog s t)" "a_llog s t ! length c \<in> set es"
    by (simp_all add: nth_append)
  with k(5) show "\<exists>k < length (a_llog s t). e_term (a_llog s t ! k) = t" by blast
  from k show "last (a_llog s t) \<in> set (a_llog s t) \<and> e_term (last (a_llog s t)) = t" by auto
qed

text \<open>A later leader that lacks a prefix never gets it: what it appends has its own term.\<close>

lemma differs_extends:
  assumes iv: "inv_leader s" "inv_logs s" and x: "extends s s'"
    and t: "a_ldr s t \<noteq> None" "m \<le> length (a_llog s t)" "t < t'" "a_ldr s t' \<noteq> None"
    and d: "take m (a_llog s t') \<noteq> take m (a_llog s t)"
  shows "take m (a_llog s' t') \<noteq> take m (a_llog s' t)"
proof
  assume eq: "take m (a_llog s' t') = take m (a_llog s' t)"
  also have "\<dots> = take m (a_llog s t)" by (rule extends_take [OF x t(1,2)])
  finally have e: "take m (a_llog s' t') = take m (a_llog s t)" .
  show False
  proof (cases "m \<le> length (a_llog s t')")
    case True
    with e d extends_take [OF x t(4)] show False by simp
  next
    case False
    obtain k where k: "k < length (a_llog s t')" "e_term (a_llog s t' ! k) = t'"
      using llog_terms(2) [OF iv t(4)] by blast
    obtain es where "a_llog s' t' = a_llog s t' @ es" by (rule extends_llog [OF x t(4)])
    then have "a_llog s' t' ! k = a_llog s t' ! k" using k(1) by (simp add: nth_append)
    moreover have km: "k < m" using False k(1) by simp
    have "take m (a_llog s' t') ! k = take m (a_llog s t) ! k" by (simp only: e)
    with km have "a_llog s' t' ! k = a_llog s t ! k" by simp
    moreover have "a_llog s t ! k \<in> set (a_llog s t)"
      by (rule nth_mem) (use False k(1) t(2) in linarith)
    ultimately show False using llog_terms(1) [OF iv t(1)] k(2) t(3) by (metis leD)
  qed
qed

lemma kept_extends:
  assumes "inv_leader s" "inv_logs s" "extends s s'" "a_ldr s t \<noteq> None" "m \<le> length (a_llog s t)"
    "kept s t m l u" "u \<le> u'"
  shows "kept s' t m l u'"
proof (cases "m \<le> length l \<and> take m l = take m (a_llog s t)")
  case True
  with extends_take [OF assms(3,4,5)] show ?thesis by (simp add: kept_def)
next
  case False
  then obtain t' where t': "t < t'" "t' \<le> u" "a_ldr s t' \<noteq> None"
    "take m (a_llog s t') \<noteq> take m (a_llog s t)"
    using assms(6) by (auto simp: kept_def)
  have "take m (a_llog s' t') \<noteq> take m (a_llog s' t)"
    by (rule differs_extends [OF assms(1,2,3,4,5) t'(1,3,4)])
  moreover have "a_ldr s' t' \<noteq> None" using extends_ldr [OF assms(3) t'(3)] t'(3) by simp
  moreover have "t' \<le> u'" using t'(2) assms(7) by simp
  ultimately show ?thesis using t'(1) unfolding kept_def by blast
qed

section \<open>The append loop\<close>

definition matching :: "log_entry list \<Rightarrow> log_entry list \<Rightarrow> bool" where
  "matching l g \<longleftrightarrow> (\<forall>k. k < length l \<longrightarrow> k < length g \<longrightarrow> e_term (l ! k) = e_term (g ! k)
                      \<longrightarrow> take (Suc k) l = take (Suc k) g)"

lemma matching_prefix: "matching (take q g) g"
  by (simp add: matching_def)

lemma append_new_prefix:
  assumes "p \<le> q" "q \<le> length g" "p \<le> length l" "take p l = take p g" "matching l g"
  shows "append_new l p (drop p (take q g)) =
           (if q \<le> length l \<and> take q l = take q g then l else take q g)"
  using assms
proof (induction "q - p" arbitrary: p l)
  case 0
  then show ?case by simp
next
  case (Suc d)
  then have pq: "p < q" and d: "d = q - Suc p" by simp_all
  from pq Suc.prems(2) have es: "drop p (take q g) = g ! p # drop (Suc p) (take q g)"
    by (metis Cons_nth_drop_Suc length_take min.absorb2 nth_take)
  show ?case
  proof (cases "p < length l \<and> e_term (l ! p) = e_term (g ! p)")
    case True
    with Suc.prems pq have "take (Suc p) l = take (Suc p) g" by (simp add: matching_def)
    with Suc.hyps(1) [OF d, of l] Suc.prems pq True
    show ?thesis by (simp only: es append_new.simps) (simp del: take_Suc)
  next
    case False
    let ?l = "take (Suc p) g"
    have l': "take p l @ [g ! p] = ?l"
      using Suc.prems pq by (simp add: take_Suc_conv_app_nth)
    have "append_new l p (drop p (take q g)) = append_new ?l (Suc p) (drop (Suc p) (take q g))"
    proof (cases "p < length l")
      case True
      with False l' show ?thesis by (simp add: es)
    next
      case False
      then have "l @ [g ! p] = ?l" using l' Suc.prems(3) by simp
      with False show ?thesis by (simp add: es)
    qed
    also have "\<dots> = (if q \<le> length ?l \<and> take q ?l = take q g then ?l else take q g)"
      by (rule Suc.hyps(1) [OF d]) (use Suc.prems pq matching_prefix in auto)
    also have "\<dots> = take q g" using Suc.prems pq by auto
    finally have r: "append_new l p (drop p (take q g)) = take q g" .
    have "\<not> (q \<le> length l \<and> take q l = take q g)"
    proof
      assume "q \<le> length l \<and> take q l = take q g"
      then have "p < length l" "l ! p = g ! p" using pq by (auto dest: take_eq_nth [where k = p])
      with False show False by simp
    qed
    with r show ?thesis by (simp only: if_False)
  qed
qed

text \<open>What the loop keeps: every prefix the old log shares with the leader's.\<close>

lemma append_new_facts:
  assumes "p \<le> q" "q \<le> length g" "p \<le> length l" "take p l = take p g" "matching l g"
  defines "r \<equiv> append_new l p (drop p (take q g))"
  shows "q \<le> length r" "take q r = take q g" "r = l \<or> r = take q g"
    and "m \<le> length l \<Longrightarrow> take m l = take m g \<Longrightarrow> m \<le> length r \<and> take m r = take m g"
proof -
  have r: "r = (if q \<le> length l \<and> take q l = take q g then l else take q g)"
    unfolding r_def by (rule append_new_prefix [OF assms(1-5)])
  then show "q \<le> length r" "take q r = take q g" "r = l \<or> r = take q g"
    using assms(2) by (simp_all split: if_splits)
  assume m: "m \<le> length l" "take m l = take m g"
  show "m \<le> length r \<and> take m r = take m g"
  proof (cases "q \<le> length l \<and> take q l = take q g")
    case True
    with r m show ?thesis by simp
  next
    case False
    have "m \<le> q"
    proof (rule ccontr)
      assume "\<not> m \<le> q"
      with m have "take q l = take q g" "q \<le> length l" by (auto intro: take_eq_mono)
      with False show False by simp
    qed
    with r False assms(2) show ?thesis by (auto simp: min_absorb1)
  qed
qed

lemma good_logs_matching: "good_log s l \<Longrightarrow> good_log s g \<Longrightarrow> matching l g"
  unfolding good_log_def matching_def by (metis)

section \<open>Safety from the invariants\<close>

lemma good_log_sorted:
  assumes iv: "inv_leader s" "inv_logs s" and g: "good_log s l" and k: "i \<le> k" "k < length l"
  shows "e_term (l ! i) \<le> e_term (l ! k)"
proof -
  let ?t = "e_term (l ! k)"
  from g k have t: "a_ldr s ?t \<noteq> None" "take (Suc k) l = take (Suc k) (a_llog s ?t)"
    by (auto simp: good_log_def)
  then have "l ! i = a_llog s ?t ! i" "k < length (a_llog s ?t)"
    using k take_eq_nth [OF t(2), of i] take_eq_length [OF t(2)] by auto
  with llog_terms(1) [OF iv t(1)] k show ?thesis by (metis le_less_trans nth_mem)
qed

lemma lterm_ge:
  assumes iv: "inv_leader s" "inv_logs s" and g: "good_log s l" and k: "k < length l"
  shows "e_term (l ! k) \<le> lterm l"
proof -
  from k have "l \<noteq> []" by auto
  then have "lterm l = e_term (l ! (length l - 1))" by (simp add: lterm_def last_conv_nth)
  with good_log_sorted [OF iv g, of k "length l - 1"] k show ?thesis by simp
qed

text \<open>
  The heart of leader completeness: an up-to-date candidate has the prefix its voter kept,
  if every leader between the two terms has it.
\<close>

lemma later_candidate_has_prefix:
  assumes iv: "inv_votes s" "inv_leader s" "inv_logs s"
    and t: "a_ldr s t \<noteq> None" "0 < m" "m \<le> length (a_llog s t)" "e_term (a_llog s t ! (m - 1)) = t"
    and l: "m \<le> length l \<and> take m l = take m (a_llog s t)"
    and c: "(u, k, k, c) \<in> a_votes s" "up_to_date c l" "(u, v, k, l) \<in> a_votes s"
    and between: "\<And>w. t < w \<Longrightarrow> w < u \<Longrightarrow> a_ldr s w \<noteq> None
                    \<Longrightarrow> m \<le> length (a_llog s w) \<and> take m (a_llog s w) = take m (a_llog s t)"
  shows "m \<le> length c \<and> take m c = take m (a_llog s t)"
proof -
  have gl: "good_log s l" and gc: "good_log s c" and cu: "\<forall>e\<in>set c. e_term e < u"
    using inv_logsD(4,5) [OF iv(3)] c by blast+
  have "l ! (m - 1) = a_llog s t ! (m - 1)" using l t by (intro take_eq_nth [where n = m]) auto
  moreover have "m - 1 < length l" using l t(2) by linarith
  ultimately have "t \<le> lterm l" using lterm_ge [OF iv(2,3) gl, of "m - 1"] t(4) by metis
  with c(2) have ct: "t \<le> lterm c" by (auto simp: up_to_date_def)
  have tpos: "0 < t"
  proof -
    obtain n where "a_ldr s t = Some n" using t(1) by auto
    then show ?thesis using inv_leaderD(2) [OF iv(2)] inv_votesD(1) [OF iv(1)] by blast
  qed
  with ct have ne: "c \<noteq> []" by (auto simp: lterm_def)
  define w where "w = lterm c"
  have w: "w = e_term (c ! (length c - 1))" using ne by (simp add: w_def lterm_def last_conv_nth)
  have lw: "a_ldr s w \<noteq> None" "c = take (length c) (a_llog s w)"
    using gc ne unfolding good_log_def w by (auto dest: spec [of _ "length c - 1"])
  have wu: "w < u" using cu ne by (simp add: w_def lterm_def)
  show ?thesis
  proof (cases "w = t")
    case True
    then have "lterm l = t" using \<open>t \<le> lterm l\<close> c(2) by (auto simp: up_to_date_def w_def)
    with True c(2) l have "m \<le> length c" by (auto simp: up_to_date_def w_def)
    with lw(2) True show ?thesis by (metis min.absorb1 take_take)
  next
    case False
    then have "t < w" using ct by (simp add: w_def)
    with between wu lw(1) have b: "m \<le> length (a_llog s w)" "take m (a_llog s w) = take m (a_llog s t)"
      by blast+
    have "m \<le> length c"
    proof (rule ccontr)
      assume "\<not> m \<le> length c"
      then have i: "length c - 1 < m" "length c - 1 < length (a_llog s t)" using ne t(3) by (cases c; simp)+
      have "c ! (length c - 1) = a_llog s w ! (length c - 1)"
        using lw(2) ne by (metis diff_less length_greater_0_conv nth_take zero_less_one)
      also have "\<dots> = take m (a_llog s w) ! (length c - 1)" using i by simp
      also have "\<dots> = a_llog s t ! (length c - 1)" using i by (simp add: b(2))
      finally have "w = e_term (a_llog s t ! (length c - 1))" using w by simp
      with llog_terms(1) [OF iv(2,3) t(1)] nth_mem [OF i(2)] \<open>t < w\<close> show False by (metis leD)
    qed
    with lw(2) b(2) show ?thesis by (metis min.absorb1 take_take)
  qed
qed

locale quorum_system =
  fixes Q :: "nat set \<Rightarrow> bool"
  assumes quorums_intersect: "Q S \<Longrightarrow> Q T \<Longrightarrow> S \<inter> T \<noteq> {}"
begin

text \<open>A candidate can only win a term that has no leader yet.\<close>

lemma no_second_leader:
  assumes iv: "inv_votes s" "inv_elected Q s"
    and c: "a_role s n = Candidate" "Q S" "\<forall>v\<in>S. \<exists>l. (a_term s n, v, n, l) \<in> a_votes s"
  shows "a_ldr s (a_term s n) = None"
proof (rule ccontr)
  let ?t = "a_term s n"
  assume "a_ldr s ?t \<noteq> None"
  then obtain k where k: "a_ldr s ?t = Some k" by auto
  with inv_votesD(3) [OF iv(1) c(1)] have kn: "k \<noteq> n" by auto
  obtain T where T: "Q T" "\<forall>v\<in>T. \<exists>l. (?t, v, k, l) \<in> a_votes s
    \<and> (\<forall>t m' m. (t, v, m') \<in> a_acks s \<longrightarrow> m \<le> m' \<longrightarrow> t < ?t \<longrightarrow> kept s t m l (?t - 1))"
    by (rule inv_electedD [OF iv(2) k])
  from quorums_intersect [OF c(2) T(1)] obtain v where "v \<in> S" "v \<in> T" by blast
  then obtain l l' where v: "(?t, v, n, l) \<in> a_votes s" "(?t, v, k, l') \<in> a_votes s"
    using c(3) T(2) by blast
  from inv_votesD(5) [OF iv(1) v] k kn have "n = v" by auto
  with inv_votesD(6) [OF iv(1) c(1)] v(2) kn show False by blast
qed

text \<open>
  Leader completeness: a prefix that a quorum acknowledged in term \<open>t\<close>, ending in an entry
  of term \<open>t\<close>, is in the log of every later leader.
\<close>

lemma leader_completeness:
  assumes iv: "inv_votes s" "inv_leader s" "inv_logs s" "inv_acks s" "inv_elected Q s"
    and cm: "committed Q s t m"
  shows "t < u \<Longrightarrow> a_ldr s u \<noteq> None \<Longrightarrow> m \<le> length (a_llog s u) \<and> take m (a_llog s u) = take m (a_llog s t)"
proof (induction u rule: less_induct)
  case (less u)
  from cm have t: "a_ldr s t \<noteq> None" "0 < m" "m \<le> length (a_llog s t)" "e_term (a_llog s t ! (m - 1)) = t"
    by (auto simp: committed_def)
  from cm obtain S where S: "Q S" "\<forall>v\<in>S. \<exists>m'\<ge>m. (t, v, m') \<in> a_acks s"
    by (auto simp: committed_def)
  from less.prems(2) obtain k where k: "a_ldr s u = Some k" by auto
  obtain T where T: "Q T" "\<forall>v\<in>T. \<exists>l. (u, v, k, l) \<in> a_votes s
      \<and> (\<forall>t m' m. (t, v, m') \<in> a_acks s \<longrightarrow> m \<le> m' \<longrightarrow> t < u \<longrightarrow> kept s t m l (u - 1))"
    by (rule inv_electedD [OF iv(5) k])
  from quorums_intersect [OF S(1) T(1)] obtain v where v: "v \<in> S" "v \<in> T" by blast
  from v(1) S(2) obtain m' where m': "m \<le> m'" "(t, v, m') \<in> a_acks s" by blast
  from v(2) T(2) obtain l where l: "(u, v, k, l) \<in> a_votes s" "kept s t m l (u - 1)"
    using m' less.prems(1) by blast
  have lk: "m \<le> length l \<and> take m l = take m (a_llog s t)"
  proof (rule ccontr)
    assume "\<not> ?thesis"
    then obtain t' where t': "t < t'" "t' \<le> u - 1" "a_ldr s t' \<noteq> None"
      "take m (a_llog s t') \<noteq> take m (a_llog s t)"
      using l(2) by (auto simp: kept_def)
    then have "t' < u" using less.prems(1) by linarith
    with less.IH t' show False by blast
  qed
  from inv_logsD(6) [OF iv(3) l(1)] obtain c where c: "(u, k, k, c) \<in> a_votes s" "up_to_date c l"
    by blast
  obtain c' es where "(u, k, k, c') \<in> a_votes s" "a_llog s u = c' @ es"
    using inv_leaderD(2) [OF iv(2) k] by blast
  with inv_votesD(2) [OF iv(1)] c(1) have es: "a_llog s u = c @ es" by blast
  have cut: "m \<le> length c \<and> take m c = take m (a_llog s t)"
    by (rule later_candidate_has_prefix [OF iv(1-3) t lk c l(1)]) (use less in auto)
  with es show ?case by simp
qed

end

end
