(* ===== verification/Raft_Safety.thy ===== *)
theory Raft_Safety
  imports Raft_Spec
begin

text \<open>
  Safety of the abstract protocol: every step of \<open>astep Q\<close> keeps \<open>spec_inv\<close>, and in a
  reachable state there is one leader per term, logs match, leaders are complete and the committed
  prefixes of any two nodes agree. One preservation lemma per part of the invariant and step.
\<close>

section \<open>Frame lemmas\<close>

lemma good_log_take: "good_log s l \<Longrightarrow> good_log s (take q l)"
  by (simp add: good_log_def min_def)

lemma good_log_snoc:
  assumes "good_log s l" "a_ldr s (e_term e) \<noteq> None" "a_llog s (e_term e) = l @ [e]"
  shows "good_log s (l @ [e])"
  using assms by (auto simp: good_log_def nth_append less_Suc_eq)

text \<open>What all steps share on acknowledgements: new ones are in the node's term and log.\<close>

lemma inv_acks_step:
  assumes iv: "inv_votes s" "inv_leader s" "inv_logs s" "inv_acks s" and x: "extends s s'"
    and tm: "\<And>n. a_term s n \<le> a_term s' n"
    and na: "\<And>t n m. (t, n, m) \<in> a_acks s' \<Longrightarrow> (t, n, m) \<in> a_acks s \<or> (t = a_term s n
        \<and> a_ldr s' t \<noteq> None \<and> m \<le> length (a_llog s' t) \<and> m \<le> length (a_log s' n)
        \<and> take m (a_log s' n) = take m (a_llog s' t))"
    and lg: "\<And>t n m m'. (t, n, m') \<in> a_acks s \<Longrightarrow> m \<le> m' \<Longrightarrow> kept s' t m (a_log s' n) (a_term s' n)"
    and nv: "\<And>u n c l. (u, n, c, l) \<in> a_votes s' \<Longrightarrow> (u, n, c, l) \<in> a_votes s
        \<or> (l = a_log s n \<and> a_term s n \<le> u \<and> a_acks s' = a_acks s)"
  shows "inv_acks s'"
  unfolding inv_acks_def
proof (intro conjI allI impI)
  fix t n m assume "(t, n, m) \<in> a_acks s'"
  then consider "(t, n, m) \<in> a_acks s" | "t = a_term s n" "a_ldr s' t \<noteq> None" "m \<le> length (a_llog s' t)"
    using na by blast
  then have "t \<le> a_term s' n \<and> a_ldr s' t \<noteq> None \<and> m \<le> length (a_llog s' t)"
  proof cases
    case 1
    from inv_acksD(1) [OF iv(4) 1] have o: "t \<le> a_term s n" "a_ldr s t \<noteq> None" "m \<le> length (a_llog s t)"
      by blast+
    with extends_ldr [OF x o(2)] extends_length [OF x o(2)] tm [of n] show ?thesis by simp
  next
    case 2
    with tm [of n] show ?thesis by simp
  qed
  then show "t \<le> a_term s' n" "a_ldr s' t \<noteq> None" "m \<le> length (a_llog s' t)" by blast+
next
  fix t n m' m assume "(t, n, m') \<in> a_acks s'" and m: "m \<le> m'"
  then consider "(t, n, m') \<in> a_acks s" | "m' \<le> length (a_log s' n)"
    "take m' (a_log s' n) = take m' (a_llog s' t)" using na by blast
  then show "kept s' t m (a_log s' n) (a_term s' n)"
  proof cases
    case 1
    then show ?thesis by (rule lg [OF _ m])
  next
    case 2
    with m have "m \<le> length (a_log s' n)" "take m (a_log s' n) = take m (a_llog s' t)"
      by (auto intro: take_eq_mono)
    then show ?thesis by (simp add: kept_def)
  qed
next
  fix t n m' m u c l
  assume a: "(t, n, m') \<in> a_acks s'" and m: "m \<le> m'" and v: "(u, n, c, l) \<in> a_votes s'" and tu: "t < u"
  have old: "(t, n, m') \<in> a_acks s"
  proof (rule ccontr)
    assume new: "(t, n, m') \<notin> a_acks s"
    with na [OF a] have "t = a_term s n" by blast
    moreover from new a nv [OF v] have "(u, n, c, l) \<in> a_votes s" by auto
    ultimately show False using inv_votesD(1) [OF iv(1)] tu by fastforce
  qed
  have k: "kept s t m l u"
  proof (cases "(u, n, c, l) \<in> a_votes s")
    case True
    show ?thesis by (rule inv_acksD(3) [OF iv(4) old m True tu])
  next
    case False
    with nv [OF v] have "l = a_log s n" "a_term s n \<le> u" by blast+
    with inv_acksD(2) [OF iv(4) old m] show ?thesis unfolding kept_def by (metis le_trans)
  qed
  from inv_acksD(1) [OF iv(4) old] m have "a_ldr s t \<noteq> None" "m \<le> length (a_llog s t)" by auto
  from kept_extends [OF iv(2,3) x this k] show "kept s' t m l u" by simp
qed

lemma kept_log_frame:
  assumes iv: "inv_leader s" "inv_logs s" "inv_acks s" and x: "extends s s'"
    and a: "(t, n, m') \<in> a_acks s" "m \<le> m'"
    and l: "a_log s' n = a_log s n \<or> (\<exists>e. a_log s' n = a_log s n @ [e])"
    and tm: "a_term s n \<le> a_term s' n"
  shows "kept s' t m (a_log s' n) (a_term s' n)"
proof -
  from inv_acksD(1) [OF iv(3) a(1)] a(2) have t: "a_ldr s t \<noteq> None" "m \<le> length (a_llog s t)" by auto
  have k: "kept s' t m (a_log s n) (a_term s' n)"
    by (rule kept_extends [OF iv(1,2) x t inv_acksD(2) [OF iv(3) a] tm])
  from l show ?thesis
  proof
    assume "\<exists>e. a_log s' n = a_log s n @ [e]"
    with k show ?thesis by (auto simp: kept_def)
  qed (use k in simp)
qed

text \<open>An elected leader's quorum keeps its evidence: nothing older than its vote is acknowledged later.\<close>

lemma inv_elected_step:
  assumes iv: "inv_votes s" "inv_leader s" "inv_logs s" "inv_acks s" "inv_elected Q s" and x: "extends s s'"
    and na: "\<And>t n m. (t, n, m) \<in> a_acks s' \<Longrightarrow> (t, n, m) \<in> a_acks s \<or> t = a_term s n"
    and u: "a_ldr s u = Some k"
  shows "\<exists>S. Q S \<and> (\<forall>v\<in>S. \<exists>l. (u, v, k, l) \<in> a_votes s'
        \<and> (\<forall>t m' m. (t, v, m') \<in> a_acks s' \<longrightarrow> m \<le> m' \<longrightarrow> t < u \<longrightarrow> kept s' t m l (u - 1)))"
proof -
  obtain S where S: "Q S" "\<forall>v\<in>S. \<exists>l. (u, v, k, l) \<in> a_votes s
        \<and> (\<forall>t m' m. (t, v, m') \<in> a_acks s \<longrightarrow> m \<le> m' \<longrightarrow> t < u \<longrightarrow> kept s t m l (u - 1))"
    by (rule inv_electedD [OF iv(5) u])
  have "\<exists>l. (u, v, k, l) \<in> a_votes s'
      \<and> (\<forall>t m' m. (t, v, m') \<in> a_acks s' \<longrightarrow> m \<le> m' \<longrightarrow> t < u \<longrightarrow> kept s' t m l (u - 1))"
    if v: "v \<in> S" for v
  proof -
    from S(2) v obtain l where l: "(u, v, k, l) \<in> a_votes s"
      and kp: "\<And>t m' m. (t, v, m') \<in> a_acks s \<Longrightarrow> m \<le> m' \<Longrightarrow> t < u \<Longrightarrow> kept s t m l (u - 1)"
      by blast
    have "kept s' t m l (u - 1)" if a: "(t, v, m') \<in> a_acks s'" "m \<le> m'" "t < u" for t m' m
    proof -
      from na [OF a(1)] inv_votesD(1) [OF iv(1) l] a(3) have old: "(t, v, m') \<in> a_acks s" by auto
      from inv_acksD(1) [OF iv(4) old] a(2) have "a_ldr s t \<noteq> None" "m \<le> length (a_llog s t)" by auto
      from kept_extends [OF iv(2,3) x this kp [OF old a(2,3)]] show ?thesis by simp
    qed
    moreover from l x have "(u, v, k, l) \<in> a_votes s'" unfolding extends_def by blast
    ultimately show ?thesis by blast
  qed
  with S(1) show ?thesis by blast
qed

text \<open>Commit evidence survives; a step that leaves a node's commit index and the prefix alone keeps it.\<close>

definition commit_ok :: "(nat set \<Rightarrow> bool) \<Rightarrow> raft_spec \<Rightarrow> nat \<Rightarrow> bool" where
  "commit_ok Q s n \<longleftrightarrow> a_commit s n \<le> length (a_log s n) \<and> (a_commit s n = 0
        \<or> (\<exists>t m. committed Q s t m \<and> a_commit s n \<le> m \<and> t \<le> a_term s n
                 \<and> take (a_commit s n) (a_log s n) = take (a_commit s n) (a_llog s t)))"

definition ae_ok :: "(nat set \<Rightarrow> bool) \<Rightarrow> raft_spec \<Rightarrow> nat \<Rightarrow> nat \<Rightarrow> nat \<Rightarrow> log_entry list \<Rightarrow> nat \<Rightarrow> bool" where
  "ae_ok Q s t k p es c \<longleftrightarrow> a_ldr s t = Some k
        \<and> (\<exists>q. p \<le> q \<and> q \<le> length (a_llog s t) \<and> es = drop p (take q (a_llog s t)) \<and> c \<le> q)
        \<and> (c = 0 \<or> (\<exists>t0 m. committed Q s t0 m \<and> c \<le> m \<and> t0 \<le> t))"

lemma inv_commit_alt: "inv_commit Q s \<longleftrightarrow>
    (\<forall>n. commit_ok Q s n) \<and> (\<forall>t k p es c. (t, k, p, es, c) \<in> a_ae s \<longrightarrow> ae_ok Q s t k p es c)"
  by (simp add: inv_commit_def commit_ok_def ae_ok_def)

lemma commit_ok_step:
  assumes c: "commit_ok Q s n" and x: "extends s s'" and tm: "a_term s n \<le> a_term s' n"
    and i: "a_commit s' n = a_commit s n" and l: "\<exists>es. a_log s' n = a_log s n @ es"
  shows "commit_ok Q s' n"
proof (cases "a_commit s n = 0")
  case True
  with i show ?thesis by (simp add: commit_ok_def)
next
  case False
  with c obtain t m where t: "committed Q s t m" "a_commit s n \<le> m" "t \<le> a_term s n"
    "take (a_commit s n) (a_log s n) = take (a_commit s n) (a_llog s t)" "a_commit s n \<le> length (a_log s n)"
    by (auto simp: commit_ok_def)
  from t(1,2) have "a_ldr s t \<noteq> None" "a_commit s n \<le> length (a_llog s t)" by (auto simp: committed_def)
  from extends_take [OF x this] t(4,5) l
  have "take (a_commit s n) (a_log s' n) = take (a_commit s n) (a_llog s' t)" by auto
  moreover from l t(5) have "a_commit s n \<le> length (a_log s' n)" by auto
  moreover have "t \<le> a_term s' n" using t(3) tm by simp
  ultimately show ?thesis using committed_extends [OF t(1) x] t(2) i unfolding commit_ok_def by metis
qed

lemma ae_ok_step:
  assumes a: "ae_ok Q s t k p es c" and x: "extends s s'"
  shows "ae_ok Q s' t k p es c"
proof -
  from a have k: "a_ldr s t = Some k" by (simp add: ae_ok_def)
  from a obtain q where q: "p \<le> q" "q \<le> length (a_llog s t)" "es = drop p (take q (a_llog s t))" "c \<le> q"
    by (auto simp: ae_ok_def)
  have "a_ldr s t \<noteq> None" using k by simp
  note x' = extends_take [OF x this q(2)] extends_ldr [OF x this] extends_length [OF x this]
  have "\<exists>q. p \<le> q \<and> q \<le> length (a_llog s' t) \<and> es = drop p (take q (a_llog s' t)) \<and> c \<le> q"
    by (rule exI [of _ q]) (use q x' in simp)
  moreover have "c = 0 \<or> (\<exists>t0 m. committed Q s' t0 m \<and> c \<le> m \<and> t0 \<le> t)"
    using a committed_extends [OF _ x] unfolding ae_ok_def by blast
  ultimately show ?thesis using x' k by (simp add: ae_ok_def)
qed


section \<open>Steps that leave leaders and acknowledgements alone\<close>

lemma inv_votesI:
  assumes "\<And>t v c l. (t, v, c, l) \<in> a_votes s \<Longrightarrow> 0 < t \<and> t \<le> a_term s v"
    and "\<And>t c l l'. (t, c, c, l) \<in> a_votes s \<Longrightarrow> (t, c, c, l') \<in> a_votes s \<Longrightarrow> l = l'"
    and "\<And>n. a_role s n = Candidate \<Longrightarrow> a_vote s n = Some n
           \<and> (a_term s n, n, n, a_log s n) \<in> a_votes s \<and> a_ldr s (a_term s n) \<noteq> Some n"
    and "\<And>v c l. (a_term s v, v, c, l) \<in> a_votes s \<Longrightarrow> a_vote s v = Some c
           \<or> (c = v \<and> a_role s v = Follower \<and> (\<exists>k. a_ldr s (a_term s v) = Some k \<and> k \<noteq> v))"
    and "\<And>t v c c' l l'. (t, v, c, l) \<in> a_votes s \<Longrightarrow> (t, v, c', l') \<in> a_votes s \<Longrightarrow> c \<noteq> c'
           \<Longrightarrow> (c = v \<or> c' = v) \<and> (\<exists>k. a_ldr s t = Some k \<and> k \<noteq> v)"
  shows "inv_votes s"
  unfolding inv_votes_def by (intro conjI allI impI; use assms in blast)

lemma inv_logsI:
  assumes "\<And>n. good_log s (a_log s n)" and "\<And>n e. e \<in> set (a_log s n) \<Longrightarrow> e_term e \<le> a_term s n"
    and "\<And>t. a_ldr s t \<noteq> None \<Longrightarrow> good_log s (a_llog s t)"
    and "\<And>t v c l. (t, v, c, l) \<in> a_votes s \<Longrightarrow> good_log s l"
    and "\<And>t c l e. (t, c, c, l) \<in> a_votes s \<Longrightarrow> e \<in> set l \<Longrightarrow> e_term e < t"
    and "\<And>t v c l. (t, v, c, l) \<in> a_votes s \<Longrightarrow> \<exists>l'. (t, c, c, l') \<in> a_votes s \<and> up_to_date l' l"
  shows "inv_logs s"
  unfolding inv_logs_def by (intro conjI allI impI ballI; use assms in blast)

lemma inv_leaderI:
  assumes "\<And>n. a_role s n = Leader \<Longrightarrow> a_ldr s (a_term s n) = Some n
           \<and> a_log s n = a_llog s (a_term s n) \<and> a_vote s n = Some n"
    and "\<And>t k. a_ldr s t = Some k \<Longrightarrow> \<exists>c es. (t, k, k, c) \<in> a_votes s \<and> a_llog s t = c @ es
           \<and> es \<noteq> [] \<and> (\<forall>e\<in>set es. e_term e = t)"
  shows "inv_leader s"
  unfolding inv_leader_def by (intro conjI allI impI; use assms in blast)

definition quiet :: "raft_spec \<Rightarrow> raft_spec \<Rightarrow> bool" where
  "quiet s s' \<longleftrightarrow> a_ldr s' = a_ldr s \<and> a_llog s' = a_llog s \<and> a_log s' = a_log s
     \<and> a_acks s' = a_acks s \<and> a_votes s \<subseteq> a_votes s' \<and> (\<forall>n. a_term s n \<le> a_term s' n)"

lemma quiet_extends: "quiet s s' \<Longrightarrow> extends s s'"
  by (simp add: quiet_def extends_def)

lemma quiet_good_log: "quiet s s' \<Longrightarrow> good_log s' l = good_log s l"
  by (simp add: quiet_def good_log_def)

text \<open>A quiet step only has to say what it does to votes, roles and commit indices.\<close>

lemma quiet_inv:
  assumes iv: "spec_inv Q s" and q: "quiet s s'" and vt: "inv_votes s'"
    and ld: "\<And>n. a_role s' n = Leader \<Longrightarrow> a_role s n = Leader \<and> a_term s' n = a_term s n \<and> a_vote s' n = a_vote s n"
    and nv: "\<And>u n c l. (u, n, c, l) \<in> a_votes s' \<Longrightarrow> (u, n, c, l) \<in> a_votes s
        \<or> (l = a_log s n \<and> a_term s n \<le> u \<and> (c = n \<longrightarrow> a_term s n < u)
           \<and> (\<exists>l'. (u, c, c, l') \<in> a_votes s' \<and> up_to_date l' l))"
    and cm: "\<And>n. commit_ok Q s' n"
    and ae: "\<And>t k p es c. (t, k, p, es, c) \<in> a_ae s' \<Longrightarrow> ae_ok Q s' t k p es c"
  shows "spec_inv Q s'"
proof -
  from iv have i: "inv_votes s" "inv_leader s" "inv_logs s" "inv_acks s" "inv_elected Q s" "inv_commit Q s"
    by (auto simp: spec_inv_def)
  note x = quiet_extends [OF q]
  from q have eq: "a_ldr s' = a_ldr s" "a_llog s' = a_llog s" "a_log s' = a_log s" "a_acks s' = a_acks s"
    and mono: "\<And>n. a_term s n \<le> a_term s' n" and sub: "a_votes s \<subseteq> a_votes s'"
    by (auto simp: quiet_def)
  have "inv_leader s'"
  proof (rule inv_leaderI)
    fix n assume "a_role s' n = Leader"
    from ld [OF this] inv_leaderD(1) [OF i(2), of n]
    show "a_ldr s' (a_term s' n) = Some n \<and> a_log s' n = a_llog s' (a_term s' n) \<and> a_vote s' n = Some n"
      by (simp add: eq)
  next
    fix t k assume "a_ldr s' t = Some k"
    then have "a_ldr s t = Some k" by (simp add: eq)
    from inv_leaderD(2) [OF i(2) this] sub
    show "\<exists>c es. (t, k, k, c) \<in> a_votes s' \<and> a_llog s' t = c @ es \<and> es \<noteq> [] \<and> (\<forall>e\<in>set es. e_term e = t)"
      unfolding eq by blast
  qed
  moreover have "inv_logs s'"
  proof (rule inv_logsI)
    fix n show "good_log s' (a_log s' n)" using inv_logsD(1) [OF i(3)] by (simp add: quiet_good_log [OF q] eq)
    fix e assume "e \<in> set (a_log s' n)"
    then show "e_term e \<le> a_term s' n" using inv_logsD(2) [OF i(3)] mono le_trans unfolding eq by blast
  next
    fix t assume "a_ldr s' t \<noteq> None"
    then show "good_log s' (a_llog s' t)" using inv_logsD(3) [OF i(3)] by (simp add: quiet_good_log [OF q] eq)
  next
    fix t v c l assume v: "(t, v, c, l) \<in> a_votes s'"
    show "good_log s' l"
      using nv [OF v] inv_logsD(1,4) [OF i(3)] by (auto simp: quiet_good_log [OF q])
    show "\<exists>l'. (t, c, c, l') \<in> a_votes s' \<and> up_to_date l' l"
      using nv [OF v] inv_logsD(6) [OF i(3)] sub by blast
  next
    fix t c l e assume v: "(t, c, c, l) \<in> a_votes s'" and e: "e \<in> set l"
    show "e_term e < t"
      using nv [OF v] inv_logsD(5) [OF i(3) _ e] inv_logsD(2) [OF i(3)] e le_less_trans by blast
  qed
  moreover have "inv_acks s'"
  proof (rule inv_acks_step [OF i(1-4) x mono])
    fix t n m assume "(t, n, m) \<in> a_acks s'"
    then show "(t, n, m) \<in> a_acks s \<or> (t = a_term s n \<and> a_ldr s' t \<noteq> None \<and> m \<le> length (a_llog s' t)
      \<and> m \<le> length (a_log s' n) \<and> take m (a_log s' n) = take m (a_llog s' t))" by (simp add: eq)
  next
    fix t n m m' assume "(t, n, m') \<in> a_acks s" "m \<le> m'"
    then show "kept s' t m (a_log s' n) (a_term s' n)"
      by (rule kept_log_frame [OF i(2-4) x]) (use mono in \<open>auto simp: eq\<close>)
  next
    fix u n c l assume "(u, n, c, l) \<in> a_votes s'"
    from nv [OF this] show "(u, n, c, l) \<in> a_votes s
        \<or> (l = a_log s n \<and> a_term s n \<le> u \<and> a_acks s' = a_acks s)" by (auto simp: eq)
  qed
  moreover have "inv_elected Q s'"
    unfolding inv_elected_def
  proof (intro allI impI)
    fix u k assume "a_ldr s' u = Some k"
    then have u: "a_ldr s u = Some k" by (simp add: eq)
    show "\<exists>S. Q S \<and> (\<forall>v\<in>S. \<exists>l. (u, v, k, l) \<in> a_votes s'
        \<and> (\<forall>t m' m. (t, v, m') \<in> a_acks s' \<longrightarrow> m \<le> m' \<longrightarrow> t < u \<longrightarrow> kept s' t m l (u - 1)))"
      by (rule inv_elected_step [OF i(1-5) x _ u]) (simp add: eq)
  qed
  moreover have "inv_commit Q s'" using cm ae unfolding inv_commit_alt by blast
  ultimately show ?thesis using vt by (simp add: spec_inv_def)
qed

lemma spec_invD:
  assumes "spec_inv Q s"
  shows "inv_votes s" "inv_leader s" "inv_logs s" "inv_acks s" "inv_elected Q s" "inv_commit Q s"
  using assms by (auto simp: spec_inv_def)

lemma inv_timeout:
  assumes iv: "spec_inv Q s" and r: "a_role s n \<noteq> Leader"
  shows "spec_inv Q (a_timeout n s)"
proof (rule quiet_inv [OF iv])
  note i = spec_invD [OF iv]
  let ?s = "a_timeout n s" and ?t = "a_term s n + 1"
  show q: "quiet s ?s" by (auto simp: quiet_def a_timeout_def)
  have no: "(?t, n, c, l) \<notin> a_votes s" for c l using inv_votesD(1) [OF i(1)] by fastforce
  have nl: "a_ldr s ?t \<noteq> Some n" using inv_leaderD(2) [OF i(2)] no by blast
  show "inv_votes ?s"
  proof (rule inv_votesI)
    fix t v c l assume "(t, v, c, l) \<in> a_votes ?s"
    then show "0 < t \<and> t \<le> a_term ?s v"
      using inv_votesD(1) [OF i(1), of t v c l] by (auto simp: a_timeout_def)
  next
    fix t c l l' assume "(t, c, c, l) \<in> a_votes ?s" "(t, c, c, l') \<in> a_votes ?s"
    then show "l = l'" using inv_votesD(2) [OF i(1)] no by (auto simp: a_timeout_def)
  next
    fix m assume "a_role ?s m = Candidate"
    then show "a_vote ?s m = Some m \<and> (a_term ?s m, m, m, a_log ?s m) \<in> a_votes ?s
        \<and> a_ldr ?s (a_term ?s m) \<noteq> Some m"
      using inv_votesD(3) [OF i(1), of m] nl by (auto simp: a_timeout_def split: if_splits)
  next
    fix v c l assume "(a_term ?s v, v, c, l) \<in> a_votes ?s"
    then show "a_vote ?s v = Some c \<or> (c = v \<and> a_role ?s v = Follower
        \<and> (\<exists>k. a_ldr ?s (a_term ?s v) = Some k \<and> k \<noteq> v))"
      using inv_votesD(4) [OF i(1), of v c l] no by (auto simp: a_timeout_def split: if_splits)
  next
    fix t v c c' l l' assume "(t, v, c, l) \<in> a_votes ?s" "(t, v, c', l') \<in> a_votes ?s" "c \<noteq> c'"
    then show "(c = v \<or> c' = v) \<and> (\<exists>k. a_ldr ?s t = Some k \<and> k \<noteq> v)"
      using inv_votesD(5) [OF i(1), of t v c l c' l'] no by (auto simp: a_timeout_def)
  qed
  show "commit_ok Q ?s m" for m
    by (rule commit_ok_step [of Q s, OF _ quiet_extends [OF q]])
      (use i(6) in \<open>auto simp: inv_commit_alt a_timeout_def\<close>)
  fix t k p es c assume "(t, k, p, es, c) \<in> a_ae ?s"
  then show "ae_ok Q ?s t k p es c"
    by (intro ae_ok_step [of Q s, OF _ quiet_extends [OF q]])
      (use i(6) in \<open>auto simp: inv_commit_alt a_timeout_def\<close>)
qed (use r in \<open>auto simp: a_timeout_def up_to_date_def split: if_splits\<close>)

lemma inv_see_term:
  assumes iv: "spec_inv Q s" and r: "a_term s n < t'"
  shows "spec_inv Q (a_see_term n t' s)"
proof (rule quiet_inv [OF iv])
  note i = spec_invD [OF iv]
  let ?s = "a_see_term n t' s"
  show q: "quiet s ?s" using r by (auto simp: quiet_def a_see_term_def)
  have no: "(t', n, c, l) \<notin> a_votes s" for c l using inv_votesD(1) [OF i(1)] r by fastforce
  show "inv_votes ?s"
  proof (rule inv_votesI)
    fix t v c l assume "(t, v, c, l) \<in> a_votes ?s"
    then show "0 < t \<and> t \<le> a_term ?s v"
      using inv_votesD(1) [OF i(1), of t v c l] r by (auto simp: a_see_term_def)
  next
    fix t c l l' assume "(t, c, c, l) \<in> a_votes ?s" "(t, c, c, l') \<in> a_votes ?s"
    then show "l = l'" using inv_votesD(2) [OF i(1)] by (auto simp: a_see_term_def)
  next
    fix m assume "a_role ?s m = Candidate"
    then show "a_vote ?s m = Some m \<and> (a_term ?s m, m, m, a_log ?s m) \<in> a_votes ?s
        \<and> a_ldr ?s (a_term ?s m) \<noteq> Some m"
      using inv_votesD(3) [OF i(1), of m] by (auto simp: a_see_term_def split: if_splits)
  next
    fix v c l assume "(a_term ?s v, v, c, l) \<in> a_votes ?s"
    then show "a_vote ?s v = Some c \<or> (c = v \<and> a_role ?s v = Follower
        \<and> (\<exists>k. a_ldr ?s (a_term ?s v) = Some k \<and> k \<noteq> v))"
      using inv_votesD(4) [OF i(1), of v c l] no by (auto simp: a_see_term_def split: if_splits)
  next
    fix t v c c' l l' assume "(t, v, c, l) \<in> a_votes ?s" "(t, v, c', l') \<in> a_votes ?s" "c \<noteq> c'"
    then show "(c = v \<or> c' = v) \<and> (\<exists>k. a_ldr ?s t = Some k \<and> k \<noteq> v)"
      using inv_votesD(5) [OF i(1), of t v c l c' l'] by (auto simp: a_see_term_def)
  qed
  show "commit_ok Q ?s m" for m
    by (rule commit_ok_step [of Q s, OF _ quiet_extends [OF q]])
      (use i(6) r in \<open>auto simp: inv_commit_alt a_see_term_def\<close>)
  fix t k p es c assume "(t, k, p, es, c) \<in> a_ae ?s"
  then show "ae_ok Q ?s t k p es c"
    by (intro ae_ok_step [of Q s, OF _ quiet_extends [OF q]])
      (use i(6) in \<open>auto simp: inv_commit_alt a_see_term_def\<close>)
qed (auto simp: a_see_term_def split: if_splits)

text \<open>
  A candidate that hears from the leader of its term loses its vote: it may vote again in
  the same term, but the term is already won.
\<close>

lemma inv_step_down:
  assumes iv: "spec_inv Q s" and r: "a_role s n = Candidate" "a_ldr s (a_term s n) \<noteq> None"
  shows "spec_inv Q (a_step_down n s)"
proof (rule quiet_inv [OF iv])
  note i = spec_invD [OF iv]
  let ?s = "a_step_down n s"
  show q: "quiet s ?s" by (auto simp: quiet_def a_step_down_def)
  show "inv_votes ?s"
  proof (rule inv_votesI)
    fix m assume "a_role ?s m = Candidate"
    then show "a_vote ?s m = Some m \<and> (a_term ?s m, m, m, a_log ?s m) \<in> a_votes ?s
        \<and> a_ldr ?s (a_term ?s m) \<noteq> Some m"
      using inv_votesD(3) [OF i(1), of m] by (auto simp: a_step_down_def split: if_splits)
  next
    fix v c l assume "(a_term ?s v, v, c, l) \<in> a_votes ?s"
    then show "a_vote ?s v = Some c \<or> (c = v \<and> a_role ?s v = Follower
        \<and> (\<exists>k. a_ldr ?s (a_term ?s v) = Some k \<and> k \<noteq> v))"
      using inv_votesD(4) [OF i(1), of v c l] inv_votesD(3,6) [OF i(1) r(1)] r(2)
      by (auto simp: a_step_down_def split: if_splits)
  qed (use inv_votesD(1,2,5) [OF i(1)] in \<open>simp_all add: a_step_down_def\<close>)
  show "commit_ok Q ?s m" for m
    by (rule commit_ok_step [of Q s, OF _ quiet_extends [OF q]])
      (use i(6) in \<open>auto simp: inv_commit_alt a_step_down_def\<close>)
  fix t k p es c assume "(t, k, p, es, c) \<in> a_ae ?s"
  then show "ae_ok Q ?s t k p es c"
    by (intro ae_ok_step [of Q s, OF _ quiet_extends [OF q]])
      (use i(6) in \<open>auto simp: inv_commit_alt a_step_down_def\<close>)
qed (auto simp: a_step_down_def split: if_splits)

lemma inv_grant:
  assumes iv: "spec_inv Q s" and r: "v \<noteq> c" "a_vote s v = None \<or> a_vote s v = Some c"
    "(a_term s v, c, c, l) \<in> a_votes s" "up_to_date l (a_log s v)"
  shows "spec_inv Q (a_grant v c s)"
proof (rule quiet_inv [OF iv])
  note i = spec_invD [OF iv]
  let ?s = "a_grant v c s" and ?t = "a_term s v"
  show q: "quiet s ?s" by (auto simp: quiet_def a_grant_def)
  have nc: "a_role s v \<noteq> Candidate" using inv_votesD(3) [OF i(1), of v] r(1,2) by auto
  have nl: "a_role s v \<noteq> Leader" using inv_leaderD(1) [OF i(2), of v] r(1,2) by auto
  have old: "c' = c \<or> (c' = v \<and> a_role s v = Follower \<and> (\<exists>k. a_ldr s ?t = Some k \<and> k \<noteq> v))"
    if "(?t, v, c', l') \<in> a_votes s" for c' l'
    using inv_votesD(4) [OF i(1) that] r(2) by auto
  show "inv_votes ?s"
  proof (rule inv_votesI)
    fix t w d l' assume "(t, w, d, l') \<in> a_votes ?s"
    then show "0 < t \<and> t \<le> a_term ?s w"
      using inv_votesD(1) [OF i(1), of t w d l'] inv_votesD(1) [OF i(1) r(3)] by (auto simp: a_grant_def)
  next
    fix t d l1 l2 assume "(t, d, d, l1) \<in> a_votes ?s" "(t, d, d, l2) \<in> a_votes ?s"
    then show "l1 = l2" using inv_votesD(2) [OF i(1)] r(1) by (auto simp: a_grant_def)
  next
    fix m assume "a_role ?s m = Candidate"
    then show "a_vote ?s m = Some m \<and> (a_term ?s m, m, m, a_log ?s m) \<in> a_votes ?s
        \<and> a_ldr ?s (a_term ?s m) \<noteq> Some m"
      using inv_votesD(3) [OF i(1), of m] nc by (auto simp: a_grant_def)
  next
    fix w d l' assume "(a_term ?s w, w, d, l') \<in> a_votes ?s"
    then show "a_vote ?s w = Some d \<or> (d = w \<and> a_role ?s w = Follower
        \<and> (\<exists>k. a_ldr ?s (a_term ?s w) = Some k \<and> k \<noteq> w))"
      using inv_votesD(4) [OF i(1), of w d l'] old [of d l'] by (auto simp: a_grant_def)
  next
    fix t w d d' l1 l2 assume "(t, w, d, l1) \<in> a_votes ?s" "(t, w, d', l2) \<in> a_votes ?s" "d \<noteq> d'"
    then show "(d = w \<or> d' = w) \<and> (\<exists>k. a_ldr ?s t = Some k \<and> k \<noteq> w)"
      using inv_votesD(5) [OF i(1), of t w d l1 d' l2] old [of d l1] old [of d' l2]
      by (auto simp: a_grant_def)
  qed
  show "commit_ok Q ?s m" for m
    by (rule commit_ok_step [of Q s, OF _ quiet_extends [OF q]])
      (use i(6) in \<open>auto simp: inv_commit_alt a_grant_def\<close>)
  show "ae_ok Q ?s t k p es d" if "(t, k, p, es, d) \<in> a_ae ?s" for t k p es d
    using that by (intro ae_ok_step [of Q s, OF _ quiet_extends [OF q]])
      (use i(6) in \<open>auto simp: inv_commit_alt a_grant_def\<close>)
  show "a_role s n = Leader \<and> a_term ?s n = a_term s n \<and> a_vote ?s n = a_vote s n"
    if "a_role ?s n = Leader" for n using that nl by (auto simp: a_grant_def)
  show "(u, n, d, l') \<in> a_votes s \<or> (l' = a_log s n \<and> a_term s n \<le> u \<and> (d = n \<longrightarrow> a_term s n < u)
       \<and> (\<exists>l''. (u, d, d, l'') \<in> a_votes ?s \<and> up_to_date l'' l'))"
    if "(u, n, d, l') \<in> a_votes ?s" for u n d l' using that r by (auto simp: a_grant_def)
qed

lemma inv_send:
  assumes iv: "spec_inv Q s" and r: "a_role s n = Leader" "p \<le> length (a_log s n)"
  shows "spec_inv Q (a_send n p s)"
proof (rule quiet_inv [OF iv])
  note i = spec_invD [OF iv]
  let ?s = "a_send n p s"
  show q: "quiet s ?s" by (auto simp: quiet_def a_send_def)
  show "inv_votes ?s"
    by (rule inv_votesI) (use inv_votesD [OF i(1)] in \<open>simp_all add: a_send_def\<close>)
  show "commit_ok Q ?s m" for m
    by (rule commit_ok_step [of Q s, OF _ quiet_extends [OF q]])
      (use i(6) in \<open>auto simp: inv_commit_alt a_send_def\<close>)
  fix t k p' es c assume "(t, k, p', es, c) \<in> a_ae ?s"
  then consider "(t, k, p', es, c) \<in> a_ae s"
    | "t = a_term s n" "k = n" "p' = p" "es = drop p (a_log s n)" "c = a_commit s n"
    by (auto simp: a_send_def)
  then have "ae_ok Q s t k p' es c"
  proof cases
    case 1
    with i(6) show ?thesis by (auto simp: inv_commit_alt)
  next
    case 2
    note l = inv_leaderD(1) [OF i(2) r(1)]
    from i(6) have c: "commit_ok Q s n" by (auto simp: inv_commit_alt)
    then have "\<exists>q\<ge>p. q \<le> length (a_log s n) \<and> drop p (a_log s n) = drop p (take q (a_log s n)) \<and> a_commit s n \<le> q"
      using r(2) by (intro exI [of _ "length (a_log s n)"]) (auto simp: commit_ok_def)
    with 2 l c show ?thesis unfolding ae_ok_def commit_ok_def by metis
  qed
  then show "ae_ok Q ?s t k p' es c" by (rule ae_ok_step [OF _ quiet_extends [OF q]])
qed (auto simp: a_send_def)

lemma inv_commit_to:
  assumes iv: "spec_inv Q s" and r: "a_role s n = Leader" "0 < j" "j \<le> length (a_log s n)"
    "e_term (a_log s n ! (j - 1)) = a_term s n" "Q S" "\<forall>v\<in>S. \<exists>m\<ge>j. (a_term s n, v, m) \<in> a_acks s"
  shows "spec_inv Q (a_commit_to n j s)"
proof (rule quiet_inv [OF iv])
  note i = spec_invD [OF iv]
  let ?s = "a_commit_to n j s"
  show q: "quiet s ?s" by (auto simp: quiet_def a_commit_to_def)
  show "inv_votes ?s"
    by (rule inv_votesI) (use inv_votesD [OF i(1)] in \<open>simp_all add: a_commit_to_def\<close>)
  note l = inv_leaderD(1) [OF i(2) r(1)]
  with r have "committed Q s (a_term s n) j" unfolding committed_def by (metis option.discI)
  then have cj: "committed Q ?s (a_term s n) j" by (rule committed_extends [OF _ quiet_extends [OF q]])
  show "commit_ok Q ?s m" for m
  proof (cases "m = n")
    case True
    with cj l r(3) show ?thesis by (auto simp: commit_ok_def a_commit_to_def)
  next
    case False
    then show ?thesis
      by (intro commit_ok_step [of Q s, OF _ quiet_extends [OF q]])
        (use i(6) in \<open>auto simp: inv_commit_alt a_commit_to_def\<close>)
  qed
  fix t k p es c assume "(t, k, p, es, c) \<in> a_ae ?s"
  then show "ae_ok Q ?s t k p es c"
    by (intro ae_ok_step [of Q s, OF _ quiet_extends [OF q]])
      (use i(6) in \<open>auto simp: inv_commit_alt a_commit_to_def\<close>)
qed (auto simp: a_commit_to_def)

lemma inv_restart:
  assumes iv: "spec_inv Q s"
  shows "spec_inv Q (a_restart n s)"
proof (rule quiet_inv [OF iv])
  note i = spec_invD [OF iv]
  let ?s = "a_restart n s"
  show q: "quiet s ?s" by (auto simp: quiet_def a_restart_def)
  show "inv_votes ?s"
  proof (rule inv_votesI)
    fix m assume "a_role ?s m = Candidate"
    then show "a_vote ?s m = Some m \<and> (a_term ?s m, m, m, a_log ?s m) \<in> a_votes ?s
        \<and> a_ldr ?s (a_term ?s m) \<noteq> Some m"
      using inv_votesD(3) [OF i(1), of m] by (auto simp: a_restart_def split: if_splits)
  next
    fix v c l assume "(a_term ?s v, v, c, l) \<in> a_votes ?s"
    then show "a_vote ?s v = Some c \<or> (c = v \<and> a_role ?s v = Follower
        \<and> (\<exists>k. a_ldr ?s (a_term ?s v) = Some k \<and> k \<noteq> v))"
      using inv_votesD(4) [OF i(1), of v c l] by (auto simp: a_restart_def)
  qed (use inv_votesD(1,2,5) [OF i(1)] in \<open>simp_all add: a_restart_def\<close>)
  show "commit_ok Q ?s m" for m
  proof (cases "m = n")
    case True
    then show ?thesis by (simp add: commit_ok_def a_restart_def)
  next
    case False
    then show ?thesis
      by (intro commit_ok_step [of Q s, OF _ quiet_extends [OF q]])
        (use i(6) in \<open>auto simp: inv_commit_alt a_restart_def\<close>)
  qed
  fix t k p es c assume "(t, k, p, es, c) \<in> a_ae ?s"
  then show "ae_ok Q ?s t k p es c"
    by (intro ae_ok_step [of Q s, OF _ quiet_extends [OF q]])
      (use i(6) in \<open>auto simp: inv_commit_alt a_restart_def\<close>)
qed (auto simp: a_restart_def split: if_splits)

section \<open>Steps that grow the history\<close>

lemma kept_before:
  assumes "kept s t m l u" "a_ldr s u = None"
  shows "kept s t m l (u - 1)"
proof -
  have "t' \<le> u - 1" if "t' \<le> u" "a_ldr s t' \<noteq> None" for t'
    using that assms(2) by (cases "t' = u") auto
  with assms(1) show ?thesis unfolding kept_def by blast
qed

text \<open>A leader's own append: the election that starts a term, and the entries of clients.\<close>

lemma grow_inv:
  assumes iv: "spec_inv Q s" and x: "extends s s'" and vt: "inv_votes s'"
    and eq: "a_term s' = a_term s" "a_votes s' = a_votes s" "a_ae s' = a_ae s" "a_commit s' = a_commit s"
    and lg: "a_log s' = (a_log s)(n := a_log s n @ [e])" "e_term e = a_term s n"
    and ll: "a_llog s' = (a_llog s)(a_term s n := a_log s n @ [e])"
    and ld: "a_ldr s' = (a_ldr s)(a_term s n := Some n)"
    and ak: "a_acks s' = insert (a_term s n, n, length (a_log s n) + 1) (a_acks s)"
    and ro: "a_role s' n = Leader" "\<And>m. m \<noteq> n \<Longrightarrow> a_role s' m = a_role s m" "a_vote s' = a_vote s"
      "a_vote s n = Some n"
    and one: "a_ldr s (a_term s n) = None \<or> a_ldr s (a_term s n) = Some n"
    and self: "\<exists>c es. (a_term s n, n, n, c) \<in> a_votes s \<and> a_log s n = c @ es \<and> (\<forall>e\<in>set es. e_term e = a_term s n)"
    and el: "a_ldr s (a_term s n) = None \<Longrightarrow> \<exists>S. Q S \<and> (\<forall>v\<in>S. \<exists>l. (a_term s n, v, n, l) \<in> a_votes s)"
  shows "spec_inv Q s'"
proof -
  note i = spec_invD [OF iv]
  let ?T = "a_term s n"
  have tk: "kept s' t m (a_log s' k) (a_term s' k)" if "(t, k, m') \<in> a_acks s" "m \<le> m'" for t k m m'
    using that by (rule kept_log_frame [OF i(2-4) x]) (auto simp: lg eq)
  have gl: "good_log s' (a_log s n @ [e])"
    by (rule good_log_snoc) (use good_log_extends [OF inv_logsD(1) [OF i(3)] x] lg(2) in \<open>auto simp: ld ll\<close>)
  have "inv_leader s'"
  proof (rule inv_leaderI)
    fix m assume r: "a_role s' m = Leader"
    show "a_ldr s' (a_term s' m) = Some m \<and> a_log s' m = a_llog s' (a_term s' m) \<and> a_vote s' m = Some m"
      using r ro(2) [of m] inv_leaderD(1) [OF i(2), of m] one ro(3,4)
      by (cases "m = n") (auto simp: ld ll lg eq)
  next
    fix t k assume "a_ldr s' t = Some k"
    then show "\<exists>c es. (t, k, k, c) \<in> a_votes s' \<and> a_llog s' t = c @ es \<and> es \<noteq> [] \<and> (\<forall>e\<in>set es. e_term e = t)"
      using inv_leaderD(2) [OF i(2), of t k] self lg(2) by (cases "t = ?T") (fastforce simp: ld ll eq)+
  qed
  moreover have "inv_logs s'"
  proof (rule inv_logsI)
    show "good_log s' (a_log s' m)" for m
      using gl good_log_extends [OF inv_logsD(1) [OF i(3)] x] by (auto simp: lg)
    show "e' \<in> set (a_log s' m) \<Longrightarrow> e_term e' \<le> a_term s' m" for m e'
      using inv_logsD(2) [OF i(3)] by (auto simp: lg eq split: if_splits)
    show "a_ldr s' t \<noteq> None \<Longrightarrow> good_log s' (a_llog s' t)" for t
      using gl good_log_extends [OF inv_logsD(3) [OF i(3)] x] by (cases "t = ?T") (auto simp: ll ld)
    show "(t, v, c, l) \<in> a_votes s' \<Longrightarrow> good_log s' l" for t v c l
      using good_log_extends [OF inv_logsD(4) [OF i(3)] x] unfolding eq by blast
    show "(t, c, c, l) \<in> a_votes s' \<Longrightarrow> e' \<in> set l \<Longrightarrow> e_term e' < t" for t c l e'
      using inv_logsD(5) [OF i(3)] unfolding eq by blast
    show "(t, v, c, l) \<in> a_votes s' \<Longrightarrow> \<exists>l'. (t, c, c, l') \<in> a_votes s' \<and> up_to_date l' l" for t v c l
      using inv_logsD(6) [OF i(3)] unfolding eq by blast
  qed
  moreover have "inv_acks s'"
    by (rule inv_acks_step [OF i(1-4) x _ _ tk]) (auto simp: eq ak ll ld lg)
  moreover have "inv_elected Q s'"
    unfolding inv_elected_def
  proof (intro allI impI)
    fix u k assume u: "a_ldr s' u = Some k"
    have na: "(t, m, j) \<in> a_acks s' \<Longrightarrow> (t, m, j) \<in> a_acks s \<or> t = a_term s m" for t m j by (auto simp: ak)
    show "\<exists>S. Q S \<and> (\<forall>v\<in>S. \<exists>l. (u, v, k, l) \<in> a_votes s'
        \<and> (\<forall>t m' m. (t, v, m') \<in> a_acks s' \<longrightarrow> m \<le> m' \<longrightarrow> t < u \<longrightarrow> kept s' t m l (u - 1)))"
    proof (cases "a_ldr s u = Some k")
      case True
      show ?thesis by (rule inv_elected_step [OF i(1-5) x _ True]) (rule na)
    next
      case False
      with u one have uT: "u = ?T" "k = n" "a_ldr s ?T = None" by (auto simp: ld split: if_splits)
      with el obtain S where S: "Q S" "\<forall>v\<in>S. \<exists>l. (?T, v, n, l) \<in> a_votes s" by blast
      have "\<exists>l. (?T, v, n, l) \<in> a_votes s'
        \<and> (\<forall>t m' m. (t, v, m') \<in> a_acks s' \<longrightarrow> m \<le> m' \<longrightarrow> t < ?T \<longrightarrow> kept s' t m l (?T - 1))"
        if v: "v \<in> S" for v
      proof -
        from S(2) v obtain l where l: "(?T, v, n, l) \<in> a_votes s" by blast
        have "kept s' t m l (?T - 1)" if a: "(t, v, m') \<in> a_acks s'" "m \<le> m'" "t < ?T" for t m' m
        proof -
          from a(1,3) have old: "(t, v, m') \<in> a_acks s" by (auto simp: ak)
          have k: "kept s t m l (?T - 1)"
            by (rule kept_before [OF inv_acksD(3) [OF i(4) old a(2) l a(3)] uT(3)])
          from inv_acksD(1) [OF i(4) old] a(2) have "a_ldr s t \<noteq> None" "m \<le> length (a_llog s t)" by auto
          from kept_extends [OF i(2,3) x this k] show ?thesis by simp
        qed
        with l show ?thesis unfolding eq by blast
      qed
      with S(1) uT(1,2) show ?thesis by blast
    qed
  qed
  moreover have "inv_commit Q s'"
    unfolding inv_commit_alt
  proof (intro conjI allI impI)
    show "commit_ok Q s' m" for m
      by (rule commit_ok_step [of Q s, OF _ x]) (use i(6) in \<open>auto simp: inv_commit_alt eq lg\<close>)
    fix t k p es c assume "(t, k, p, es, c) \<in> a_ae s'"
    then show "ae_ok Q s' t k p es c"
      by (intro ae_ok_step [of Q s, OF _ x]) (use i(6) in \<open>auto simp: inv_commit_alt eq\<close>)
  qed
  ultimately show ?thesis using vt by (simp add: spec_inv_def)
qed

lemma inv_append:
  assumes iv: "spec_inv Q s" and r: "a_role s n = Leader" "e_term e = a_term s n"
  shows "spec_inv Q (a_append n e s)"
proof (rule grow_inv [OF iv])
  note i = spec_invD [OF iv]
  note l = inv_leaderD(1) [OF i(2) r(1)]
  let ?s = "a_append n e s"
  show "extends s ?s" using l r(2) by (auto simp: extends_def a_append_def)
  show "inv_votes ?s"
    by (rule inv_votesI) (use inv_votesD [OF i(1)] r(1) in \<open>auto simp: a_append_def\<close>)
  show "\<exists>c es. (a_term s n, n, n, c) \<in> a_votes s \<and> a_log s n = c @ es \<and> (\<forall>e\<in>set es. e_term e = a_term s n)"
    using inv_leaderD(2) [OF i(2), of "a_term s n" n] l by auto
qed (use inv_leaderD(1) [OF spec_invD(2) [OF iv] r(1)] r in \<open>auto simp: a_append_def\<close>)

text \<open>A follower's append: the part of the leader's log it sends, after the consistency check.\<close>

lemma accept_facts:
  assumes iv: "spec_inv Q s" and ae: "(a_term s n, k, p, es, c) \<in> a_ae s" and p: "p \<le> length (a_log s n)"
    and pt: "p > 0 \<longrightarrow> e_term (a_log s n ! (p - 1)) = e_term (a_llog s (a_term s n) ! (p - 1))"
  obtains q where "p \<le> q" "q \<le> length (a_llog s (a_term s n))" "p + length es = q" "c \<le> q"
    "q \<le> length (append_new (a_log s n) p es)"
    "take q (append_new (a_log s n) p es) = take q (a_llog s (a_term s n))"
    "append_new (a_log s n) p es = a_log s n \<or> append_new (a_log s n) p es = take q (a_llog s (a_term s n))"
    "\<And>m. m \<le> length (a_log s n) \<Longrightarrow> take m (a_log s n) = take m (a_llog s (a_term s n))
       \<Longrightarrow> m \<le> length (append_new (a_log s n) p es)
          \<and> take m (append_new (a_log s n) p es) = take m (a_llog s (a_term s n))"
proof -
  note i = spec_invD [OF iv]
  let ?g = "a_llog s (a_term s n)"
  from inv_commitD(3) [OF i(6) ae] obtain q where ld: "a_ldr s (a_term s n) = Some k"
    and q: "p \<le> q" "q \<le> length ?g" "es = drop p (take q ?g)" "c \<le> q" by blast
  have m: "matching (a_log s n) ?g"
    by (rule good_logs_matching [OF inv_logsD(1) [OF i(3)] inv_logsD(3) [OF i(3)]]) (simp add: ld)
  have "take p (a_log s n) = take p ?g"
  proof (cases p)
    case (Suc j)
    then have "j < length (a_log s n)" "j < length ?g" "e_term (a_log s n ! j) = e_term (?g ! j)"
      using p q(1,2) pt by auto
    with m Suc show ?thesis by (simp add: matching_def)
  qed simp
  note f = append_new_facts [OF q(1,2) p this m, folded q(3)]
  from q have "p + length es = q" by simp
  from that [OF q(1,2) this q(4) f(1,2,3) f(4)] show ?thesis .
qed

lemma inv_accept:
  assumes Q: "quorum_system Q" and iv: "spec_inv Q s" and r: "a_role s n \<noteq> Candidate" "n \<noteq> k"
    and ae: "(a_term s n, k, p, es, c) \<in> a_ae s" and p: "p \<le> length (a_log s n)"
    and pt: "p > 0 \<longrightarrow> e_term (a_log s n ! (p - 1)) = e_term (a_llog s (a_term s n) ! (p - 1))"
  shows "spec_inv Q (a_accept n p es c s)"
proof -
  note i = spec_invD [OF iv]
  let ?s = "a_accept n p es c s" and ?T = "a_term s n"
  let ?g = "a_llog s ?T" and ?r = "append_new (a_log s n) p es"
  obtain q where q: "p \<le> q" "q \<le> length ?g" "p + length es = q" "c \<le> q" "q \<le> length ?r"
    "take q ?r = take q ?g" "?r = a_log s n \<or> ?r = take q ?g"
    and keep: "\<And>m. m \<le> length (a_log s n) \<Longrightarrow> take m (a_log s n) = take m ?g \<Longrightarrow> m \<le> length ?r \<and> take m ?r = take m ?g"
    using accept_facts [OF iv ae p pt] by metis
  have ld: "a_ldr s ?T = Some k" using inv_commitD(3) [OF i(6) ae] by blast
  then have ldn: "a_ldr s ?T \<noteq> None" by simp
  have fol: "a_role s n = Follower"
    using inv_leaderD(1) [OF i(2), of n] r ld by (cases "a_role s n") auto
  have eq: "a_term ?s = a_term s" "a_votes ?s = a_votes s" "a_ae ?s = a_ae s" "a_role ?s = a_role s"
    "a_vote ?s = a_vote s" "a_ldr ?s = a_ldr s" "a_llog ?s = a_llog s" "a_log ?s = (a_log s)(n := ?r)"
    "a_acks ?s = insert (?T, n, q) (a_acks s)"
    "a_commit ?s = (a_commit s)(n := if c > a_commit s n then min c (length ?r) else a_commit s n)"
    by (simp_all add: a_accept_def Let_def q(3))
  have x: "extends s ?s" by (auto simp: extends_def eq)
  have gg: "good_log s ?g" by (rule inv_logsD(3) [OF i(3) ldn])
  have "inv_votes ?s"
    by (rule inv_votesI) (use inv_votesD [OF i(1)] fol in \<open>auto simp: eq\<close>)
  moreover have "inv_leader ?s"
    by (rule inv_leaderI) (use inv_leaderD [OF i(2)] fol in \<open>auto simp: eq\<close>)
  moreover have "inv_logs ?s"
  proof (rule inv_logsI)
    show "good_log ?s (a_log ?s m)" for m
      using q(7) good_log_take [OF gg] inv_logsD(1) [OF i(3)]
      by (intro good_log_extends [OF _ x]) (auto simp: eq)
    have "e \<in> set ?r \<Longrightarrow> e_term e \<le> ?T" for e
      using q(7) inv_logsD(2) [OF i(3)] llog_terms(1) [OF i(2,3) ldn] by (metis in_set_takeD)
    then show "e \<in> set (a_log ?s m) \<Longrightarrow> e_term e \<le> a_term ?s m" for m e
      using inv_logsD(2) [OF i(3)] by (auto simp: eq split: if_splits)
    show "a_ldr ?s t \<noteq> None \<Longrightarrow> good_log ?s (a_llog ?s t)" for t
      using good_log_extends [OF inv_logsD(3) [OF i(3)] x] by (simp add: eq)
    show "(t, v, d, l) \<in> a_votes ?s \<Longrightarrow> good_log ?s l" for t v d l
      using good_log_extends [OF inv_logsD(4) [OF i(3)] x] unfolding eq by blast
    show "(t, d, d, l) \<in> a_votes ?s \<Longrightarrow> e \<in> set l \<Longrightarrow> e_term e < t" for t d l e
      using inv_logsD(5) [OF i(3)] unfolding eq by blast
    show "(t, v, d, l) \<in> a_votes ?s \<Longrightarrow> \<exists>l'. (t, d, d, l') \<in> a_votes ?s \<and> up_to_date l' l" for t v d l
      using inv_logsD(6) [OF i(3)] unfolding eq by blast
  qed
  moreover have "inv_acks ?s"
  proof (rule inv_acks_step [OF i(1-4) x])
    fix t v m m' assume a: "(t, v, m') \<in> a_acks s" "m \<le> m'"
    show "kept ?s t m (a_log ?s v) (a_term ?s v)"
    proof (cases "v = n \<and> \<not> (m \<le> length ?r \<and> take m ?r = take m (a_llog s t))")
      case False
      then show ?thesis
      proof (cases "v = n")
        case True with False show ?thesis by (simp add: kept_def eq)
      next
        case ne: False
        show ?thesis by (rule kept_log_frame [OF i(2-4) x a]) (simp_all add: eq ne)
      qed
    next
      case True
      then have vn: "v = n" and no: "\<not> (m \<le> length ?r \<and> take m ?r = take m (a_llog s t))" by blast+
      from inv_acksD(1) [OF i(4) a(1)] vn have t: "t \<le> ?T" "a_ldr s t \<noteq> None" by auto
      have k: "kept s t m (a_log s n) ?T" using inv_acksD(2) [OF i(4) a] vn by simp
      then have k': "kept ?s t m ?r ?T"
      proof (cases "m \<le> length (a_log s n) \<and> take m (a_log s n) = take m (a_llog s t)")
        case True
        with keep [of m] no have "take m ?g \<noteq> take m (a_llog s t)" by auto
        moreover from this t(1) have "t < ?T" by (metis le_neq_implies_less)
        ultimately show ?thesis using ldn by (auto simp: kept_def eq)
      qed (auto simp: kept_def eq)
      with vn show ?thesis by (simp add: eq)
    qed
  qed (use q ldn in \<open>auto simp: eq\<close>)
  moreover have "inv_elected Q ?s"
    unfolding inv_elected_def
  proof (intro allI impI)
    fix u k assume "a_ldr ?s u = Some k"
    then have "a_ldr s u = Some k" by (simp add: eq)
    then show "\<exists>S. Q S \<and> (\<forall>v\<in>S. \<exists>l. (u, v, k, l) \<in> a_votes ?s
        \<and> (\<forall>t m' m. (t, v, m') \<in> a_acks ?s \<longrightarrow> m \<le> m' \<longrightarrow> t < u \<longrightarrow> kept ?s t m l (u - 1)))"
      by (rule inv_elected_step [OF i(1-5) x, rotated]) (auto simp: eq)
  qed
  moreover have "inv_commit Q ?s"
    unfolding inv_commit_alt
  proof (intro conjI allI impI)
    have lc: "j \<le> length ?g \<and> take j ?g = take j (a_llog s t)"
      if "committed Q s t m" "j \<le> m" "t \<le> ?T" for t m j
    proof (cases "t = ?T")
      case True with that show ?thesis by (auto simp: committed_def)
    next
      case False
      with that(3) have "t < ?T" by simp
      from quorum_system.leader_completeness [OF Q i(1-5) that(1) this ldn] that(2)
      show ?thesis by (auto intro: take_eq_mono)
    qed
    have ok: "commit_ok Q ?s n" if j: "a_commit ?s n = j" "j > 0" "committed Q s t m" "j \<le> m" "t \<le> ?T"
      "j \<le> length ?r" "take j ?r = take j ?g" for t m j
      using committed_extends [OF j(3) x] lc [OF j(3-5)] j unfolding commit_ok_def by (auto simp: eq)
    show "commit_ok Q ?s m" for m
    proof (cases "m = n")
      case False
      then show ?thesis
        by (intro commit_ok_step [of Q s, OF _ x]) (use i(6) in \<open>auto simp: inv_commit_alt eq\<close>)
    next
      case True
      have "commit_ok Q ?s n"
      proof (cases "c > a_commit s n")
        case c: True
        with inv_commitD(4) [OF i(6) ae] obtain t m where t: "committed Q s t m" "c \<le> m" "t \<le> ?T" by auto
        show ?thesis
          by (rule ok [OF _ _ t]) (use c q take_eq_mono [OF q(6) q(4)] in \<open>auto simp: eq min_def\<close>)
      next
        case c: False
        show ?thesis
        proof (cases "a_commit s n = 0")
          case True
          with c have "a_commit ?s n = 0" by (simp only: eq if_False fun_upd_same)
          then show ?thesis by (simp add: commit_ok_def)
        next
          case pos: False
          with inv_commitD(2) [OF i(6), of n] obtain t m where t: "committed Q s t m" "a_commit s n \<le> m"
            "t \<le> ?T" "take (a_commit s n) (a_log s n) = take (a_commit s n) (a_llog s t)" by auto
          with lc [OF t(1-3)] keep [OF inv_commitD(1) [OF i(6)]]
          have "a_commit s n \<le> length ?r \<and> take (a_commit s n) ?r = take (a_commit s n) ?g" by simp
          with c pos show ?thesis by (intro ok [OF _ _ t(1-3)]) (auto simp: eq)
        qed
      qed
      with True show ?thesis by simp
    qed
    fix t k p' es' d assume "(t, k, p', es', d) \<in> a_ae ?s"
    then show "ae_ok Q ?s t k p' es' d"
      by (intro ae_ok_step [of Q s, OF _ x]) (use i(6) in \<open>auto simp: inv_commit_alt eq\<close>)
  qed
  ultimately show ?thesis by (simp add: spec_inv_def)
qed

context quorum_system begin

lemma inv_lead:
  assumes iv: "spec_inv Q s" and r: "a_role s n = Candidate" "Q S"
    "\<forall>v\<in>S. \<exists>l. (a_term s n, v, n, l) \<in> a_votes s" "e_term e = a_term s n"
  shows "spec_inv Q (a_lead n e s)"
proof -
  note i = spec_invD [OF iv]
  note l = inv_votesD(3) [OF i(1) r(1)]
  have none: "a_ldr s (a_term s n) = None" by (rule no_second_leader [OF i(1,5) r(1-3)])
  let ?s = "a_lead n e s"
  have x: "extends s ?s" using none by (auto simp: extends_def a_lead_def)
  have "inv_votes ?s"
  proof (rule inv_votesI)
    fix m assume "a_role ?s m = Candidate"
    then show "a_vote ?s m = Some m \<and> (a_term ?s m, m, m, a_log ?s m) \<in> a_votes ?s
        \<and> a_ldr ?s (a_term ?s m) \<noteq> Some m"
      using inv_votesD(3) [OF i(1), of m] by (auto simp: a_lead_def split: if_splits)
  next
    fix v c l assume "(a_term ?s v, v, c, l) \<in> a_votes ?s"
    then show "a_vote ?s v = Some c \<or> (c = v \<and> a_role ?s v = Follower
        \<and> (\<exists>k. a_ldr ?s (a_term ?s v) = Some k \<and> k \<noteq> v))"
      using inv_votesD(4) [OF i(1), of v c l] l none by (auto simp: a_lead_def)
  next
    fix t v c c' l l' assume "(t, v, c, l) \<in> a_votes ?s" "(t, v, c', l') \<in> a_votes ?s" "c \<noteq> c'"
    then show "(c = v \<or> c' = v) \<and> (\<exists>k. a_ldr ?s t = Some k \<and> k \<noteq> v)"
      using inv_votesD(5) [OF i(1), of t v c l c' l'] none by (auto simp: a_lead_def)
  qed (use inv_votesD(1,2) [OF i(1)] in \<open>auto simp: a_lead_def\<close>)
  then show ?thesis
    by (rule grow_inv [OF iv x]) (use l none r in \<open>auto simp: a_lead_def\<close>)
qed

lemma inv_astep:
  assumes "astep Q s s'" "spec_inv Q s"
  shows "spec_inv Q s'"
  using assms
proof cases
  case (accept n l p es c)
  then show ?thesis using inv_accept [OF quorum_system_axioms assms(2)] by blast
qed (simp_all add: assms(2) inv_timeout inv_see_term inv_step_down inv_grant inv_append inv_send
    inv_commit_to inv_restart inv_lead)

end

section \<open>Safety of reachable states\<close>

context quorum_system begin

lemma astep_extends:
  assumes st: "astep Q s s'" and iv: "spec_inv Q s"
  shows "extends s s'"
proof -
  note i = spec_invD [OF iv]
  have ld: "a_ldr s (a_term s n) = None" if "a_role s n = Candidate" "Q S"
    "\<forall>v\<in>S. \<exists>l. (a_term s n, v, n, l) \<in> a_votes s" for n S
    by (rule no_second_leader [OF i(1,5) that])
  from st show ?thesis
  proof cases
    case (lead n S e)
    with ld [OF lead(2-4)] show ?thesis by (auto simp: extends_def a_lead_def)
  next
    case (append n e)
    with inv_leaderD(1) [OF i(2) append(2)] show ?thesis by (auto simp: extends_def a_append_def)
  qed (auto simp: extends_def a_timeout_def a_see_term_def a_step_down_def a_grant_def a_send_def
      a_accept_def a_commit_to_def a_restart_def Let_def)
qed

lemma inv_steps: "(astep Q)\<^sup>*\<^sup>* s s' \<Longrightarrow> spec_inv Q s \<Longrightarrow> spec_inv Q s'"
  by (induction rule: rtranclp_induct) (auto intro: inv_astep)

lemma extends_trans:
  assumes "extends s s'" "extends s' s''" shows "extends s s''"
  unfolding extends_def
proof (intro conjI allI impI)
  fix t assume t: "a_ldr s t \<noteq> None"
  have e: "a_ldr s' t = a_ldr s t" by (rule extends_ldr [OF assms(1) t])
  with t have t': "a_ldr s' t \<noteq> None" by simp
  from extends_ldr [OF assms(2) t'] e show "a_ldr s'' t = a_ldr s t" by simp
  obtain es where "a_llog s' t = a_llog s t @ es" "\<forall>e\<in>set es. e_term e = t"
    by (rule extends_llog [OF assms(1) t])
  moreover obtain es' where "a_llog s'' t = a_llog s' t @ es'" "\<forall>e\<in>set es'. e_term e = t"
    by (rule extends_llog [OF assms(2) t'])
  ultimately have "a_llog s'' t = a_llog s t @ (es @ es') \<and> (\<forall>e\<in>set (es @ es'). e_term e = t)"
    by auto
  then show "\<exists>es. a_llog s'' t = a_llog s t @ es \<and> (\<forall>e\<in>set es. e_term e = t)" by blast
qed (use assms in \<open>auto simp: extends_def\<close>)

lemma extends_steps: "(astep Q)\<^sup>*\<^sup>* s s' \<Longrightarrow> spec_inv Q s \<Longrightarrow> extends s s'"
proof (induction rule: rtranclp_induct)
  case (step s' s'')
  then show ?case using astep_extends inv_steps extends_trans by blast
qed simp

lemma election_safety:
  assumes "spec_inv Q s" "a_role s n = Leader" "a_role s m = Leader" "a_term s n = a_term s m"
  shows "n = m"
proof -
  note l = inv_leaderD(1) [OF spec_invD(2) [OF assms(1)]]
  from l [OF assms(2)] l [OF assms(3)] show ?thesis unfolding assms(4) by simp
qed

lemma log_matching:
  assumes "spec_inv Q s" "k < length (a_log s n)" "k < length (a_log s m)"
    "e_term (a_log s n ! k) = e_term (a_log s m ! k)"
  shows "take (Suc k) (a_log s n) = take (Suc k) (a_log s m)"
  using good_logs_matching [OF inv_logsD(1) inv_logsD(1)] spec_invD(3) [OF assms(1)] assms(2-)
  unfolding matching_def by blast

text \<open>Two committed prefixes are prefixes of one log.\<close>

lemma committed_agree:
  assumes iv: "spec_inv Q s" and c: "committed Q s t m" "committed Q s t' m'" "j \<le> m" "j \<le> m'"
  shows "take j (a_llog s t) = take j (a_llog s t')"
proof -
  note i = spec_invD [OF iv]
  have le: "take j (a_llog s u) = take j (a_llog s u')"
    if "u < u'" "committed Q s u k" "committed Q s u' k'" "j \<le> k" for u u' k k'
  proof -
    from that(3) have "a_ldr s u' \<noteq> None" by (simp add: committed_def)
    from leader_completeness [OF i(1-5) that(2,1) this]
    have "take k (a_llog s u) = take k (a_llog s u')" by simp
    then show ?thesis by (rule take_eq_mono) (rule that(4))
  qed
  show ?thesis
  proof (cases t t' rule: linorder_cases)
    case less
    from le [OF this c(1,2,3)] show ?thesis by simp
  next
    case greater
    from le [OF this c(2,1,4)] show ?thesis by simp
  qed simp
qed

lemma state_machine_safety:
  assumes iv: "spec_inv Q s" and j: "j \<le> a_commit s n" "j \<le> a_commit s m"
  shows "take j (a_log s n) = take j (a_log s m)"
proof (cases "j = 0")
  case False
  note cD = inv_commitD(2) [OF spec_invD(6) [OF iv]]
  from False j obtain t i where t: "committed Q s t i" "a_commit s n \<le> i"
    "take (a_commit s n) (a_log s n) = take (a_commit s n) (a_llog s t)" using cD [of n] by auto
  from False j obtain t' i' where t': "committed Q s t' i'" "a_commit s m \<le> i'"
    "take (a_commit s m) (a_log s m) = take (a_commit s m) (a_llog s t')" using cD [of m] by auto
  have "take j (a_llog s t) = take j (a_llog s t')"
    by (rule committed_agree [OF iv t(1) t'(1)]) (use t(2) t'(2) j in auto)
  with take_eq_mono [OF t(3) j(1)] take_eq_mono [OF t'(3) j(2)] show ?thesis by simp
qed simp

text \<open>The same across time: a node that commits later agrees with one that committed before.\<close>

lemma committed_forever:
  assumes iv: "spec_inv Q s" and st: "(astep Q)\<^sup>*\<^sup>* s s'"
    and j: "j \<le> a_commit s n" "j \<le> a_commit s' m"
  shows "take j (a_log s n) = take j (a_log s' m)"
proof (cases "j = 0")
  case False
  have iv': "spec_inv Q s'" by (rule inv_steps [OF st iv])
  have x: "extends s s'" by (rule extends_steps [OF st iv])
  from False j obtain t i where t: "committed Q s t i" "a_commit s n \<le> i"
    "take (a_commit s n) (a_log s n) = take (a_commit s n) (a_llog s t)"
    using inv_commitD(2) [OF spec_invD(6) [OF iv], of n] by auto
  from False j obtain t' i' where t': "committed Q s' t' i'" "a_commit s' m \<le> i'"
    "take (a_commit s' m) (a_log s' m) = take (a_commit s' m) (a_llog s' t')"
    using inv_commitD(2) [OF spec_invD(6) [OF iv'], of m] by auto
  have "take j (a_llog s' t) = take j (a_llog s' t')"
    by (rule committed_agree [OF iv' committed_extends [OF t(1) x] t'(1)]) (use t(2) t'(2) j in auto)
  moreover have "take j (a_llog s' t) = take j (a_llog s t)"
    by (rule extends_take [OF x]) (use t(1,2) j(1) in \<open>auto simp: committed_def\<close>)
  ultimately show ?thesis using take_eq_mono [OF t(3) j(1)] take_eq_mono [OF t'(3) j(2)] by simp
qed simp

text \<open>Whoever leads a later term has every prefix that any node has committed.\<close>

lemma leader_has_committed:
  assumes iv: "spec_inv Q s" and l: "a_role s l = Leader" "a_term s n \<le> a_term s l"
  shows "a_commit s n \<le> length (a_log s l)
    \<and> take (a_commit s n) (a_log s l) = take (a_commit s n) (a_log s n)"
proof (cases "a_commit s n = 0")
  case False
  note i = spec_invD [OF iv]
  note L = inv_leaderD(1) [OF i(2) l(1)]
  from False inv_commitD(2) [OF i(6), of n] obtain t m where t: "committed Q s t m" "a_commit s n \<le> m"
    "t \<le> a_term s n" "take (a_commit s n) (a_log s n) = take (a_commit s n) (a_llog s t)" by auto
  show ?thesis
  proof (cases "t = a_term s l")
    case True
    with t L show ?thesis by (auto simp: committed_def)
  next
    case False
    with t(3) l(2) have "t < a_term s l" by simp
    from leader_completeness [OF i(1-5) t(1) this] t(2,4) L
    show ?thesis by (auto intro: take_eq_mono)
  qed
qed simp

end

end
