(* ===== verification/Raft_Local.thy ===== *)
theory Raft_Local
  imports Raft_Spec
begin

text \<open>
  What holds of one \<open>RaftNode\<close> on its own, whatever the other nodes do: the files always hold
  the term, vote and log in memory, so a restart loses none of them; the loops over the log
  find what they look for; a node that stops leading fails every pending client call; a
  candidate's log is compared as the protocol says.
\<close>

section \<open>Positions and indices\<close>

definition idx_ok :: "log_entry list \<Rightarrow> bool" where
  "idx_ok l \<longleftrightarrow> (\<forall>k < length l. e_index (l ! k) = k + 1)"

lemma idx_ok_Nil [simp]: "idx_ok []"
  by (simp add: idx_ok_def)

lemma idx_ok_snoc: "idx_ok (l @ [e]) \<longleftrightarrow> idx_ok l \<and> e_index e = length l + 1"
  by (auto simp: idx_ok_def nth_append less_Suc_eq all_conj_distrib)

lemma idx_ok_take: "idx_ok l \<Longrightarrow> idx_ok (take q l)"
  by (simp add: idx_ok_def)

lemma last_log_index_ok [simp]: "idx_ok (log nd) \<Longrightarrow> last_log_index nd = length (log nd)"
  by (cases "log nd" rule: rev_cases) (auto simp: last_log_index_def idx_ok_snoc)

lemma last_log_term_eq: "last_log_term nd = lterm (log nd)"
  by (simp add: last_log_term_def lterm_def)

lemma candidate_up_to_date_iff:
  assumes "idx_ok (log nd)"
  shows "candidate_log_up_to_date nd (length l) (lterm l) \<longleftrightarrow> up_to_date l (log nd)"
  using assms by (auto simp: candidate_log_up_to_date_def up_to_date_def last_log_term_eq)

section \<open>Durability\<close>

definition durable :: "raft_node \<Rightarrow> bool" where
  "durable nd \<longleftrightarrow>
     (disk_hard nd = Some (dumps (hard_state_json (current_term nd) (voted_for nd)))
        \<or> (disk_hard nd = None \<and> current_term nd = 0 \<and> voted_for nd = None))
     \<and> (disk_log nd = Some (dumps (JArr (map entry_json (log nd))))
        \<or> (disk_log nd = None \<and> log nd = []))"

lemma json_entry_json [simp]: "json_entry (entry_json e) = Some e"
  by (simp add: json_entry_def entry_json_def jget_def dget_def)

lemma jwf_hard [simp]: "jwf (hard_state_json t v)"
  by (cases v) (simp_all add: hard_state_json_def)

lemma jwf_entries [simp]: "list_all jwf (map entry_json es)"
  by (induction es) (auto simp: entry_json_def)

lemma those_map_Some: "(\<And>x. f (g x) = Some x) \<Longrightarrow> those (map f (map g xs)) = Some xs"
  by (induction xs) simp_all

lemma load_hard_state_dumps:
  assumes "disk_hard nd = Some (dumps (hard_state_json t v))"
  shows "load_hard_state nd = nd\<lparr>current_term := t, voted_for := v\<rparr>"
proof -
  have "loads (dumps (hard_state_json t v)) = Some (hard_state_json t v)"
    by (rule loads_dumps) simp
  then show ?thesis using assms
    by (cases v) (simp_all add: load_hard_state_def hard_state_json_def jget_def dget_def)
qed

lemma load_log_dumps:
  assumes "disk_log nd = Some (dumps (JArr (map entry_json es)))"
  shows "load_log nd = nd\<lparr>log := es\<rparr>"
proof -
  have "loads (dumps (JArr (map entry_json es))) = Some (JArr (map entry_json es))"
    by (rule loads_dumps) simp
  moreover have "those (map json_entry (map entry_json es)) = Some es" by (rule those_map_Some) simp
  ultimately show ?thesis using assms by (simp add: load_log_def)
qed

lemma load_none:
  "disk_hard nd = None \<Longrightarrow> load_hard_state nd = nd" "disk_log nd = None \<Longrightarrow> load_log nd = nd"
  by (simp_all add: load_hard_state_def load_log_def)

lemma load_hard_fields [simp]:
  "node_id (load_hard_state nd) = node_id nd" "peers (load_hard_state nd) = peers nd"
  "log (load_hard_state nd) = log nd" "commit_index (load_hard_state nd) = commit_index nd"
  "last_applied (load_hard_state nd) = last_applied nd" "state (load_hard_state nd) = state nd"
  "leader_id (load_hard_state nd) = leader_id nd" "next_index (load_hard_state nd) = next_index nd"
  "match_index (load_hard_state nd) = match_index nd" "ballots (load_hard_state nd) = ballots nd"
  "apply_queue (load_hard_state nd) = apply_queue nd" "waiters (load_hard_state nd) = waiters nd"
  "commit_waiters (load_hard_state nd) = commit_waiters nd"
  "disk_hard (load_hard_state nd) = disk_hard nd" "disk_log (load_hard_state nd) = disk_log nd"
  by (simp_all add: load_hard_state_def split: option.split json.split)

lemma load_log_only: "load_log nd = nd\<lparr>log := log (load_log nd)\<rparr>"
  by (auto simp: load_log_def split: option.split json.split)

lemma load_log_fields [simp]:
  "node_id (load_log nd) = node_id nd" "peers (load_log nd) = peers nd"
  "current_term (load_log nd) = current_term nd" "voted_for (load_log nd) = voted_for nd"
  "commit_index (load_log nd) = commit_index nd"
  "last_applied (load_log nd) = last_applied nd" "state (load_log nd) = state nd"
  "leader_id (load_log nd) = leader_id nd" "next_index (load_log nd) = next_index nd"
  "match_index (load_log nd) = match_index nd" "ballots (load_log nd) = ballots nd"
  "apply_queue (load_log nd) = apply_queue nd" "waiters (load_log nd) = waiters nd"
  "commit_waiters (load_log nd) = commit_waiters nd"
  "disk_hard (load_log nd) = disk_hard nd" "disk_log (load_log nd) = disk_log nd"
  by (subst load_log_only, simp)+

text \<open>Whatever is on disk, a restart leaves the other fields at their initial values.\<close>

lemma init_node_fields [simp]:
  "node_id (init_node i ps h l) = i" "peers (init_node i ps h l) = ps"
  "commit_index (init_node i ps h l) = 0" "last_applied (init_node i ps h l) = 0"
  "state (init_node i ps h l) = Follower" "leader_id (init_node i ps h l) = None"
  "next_index (init_node i ps h l) = []" "match_index (init_node i ps h l) = []"
  "election_timer (init_node i ps h l) = True" "ballots (init_node i ps h l) = []"
  "apply_queue (init_node i ps h l) = []" "waiters (init_node i ps h l) = []"
  "commit_waiters (init_node i ps h l) = []"
  "disk_hard (init_node i ps h l) = h" "disk_log (init_node i ps h l) = l"
  by (simp_all add: init_node_def reset_election_timer_def load_persistent_state_def)

lemma durable_restart:
  assumes d: "durable nd"
  shows "current_term (init_node i ps (disk_hard nd) (disk_log nd)) = current_term nd"
    "voted_for (init_node i ps (disk_hard nd) (disk_log nd)) = voted_for nd"
    "log (init_node i ps (disk_hard nd) (disk_log nd)) = log nd"
    "durable (init_node i ps (disk_hard nd) (disk_log nd))"
proof -
  have hard: "current_term (load_hard_state n0) = current_term nd \<and> voted_for (load_hard_state n0) = voted_for nd"
    if "disk_hard n0 = disk_hard nd" "current_term n0 = 0" "voted_for n0 = None" for n0
  proof (cases "disk_hard nd")
    case None
    with d have "current_term nd = 0" "voted_for nd = None" unfolding durable_def by (metis option.distinct(1))+
    with None that load_none(1) [of n0] show ?thesis by simp
  next
    case (Some h)
    with d that(1) have "disk_hard n0 = Some (dumps (hard_state_json (current_term nd) (voted_for nd)))"
      unfolding durable_def by (metis option.distinct(1))
    from load_hard_state_dumps [OF this] show ?thesis by simp
  qed
  have lg: "log (load_log n0) = log nd" if "disk_log n0 = disk_log nd" "log n0 = []" for n0
  proof (cases "disk_log nd")
    case None
    with d have "log nd = []" unfolding durable_def by (metis option.distinct(1))
    with None that load_none(2) [of n0] show ?thesis by simp
  next
    case (Some h)
    with d that(1) have "disk_log n0 = Some (dumps (JArr (map entry_json (log nd))))"
      unfolding durable_def by (metis option.distinct(1))
    from load_log_dumps [OF this] show ?thesis by simp
  qed
  show *: "current_term (init_node i ps (disk_hard nd) (disk_log nd)) = current_term nd"
    "voted_for (init_node i ps (disk_hard nd) (disk_log nd)) = voted_for nd"
    "log (init_node i ps (disk_hard nd) (disk_log nd)) = log nd"
    by (simp_all add: init_node_def reset_election_timer_def load_persistent_state_def hard lg)
  show "durable (init_node i ps (disk_hard nd) (disk_log nd))"
    using d by (simp add: durable_def *)
qed

lemma init_node_fresh [simp]:
  "current_term (init_node i ps None None) = 0" "voted_for (init_node i ps None None) = None"
  "log (init_node i ps None None) = []"
  by (simp_all add: init_node_def reset_election_timer_def load_persistent_state_def
      load_hard_state_def load_log_def)

lemma durable_fresh: "durable (init_node i ps None None)"
  by (simp add: durable_def)

text \<open>The definitions that only copy fields: \<open>simp add: node_simps\<close> computes any field through them.\<close>

declare become_follower_def [node_simps] fail_all_waiters_def [node_simps]
  reset_election_timer_def [node_simps] persist_hard_state_def [node_simps]
  persist_log_def [node_simps]

lemma become_follower_fields [simp]:
  "state (become_follower t nd) = Follower" "current_term (become_follower t nd) = t"
  "voted_for (become_follower t nd) = None" "log (become_follower t nd) = log nd"
  "commit_index (become_follower t nd) = commit_index nd" "node_id (become_follower t nd) = node_id nd"
  "last_applied (become_follower t nd) = last_applied nd" "peers (become_follower t nd) = peers nd"
  "apply_queue (become_follower t nd) = apply_queue nd" "ballots (become_follower t nd) = ballots nd"
  "next_index (become_follower t nd) = next_index nd" "match_index (become_follower t nd) = match_index nd"
  "leader_id (become_follower t nd) = leader_id nd" "election_timer (become_follower t nd)"
  "commit_waiters (become_follower t nd) = []" "isolated (become_follower t nd) = isolated nd"
  "disk_log (become_follower t nd) = disk_log nd"
  by (simp_all add: node_simps)

lemma durable_become_follower: "durable nd \<Longrightarrow> durable (become_follower t nd)"
  by (auto simp: durable_def node_simps)

lemma durable_request_vote: "durable nd \<Longrightarrow> durable (fst (handle_request_vote a nd))"
  by (auto simp: handle_request_vote_def Let_def durable_def node_simps)

lemma durable_ae_accept: "durable nd \<Longrightarrow> durable (fst (ae_accept a nd))"
  by (cases "ae_entries a") (auto simp: ae_accept_def Let_def durable_def node_simps)

lemma ae_follow_fields [simp]:
  "log (ae_follow a nd) = log nd" "commit_index (ae_follow a nd) = commit_index nd"
  "last_applied (ae_follow a nd) = last_applied nd" "apply_queue (ae_follow a nd) = apply_queue nd"
  "leader_id (ae_follow a nd) = Some (ae_leader a)" "election_timer (ae_follow a nd)"
  "node_id (ae_follow a nd) = node_id nd" "peers (ae_follow a nd) = peers nd"
  "ballots (ae_follow a nd) = ballots nd" "match_index (ae_follow a nd) = match_index nd"
  by (simp_all add: ae_follow_def Let_def reset_election_timer_def)

lemma durable_timer: "durable (reset_election_timer nd) = durable nd" "durable (nd\<lparr>leader_id := l\<rparr>) = durable nd"
  by (simp_all add: durable_def reset_election_timer_def)

lemma durable_ae_follow: "durable nd \<Longrightarrow> durable (ae_follow a nd)"
  by (simp add: ae_follow_def Let_def durable_timer durable_become_follower)

lemma append_entries_cases:
  assumes "handle_append_entries a nd = (nd', res)"
  obtains (stale) "ae_term a < current_term nd" "nd' = nd"
  | (rejected) "current_term nd \<le> ae_term a" "nd' = ae_follow a nd"
  | (accepted) "current_term nd \<le> ae_term a" "(nd', res) = ae_accept a (ae_follow a nd)"
proof (cases "ae_term a < current_term nd")
  case True
  with assms have "nd' = nd" by (auto simp: handle_append_entries_def)
  with True show ?thesis by (rule stale)
next
  case False
  show ?thesis
  proof (cases "nd' = ae_follow a nd")
    case True
    with False show ?thesis by (intro rejected) simp_all
  next
    case no: False
    have "(nd', res) = ae_accept a (ae_follow a nd)"
      using assms False no unfolding handle_append_entries_def Let_def by (simp split: if_splits)
    with False show ?thesis by (intro accepted) simp_all
  qed
qed

lemma ae_accept_fields:
  assumes "ae_accept a nd = (nd', res)"
  shows "last_applied nd' = last_applied nd" "apply_queue nd' = apply_queue nd" "state nd' = state nd"
    "waiters nd' = waiters nd" "commit_waiters nd' = commit_waiters nd" "election_timer nd' = election_timer nd"
    "ballots nd' = ballots nd" "current_term nd' = current_term nd" "hb_threads nd' = hb_threads nd"
proof -
  have "nd' = fst (ae_accept a nd)" using assms by simp
  then show "last_applied nd' = last_applied nd" "apply_queue nd' = apply_queue nd" "state nd' = state nd"
    "waiters nd' = waiters nd" "commit_waiters nd' = commit_waiters nd" "election_timer nd' = election_timer nd"
    "ballots nd' = ballots nd" "current_term nd' = current_term nd" "hb_threads nd' = hb_threads nd"
    by (simp_all add: ae_accept_def Let_def persist_log_def)
qed

lemma durable_append_entries:
  assumes "durable nd" shows "durable (fst (handle_append_entries a nd))"
proof -
  obtain nd' res where h: "handle_append_entries a nd = (nd', res)" by fastforce
  then show ?thesis
  proof (cases rule: append_entries_cases)
    case accepted
    then show ?thesis using h durable_ae_accept [OF durable_ae_follow [OF assms], of a a]
      by (metis fst_conv)
  qed (use h assms durable_ae_follow in simp_all)
qed

lemma durable_election:
  assumes "durable nd"
  shows "durable (start_election nd)" "durable (handle_vote_reply t r nd)" "durable (finish_election t nd)"
  using assms
  by (auto simp: start_election_def handle_vote_reply_def finish_election_def become_leader_def Let_def
      durable_def node_simps split: option.split)

lemma advance_from_fields [simp]:
  "current_term (advance_from nd i) = current_term nd" "voted_for (advance_from nd i) = voted_for nd"
  "log (advance_from nd i) = log nd" "state (advance_from nd i) = state nd"
  "disk_hard (advance_from nd i) = disk_hard nd" "disk_log (advance_from nd i) = disk_log nd"
  "node_id (advance_from nd i) = node_id nd" "peers (advance_from nd i) = peers nd"
  "ballots (advance_from nd i) = ballots nd" "match_index (advance_from nd i) = match_index nd"
  "next_index (advance_from nd i) = next_index nd" "last_applied (advance_from nd i) = last_applied nd"
  "apply_queue (advance_from nd i) = apply_queue nd" "waiters (advance_from nd i) = waiters nd"
  "commit_waiters (advance_from nd i) = commit_waiters nd"
  "election_timer (advance_from nd i) = election_timer nd" "leader_id (advance_from nd i) = leader_id nd"
  by (induction i) simp_all

lemma durable_append_reply: "durable nd \<Longrightarrow> durable (handle_append_reply p a r nd)"
  by (auto simp: handle_append_reply_def Let_def durable_def node_simps advance_commit_index_def)

lemma durable_append_entry:
  "durable nd \<Longrightarrow> append_entry_begin op f b c s nd = Inr (nd', idx, ref) \<Longrightarrow> durable nd'"
  by (auto simp: append_entry_begin_def Let_def durable_def node_simps split: if_splits)

lemma durable_applier:
  assumes "durable nd"
  shows "durable (applier_collect nd)" "durable (fst (applier_apply f nd sm))"
    "durable (fst (append_entry_end idx ref nd))" "durable (set_isolated on h nd)" "durable (fst (hb_turn nd))"
  using assms
  by (auto simp: applier_collect_def applier_apply_def resolve_waiter_def append_entry_end_def
      set_isolated_def hb_turn_def durable_def Let_def split: list.split prod.split option.split)

section \<open>The loops over the log\<close>

lemma conflict_start_bounds: "0 < p \<Longrightarrow> 0 < conflict_start l t p \<and> conflict_start l t p \<le> p"
  by (induction l t p rule: conflict_start.induct) auto

text \<open>The hint is the first index of the run of entries of the conflicting term.\<close>

lemma conflict_start_run:
  assumes "0 < p" "p \<le> length l" "e_term (l ! (p - 1)) = t"
  shows "\<forall>k. conflict_start l t p - 1 \<le> k \<and> k < p \<longrightarrow> e_term (l ! k) = t"
    and "conflict_start l t p = 1 \<or> e_term (l ! (conflict_start l t p - 2)) \<noteq> t"
  using assms
proof (induction l t p rule: conflict_start.induct)
  case (2 l t c)
  have r: "(\<forall>k. conflict_start l t (Suc c) - 1 \<le> k \<and> k < Suc c \<longrightarrow> e_term (l ! k) = t)
      \<and> (conflict_start l t (Suc c) = 1 \<or> e_term (l ! (conflict_start l t (Suc c) - 2)) \<noteq> t)"
    if a: "Suc c \<le> length l" "e_term (l ! (Suc c - 1)) = t"
  proof (cases "Suc c > 1 \<and> e_term (l ! (Suc c - 2)) = t")
    case True
    then have "0 < c" "c \<le> length l" "e_term (l ! (c - 1)) = t" using a by (simp_all add: numeral_2_eq_2)
    from 2(1) [OF True this] 2(2) [OF True this] True a(2) show ?thesis
      by (auto simp: less_Suc_eq numeral_2_eq_2)
  next
    case False
    then have "conflict_start l t (Suc c) = Suc c" by (simp only: conflict_start.simps if_False)
    moreover have "e_term (l ! k) = t" if "c \<le> k" "k < Suc c" for k
    proof -
      from that have "k = c" by simp
      with a(2) show ?thesis by simp
    qed
    ultimately show ?thesis using False by auto
  qed
  { case 1 with r show ?case by blast }
  { case 2 with r show ?case by blast }
qed simp_all

lemma last_with_term_le: "last_with_term l t n \<le> n"
  by (induction l t n rule: last_with_term.induct) auto

lemma last_with_term_spec:
  "last_with_term l t n = 0 \<and> (\<forall>k<n. e_term (l ! k) \<noteq> t)
   \<or> (\<exists>i. last_with_term l t n = Suc i \<and> i < n \<and> e_term (l ! i) = t \<and> (\<forall>k. i < k \<and> k < n \<longrightarrow> e_term (l ! k) \<noteq> t))"
  by (induction l t n rule: last_with_term.induct) (auto simp: less_Suc_eq)

text \<open>The commit rule: the largest index above the old one that a majority has, of the own term.\<close>

definition committable :: "raft_node \<Rightarrow> nat \<Rightarrow> bool" where
  "committable nd i \<longleftrightarrow> replicated_count nd i \<ge> majority nd \<and> 0 < i \<and> i \<le> length (log nd)
                       \<and> e_term (log nd ! (i - 1)) = current_term nd"

lemma advance_from_spec:
  "(commit_index (advance_from nd n) = commit_index nd \<and> (\<forall>i. commit_index nd < i \<and> i \<le> n \<longrightarrow> \<not> committable nd i))
   \<or> (commit_index nd < commit_index (advance_from nd n) \<and> commit_index (advance_from nd n) \<le> n
      \<and> committable nd (commit_index (advance_from nd n))
      \<and> (\<forall>i. commit_index (advance_from nd n) < i \<and> i \<le> n \<longrightarrow> \<not> committable nd i))"
  by (induction n) (auto simp: committable_def le_Suc_eq)

lemma commit_index_advance:
  assumes "commit_index (advance_from nd n) \<noteq> commit_index nd"
  shows "committable nd (commit_index (advance_from nd n))"
  using advance_from_spec [of nd n] assms by blast

lemma advance_from_only: "advance_from nd n = nd\<lparr>commit_index := commit_index (advance_from nd n)\<rparr>"
  by (induction n) simp_all


section \<open>Client data through the log\<close>

text \<open>The applier hands \<open>apply_fn\<close> the very bytes the client gave to \<open>append_entry\<close>.\<close>

lemma run_apply_client:
  assumes "op \<noteq> ''noop''"
  shows "run_apply f (client_entry t i op fn b c s) sm =
    (case f ((client_entry t i op fn b c s)\<lparr>data := b\<rparr>) sm of
       (sm', Inl x) \<Rightarrow> (sm', RExn x) | (sm', Inr d) \<Rightarrow> (sm', RDict d))"
  using assms by (simp add: run_apply_def client_entry_def)

lemma run_apply_noop: "run_apply f (noop_entry t i) sm = (sm, RNone)"
  by (simp add: run_apply_def noop_entry_def)

end
