(* ===== verification/Raft_Cluster.thy ===== *)
theory Raft_Cluster
  imports Raft_Safety Raft_Local
begin

text \<open>
  A cluster of \<open>RaftNode\<close>s over a network that may lose, delay, duplicate and reorder requests
  and replies: the sets of the messages ever sent only grow and any of them may be delivered at
  any time. Every step runs one locked section of one node, as \<open>Raft_Node\<close> models it; the vote
  replies of one peer to one election are counted once, since \<open>_start_election\<close> makes one call
  per peer. A handler that has stepped down to a newer term has written the term to the disk before it
  goes on; the steps \<open>cut_vote\<close> and \<open>cut_append\<close> stop there, for a process that dies before the
  handler's second write (a \<open>restart\<close> follows).

  Two things are assumed of the environment. A reply to an append request reaches a leader only
  while the leader is still in the term of the request: the call has a deadline of 2.0 seconds
  and a deposed leader waits at least \<open>ELECTION_TIMEOUT_MIN\<close> = 2.0 seconds before it
  stands again (the code itself does not compare the two terms). And nobody calls
  \<open>InstallSnapshot\<close>: no code path of the program sends it.

  The simulation lemma maps every step to steps of the abstract protocol, so that the safety
  theorems of \<open>Raft_Safety\<close> hold of the code's nodes.
\<close>

section \<open>Cluster state and steps\<close>

record 's cluster =
  c_node :: "nat \<Rightarrow> raft_node"
  c_sm :: "nat \<Rightarrow> 's"
  c_applied :: "nat \<Rightarrow> log_entry list"
  c_rv :: "rv_args set"
  c_rvr :: "(nat \<times> rv_args \<times> rv_reply) set"
  c_counted :: "(nat \<times> nat \<times> nat) set"
  c_ae :: "(nat \<times> ae_args) set"
  c_aer :: "(nat \<times> ae_args \<times> ae_reply) set"

definition set_node :: "nat \<Rightarrow> raft_node \<Rightarrow> 's cluster \<Rightarrow> 's cluster" where
  "set_node n nd c = c\<lparr>c_node := (c_node c)(n := nd)\<rparr>"

definition c_init :: "(nat \<Rightarrow> (nat, addr) dict) \<Rightarrow> 's \<Rightarrow> 's cluster" where
  "c_init cfg sm0 = \<lparr>c_node = (\<lambda>n. init_node n (cfg n) None None), c_sm = (\<lambda>_. sm0), c_applied = (\<lambda>_. []),
     c_rv = {}, c_rvr = {}, c_counted = {}, c_ae = {}, c_aer = {}\<rparr>"

definition c_restart :: "'s \<Rightarrow> nat \<Rightarrow> 's cluster \<Rightarrow> 's cluster" where
  "c_restart sm0 n c =
     (let nd = c_node c n in
      set_node n (init_node n (peers nd) (disk_hard nd) (disk_log nd))
        (c\<lparr>c_sm := (c_sm c)(n := sm0), c_applied := (c_applied c)(n := [])\<rparr>))"

text \<open>The entries handed to the state machine: \<open>applier_apply\<close> takes the head of the queue.\<close>

definition c_apply ::
  "(log_entry \<Rightarrow> 's \<Rightarrow> 's \<times> (exn + (string, pyval) dict)) \<Rightarrow> nat \<Rightarrow> 's cluster \<Rightarrow> 's cluster" where
  "c_apply f n c =
     (let (nd, sm) = applier_apply f (c_node c n) (c_sm c n) in
      set_node n nd (c\<lparr>c_sm := (c_sm c)(n := sm),
        c_applied := (c_applied c)(n := c_applied c n @ map snd (take 1 (apply_queue (c_node c n))))\<rparr>))"

inductive cstep ::
  "nat set \<Rightarrow> (log_entry \<Rightarrow> 's \<Rightarrow> 's \<times> (exn + (string, pyval) dict)) \<Rightarrow> 's \<Rightarrow> 's cluster \<Rightarrow> 's cluster \<Rightarrow> bool"
  for ids f sm0 where
  timeout: "n \<in> ids \<Longrightarrow> election_timer (c_node c n)
    \<Longrightarrow> cstep ids f sm0 c (set_node n (start_election (c_node c n)) c)"
| send_vote: "n \<in> ids \<Longrightarrow> request_vote_msg (c_node c n) t = Some a
    \<Longrightarrow> cstep ids f sm0 c (c\<lparr>c_rv := insert a (c_rv c)\<rparr>)"
| recv_vote: "n \<in> ids \<Longrightarrow> a \<in> c_rv c \<Longrightarrow> n \<noteq> rv_candidate a \<Longrightarrow> \<not> isolated (c_node c n)
    \<Longrightarrow> handle_request_vote a (c_node c n) = (nd, r)
    \<Longrightarrow> cstep ids f sm0 c (set_node n nd (c\<lparr>c_rvr := insert (n, a, r) (c_rvr c)\<rparr>))"
| vote_reply: "(v, a, r) \<in> c_rvr c \<Longrightarrow> n = rv_candidate a \<Longrightarrow> (n, rv_term a, v) \<notin> c_counted c
    \<Longrightarrow> cstep ids f sm0 c (set_node n (handle_vote_reply (rv_term a) r (c_node c n))
                             (c\<lparr>c_counted := insert (n, rv_term a, v) (c_counted c)\<rparr>))"
| finish: "n \<in> ids \<Longrightarrow> cstep ids f sm0 c (set_node n (finish_election t (c_node c n)) c)"
| heartbeat: "n \<in> ids \<Longrightarrow> cstep ids f sm0 c (set_node n (fst (hb_turn (c_node c n))) c)"
| send_append: "n \<in> ids \<Longrightarrow> p \<in> set (dkeys (peers (c_node c n)))
    \<Longrightarrow> append_entries_msg (c_node c n) p = Inr (Some a)
    \<Longrightarrow> cstep ids f sm0 c (c\<lparr>c_ae := insert (p, a) (c_ae c)\<rparr>)"
| recv_append: "(n, a) \<in> c_ae c \<Longrightarrow> \<not> isolated (c_node c n)
    \<Longrightarrow> handle_append_entries a (c_node c n) = (nd, Inr r)
    \<Longrightarrow> cstep ids f sm0 c (set_node n nd (c\<lparr>c_aer := insert (n, a, r) (c_aer c)\<rparr>))"
| recv_append_fails: "(n, a) \<in> c_ae c \<Longrightarrow> \<not> isolated (c_node c n)
    \<Longrightarrow> handle_append_entries a (c_node c n) = (nd, Inl x) \<Longrightarrow> cstep ids f sm0 c (set_node n nd c)"
| append_reply: "(p, a, r) \<in> c_aer c \<Longrightarrow> n = ae_leader a
    \<Longrightarrow> state (c_node c n) = Leader \<longrightarrow> current_term (c_node c n) = ae_term a
    \<Longrightarrow> cstep ids f sm0 c (set_node n (handle_append_reply p a r (c_node c n)) c)"
| client: "n \<in> ids \<Longrightarrow> append_entry_begin op fn b cl sq (c_node c n) = Inr (nd, i, ref)
    \<Longrightarrow> cstep ids f sm0 c (set_node n nd c)"
| client_end: "n \<in> ids \<Longrightarrow> ref < length (waiters (c_node c n))
    \<Longrightarrow> cstep ids f sm0 c (set_node n (fst (append_entry_end i ref (c_node c n))) c)"
| collect: "n \<in> ids \<Longrightarrow> apply_queue (c_node c n) = []
    \<Longrightarrow> cstep ids f sm0 c (set_node n (applier_collect (c_node c n)) c)"
| apply_one: "n \<in> ids \<Longrightarrow> cstep ids f sm0 c (c_apply f n c)"
| isolate: "n \<in> ids \<Longrightarrow> cstep ids f sm0 c (set_node n (set_isolated on h (c_node c n)) c)"
| restart: "n \<in> ids \<Longrightarrow> cstep ids f sm0 c (c_restart sm0 n c)"
| cut_vote: "n \<in> ids \<Longrightarrow> a \<in> c_rv c \<Longrightarrow> \<not> isolated (c_node c n) \<Longrightarrow> current_term (c_node c n) < rv_term a
    \<Longrightarrow> cstep ids f sm0 c (set_node n (become_follower (rv_term a) (c_node c n)) c)"
| cut_append: "(n, a) \<in> c_ae c \<Longrightarrow> \<not> isolated (c_node c n)
    \<Longrightarrow> current_term (c_node c n) < ae_term a \<or> current_term (c_node c n) = ae_term a \<and> state (c_node c n) = Candidate
    \<Longrightarrow> cstep ids f sm0 c (set_node n (become_follower (ae_term a) (c_node c n)) c)"

definition cluster_config :: "nat set \<Rightarrow> (nat \<Rightarrow> (nat, addr) dict) \<Rightarrow> bool" where
  "cluster_config ids cfg \<longleftrightarrow> finite ids \<and> (\<forall>n\<in>ids. wf_dict (cfg n) \<and> fst ` set (cfg n) = ids - {n})"

definition maj :: "nat set \<Rightarrow> nat set \<Rightarrow> bool" where
  "maj ids S \<longleftrightarrow> finite ids \<and> S \<subseteq> ids \<and> card S \<ge> card ids div 2 + 1"

lemma maj_intersect: "maj ids S \<Longrightarrow> maj ids T \<Longrightarrow> S \<inter> T \<noteq> {}"
proof
  assume S: "maj ids S" and T: "maj ids T" and "S \<inter> T = {}"
  then have "card (S \<union> T) = card S + card T"
    by (intro card_Un_disjoint) (auto simp: maj_def dest: finite_subset)
  moreover have "card (S \<union> T) \<le> card ids"
    using S T by (intro card_mono) (auto simp: maj_def)
  moreover have "card ids < 2 * (card ids div 2 + 1)" by presburger
  ultimately show False using S T by (simp add: maj_def)
qed

text \<open>The majorities the code counts are quorums.\<close>

interpretation raft: quorum_system "maj ids" for ids
  by unfold_locales (rule maj_intersect)

lemma card_config:
  assumes "cluster_config ids cfg" "n \<in> ids"
  shows "length (cfg n) + 1 = card ids"
proof -
  have "length (cfg n) = card (fst ` set (cfg n))"
    using assms by (metis cluster_config_def distinct_card length_map list.set_map wf_dict_def)
  also have "\<dots> = card ids - 1" using assms by (simp add: cluster_config_def)
  finally show ?thesis using assms by (metis Suc_diff_1 Suc_eq_plus1 card_gt_0_iff cluster_config_def empty_iff)
qed

section \<open>The simulation relation\<close>

text \<open>What a message says is in the history of the abstract protocol.\<close>

definition rv_ok :: "nat set \<Rightarrow> raft_spec \<Rightarrow> rv_args \<Rightarrow> bool" where
  "rv_ok ids s a \<longleftrightarrow> rv_candidate a \<in> ids
     \<and> (\<exists>l. (rv_term a, rv_candidate a, rv_candidate a, l) \<in> a_votes s
            \<and> rv_last_idx a = length l \<and> rv_last_term a = lterm l)"

definition rvr_ok :: "nat set \<Rightarrow> raft_spec \<Rightarrow> nat \<Rightarrow> rv_args \<Rightarrow> rv_reply \<Rightarrow> bool" where
  "rvr_ok ids s v a r \<longleftrightarrow> v \<in> ids \<and> v \<noteq> rv_candidate a \<and> rv_ok ids s a
     \<and> (rvr_granted r \<longrightarrow> (\<exists>l. (rv_term a, v, rv_candidate a, l) \<in> a_votes s))"

definition ae_msg_ok :: "nat set \<Rightarrow> raft_spec \<Rightarrow> nat \<Rightarrow> ae_args \<Rightarrow> bool" where
  "ae_msg_ok ids s p a \<longleftrightarrow> p \<in> ids \<and> ae_leader a \<in> ids \<and> p \<noteq> ae_leader a
     \<and> a_ldr s (ae_term a) \<noteq> None \<and> ae_prev_idx a \<le> length (a_llog s (ae_term a))
     \<and> (ae_term a, ae_leader a, ae_prev_idx a, ae_entries a, ae_commit a) \<in> a_ae s
     \<and> (ae_prev_idx a > 0 \<longrightarrow> ae_prev_term a = e_term (a_llog s (ae_term a) ! (ae_prev_idx a - 1)))"

definition aer_ok :: "nat set \<Rightarrow> raft_spec \<Rightarrow> nat \<Rightarrow> ae_args \<Rightarrow> ae_reply \<Rightarrow> bool" where
  "aer_ok ids s p a r \<longleftrightarrow> ae_msg_ok ids s p a
     \<and> (aer_success r \<longrightarrow> (ae_term a, p, ae_prev_idx a + length (ae_entries a)) \<in> a_acks s)
     \<and> (\<not> aer_success r \<longrightarrow> aer_conflict_idx r \<le> ae_prev_idx a \<and> (aer_conflict_term r > 0 \<longrightarrow> aer_conflict_idx r > 0))"

definition ballot_ok :: "nat set \<Rightarrow> raft_spec \<Rightarrow> (nat \<times> nat \<times> nat) set \<Rightarrow> nat \<Rightarrow> nat \<Rightarrow> ballot \<Rightarrow> bool" where
  "ballot_ok ids s cn n t b \<longleftrightarrow> b_needed b = card ids div 2 + 1
     \<and> (\<exists>l. (t, n, n, l) \<in> a_votes s \<and> b_last_idx b = length l \<and> b_last_term b = lterm l)
     \<and> b_votes b \<le> 1 + card {v\<in>ids. v \<noteq> n \<and> (n, t, v) \<in> cn \<and> (\<exists>l. (t, v, n, l) \<in> a_votes s)}"

definition match_ok :: "nat set \<Rightarrow> raft_spec \<Rightarrow> nat \<Rightarrow> raft_node \<Rightarrow> bool" where
  "match_ok ids s n nd \<longleftrightarrow>
     (\<forall>p m. dget (match_index nd) p = Some m \<longrightarrow> 0 < m \<longrightarrow> (current_term nd, p, m) \<in> a_acks s)
     \<and> (\<forall>p\<in>ids. \<forall>k. dget (next_index nd) p = Some k \<longrightarrow> 0 < k \<and> k \<le> length (log nd) + 1)"

definition view :: "raft_spec \<Rightarrow> nat \<Rightarrow> raft_node \<Rightarrow> bool" where
  "view s n nd \<longleftrightarrow> a_term s n = current_term nd \<and> a_vote s n = voted_for nd \<and> a_role s n = state nd
     \<and> a_log s n = log nd \<and> a_commit s n = commit_index nd"

definition node_sim ::
  "nat set \<Rightarrow> (nat \<Rightarrow> (nat, addr) dict) \<Rightarrow> raft_spec \<Rightarrow> (nat \<times> nat \<times> nat) set \<Rightarrow> nat \<Rightarrow> raft_node \<Rightarrow> bool" where
  "node_sim ids cfg s cn n nd \<longleftrightarrow> view s n nd \<and> node_id nd = n \<and> peers nd = cfg n \<and> durable nd
     \<and> idx_ok (log nd)
     \<and> wf_dict (match_index nd) \<and> fst ` set (match_index nd) \<subseteq> ids
     \<and> (\<forall>t b. dget (ballots nd) t = Some b \<longrightarrow> ballot_ok ids s cn n t b)
     \<and> (state nd = Leader \<longrightarrow> match_ok ids s n nd)"

definition sim :: "nat set \<Rightarrow> (nat \<Rightarrow> (nat, addr) dict) \<Rightarrow> 's cluster \<Rightarrow> raft_spec \<Rightarrow> bool" where
  "sim ids cfg c s \<longleftrightarrow>
     (\<forall>n\<in>ids. node_sim ids cfg s (c_counted c) n (c_node c n))
     \<and> (\<forall>a\<in>c_rv c. rv_ok ids s a) \<and> (\<forall>(v, a, r)\<in>c_rvr c. rvr_ok ids s v a r)
     \<and> (\<forall>(p, a)\<in>c_ae c. ae_msg_ok ids s p a) \<and> (\<forall>(p, a, r)\<in>c_aer c. aer_ok ids s p a r)
     \<and> (\<forall>t. a_ldr s t \<noteq> None \<longrightarrow> idx_ok (a_llog s t))"

lemma sim_init: "sim ids cfg (c_init cfg sm0) a_init"
  by (simp add: sim_def c_init_def node_sim_def view_def a_init_def durable_fresh match_ok_def)

text \<open>All of it survives steps that only add to the history.\<close>

definition grows :: "raft_spec \<Rightarrow> raft_spec \<Rightarrow> bool" where
  "grows s s' \<longleftrightarrow> extends s s' \<and> a_ae s \<subseteq> a_ae s'"

lemma growsD: "grows s s' \<Longrightarrow> extends s s'" "grows s s' \<Longrightarrow> x \<in> a_votes s \<Longrightarrow> x \<in> a_votes s'"
  "grows s s' \<Longrightarrow> y \<in> a_acks s \<Longrightarrow> y \<in> a_acks s'" "grows s s' \<Longrightarrow> z \<in> a_ae s \<Longrightarrow> z \<in> a_ae s'"
  by (auto simp: grows_def extends_def)

lemma grows_refl [simp]: "grows s s" by (simp add: grows_def)

lemma rv_ok_grows: "grows s s' \<Longrightarrow> rv_ok ids s a \<Longrightarrow> rv_ok ids s' a"
  unfolding rv_ok_def by (blast dest: growsD(2))

lemma rvr_ok_grows: "grows s s' \<Longrightarrow> rvr_ok ids s v a r \<Longrightarrow> rvr_ok ids s' v a r"
  unfolding rvr_ok_def by (blast dest: growsD(2) rv_ok_grows)

lemma ae_msg_ok_grows:
  assumes g: "grows s s'" and a: "ae_msg_ok ids s p a" shows "ae_msg_ok ids s' p a"
proof -
  from a have l: "a_ldr s (ae_term a) \<noteq> None" "ae_prev_idx a \<le> length (a_llog s (ae_term a))"
    by (auto simp: ae_msg_ok_def)
  have "a_llog s' (ae_term a) ! (ae_prev_idx a - 1) = a_llog s (ae_term a) ! (ae_prev_idx a - 1)"
    if "0 < ae_prev_idx a"
    by (rule take_eq_nth [OF extends_take [OF growsD(1) [OF g] l]])
      (use that l(2) extends_length [OF growsD(1) [OF g] l(1)] in auto)
  with a l extends_ldr [OF growsD(1) [OF g] l(1)] extends_length [OF growsD(1) [OF g] l(1)] growsD(4) [OF g]
  show ?thesis by (auto simp: ae_msg_ok_def)
qed

lemma aer_ok_grows: "grows s s' \<Longrightarrow> aer_ok ids s p a r \<Longrightarrow> aer_ok ids s' p a r"
  unfolding aer_ok_def by (blast dest: growsD(3) ae_msg_ok_grows)

lemma ballot_ok_grows:
  assumes g: "grows s s'" and f: "finite ids" "cn \<subseteq> cn'" and b: "ballot_ok ids s cn n t b"
  shows "ballot_ok ids s' cn' n t b"
proof -
  have "card {v\<in>ids. v \<noteq> n \<and> (n, t, v) \<in> cn \<and> (\<exists>l. (t, v, n, l) \<in> a_votes s)}
      \<le> card {v\<in>ids. v \<noteq> n \<and> (n, t, v) \<in> cn' \<and> (\<exists>l. (t, v, n, l) \<in> a_votes s')}"
    using f by (intro card_mono) (auto dest: growsD(2) [OF g])
  moreover obtain l where "(t, n, n, l) \<in> a_votes s'" "b_last_idx b = length l" "b_last_term b = lterm l"
    using b growsD(2) [OF g] unfolding ballot_ok_def by blast
  ultimately show ?thesis using b unfolding ballot_ok_def by (auto intro: le_trans)
qed

lemma match_ok_grows: "grows s s' \<Longrightarrow> match_ok ids s n nd \<Longrightarrow> match_ok ids s' n nd"
  unfolding match_ok_def by (blast dest: growsD(3))

lemma node_sim_grows:
  assumes g: "grows s s'" and f: "finite ids" "cn \<subseteq> cn'" and n: "node_sim ids cfg s cn n nd" and v: "view s' n nd"
  shows "node_sim ids cfg s' cn' n nd"
  using n v ballot_ok_grows [OF g f] match_ok_grows [OF g] unfolding node_sim_def by blast

text \<open>A step of node \<open>n\<close>: what has to be shown of it, everything else being framed.\<close>

definition only :: "raft_spec \<Rightarrow> nat \<Rightarrow> raft_spec \<Rightarrow> bool" where
  "only s n s' \<longleftrightarrow> (\<forall>m. m \<noteq> n \<longrightarrow> a_term s' m = a_term s m \<and> a_vote s' m = a_vote s m
     \<and> a_role s' m = a_role s m \<and> a_log s' m = a_log s m \<and> a_commit s' m = a_commit s m)"

lemma only_refl [simp]: "only s n s"
  by (simp add: only_def)

lemma only_trans: "only s n s' \<Longrightarrow> only s' n s'' \<Longrightarrow> only s n s''"
  by (simp add: only_def)

lemma only_step [simp]:
  "only s n (a_timeout n s)" "only s n (a_see_term n t s)" "only s n (a_step_down n s)"
  "only s n (a_grant n k s)" "only s n (a_lead n e s)" "only s n (a_append n e s)"
  "only s n (a_send n p s)" "only s n (a_accept n p es i s)" "only s n (a_commit_to n i s)"
  "only s n (a_restart n s)"
  by (simp_all add: only_def a_timeout_def a_see_term_def a_step_down_def a_grant_def a_lead_def
      a_append_def a_send_def a_accept_def a_commit_to_def a_restart_def Let_def)

lemma astep_grows:
  assumes "astep (maj ids) s s'" "spec_inv (maj ids) s" shows "grows s s'"
proof -
  have "a_ae s \<subseteq> a_ae s'" using assms(1)
    by cases (auto simp: a_timeout_def a_see_term_def a_step_down_def a_grant_def a_lead_def
      a_append_def a_send_def a_accept_def a_commit_to_def a_restart_def Let_def)
  with raft.astep_extends [OF assms] show ?thesis by (simp add: grows_def)
qed

text \<open>Zero or more abstract steps of node \<open>n\<close>.\<close>

definition moves :: "nat set \<Rightarrow> raft_spec \<Rightarrow> nat \<Rightarrow> raft_spec \<Rightarrow> bool" where
  "moves ids s n s' \<longleftrightarrow> (astep (maj ids))\<^sup>*\<^sup>* s s' \<and> only s n s' \<and> spec_inv (maj ids) s' \<and> grows s s'"

lemma moves_refl: "spec_inv (maj ids) s \<Longrightarrow> moves ids s n s"
  by (simp add: moves_def)

lemma moves_step:
  assumes "moves ids s n s'" "astep (maj ids) s' s''" "only s' n s''"
  shows "moves ids s n s''"
proof -
  from assms(1) have iv: "spec_inv (maj ids) s'" by (simp add: moves_def)
  have "grows s s''" using assms(1) astep_grows [OF assms(2) iv] raft.extends_trans
    unfolding moves_def grows_def by blast
  with assms raft.inv_astep [OF assms(2) iv] show ?thesis
    unfolding moves_def by (auto intro: only_trans)
qed

lemma moves_one: "spec_inv (maj ids) s \<Longrightarrow> astep (maj ids) s s' \<Longrightarrow> only s n s' \<Longrightarrow> moves ids s n s'"
  by (rule moves_step [OF moves_refl])

lemma sim_node:
  assumes C: "finite ids" and S: "sim ids cfg c s" and m: "moves ids s n s'"
    and nd: "c_node c' = (c_node c)(n := nd)" "n \<in> ids \<Longrightarrow> node_sim ids cfg s' (c_counted c') n nd"
    and cn: "c_counted c \<subseteq> c_counted c'"
    and rv: "\<And>a. a \<in> c_rv c' \<Longrightarrow> a \<in> c_rv c \<or> rv_ok ids s' a"
    and rvr: "\<And>v a r. (v, a, r) \<in> c_rvr c' \<Longrightarrow> (v, a, r) \<in> c_rvr c \<or> rvr_ok ids s' v a r"
    and ae: "\<And>p a. (p, a) \<in> c_ae c' \<Longrightarrow> (p, a) \<in> c_ae c \<or> ae_msg_ok ids s' p a"
    and aer: "\<And>p a r. (p, a, r) \<in> c_aer c' \<Longrightarrow> (p, a, r) \<in> c_aer c \<or> aer_ok ids s' p a r"
    and ll: "\<And>t. a_ldr s' t \<noteq> None \<Longrightarrow> idx_ok (a_llog s' t)"
  shows "sim ids cfg c' s'"
proof -
  from m have g: "grows s s'" and o: "only s n s'" by (auto simp: moves_def)
  have "node_sim ids cfg s' (c_counted c') k (c_node c' k)" if k: "k \<in> ids" for k
  proof (cases "k = n")
    case False
    from S k have "node_sim ids cfg s (c_counted c) k (c_node c k)" by (simp add: sim_def)
    moreover from this False o have "view s' k (c_node c k)" by (simp add: node_sim_def view_def only_def)
    ultimately show ?thesis using False node_sim_grows [OF g C cn] by (simp add: nd)
  qed (use nd k in simp)
  moreover have "\<forall>a\<in>c_rv c'. rv_ok ids s' a" using rv S rv_ok_grows [OF g] unfolding sim_def by blast
  moreover have "\<forall>(v, a, r)\<in>c_rvr c'. rvr_ok ids s' v a r"
    using rvr S rvr_ok_grows [OF g] unfolding sim_def by fast
  moreover have "\<forall>(p, a)\<in>c_ae c'. ae_msg_ok ids s' p a"
    using ae S ae_msg_ok_grows [OF g] unfolding sim_def by fast
  moreover have "\<forall>(p, a, r)\<in>c_aer c'. aer_ok ids s' p a r"
    using aer S aer_ok_grows [OF g] unfolding sim_def by fast
  ultimately show ?thesis using ll by (simp add: sim_def)
qed

lemma simD:
  assumes "sim ids cfg c s"
  shows "n \<in> ids \<Longrightarrow> node_sim ids cfg s (c_counted c) n (c_node c n)"
    and "a \<in> c_rv c \<Longrightarrow> rv_ok ids s a" and "(v, a, r) \<in> c_rvr c \<Longrightarrow> rvr_ok ids s v a r"
    and "(p, b) \<in> c_ae c \<Longrightarrow> ae_msg_ok ids s p b" and "(p, b, q) \<in> c_aer c \<Longrightarrow> aer_ok ids s p b q"
    and "a_ldr s t \<noteq> None \<Longrightarrow> idx_ok (a_llog s t)"
  using assms by (auto simp: sim_def)

lemma node_simD:
  assumes "node_sim ids cfg s cn n nd"
  shows "a_term s n = current_term nd" "a_vote s n = voted_for nd" "a_role s n = state nd"
    "a_log s n = log nd" "a_commit s n = commit_index nd" "node_id nd = n" "peers nd = cfg n"
    "durable nd" "idx_ok (log nd)" "wf_dict (match_index nd)" "fst ` set (match_index nd) \<subseteq> ids"
    "dget (ballots nd) t = Some b \<Longrightarrow> ballot_ok ids s cn n t b" "state nd = Leader \<Longrightarrow> match_ok ids s n nd"
  using assms by (auto simp: node_sim_def view_def)

text \<open>Rebuilding the relation for a node whose bookkeeping did not change.\<close>

lemma node_sim_keep:
  assumes g: "grows s s'" and f: "finite ids" "cn \<subseteq> cn'" and n: "node_sim ids cfg s cn n nd"
    and v: "view s' n nd'" and d: "durable nd'" and i: "idx_ok (log nd')"
    and k: "node_id nd' = node_id nd" "peers nd' = peers nd" "ballots nd' = ballots nd"
      "match_index nd' = match_index nd"
    and m: "state nd' = Leader \<Longrightarrow> match_ok ids s' n nd'"
  shows "node_sim ids cfg s' cn' n nd'"
  using n v d i k m ballot_ok_grows [OF g f] unfolding node_sim_def by simp

section \<open>Stepping down\<close>

lemma see_term_sim:
  assumes C: "finite ids" and iv: "spec_inv (maj ids) s" and n: "node_sim ids cfg s cn n nd"
    and t: "current_term nd < t"
  shows "moves ids s n (a_see_term n t s)" "node_sim ids cfg (a_see_term n t s) cn n (become_follower t nd)"
proof -
  show m: "moves ids s n (a_see_term n t s)"
    by (rule moves_one [OF iv astep.see_term]) (use t node_simD(1) [OF n] in simp_all)
  then have g: "grows s (a_see_term n t s)" by (simp add: moves_def)
  show "node_sim ids cfg (a_see_term n t s) cn n (become_follower t nd)"
    by (rule node_sim_keep [OF g C subset_refl n])
      (use node_simD [OF n] durable_become_follower in \<open>auto simp: view_def a_see_term_def\<close>)
qed

lemma step_down_sim:
  assumes C: "finite ids" and iv: "spec_inv (maj ids) s" and n: "node_sim ids cfg s cn n nd"
    and r: "state nd = Candidate" "a_ldr s (current_term nd) \<noteq> None"
  shows "moves ids s n (a_step_down n s)" "node_sim ids cfg (a_step_down n s) cn n (become_follower (current_term nd) nd)"
proof -
  show m: "moves ids s n (a_step_down n s)"
    by (rule moves_one [OF iv astep.step_down]) (use r node_simD(1,3) [OF n] in simp_all)
  then have g: "grows s (a_step_down n s)" by (simp add: moves_def)
  show "node_sim ids cfg (a_step_down n s) cn n (become_follower (current_term nd) nd)"
    by (rule node_sim_keep [OF g C subset_refl n])
      (use node_simD [OF n] durable_become_follower in \<open>auto simp: view_def a_step_down_def\<close>)
qed

lemma llog_quiet: "a_ldr s' = a_ldr s \<Longrightarrow> a_llog s' = a_llog s \<Longrightarrow> sim ids cfg c s
    \<Longrightarrow> a_ldr s' t \<noteq> None \<Longrightarrow> idx_ok (a_llog s' t)"
  using simD(6) by metis

text \<open>Steps that touch nothing the protocol sees.\<close>

lemma sim_silent:
  assumes C: "finite ids" and S: "sim ids cfg c s" and iv: "spec_inv (maj ids) s"
    and n: "n \<in> ids \<Longrightarrow> node_sim ids cfg s (c_counted c) n nd"
    and c': "c_node c' = (c_node c)(n := nd)" "c_rv c' = c_rv c" "c_rvr c' = c_rvr c"
      "c_counted c' = c_counted c" "c_ae c' = c_ae c" "c_aer c' = c_aer c"
  shows "sim ids cfg c' s"
  by (rule sim_node [OF C S moves_refl [OF iv] c'(1)]) (use n c' simD(6) [OF S] in simp_all)

section \<open>Elections\<close>

lemma sim_timeout:
  assumes cf: "cluster_config ids cfg" and S: "sim ids cfg c s" and iv: "spec_inv (maj ids) s" and n: "n \<in> ids"
  shows "\<exists>s'. moves ids s n s' \<and> sim ids cfg (set_node n (start_election (c_node c n)) c) s'"
proof -
  from cf have C: "finite ids" by (simp add: cluster_config_def)
  let ?nd = "c_node c n" and ?nd' = "start_election (c_node c n)"
  have N: "node_sim ids cfg s (c_counted c) n ?nd" by (rule simD(1) [OF S n])
  note D = node_simD [OF N]
  show ?thesis
  proof (cases "state ?nd = Leader")
    case True
    have "sim ids cfg (set_node n ?nd' c) s"
      by (rule sim_silent [OF C S iv, of n ?nd'], rule node_sim_keep [OF grows_refl C subset_refl N])
        (use True D in \<open>auto simp: set_node_def start_election_def view_def durable_def match_ok_def\<close>)
    with moves_refl [OF iv] show ?thesis by blast
  next
    case False
    let ?s = "a_timeout n s"
    have m: "moves ids s n ?s"
      by (rule moves_one [OF iv astep.timeout]) (use False D(3) in simp_all)
    then have g: "grows s ?s" by (simp add: moves_def)
    have bal: "ballot_ok ids ?s (c_counted c) n (current_term ?nd + 1)
       \<lparr>b_last_idx = last_log_index ?nd, b_last_term = last_log_term ?nd, b_votes = 1, b_needed = majority ?nd\<rparr>"
      using card_config [OF cf n] D
      by (auto simp: ballot_ok_def a_timeout_def majority_def last_log_term_eq)
    have "node_sim ids cfg ?s (c_counted c) n ?nd'"
    proof -
      have "ballots ?nd' = dset (ballots ?nd) (current_term ?nd + 1)
          \<lparr>b_last_idx = last_log_index ?nd, b_last_term = last_log_term ?nd, b_votes = 1, b_needed = majority ?nd\<rparr>"
        using False by (simp add: start_election_def Let_def node_simps last_log_index_def
          last_log_term_def majority_def)
      then have "\<forall>t b. dget (ballots ?nd') t = Some b \<longrightarrow> ballot_ok ids ?s (c_counted c) n t b"
        using bal ballot_ok_grows [OF g C subset_refl D(12)] by auto
      moreover have "view ?s n ?nd'" "node_id ?nd' = n" "peers ?nd' = cfg n" "log ?nd' = log ?nd"
        "match_index ?nd' = match_index ?nd" "state ?nd' = Candidate"
        using False D by (auto simp: start_election_def Let_def node_simps view_def a_timeout_def)
      moreover have "durable ?nd'" by (rule durable_election [OF D(8)])
      ultimately show ?thesis using D(9,10,11) by (simp add: node_sim_def)
    qed
    then have "sim ids cfg (set_node n ?nd' c) ?s"
      by (intro sim_node [OF C S m]) (use simD(6) [OF S] in \<open>auto simp: set_node_def a_timeout_def\<close>)
    with m show ?thesis by blast
  qed
qed

lemma sim_send_vote:
  assumes C: "finite ids" and S: "sim ids cfg c s" and iv: "spec_inv (maj ids) s" and n: "n \<in> ids"
    and a: "request_vote_msg (c_node c n) t = Some a"
  shows "sim ids cfg (c\<lparr>c_rv := insert a (c_rv c)\<rparr>) s"
proof (rule sim_node [OF C S moves_refl [OF iv], of _ n "c_node c n"])
  note D = node_simD [OF simD(1) [OF S n]]
  from a obtain b where b: "dget (ballots (c_node c n)) t = Some b"
    "a = \<lparr>rv_term = t, rv_candidate = n, rv_last_idx = b_last_idx b, rv_last_term = b_last_term b\<rparr>"
    using D(6) by (auto simp: request_vote_msg_def split: if_splits option.splits)
  from D(12) [OF b(1)] b(2) n have "rv_ok ids s a" by (auto simp: ballot_ok_def rv_ok_def)
  then show "\<And>x. x \<in> c_rv (c\<lparr>c_rv := insert a (c_rv c)\<rparr>) \<Longrightarrow> x \<in> c_rv c \<or> rv_ok ids s x" by auto
qed (use simD(1,6) [OF S] in simp_all)

lemma request_vote_sim:
  assumes C: "finite ids" and iv: "spec_inv (maj ids) s" and N: "node_sim ids cfg s cn n nd0"
    and ok: "rv_ok ids s a" and nc: "n \<noteq> rv_candidate a" and h: "handle_request_vote a nd0 = (nd', r)"
  shows "\<exists>s'. moves ids s n s' \<and> node_sim ids cfg s' cn n nd' \<and> a_ldr s' = a_ldr s \<and> a_llog s' = a_llog s
           \<and> (rvr_granted r \<longrightarrow> (\<exists>l. (rv_term a, n, rv_candidate a, l) \<in> a_votes s'))"
proof -
  define nd where "nd = (if rv_term a > current_term nd0 then become_follower (rv_term a) nd0 else nd0)"
  define s1 where "s1 = (if rv_term a > current_term nd0 then a_see_term n (rv_term a) s else s)"
  have m1: "moves ids s n s1" and N1: "node_sim ids cfg s1 cn n nd"
    using see_term_sim [OF C iv N] moves_refl [OF iv] N by (auto simp: s1_def nd_def)
  have same: "a_ldr s1 = a_ldr s" "a_llog s1 = a_llog s" "a_votes s1 = a_votes s"
    by (simp_all add: s1_def a_see_term_def)
  have tle: "rv_term a \<le> current_term nd" by (simp add: nd_def)
  note D = node_simD [OF N1]
  show ?thesis
  proof (cases "rvr_granted r")
    case False
    then have "nd' = nd" using h by (auto simp: handle_request_vote_def Let_def nd_def)
    with m1 N1 same False show ?thesis by auto
  next
    case True
    then have g: "rv_term a \<ge> current_term nd" "voted_for nd = None \<or> voted_for nd = Some (rv_candidate a)"
      "candidate_log_up_to_date nd (rv_last_idx a) (rv_last_term a)"
      and nd': "nd' = reset_election_timer (persist_hard_state (nd\<lparr>voted_for := Some (rv_candidate a)\<rparr>))"
      using h by (auto simp: handle_request_vote_def Let_def nd_def [symmetric] split: if_splits)
    from ok obtain l where l: "(rv_term a, rv_candidate a, rv_candidate a, l) \<in> a_votes s"
      "rv_last_idx a = length l" "rv_last_term a = lterm l" by (auto simp: rv_ok_def)
    have t: "rv_term a = a_term s1 n" using g(1) tle D(1) by simp
    let ?s = "a_grant n (rv_candidate a) s1"
    have m: "moves ids s n ?s"
    proof (rule moves_step [OF m1 astep.grant [OF nc]])
      show "(a_term s1 n, rv_candidate a, rv_candidate a, l) \<in> a_votes s1" using l(1) t same by simp
      show "up_to_date l (a_log s1 n)" using g(3) l candidate_up_to_date_iff [OF D(9)] D(4) by simp
    qed (use g(2) D(2) in simp_all)
    then have "grows s1 ?s" by (auto simp: grows_def extends_def a_grant_def)
    then have "node_sim ids cfg ?s cn n nd'"
      by (rule node_sim_keep [OF _ C subset_refl N1])
        (use D in \<open>auto simp: nd' view_def a_grant_def node_simps durable_def match_ok_def\<close>)
    moreover have "(rv_term a, n, rv_candidate a, a_log s1 n) \<in> a_votes ?s" by (simp add: a_grant_def t)
    moreover have "a_ldr ?s = a_ldr s" "a_llog ?s = a_llog s" using same by (simp_all add: a_grant_def)
    ultimately show ?thesis using m by blast
  qed
qed

lemma sim_recv_vote:
  assumes C: "finite ids" and S: "sim ids cfg c s" and iv: "spec_inv (maj ids) s" and n: "n \<in> ids"
    and a: "a \<in> c_rv c" "n \<noteq> rv_candidate a" "handle_request_vote a (c_node c n) = (nd, r)"
  shows "\<exists>s'. moves ids s n s' \<and> sim ids cfg (set_node n nd (c\<lparr>c_rvr := insert (n, a, r) (c_rvr c)\<rparr>)) s'"
proof -
  obtain s' where s': "moves ids s n s'" "node_sim ids cfg s' (c_counted c) n nd" "a_ldr s' = a_ldr s"
    "a_llog s' = a_llog s" "rvr_granted r \<longrightarrow> (\<exists>l. (rv_term a, n, rv_candidate a, l) \<in> a_votes s')"
    using request_vote_sim [OF C iv simD(1) [OF S n] simD(2) [OF S a(1)] a(2,3)] by blast
  have "rv_ok ids s' a" by (rule rv_ok_grows [OF _ simD(2) [OF S a(1)]]) (use s'(1) in \<open>simp add: moves_def\<close>)
  then have "rvr_ok ids s' n a r" using s'(5) n a(2) by (simp add: rvr_ok_def)
  then have "sim ids cfg (set_node n nd (c\<lparr>c_rvr := insert (n, a, r) (c_rvr c)\<rparr>)) s'"
    by (intro sim_node [OF C S s'(1)]) (use s'(2-4) simD(6) [OF S] in \<open>auto simp: set_node_def\<close>)
  with s'(1) show ?thesis by blast
qed

text \<open>One more granted vote is one more voter: the reply of each peer is counted once.\<close>

lemma sim_vote_reply:
  assumes C: "finite ids" and S: "sim ids cfg c s" and iv: "spec_inv (maj ids) s"
    and a: "(v, a, r) \<in> c_rvr c" "n = rv_candidate a" "(n, rv_term a, v) \<notin> c_counted c"
  shows "\<exists>s'. moves ids s n s' \<and> sim ids cfg (set_node n (handle_vote_reply (rv_term a) r (c_node c n))
            (c\<lparr>c_counted := insert (n, rv_term a, v) (c_counted c)\<rparr>)) s'"
proof -
  let ?nd = "c_node c n" and ?cn = "insert (n, rv_term a, v) (c_counted c)"
  let ?nd' = "handle_vote_reply (rv_term a) r ?nd"
  let ?c = "set_node n ?nd' (c\<lparr>c_counted := ?cn\<rparr>)"
  from simD(3) [OF S a(1)] have r: "v \<in> ids" "v \<noteq> n" "n \<in> ids"
    "rvr_granted r \<longrightarrow> (\<exists>l. (rv_term a, v, n, l) \<in> a_votes s)" by (auto simp: rvr_ok_def rv_ok_def a(2))
  have N: "node_sim ids cfg s (c_counted c) n ?nd" by (rule simD(1) [OF S r(3)])
  note D = node_simD [OF N]
  have N': "node_sim ids cfg s ?cn n ?nd"
    by (rule node_sim_grows [OF grows_refl C _ N]) (use N in \<open>auto simp: node_sim_def\<close>)
  have fin: ?thesis if "moves ids s n s'" "node_sim ids cfg s' ?cn n ?nd'" "a_ldr s' = a_ldr s" "a_llog s' = a_llog s" for s'
  proof -
    have "sim ids cfg ?c s'"
      by (intro sim_node [OF C S that(1)]) (use that simD(6) [OF S] in \<open>auto simp: set_node_def\<close>)
    with that(1) show ?thesis by blast
  qed
  show ?thesis
  proof (cases "rvr_term r > current_term ?nd")
    case True
    from see_term_sim [OF C iv N' True] show ?thesis
      by (intro fin [of "a_see_term n (rvr_term r) s"]) (simp_all add: handle_vote_reply_def True a_see_term_def)
  next
    case False
    have "node_sim ids cfg s ?cn n ?nd'"
    proof (cases "rvr_granted r \<and> dget (ballots ?nd) (rv_term a) \<noteq> None")
      case no: False
      then have "?nd' = ?nd" using False by (auto simp: handle_vote_reply_def split: option.split)
      with N' show ?thesis by simp
    next
      case True
      then obtain b where b: "dget (ballots ?nd) (rv_term a) = Some b" by auto
      let ?b = "b\<lparr>b_votes := b_votes b + 1\<rparr>"
      have nd': "?nd' = ?nd\<lparr>ballots := dset (ballots ?nd) (rv_term a) ?b\<rparr>"
        using True False b by (simp add: handle_vote_reply_def)
      let ?V = "\<lambda>cn. {w\<in>ids. w \<noteq> n \<and> (n, rv_term a, w) \<in> cn \<and> (\<exists>l. (rv_term a, w, n, l) \<in> a_votes s)}"
      have "?V ?cn = insert v (?V (c_counted c))" using r True by auto
      moreover have "v \<notin> ?V (c_counted c)" using a(3) by simp
      ultimately have "card (?V ?cn) = card (?V (c_counted c)) + 1" using C by simp
      then have "ballot_ok ids s ?cn n (rv_term a) ?b"
        using D(12) [OF b] by (auto simp: ballot_ok_def)
      moreover have "ballot_ok ids s ?cn n t b'" if "dget (ballots ?nd) t = Some b'" for t b'
        by (rule node_simD(12) [OF N' that])
      ultimately show ?thesis using N' unfolding node_sim_def nd'
        by (auto simp: view_def durable_def match_ok_def)
    qed
    with fin [OF moves_refl [OF iv]] show ?thesis by simp
  qed
qed

section \<open>Winning an election\<close>

lemma node_sim_drop_ballot:
  "node_sim ids cfg s cn n nd \<Longrightarrow> node_sim ids cfg s cn n (nd\<lparr>ballots := dpop (ballots nd) t\<rparr>)"
  by (auto simp: node_sim_def view_def durable_def match_ok_def)

lemma node_sim_timer: "node_sim ids cfg s cn n (reset_election_timer nd) = node_sim ids cfg s cn n nd"
  by (simp add: reset_election_timer_def node_sim_def view_def durable_def match_ok_def)

lemma dget_foldl_dset: "dget (foldl (\<lambda>d p. dset d p v) d ks) x = (if x \<in> set ks then Some v else dget d x)"
  by (induction ks arbitrary: d) simp_all

lemma wf_foldl_dset: "wf_dict d \<Longrightarrow> wf_dict (foldl (\<lambda>d p. dset d p v) d ks)"
  by (induction ks arbitrary: d) simp_all

lemma keys_foldl_dset: "fst ` set (foldl (\<lambda>d p. dset d p v) d ks) = set ks \<union> fst ` set d"
  by (induction ks arbitrary: d) (auto simp: keys_dset)

lemma become_leader_fields:
  "state (become_leader nd) = Leader" "current_term (become_leader nd) = current_term nd"
  "voted_for (become_leader nd) = voted_for nd" "commit_index (become_leader nd) = commit_index nd"
  "log (become_leader nd) = log nd @ [noop_entry (current_term nd) (last_log_index nd + 1)]"
  "node_id (become_leader nd) = node_id nd" "peers (become_leader nd) = peers nd"
  "ballots (become_leader nd) = ballots nd"
  "match_index (become_leader nd) = dset (dset (foldl (\<lambda>d p. dset d p 0) (match_index nd) (dkeys (peers nd)))
      (node_id nd) (last_log_index nd)) (node_id nd) (last_log_index nd + 1)"
  "next_index (become_leader nd) = dset (foldl (\<lambda>d p. dset d p (last_log_index nd + 1)) (next_index nd)
      (dkeys (peers nd))) (node_id nd) (last_log_index nd + 2)"
  by (simp_all add: become_leader_def Let_def node_simps)

lemma become_leader_match_ok:
  assumes cf: "cluster_config ids cfg" "n \<in> ids" and N: "node_sim ids cfg s cn n nd"
    and ak: "(current_term nd, n, length (log nd) + 1) \<in> a_acks s'"
  shows "match_ok ids s' n (become_leader nd)" "wf_dict (match_index (become_leader nd))"
    "fst ` set (match_index (become_leader nd)) \<subseteq> ids"
proof -
  note D = node_simD [OF N]
  have pk: "set (dkeys (peers nd)) = ids - {n}" using cf D(7) by (simp add: cluster_config_def dkeys_def)
  have li: "last_log_index nd = length (log nd)" using D(9) by simp
  show "wf_dict (match_index (become_leader nd))"
    using D(10) by (simp add: become_leader_fields wf_foldl_dset)
  show "fst ` set (match_index (become_leader nd)) \<subseteq> ids"
    using D(6,11) cf(2) pk by (auto simp: become_leader_fields keys_dset keys_foldl_dset)
  have "m = 0 \<or> (p = n \<and> m = length (log nd) + 1)"
    if "dget (match_index (become_leader nd)) p = Some m" for p m
  proof (cases "p \<in> ids")
    case False
    then have "dget (match_index nd) p = None" using D(11) by (auto simp: dget_None_iff)
    with that False cf(2) show ?thesis
      by (auto simp: become_leader_fields dget_foldl_dset pk D(6) li split: if_splits)
  qed (use that in \<open>auto simp: become_leader_fields dget_foldl_dset pk D(6) li split: if_splits\<close>)
  moreover have "0 < k \<and> k \<le> length (log (become_leader nd)) + 1"
    if "p \<in> ids" "dget (next_index (become_leader nd)) p = Some k" for p k
    using that by (auto simp: become_leader_fields dget_foldl_dset pk D(6) li split: if_splits)
  ultimately show "match_ok ids s' n (become_leader nd)"
    using ak unfolding match_ok_def become_leader_fields(2) by fastforce
qed

lemma finish_wins_sim:
  assumes cf: "cluster_config ids cfg" "n \<in> ids" and iv: "spec_inv (maj ids) s"
    and N: "node_sim ids cfg s cn n nd" and w: "state nd = Candidate" "dget (ballots nd) (current_term nd) = Some b"
      "b_votes b \<ge> b_needed b"
  defines "nd1 \<equiv> nd\<lparr>ballots := dpop (ballots nd) (current_term nd)\<rparr>"
  defines "e \<equiv> noop_entry (current_term nd) (length (log nd) + 1)"
  shows "moves ids s n (a_lead n e s) \<and> node_sim ids cfg (a_lead n e s) cn n (become_leader nd1)"
proof -
  from cf have C: "finite ids" by (simp add: cluster_config_def)
  note D = node_simD [OF N]
  let ?V = "{v\<in>ids. v \<noteq> n \<and> (n, current_term nd, v) \<in> cn \<and> (\<exists>l. (current_term nd, v, n, l) \<in> a_votes s)}"
  from D(12) [OF w(2)] have b: "b_needed b = card ids div 2 + 1" "\<exists>l. (current_term nd, n, n, l) \<in> a_votes s"
    "b_votes b \<le> 1 + card ?V" by (auto simp: ballot_ok_def)
  have "maj ids (insert n ?V)" using b(1,3) w(3) C cf(2) by (auto simp: maj_def card_insert_if)
  moreover have "\<forall>v\<in>insert n ?V. \<exists>l. (a_term s n, v, n, l) \<in> a_votes s" using b(2) D(1) by auto
  ultimately have "astep (maj ids) s (a_lead n e s)"
    by (intro astep.lead [of s n _ "insert n ?V"]) (use w(1) D(1,3) in \<open>auto simp: e_def noop_entry_def\<close>)
  then have m: "moves ids s n (a_lead n e s)" by (rule moves_one [OF iv]) simp
  then have g: "grows s (a_lead n e s)" by (simp add: moves_def)
  have N1: "node_sim ids cfg s cn n nd1"
    unfolding nd1_def by (rule node_sim_drop_ballot [OF N])
  have "node_sim ids cfg (a_lead n e s) cn n (become_leader nd1)"
    unfolding node_sim_def
  proof (intro conjI allI impI)
    show "view (a_lead n e s) n (become_leader nd1)" using D
      by (simp add: view_def a_lead_def become_leader_fields nd1_def e_def last_log_index_def [symmetric] idx_ok_def)
    show "durable (become_leader nd1)" using D(8)
      by (simp add: nd1_def become_leader_def Let_def durable_def node_simps)
    show "idx_ok (log (become_leader nd1))" using node_simD(9) [OF N1]
      by (simp add: become_leader_fields idx_ok_snoc noop_entry_def)
    show "ballot_ok ids (a_lead n e s) cn n t b'" if "dget (ballots (become_leader nd1)) t = Some b'" for t b'
      using that ballot_ok_grows [OF g C subset_refl node_simD(12) [OF N1]]
      by (simp add: become_leader_fields)
    have "(current_term nd1, n, length (log nd1) + 1) \<in> a_acks (a_lead n e s)"
      using D(1,4) by (simp add: a_lead_def nd1_def)
    from become_leader_match_ok [OF cf N1 this]
    show "wf_dict (match_index (become_leader nd1))" "fst ` set (match_index (become_leader nd1)) \<subseteq> ids"
      "match_ok ids (a_lead n e s) n (become_leader nd1)" by blast+
  qed (use D in \<open>simp_all add: become_leader_fields nd1_def\<close>)
  with m show ?thesis by blast
qed

lemma sim_finish:
  assumes cf: "cluster_config ids cfg" and S: "sim ids cfg c s" and iv: "spec_inv (maj ids) s" and n: "n \<in> ids"
  shows "\<exists>s'. moves ids s n s' \<and> sim ids cfg (set_node n (finish_election t (c_node c n)) c) s'"
proof -
  from cf have C: "finite ids" by (simp add: cluster_config_def)
  let ?nd = "c_node c n" and ?nd' = "finish_election t (c_node c n)"
  have N: "node_sim ids cfg s (c_counted c) n ?nd" by (rule simD(1) [OF S n])
  note D = node_simD [OF N]
  show ?thesis
  proof (cases "state ?nd = Candidate \<and> current_term ?nd = t \<and> (\<exists>b. dget (ballots ?nd) t = Some b \<and> b_votes b \<ge> b_needed b)")
    case True
    then have t: "t = current_term ?nd" by simp
    from True obtain b where b: "state ?nd = Candidate" "dget (ballots ?nd) (current_term ?nd) = Some b"
      "b_votes b \<ge> b_needed b" unfolding t by blast
    let ?e = "noop_entry (current_term ?nd) (length (log ?nd) + 1)"
    have nd': "?nd' = become_leader (?nd\<lparr>ballots := dpop (ballots ?nd) (current_term ?nd)\<rparr>)"
      using b t by (simp add: finish_election_def Let_def)
    from finish_wins_sim [OF cf n iv N b] have m: "moves ids s n (a_lead n ?e s)"
      and N': "node_sim ids cfg (a_lead n ?e s) (c_counted c) n ?nd'" by (simp_all add: nd')
    have "sim ids cfg (set_node n ?nd' c) (a_lead n ?e s)"
      by (rule sim_node [OF C S m])
        (use N' simD(6) [OF S] D(4,9) in \<open>auto simp: set_node_def a_lead_def idx_ok_snoc noop_entry_def\<close>)
    with m show ?thesis by blast
  next
    case False
    have "node_sim ids cfg s (c_counted c) n ?nd'"
    proof (cases "dget (ballots ?nd) t")
      case None
      with N show ?thesis by (simp add: finish_election_def)
    next
      case (Some b)
      with False consider "?nd' = ?nd\<lparr>ballots := dpop (ballots ?nd) t\<rparr>"
        | "?nd' = reset_election_timer (?nd\<lparr>ballots := dpop (ballots ?nd) t\<rparr>)"
        by (cases "state ?nd = Candidate \<and> current_term ?nd = t") (simp_all add: finish_election_def Let_def)
      then show ?thesis
        by cases (simp_all only: node_sim_timer node_sim_drop_ballot [OF N])
    qed
    then have "sim ids cfg (set_node n ?nd' c) s"
      by (intro sim_silent [OF C S iv]) (simp_all add: set_node_def)
    with moves_refl [OF iv] show ?thesis by blast
  qed
qed

section \<open>Replicating the log\<close>

lemma leader_history:
  assumes iv: "spec_inv Q s" and N: "node_sim ids cfg s cn n nd" and l: "state nd = Leader"
  shows "a_ldr s (current_term nd) = Some n" "a_llog s (current_term nd) = log nd"
  using inv_leaderD(1) [OF spec_invD(2) [OF iv], of n] l node_simD [OF N] by simp_all

lemma sim_send_append:
  assumes cf: "cluster_config ids cfg" and S: "sim ids cfg c s" and iv: "spec_inv (maj ids) s" and n: "n \<in> ids"
    and p: "p \<in> set (dkeys (peers (c_node c n)))" and a: "append_entries_msg (c_node c n) p = Inr (Some a)"
  shows "\<exists>s'. moves ids s n s' \<and> sim ids cfg (c\<lparr>c_ae := insert (p, a) (c_ae c)\<rparr>) s'"
proof -
  from cf have C: "finite ids" by (simp add: cluster_config_def)
  let ?nd = "c_node c n"
  have N: "node_sim ids cfg s (c_counted c) n ?nd" by (rule simD(1) [OF S n])
  note D = node_simD [OF N]
  have pn: "p \<in> ids" "p \<noteq> n" using p cf n D(7) by (auto simp: cluster_config_def dkeys_def)
  let ?p = "dget_or (next_index ?nd) p 1 - 1"
  from a have l: "state ?nd = Leader" and le: "?p \<le> length (log ?nd)"
    and a': "a = \<lparr>ae_term = current_term ?nd, ae_leader = node_id ?nd, ae_prev_idx = ?p,
            ae_prev_term = (if ?p > 0 then e_term (log ?nd ! (?p - 1)) else 0),
            ae_entries = drop ?p (log ?nd), ae_commit = commit_index ?nd\<rparr>"
    by (auto simp: append_entries_msg_def Let_def split: if_splits)
  note h = leader_history [OF iv N l]
  let ?s = "a_send n ?p s"
  have m: "moves ids s n ?s"
    by (rule moves_one [OF iv astep.send]) (use l le D(3,4) in simp_all)
  then have g: "grows s ?s" by (simp add: moves_def)
  have "node_sim ids cfg ?s (c_counted c) n ?nd"
    by (rule node_sim_grows [OF g C subset_refl N]) (use D in \<open>simp add: view_def a_send_def\<close>)
  moreover have "ae_msg_ok ids ?s p a"
    using pn n h le D by (simp add: ae_msg_ok_def a' a_send_def)
  ultimately have "sim ids cfg (c\<lparr>c_ae := insert (p, a) (c_ae c)\<rparr>) ?s"
    by (intro sim_node [OF C S m, of _ ?nd]) (use simD(6) [OF S] in \<open>auto simp: a_send_def\<close>)
  with m show ?thesis by blast
qed

text \<open>The append handler after the consistency check is the protocol's accept step.\<close>

lemma ae_accept_sim:
  assumes C: "finite ids" and iv: "spec_inv (maj ids) s" and N: "node_sim ids cfg s cn n nd"
    and ok: "ae_msg_ok ids s n a" and t: "ae_term a = current_term nd" and r: "state nd \<noteq> Candidate"
    and p: "ae_prev_idx a \<le> length (log nd)" "ae_prev_idx a > 0 \<longrightarrow> e_term (log nd ! (ae_prev_idx a - 1)) = ae_prev_term a"
    and ll: "idx_ok (a_llog s (current_term nd))"
    and h: "ae_accept a nd = (nd', res)"
  shows "\<exists>s' rp. moves ids s n s' \<and> node_sim ids cfg s' cn n nd' \<and> a_ldr s' = a_ldr s \<and> a_llog s' = a_llog s
     \<and> res = Inr rp \<and> aer_ok ids s' n a rp \<and> commit_index nd \<le> commit_index nd'"
proof -
  note D = node_simD [OF N]
  let ?p = "ae_prev_idx a" and ?es = "ae_entries a"
  from ok have o: "n \<noteq> ae_leader a" "(a_term s n, ae_leader a, ?p, ?es, ae_commit a) \<in> a_ae s"
    "a_ldr s (a_term s n) = Some (ae_leader a)"
    "?p > 0 \<longrightarrow> ae_prev_term a = e_term (a_llog s (a_term s n) ! (?p - 1))"
    using inv_commitD(3) [OF spec_invD(6) [OF iv]] t D(1) by (auto simp: ae_msg_ok_def)
  have p': "?p \<le> length (a_log s n)"
    "?p > 0 \<longrightarrow> e_term (a_log s n ! (?p - 1)) = e_term (a_llog s (a_term s n) ! (?p - 1))"
    using p o(4) D(4) by simp_all
  let ?s = "a_accept n ?p ?es (ae_commit a) s" and ?l = "append_new (log nd) ?p ?es"
  have m: "moves ids s n ?s"
    by (rule moves_one [OF iv astep.accept [OF _ o(1,2) p']]) (use r D(3) in simp_all)
  then have g: "grows s ?s" by (simp add: moves_def)
  obtain q where "?l = log nd \<or> ?l = take q (a_llog s (a_term s n))" "ae_commit a \<le> length ?l"
    using accept_facts [OF iv o(2) p'] D(4) by (metis le_trans)
  then have il: "idx_ok ?l" and cl: "ae_commit a \<le> length ?l" using D(1,9) ll idx_ok_take by auto
  have nl: "state nd \<noteq> Leader"
    using inv_leaderD(1) [OF spec_invD(2) [OF iv], of n] o(1,3) D(3) by auto
  have f: "log nd' = ?l" "current_term nd' = current_term nd" "voted_for nd' = voted_for nd"
    "state nd' = state nd" "node_id nd' = node_id nd" "peers nd' = peers nd" "ballots nd' = ballots nd"
    "match_index nd' = match_index nd" "next_index nd' = next_index nd"
    "commit_index nd' = (if ae_commit a > commit_index nd then min (ae_commit a) (length ?l) else commit_index nd)"
    "res = Inr \<lparr>aer_term = current_term nd, aer_success = True, aer_conflict_idx = 0, aer_conflict_term = 0\<rparr>"
    using h il by (auto simp: ae_accept_def Let_def node_simps last_log_index_def [symmetric])
  have "durable nd'" using durable_ae_accept [OF D(8), of a] h by simp
  then have "node_sim ids cfg ?s cn n nd'"
    by (intro node_sim_keep [OF g C subset_refl N])
      (use f D il nl in \<open>auto simp: view_def a_accept_def Let_def\<close>)
  moreover have "aer_ok ids ?s n a \<lparr>aer_term = current_term nd, aer_success = True,
      aer_conflict_idx = 0, aer_conflict_term = 0\<rparr>"
    using ae_msg_ok_grows [OF g ok] t D(1) by (simp add: aer_ok_def a_accept_def Let_def)
  moreover have "a_ldr ?s = a_ldr s" "a_llog ?s = a_llog s" by (simp_all add: a_accept_def Let_def)
  moreover have "commit_index nd \<le> commit_index nd'" using f(10) cl by simp
  ultimately show ?thesis using m f(11) by blast
qed

lemma aer_ok_reject:
  assumes "ae_msg_ok ids s n a" "ci \<le> ae_prev_idx a" "ct > 0 \<longrightarrow> ci > 0"
  shows "aer_ok ids s n a (ae_reject nd ci ct)"
  using assms by (simp add: aer_ok_def ae_reject_def)

lemma append_entries_sim:
  assumes C: "finite ids" and iv: "spec_inv (maj ids) s" and N: "node_sim ids cfg s cn n nd0"
    and ok: "ae_msg_ok ids s n a" and ll: "\<And>t. a_ldr s t \<noteq> None \<Longrightarrow> idx_ok (a_llog s t)"
    and h: "handle_append_entries a nd0 = (nd', res)"
  shows "\<exists>s' rp. moves ids s n s' \<and> node_sim ids cfg s' cn n nd' \<and> a_ldr s' = a_ldr s \<and> a_llog s' = a_llog s
     \<and> res = Inr rp \<and> aer_ok ids s' n a rp \<and> commit_index nd0 \<le> commit_index nd'"
proof (cases "ae_term a < current_term nd0")
  case True
  with h have "nd' = nd0" "res = Inr (ae_reject nd0 0 0)" by (auto simp: handle_append_entries_def)
  with moves_refl [OF iv] N aer_ok_reject [OF ok, of 0 0] show ?thesis by auto
next
  case False
  define nd1 where "nd1 = (if ae_term a > current_term nd0 then become_follower (ae_term a) nd0
       else if state nd0 = Candidate then become_follower (ae_term a) nd0 else nd0)"
  define nd where "nd = ae_follow a nd0"
  have ndr: "nd = reset_election_timer (nd1\<lparr>leader_id := Some (ae_leader a)\<rparr>)"
    by (simp add: nd_def nd1_def ae_follow_def Let_def)
  define s1 where "s1 = (if ae_term a > current_term nd0 then a_see_term n (ae_term a) s
       else if state nd0 = Candidate then a_step_down n s else s)"
  have ld: "a_ldr s (ae_term a) \<noteq> None" using ok by (simp add: ae_msg_ok_def)
  have "moves ids s n s1 \<and> node_sim ids cfg s1 cn n nd1"
  proof (cases "ae_term a > current_term nd0")
    case True
    with see_term_sim [OF C iv N True] show ?thesis by (simp add: s1_def nd1_def)
  next
    case no: False
    with False have t: "ae_term a = current_term nd0" by simp
    show ?thesis
      using step_down_sim [OF C iv N] moves_refl [OF iv] N ld t by (auto simp: s1_def nd1_def)
  qed
  then have m1: "moves ids s n s1" and N1: "node_sim ids cfg s1 cn n nd1" by blast+
  have N': "node_sim ids cfg s1 cn n nd"
    using N1 by (simp add: ndr node_sim_timer) (simp add: node_sim_def view_def durable_def match_ok_def)
  note D = node_simD [OF N']
  have same: "a_ldr s1 = a_ldr s" "a_llog s1 = a_llog s"
    by (simp_all add: s1_def a_see_term_def a_step_down_def)
  have iv1: "spec_inv (maj ids) s1" and ok1: "ae_msg_ok ids s1 n a"
    using m1 ae_msg_ok_grows [OF _ ok] by (auto simp: moves_def)
  have t: "ae_term a = current_term nd" and nc: "state nd \<noteq> Candidate" and ci: "commit_index nd = commit_index nd0"
    using False by (auto simp: ndr nd1_def reset_election_timer_def)
  have li: "last_log_index nd = length (log nd)" using D(9) by simp
  let ?p = "ae_prev_idx a"
  have h': "(nd', res) = (if ?p > 0 then
              (if last_log_index nd < ?p then (nd, Inr (ae_reject nd (last_log_index nd + 1) 0))
               else if length (log nd) < ?p then (nd, Inl IndexError)
               else (let et = e_term (log nd ! (?p - 1)) in
                     if et \<noteq> ae_prev_term a then (nd, Inr (ae_reject nd (conflict_start (log nd) et ?p) et))
                     else ae_accept a nd))
            else ae_accept a nd)"
    unfolding h [symmetric] using False by (simp add: handle_append_entries_def Let_def nd_def)
  show ?thesis
  proof (cases "?p \<le> length (log nd) \<and> (?p > 0 \<longrightarrow> e_term (log nd ! (?p - 1)) = ae_prev_term a)")
    case True
    then have "ae_accept a nd = (nd', res)" using h' li by (auto simp: Let_def split: if_splits)
    from ae_accept_sim [OF C iv1 N' ok1 t nc _ _ _ this] True ll ld t same
    obtain s' rp where s': "moves ids s1 n s'" "node_sim ids cfg s' cn n nd'" "a_ldr s' = a_ldr s1"
      "a_llog s' = a_llog s1" "res = Inr rp" "aer_ok ids s' n a rp" "commit_index nd \<le> commit_index nd'" by auto
    have "moves ids s n s'"
      using m1 s'(1) raft.extends_trans unfolding moves_def grows_def by (auto intro: only_trans)
    with s' same ci show ?thesis by auto
  next
    case no: False
    have "nd' = nd \<and> (\<exists>ci ct. res = Inr (ae_reject nd ci ct) \<and> ci \<le> ?p \<and> (ct > 0 \<longrightarrow> ci > 0))"
    proof (cases "length (log nd) < ?p")
      case True
      then have "nd' = nd \<and> res = Inr (ae_reject nd (length (log nd) + 1) 0)" using h' li by auto
      with True show ?thesis by (intro conjI exI [of _ "length (log nd) + 1"] exI [of _ 0]) simp_all
    next
      case False
      with no h' li conflict_start_bounds [of ?p "log nd"] show ?thesis
        by (auto simp: Let_def split: if_splits)
    qed
    with m1 N' same aer_ok_reject [OF ok1] ci show ?thesis by (metis order_refl)
  qed
qed

lemma sim_recv_append:
  assumes C: "finite ids" and S: "sim ids cfg c s" and iv: "spec_inv (maj ids) s"
    and a: "(n, a) \<in> c_ae c" "handle_append_entries a (c_node c n) = (nd, res)"
  shows "\<exists>s' r. moves ids s n s' \<and> res = Inr r \<and> commit_index (c_node c n) \<le> commit_index nd
    \<and> sim ids cfg (set_node n nd (c\<lparr>c_aer := insert (n, a, r) (c_aer c)\<rparr>)) s'"
proof -
  note ok = simD(4) [OF S a(1)]
  then have n: "n \<in> ids" by (simp add: ae_msg_ok_def)
  obtain s' r where s': "moves ids s n s'" "node_sim ids cfg s' (c_counted c) n nd" "a_ldr s' = a_ldr s"
    "a_llog s' = a_llog s" "res = Inr r" "aer_ok ids s' n a r" "commit_index (c_node c n) \<le> commit_index nd"
    using append_entries_sim [OF C iv simD(1) [OF S n] ok simD(6) [OF S] a(2)] by blast
  have "sim ids cfg (set_node n nd (c\<lparr>c_aer := insert (n, a, r) (c_aer c)\<rparr>)) s'"
    by (rule sim_node [OF C S s'(1)]) (use s' simD(6) [OF S] in \<open>auto simp: set_node_def\<close>)
  with s' show ?thesis by blast
qed

section \<open>Committing\<close>

lemma count_values:
  assumes "wf_dict d"
  shows "length (filter P (dvalues d)) = card {k. \<exists>v. dget d k = Some v \<and> P v}"
proof -
  have "length (filter P (dvalues d)) = length (filter (\<lambda>kv. P (snd kv)) d)"
    by (simp add: dvalues_def filter_map comp_def)
  also have "\<dots> = length (map fst (filter (\<lambda>kv. P (snd kv)) d))" by simp
  also have "\<dots> = card (set (map fst (filter (\<lambda>kv. P (snd kv)) d)))"
    using assms by (intro distinct_card [symmetric]) (simp add: wf_dict_def distinct_map_filter)
  also have "set (map fst (filter (\<lambda>kv. P (snd kv)) d)) = {k. \<exists>v. dget d k = Some v \<and> P v}"
    using wf_dget_iff [OF assms] by force
  finally show ?thesis .
qed

lemma advance_sim:
  assumes cf: "cluster_config ids cfg" "n \<in> ids" and iv: "spec_inv (maj ids) s"
    and N: "node_sim ids cfg s cn n nd" and l: "state nd = Leader"
  shows "\<exists>s'. moves ids s n s' \<and> node_sim ids cfg s' cn n (advance_commit_index nd)
    \<and> a_ldr s' = a_ldr s \<and> a_llog s' = a_llog s"
proof -
  from cf have C: "finite ids" by (simp add: cluster_config_def)
  note D = node_simD [OF N]
  let ?nd = "advance_commit_index nd" and ?i = "commit_index (advance_commit_index nd)"
  have f: "?nd = nd\<lparr>commit_index := ?i\<rparr>"
    unfolding advance_commit_index_def by (rule advance_from_only)
  show ?thesis
  proof (cases "?i = commit_index nd")
    case True
    with f have "?nd = nd" by simp
    with moves_refl [OF iv] N show ?thesis by auto
  next
    case False
    then have cm: "committable nd ?i"
      unfolding advance_commit_index_def by (rule commit_index_advance)
    let ?S = "{p. \<exists>m. dget (match_index nd) p = Some m \<and> m \<ge> ?i}"
    have "card ?S \<ge> majority nd"
      using cm count_values [OF D(10), of "\<lambda>m. m \<ge> ?i"] by (simp add: committable_def replicated_count_def)
    moreover have "?S \<subseteq> ids" using D(11) by (force dest: dget_in_set)
    ultimately have "maj ids ?S" using C card_config [OF cf] D(7) by (simp add: maj_def majority_def)
    moreover have "\<forall>v\<in>?S. \<exists>m\<ge>?i. (a_term s n, v, m) \<in> a_acks s"
    proof
      fix v assume "v \<in> ?S"
      then obtain m where m: "dget (match_index nd) v = Some m" "m \<ge> ?i" by blast
      moreover from m(2) cm have "0 < m" by (simp add: committable_def)
      ultimately have "(current_term nd, v, m) \<in> a_acks s" using D(13) [OF l] by (simp add: match_ok_def)
      with m(2) D(1) show "\<exists>m\<ge>?i. (a_term s n, v, m) \<in> a_acks s" by auto
    qed
    ultimately have m: "moves ids s n (a_commit_to n ?i s)"
      by (intro moves_one [OF iv astep.commit [of s n ?i _ ?S]])
        (use cm l D(1,3,4) in \<open>auto simp: committable_def\<close>)
    then have g: "grows s (a_commit_to n ?i s)" by (simp add: moves_def)
    have "node_sim ids cfg (a_commit_to n ?i s) cn n ?nd"
      by (subst f, rule node_sim_keep [OF g C subset_refl N])
        (use D l in \<open>auto simp: view_def a_commit_to_def durable_def match_ok_def\<close>)
    with m show ?thesis by (auto simp: a_commit_to_def)
  qed
qed

lemma success_reply_sim:
  assumes cf: "cluster_config ids cfg" "n \<in> ids" and iv: "spec_inv (maj ids) s"
    and N: "node_sim ids cfg s cn n nd" and l: "state nd = Leader"
    and ok: "aer_ok ids s p a r" "aer_success r" "ae_term a = current_term nd"
  defines "k \<equiv> ae_prev_idx a + length (ae_entries a)"
  defines "nd1 \<equiv> nd\<lparr>match_index := dset (match_index nd) p k, next_index := dset (next_index nd) p (k + 1)\<rparr>"
  shows "node_sim ids cfg s cn n nd1"
proof -
  note D = node_simD [OF N]
  from ok have pk: "p \<in> ids" "(current_term nd, p, k) \<in> a_acks s"
    by (auto simp: aer_ok_def ae_msg_ok_def k_def)
  from inv_acksD(1) [OF spec_invD(4) [OF iv] pk(2)] leader_history [OF iv N l]
  have "k \<le> length (log nd)" by simp
  with pk D(13) [OF l] have "match_ok ids s n nd1" by (auto simp: match_ok_def nd1_def)
  moreover have "fst ` set (match_index nd1) \<subseteq> ids" using pk(1) D(11) by (auto simp: nd1_def keys_dset)
  ultimately show ?thesis using N by (simp add: node_sim_def nd1_def view_def durable_def)
qed

lemma reject_reply_match_ok:
  assumes iv: "spec_inv (maj ids) s" and N: "node_sim ids cfg s cn n nd" and l: "state nd = Leader"
    and ok: "aer_ok ids s p a r" "\<not> aer_success r" "ae_term a = current_term nd"
    and k: "k = (if aer_conflict_term r > 0 \<and> last_with_term (log nd) (aer_conflict_term r) (length (log nd)) \<noteq> 0
                 then last_with_term (log nd) (aer_conflict_term r) (length (log nd)) + 1
                 else if aer_conflict_term r > 0 then aer_conflict_idx r else max 1 (aer_conflict_idx r))"
  shows "match_ok ids s n (nd\<lparr>next_index := dset (next_index nd) p k\<rparr>)"
proof -
  note D = node_simD [OF N]
  have "ae_prev_idx a \<le> length (log nd)"
    using ok(1,3) leader_history [OF iv N l] by (simp add: aer_ok_def ae_msg_ok_def)
  moreover have "last_with_term (log nd) (aer_conflict_term r) (length (log nd)) \<le> length (log nd)"
    by (rule last_with_term_le)
  ultimately have "0 < k \<and> k \<le> length (log nd) + 1" using ok(1,2) k by (auto simp: aer_ok_def)
  with D(13) [OF l] show ?thesis by (auto simp: match_ok_def)
qed

lemma sim_append_reply:
  assumes cf: "cluster_config ids cfg" and S: "sim ids cfg c s" and iv: "spec_inv (maj ids) s"
    and a: "(p, a, r) \<in> c_aer c" "n = ae_leader a"
    and t: "state (c_node c n) = Leader \<longrightarrow> current_term (c_node c n) = ae_term a"
  shows "\<exists>s'. moves ids s n s' \<and> sim ids cfg (set_node n (handle_append_reply p a r (c_node c n)) c) s'"
proof -
  from cf have C: "finite ids" by (simp add: cluster_config_def)
  let ?nd = "c_node c n" and ?nd' = "handle_append_reply p a r (c_node c n)"
  note ok = simD(5) [OF S a(1)]
  then have n: "n \<in> ids" by (simp add: aer_ok_def ae_msg_ok_def a(2))
  have N: "node_sim ids cfg s (c_counted c) n ?nd" by (rule simD(1) [OF S n])
  note D = node_simD [OF N]
  have fin: ?thesis if "moves ids s n s'" "node_sim ids cfg s' (c_counted c) n ?nd'"
    "a_ldr s' = a_ldr s" "a_llog s' = a_llog s" for s'
  proof -
    have "sim ids cfg (set_node n ?nd' c) s'"
      by (rule sim_node [OF C S that(1)]) (use that simD(6) [OF S] in \<open>auto simp: set_node_def\<close>)
    with that(1) show ?thesis by blast
  qed
  consider (high) "aer_term r > current_term ?nd" | (not_leader) "\<not> aer_term r > current_term ?nd" "state ?nd \<noteq> Leader"
    | (success) "\<not> aer_term r > current_term ?nd" "state ?nd = Leader" "aer_success r"
    | (reject) "\<not> aer_term r > current_term ?nd" "state ?nd = Leader" "\<not> aer_success r" by blast
  then show ?thesis
  proof cases
    case high
    from see_term_sim [OF C iv N high] show ?thesis
      by (intro fin [of "a_see_term n (aer_term r) s"]) (simp_all add: handle_append_reply_def high a_see_term_def)
  next
    case not_leader
    then have "?nd' = ?nd" by (simp add: handle_append_reply_def)
    with fin [OF moves_refl [OF iv]] N show ?thesis by simp
  next
    case success
    then have t': "ae_term a = current_term ?nd" using t by simp
    let ?k = "ae_prev_idx a + length (ae_entries a)"
    define nd1 where "nd1 = (if ?k > dget_or (match_index ?nd) p 0
       then ?nd\<lparr>match_index := dset (match_index ?nd) p ?k, next_index := dset (next_index ?nd) p (?k + 1)\<rparr>
       else ?nd)"
    have "node_sim ids cfg s (c_counted c) n nd1"
      using success_reply_sim [OF cf n iv N success(2) ok success(3) t'] N by (simp add: nd1_def)
    moreover have "state nd1 = Leader" using success by (simp add: nd1_def)
    ultimately obtain s' where "moves ids s n s'" "node_sim ids cfg s' (c_counted c) n (advance_commit_index nd1)"
      "a_ldr s' = a_ldr s" "a_llog s' = a_llog s" using advance_sim [OF cf n iv] by blast
    moreover have "?nd' = advance_commit_index nd1" using success by (simp add: handle_append_reply_def Let_def nd1_def)
    ultimately show ?thesis using fin by simp
  next
    case reject
    then have t': "ae_term a = current_term ?nd" using t by simp
    define k where "k = (if aer_conflict_term r > 0
        \<and> last_with_term (log ?nd) (aer_conflict_term r) (length (log ?nd)) \<noteq> 0
      then last_with_term (log ?nd) (aer_conflict_term r) (length (log ?nd)) + 1
      else if aer_conflict_term r > 0 then aer_conflict_idx r else max 1 (aer_conflict_idx r))"
    have nd': "?nd' = ?nd\<lparr>next_index := dset (next_index ?nd) p k\<rparr>"
      using reject by (simp add: handle_append_reply_def Let_def k_def)
    have "match_ok ids s n (?nd\<lparr>next_index := dset (next_index ?nd) p k\<rparr>)"
      by (rule reject_reply_match_ok [OF iv N reject(2) ok reject(3) t' k_def])
    then have "node_sim ids cfg s (c_counted c) n ?nd'"
      using N by (simp add: node_sim_def nd' view_def durable_def)
    with fin [OF moves_refl [OF iv]] show ?thesis by simp
  qed
qed

section \<open>Client entries and restarts\<close>

lemma sim_client:
  assumes cf: "cluster_config ids cfg" and S: "sim ids cfg c s" and iv: "spec_inv (maj ids) s" and n: "n \<in> ids"
    and a: "append_entry_begin op fn b cl sq (c_node c n) = Inr (nd, i, ref)"
  shows "\<exists>s'. moves ids s n s' \<and> sim ids cfg (set_node n nd c) s'"
proof -
  from cf have C: "finite ids" by (simp add: cluster_config_def)
  let ?nd = "c_node c n"
  have N: "node_sim ids cfg s (c_counted c) n ?nd" by (rule simD(1) [OF S n])
  note D = node_simD [OF N]
  let ?e = "client_entry (current_term ?nd) (length (log ?nd) + 1) op fn b cl sq"
  have l: "state ?nd = Leader"
    and f: "log nd = log ?nd @ [?e]" "current_term nd = current_term ?nd" "voted_for nd = voted_for ?nd"
    "state nd = Leader" "commit_index nd = commit_index ?nd" "node_id nd = node_id ?nd" "peers nd = peers ?nd"
    "ballots nd = ballots ?nd" "match_index nd = dset (match_index ?nd) n (length (log ?nd) + 1)"
    "next_index nd = dset (next_index ?nd) n (length (log ?nd) + 2)"
    using a D(6,9) by (auto simp: append_entry_begin_def Let_def node_simps split: if_splits)
  let ?s = "a_append n ?e s"
  have m: "moves ids s n ?s"
    by (rule moves_one [OF iv astep.append]) (use l D(1,3) in \<open>simp_all add: client_entry_def\<close>)
  then have g: "grows s ?s" by (simp add: moves_def)
  have "match_ok ids ?s n nd"
    using match_ok_grows [OF g D(13) [OF l]] D(1,4) f
    by (fastforce simp: match_ok_def a_append_def)
  moreover have "view ?s n nd" using D f l by (simp add: view_def a_append_def)
  moreover have "durable nd" by (rule durable_append_entry [OF D(8) a])
  moreover have "idx_ok (log nd)" using D(9) f by (simp add: idx_ok_snoc client_entry_def)
  moreover have "\<forall>t b. dget (ballots nd) t = Some b \<longrightarrow> ballot_ok ids ?s (c_counted c) n t b"
    using f(8) ballot_ok_grows [OF g C subset_refl D(12)] by simp
  ultimately have "node_sim ids cfg ?s (c_counted c) n nd"
    using D f n by (simp add: node_sim_def keys_dset)
  then have "sim ids cfg (set_node n nd c) ?s"
    by (intro sim_node [OF C S m])
      (use simD(6) [OF S] D(4,9) in \<open>auto simp: set_node_def a_append_def idx_ok_snoc client_entry_def\<close>)
  with m show ?thesis by blast
qed

lemma sim_restart:
  assumes C: "finite ids" and S: "sim ids cfg c s" and iv: "spec_inv (maj ids) s" and n: "n \<in> ids"
  shows "\<exists>s'. moves ids s n s' \<and> sim ids cfg (c_restart sm0 n c) s'"
proof -
  let ?nd = "c_node c n"
  note D = node_simD [OF simD(1) [OF S n]]
  let ?nd' = "init_node n (peers ?nd) (disk_hard ?nd) (disk_log ?nd)" and ?s = "a_restart n s"
  have m: "moves ids s n ?s" by (rule moves_one [OF iv astep.restart]) simp
  have "node_sim ids cfg ?s (c_counted c) n ?nd'"
    using D durable_restart [OF D(8), of n "peers ?nd"]
    by (simp add: node_sim_def view_def a_restart_def)
  then have "sim ids cfg (c_restart sm0 n c) ?s"
    by (intro sim_node [OF C S m])
      (use simD(6) [OF S] in \<open>auto simp: c_restart_def Let_def set_node_def a_restart_def\<close>)
  with m show ?thesis by blast
qed

text \<open>A handler that gets no further than to step down.\<close>

lemma sim_cut:
  assumes C: "finite ids" and S: "sim ids cfg c s" and n: "n \<in> ids"
    and m: "moves ids s n s'" "node_sim ids cfg s' (c_counted c) n (become_follower t (c_node c n))"
    and q: "a_ldr s' = a_ldr s" "a_llog s' = a_llog s"
  shows "\<exists>s'. moves ids s n s' \<and> sim ids cfg (set_node n (become_follower t (c_node c n)) c) s'"
proof -
  have "sim ids cfg (set_node n (become_follower t (c_node c n)) c) s'"
    by (rule sim_node [OF C S m(1)]) (use m(2) q simD(6) [OF S] in \<open>auto simp: set_node_def\<close>)
  with m(1) show ?thesis by blast
qed

lemma sim_cut_term:
  assumes C: "finite ids" and S: "sim ids cfg c s" and iv: "spec_inv (maj ids) s" and n: "n \<in> ids"
    and t: "current_term (c_node c n) < t"
  shows "\<exists>s'. moves ids s n s' \<and> sim ids cfg (set_node n (become_follower t (c_node c n)) c) s'"
  by (rule sim_cut [OF C S n see_term_sim [OF C iv simD(1) [OF S n] t]]) (simp_all add: a_see_term_def)

lemma sim_cut_append:
  assumes C: "finite ids" and S: "sim ids cfg c s" and iv: "spec_inv (maj ids) s" and a: "(n, a) \<in> c_ae c"
    and t: "current_term (c_node c n) < ae_term a \<or> current_term (c_node c n) = ae_term a \<and> state (c_node c n) = Candidate"
  shows "\<exists>s'. moves ids s n s' \<and> sim ids cfg (set_node n (become_follower (ae_term a) (c_node c n)) c) s'"
proof -
  from simD(4) [OF S a] have n: "n \<in> ids" and ld: "a_ldr s (ae_term a) \<noteq> None" by (simp_all add: ae_msg_ok_def)
  show ?thesis
  proof (cases "current_term (c_node c n) < ae_term a")
    case True
    then show ?thesis by (rule sim_cut_term [OF C S iv n])
  next
    case False
    with t have eq: "ae_term a = current_term (c_node c n)" and cd: "state (c_node c n) = Candidate" by auto
    show ?thesis unfolding eq
      by (rule sim_cut [OF C S n step_down_sim [OF C iv simD(1) [OF S n] cd]]) (use ld eq in \<open>simp_all add: a_step_down_def\<close>)
  qed
qed

text \<open>Heartbeat turns, the wait of a client, the applier and fault injection.\<close>

lemma node_sim_quiet:
  assumes N: "node_sim ids cfg s cn n nd"
    and f: "current_term nd' = current_term nd" "voted_for nd' = voted_for nd" "state nd' = state nd"
      "log nd' = log nd" "commit_index nd' = commit_index nd" "node_id nd' = node_id nd" "peers nd' = peers nd"
      "ballots nd' = ballots nd" "match_index nd' = match_index nd" "next_index nd' = next_index nd"
      "disk_hard nd' = disk_hard nd" "disk_log nd' = disk_log nd"
  shows "node_sim ids cfg s cn n nd'"
  using N by (simp add: node_sim_def view_def durable_def match_ok_def f)

lemma sim_quiet:
  assumes C: "finite ids" and S: "sim ids cfg c s" and iv: "spec_inv (maj ids) s" and n: "n \<in> ids"
  shows "sim ids cfg (set_node n (fst (hb_turn (c_node c n))) c) s"
    "sim ids cfg (set_node n (fst (append_entry_end i ref (c_node c n))) c) s"
    "sim ids cfg (set_node n (applier_collect (c_node c n)) c) s"
    "sim ids cfg (c_apply f n c) s"
    "sim ids cfg (set_node n (set_isolated on h (c_node c n)) c) s"
proof -
  note N = simD(1) [OF S n]
  have set: "sim ids cfg (set_node n nd c) s" if "node_sim ids cfg s (c_counted c) n nd" for nd
    by (rule sim_silent [OF C S iv, of n nd]) (use that in \<open>simp_all add: set_node_def\<close>)
  show "sim ids cfg (set_node n (fst (hb_turn (c_node c n))) c) s"
    by (rule set, rule node_sim_quiet [OF N]) (simp_all add: hb_turn_def)
  show "sim ids cfg (set_node n (fst (append_entry_end i ref (c_node c n))) c) s"
    by (rule set, rule node_sim_quiet [OF N]) (simp_all add: append_entry_end_def)
  show "sim ids cfg (set_node n (applier_collect (c_node c n)) c) s"
    by (rule set, rule node_sim_quiet [OF N]) (simp_all add: applier_collect_def)
  show "sim ids cfg (set_node n (set_isolated on h (c_node c n)) c) s"
    by (rule set, rule node_sim_quiet [OF N]) (simp_all add: set_isolated_def)
  let ?nd = "fst (applier_apply f (c_node c n) (c_sm c n))"
  have "node_sim ids cfg s (c_counted c) n ?nd"
    by (rule node_sim_quiet [OF N])
      (simp_all add: applier_apply_def resolve_waiter_def Let_def split: list.split prod.split option.split)
  then show "sim ids cfg (c_apply f n c) s"
    by (intro sim_silent [OF C S iv, of n ?nd]) (simp_all add: c_apply_def set_node_def split: prod.split)
qed

section \<open>The simulation\<close>

text \<open>Every step of the cluster is a sequence of steps of the abstract protocol.\<close>

lemma sim_cstep:
  assumes cf: "cluster_config ids cfg" and st: "cstep ids f sm0 c c'" and S: "sim ids cfg c s"
    and iv: "spec_inv (maj ids) s"
  shows "\<exists>s'. (astep (maj ids))\<^sup>*\<^sup>* s s' \<and> spec_inv (maj ids) s' \<and> sim ids cfg c' s'"
proof -
  from cf have C: "finite ids" by (simp add: cluster_config_def)
  have mv: ?thesis if "\<exists>s'. moves ids s n s' \<and> sim ids cfg c' s'" for n
    using that unfolding moves_def by blast
  have qt: ?thesis if "sim ids cfg c' s" using that iv by blast
  from st show ?thesis
  proof cases
    case (timeout n)
    with sim_timeout [OF cf S iv] show ?thesis by (intro mv [of n]) simp
  next
    case (send_vote n t a)
    then show ?thesis using qt sim_send_vote [OF C S iv] by simp
  next
    case (recv_vote n a nd r)
    with sim_recv_vote [OF C S iv] show ?thesis by (intro mv [of n]) simp
  next
    case (vote_reply v a r n)
    with sim_vote_reply [OF C S iv] show ?thesis by (intro mv [of n]) simp
  next
    case (finish n t)
    with sim_finish [OF cf S iv] show ?thesis by (intro mv [of n]) simp
  next
    case (heartbeat n)
    then show ?thesis using qt sim_quiet(1) [OF C S iv] by simp
  next
    case (send_append n p a)
    with sim_send_append [OF cf S iv] show ?thesis by (intro mv [of n]) simp
  next
    case (recv_append n a nd r)
    obtain s' r' where s': "moves ids s n s'" "Inr r = (Inr r' :: exn + ae_reply)"
      "sim ids cfg (set_node n nd (c\<lparr>c_aer := insert (n, a, r') (c_aer c)\<rparr>)) s'"
      using sim_recv_append [OF C S iv recv_append(2,4)] by blast
    then have "sim ids cfg c' s'" using recv_append(1) by simp
    with s'(1) show ?thesis using mv by blast
  next
    case (recv_append_fails n a nd x)
    then show ?thesis using sim_recv_append [OF C S iv recv_append_fails(2,4)] by simp
  next
    case (append_reply p a r n)
    with sim_append_reply [OF cf S iv] show ?thesis by (intro mv [of n]) simp
  next
    case (client n op fn b cl sq nd i ref)
    with sim_client [OF cf S iv] show ?thesis by (intro mv [of n]) simp
  next
    case (client_end n ref i)
    then show ?thesis using qt sim_quiet(2) [OF C S iv] by simp
  next
    case (collect n)
    then show ?thesis using qt sim_quiet(3) [OF C S iv] by simp
  next
    case (apply_one n)
    then show ?thesis using qt sim_quiet(4) [OF C S iv] by simp
  next
    case (isolate n on h)
    then show ?thesis using qt sim_quiet(5) [OF C S iv] by simp
  next
    case (restart n)
    with sim_restart [OF C S iv] show ?thesis by (intro mv [of n]) simp
  next
    case (cut_vote n a)
    with sim_cut_term [OF C S iv] show ?thesis by (intro mv [of n]) simp
  next
    case (cut_append n a)
    with sim_cut_append [OF C S iv] show ?thesis by (intro mv [of n]) simp
  qed
qed

definition reachable ::
  "nat set \<Rightarrow> (nat \<Rightarrow> (nat, addr) dict) \<Rightarrow> (log_entry \<Rightarrow> 's \<Rightarrow> 's \<times> (exn + (string, pyval) dict)) \<Rightarrow> 's
    \<Rightarrow> 's cluster \<Rightarrow> bool" where
  "reachable ids cfg f sm0 c \<longleftrightarrow> cluster_config ids cfg \<and> (cstep ids f sm0)\<^sup>*\<^sup>* (c_init cfg sm0) c"

lemma sim_steps:
  assumes cf: "cluster_config ids cfg" and st: "(cstep ids f sm0)\<^sup>*\<^sup>* c c'"
    and s: "sim ids cfg c s" "spec_inv (maj ids) s"
  shows "\<exists>s'. (astep (maj ids))\<^sup>*\<^sup>* s s' \<and> spec_inv (maj ids) s' \<and> sim ids cfg c' s'"
  using st
proof (induction rule: rtranclp_induct)
  case base
  with s show ?case by blast
next
  case (step c1 c2)
  then obtain s1 where "(astep (maj ids))\<^sup>*\<^sup>* s s1" "spec_inv (maj ids) s1" "sim ids cfg c1 s1" by blast
  with sim_cstep [OF cf step(2)] show ?case by (meson rtranclp_trans)
qed

lemma reachable_sim:
  assumes "reachable ids cfg f sm0 c"
  obtains s where "sim ids cfg c s" "spec_inv (maj ids) s"
proof -
  from assms have cf: "cluster_config ids cfg" and st: "(cstep ids f sm0)\<^sup>*\<^sup>* (c_init cfg sm0) c"
    by (simp_all add: reachable_def)
  from sim_steps [OF cf st sim_init spec_inv_init] that show ?thesis by blast
qed

end
