(* ===== verification/Raft_Exec.thy ===== *)
theory Raft_Exec
  imports Raft_Cluster
begin

text \<open>
  What the applier threads do in a cluster: the entries a node has handed to its state machine
  since it started are exactly a prefix of its committed log, in order and each once, and a
  client is told that its entry succeeded only if that entry was applied with that result.
  Also: no node is ever stuck without an election timer, a pending election or a leader's
  heartbeat thread.
\<close>

section \<open>The state machine runs the committed prefix\<close>

definition run_entries ::
  "(log_entry \<Rightarrow> 's \<Rightarrow> 's \<times> (exn + (string, pyval) dict)) \<Rightarrow> 's \<Rightarrow> log_entry list \<Rightarrow> 's" where
  "run_entries f sm0 es = foldl (\<lambda>sm e. fst (run_apply f e sm)) sm0 es"

definition exec_ok ::
  "(log_entry \<Rightarrow> 's \<Rightarrow> 's \<times> (exn + (string, pyval) dict)) \<Rightarrow> 's \<Rightarrow> raft_node \<Rightarrow> 's \<Rightarrow> log_entry list \<Rightarrow> bool" where
  "exec_ok f sm0 nd sm ap \<longleftrightarrow> last_applied nd \<le> commit_index nd
     \<and> ap @ map snd (apply_queue nd) = take (last_applied nd) (log nd)
     \<and> map fst (apply_queue nd) = [length ap + 1 ..< length ap + 1 + length (apply_queue nd)]
     \<and> sm = run_entries f sm0 ap"

definition exec_inv ::
  "nat set \<Rightarrow> (log_entry \<Rightarrow> 's \<Rightarrow> 's \<times> (exn + (string, pyval) dict)) \<Rightarrow> 's \<Rightarrow> 's cluster \<Rightarrow> bool" where
  "exec_inv ids f sm0 c \<longleftrightarrow> (\<forall>n\<in>ids. exec_ok f sm0 (c_node c n) (c_sm c n) (c_applied c n))"

lemma run_entries_snoc: "run_entries f sm0 (es @ [e]) = fst (run_apply f e (run_entries f sm0 es))"
  by (simp add: run_entries_def)

text \<open>What a locked section other than the applier's leaves alone.\<close>

definition applier_frame :: "raft_node \<Rightarrow> raft_node \<Rightarrow> bool" where
  "applier_frame nd nd' \<longleftrightarrow> last_applied nd' = last_applied nd \<and> apply_queue nd' = apply_queue nd
     \<and> commit_index nd \<le> commit_index nd'"

lemma advance_from_mono: "commit_index nd \<le> commit_index (advance_from nd n)"
  using advance_from_spec [of nd n] by linarith

lemma frame_election:
  "applier_frame nd (start_election nd)" "applier_frame nd (handle_vote_reply t r nd)"
  "applier_frame nd (finish_election t nd)" "applier_frame nd (fst (handle_request_vote a nd))"
  "applier_frame nd (become_follower t nd)"
  by (auto simp: applier_frame_def start_election_def handle_vote_reply_def finish_election_def
      handle_request_vote_def become_leader_def Let_def node_simps split: option.split)

lemma frame_append:
  "applier_frame nd (handle_append_reply p a r nd)"
  "append_entry_begin op fn b cl sq nd = Inr (nd', i, ref) \<Longrightarrow> applier_frame nd nd'"
  "applier_frame nd (fst (append_entry_end i ref nd))"
  "applier_frame nd (fst (hb_turn nd))" "applier_frame nd (set_isolated on h nd)"
proof -
  have adv: "applier_frame nd (advance_commit_index nd1)" if "applier_frame nd nd1" for nd1
    using that advance_from_mono [of nd1] le_trans
    unfolding applier_frame_def advance_commit_index_def by fastforce
  show "applier_frame nd (handle_append_reply p a r nd)"
    by (auto simp: handle_append_reply_def Let_def intro!: adv) (simp_all add: applier_frame_def)
  show "append_entry_begin op fn b cl sq nd = Inr (nd', i, ref) \<Longrightarrow> applier_frame nd nd'"
    by (auto simp: append_entry_begin_def applier_frame_def persist_log_def Let_def split: if_splits)
qed (simp_all add: append_entry_end_def hb_turn_def set_isolated_def applier_frame_def)

lemma frame_append_entries:
  "handle_append_entries a nd = (nd', res) \<Longrightarrow> commit_index nd \<le> commit_index nd' \<Longrightarrow> applier_frame nd nd'"
  by (elim append_entries_cases) (auto simp: applier_frame_def dest: ae_accept_fields [OF sym])

lemma exec_keep:
  assumes s: "sim ids cfg c s" "spec_inv (maj ids) s" and s': "sim ids cfg c' s'" "(astep (maj ids))\<^sup>*\<^sup>* s s'"
    and n: "n \<in> ids" and f: "applier_frame (c_node c n) (c_node c' n)"
    and e: "exec_ok g sm0 (c_node c n) sm ap"
  shows "exec_ok g sm0 (c_node c' n) sm ap"
proof -
  let ?nd = "c_node c n" and ?nd' = "c_node c' n"
  note D = node_simD [OF simD(1) [OF s(1) n]] and D' = node_simD [OF simD(1) [OF s'(1) n]]
  from e have la: "last_applied ?nd \<le> commit_index ?nd" by (simp add: exec_ok_def)
  have "take (last_applied ?nd) (a_log s n) = take (last_applied ?nd) (a_log s' n)"
    by (rule raft.committed_forever [OF s(2) s'(2)])
      (use la f D(5) D'(5) in \<open>auto simp: applier_frame_def\<close>)
  with e f D(4) D'(4) show ?thesis by (auto simp: exec_ok_def applier_frame_def)
qed

lemma exec_collect:
  assumes "exec_ok f sm0 nd sm ap" "apply_queue nd = []" "commit_index nd \<le> length (log nd)"
  shows "exec_ok f sm0 (applier_collect nd) sm ap"
proof (cases "last_applied nd \<ge> commit_index nd")
  case True
  with assms show ?thesis by (simp add: applier_collect_def)
next
  case False
  let ?a = "last_applied nd" and ?c = "commit_index nd"
  have "map snd (to_apply nd) = map (\<lambda>i. log nd ! (i - 1)) (filter (\<lambda>i. 1 \<le> i \<and> i \<le> length (log nd)) [?a + 1 ..< ?c + 1])"
    by (simp add: to_apply_def comp_def)
  also have filt: "filter (\<lambda>i. 1 \<le> i \<and> i \<le> length (log nd)) [?a + 1 ..< ?c + 1] = [?a + 1 ..< ?c + 1]"
    using assms(3) by (intro filter_True) auto
  also have "map (\<lambda>i. log nd ! (i - 1)) [?a + 1 ..< ?c + 1] = map (\<lambda>i. log nd ! i) [?a ..< ?c]"
    by (intro nth_equalityI) (auto simp: nth_append simp del: upt_Suc)
  also have "\<dots> = drop ?a (take ?c (log nd))"
    using assms(3) by (intro nth_equalityI) auto
  finally have "ap @ map snd (to_apply nd) = take ?a (take ?c (log nd)) @ drop ?a (take ?c (log nd))"
    using assms(1,2) False by (simp add: exec_ok_def min_absorb1)
  then have "ap @ map snd (to_apply nd) = take ?c (log nd)" by (simp only: append_take_drop_id)
  moreover have "map fst (to_apply nd) = filter (\<lambda>i. 1 \<le> i \<and> i \<le> length (log nd)) [?a + 1 ..< ?c + 1]"
    by (simp add: to_apply_def comp_def)
  then have "map fst (to_apply nd) = [?a + 1 ..< ?c + 1]" unfolding filt .
  moreover from this have "length (to_apply nd) = ?c - ?a" by (metis add_diff_cancel_right length_map length_upt)
  moreover have "length ap = ?a" using arg_cong [OF conjunct1 [OF conjunct2 [OF assms(1) [unfolded exec_ok_def]]], of length]
      assms(2,3) False by simp
  ultimately show ?thesis using False assms by (simp add: exec_ok_def applier_collect_def)
qed

lemma applier_apply_sm:
  "apply_queue nd = (i, e) # q \<Longrightarrow> applier_apply f nd sm =
     (resolve_waiter i e (snd (run_apply f e sm)) (nd\<lparr>apply_queue := q\<rparr>), fst (run_apply f e sm))"
  by (simp add: applier_apply_def split: prod.split)

lemma resolve_waiter_fields [simp]:
  "last_applied (resolve_waiter i e r nd) = last_applied nd" "commit_index (resolve_waiter i e r nd) = commit_index nd"
  "apply_queue (resolve_waiter i e r nd) = apply_queue nd" "log (resolve_waiter i e r nd) = log nd"
  by (simp_all add: resolve_waiter_def Let_def split: option.split)

lemma exec_apply:
  assumes e: "exec_ok f sm0 nd sm ap" and a: "applier_apply f nd sm = (nd', sm')"
  shows "exec_ok f sm0 nd' sm' (ap @ map snd (take 1 (apply_queue nd)))"
proof (cases "apply_queue nd")
  case Nil
  with assms show ?thesis by (simp add: applier_apply_def)
next
  case (Cons ie q)
  obtain i x where ie: "ie = (i, x)" by fastforce
  with a Cons applier_apply_sm [of nd i x q f sm]
  have "nd' = resolve_waiter i x (snd (run_apply f x sm)) (nd\<lparr>apply_queue := q\<rparr>)" "sm' = fst (run_apply f x sm)"
    by simp_all
  moreover have "[length ap + 1 ..< length ap + 1 + length (apply_queue nd)] =
      (length ap + 1) # [length (ap @ [x]) + 1 ..< length (ap @ [x]) + 1 + length q]"
    using Cons by (simp add: upt_conv_Cons del: upt_Suc)
  ultimately show ?thesis using e Cons ie by (simp add: exec_ok_def run_entries_snoc del: upt_Suc)
qed

text \<open>
  What one step of the cluster does to one node: nothing, a locked section of the kinds below, an
  append request, a turn of the applier, or a restart.
\<close>

inductive node_step :: "raft_node \<Rightarrow> raft_node \<Rightarrow> bool" where
  "node_step nd (start_election nd)"
| "node_step nd (fst (handle_request_vote a nd))"
| "node_step nd (handle_vote_reply t r nd)"
| "node_step nd (finish_election t nd)"
| "node_step nd (fst (hb_turn nd))"
| "node_step nd (handle_append_reply p a rp nd)"
| "append_entry_begin op fn b cl sq nd = Inr (nd', i, ref) \<Longrightarrow> node_step nd nd'"
| "node_step nd (fst (append_entry_end i ref nd))"
| "node_step nd (set_isolated on h nd)"
| "node_step nd (become_follower t nd)"

lemma node_step_frame: "node_step nd nd' \<Longrightarrow> applier_frame nd nd'"
  by (induction rule: node_step.induct) (auto intro: frame_election frame_append)

lemma cstep_cases_node:
  assumes "cstep ids f sm0 c c'" "n \<in> ids"
  obtains (same) "c_node c' n = c_node c n" "c_sm c' n = c_sm c n" "c_applied c' n = c_applied c n"
  | (local) "node_step (c_node c n) (c_node c' n)" "c_sm c' n = c_sm c n" "c_applied c' n = c_applied c n"
  | (recv) a res where "(n, a) \<in> c_ae c" "handle_append_entries a (c_node c n) = (c_node c' n, res)"
      "c_sm c' n = c_sm c n" "c_applied c' n = c_applied c n"
  | (collect) "apply_queue (c_node c n) = []" "c_node c' n = applier_collect (c_node c n)"
      "c_sm c' n = c_sm c n" "c_applied c' n = c_applied c n"
  | (apply_one) "applier_apply f (c_node c n) (c_sm c n) = (c_node c' n, c_sm c' n)"
      "c_applied c' n = c_applied c n @ map snd (take 1 (apply_queue (c_node c n)))"
  | (restart) "c_node c' n = init_node n (peers (c_node c n)) (disk_hard (c_node c n)) (disk_log (c_node c n))"
      "c_sm c' n = sm0" "c_applied c' n = []"
proof -
  have one: thesis if "c' = set_node k nd c2" "c_node c2 = c_node c" "c_sm c2 = c_sm c" "c_applied c2 = c_applied c"
    "k = n \<Longrightarrow> nd = c_node c' n \<Longrightarrow> c_sm c' n = c_sm c n \<Longrightarrow> c_applied c' n = c_applied c n \<Longrightarrow> thesis"
    for k nd c2
  proof (cases "k = n")
    case True
    with that(1-4) show thesis by (intro that(5)) (simp_all add: set_node_def)
  next
    case False
    with that(1-4) show thesis by (intro same) (simp_all add: set_node_def)
  qed
  have fr: thesis if "c' = set_node k nd c2" "c_node c2 = c_node c" "c_sm c2 = c_sm c" "c_applied c2 = c_applied c"
    "node_step (c_node c k) nd" for k nd c2
    by (rule one [OF that(1-4)], rule local) (use that(5) in simp_all)
  from assms(1) show thesis
  proof cases
    case (timeout k)
    show thesis by (rule fr [OF timeout(1)]) (simp_all add: node_step.intros)
  next
    case (send_vote k t a)
    then show thesis by (intro same) simp_all
  next
    case (recv_vote k a nd r)
    have "nd = fst (handle_request_vote a (c_node c k))" using recv_vote(6) by simp
    then show thesis by (intro fr [OF recv_vote(1)]) (simp_all add: node_step.intros)
  next
    case (vote_reply v a r k)
    show thesis by (rule fr [OF vote_reply(1)]) (simp_all add: node_step.intros)
  next
    case (finish k t)
    show thesis by (rule fr [OF finish(1)]) (simp_all add: node_step.intros)
  next
    case (heartbeat k)
    show thesis by (rule fr [OF heartbeat(1)]) (simp_all add: node_step.intros)
  next
    case (send_append k p a)
    then show thesis by (intro same) simp_all
  next
    case (recv_append k a nd r)
    show thesis
    proof (rule one [OF recv_append(1)])
      assume "k = n" "nd = c_node c' n" "c_sm c' n = c_sm c n" "c_applied c' n = c_applied c n"
      with recv_append(2,4) show thesis by (intro recv [of a "Inr r"]) simp_all
    qed simp_all
  next
    case (recv_append_fails k a nd x)
    show thesis
    proof (rule one [OF recv_append_fails(1)])
      assume "k = n" "nd = c_node c' n" "c_sm c' n = c_sm c n" "c_applied c' n = c_applied c n"
      with recv_append_fails(2,4) show thesis by (intro recv [of a "Inl x"]) simp_all
    qed simp_all
  next
    case (append_reply p a r k)
    show thesis by (rule fr [OF append_reply(1)]) (simp_all add: node_step.intros)
  next
    case (client k op fn b cl sq nd i ref)
    show thesis by (rule fr [OF client(1)]) (simp_all add: node_step.intros(7) [OF client(3)])
  next
    case (client_end k ref i)
    show thesis by (rule fr [OF client_end(1)]) (simp_all add: node_step.intros)
  next
    case (collect k)
    show thesis
    proof (rule one [OF collect(1)])
      assume "k = n" "applier_collect (c_node c k) = c_node c' n" "c_sm c' n = c_sm c n"
        "c_applied c' n = c_applied c n"
      with collect(3) show thesis by (intro that(4)) simp_all
    qed simp_all
  next
    case (apply_one k)
    show thesis
    proof (cases "k = n")
      case True
      with apply_one show thesis by (intro that(5)) (simp_all add: set_node_def c_apply_def split: prod.split)
    next
      case False
      with apply_one show thesis by (intro same) (simp_all add: set_node_def c_apply_def split: prod.split)
    qed
  next
    case (isolate k on h)
    show thesis by (rule fr [OF isolate(1)]) (simp_all add: node_step.intros)
  next
    case (restart k)
    show thesis
    proof (cases "k = n")
      case True
      with restart show thesis by (intro that(6)) (simp_all add: set_node_def c_restart_def Let_def)
    next
      case False
      with restart show thesis by (intro same) (simp_all add: set_node_def c_restart_def Let_def)
    qed
  next
    case (cut_vote k a)
    show thesis by (rule fr [OF cut_vote(1)]) (simp_all add: node_step.intros)
  next
    case (cut_append k a)
    show thesis by (rule fr [OF cut_append(1)]) (simp_all add: node_step.intros)
  qed
qed

lemma exec_step:
  assumes cf: "cluster_config ids cfg" and s: "sim ids cfg c s" "spec_inv (maj ids) s"
    and st: "cstep ids f sm0 c c'" and e: "exec_inv ids f sm0 c"
  shows "exec_inv ids f sm0 c'"
  unfolding exec_inv_def
proof
  fix n assume n: "n \<in> ids"
  from cf have C: "finite ids" by (simp add: cluster_config_def)
  from e n have en: "exec_ok f sm0 (c_node c n) (c_sm c n) (c_applied c n)" by (simp add: exec_inv_def)
  obtain s' where s': "(astep (maj ids))\<^sup>*\<^sup>* s s'" "sim ids cfg c' s'"
    using sim_cstep [OF cf st s] by blast
  note keep = exec_keep [OF s s'(2,1) n _ en]
  from st n show "exec_ok f sm0 (c_node c' n) (c_sm c' n) (c_applied c' n)"
  proof (cases rule: cstep_cases_node)
    case same
    with en show ?thesis by simp
  next
    case local
    with keep node_step_frame show ?thesis by simp
  next
    case (recv a res)
    have "commit_index (c_node c n) \<le> commit_index (c_node c' n)"
      using sim_recv_append [OF C s recv(1,2)] by blast
    with frame_append_entries [OF recv(2)] keep recv(3,4) show ?thesis by simp
  next
    case collect
    have "commit_index (c_node c n) \<le> length (log (c_node c n))"
      using inv_commitD(1) [OF spec_invD(6) [OF s(2)], of n] node_simD(4,5) [OF simD(1) [OF s(1) n]] by simp
    with exec_collect [OF en collect(1)] collect show ?thesis by simp
  next
    case apply_one
    with exec_apply [OF en apply_one(1)] show ?thesis by simp
  next
    case restart
    then show ?thesis by (simp add: exec_ok_def run_entries_def)
  qed
qed

lemma reachable_inv:
  assumes "reachable ids cfg f sm0 c"
  obtains s where "sim ids cfg c s" "spec_inv (maj ids) s" "exec_inv ids f sm0 c"
proof -
  from assms have cf: "cluster_config ids cfg" and st: "(cstep ids f sm0)\<^sup>*\<^sup>* (c_init cfg sm0) c"
    by (simp_all add: reachable_def)
  from st have "\<exists>s. sim ids cfg c s \<and> spec_inv (maj ids) s \<and> exec_inv ids f sm0 c"
  proof (induction rule: rtranclp_induct)
    case base
    have "exec_inv ids f sm0 (c_init cfg sm0)"
      by (simp add: exec_inv_def exec_ok_def c_init_def run_entries_def)
    then show ?case by (intro exI [of _ a_init] conjI sim_init spec_inv_init)
  next
    case (step c1 c2)
    then obtain s1 where s1: "sim ids cfg c1 s1" "spec_inv (maj ids) s1" "exec_inv ids f sm0 c1" by blast
    obtain s2 where "spec_inv (maj ids) s2" "sim ids cfg c2 s2"
      using sim_cstep [OF cf step(2) s1(1,2)] by blast
    with exec_step [OF cf s1(1,2) step(2) s1(3)] show ?case by blast
  qed
  with that show ?thesis by blast
qed

lemma reachable_trans: "reachable ids cfg f sm0 c \<Longrightarrow> cstep ids f sm0 c c' \<Longrightarrow> reachable ids cfg f sm0 c'"
  by (auto simp: reachable_def intro: rtranclp.rtrancl_into_rtrancl)

lemma reachable_finite: "reachable ids cfg f sm0 c \<Longrightarrow> finite ids"
  by (simp add: reachable_def cluster_config_def)

section \<open>Clients are answered with their own entry's result\<close>

definition same_call :: "waiter \<Rightarrow> log_entry \<Rightarrow> bool" where
  "same_call w e \<longleftrightarrow> w_term w = e_term e \<and> w_client w = client_id e \<and> w_seq w = seq_num e"

text \<open>A resolved waiter holds an exception, or the result of an applied entry that is its own.\<close>

definition answer_ok ::
  "(log_entry \<Rightarrow> 's \<Rightarrow> 's \<times> (exn + (string, pyval) dict)) \<Rightarrow> 's \<Rightarrow> log_entry list \<Rightarrow> waiter \<Rightarrow> bool" where
  "answer_ok f sm0 ap w \<longleftrightarrow> (w_event w \<and> (\<forall>x. w_result w \<noteq> RExn x) \<longrightarrow>
       0 < w_index w \<and> w_index w \<le> length ap \<and> same_call w (ap ! (w_index w - 1))
       \<and> snd (run_apply f (ap ! (w_index w - 1)) (run_entries f sm0 (take (w_index w - 1) ap))) = w_result w)"

definition waiters_ok ::
  "(log_entry \<Rightarrow> 's \<Rightarrow> 's \<times> (exn + (string, pyval) dict)) \<Rightarrow> 's \<Rightarrow> log_entry list \<Rightarrow> raft_node \<Rightarrow> bool" where
  "waiters_ok f sm0 ap nd \<longleftrightarrow> distinct (dvalues (commit_waiters nd)) \<and> wf_dict (commit_waiters nd)
     \<and> (\<forall>v \<in> set (dvalues (commit_waiters nd)). v < length (waiters nd) \<and> w_result (waiters nd ! v) = RNone
           \<and> \<not> w_event (waiters nd ! v))
     \<and> (\<forall>i r. dget (commit_waiters nd) i = Some r \<longrightarrow> w_index (waiters nd ! r) = i)
     \<and> (\<forall>r < length (waiters nd). answer_ok f sm0 ap (waiters nd ! r))"

lemma fail_waiter_idem [simp]: "fail_waiter x (fail_waiter x w) = fail_waiter x w"
  by (simp add: fail_waiter_def)

lemma fail_fold:
  "length (foldl (\<lambda>ws r. ws[r := fail_waiter x (ws ! r)]) ws rs) = length ws"
  "r < length ws \<Longrightarrow> foldl (\<lambda>ws r. ws[r := fail_waiter x (ws ! r)]) ws rs ! r =
     (if r \<in> set rs then fail_waiter x (ws ! r) else ws ! r)"
proof (induction rs arbitrary: ws)
  case (Cons a rs)
  { case 1 show ?case using Cons(1) by simp }
  { case 2 then show ?case using Cons(2) [of "ws[a := fail_waiter x (ws ! a)]"] by (cases "a = r") auto }
qed simp_all

lemma dvalues_dset: "set (dvalues (dset d k v)) \<subseteq> insert v (set (dvalues d))"
  unfolding dvalues_def dset_def by (induction d) auto

lemma distinct_dset: "distinct (dvalues d) \<Longrightarrow> v \<notin> set (dvalues d) \<Longrightarrow> distinct (dvalues (dset d k v))"
proof (induction d)
  case (Cons kv d)
  then show ?case using dvalues_dset [of d k v] by (cases kv) (auto simp: dvalues_def dset_def)
qed (simp add: dvalues_def dset_def)

lemma dvalues_dpop: "set (dvalues (dpop d k)) \<subseteq> set (dvalues d)"
  "distinct (dvalues d) \<Longrightarrow> distinct (dvalues (dpop d k))"
  "distinct (dvalues d) \<Longrightarrow> dget d k = Some v \<Longrightarrow> v \<notin> set (dvalues (dpop d k))"
  unfolding dvalues_def dpop_def dget_def
proof -
  show "set (map snd (AList.delete k d)) \<subseteq> set (map snd d)" by (auto simp: AList.delete_eq)
  show "distinct (map snd d) \<Longrightarrow> distinct (map snd (AList.delete k d))"
    by (simp add: AList.delete_eq distinct_map_filter)
  assume d: "distinct (map snd d)" and m: "map_of d k = Some v"
  show "v \<notin> set (map snd (AList.delete k d))"
  proof
    assume "v \<in> set (map snd (AList.delete k d))"
    then obtain k' where "k' \<noteq> k" "(k', v) \<in> set d" by (fastforce simp: AList.delete_eq)
    moreover have "inj_on snd (set d)" using d by (simp add: distinct_map)
    ultimately have "(k', v) = (k, v)"
      using map_of_SomeD [OF m] inj_onD [of snd "set d" "(k', v)" "(k, v)"] by simp
    with \<open>k' \<noteq> k\<close> show False by simp
  qed
qed

lemma answer_ok_more: "answer_ok f sm0 ap w \<Longrightarrow> answer_ok f sm0 (ap @ es) w"
  unfolding answer_ok_def by (auto simp: nth_append)

lemma fail_all_waiters_fields:
  "commit_waiters (fail_all_waiters x nd) = []" "length (waiters (fail_all_waiters x nd)) = length (waiters nd)"
  "r < length (waiters nd) \<Longrightarrow> waiters (fail_all_waiters x nd) ! r =
     (if r \<in> set (dvalues (commit_waiters nd)) then fail_waiter x (waiters nd ! r) else waiters nd ! r)"
  by (simp_all add: fail_all_waiters_def fail_fold)

lemma waiters_ok_fail:
  assumes "waiters_ok f sm0 ap nd"
  shows "waiters_ok f sm0 ap (fail_all_waiters x nd)"
proof -
  have "answer_ok f sm0 ap (waiters (fail_all_waiters x nd) ! r)" if "r < length (waiters nd)" for r
    using assms that by (auto simp: fail_all_waiters_fields waiters_ok_def answer_ok_def fail_waiter_def)
  then show ?thesis by (simp add: waiters_ok_def fail_all_waiters_fields dvalues_def)
qed

text \<open>Waiters as seen through the fields they depend on.\<close>

lemma waiters_ok_same:
  "waiters_ok f sm0 ap nd \<Longrightarrow> waiters nd' = waiters nd \<Longrightarrow> commit_waiters nd' = commit_waiters nd
    \<Longrightarrow> waiters_ok f sm0 ap nd'"
  by (simp add: waiters_ok_def)

lemma waiters_ok_become_follower: "waiters_ok f sm0 ap nd \<Longrightarrow> waiters_ok f sm0 ap (become_follower t nd)"
  unfolding become_follower_def
  by (rule waiters_ok_fail, erule waiters_ok_same)
    (simp_all add: reset_election_timer_def persist_hard_state_def)

lemma waiters_ok_election:
  assumes w: "waiters_ok f sm0 ap nd"
  shows "waiters_ok f sm0 ap (start_election nd)" "waiters_ok f sm0 ap (finish_election t nd)"
    "waiters_ok f sm0 ap (handle_vote_reply t r nd)" "waiters_ok f sm0 ap (fst (handle_request_vote a nd))"
proof -
  show "waiters_ok f sm0 ap (start_election nd)"
    by (rule waiters_ok_same [OF w]) (simp_all add: start_election_def Let_def persist_hard_state_def)
  show "waiters_ok f sm0 ap (finish_election t nd)"
    by (rule waiters_ok_same [OF w])
      (simp_all add: finish_election_def become_leader_def Let_def persist_log_def reset_election_timer_def
        split: option.split)
  show "waiters_ok f sm0 ap (handle_vote_reply t r nd)"
  proof (cases "rvr_term r > current_term nd")
    case True
    with waiters_ok_become_follower [OF w] show ?thesis by (simp add: handle_vote_reply_def)
  next
    case False
    then show ?thesis
      by (intro waiters_ok_same [OF w]) (simp_all add: handle_vote_reply_def split: option.split)
  qed
  let ?n = "if rv_term a > current_term nd then become_follower (rv_term a) nd else nd"
  have "waiters_ok f sm0 ap ?n" using waiters_ok_become_follower [OF w] w by simp
  then show "waiters_ok f sm0 ap (fst (handle_request_vote a nd))"
    by (rule waiters_ok_same)
      (simp_all add: handle_request_vote_def Let_def persist_hard_state_def reset_election_timer_def)
qed

lemma waiters_ok_append:
  assumes w: "waiters_ok f sm0 ap nd"
  shows "waiters_ok f sm0 ap (handle_append_reply p a r nd)"
    "handle_append_entries b nd = (nd', res) \<Longrightarrow> waiters_ok f sm0 ap nd'"
    "waiters_ok f sm0 ap (fst (append_entry_end i ref nd))"
proof -
  show "waiters_ok f sm0 ap (handle_append_reply p a r nd)"
  proof (cases "aer_term r > current_term nd")
    case True
    then show ?thesis using waiters_ok_become_follower [OF w] by (simp add: handle_append_reply_def)
  next
    case False
    then show ?thesis
      by (intro waiters_ok_same [OF w]) (simp_all add: handle_append_reply_def Let_def advance_commit_index_def)
  qed
  have fo: "waiters_ok f sm0 ap (ae_follow b nd)"
  proof -
    let ?n = "if ae_term b > current_term nd \<or> state nd = Candidate then become_follower (ae_term b) nd else nd"
    have "waiters_ok f sm0 ap ?n" using waiters_ok_become_follower [OF w] w by simp
    then show ?thesis
      by (rule waiters_ok_same) (simp_all add: ae_follow_def Let_def reset_election_timer_def)
  qed
  show "handle_append_entries b nd = (nd', res) \<Longrightarrow> waiters_ok f sm0 ap nd'"
  proof (elim append_entries_cases)
    assume "(nd', res) = ae_accept b (ae_follow b nd)"
    from ae_accept_fields [OF this [symmetric]] show ?thesis
      by (intro waiters_ok_same [OF fo]) simp_all
  qed (use w fo in simp_all)
  have "waiters_ok f sm0 ap (nd\<lparr>commit_waiters := dpop (commit_waiters nd) i\<rparr>)"
    using w dvalues_dpop(1) [of "commit_waiters nd" i] dvalues_dpop(2) [of "commit_waiters nd" i]
    by (auto simp: waiters_ok_def)
  with w show "waiters_ok f sm0 ap (fst (append_entry_end i ref nd))" by (simp add: append_entry_end_def)
qed

lemma waiters_ok_begin:
  assumes w: "waiters_ok f sm0 ap nd" and b: "append_entry_begin op fn b cl sq nd = Inr (nd', i, ref)"
  shows "waiters_ok f sm0 ap nd'"
proof -
  from b have f: "waiters nd' = waiters nd @ [\<lparr>w_index = i, w_term = current_term nd, w_client = cl, w_seq = sq,
      w_event = False, w_result = RNone\<rparr>]" "commit_waiters nd' = dset (commit_waiters nd) i (length (waiters nd))"
    by (auto simp: append_entry_begin_def Let_def persist_log_def split: if_splits)
  have fresh: "length (waiters nd) \<notin> set (dvalues (commit_waiters nd))" using w by (auto simp: waiters_ok_def)
  have "v < length (waiters nd') \<and> w_result (waiters nd' ! v) = RNone \<and> \<not> w_event (waiters nd' ! v)"
    if "v \<in> set (dvalues (commit_waiters nd'))" for v
    using that dvalues_dset [of "commit_waiters nd" i "length (waiters nd)"] w f
    by (auto simp: waiters_ok_def nth_append)
  moreover have "answer_ok f sm0 ap (waiters nd' ! r)" if "r < length (waiters nd')" for r
    using that w f by (auto simp: waiters_ok_def nth_append answer_ok_def less_Suc_eq)
  moreover have "w_index (waiters nd' ! r) = j" if "dget (commit_waiters nd') j = Some r" for j r
  proof (cases "j = i")
    case False
    with that f(2) have d: "dget (commit_waiters nd) j = Some r" by simp
    then have "r \<in> set (dvalues (commit_waiters nd))" by (force simp: dvalues_def dest: dget_in_set)
    with d w f(1) show ?thesis by (auto simp: waiters_ok_def nth_append)
  qed (use that f in \<open>auto simp: nth_append\<close>)
  ultimately show ?thesis using w distinct_dset [OF _ fresh] f(2) by (simp add: waiters_ok_def)
qed


lemma waiters_ok_resolve:
  assumes w: "waiters_ok f sm0 ap nd" and i: "i = length ap + 1"
  shows "waiters_ok f sm0 (ap @ [e]) (resolve_waiter i e (snd (run_apply f e (run_entries f sm0 ap))) nd)"
proof (cases "dget (commit_waiters nd) i")
  case None
  with w answer_ok_more show ?thesis by (fastforce simp: resolve_waiter_def waiters_ok_def)
next
  case (Some ref)
  let ?res = "snd (run_apply f e (run_entries f sm0 ap))" and ?w = "waiters nd ! ref"
  let ?nd = "resolve_waiter i e ?res nd"
  have r: "ref < length (waiters nd)" using w Some by (force simp: waiters_ok_def dvalues_def dest: dget_in_set)
  have wi: "w_index ?w = length ap + 1" using w Some i by (simp add: waiters_ok_def)
  obtain out where n: "waiters ?nd = (waiters nd)[ref := ?w\<lparr>w_result := out, w_event := True\<rparr>]"
    "commit_waiters ?nd = dpop (commit_waiters nd) i"
    and o: "out = ?res \<and> same_call ?w e \<or> (\<exists>x. out = RExn x)"
    using Some by (auto simp: resolve_waiter_def Let_def same_call_def)
  have d: "distinct (dvalues (commit_waiters nd))" using w by (simp add: waiters_ok_def)
  have "answer_ok f sm0 (ap @ [e]) (waiters ?nd ! q)" if q: "q < length (waiters nd)" for q
  proof (cases "q = ref")
    case True
    with o r n(1) wi show ?thesis by (cases out) (auto simp: answer_ok_def same_call_def)
  next
    case False
    have "answer_ok f sm0 (ap @ [e]) (waiters nd ! q)"
      by (rule answer_ok_more) (use q w in \<open>simp add: waiters_ok_def\<close>)
    with False n show ?thesis by simp
  qed
  moreover have "v < length (waiters ?nd) \<and> w_result (waiters ?nd ! v) = RNone \<and> \<not> w_event (waiters ?nd ! v)"
    if "v \<in> set (dvalues (commit_waiters ?nd))" for v
  proof -
    from that n(2) dvalues_dpop(1) [of "commit_waiters nd" i] dvalues_dpop(3) [OF d Some]
    have "v \<in> set (dvalues (commit_waiters nd))" "v \<noteq> ref" by auto
    with w n(1) show ?thesis by (simp add: waiters_ok_def)
  qed
  moreover have "w_index (waiters ?nd ! q) = j" if j: "dget (commit_waiters ?nd) j = Some q" for j q
    using j w n r by (cases "q = ref") (auto simp: waiters_ok_def split: if_splits)
  ultimately show ?thesis using w n dvalues_dpop(2) [OF d] by (simp add: waiters_ok_def)
qed

definition client_inv ::
  "nat set \<Rightarrow> (log_entry \<Rightarrow> 's \<Rightarrow> 's \<times> (exn + (string, pyval) dict)) \<Rightarrow> 's \<Rightarrow> 's cluster \<Rightarrow> bool" where
  "client_inv ids f sm0 c \<longleftrightarrow> (\<forall>n\<in>ids. waiters_ok f sm0 (c_applied c n) (c_node c n))"

lemma client_step:
  assumes e: "exec_inv ids f sm0 c" and w: "client_inv ids f sm0 c" and st: "cstep ids f sm0 c c'"
  shows "client_inv ids f sm0 c'"
  unfolding client_inv_def
proof
  fix n assume n: "n \<in> ids"
  from w n have wn: "waiters_ok f sm0 (c_applied c n) (c_node c n)" by (simp add: client_inv_def)
  from st n show "waiters_ok f sm0 (c_applied c' n) (c_node c' n)"
  proof (cases rule: cstep_cases_node)
    case local
    from local(1) have "waiters_ok f sm0 (c_applied c n) (c_node c' n)"
      by cases (use wn in \<open>simp_all add: waiters_ok_election waiters_ok_append waiters_ok_become_follower\<close>,
        (erule waiters_ok_begin [OF wn] | rule waiters_ok_same [OF wn], simp_all add: hb_turn_def set_isolated_def)+)
    with local show ?thesis by simp
  next
    case recv
    with waiters_ok_append(2) [OF wn] show ?thesis by simp
  next
    case collect
    with waiters_ok_same [OF wn, of "c_node c' n"] show ?thesis by (simp add: applier_collect_def)
  next
    case apply_one
    show ?thesis
    proof (cases "apply_queue (c_node c n)")
      case Nil
      with apply_one wn show ?thesis by (simp add: applier_apply_def)
    next
      case (Cons ie q)
      obtain i x where ie: "ie = (i, x)" by fastforce
      from e n have sm: "c_sm c n = run_entries f sm0 (c_applied c n)" by (simp add: exec_inv_def exec_ok_def)
      have "waiters_ok f sm0 (c_applied c n) (c_node c n\<lparr>apply_queue := q\<rparr>)"
        by (rule waiters_ok_same [OF wn]) simp_all
      moreover have "i = length (c_applied c n) + 1"
      proof -
        have "map fst (apply_queue (c_node c n)) =
            [length (c_applied c n) + 1 ..< length (c_applied c n) + 1 + length (apply_queue (c_node c n))]"
          using e n by (simp add: exec_inv_def exec_ok_def)
        from arg_cong [OF this, of hd] Cons ie show ?thesis by (simp add: upt_conv_Cons del: upt_Suc)
      qed
      ultimately have "waiters_ok f sm0 (c_applied c n @ [x])
          (resolve_waiter i x (snd (run_apply f x (run_entries f sm0 (c_applied c n)))) (c_node c n\<lparr>apply_queue := q\<rparr>))"
        by (rule waiters_ok_resolve)
      with apply_one Cons ie applier_apply_sm [of "c_node c n" i x q f "c_sm c n"]
      show ?thesis by (simp add: sm)
    qed
  next
    case restart
    then show ?thesis by (simp add: waiters_ok_def dvalues_def)
  qed (use wn in simp)
qed

section \<open>Nobody is stuck\<close>

text \<open>
  A follower's election timer is armed, a candidate's election is still being counted or its
  timer is armed, and a leader's heartbeat thread is running.
\<close>

definition live_ok :: "raft_node \<Rightarrow> bool" where
  "live_ok nd \<longleftrightarrow> (state nd = Follower \<longrightarrow> election_timer nd)
     \<and> (state nd = Candidate \<longrightarrow> election_timer nd \<or> dget (ballots nd) (current_term nd) \<noteq> None)
     \<and> (state nd = Leader \<longrightarrow> 0 < hb_threads nd)"

lemma live_become_follower: "live_ok (become_follower t nd)"
  by (simp add: live_ok_def)

lemma live_node_step:
  assumes "node_step nd nd'" "live_ok nd" shows "live_ok nd'"
  using assms
proof cases
  case 1
  then show ?thesis using assms(2)
    by (auto simp: live_ok_def start_election_def Let_def persist_hard_state_def split: role.splits)
next
  case (2 a)
  then show ?thesis using assms(2)
    by (auto simp: live_ok_def handle_request_vote_def Let_def persist_hard_state_def reset_election_timer_def
        split: role.splits)
next
  case (3 t r)
  then show ?thesis using assms(2) live_become_follower
    by (auto simp: live_ok_def handle_vote_reply_def split: role.splits option.splits)
next
  case (4 t)
  then show ?thesis using assms(2)
    by (auto simp: live_ok_def finish_election_def become_leader_def Let_def persist_log_def
        reset_election_timer_def split: role.splits option.splits)
next
  case 5
  then show ?thesis using assms(2) by (auto simp: live_ok_def hb_turn_def split: role.splits)
next
  case (6 p a rp)
  show ?thesis
  proof (cases "aer_term rp > current_term nd")
    case True
    with 6 live_become_follower show ?thesis by (simp add: handle_append_reply_def)
  next
    case False
    have "hb_threads (advance_commit_index n1) = hb_threads n1" for n1
      unfolding advance_commit_index_def by (subst advance_from_only) simp
    with False 6 assms(2) show ?thesis
      by (auto simp: live_ok_def handle_append_reply_def Let_def advance_commit_index_def split: role.splits)
  qed
next
  case (7 op fn b cl sq i ref)
  then show ?thesis using assms(2)
    by (auto simp: live_ok_def append_entry_begin_def Let_def persist_log_def split: role.splits if_splits)
next
  case (8 i ref)
  then show ?thesis using assms(2) by (auto simp: live_ok_def append_entry_end_def split: role.splits)
next
  case (9 on h)
  then show ?thesis using assms(2) by (auto simp: live_ok_def set_isolated_def split: role.splits)
next
  case (10 t)
  then show ?thesis by (simp add: live_become_follower)
qed

lemma live_append_entries:
  assumes "handle_append_entries a nd = (nd', res)" "live_ok nd" shows "live_ok nd'"
proof -
  have f: "live_ok (ae_follow a nd)" using assms(2)
    by (auto simp: live_ok_def ae_follow_def Let_def reset_election_timer_def split: role.splits)
  from assms(1) show ?thesis
  proof (cases rule: append_entries_cases)
    case accepted
    from ae_accept_fields [OF accepted(2) [symmetric]] f show ?thesis
      by (auto simp: live_ok_def split: role.splits)
  qed (use f assms in simp_all)
qed

lemma live_step:
  assumes l: "\<forall>n\<in>ids. live_ok (c_node c n)" and st: "cstep ids f sm0 c c'"
  shows "\<forall>n\<in>ids. live_ok (c_node c' n)"
proof
  fix n assume n: "n \<in> ids"
  with l have ln: "live_ok (c_node c n)" by simp
  from st n show "live_ok (c_node c' n)"
  proof (cases rule: cstep_cases_node)
    case local
    with live_node_step ln show ?thesis by blast
  next
    case (recv a res)
    with live_append_entries ln show ?thesis by blast
  next
    case collect
    with ln show ?thesis by (simp add: applier_collect_def live_ok_def)
  next
    case apply_one
    then have "c_node c' n = fst (applier_apply f (c_node c n) (c_sm c n))" by simp
    with ln show ?thesis
      by (auto simp: applier_apply_def resolve_waiter_def live_ok_def Let_def
          split: list.split prod.split option.split)
  next
    case restart
    then show ?thesis by (simp add: live_ok_def)
  qed (use ln in simp)
qed

lemma reachable_client:
  assumes "reachable ids cfg f sm0 c"
  shows "client_inv ids f sm0 c" "\<forall>n\<in>ids. live_ok (c_node c n)"
proof -
  from assms have cf: "cluster_config ids cfg" and st: "(cstep ids f sm0)\<^sup>*\<^sup>* (c_init cfg sm0) c"
    by (simp_all add: reachable_def)
  from st have "client_inv ids f sm0 c \<and> (\<forall>n\<in>ids. live_ok (c_node c n))"
  proof (induction rule: rtranclp_induct)
    case base
    show ?case by (simp add: client_inv_def waiters_ok_def c_init_def dvalues_def live_ok_def)
  next
    case (step c1 c2)
    have "reachable ids cfg f sm0 c1" using cf step(1) by (simp add: reachable_def)
    then have "exec_inv ids f sm0 c1" by (rule reachable_inv)
    with client_step [OF this _ step(2)] live_step [OF _ step(2)] step(3) show ?case by blast
  qed
  then show "client_inv ids f sm0 c" "\<forall>n\<in>ids. live_ok (c_node c n)" by blast+
qed

end
