(* ===== verification/Raft_Run.thy ===== *)
theory Raft_Run
  imports Raft_Exec
begin

text \<open>
  A concrete run of three nodes, the input of the witnesses: node 0 stands for election, node 1
  votes for it, it wins term 1, appends a client's entry, replicates it to node 1, commits and
  both apply it. Node 2 hears of nothing.
\<close>

definition demo_ids :: "nat set" where
  "demo_ids = {0, 1, 2}"

definition demo_cfg :: "nat \<Rightarrow> (nat, addr) dict" where
  "demo_cfg n = filter (\<lambda>kv. fst kv \<noteq> n) [(0, ''n0''), (1, ''n1''), (2, ''n2'')]"

definition demo_apply :: "log_entry \<Rightarrow> string list \<Rightarrow> string list \<times> (exn + (string, pyval) dict)" where
  "demo_apply e sm = (sm @ [data e], Inr [])"

definition demo_rv :: rv_args where
  "demo_rv = \<lparr>rv_term = 1, rv_candidate = 0, rv_last_idx = 0, rv_last_term = 0\<rparr>"

definition demo_0 :: "string list cluster" where
  "demo_0 = c_init demo_cfg []"

definition demo_1 :: "string list cluster" where
  "demo_1 = set_node 0 (start_election (c_node demo_0 0)) demo_0"

definition demo_2 :: "string list cluster" where
  "demo_2 = demo_1\<lparr>c_rv := insert demo_rv (c_rv demo_1)\<rparr>"

definition demo_3 :: "string list cluster" where
  "demo_3 = (let (nd, r) = handle_request_vote demo_rv (c_node demo_2 1) in
             set_node 1 nd (demo_2\<lparr>c_rvr := insert (1, demo_rv, r) (c_rvr demo_2)\<rparr>))"

definition demo_4 :: "string list cluster" where
  "demo_4 = set_node 0 (handle_vote_reply 1 \<lparr>rvr_term = 1, rvr_granted = True\<rparr> (c_node demo_3 0))
              (demo_3\<lparr>c_counted := insert (0, 1, 1) (c_counted demo_3)\<rparr>)"

definition demo_5 :: "string list cluster" where
  "demo_5 = set_node 0 (finish_election 1 (c_node demo_4 0)) demo_4"

definition trace_entries :: "string \<Rightarrow> log_entry list" where
  "trace_entries op = [noop_entry 1 1, client_entry 1 2 op ''x'' ''v'' ''c'' 1]"

definition trace_6 :: "string \<Rightarrow> string list cluster" where
  "trace_6 op = (case append_entry_begin op ''x'' ''v'' ''c'' 1 (c_node demo_5 0) of
               Inr (nd, i, ref) \<Rightarrow> set_node 0 nd demo_5 | Inl x \<Rightarrow> demo_5)"

definition trace_ae :: "string \<Rightarrow> ae_args" where
  "trace_ae op = \<lparr>ae_term = 1, ae_leader = 0, ae_prev_idx = 0, ae_prev_term = 0, ae_entries = (trace_entries op),
              ae_commit = 0\<rparr>"

definition trace_7 :: "string \<Rightarrow> string list cluster" where
  "trace_7 op = (trace_6 op)\<lparr>c_ae := insert (1, (trace_ae op)) (c_ae (trace_6 op))\<rparr>"

definition demo_aer :: "ae_reply" where
  "demo_aer = \<lparr>aer_term = 1, aer_success = True, aer_conflict_idx = 0, aer_conflict_term = 0\<rparr>"

definition trace_8 :: "string \<Rightarrow> string list cluster" where
  "trace_8 op = set_node 1 (fst (handle_append_entries (trace_ae op) (c_node (trace_7 op) 1)))
              ((trace_7 op)\<lparr>c_aer := insert (1, (trace_ae op), demo_aer) (c_aer (trace_7 op))\<rparr>)"

definition trace_9 :: "string \<Rightarrow> string list cluster" where
  "trace_9 op = set_node 0 (handle_append_reply 1 (trace_ae op) demo_aer (c_node (trace_8 op) 0)) (trace_8 op)"

definition demo_ae2 :: "ae_args" where
  "demo_ae2 = \<lparr>ae_term = 1, ae_leader = 0, ae_prev_idx = 2, ae_prev_term = 1, ae_entries = [],
               ae_commit = 2\<rparr>"

definition trace_10 :: "string \<Rightarrow> string list cluster" where
  "trace_10 op = (trace_9 op)\<lparr>c_ae := insert (1, demo_ae2) (c_ae (trace_9 op))\<rparr>"

definition trace_11 :: "string \<Rightarrow> string list cluster" where
  "trace_11 op = set_node 1 (fst (handle_append_entries demo_ae2 (c_node (trace_10 op) 1)))
               ((trace_10 op)\<lparr>c_aer := insert (1, demo_ae2, demo_aer) (c_aer (trace_10 op))\<rparr>)"

definition trace_12 :: "string \<Rightarrow> string list cluster" where
  "trace_12 op = set_node 1 (applier_collect (c_node (trace_11 op) 1))
               (set_node 0 (applier_collect (c_node (trace_11 op) 0)) (trace_11 op))"

text \<open>The run of the replicated list used by the witnesses of the protocol has \<open>put\<close> entries.\<close>

abbreviation "demo_entries \<equiv> trace_entries ''put''"
abbreviation "demo_ae \<equiv> trace_ae ''put''"
abbreviation "demo_6 \<equiv> trace_6 ''put''"
abbreviation "demo_7 \<equiv> trace_7 ''put''"
abbreviation "demo_8 \<equiv> trace_8 ''put''"
abbreviation "demo_9 \<equiv> trace_9 ''put''"
abbreviation "demo_10 \<equiv> trace_10 ''put''"
abbreviation "demo_11 \<equiv> trace_11 ''put''"
abbreviation "demo_12 \<equiv> trace_12 ''put''"

definition demo_13 :: "string list cluster" where
  "demo_13 = c_apply demo_apply 1 (c_apply demo_apply 0 (c_apply demo_apply 0 demo_12))"

section \<open>The run is a run of the model\<close>

text \<open>The handlers, unfolded; files stay as the \<open>dumps\<close> of what they hold.\<close>

lemmas run_defs = start_election_def handle_request_vote_def handle_vote_reply_def finish_election_def
  become_leader_def become_follower_def fail_all_waiters_def reset_election_timer_def
  persist_hard_state_def persist_log_def last_log_index_def last_log_term_def majority_def
  candidate_log_up_to_date_def noop_entry_def dset_def dget_def dpop_def dkeys_def dvalues_def
  Let_def set_node_def

lemma init_node_fresh_eq:
  "init_node i ps None None =
     \<lparr>node_id = i, peers = ps, current_term = 0, voted_for = None, log = [],
      commit_index = 0, last_applied = 0, state = Follower, leader_id = None,
      next_index = [], match_index = [], election_timer = True, hb_threads = 0,
      ballots = [], apply_queue = [], waiters = [], commit_waiters = [],
      isolated = False, heal_timer = False, disk_hard = None, disk_log = None\<rparr>"
  by (simp add: init_node_def reset_election_timer_def load_persistent_state_def load_hard_state_def load_log_def)

lemma nodes_5:
  "c_node demo_5 0 = \<lparr>node_id = 0, peers = [(1, ''n1''), (2, ''n2'')], current_term = 1, voted_for = Some 0,
      log = [noop_entry 1 1], commit_index = 0, last_applied = 0, state = Leader, leader_id = Some 0,
      next_index = [(1, 1), (2, 1), (0, 2)], match_index = [(1, 0), (2, 0), (0, 1)],
      election_timer = False, hb_threads = 1, ballots = [], apply_queue = [], waiters = [],
      commit_waiters = [], isolated = False, heal_timer = False,
      disk_hard = Some (dumps (hard_state_json 1 (Some 0))),
      disk_log = Some (dumps (JArr (map entry_json [noop_entry 1 1])))\<rparr>"
  "c_node demo_5 1 = \<lparr>node_id = 1, peers = [(0, ''n0''), (2, ''n2'')], current_term = 1, voted_for = Some 0,
      log = [], commit_index = 0, last_applied = 0, state = Follower, leader_id = None,
      next_index = [], match_index = [],
      election_timer = True, hb_threads = 0, ballots = [], apply_queue = [], waiters = [],
      commit_waiters = [], isolated = False, heal_timer = False,
      disk_hard = Some (dumps (hard_state_json 1 (Some 0))), disk_log = None\<rparr>"
  by (simp_all add: demo_5_def demo_4_def demo_3_def demo_2_def demo_1_def demo_0_def c_init_def
      init_node_fresh_eq run_defs demo_cfg_def demo_rv_def)

lemma advance_from_two:
  "advance_from nd 2 =
     (if 2 \<le> commit_index nd then nd
      else if replicated_count nd 2 \<ge> majority nd \<and> 2 \<le> length (log nd) \<and> e_term (log nd ! 1) = current_term nd
           then nd\<lparr>commit_index := 2\<rparr>
           else advance_from nd 1)"
  using advance_from.simps(2) [of nd 1] by (simp only: one_add_one [symmetric] Suc_eq_plus1 add_diff_cancel_right')

lemma begin_6:
  "append_entry_begin op ''x'' ''v'' ''c'' 1 (c_node demo_5 0) = Inr
     (\<lparr>node_id = 0, peers = [(1, ''n1''), (2, ''n2'')], current_term = 1, voted_for = Some 0,
      log = (trace_entries op), commit_index = 0, last_applied = 0, state = Leader, leader_id = Some 0,
      next_index = [(1, 1), (2, 1), (0, 3)], match_index = [(1, 0), (2, 0), (0, 2)],
      election_timer = False, hb_threads = 1, ballots = [], apply_queue = [],
      waiters = [\<lparr>w_index = 2, w_term = 1, w_client = ''c'', w_seq = 1, w_event = False, w_result = RNone\<rparr>],
      commit_waiters = [(2, 0)], isolated = False, heal_timer = False,
      disk_hard = Some (dumps (hard_state_json 1 (Some 0))),
      disk_log = Some (dumps (JArr (map entry_json (trace_entries op))))\<rparr>, 2, 0)"
  by (simp add: append_entry_begin_def nodes_5 run_defs trace_entries_def client_entry_def numeral_2_eq_2 [symmetric]
      del: hex.simps dumps.simps One_nat_def)

lemma node_6: "c_node (trace_6 op) 1 = c_node demo_5 1"
  by (simp add: trace_6_def set_node_def split: sum.split)

lemma append_8:
  "handle_append_entries (trace_ae op) (c_node (trace_7 op) 1) =
     (\<lparr>node_id = 1, peers = [(0, ''n0''), (2, ''n2'')], current_term = 1, voted_for = Some 0,
      log = (trace_entries op), commit_index = 0, last_applied = 0, state = Follower, leader_id = Some 0,
      next_index = [], match_index = [],
      election_timer = True, hb_threads = 0, ballots = [], apply_queue = [], waiters = [],
      commit_waiters = [], isolated = False, heal_timer = False,
      disk_hard = Some (dumps (hard_state_json 1 (Some 0))),
      disk_log = Some (dumps (JArr (map entry_json (trace_entries op))))\<rparr>, Inr demo_aer)"
  by (simp add: trace_7_def node_6 nodes_5 trace_ae_def demo_aer_def trace_entries_def handle_append_entries_def
      ae_follow_def ae_accept_def reset_election_timer_def persist_log_def Let_def
      del: dumps.simps One_nat_def)


lemma node_8: "c_node (trace_8 op) 0 = fst (projr (append_entry_begin op ''x'' ''v'' ''c'' 1 (c_node demo_5 0)))"
  by (simp add: trace_8_def trace_7_def trace_6_def set_node_def begin_6)

lemma nodes_9:
  "c_node (trace_9 op) 0 = \<lparr>node_id = 0, peers = [(1, ''n1''), (2, ''n2'')], current_term = 1, voted_for = Some 0,
      log = (trace_entries op), commit_index = 2, last_applied = 0, state = Leader, leader_id = Some 0,
      next_index = [(1, 3), (2, 1), (0, 3)], match_index = [(1, 2), (2, 0), (0, 2)],
      election_timer = False, hb_threads = 1, ballots = [], apply_queue = [],
      waiters = [\<lparr>w_index = 2, w_term = 1, w_client = ''c'', w_seq = 1, w_event = False, w_result = RNone\<rparr>],
      commit_waiters = [(2, 0)], isolated = False, heal_timer = False,
      disk_hard = Some (dumps (hard_state_json 1 (Some 0))),
      disk_log = Some (dumps (JArr (map entry_json (trace_entries op))))\<rparr>"
  "c_node (trace_9 op) 1 = \<lparr>node_id = 1, peers = [(0, ''n0''), (2, ''n2'')], current_term = 1, voted_for = Some 0,
      log = (trace_entries op), commit_index = 0, last_applied = 0, state = Follower, leader_id = Some 0,
      next_index = [], match_index = [],
      election_timer = True, hb_threads = 0, ballots = [], apply_queue = [], waiters = [],
      commit_waiters = [], isolated = False, heal_timer = False,
      disk_hard = Some (dumps (hard_state_json 1 (Some 0))),
      disk_log = Some (dumps (JArr (map entry_json (trace_entries op))))\<rparr>"
proof -
  show "c_node (trace_9 op) 1 = \<lparr>node_id = 1, peers = [(0, ''n0''), (2, ''n2'')], current_term = 1, voted_for = Some 0,
      log = (trace_entries op), commit_index = 0, last_applied = 0, state = Follower, leader_id = Some 0,
      next_index = [], match_index = [],
      election_timer = True, hb_threads = 0, ballots = [], apply_queue = [], waiters = [],
      commit_waiters = [], isolated = False, heal_timer = False,
      disk_hard = Some (dumps (hard_state_json 1 (Some 0))),
      disk_log = Some (dumps (JArr (map entry_json (trace_entries op))))\<rparr>"
    by (simp add: trace_9_def trace_8_def append_8 set_node_def del: One_nat_def)
qed (simp add: trace_9_def node_8 begin_6 set_node_def trace_ae_def demo_aer_def
      trace_entries_def handle_append_reply_def advance_commit_index_def last_log_index_def majority_def
      replicated_count_def client_entry_def noop_entry_def dget_or_def dget_def dset_def dvalues_def Let_def
      advance_from_two nth_Cons' del: hex.simps dumps.simps One_nat_def)


abbreviation "demo_step \<equiv> cstep demo_ids demo_apply []"

lemma config: "cluster_config demo_ids demo_cfg"
  by (auto simp: cluster_config_def demo_ids_def demo_cfg_def wf_dict_def)

lemma vote_3: "handle_request_vote demo_rv (c_node demo_2 1) =
    (c_node demo_5 1, \<lparr>rvr_term = 1, rvr_granted = True\<rparr>)"
  unfolding nodes_5
  by (simp add: demo_2_def demo_1_def demo_0_def c_init_def init_node_fresh_eq run_defs demo_cfg_def demo_rv_def)

lemma demo_3_eq: "demo_3 = set_node 1 (c_node demo_5 1)
    (demo_2\<lparr>c_rvr := insert (1, demo_rv, \<lparr>rvr_term = 1, rvr_granted = True\<rparr>) (c_rvr demo_2)\<rparr>)"
  by (simp only: demo_3_def vote_3 Let_def prod.case)

lemma single_steps_5:
  "demo_step demo_0 demo_1" "demo_step demo_1 demo_2" "demo_step demo_2 demo_3" "demo_step demo_3 demo_4"
  "demo_step demo_4 demo_5"
proof -
  show "demo_step demo_0 demo_1" unfolding demo_1_def
    by (rule cstep.timeout) (simp_all add: demo_ids_def demo_0_def c_init_def)
  show "demo_step demo_1 demo_2" unfolding demo_2_def
    by (rule cstep.send_vote [of 0 _ _ 1])
      (simp_all add: demo_ids_def demo_1_def demo_0_def c_init_def init_node_fresh_eq run_defs demo_cfg_def
        request_vote_msg_def demo_rv_def)
  show "demo_step demo_2 demo_3" unfolding demo_3_def vote_3 Let_def prod.case
    by (rule cstep.recv_vote [of 1 _ demo_rv, OF _ _ _ _ vote_3])
      (simp_all add: demo_ids_def demo_2_def demo_1_def demo_0_def c_init_def init_node_fresh_eq demo_rv_def set_node_def)
  show "demo_step demo_3 demo_4"
  proof -
    have "(1, demo_rv, \<lparr>rvr_term = 1, rvr_granted = True\<rparr>) \<in> c_rvr demo_3" "c_counted demo_3 = {}"
      by (simp_all add: demo_3_eq set_node_def demo_2_def demo_1_def demo_0_def c_init_def)
    then show ?thesis
      using cstep.vote_reply [of 1 demo_rv "\<lparr>rvr_term = 1, rvr_granted = True\<rparr>" demo_3 0 demo_ids demo_apply "[]"]
      by (simp add: demo_4_def demo_rv_def)
  qed
  show "demo_step demo_4 demo_5" unfolding demo_5_def
    by (rule cstep.finish) (simp add: demo_ids_def)
qed

lemma steps_to_5: "demo_step\<^sup>*\<^sup>* demo_0 demo_5"
  using single_steps_5 by (meson converse_rtranclp_into_rtranclp rtranclp.rtrancl_refl)

lemma step_6: "demo_step demo_5 (trace_6 op)"
  unfolding trace_6_def begin_6 sum.case prod.case
  by (rule cstep.client [OF _ begin_6]) (simp add: demo_ids_def)

lemma single_steps_9:
  "demo_step (trace_6 op) (trace_7 op)" "demo_step (trace_7 op) (trace_8 op)" "demo_step (trace_8 op) (trace_9 op)"
proof -
  show "demo_step (trace_6 op) (trace_7 op)" unfolding trace_7_def
    by (rule cstep.send_append [of 0])
      (simp_all add: trace_6_def begin_6 demo_ids_def set_node_def append_entries_msg_def dget_or_def dget_def
        dkeys_def trace_ae_def)
  show "demo_step (trace_7 op) (trace_8 op)" unfolding trace_8_def append_8 fst_conv
    by (rule cstep.recv_append [OF _ _ append_8])
      (simp_all add: trace_7_def node_6 nodes_5 del: One_nat_def)
  show "demo_step (trace_8 op) (trace_9 op)" unfolding trace_9_def
    by (rule cstep.append_reply) (simp_all add: trace_8_def set_node_def node_8 begin_6 trace_ae_def trace_7_def trace_6_def)
qed

lemma steps_from_6: "demo_step\<^sup>*\<^sup>* (trace_6 op) (trace_9 op)"
  using single_steps_9 by (meson converse_rtranclp_into_rtranclp rtranclp.rtrancl_refl)

definition trace_11a :: "string \<Rightarrow> string list cluster" where
  "trace_11a op = set_node 0 (applier_collect (c_node (trace_11 op) 0)) (trace_11 op)"

lemma single_steps_12:
  "demo_step (trace_9 op) (trace_10 op)" "demo_step (trace_10 op) (trace_11 op)" "demo_step (trace_11 op) (trace_11a op)" "demo_step (trace_11a op) (trace_12 op)"
proof -
  have r11: "handle_append_entries demo_ae2 (c_node (trace_10 op) 1) =
      (c_node (trace_9 op) 1\<lparr>commit_index := 2\<rparr>, Inr demo_aer)"
    by (simp add: trace_10_def nodes_9 demo_ae2_def demo_aer_def trace_entries_def handle_append_entries_def nth_Cons'
        ae_follow_def ae_accept_def reset_election_timer_def last_log_index_def client_entry_def noop_entry_def Let_def
        del: dumps.simps One_nat_def)
  show "demo_step (trace_9 op) (trace_10 op)" unfolding trace_10_def
    by (rule cstep.send_append [of 0])
      (simp_all add: nodes_9 demo_ids_def append_entries_msg_def dget_or_def dget_def dkeys_def demo_ae2_def
        trace_entries_def client_entry_def nth_Cons' del: One_nat_def)
  show "demo_step (trace_10 op) (trace_11 op)" unfolding trace_11_def r11 fst_conv
    by (rule cstep.recv_append [OF _ _ r11]) (simp_all add: trace_10_def nodes_9 del: One_nat_def)
  show "demo_step (trace_11 op) (trace_11a op)" unfolding trace_11a_def
    by (rule cstep.collect) (simp_all add: demo_ids_def trace_11_def trace_10_def set_node_def nodes_9)
  show "demo_step (trace_11a op) (trace_12 op)"
  proof -
    have "c_node (trace_11 op) 1 = c_node (set_node 0 (applier_collect (c_node (trace_11 op) 0)) (trace_11 op)) 1"
      by (simp add: set_node_def)
    moreover have "apply_queue (c_node (trace_11 op) 1) = []"
      by (simp add: trace_11_def r11 set_node_def nodes_9 del: One_nat_def)
    ultimately show ?thesis unfolding trace_12_def trace_11a_def
      using cstep.collect [of 1 demo_ids "set_node 0 (applier_collect (c_node (trace_11 op) 0)) (trace_11 op)" demo_apply "[]"]
      by (simp add: demo_ids_def)
  qed
qed

abbreviation "demo_11a \<equiv> trace_11a ''put''"

lemma steps_to_13: "demo_step\<^sup>*\<^sup>* demo_5 demo_9" "demo_step\<^sup>*\<^sup>* demo_9 demo_13"
proof -
  show "demo_step\<^sup>*\<^sup>* demo_5 demo_9" by (rule converse_rtranclp_into_rtranclp [OF step_6 [of "''put''"] steps_from_6])
  note single_steps_12 [of "''put''"]
  moreover have "demo_step demo_12 (c_apply demo_apply 0 demo_12)" by (rule cstep.apply_one) (simp add: demo_ids_def)
  moreover have "demo_step (c_apply demo_apply 0 demo_12) (c_apply demo_apply 0 (c_apply demo_apply 0 demo_12))"
    by (rule cstep.apply_one) (simp add: demo_ids_def)
  moreover have "demo_step (c_apply demo_apply 0 (c_apply demo_apply 0 demo_12)) demo_13"
    unfolding demo_13_def by (rule cstep.apply_one) (simp add: demo_ids_def)
  ultimately show "demo_step\<^sup>*\<^sup>* demo_9 demo_13"
    by (meson converse_rtranclp_into_rtranclp rtranclp.rtrancl_refl)
qed

lemma demo_reachable:
  "reachable demo_ids demo_cfg demo_apply [] demo_5" "reachable demo_ids demo_cfg demo_apply [] demo_9"
  "reachable demo_ids demo_cfg demo_apply [] demo_13"
  using config steps_to_5 steps_to_13 by (auto simp: reachable_def demo_0_def [symmetric])


section \<open>The end of the run\<close>

lemma append_11:
  "handle_append_entries demo_ae2 (c_node (trace_10 op) 1) = (c_node (trace_9 op) 1\<lparr>commit_index := 2\<rparr>, Inr demo_aer)"
  by (simp add: trace_10_def nodes_9 demo_ae2_def demo_aer_def trace_entries_def handle_append_entries_def nth_Cons'
      ae_follow_def ae_accept_def reset_election_timer_def last_log_index_def client_entry_def noop_entry_def Let_def
      del: dumps.simps One_nat_def)

lemma set_node_sm:
  "c_sm (set_node n nd c) = c_sm c" "c_applied (set_node n nd c) = c_applied c"
  by (simp_all add: set_node_def)

lemma nodes_12:
  "c_node (trace_12 op) 0 = c_node (trace_9 op) 0\<lparr>last_applied := 2, apply_queue := [(1, (trace_entries op) ! 0), (2, (trace_entries op) ! 1)]\<rparr>"
  "c_node (trace_12 op) 1 = c_node (trace_9 op) 1\<lparr>commit_index := 2, last_applied := 2,
      apply_queue := [(1, (trace_entries op) ! 0), (2, (trace_entries op) ! 1)]\<rparr>"
  "c_sm (trace_12 op) n = []" "c_applied (trace_12 op) n = []"
proof -
  have "c_sm demo_0 = (\<lambda>_. []) \<and> c_applied demo_0 = (\<lambda>_. [])" by (simp add: demo_0_def c_init_def)
  moreover have "c_sm demo_1 = c_sm demo_0 \<and> c_applied demo_1 = c_applied demo_0"
    by (simp add: demo_1_def set_node_sm)
  moreover have "c_sm demo_2 = c_sm demo_1 \<and> c_applied demo_2 = c_applied demo_1"
    by (simp add: demo_2_def set_node_sm)
  moreover have "c_sm demo_3 = c_sm demo_2 \<and> c_applied demo_3 = c_applied demo_2"
    by (simp add: demo_3_eq set_node_sm)
  moreover have "c_sm demo_4 = c_sm demo_3 \<and> c_applied demo_4 = c_applied demo_3"
    by (simp add: demo_4_def set_node_sm)
  moreover have "c_sm demo_5 = c_sm demo_4 \<and> c_applied demo_5 = c_applied demo_4"
    by (simp add: demo_5_def set_node_sm)
  moreover have "c_sm (trace_6 op) = c_sm demo_5 \<and> c_applied (trace_6 op) = c_applied demo_5"
    by (simp add: trace_6_def begin_6 set_node_sm)
  moreover have "c_sm (trace_7 op) = c_sm (trace_6 op) \<and> c_applied (trace_7 op) = c_applied (trace_6 op)"
    by (simp add: trace_7_def set_node_sm)
  moreover have "c_sm (trace_8 op) = c_sm (trace_7 op) \<and> c_applied (trace_8 op) = c_applied (trace_7 op)"
    by (simp add: trace_8_def set_node_sm)
  moreover have "c_sm (trace_9 op) = c_sm (trace_8 op) \<and> c_applied (trace_9 op) = c_applied (trace_8 op)"
    by (simp add: trace_9_def set_node_sm)
  moreover have "c_sm (trace_10 op) = c_sm (trace_9 op) \<and> c_applied (trace_10 op) = c_applied (trace_9 op)"
    by (simp add: trace_10_def set_node_sm)
  moreover have "c_sm (trace_11 op) = c_sm (trace_10 op) \<and> c_applied (trace_11 op) = c_applied (trace_10 op)"
    by (simp add: trace_11_def set_node_sm)
  moreover have "c_sm (trace_12 op) = c_sm (trace_11 op) \<and> c_applied (trace_12 op) = c_applied (trace_11 op)"
    by (simp add: trace_12_def set_node_sm)
  ultimately show "c_sm (trace_12 op) n = []" "c_applied (trace_12 op) n = []" by simp_all
  have "[1..<Suc (Suc (Suc 0))] = [1, Suc 1]" by simp
  then have two: "[1..<3] = [1, 2]" by (simp only: numeral_3_eq_3 numeral_2_eq_2 One_nat_def)
  show "c_node (trace_12 op) 1 = c_node (trace_9 op) 1\<lparr>commit_index := 2, last_applied := 2,
      apply_queue := [(1, (trace_entries op) ! 0), (2, (trace_entries op) ! 1)]\<rparr>"
    by (simp add: trace_12_def trace_11_def append_11 set_node_def nodes_9 applier_collect_def to_apply_def two
        trace_entries_def nth_Cons' del: One_nat_def)
  show "c_node (trace_12 op) 0 = c_node (trace_9 op) 0\<lparr>last_applied := 2, apply_queue := [(1, (trace_entries op) ! 0), (2, (trace_entries op) ! 1)]\<rparr>"
    by (simp add: trace_12_def trace_11_def append_11 trace_10_def set_node_def nodes_9 applier_collect_def to_apply_def two
        trace_entries_def nth_Cons' del: One_nat_def)
qed

lemma c_apply_head:
  assumes "apply_queue (c_node c n) = (i, e) # q"
  shows "c_node (c_apply f n c) n =
      resolve_waiter i e (snd (run_apply f e (c_sm c n))) (c_node c n\<lparr>apply_queue := q\<rparr>)"
    "c_sm (c_apply f n c) n = fst (run_apply f e (c_sm c n))"
    "c_applied (c_apply f n c) n = c_applied c n @ [e]"
  by (simp_all add: c_apply_def applier_apply_sm [OF assms] assms set_node_def)

lemma c_apply_other:
  "m \<noteq> n \<Longrightarrow> c_node (c_apply f n c) m = c_node c m" "m \<noteq> n \<Longrightarrow> c_sm (c_apply f n c) m = c_sm c m"
  "m \<noteq> n \<Longrightarrow> c_applied (c_apply f n c) m = c_applied c m"
  by (simp_all add: c_apply_def set_node_def split: prod.split)

lemma demo_0_entry: "demo_entries ! 0 = noop_entry 1 1"
  and demo_1_entry: "demo_entries ! 1 = client_entry 1 2 ''put'' ''x'' ''v'' ''c'' 1"
  by (simp_all add: trace_entries_def)

lemma nodes_12a:
  "c_node (c_apply demo_apply 0 demo_12) 0 = c_node demo_9 0\<lparr>last_applied := 2, apply_queue := [(2, demo_entries ! 1)]\<rparr>"
  "c_sm (c_apply demo_apply 0 demo_12) 0 = []" "c_applied (c_apply demo_apply 0 demo_12) 0 = [demo_entries ! 0]"
proof -
  have q: "apply_queue (c_node demo_12 0) = (1, demo_entries ! 0) # [(2, demo_entries ! 1)]"
    unfolding nodes_12 by simp
  show "c_node (c_apply demo_apply 0 demo_12) 0 = c_node demo_9 0\<lparr>last_applied := 2, apply_queue := [(2, demo_entries ! 1)]\<rparr>"
    unfolding c_apply_head(1) [OF q] nodes_12 demo_0_entry run_apply_noop
    by (simp add: resolve_waiter_def dget_def nodes_9 del: One_nat_def)
  show "c_sm (c_apply demo_apply 0 demo_12) 0 = []"
    unfolding c_apply_head(2) [OF q] nodes_12 demo_0_entry run_apply_noop by simp
  show "c_applied (c_apply demo_apply 0 demo_12) 0 = [demo_entries ! 0]"
    unfolding c_apply_head(3) [OF q] nodes_12 by simp
qed

lemma nodes_13:
  "c_node demo_13 0 = c_node demo_9 0\<lparr>last_applied := 2, commit_waiters := [],
      waiters := [\<lparr>w_index = 2, w_term = 1, w_client = ''c'', w_seq = 1, w_event = True, w_result = RDict []\<rparr>]\<rparr>"
  "c_node demo_13 1 = c_node demo_9 1\<lparr>commit_index := 2, last_applied := 2, apply_queue := [(2, demo_entries ! 1)]\<rparr>"
  "c_applied demo_13 0 = [demo_entries ! 0, demo_entries ! 1]" "c_applied demo_13 1 = [demo_entries ! 0]"
  "c_sm demo_13 0 = [''v'']" "c_sm demo_13 1 = []"
proof -
  let ?a = "c_apply demo_apply 0 demo_12"
  let ?b = "c_apply demo_apply 0 ?a"
  have q: "apply_queue (c_node ?a 0) = (2, demo_entries ! 1) # []"
    unfolding nodes_12a by simp
  have q1: "apply_queue (c_node ?b 1) = (1, demo_entries ! 0) # [(2, demo_entries ! 1)]"
    using nodes_12(2) by (simp add: c_apply_other)
  have r: "run_apply demo_apply (demo_entries ! 1) [] = ([''v''], RDict [])"
    unfolding demo_1_entry by (simp add: run_apply_client demo_apply_def)
  have b: "c_node demo_13 0 = c_node ?b 0" "c_sm demo_13 0 = c_sm ?b 0" "c_applied demo_13 0 = c_applied ?b 0"
    by (simp_all add: demo_13_def c_apply_other)
  show "c_sm demo_13 0 = [''v'']" "c_applied demo_13 0 = [demo_entries ! 0, demo_entries ! 1]"
    unfolding b c_apply_head(2,3) [OF q] nodes_12a r by simp_all
  show "c_node demo_13 0 = c_node demo_9 0\<lparr>last_applied := 2, commit_waiters := [],
      waiters := [\<lparr>w_index = 2, w_term = 1, w_client = ''c'', w_seq = 1, w_event = True, w_result = RDict []\<rparr>]\<rparr>"
    unfolding b c_apply_head(1) [OF q] nodes_12a r
    unfolding demo_1_entry by (simp add: resolve_waiter_def dget_def dpop_def nodes_9 client_entry_def)
  have o: "c_node ?b 1 = c_node demo_12 1" "c_sm ?b 1 = []" "c_applied ?b 1 = []"
    by (simp_all only: c_apply_other one_neq_zero nodes_12 not_False_eq_True)
  show "c_sm demo_13 1 = []" "c_applied demo_13 1 = [demo_entries ! 0]"
    unfolding demo_13_def c_apply_head(2,3) [OF q1] o demo_0_entry run_apply_noop by simp_all
  show "c_node demo_13 1 = c_node demo_9 1\<lparr>commit_index := 2, last_applied := 2, apply_queue := [(2, demo_entries ! 1)]\<rparr>"
    unfolding demo_13_def c_apply_head(1) [OF q1] o nodes_12 demo_0_entry run_apply_noop
    by (simp add: resolve_waiter_def dget_def nodes_9 del: One_nat_def)
qed

end
