(* ===== verification/Raft_Theorems.thy ===== *)
theory Raft_Theorems
  imports Raft_Run
begin

text \<open>
  What the consensus engine promises to the servers built on it, for clusters of any size: the
  safety theorems of Raft for the code's own nodes, durability across restarts, the meaning of
  an acknowledgement, and the absence of crashes and of stuck nodes. Every theorem is applied
  to the run of \<open>Raft_Run\<close>.
\<close>

section \<open>Lemmas\<close>

lemma applied_prefix:
  assumes "reachable ids cfg f sm0 c" "n \<in> ids"
  shows "c_applied c n = take (length (c_applied c n)) (log (c_node c n))"
    and "length (c_applied c n) \<le> last_applied (c_node c n)"
    and "last_applied (c_node c n) \<le> commit_index (c_node c n)"
    and "c_sm c n = run_entries f sm0 (c_applied c n)"
proof -
  obtain s where "exec_inv ids f sm0 c" by (rule reachable_inv [OF assms(1)])
  then have x: "exec_ok f sm0 (c_node c n) (c_sm c n) (c_applied c n)" using assms(2) by (simp add: exec_inv_def)
  let ?a = "c_applied c n"
  from x have eq: "?a @ map snd (apply_queue (c_node c n)) = take (last_applied (c_node c n)) (log (c_node c n))"
    by (simp add: exec_ok_def)
  from arg_cong [OF eq, of length] show le: "length ?a \<le> last_applied (c_node c n)" by simp
  from arg_cong [OF eq, of "take (length ?a)"] le show "?a = take (length ?a) (log (c_node c n))"
    by (simp add: min_absorb1)
  from x show "last_applied (c_node c n) \<le> commit_index (c_node c n)" "c_sm c n = run_entries f sm0 ?a"
    by (simp_all add: exec_ok_def)
qed

lemma applied_answer:
  assumes "reachable ids cfg f sm0 c" "n \<in> ids" "ref < length (waiters (c_node c n))"
    and w: "w_event (waiters (c_node c n) ! ref)" "\<forall>x. w_result (waiters (c_node c n) ! ref) \<noteq> RExn x"
  shows "\<exists>k < commit_index (c_node c n). k + 1 = w_index (waiters (c_node c n) ! ref) \<and> k < length (c_applied c n)
     \<and> c_applied c n ! k = log (c_node c n) ! k
     \<and> same_call (waiters (c_node c n) ! ref) (log (c_node c n) ! k)
     \<and> snd (run_apply f (log (c_node c n) ! k) (run_entries f sm0 (take k (log (c_node c n)))))
         = w_result (waiters (c_node c n) ! ref)"
proof -
  let ?ap = "c_applied c n" and ?w = "waiters (c_node c n) ! ref" and ?l = "log (c_node c n)"
  note p = applied_prefix [OF assms(1,2)]
  have "answer_ok f sm0 ?ap ?w"
    using reachable_client(1) [OF assms(1)] assms(2,3) by (simp add: client_inv_def waiters_ok_def)
  with w have a: "0 < w_index ?w" "w_index ?w \<le> length ?ap" "same_call ?w (?ap ! (w_index ?w - 1))"
    "snd (run_apply f (?ap ! (w_index ?w - 1)) (run_entries f sm0 (take (w_index ?w - 1) ?ap))) = w_result ?w"
    by (auto simp: answer_ok_def)
  let ?k = "w_index ?w - 1"
  have k: "?k < length ?ap" using a(1,2) by simp
  have "?ap ! ?k = ?l ! ?k" using p(1) k by (metis nth_take)
  moreover have "take ?k ?ap = take ?k ?l" using p(1) k by (metis min.absorb1 less_imp_le take_take)
  ultimately show ?thesis using a k p(2,3) by (intro exI [of _ ?k]) auto
qed

text \<open>
  The entry a returned call of \<open>append_entry\<close> was given the index of is the one it appended: the
  log of a term only grows at its leader, and a waiter answered with a result is one whose own term
  was found at its index.
\<close>

text \<open>The waiter of a call is still the one it created, unless the node crashed meanwhile.\<close>

definition own_waiter :: "'s cluster \<Rightarrow> nat \<Rightarrow> nat \<Rightarrow> nat \<Rightarrow> nat \<Rightarrow> bool" where
  "own_waiter c n ref i t \<longleftrightarrow> ref < length (waiters (c_node c n)) \<and> w_index (waiters (c_node c n) ! ref) = i
     \<and> w_term (waiters (c_node c n) ! ref) = t"

lemma own_entry:
  assumes "reachable ids cfg f sm0 c" "n \<in> ids"
    and "append_entry_begin op fn b cl sq (c_node c n) = Inr (nd, i, ref)"
    and "(cstep ids f sm0)\<^sup>*\<^sup>* (set_node n nd c) c'"
    and "ref < length (waiters (c_node c' n))" "w_index (waiters (c_node c' n) ! ref) = i"
      "w_term (waiters (c_node c' n) ! ref) = current_term (c_node c n)"
    and "snd (append_entry_end i ref (c_node c' n)) = Inr r"
  shows "0 < i" "i \<le> commit_index (c_node c' n)" "i \<le> length (c_applied c' n)"
    and "log (c_node c' n) ! (i - 1) = client_entry (current_term (c_node c n)) i op fn b cl sq"
    and "c_applied c' n ! (i - 1) = client_entry (current_term (c_node c n)) i op fn b cl sq"
    and "snd (run_apply f (client_entry (current_term (c_node c n)) i op fn b cl sq)
            (run_entries f sm0 (take (i - 1) (log (c_node c' n)))))
        = (case r of None \<Rightarrow> RNone | Some d \<Rightarrow> RDict d)"
    and "reachable ids cfg f sm0 c'" "(cstep ids f sm0)\<^sup>*\<^sup>* c c'"
proof -
  let ?w = "waiters (c_node c' n) ! ref" and ?l = "log (c_node c' n)" and ?t = "current_term (c_node c n)"
  let ?e = "client_entry ?t i op fn b cl sq"
  from assms(1) have cf: "cluster_config ids cfg" by (simp add: reachable_def)
  have st: "cstep ids f sm0 c (set_node n nd c)" by (rule cstep.client [OF assms(2,3)])
  show cc: "(cstep ids f sm0)\<^sup>*\<^sup>* c c'" by (rule converse_rtranclp_into_rtranclp [OF st assms(4)])
  then show R': "reachable ids cfg f sm0 c'" using assms(1) by (auto simp: reachable_def)
  have R1: "reachable ids cfg f sm0 (set_node n nd c)" using assms(1) st by (auto simp: reachable_def)
  obtain s where s: "sim ids cfg (set_node n nd c) s" "spec_inv (maj ids) s" by (rule reachable_sim [OF R1])
  have nd: "state nd = Leader" "current_term nd = ?t" "i = last_log_index (c_node c n) + 1"
    "log nd = log (c_node c n) @ [?e]"
    using assms(3) by (auto simp: append_entry_begin_def Let_def persist_log_def split: if_splits)
  obtain s0 where s0: "sim ids cfg c s0" "spec_inv (maj ids) s0" by (rule reachable_sim [OF assms(1)])
  have i: "i = length (log (c_node c n)) + 1" using nd(3) node_simD(9) [OF simD(1) [OF s0(1) assms(2)]] by simp
  have N: "node_sim ids cfg s (c_counted (set_node n nd c)) n nd"
    using simD(1) [OF s(1) assms(2)] by (simp add: set_node_def)
  note H = leader_history [OF s(2) N nd(1)]
  from sim_steps [OF cf assms(4) s] obtain s' where s': "(astep (maj ids))\<^sup>*\<^sup>* s s'" "spec_inv (maj ids) s'"
    "sim ids cfg c' s'" by blast
  note x = raft.extends_steps [OF s'(1) s(2)]
  have L: "a_ldr s ?t \<noteq> None" using H nd by simp
  have Lt: "take i (a_llog s' ?t) = log nd" using extends_take [OF x L] H(2) nd(2,4) i by simp
  from assms(8) have w: "w_event ?w" "\<forall>x. w_result ?w \<noteq> RExn x"
    by (auto simp: append_entry_end_def split: if_splits outcome.splits)
  from applied_answer [OF R' assms(2,5) w] obtain k where k: "k < commit_index (c_node c' n)" "k + 1 = i"
    "k < length (c_applied c' n)" "c_applied c' n ! k = ?l ! k" "same_call ?w (?l ! k)"
    "snd (run_apply f (?l ! k) (run_entries f sm0 (take k ?l))) = w_result ?w" using assms(6) by auto
  have kl: "k < length ?l" using arg_cong [OF applied_prefix(1) [OF R' assms(2)], of length] k(3)
    by (simp add: min_def split: if_splits)
  have tk: "e_term (?l ! k) = ?t" using k(5) assms(7) by (simp add: same_call_def)
  have "good_log s' ?l"
    using inv_logsD(1) [OF spec_invD(3) [OF s'(2)], of n] node_simD(4) [OF simD(1) [OF s'(3) assms(2)]] by simp
  then have "take (Suc k) ?l = take (Suc k) (a_llog s' ?t)" using kl tk by (auto simp: good_log_def)
  then have T: "take (Suc k) ?l = log nd" using Lt k(2) by simp
  have "?l ! k = take (Suc k) ?l ! k" by simp
  also have "\<dots> = ?e" unfolding T nd(4) using i k(2) by simp
  finally have e: "?l ! k = ?e" .
  have k': "i - 1 = k" using k(2) by simp
  show "0 < i" "i \<le> commit_index (c_node c' n)" "i \<le> length (c_applied c' n)" using k(1-3) by simp_all
  show "?l ! (i - 1) = ?e" "c_applied c' n ! (i - 1) = ?e" unfolding k' using e k(4) by simp_all
  have "w_result ?w = (case r of None \<Rightarrow> RNone | Some d \<Rightarrow> RDict d)" using assms(8) w(1)
    by (auto simp: append_entry_end_def split: outcome.splits)
  then show "snd (run_apply f ?e (run_entries f sm0 (take (i - 1) ?l))) = (case r of None \<Rightarrow> RNone | Some d \<Rightarrow> RDict d)"
    unfolding k' using k(6) e by simp
qed

lemma raft_prefix_forever:
  assumes "reachable ids cfg f sm0 c" "(cstep ids f sm0)\<^sup>*\<^sup>* c c'" "n \<in> ids" "m \<in> ids"
    and "j \<le> commit_index (c_node c n)" "j \<le> commit_index (c_node c' m)"
  shows "j \<le> length (log (c_node c n)) \<and> take j (log (c_node c n)) = take j (log (c_node c' m))"
proof -
  obtain s where s: "sim ids cfg c s" "spec_inv (maj ids) s" by (rule reachable_sim [OF assms(1)])
  from assms(1) have cf: "cluster_config ids cfg" by (simp add: reachable_def)
  obtain s' where s': "(astep (maj ids))\<^sup>*\<^sup>* s s'" "sim ids cfg c' s'"
    using sim_steps [OF cf assms(2) s] by blast
  note D = node_simD(4,5) [OF simD(1) [OF s(1) assms(3)]] node_simD(4,5) [OF simD(1) [OF s'(2) assms(4)]]
  have "commit_index (c_node c n) \<le> length (log (c_node c n))"
    using inv_commitD(1) [OF spec_invD(6) [OF s(2)], of n] D by simp
  with raft.committed_forever [OF s(2) s'(1), of j n m] assms(5,6) D show ?thesis by simp
qed

text \<open>What was committed anywhere when a returned call began comes before its entry.\<close>

lemma commit_before_barrier:
  assumes "reachable ids cfg f sm0 c0" "m \<in> ids" "(cstep ids f sm0)\<^sup>*\<^sup>* c0 c" "n \<in> ids"
    and "append_entry_begin op fn b cl sq (c_node c n) = Inr (nd, i, ref)"
    and "(cstep ids f sm0)\<^sup>*\<^sup>* (set_node n nd c) c'"
    and "ref < length (waiters (c_node c' n))" "w_index (waiters (c_node c' n) ! ref) = i"
      "w_term (waiters (c_node c' n) ! ref) = current_term (c_node c n)"
    and "snd (append_entry_end i ref (c_node c' n)) = Inr r"
  shows "commit_index (c_node c0 m) < i \<and> i \<le> length (c_applied c' n)
    \<and> take (commit_index (c_node c0 m)) (c_applied c' n) = take (commit_index (c_node c0 m)) (log (c_node c0 m))"
proof -
  let ?j = "commit_index (c_node c0 m)" and ?l = "log (c_node c' n)" and ?t = "current_term (c_node c n)"
  have R: "reachable ids cfg f sm0 c" using assms(1,3) by (auto simp: reachable_def)
  from assms(1) have cf: "cluster_config ids cfg" by (simp add: reachable_def)
  note own = own_entry [OF R assms(4-)]
  obtain s0 where s0: "sim ids cfg c0 s0" "spec_inv (maj ids) s0" by (rule reachable_sim [OF assms(1)])
  from sim_steps [OF cf assms(3) s0] obtain s where s: "sim ids cfg c s" "spec_inv (maj ids) s"
    and x: "extends s0 s" using raft.extends_steps [OF _ s0(2)] by blast
  note N = simD(1) [OF s(1) assms(4)] and M = simD(1) [OF s0(1) assms(2)]
  have ld: "state (c_node c n) = Leader" and i: "i = length (log (c_node c n)) + 1"
    using assms(5) node_simD(9) [OF N] by (auto simp: append_entry_begin_def Let_def split: if_splits)
  note forever = raft_prefix_forever [OF assms(1) rtranclp_trans [OF assms(3) own(8)] assms(2,4)]
  have lt: "?j < i"
  proof (rule ccontr)
    let ?k = "i - 1"
    assume "\<not> ?j < i"
    then have "i \<le> ?j" by simp
    with forever [of i] own(2) have t: "i \<le> length (log (c_node c0 m))" "take i (log (c_node c0 m)) = take i ?l" by auto
    then have "log (c_node c0 m) ! ?k = ?l ! ?k" using own(1) by (intro take_eq_nth [OF t(2)]) auto
    then have tk: "e_term (log (c_node c0 m) ! ?k) = ?t" using own(4) by (simp add: client_entry_def)
    have "good_log s0 (log (c_node c0 m))"
      using inv_logsD(1) [OF spec_invD(3) [OF s0(2)], of m] node_simD(4) [OF M] by simp
    then have h: "a_ldr s0 ?t \<noteq> None" "take (Suc ?k) (log (c_node c0 m)) = take (Suc ?k) (a_llog s0 ?t)"
      using spec [of _ ?k] t(1) own(1) tk unfolding good_log_def by (metis Suc_pred' less_eq_Suc_le)+
    from take_eq_length [OF h(2)] t(1) own(1) have "i \<le> length (a_llog s0 ?t)" by simp
    also have "\<dots> \<le> length (a_llog s ?t)" by (rule extends_length [OF x h(1)])
    finally have "i \<le> length (a_llog s ?t)" .
    with leader_history(2) [OF s(2) N ld] i show False by simp
  qed
  then have "?j \<le> commit_index (c_node c' n)" using own(2) by simp
  with forever [of ?j] have "take ?j (log (c_node c0 m)) = take ?j ?l" by simp
  moreover have "c_applied c' n = take (length (c_applied c' n)) ?l" by (rule applied_prefix [OF own(7) assms(4)])
  from arg_cong [OF this, of "take ?j"] lt own(3) have "take ?j (c_applied c' n) = take ?j ?l"
    by (simp add: min_absorb1)
  ultimately show ?thesis using lt own(3) by simp
qed

section \<open>Refinement\<close>

text \<open>
  C6. The detailed model refines the abstract protocol: whatever the code's nodes do, some run of
  the protocol has the same term, vote, role, log and commit index at every node.
\<close>

theorem raft_refines_protocol:
  assumes "reachable ids cfg f sm0 c"
  shows "\<exists>s. (astep (maj ids))\<^sup>*\<^sup>* a_init s \<and> (\<forall>n\<in>ids.
           a_term s n = current_term (c_node c n) \<and> a_vote s n = voted_for (c_node c n)
         \<and> a_role s n = state (c_node c n) \<and> a_log s n = log (c_node c n)
         \<and> a_commit s n = commit_index (c_node c n))"
proof -
  from assms have cf: "cluster_config ids cfg" and st: "(cstep ids f sm0)\<^sup>*\<^sup>* (c_init cfg sm0) c"
    by (simp_all add: reachable_def)
  from sim_steps [OF cf st sim_init spec_inv_init]
  obtain s where "(astep (maj ids))\<^sup>*\<^sup>* a_init s" "sim ids cfg c s" by blast
  moreover have "\<forall>n\<in>ids. a_term s n = current_term (c_node c n) \<and> a_vote s n = voted_for (c_node c n)
         \<and> a_role s n = state (c_node c n) \<and> a_log s n = log (c_node c n)
         \<and> a_commit s n = commit_index (c_node c n)"
    using node_simD(1-5) [OF simD(1) [OF \<open>sim ids cfg c s\<close>]] by simp
  ultimately show ?thesis by blast
qed

theorem raft_refines_protocol_witness:
  "\<exists>s. (astep (maj demo_ids))\<^sup>*\<^sup>* a_init s \<and> a_role s 0 = Leader \<and> a_commit s 0 = 2 \<and> a_log s 1 = demo_entries"
  using raft_refines_protocol [OF demo_reachable(2)] nodes_9 by (force simp: demo_ids_def)

section \<open>Safety\<close>

text \<open>C2. Election safety: no two nodes lead in the same term.\<close>

theorem raft_election_safety:
  assumes "reachable ids cfg f sm0 c" "n \<in> ids" "m \<in> ids"
    and "state (c_node c n) = Leader" "state (c_node c m) = Leader"
    and "current_term (c_node c n) = current_term (c_node c m)"
  shows "n = m"
proof -
  obtain s where s: "sim ids cfg c s" "spec_inv (maj ids) s" by (rule reachable_sim [OF assms(1)])
  show ?thesis
    by (rule raft.election_safety [OF s(2)])
      (use assms(4-6) node_simD(1,3) [OF simD(1) [OF s(1) assms(2)]]
        node_simD(1,3) [OF simD(1) [OF s(1) assms(3)]] in simp_all)
qed

theorem raft_election_safety_witness:
  "{m \<in> demo_ids. state (c_node demo_9 m) = Leader \<and> current_term (c_node demo_9 m) = 1} = {0}"
proof -
  have z: "0 \<in> demo_ids" "state (c_node demo_9 0) = Leader" "current_term (c_node demo_9 0) = 1"
    by (simp_all add: demo_ids_def nodes_9)
  have "m = 0" if "m \<in> demo_ids" "state (c_node demo_9 m) = Leader" "current_term (c_node demo_9 m) = 1" for m
    by (rule raft_election_safety [OF demo_reachable(2) that(1) z(1) that(2) z(2)]) (simp only: that(3) z(3))
  with z show ?thesis by blast
qed

text \<open>
  C7. Log matching: two logs whose entries at one position have the same term are the same up to
  that position, and the entry's own index is that position.
\<close>

theorem raft_log_matching:
  assumes "reachable ids cfg f sm0 c" "n \<in> ids" "m \<in> ids"
    and "k < length (log (c_node c n))" "k < length (log (c_node c m))"
    and "e_term (log (c_node c n) ! k) = e_term (log (c_node c m) ! k)"
  shows "take (Suc k) (log (c_node c n)) = take (Suc k) (log (c_node c m))
    \<and> e_index (log (c_node c n) ! k) = k + 1"
proof -
  obtain s where s: "sim ids cfg c s" "spec_inv (maj ids) s" by (rule reachable_sim [OF assms(1)])
  note D = node_simD(4,9) [OF simD(1) [OF s(1) assms(2)]] node_simD(4) [OF simD(1) [OF s(1) assms(3)]]
  from raft.log_matching [OF s(2), of k n m] assms(4-6) D show ?thesis by (simp add: idx_ok_def)
qed

theorem raft_log_matching_witness:
  "take 2 (log (c_node demo_9 0)) = take 2 (log (c_node demo_9 1)) \<and> e_index (log (c_node demo_9 0) ! 1) = 2"
  using raft_log_matching [OF demo_reachable(2), of 0 1 1]
  by (simp add: demo_ids_def nodes_9 trace_entries_def numeral_2_eq_2 [symmetric] del: One_nat_def)

text \<open>
  Leader completeness: the leader of a term holds every entry that any node of this or an
  earlier term has committed.
\<close>

lemma raft_leader_completeness:
  assumes "reachable ids cfg f sm0 c" "n \<in> ids" "l \<in> ids"
    and "state (c_node c l) = Leader" "current_term (c_node c n) \<le> current_term (c_node c l)"
  shows "commit_index (c_node c n) \<le> length (log (c_node c l))
    \<and> take (commit_index (c_node c n)) (log (c_node c l)) = take (commit_index (c_node c n)) (log (c_node c n))"
proof -
  obtain s where s: "sim ids cfg c s" "spec_inv (maj ids) s" by (rule reachable_sim [OF assms(1)])
  note D = node_simD(1,3,4,5) [OF simD(1) [OF s(1) assms(2)]] node_simD(1,3,4,5) [OF simD(1) [OF s(1) assms(3)]]
  from raft.leader_has_committed [OF s(2), of l n] assms(4,5) D show ?thesis by simp
qed

text \<open>
  C1. A committed entry is never lost or replaced: what any node has committed at one time, every
  node that commits as far at any later time has committed too.
\<close>

theorem raft_committed_forever:
  assumes "reachable ids cfg f sm0 c" "(cstep ids f sm0)\<^sup>*\<^sup>* c c'" "n \<in> ids" "m \<in> ids"
    and "j \<le> commit_index (c_node c n)" "j \<le> commit_index (c_node c' m)"
  shows "j \<le> length (log (c_node c n)) \<and> take j (log (c_node c n)) = take j (log (c_node c' m))"
  using assms by (rule raft_prefix_forever)

theorem raft_committed_forever_witness:
  "take 2 (log (c_node demo_9 0)) = take 2 (log (c_node demo_13 1)) \<and> commit_index (c_node demo_13 1) = 2"
proof -
  have c: "commit_index (c_node demo_13 1) = 2"
    by (simp add: nodes_13 del: One_nat_def)
  with raft_committed_forever [OF demo_reachable(2) steps_to_13(2), of 0 1 2] show ?thesis
    by (simp add: demo_ids_def nodes_9 del: One_nat_def)
qed

section \<open>Replicated state machines\<close>

text \<open>
  C3. State machine safety: what a node has applied since it started is a prefix of its committed
  log, its state machine is the result of applying exactly that, and of any two nodes one has
  applied a prefix of what the other has; so nodes that applied equally many entries are in the
  same state.
\<close>

theorem raft_replicas_agree:
  assumes "reachable ids cfg f sm0 c" "n \<in> ids" "m \<in> ids"
    and "length (c_applied c n) \<le> length (c_applied c m)"
  shows "c_applied c n = take (length (c_applied c n)) (c_applied c m)
    \<and> c_applied c n = take (length (c_applied c n)) (log (c_node c n))
    \<and> length (c_applied c n) \<le> commit_index (c_node c n)
    \<and> c_sm c n = run_entries f sm0 (c_applied c n)
    \<and> (length (c_applied c n) = length (c_applied c m) \<longrightarrow> c_sm c n = c_sm c m)"
proof -
  obtain s where s: "sim ids cfg c s" "spec_inv (maj ids) s" by (rule reachable_sim [OF assms(1)])
  let ?k = "length (c_applied c n)"
  note D = node_simD(4,5) [OF simD(1) [OF s(1) assms(2)]] and E = node_simD(4,5) [OF simD(1) [OF s(1) assms(3)]]
  note p = applied_prefix [OF assms(1,2)] and q = applied_prefix [OF assms(1,3)]
  have "take ?k (a_log s n) = take ?k (a_log s m)"
    by (rule raft.state_machine_safety [OF s(2)]) (use p(2,3) q(2,3) assms(4) D E in auto)
  then have "c_applied c n = take ?k (log (c_node c m))" using p(1) D E by simp
  also have "\<dots> = take ?k (take (length (c_applied c m)) (log (c_node c m)))" using assms(4) by (simp add: min_absorb1)
  also have "\<dots> = take ?k (c_applied c m)" using q(1) by simp
  finally have t: "c_applied c n = take ?k (c_applied c m)" .
  then have "length (c_applied c n) = length (c_applied c m) \<Longrightarrow> c_applied c n = c_applied c m" by simp
  then show ?thesis using t p q(4) by auto
qed

theorem raft_replicas_agree_witness:
  "c_applied demo_13 1 = take 1 (c_applied demo_13 0) \<and> c_sm demo_13 0 = run_entries demo_apply [] demo_entries"
proof
  have "length (c_applied demo_13 1) \<le> length (c_applied demo_13 0)" by (simp add: nodes_13 del: One_nat_def)
  with raft_replicas_agree [OF demo_reachable(3), of 1 0]
  have "c_applied demo_13 1 = take (length (c_applied demo_13 1)) (c_applied demo_13 0)" by (simp add: demo_ids_def)
  moreover have "length (c_applied demo_13 1) = 1" by (simp add: nodes_13 del: One_nat_def)
  ultimately show "c_applied demo_13 1 = take 1 (c_applied demo_13 0)" by metis
  have "c_sm demo_13 0 = run_entries demo_apply [] (c_applied demo_13 0)"
    using raft_replicas_agree [OF demo_reachable(3), of 0 0] by (simp add: demo_ids_def)
  then show "c_sm demo_13 0 = run_entries demo_apply [] demo_entries"
    by (simp only: nodes_13(3)) (simp add: trace_entries_def)
qed

text \<open>
  C4. An acknowledged write is committed: when a call of \<open>append_entry\<close> returns normally to its
  caller, the entry at the index it was given is the caller's own, field by field, it is committed
  and applied on this node, and the result is what applying it after the entries before it
  returned. Once committed it stays in every log that commits as far.
\<close>

theorem raft_acknowledged_is_committed:
  assumes "reachable ids cfg f sm0 c" "n \<in> ids"
    and "append_entry_begin op fn b cl sq (c_node c n) = Inr (nd, i, ref)"
    and "(cstep ids f sm0)\<^sup>*\<^sup>* (set_node n nd c) c'"
    and "ref < length (waiters (c_node c' n))" "w_index (waiters (c_node c' n) ! ref) = i"
      "w_term (waiters (c_node c' n) ! ref) = current_term (c_node c n)"
    and "snd (append_entry_end i ref (c_node c' n)) = Inr r"
  shows "0 < i \<and> i \<le> commit_index (c_node c' n) \<and> i \<le> length (c_applied c' n)
    \<and> log (c_node c' n) ! (i - 1) = client_entry (current_term (c_node c n)) i op fn b cl sq
    \<and> c_applied c' n ! (i - 1) = client_entry (current_term (c_node c n)) i op fn b cl sq
    \<and> snd (run_apply f (client_entry (current_term (c_node c n)) i op fn b cl sq)
            (run_entries f sm0 (take (i - 1) (log (c_node c' n)))))
        = (case r of None \<Rightarrow> RNone | Some d \<Rightarrow> RDict d)"
  using own_entry [OF assms] by auto

theorem raft_acknowledged_is_committed_witness:
  "log (c_node demo_13 0) ! 1 = client_entry 1 2 ''put'' ''x'' ''v'' ''c'' 1
   \<and> 2 \<le> commit_index (c_node demo_13 0)"
proof -
  have n: "0 \<in> demo_ids" by (simp add: demo_ids_def)
  have d: "set_node 0 (fst (projr (append_entry_begin ''put'' ''x'' ''v'' ''c'' 1 (c_node demo_5 0)))) demo_5 = demo_6"
    by (simp add: trace_6_def begin_6)
  have st: "demo_step\<^sup>*\<^sup>* (set_node 0 (fst (projr (append_entry_begin ''put'' ''x'' ''v'' ''c'' 1 (c_node demo_5 0)))) demo_5) demo_13"
    unfolding d using steps_from_6 steps_to_13(2) by (rule rtranclp_trans)
  have b: "append_entry_begin ''put'' ''x'' ''v'' ''c'' 1 (c_node demo_5 0) =
      Inr (fst (projr (append_entry_begin ''put'' ''x'' ''v'' ''c'' 1 (c_node demo_5 0))), 2, 0)"
    by (simp add: begin_6)
  have w: "0 < length (waiters (c_node demo_13 0))" "w_index (waiters (c_node demo_13 0) ! 0) = 2"
    "w_term (waiters (c_node demo_13 0) ! 0) = current_term (c_node demo_5 0)"
    "snd (append_entry_end 2 0 (c_node demo_13 0)) = Inr (Some [])"
    by (simp_all add: nodes_13 nodes_5 append_entry_end_def)
  have t: "current_term (c_node demo_5 0) = 1" by (simp add: nodes_5)
  from raft_acknowledged_is_committed [OF demo_reachable(1) n b st w] show ?thesis unfolding t by simp
qed

text \<open>
  C5. The read barrier: a leader appends an entry, and later the call of \<open>append_entry\<close> returns
  without an exception. Then everything that any node had committed at any time up to the append
  comes before it in the committed log and has been applied on this node. A read of the state
  machine after a committed no-op therefore sees every write acknowledged before the read began.
\<close>

theorem raft_read_barrier:
  assumes "reachable ids cfg f sm0 c0" "m \<in> ids" "(cstep ids f sm0)\<^sup>*\<^sup>* c0 c" "n \<in> ids"
    and "append_entry_begin op fn b cl sq (c_node c n) = Inr (nd, i, ref)"
    and "(cstep ids f sm0)\<^sup>*\<^sup>* (set_node n nd c) c'"
    and "ref < length (waiters (c_node c' n))" "w_index (waiters (c_node c' n) ! ref) = i"
      "w_term (waiters (c_node c' n) ! ref) = current_term (c_node c n)"
    and "snd (append_entry_end i ref (c_node c' n)) = Inr r"
  shows "commit_index (c_node c0 m) < i \<and> i \<le> length (c_applied c' n)
    \<and> take (commit_index (c_node c0 m)) (c_applied c' n) = take (commit_index (c_node c0 m)) (log (c_node c0 m))"
  using commit_before_barrier [OF assms] by simp

theorem raft_read_barrier_witness:
  "commit_index (c_node demo_5 1) < 2 \<and> 2 \<le> length (c_applied demo_13 0)"
proof -
  have n: "0 \<in> demo_ids" "1 \<in> demo_ids" by (simp_all add: demo_ids_def)
  have d: "set_node 0 (fst (projr (append_entry_begin ''put'' ''x'' ''v'' ''c'' 1 (c_node demo_5 0)))) demo_5 = demo_6"
    by (simp add: trace_6_def begin_6)
  have st: "demo_step\<^sup>*\<^sup>* (set_node 0 (fst (projr (append_entry_begin ''put'' ''x'' ''v'' ''c'' 1 (c_node demo_5 0)))) demo_5) demo_13"
    unfolding d using steps_from_6 steps_to_13(2) by (rule rtranclp_trans)
  have b: "append_entry_begin ''put'' ''x'' ''v'' ''c'' 1 (c_node demo_5 0) =
      Inr (fst (projr (append_entry_begin ''put'' ''x'' ''v'' ''c'' 1 (c_node demo_5 0))), 2, 0)"
    by (simp add: begin_6)
  have w: "0 < length (waiters (c_node demo_13 0))" "w_index (waiters (c_node demo_13 0) ! 0) = 2"
    "w_term (waiters (c_node demo_13 0) ! 0) = current_term (c_node demo_5 0)"
    "snd (append_entry_end 2 0 (c_node demo_13 0)) = Inr (Some [])"
    by (simp_all add: nodes_13 nodes_5 append_entry_end_def)
  from raft_read_barrier [OF demo_reachable(1) n(2) rtranclp.rtrancl_refl n(1) b st w] show ?thesis by blast
qed

section \<open>Crashes and restarts\<close>

text \<open>
  A restart loses nothing the protocol needs: the term, the vote and the log a node comes back
  with are the ones it had, read from its two files.
\<close>

lemma raft_restart_keeps_state:
  assumes "reachable ids cfg f sm0 c" "n \<in> ids"
  shows "current_term (c_node (c_restart sm0 n c) n) = current_term (c_node c n)
    \<and> voted_for (c_node (c_restart sm0 n c) n) = voted_for (c_node c n)
    \<and> log (c_node (c_restart sm0 n c) n) = log (c_node c n)
    \<and> state (c_node (c_restart sm0 n c) n) = Follower \<and> election_timer (c_node (c_restart sm0 n c) n)"
proof -
  obtain s where s: "sim ids cfg c s" by (rule reachable_sim [OF assms(1)])
  from durable_restart [OF node_simD(8) [OF simD(1) [OF s assms(2)]]] show ?thesis
    by (simp add: c_restart_def Let_def set_node_def)
qed

text \<open>
  C8. No index error: in a reachable cluster the append handler answers every request, and a
  leader can always build the request for a peer; neither reads the log out of range, although
  the code indexes it with the numbers peers send.
\<close>

theorem raft_no_index_error:
  assumes "reachable ids cfg f sm0 c"
  shows "((n, a) \<in> c_ae c \<longrightarrow> (\<exists>r. snd (handle_append_entries a (c_node c n)) = Inr r))
    \<and> (l \<in> ids \<longrightarrow> p \<in> ids \<longrightarrow> (\<exists>m. append_entries_msg (c_node c l) p = Inr m))"
proof -
  obtain s where s: "sim ids cfg c s" "spec_inv (maj ids) s" by (rule reachable_sim [OF assms])
  have C: "finite ids" by (rule reachable_finite [OF assms])
  have "\<exists>r. snd (handle_append_entries a (c_node c n)) = Inr r" if "(n, a) \<in> c_ae c"
    using sim_recv_append [OF C s that] by (metis prod.collapse)
  moreover have "\<exists>m. append_entries_msg (c_node c l) p = Inr m" if l: "l \<in> ids" and p: "p \<in> ids"
  proof (cases "state (c_node c l) = Leader")
    case True
    have "k \<le> length (log (c_node c l)) + 1" if "dget (next_index (c_node c l)) p = Some k" for k
      using node_simD(13) [OF simD(1) [OF s(1) l] True] p that by (simp add: match_ok_def)
    then have "dget_or (next_index (c_node c l)) p 1 - 1 \<le> length (log (c_node c l))"
      by (cases "dget (next_index (c_node c l)) p") (fastforce simp: dget_or_def)+
    then show ?thesis by (simp add: append_entries_msg_def Let_def)
  qed (simp add: append_entries_msg_def)
  ultimately show ?thesis by blast
qed

theorem raft_no_index_error_witness:
  "(\<exists>r. snd (handle_append_entries demo_ae (c_node demo_13 1)) = Inr r)
   \<and> (\<exists>m. append_entries_msg (c_node demo_13 0) 2 = Inr m)"
proof -
  have "(1, demo_ae) \<in> c_ae demo_13"
    by (simp add: demo_13_def c_apply_def trace_12_def trace_11_def trace_10_def trace_9_def trace_8_def trace_7_def
        set_node_def split: prod.split)
  then show ?thesis
    using raft_no_index_error [OF demo_reachable(3), of 1 demo_ae 0 2] by (simp add: demo_ids_def)
qed

text \<open>
  Nobody is stuck: at every moment a follower's election timer is armed, a candidate's
  election is being counted or its timer is armed, and a leader has a heartbeat thread.
\<close>

lemma raft_never_stuck:
  assumes "reachable ids cfg f sm0 c" "n \<in> ids"
  shows "case state (c_node c n) of
           Follower \<Rightarrow> election_timer (c_node c n)
         | Candidate \<Rightarrow> election_timer (c_node c n) \<or> dget (ballots (c_node c n)) (current_term (c_node c n)) \<noteq> None
         | Leader \<Rightarrow> 0 < hb_threads (c_node c n)"
  using reachable_client(2) [OF assms(1)] assms(2) by (auto simp: live_ok_def split: role.split)

section \<open>Losing leadership\<close>

text \<open>
  A node that stops leading tells no pending caller that it succeeded: after
  \<open>_become_follower\<close> no waiter is pending, and every waiter that was pending has been woken with
  an exception, whatever was appended in its slot.
\<close>

lemma raft_step_down_fails_waiters:
  assumes "reachable ids cfg f sm0 c" "n \<in> ids" "dget (commit_waiters (c_node c n)) i = Some ref"
  shows "commit_waiters (become_follower t (c_node c n)) = []
    \<and> snd (append_entry_end i ref (become_follower t (c_node c n))) = Inl (NotLeaderError None None)"
proof -
  let ?nd = "c_node c n"
  have w: "waiters_ok f sm0 (c_applied c n) ?nd"
    using reachable_client(1) [OF assms(1)] assms(2) by (simp add: client_inv_def)
  have v: "ref \<in> set (dvalues (commit_waiters ?nd))" using dget_in_set [OF assms(3)] by (force simp: dvalues_def)
  with w have r: "ref < length (waiters ?nd)" "w_result (waiters ?nd ! ref) = RNone" by (auto simp: waiters_ok_def)
  have "waiters (become_follower t ?nd) ! ref = fail_waiter (NotLeaderError None None) (waiters ?nd ! ref)"
    using fail_all_waiters_fields(3) [of ref "reset_election_timer (persist_hard_state
      (?nd\<lparr>state := Follower, current_term := t, voted_for := None\<rparr>))"] r(1) v
    by (simp add: become_follower_def reset_election_timer_def persist_hard_state_def)
  then show ?thesis using r(2) by (simp add: append_entry_end_def fail_waiter_def)
qed

section \<open>Log repair\<close>

text \<open>
  The conflict hint of a rejecting follower is the first index of its run of entries of the
  conflicting term: everything from there to the mismatch has that term and the entry before it
  does not, so the leader may skip the whole term.
\<close>

lemma raft_conflict_hint:
  assumes "0 < p" "p \<le> length l" "e_term (l ! (p - 1)) = t"
  shows "0 < conflict_start l t p \<and> conflict_start l t p \<le> p
    \<and> (\<forall>k. conflict_start l t p - 1 \<le> k \<and> k < p \<longrightarrow> e_term (l ! k) = t)
    \<and> (conflict_start l t p = 1 \<or> e_term (l ! (conflict_start l t p - 2)) \<noteq> t)"
  using conflict_start_bounds [OF assms(1), of l t] conflict_start_run [OF assms] by blast

end
