(* ===== verification/Kv_Machine.thy ===== *)
theory Kv_Machine
  imports Raft_Node
begin

text \<open>
  The key-value state machine of \<open>part2_3_replication/kv_state_machine.py\<close>: the store, the
  tombstones that keep a deleted key's last version, and the client session table, ordered from
  least to most recently active. \<open>apply_kv\<close> is \<open>KVStateMachine.apply\<close>; exceptions (a malformed
  compare-and-swap command or snapshot) are values.

  Results are the dicts the code returns; versions and sequence numbers are Python integers.
\<close>

section \<open>State\<close>

type_synonym result = "(string, pyval) dict"

record kv_cell =
  c_value :: bytes
  c_version :: int

record session =
  se_seq :: int
  se_result :: result

record kv =
  store :: "(string, kv_cell) dict"
  tombstones :: "(string, int) dict"
  sessions :: "(string, session) dict"
  max_sessions :: nat

definition kv_init :: "nat \<Rightarrow> kv" where
  "kv_init m = \<lparr>store = [], tombstones = [], sessions = [], max_sessions = m\<rparr>"

definition MAX_SESSIONS :: nat where
  "MAX_SESSIONS = 10000"

section \<open>Writing\<close>

definition write_kv :: "string \<Rightarrow> bytes \<Rightarrow> kv \<Rightarrow> kv \<times> int" where
  "write_kv key value m =
     (case dget (store m) key of
        Some cur \<Rightarrow>
          (let version = c_version cur + 1
           in (m\<lparr>store := dset (store m) key \<lparr>c_value = value, c_version = version\<rparr>\<rparr>, version))
      | None \<Rightarrow>
          (let version = dget_or (tombstones m) key 0 + 1
           in (m\<lparr>tombstones := dpop (tombstones m) key,
                 store := dset (store m) key \<lparr>c_value = value, c_version = version\<rparr>\<rparr>, version)))"

section \<open>Compare-and-swap commands\<close>

text \<open>Python's truth value of a parsed JSON value.\<close>

definition truthy :: "json \<Rightarrow> bool" where
  "truthy j = (case j of JNull \<Rightarrow> False | JBool b \<Rightarrow> b | JInt i \<Rightarrow> i \<noteq> 0 | JStr s \<Rightarrow> s \<noteq> []
                       | JArr xs \<Rightarrow> xs \<noteq> [] | JObj ps \<Rightarrow> ps \<noteq> [])"

text \<open>\<open>base64.b64decode(spec.get(k, "") or "")\<close>\<close>

definition cas_bytes :: "(string \<times> json) list \<Rightarrow> string \<Rightarrow> exn + bytes" where
  "cas_bytes spec k =
     (case jget spec k of
        None \<Rightarrow> Inr []
      | Some j \<Rightarrow>
          if \<not> truthy j then Inr []
          else (case j of
                  JStr s \<Rightarrow> (case b64decode s of None \<Rightarrow> Inl (ValueError ''Invalid base64-encoded string'')
                                               | Some b \<Rightarrow> Inr b)
                | _ \<Rightarrow> Inl TypeError))"

record cas_spec =
  cs_absent :: bool
  cs_version :: json
  cs_expected :: bytes
  cs_new :: bytes

definition parse_cas :: "bytes \<Rightarrow> exn + cas_spec" where
  "parse_cas d =
     (case utf8_decode d of
        None \<Rightarrow> Inl (ValueError ''utf-8'')
      | Some s \<Rightarrow>
          (case loads s of
             None \<Rightarrow> Inl (ValueError ''Expecting value'')
           | Some (JObj spec) \<Rightarrow>
               (case cas_bytes spec ''expected'' of
                  Inl x \<Rightarrow> Inl x
                | Inr e \<Rightarrow>
                    (case cas_bytes spec ''new'' of
                       Inl x \<Rightarrow> Inl x
                     | Inr n \<Rightarrow>
                         Inr \<lparr>cs_absent = (case jget spec ''expect_absent'' of None \<Rightarrow> False | Some j \<Rightarrow> truthy j),
                              cs_version = (case jget spec ''expected_version'' of None \<Rightarrow> JInt 0 | Some j \<Rightarrow> j),
                              cs_expected = e, cs_new = n\<rparr>))
           | Some _ \<Rightarrow> Inl (PyException ''object has no attribute get'')))"

text \<open>\<open>expected_version\<close> as the number it is compared as; comparing other types raises.\<close>

definition json_num :: "json \<Rightarrow> int option" where
  "json_num j = (case j of JInt i \<Rightarrow> Some i | JBool b \<Rightarrow> Some (if b then 1 else 0) | _ \<Rightarrow> None)"

definition cas_condition :: "cas_spec \<Rightarrow> kv_cell option \<Rightarrow> exn + bool" where
  "cas_condition c cur =
     (if cs_absent c then Inr (cur = None)
      else (case json_num (cs_version c) of
              None \<Rightarrow> Inl TypeError
            | Some v \<Rightarrow>
                if v > 0 then Inr (case cur of None \<Rightarrow> False | Some x \<Rightarrow> c_version x = v)
                else Inr (case cur of None \<Rightarrow> False | Some x \<Rightarrow> c_value x = cs_expected c)))"

definition swap_result :: "bool \<Rightarrow> bytes \<Rightarrow> int \<Rightarrow> result" where
  "swap_result swapped cur v = [(''success'', PBool True), (''swapped'', PBool swapped),
                                (''current'', PBytes cur), (''version'', PInt v)]"

definition apply_cas :: "string \<Rightarrow> bytes \<Rightarrow> kv \<Rightarrow> kv \<times> (exn + result)" where
  "apply_cas key d m =
     (case parse_cas d of
        Inl x \<Rightarrow> (m, Inl x)
      | Inr c \<Rightarrow>
          (let cur = dget (store m) key in
           (case cas_condition c cur of
              Inl x \<Rightarrow> (m, Inl x)
            | Inr True \<Rightarrow> (let (m', v) = write_kv key (cs_new c) m in (m', Inr (swap_result True (cs_new c) v)))
            | Inr False \<Rightarrow> (m, Inr (swap_result False (case cur of None \<Rightarrow> [] | Some x \<Rightarrow> c_value x)
                                    (case cur of None \<Rightarrow> 0 | Some x \<Rightarrow> c_version x))))))"

section \<open>Applying one operation\<close>

definition apply_put :: "string \<Rightarrow> bytes \<Rightarrow> kv \<Rightarrow> kv \<times> result" where
  "apply_put key d m = (let (m', v) = write_kv key d m in (m', [(''success'', PBool True), (''version'', PInt v)]))"

definition apply_delete :: "string \<Rightarrow> kv \<Rightarrow> kv \<times> result" where
  "apply_delete key m =
     (case dget (store m) key of
        None \<Rightarrow> (m, [(''success'', PBool True), (''existed'', PBool False)])
      | Some cur \<Rightarrow> (m\<lparr>store := dpop (store m) key, tombstones := dset (tombstones m) key (c_version cur)\<rparr>,
                     [(''success'', PBool True), (''existed'', PBool True)]))"

definition apply_op :: "log_entry \<Rightarrow> kv \<Rightarrow> kv \<times> (exn + result)" where
  "apply_op e m =
     (if op_type e = ''put'' then (let (m', r) = apply_put (filename e) (data e) m in (m', Inr r))
      else if op_type e = ''delete'' then (let (m', r) = apply_delete (filename e) m in (m', Inr r))
      else if op_type e = ''cas'' then apply_cas (filename e) (data e) m
      else (m, Inr [(''success'', PBool True)]))"

section \<open>Client sessions\<close>

definition session_result :: "string \<Rightarrow> int \<Rightarrow> kv \<Rightarrow> result option" where
  "session_result cid seq m =
     (case dget (sessions m) cid of
        None \<Rightarrow> None
      | Some s \<Rightarrow>
          if seq > se_seq s then None
          else if seq = se_seq s then Some (se_result s)
          else Some [(''success'', PBool True), (''stale'', PBool True)])"

text \<open>The eviction loop: \<open>popitem(last=False)\<close> drops the least recently active session.\<close>

function evict :: "nat \<Rightarrow> (string, session) dict \<Rightarrow> (string, session) dict" where
  "evict n d = (if length d > n then evict n (tl d) else d)"
  by auto
termination
  by (relation "measure (\<lambda>(n, d). length d)") auto

definition remember :: "string \<Rightarrow> int \<Rightarrow> result \<Rightarrow> kv \<Rightarrow> kv" where
  "remember cid seq r m =
     m\<lparr>sessions := evict (max_sessions m)
        (dmove_to_end (dset (sessions m) cid \<lparr>se_seq = seq, se_result = r\<rparr>) cid)\<rparr>"

definition lookup_session :: "string \<Rightarrow> int \<Rightarrow> kv \<Rightarrow> result option" where
  "lookup_session cid seq m = (if cid = [] \<or> seq \<le> 0 then None else session_result cid seq m)"

definition kv_get :: "string \<Rightarrow> kv \<Rightarrow> bytes option \<times> int \<times> bool" where
  "kv_get key m = (case dget (store m) key of None \<Rightarrow> (None, 0, False)
                                            | Some c \<Rightarrow> (Some (c_value c), c_version c, True))"

section \<open>Snapshots\<close>

definition encode_pyval :: "pyval \<Rightarrow> json" where
  "encode_pyval v = (case v of PNone \<Rightarrow> JNull | PBool b \<Rightarrow> JBool b | PInt i \<Rightarrow> JInt i | PStr s \<Rightarrow> JStr s
                             | PBytes b \<Rightarrow> JObj [(''b64'', JStr (b64encode b))])"

definition encode_result :: "result \<Rightarrow> json" where
  "encode_result r = JObj (map (\<lambda>(k, v). (k, encode_pyval v)) r)"

text \<open>
  \<open>_decode_result\<close>. A list, or an object without \<open>b64\<close>, would stay as it is in Python; no result
  holds one, so here it is an error.
\<close>

definition decode_pyval :: "json \<Rightarrow> exn + pyval" where
  "decode_pyval j =
     (case j of
        JNull \<Rightarrow> Inr PNone | JBool b \<Rightarrow> Inr (PBool b) | JInt i \<Rightarrow> Inr (PInt i) | JStr s \<Rightarrow> Inr (PStr s)
      | JObj ps \<Rightarrow>
          (case jget ps ''b64'' of
             Some (JStr t) \<Rightarrow> (case b64decode t of Some b \<Rightarrow> Inr (PBytes b)
                                               | None \<Rightarrow> Inl (ValueError ''Invalid base64-encoded string''))
           | _ \<Rightarrow> Inl TypeError)
      | JArr xs \<Rightarrow> Inl TypeError)"

text \<open>A comprehension whose body may raise: the first error wins.\<close>

fun map_res :: "('a \<Rightarrow> exn + 'b) \<Rightarrow> 'a list \<Rightarrow> exn + 'b list" where
  "map_res f [] = Inr []"
| "map_res f (x # xs) = (case f x of Inl e \<Rightarrow> Inl e
     | Inr y \<Rightarrow> (case map_res f xs of Inl e \<Rightarrow> Inl e | Inr ys \<Rightarrow> Inr (y # ys)))"

definition decode_result :: "json \<Rightarrow> exn + result" where
  "decode_result j =
     (case j of
        JObj ps \<Rightarrow> (case map_res (\<lambda>(k, v). case decode_pyval v of Inl e \<Rightarrow> Inl e | Inr w \<Rightarrow> Inr (k, w)) ps of
                     Inl e \<Rightarrow> Inl e | Inr r \<Rightarrow> Inr (dict_of r))
      | _ \<Rightarrow> Inl (PyException ''object has no attribute items''))"

definition snapshot_json :: "kv \<Rightarrow> json" where
  "snapshot_json m = JObj
     [(''store'', JObj (map (\<lambda>(k, c). (k, JObj [(''value'', JStr (b64encode (c_value c))),
                                             (''version'', JInt (c_version c))])) (store m))),
      (''tombstones'', JObj (map (\<lambda>(k, v). (k, JInt v)) (tombstones m))),
      (''sessions'', JArr (map (\<lambda>(c, s). JArr [JStr c, JInt (se_seq s), encode_result (se_result s)]) (sessions m)))]"

definition snapshot :: "kv \<Rightarrow> bytes" where
  "snapshot m = utf8_encode (dumps (snapshot_json m))"

definition cell_of_json :: "json \<Rightarrow> exn + kv_cell" where
  "cell_of_json j =
     (case j of
        JObj ps \<Rightarrow>
          (case jget ps ''value'' of
             None \<Rightarrow> Inl (KeyError ''value'')
           | Some (JStr t) \<Rightarrow>
               (case b64decode t of
                  None \<Rightarrow> Inl (ValueError ''Invalid base64-encoded string'')
                | Some b \<Rightarrow>
                    (case jget ps ''version'' of
                       Some (JInt v) \<Rightarrow> Inr \<lparr>c_value = b, c_version = v\<rparr>
                     | None \<Rightarrow> Inl (KeyError ''value'')
                     | Some _ \<Rightarrow> Inl TypeError))
           | Some _ \<Rightarrow> Inl TypeError)
      | _ \<Rightarrow> Inl TypeError)"

definition session_of_json :: "json \<Rightarrow> exn + string \<times> session" where
  "session_of_json j =
     (case j of
        JArr [JStr c, JInt q, r] \<Rightarrow>
          (case decode_result r of Inl e \<Rightarrow> Inl e | Inr d \<Rightarrow> Inr (c, \<lparr>se_seq = q, se_result = d\<rparr>))
      | _ \<Rightarrow> Inl (ValueError ''not enough values to unpack''))"

text \<open>
  The three assignments of \<open>restore\<close>, in order: an error in a later one leaves the earlier ones
  done.
\<close>

definition restore_store :: "(string \<times> json) list \<Rightarrow> exn + (string, kv_cell) dict" where
  "restore_store blob =
     (case jget blob ''store'' of
        None \<Rightarrow> Inr []
      | Some (JObj ps) \<Rightarrow>
          (case map_res (\<lambda>(k, j). case cell_of_json j of Inl e \<Rightarrow> Inl e | Inr c \<Rightarrow> Inr (k, c)) ps of
             Inl e \<Rightarrow> Inl e | Inr cs \<Rightarrow> Inr (dict_of cs))
      | Some _ \<Rightarrow> Inl (PyException ''object has no attribute items''))"

definition restore_tombstones :: "(string \<times> json) list \<Rightarrow> exn + (string, int) dict" where
  "restore_tombstones blob =
     (case jget blob ''tombstones'' of
        None \<Rightarrow> Inr []
      | Some (JObj ps) \<Rightarrow>
          (case map_res (\<lambda>(k, j). case j of JInt v \<Rightarrow> Inr (k, v) | _ \<Rightarrow> Inl TypeError) ps of
             Inl e \<Rightarrow> Inl e | Inr ts \<Rightarrow> Inr (dict_of ts))
      | Some _ \<Rightarrow> Inl TypeError)"

definition restore_sessions :: "(string \<times> json) list \<Rightarrow> exn + (string, session) dict" where
  "restore_sessions blob =
     (case jget blob ''sessions'' of
        None \<Rightarrow> Inr []
      | Some (JArr js) \<Rightarrow> (case map_res session_of_json js of Inl e \<Rightarrow> Inl e | Inr ss \<Rightarrow> Inr (dict_of ss))
      | Some _ \<Rightarrow> Inl TypeError)"

definition restore_blob :: "(string \<times> json) list \<Rightarrow> kv \<Rightarrow> kv \<times> (exn + unit)" where
  "restore_blob blob m =
     (case restore_store blob of
        Inl e \<Rightarrow> (m, Inl e)
      | Inr st \<Rightarrow>
          (let m1 = m\<lparr>store := st\<rparr> in
           case restore_tombstones blob of
             Inl e \<Rightarrow> (m1, Inl e)
           | Inr ts \<Rightarrow>
               (let m2 = m1\<lparr>tombstones := ts\<rparr> in
                case restore_sessions blob of
                  Inl e \<Rightarrow> (m2, Inl e)
                | Inr ss \<Rightarrow> (m2\<lparr>sessions := ss\<rparr>, Inr ()))))"

definition restore :: "bytes \<Rightarrow> kv \<Rightarrow> kv \<times> (exn + unit)" where
  "restore d m =
     (case utf8_decode d of
        None \<Rightarrow> (m, Inl (ValueError ''utf-8''))
      | Some [] \<Rightarrow> restore_blob [] m
      | Some t \<Rightarrow>
          (case loads t of
             None \<Rightarrow> (m, Inl (ValueError ''Expecting value''))
           | Some (JObj blob) \<Rightarrow> restore_blob blob m
           | Some _ \<Rightarrow> (m, Inl (PyException ''object has no attribute get''))))"

section \<open>Apply\<close>

definition tracked :: "log_entry \<Rightarrow> bool" where
  "tracked e \<longleftrightarrow> client_id e \<noteq> [] \<and> seq_num e > 0"

definition apply_entry :: "log_entry \<Rightarrow> kv \<Rightarrow> kv \<times> (exn + result)" where
  "apply_entry e m =
     (case (if tracked e then session_result (client_id e) (seq_num e) m else None) of
        Some cached \<Rightarrow> (m, Inr cached)
      | None \<Rightarrow>
          (case apply_op e m of
             (m', Inl x) \<Rightarrow> (m', Inl x)
           | (m', Inr r) \<Rightarrow>
               (if tracked e then remember (client_id e) (seq_num e) r m' else m', Inr r)))"

definition apply_kv :: "apply_arg \<Rightarrow> kv \<Rightarrow> kv \<times> (exn + result)" where
  "apply_kv arg m =
     (case arg of
        SnapshotArg d \<Rightarrow> (case restore d m of (m', Inl x) \<Rightarrow> (m', Inl x)
                                            | (m', Inr _) \<Rightarrow> (m', Inr [(''success'', PBool True)]))
      | EntryArg e \<Rightarrow> if op_type e = ''_snapshot'' then (m, Inl (KeyError ''snapshot_data'')) else apply_entry e m)"

text \<open>\<open>apply_fn\<close> as the applier thread calls it.\<close>

definition kv_apply_fn :: "log_entry \<Rightarrow> kv \<Rightarrow> kv \<times> (exn + result)" where
  "kv_apply_fn e m = apply_kv (EntryArg e) m"

end
