(* ===== verification/Raft_Rpc.thy ===== *)
theory Raft_Rpc
  imports Raft_Node
begin

text \<open>
  The RPC surface of a Raft node, \<open>RaftGRPCServicer\<close> of \<open>part2_3_replication/raft_server.py\<close>, and what
  the client-facing servicers share: fault injection and the redirect to the leader. A reply is a
  record with the fields of the protobuf message; \<open>RpcError\<close> is a status other than OK, with which
  gRPC answers when a handler aborts or raises.
\<close>

section \<open>Replies and redirects\<close>

datatype 'r rpc = Reply 'r | RpcError string

definition not_leader_msg :: "nat option \<Rightarrow> addr option \<Rightarrow> string" where
  "not_leader_msg l a = ''NOT_LEADER:'' @ opt_nat_str l @ '':'' @ (case a of None \<Rightarrow> [] | Some s \<Rightarrow> s)"

definition abort_if_isolated :: "raft_node \<Rightarrow> bool" where
  "abort_if_isolated nd = isolated nd"

definition redirect :: "raft_node \<Rightarrow> string" where
  "redirect nd = (let (l, a) = get_leader_info nd in not_leader_msg l a)"

section \<open>Entries on the wire\<close>

text \<open>
  A log entry carries its data in hexadecimal; the protobuf entry carries the bytes.
  \<open>_send_append_entries_to\<close> decodes, \<open>AppendEntries\<close> encodes again.
\<close>

definition wire_entry :: "log_entry \<Rightarrow> exn + log_entry" where
  "wire_entry e =
     (case (if data e = [] then Some [] else fromhex (data e)) of
        None \<Rightarrow> Inl (ValueError ''non-hexadecimal number found in fromhex() arg'')
      | Some b \<Rightarrow> Inr (e\<lparr>data := b\<rparr>))"

fun wire_entries :: "log_entry list \<Rightarrow> exn + log_entry list" where
  "wire_entries [] = Inr []"
| "wire_entries (e # es) =
     (case wire_entry e of Inl x \<Rightarrow> Inl x
      | Inr w \<Rightarrow> (case wire_entries es of Inl x \<Rightarrow> Inl x | Inr ws \<Rightarrow> Inr (w # ws)))"

definition unwire_entry :: "log_entry \<Rightarrow> log_entry" where
  "unwire_entry w = w\<lparr>data := hex (data w)\<rparr>"

section \<open>Inter-node RPCs\<close>

definition rpc_request_vote :: "rv_args \<Rightarrow> raft_node \<Rightarrow> raft_node \<times> rv_reply rpc" where
  "rpc_request_vote a nd =
     (if abort_if_isolated nd then (nd, RpcError ''UNAVAILABLE'')
      else (let (nd', r) = handle_request_vote a nd in (nd', Reply r)))"

text \<open>An exception in a handler reaches the caller as UNKNOWN.\<close>

definition rpc_append_entries :: "ae_args \<Rightarrow> raft_node \<Rightarrow> raft_node \<times> ae_reply rpc" where
  "rpc_append_entries a nd =
     (if abort_if_isolated nd then (nd, RpcError ''UNAVAILABLE'')
      else (case handle_append_entries (a\<lparr>ae_entries := map unwire_entry (ae_entries a)\<rparr>) nd of
              (nd', Inr r) \<Rightarrow> (nd', Reply r)
            | (nd', Inl x) \<Rightarrow> (nd', RpcError ''UNKNOWN'')))"

definition rpc_install_snapshot ::
  "(bytes \<Rightarrow> 's \<Rightarrow> 's) \<Rightarrow> is_args \<Rightarrow> raft_node \<Rightarrow> 's \<Rightarrow> raft_node \<times> 's \<times> nat rpc" where
  "rpc_install_snapshot apply_snapshot a nd sm =
     (if abort_if_isolated nd then (nd, sm, RpcError ''UNAVAILABLE'')
      else (let (nd', sm', t) = handle_install_snapshot apply_snapshot a nd sm in (nd', sm', Reply t)))"

record node_config =
  nc_id :: nat
  nc_host :: string
  nc_port :: nat

definition nc_address :: "node_config \<Rightarrow> addr" where
  "nc_address nc = nc_host nc @ '':'' @ nat_str (nc_port nc)"

record leader_reply =
  lr_id :: nat
  lr_address :: addr
  lr_has :: bool

text \<open>The loop over the configuration stops at the first entry with the id.\<close>

definition rpc_get_leader :: "node_config list \<Rightarrow> raft_node \<Rightarrow> leader_reply rpc" where
  "rpc_get_leader cfgs nd =
     (if abort_if_isolated nd then RpcError ''UNAVAILABLE''
      else (case get_leader_info nd of
              (None, _) \<Rightarrow> Reply \<lparr>lr_id = 0, lr_address = [], lr_has = False\<rparr>
            | (Some l, addr) \<Rightarrow>
                (let addr' = (if addr = None \<and> l = node_id nd
                              then map_option nc_address (find (\<lambda>nc. nc_id nc = l) cfgs) else addr)
                 in Reply \<lparr>lr_id = l, lr_address = (case addr' of None \<Rightarrow> [] | Some a \<Rightarrow> a), lr_has = True\<rparr>)))"

section \<open>Admin RPCs\<close>

record status_reply =
  sr_node_id :: nat
  sr_state :: string
  sr_term :: nat
  sr_has_leader :: bool
  sr_leader_id :: nat
  sr_commit_index :: nat
  sr_last_applied :: nat
  sr_last_log_index :: nat
  sr_last_log_term :: nat
  sr_isolated :: bool
  sr_match_index :: "(nat, nat) dict"

fun role_str :: "role \<Rightarrow> string" where
  "role_str Follower = ''follower''"
| "role_str Candidate = ''candidate''"
| "role_str Leader = ''leader''"

definition rpc_get_status :: "raft_node \<Rightarrow> status_reply rpc" where
  "rpc_get_status nd =
     (let s = status nd in Reply
       \<lparr>sr_node_id = s_node_id s, sr_state = role_str (s_state s), sr_term = s_term s,
        sr_has_leader = (s_leader_id s \<noteq> None),
        sr_leader_id = (case s_leader_id s of None \<Rightarrow> 0 | Some l \<Rightarrow> l),
        sr_commit_index = s_commit_index s, sr_last_applied = s_last_applied s,
        sr_last_log_index = s_last_log_index s, sr_last_log_term = s_last_log_term s,
        sr_isolated = s_isolated s, sr_match_index = s_match_index s\<rparr>)"

definition rpc_set_isolated :: "bool \<Rightarrow> bool \<Rightarrow> raft_node \<Rightarrow> raft_node \<times> bool rpc" where
  "rpc_set_isolated on heal_after nd =
     (let nd' = set_isolated on heal_after nd in (nd', Reply (isolated nd')))"

section \<open>Wiring a node to its peers\<close>

text \<open>A stub is known by the address it talks to.\<close>

definition build_peer_stubs :: "nat \<Rightarrow> node_config list \<Rightarrow> (nat, addr) dict" where
  "build_peer_stubs me cfgs = foldl (\<lambda>d nc. if nc_id nc = me then d else dset d (nc_id nc) (nc_address nc)) [] cfgs"

text \<open>The \<open>peers\<close> dictionary \<open>serve\<close> gives to \<open>RaftNode\<close>.\<close>

definition serve_peers :: "nat \<Rightarrow> node_config list \<Rightarrow> (nat, addr) dict" where
  "serve_peers me cfgs = dict_of (map (\<lambda>nc. (nc_id nc, nc_address nc)) (filter (\<lambda>nc. nc_id nc \<noteq> me) cfgs))"

end
