(* ===== verification/Kv_Server.thy ===== *)
theory Kv_Server
  imports Kv_Machine Raft_Rpc
begin

text \<open>
  The client-facing servicer of \<open>part2_3_replication/raft_kv_server.py\<close> over one \<open>RaftNode\<close> and one
  \<open>KVStateMachine\<close>. A handler that commits through the log blocks in \<open>append_entry\<close>, so it is two
  functions: \<open>..._begin\<close> up to the wait and \<open>..._end\<close> from the wake-up on. The node is an argument
  once per locked section (\<open>is_leader\<close>, then \<open>append_entry\<close>), because it may change in between.

  A reply is a record with the fields of the protobuf message; \<open>RpcError\<close> is a status other than
  OK, with which gRPC answers when a handler aborts or raises.
\<close>

section \<open>Committing a write\<close>

text \<open>Either an answer (a result or an error message) or a call waiting in \<open>append_entry\<close>.\<close>

datatype commit_start = Answer "result option" string | Pending raft_node nat nat

definition commit_error :: "exn \<Rightarrow> string" where
  "commit_error x =
     (case x of
        NotLeaderError l a \<Rightarrow> not_leader_msg l a
      | _ \<Rightarrow> if exn_str x = [] then exn_name x else exn_str x)"

definition commit_begin ::
  "string \<Rightarrow> string \<Rightarrow> bytes \<Rightarrow> string \<Rightarrow> int \<Rightarrow> kv \<Rightarrow> raft_node \<Rightarrow> raft_node \<Rightarrow> commit_start" where
  "commit_begin op key d cid seq m nd1 nd2 =
     (case lookup_session cid seq m of
        Some r \<Rightarrow> Answer (Some r) []
      | None \<Rightarrow>
          if \<not> is_leader nd1 then Answer None (redirect nd1)
          else (case append_entry_begin op key d cid seq nd2 of
                  Inl x \<Rightarrow> Answer None (commit_error x)
                | Inr (nd, i, ref) \<Rightarrow> Pending nd i ref))"

definition commit_end :: "nat \<Rightarrow> nat \<Rightarrow> raft_node \<Rightarrow> raft_node \<times> result option \<times> string" where
  "commit_end i ref nd =
     (case append_entry_end i ref nd of
        (nd', Inl x) \<Rightarrow> (nd', None, commit_error x)
      | (nd', Inr r) \<Rightarrow> (nd', r, []))"

section \<open>Put and Delete\<close>

record put_response =
  p_success :: bool
  p_version :: int
  p_error :: string

record delete_response =
  d_success :: bool
  d_existed :: bool
  d_error :: string

definition res_int :: "result \<Rightarrow> string \<Rightarrow> int" where
  "res_int r k = (case dget r k of Some (PInt v) \<Rightarrow> v | _ \<Rightarrow> 0)"

definition res_bool :: "result \<Rightarrow> string \<Rightarrow> bool" where
  "res_bool r k = (case dget r k of Some (PBool b) \<Rightarrow> b | _ \<Rightarrow> False)"

definition res_bytes :: "result \<Rightarrow> string \<Rightarrow> bytes" where
  "res_bytes r k = (case dget r k of Some (PBytes b) \<Rightarrow> b | _ \<Rightarrow> [])"

text \<open>
  The rest of a handler once \<open>_commit\<close> returned. \<open>result.get\<close> on \<open>None\<close> raises, which gRPC
  reports as UNKNOWN.
\<close>

definition put_reply :: "result option \<Rightarrow> string \<Rightarrow> put_response rpc" where
  "put_reply r err =
     (if err \<noteq> [] then Reply \<lparr>p_success = False, p_version = 0, p_error = err\<rparr>
      else (case r of None \<Rightarrow> RpcError ''UNKNOWN''
            | Some d \<Rightarrow> Reply \<lparr>p_success = True, p_version = res_int d ''version'', p_error = []\<rparr>))"

definition delete_reply :: "result option \<Rightarrow> string \<Rightarrow> delete_response rpc" where
  "delete_reply r err =
     (if err \<noteq> [] then Reply \<lparr>d_success = False, d_existed = False, d_error = err\<rparr>
      else (case r of None \<Rightarrow> RpcError ''UNKNOWN''
            | Some d \<Rightarrow> Reply \<lparr>d_success = True, d_existed = res_bool d ''existed'', d_error = []\<rparr>))"

text \<open>A handler that has replied, or waits for its entry.\<close>

datatype 'r handler = Done "'r rpc" | Waits raft_node nat nat

definition start_write :: "(result option \<Rightarrow> string \<Rightarrow> 'r rpc) \<Rightarrow> commit_start \<Rightarrow> 'r handler" where
  "start_write reply c = (case c of Answer r e \<Rightarrow> Done (reply r e) | Pending nd i ref \<Rightarrow> Waits nd i ref)"

definition put_begin ::
  "string \<Rightarrow> bytes \<Rightarrow> string \<Rightarrow> int \<Rightarrow> kv \<Rightarrow> raft_node \<Rightarrow> raft_node \<Rightarrow> raft_node \<Rightarrow> put_response handler" where
  "put_begin key v cid seq m nd0 nd1 nd2 =
     (if abort_if_isolated nd0 then Done (RpcError ''UNAVAILABLE'')
      else start_write put_reply (commit_begin ''put'' key v cid seq m nd1 nd2))"

definition put_end :: "nat \<Rightarrow> nat \<Rightarrow> raft_node \<Rightarrow> raft_node \<times> put_response rpc" where
  "put_end i ref nd = (let (nd', r, e) = commit_end i ref nd in (nd', put_reply r e))"

definition delete_begin ::
  "string \<Rightarrow> string \<Rightarrow> int \<Rightarrow> kv \<Rightarrow> raft_node \<Rightarrow> raft_node \<Rightarrow> raft_node \<Rightarrow> delete_response handler" where
  "delete_begin key cid seq m nd0 nd1 nd2 =
     (if abort_if_isolated nd0 then Done (RpcError ''UNAVAILABLE'')
      else start_write delete_reply (commit_begin ''delete'' key [] cid seq m nd1 nd2))"

definition delete_end :: "nat \<Rightarrow> nat \<Rightarrow> raft_node \<Rightarrow> raft_node \<times> delete_response rpc" where
  "delete_end i ref nd = (let (nd', r, e) = commit_end i ref nd in (nd', delete_reply r e))"

section \<open>Compare-and-swap\<close>

record cas_request =
  cr_expected :: bytes
  cr_new :: bytes
  cr_absent :: bool
  cr_version :: int

record cas_response =
  s_success :: bool
  s_swapped :: bool
  s_current :: bytes
  s_version :: int
  s_error :: string

definition cas_command :: "cas_request \<Rightarrow> bytes" where
  "cas_command q = utf8_encode (dumps (JObj
     [(''expected'', JStr (b64encode (cr_expected q))), (''new'', JStr (b64encode (cr_new q))),
      (''expect_absent'', JBool (cr_absent q)), (''expected_version'', JInt (cr_version q))]))"

definition cas_reply :: "result option \<Rightarrow> string \<Rightarrow> cas_response rpc" where
  "cas_reply r err =
     (if err \<noteq> [] then Reply \<lparr>s_success = False, s_swapped = False, s_current = [], s_version = 0, s_error = err\<rparr>
      else (case r of None \<Rightarrow> RpcError ''UNKNOWN''
            | Some d \<Rightarrow> Reply \<lparr>s_success = True, s_swapped = res_bool d ''swapped'',
                             s_current = res_bytes d ''current'', s_version = res_int d ''version'', s_error = []\<rparr>))"

definition cas_begin ::
  "string \<Rightarrow> cas_request \<Rightarrow> string \<Rightarrow> int \<Rightarrow> kv \<Rightarrow> raft_node \<Rightarrow> raft_node \<Rightarrow> raft_node \<Rightarrow> cas_response handler" where
  "cas_begin key q cid seq m nd0 nd1 nd2 =
     (if abort_if_isolated nd0 then Done (RpcError ''UNAVAILABLE'')
      else start_write cas_reply (commit_begin ''cas'' key (cas_command q) cid seq m nd1 nd2))"

definition cas_end :: "nat \<Rightarrow> nat \<Rightarrow> raft_node \<Rightarrow> raft_node \<times> cas_response rpc" where
  "cas_end i ref nd = (let (nd', r, e) = commit_end i ref nd in (nd', cas_reply r e))"

section \<open>Get\<close>

record get_response =
  g_found :: bool
  g_value :: bytes
  g_version :: int
  g_success :: bool
  g_error :: string

definition get_error :: "string \<Rightarrow> get_response" where
  "get_error e = \<lparr>g_found = False, g_value = [], g_version = 0, g_success = False, g_error = e\<rparr>"

definition get_read :: "string \<Rightarrow> kv \<Rightarrow> get_response" where
  "get_read key m = (let (v, ver, found) = kv_get key m in
     \<lparr>g_found = found, g_value = (case v of None \<Rightarrow> [] | Some b \<Rightarrow> b), g_version = ver, g_success = True, g_error = []\<rparr>)"

definition get_exn :: "exn \<Rightarrow> get_response" where
  "get_exn x = get_error (case x of NotLeaderError l a \<Rightarrow> not_leader_msg l a | _ \<Rightarrow> exn_str x)"

definition get_begin ::
  "string \<Rightarrow> bool \<Rightarrow> kv \<Rightarrow> raft_node \<Rightarrow> raft_node \<Rightarrow> raft_node \<Rightarrow> get_response handler" where
  "get_begin key linearizable m nd0 nd1 nd2 =
     (if abort_if_isolated nd0 then Done (RpcError ''UNAVAILABLE'')
      else if \<not> is_leader nd1 then Done (Reply (get_error (redirect nd1)))
      else if linearizable then
        (case append_entry_begin ''noop'' [] [] [] 0 nd2 of
           Inl x \<Rightarrow> Done (Reply (get_exn x))
         | Inr (nd, i, ref) \<Rightarrow> Waits nd i ref)
      else Done (Reply (get_read key m)))"

definition get_end :: "string \<Rightarrow> nat \<Rightarrow> nat \<Rightarrow> raft_node \<Rightarrow> kv \<Rightarrow> raft_node \<times> get_response rpc" where
  "get_end key i ref nd m =
     (case append_entry_end i ref nd of
        (nd', Inl x) \<Rightarrow> (nd', Reply (get_exn x))
      | (nd', Inr r) \<Rightarrow> (nd', Reply (get_read key m)))"

end
