(* ===== verification/Kv_Theorems.thy ===== *)
theory Kv_Theorems
  imports Kv_Server
begin

text \<open>
  The key-value state machine is correct: its well-formedness is invariant, every operation does
  what the API promises on every branch, versions of a key never repeat (so a compare-and-swap
  on versions is free of the ABA problem), a retried write is applied exactly once as long as its
  session is remembered, it refines an abstract store of versioned cells, and a snapshot restores
  the very state it was taken of.
\<close>

section \<open>Invariant\<close>

declare evict.simps [simp del]

lemma evict_drop: "evict n d = drop (length d - n) d"
proof (induction n d rule: evict.induct)
  case (1 n d)
  show ?case
  proof (cases "length d > n")
    case True
    then have "length d - n = Suc (length (tl d) - n)" by simp
    with 1 True show ?thesis by (simp add: evict.simps [of n d] drop_Suc)
  next
    case False
    then show ?thesis by (simp add: evict.simps [of n d])
  qed
qed

lemma wf_evict: "wf_dict d \<Longrightarrow> wf_dict (evict n d)"
  by (simp add: evict_drop wf_dict_def drop_map [symmetric] distinct_drop)

lemma length_evict: "length (evict n d) \<le> n"
  by (simp add: evict_drop)

definition kv_ok :: "kv \<Rightarrow> bool" where
  "kv_ok m \<longleftrightarrow> wf_dict (store m) \<and> wf_dict (tombstones m) \<and> wf_dict (sessions m)
     \<and> (\<forall>k c. dget (store m) k = Some c \<longrightarrow> 1 \<le> c_version c)
     \<and> (\<forall>k v. dget (tombstones m) k = Some v \<longrightarrow> 1 \<le> v \<and> dget (store m) k = None)
     \<and> length (sessions m) \<le> max_sessions m
     \<and> (\<forall>s \<in> snd ` set (sessions m). wf_dict (se_result s))"

lemma kv_ok_init: "kv_ok (kv_init n)"
  by (simp add: kv_ok_def kv_init_def)

lemma kv_ok_write: "kv_ok m \<Longrightarrow> kv_ok (fst (write_kv key v m))"
  by (auto simp: kv_ok_def write_kv_def Let_def dget_or_def split: option.splits) fastforce+

lemma kv_ok_op:
  assumes "kv_ok m" shows "kv_ok (fst (apply_op e m))"
proof -
  have d: "kv_ok (fst (apply_delete k m))" for k
    using assms by (auto simp: kv_ok_def apply_delete_def split: option.split)
  have c: "kv_ok (fst (apply_cas k b m))" for k b
    using assms kv_ok_write [OF assms]
    by (simp add: apply_cas_def Let_def case_prod_unfold split: sum.split bool.split)
  show ?thesis using assms kv_ok_write [OF assms] c d
    by (simp add: apply_op_def apply_put_def Let_def case_prod_unfold)
qed

lemma wf_op_result: "apply_op e m = (m', Inr r) \<Longrightarrow> wf_dict r"
  by (auto simp: apply_op_def apply_put_def apply_delete_def apply_cas_def swap_result_def wf_dict_def Let_def
      split: if_splits option.splits sum.splits bool.splits prod.splits)

lemma set_dset: "set (dset d k v) \<subseteq> insert (k, v) (set d)"
  unfolding dset_def by (induction d) auto

lemma set_dpop: "set (dpop d k) \<subseteq> set d"
  unfolding dpop_def by (induction d) auto

lemma set_dmove_to_end: "set (dmove_to_end d k) \<subseteq> set d"
  using set_dpop [of d k] by (auto simp: dmove_to_end_def dest: dget_in_set split: option.splits)

lemma kv_ok_remember: "kv_ok m \<Longrightarrow> wf_dict r \<Longrightarrow> kv_ok (remember c q r m)"
  using length_evict [of "max_sessions m"]
    set_drop_subset [of "length (dmove_to_end (dset (sessions m) c \<lparr>se_seq = q, se_result = r\<rparr>) c) - max_sessions m"
      "dmove_to_end (dset (sessions m) c \<lparr>se_seq = q, se_result = r\<rparr>) c"]
    set_dmove_to_end [of "dset (sessions m) c \<lparr>se_seq = q, se_result = r\<rparr>" c] set_dset [of "sessions m" c]
  by (simp add: kv_ok_def remember_def wf_evict) (fastforce simp: evict_drop)

lemma kv_ok_entry:
  assumes "kv_ok m" shows "kv_ok (fst (apply_entry e m))"
  using kv_ok_op [OF assms, of e] assms kv_ok_remember wf_op_result [of e m]
  by (cases "apply_op e m") (simp add: apply_entry_def split: option.split sum.split)

definition run_kv :: "log_entry list \<Rightarrow> kv \<Rightarrow> kv" where
  "run_kv es m = foldl (\<lambda>m e. fst (apply_entry e m)) m es"

lemma run_kv_simps [simp]: "run_kv [] m = m" "run_kv (e # es) m = run_kv es (fst (apply_entry e m))"
  "run_kv (es @ fs) m = run_kv fs (run_kv es m)"
  by (simp_all add: run_kv_def)

lemma kv_ok_run: "kv_ok m \<Longrightarrow> kv_ok (run_kv es m)"
  by (induction es arbitrary: m) (simp_all add: kv_ok_entry)

section \<open>Versioned cells\<close>

text \<open>
  What a client sees of the store is one cell per key: the value, if there is one, and the last
  version the key ever had. The code splits it into \<open>store\<close> and \<open>tombstones\<close>.
\<close>

type_synonym cell = "bytes option \<times> int"

definition cells :: "kv \<Rightarrow> string \<Rightarrow> cell" where
  "cells m k = (case dget (store m) k of Some c \<Rightarrow> (Some (c_value c), c_version c)
                                       | None \<Rightarrow> (None, dget_or (tombstones m) k 0))"

datatype kv_op = OpPut bytes | OpDelete | OpCas cas_request

text \<open>The operation as the servicer puts it into the log.\<close>

fun op_name :: "kv_op \<Rightarrow> string" where
  "op_name (OpPut v) = ''put''"
| "op_name OpDelete = ''delete''"
| "op_name (OpCas q) = ''cas''"

fun op_data :: "kv_op \<Rightarrow> bytes" where
  "op_data (OpPut v) = v"
| "op_data OpDelete = []"
| "op_data (OpCas q) = cas_command q"

text \<open>What it promises: the new cell and the result.\<close>

definition cas_holds :: "cas_request \<Rightarrow> cell \<Rightarrow> bool" where
  "cas_holds q c = (if cr_absent q then fst c = None
                    else if 0 < cr_version q then fst c \<noteq> None \<and> snd c = cr_version q
                    else fst c = Some (cr_expected q))"

fun spec_op :: "kv_op \<Rightarrow> cell \<Rightarrow> cell \<times> result" where
  "spec_op (OpPut v) c = ((Some v, snd c + 1), [(''success'', PBool True), (''version'', PInt (snd c + 1))])"
| "spec_op OpDelete c = ((None, snd c), [(''success'', PBool True), (''existed'', PBool (fst c \<noteq> None))])"
| "spec_op (OpCas q) c =
     (if cas_holds q c then ((Some (cr_new q), snd c + 1), swap_result True (cr_new q) (snd c + 1))
      else (c, case fst c of None \<Rightarrow> swap_result False [] 0 | Some v \<Rightarrow> swap_result False v (snd c)))"

lemma b64encode_Nil_iff: "b64encode b = [] \<longleftrightarrow> b = []"
  by (metis b64.enc_inj b64encode.simps(1))

lemma cas_bytes_encoded:
  assumes "jget spec k = Some (JStr (b64encode b))" shows "cas_bytes spec k = Inr b"
  using assms by (auto simp: cas_bytes_def truthy_def b64encode_Nil_iff b64decode_encode)

text \<open>The command \<open>Cas\<close> writes is the one \<open>apply\<close> reads.\<close>

lemma parse_cas_command:
  "parse_cas (cas_command q) = Inr \<lparr>cs_absent = cr_absent q, cs_version = JInt (cr_version q),
     cs_expected = cr_expected q, cs_new = cr_new q\<rparr>"
proof -
  let ?s = "[(''expected'', JStr (b64encode (cr_expected q))), (''new'', JStr (b64encode (cr_new q))),
      (''expect_absent'', JBool (cr_absent q)), (''expected_version'', JInt (cr_version q))]"
  have "loads (dumps (JObj ?s)) = Some (JObj ?s)" by (rule loads_dumps) simp
  moreover have "cas_bytes ?s ''expected'' = Inr (cr_expected q)" "cas_bytes ?s ''new'' = Inr (cr_new q)"
    by (rule cas_bytes_encoded, simp add: jget_def dget_def)+
  ultimately show ?thesis
    by (simp add: parse_cas_def cas_command_def utf8_decode_encode jget_def dget_def truthy_def)
qed

lemma cells_write:
  "cells (fst (write_kv key v m)) = (cells m)(key := (Some v, snd (cells m key) + 1))"
  "snd (write_kv key v m) = snd (cells m key) + 1"
  by (auto simp: cells_def write_kv_def Let_def fun_eq_iff dget_or_def split: option.splits)

lemma cells_delete:
  assumes "kv_ok m"
  shows "cells (fst (apply_delete key m)) = (cells m)(key := (None, snd (cells m key)))"
    "snd (apply_delete key m) = [(''success'', PBool True), (''existed'', PBool (fst (cells m key) \<noteq> None))]"
  using assms
  by (auto simp: cells_def apply_delete_def fun_eq_iff dget_or_def split: option.splits)

lemma cells_cas:
  "(cells (fst (apply_cas key (cas_command q) m)), snd (apply_cas key (cas_command q) m)) =
     ((cells m)(key := fst (spec_op (OpCas q) (cells m key))), Inr (snd (spec_op (OpCas q) (cells m key))))"
proof -
  have c: "cas_condition \<lparr>cs_absent = cr_absent q, cs_version = JInt (cr_version q), cs_expected = cr_expected q,
      cs_new = cr_new q\<rparr> (dget (store m) key) = Inr (cas_holds q (cells m key))"
    by (auto simp: cas_condition_def cas_holds_def cells_def json_num_def split: option.splits)
  show ?thesis
  proof (cases "cas_holds q (cells m key)")
    case True
    then show ?thesis using c
      by (simp add: apply_cas_def parse_cas_command Let_def case_prod_unfold cells_write)
  next
    case False
    then show ?thesis using c
      by (auto simp: apply_cas_def parse_cas_command Let_def cells_def split: option.splits)
  qed
qed

lemma cells_op:
  assumes "kv_ok m" "op_type e = op_name p" "data e = op_data p"
  shows "cells (fst (apply_op e m)) = (cells m)(filename e := fst (spec_op p (cells m (filename e))))"
    and "snd (apply_op e m) = Inr (snd (spec_op p (cells m (filename e))))"
  using assms cells_write [of "filename e" "data e" m] cells_delete [OF assms(1), of "filename e"] cells_cas [of "filename e" _ m]
  by (cases p; simp add: apply_op_def apply_put_def Let_def case_prod_unfold)+

lemma cells_remember [simp]: "cells (remember c q r m) = cells m"
  by (simp add: cells_def remember_def fun_eq_iff split: option.split)

section \<open>Versions\<close>

text \<open>How a cell may change: not at all, to a later version, or to absent at the same version.\<close>

definition later :: "cell \<Rightarrow> cell \<Rightarrow> bool" where
  "later c d \<longleftrightarrow> d = c \<or> snd c < snd d \<or> (fst d = None \<and> snd d = snd c)"

lemma later_refl [simp]: "later c c"
  by (simp add: later_def)

lemma later_trans: "later c d \<Longrightarrow> later d e \<Longrightarrow> later c e"
  by (auto simp: later_def prod_eq_iff)

lemma later_op:
  assumes "kv_ok m" shows "later (cells m k) (cells (fst (apply_op e m)) k)"
proof -
  have w: "later (cells m k) (cells (fst (write_kv key v m)) k)" for key v
    by (simp add: cells_write later_def)
  have d: "later (cells m k) (cells (fst (apply_delete key m)) k)" for key
    by (simp add: cells_delete [OF assms] later_def)
  have c: "later (cells m k) (cells (fst (apply_cas key b m)) k)" for key b
    using w by (simp add: apply_cas_def Let_def case_prod_unfold split: sum.split bool.split)
  show ?thesis using w d c by (simp add: apply_op_def apply_put_def Let_def case_prod_unfold)
qed

lemma cells_entry_cases: "cells (fst (apply_entry e m)) = cells m \<or> cells (fst (apply_entry e m)) = cells (fst (apply_op e m))"
  by (cases "apply_op e m") (simp add: apply_entry_def split: option.split sum.split)

lemma later_run:
  assumes "kv_ok m" shows "later (cells m k) (cells (run_kv es m) k)"
  using assms
proof (induction es arbitrary: m)
  case Nil
  then show ?case by simp
next
  case (Cons e es)
  have "later (cells m k) (cells (fst (apply_entry e m)) k)"
    using later_op [OF Cons.prems] cells_entry_cases [of e m] by (metis later_refl)
  with Cons.IH [OF kv_ok_entry [OF Cons.prems]] show ?case by (auto intro: later_trans)
qed

lemma kv_get_cell: "kv_get k m = (v, n, True) \<longleftrightarrow> (\<exists>b. v = Some b \<and> cells m k = (Some b, n))"
  by (auto simp: kv_get_def cells_def split: option.splits)

section \<open>Sessions\<close>

lemma dmove_split:
  assumes "wf_dict d" "d = xs @ (k, v) # ys" "c \<noteq> k"
  shows "\<exists>xs' ys'. dmove_to_end (dset d c w) c = xs' @ (k, v) # ys' \<and> fst ` set ys' = insert c (fst ` set ys)"
proof (cases "dget d c")
  case None
  then have e: "dset d c w = xs @ (k, v) # (ys @ [(c, w)])" using assms(2) by (simp add: dset_absent)
  have "dpop d c = d" by (rule dpop_absent [OF None])
  then have "dpop (dset d c w) c = d" unfolding dset_absent [OF None]
    by (simp add: dpop_def AList.delete_eq)
  moreover have "dget (dset d c w) c = Some w" by simp
  ultimately have "dmove_to_end (dset d c w) c = d @ [(c, w)]" by (simp add: dmove_to_end_def)
  then show ?thesis using assms(2) by (intro exI [of _ xs] exI [of _ "ys @ [(c, w)]"]) auto
next
  case (Some u)
  have p: "dpop (dset d c w) c = dpop d c" unfolding dpop_def dset_def by (induction d) auto
  have "dpop d c = dpop xs c @ (k, v) # dpop ys c" using assms(2,3) by (simp add: dpop_def AList.delete_eq)
  then have "dmove_to_end (dset d c w) c = dpop xs c @ (k, v) # (dpop ys c @ [(c, w)])"
    by (simp add: dmove_to_end_def p)
  moreover have "fst ` set (dpop ys c @ [(c, w)]) = insert c (fst ` set ys)" by (auto simp: keys_dpop)
  ultimately show ?thesis by blast
qed

lemma dmove_last:
  "wf_dict d \<Longrightarrow> \<exists>xs. dmove_to_end (dset d c w) c = xs @ [(c, w)]"
  by (simp add: dmove_to_end_def)

lemma evict_split:
  assumes "wf_dict (xs @ (k, v) # ys)" "card (fst ` set ys) < n"
  shows "\<exists>zs. evict n (xs @ (k, v) # ys) = zs @ (k, v) # ys"
proof -
  have "distinct (map fst ys)" using assms(1) by (simp add: wf_dict_def)
  then have "length ys < n" using assms(2) distinct_card [of "map fst ys"] by simp
  then have "length (xs @ (k, v) # ys) - n \<le> length xs" by simp
  then show ?thesis unfolding evict_drop by simp
qed

text \<open>
  A client's session is remembered with at most the clients of \<open>S\<close> more recent: its latest
  sequence number is \<open>q\<close> and the result of that request \<open>r\<close>.
\<close>

definition recent :: "string \<Rightarrow> session \<Rightarrow> string set \<Rightarrow> kv \<Rightarrow> bool" where
  "recent c s S m \<longleftrightarrow> (\<exists>xs ys. sessions m = xs @ (c, s) # ys \<and> fst ` set ys \<subseteq> S)"

lemma recent_intro: "sessions m = xs @ (c, s) # ys \<Longrightarrow> fst ` set ys \<subseteq> S \<Longrightarrow> recent c s S m"
  unfolding recent_def by blast

lemma recent_dget:
  assumes "recent c s S m" "wf_dict (sessions m)" shows "dget (sessions m) c = Some s"
  using assms by (auto simp: recent_def wf_dget_iff)

lemma recent_mono: "recent c s S m \<Longrightarrow> S \<subseteq> T \<Longrightarrow> recent c s T m"
  unfolding recent_def by blast

lemma sessions_op [simp]: "sessions (fst (apply_op e m)) = sessions m" "max_sessions (fst (apply_op e m)) = max_sessions m"
  by (simp_all add: apply_op_def apply_put_def apply_delete_def apply_cas_def write_kv_def Let_def case_prod_unfold
      split: option.split sum.split bool.split)

lemma max_sessions_entry [simp]: "max_sessions (fst (apply_entry e m)) = max_sessions m"
  using sessions_op(2) [of e m]
  by (cases "apply_op e m") (simp add: apply_entry_def remember_def split: option.split sum.split)

lemma max_sessions_run [simp]: "max_sessions (run_kv es m) = max_sessions m"
  by (induction es arbitrary: m) simp_all

text \<open>An entry leaves the sessions alone or remembers a request later than the client's last one.\<close>

lemma sessions_entry:
  "sessions (fst (apply_entry e m)) = sessions m
   \<or> (tracked e \<and> session_result (client_id e) (seq_num e) m = None
      \<and> (\<exists>r. snd (apply_entry e m) = Inr r
           \<and> sessions (fst (apply_entry e m)) = evict (max_sessions m)
               (dmove_to_end (dset (sessions m) (client_id e) \<lparr>se_seq = seq_num e, se_result = r\<rparr>) (client_id e))))"
  using sessions_op [of e m]
  by (cases "apply_op e m")
    (auto simp: apply_entry_def remember_def split: option.split sum.split)

text \<open>
  The request \<open>q\<close> of client \<open>c\<close> is the last one remembered, with its result, or one of the later
  requests \<open>Q\<close> is; only clients of \<open>S\<close> are more recent.
\<close>

definition remembers :: "string \<Rightarrow> int \<Rightarrow> result \<Rightarrow> string set \<Rightarrow> int set \<Rightarrow> kv \<Rightarrow> bool" where
  "remembers c q r S Q m \<longleftrightarrow> (\<exists>s. recent c s S m
     \<and> (se_seq s = q \<and> se_result s = r \<or> q < se_seq s \<and> se_seq s \<in> Q))"

lemma remembers_entry:
  assumes ok: "kv_ok m" and S: "finite S" "card S < max_sessions m" and R: "remembers c q r S Q m"
    and e: "tracked e \<Longrightarrow> if client_id e = c then seq_num e \<in> Q else client_id e \<in> S"
  shows "remembers c q r S Q (fst (apply_entry e m))"
proof -
  from R obtain s xs ys where s: "sessions m = xs @ (c, s) # ys" "fst ` set ys \<subseteq> S"
    "se_seq s = q \<and> se_result s = r \<or> q < se_seq s \<and> se_seq s \<in> Q" by (auto simp: remembers_def recent_def)
  have wf: "wf_dict (sessions m)" using ok by (simp add: kv_ok_def)
  have g: "dget (sessions m) c = Some s" by (rule recent_dget [OF _ wf]) (use s in \<open>auto simp: recent_def\<close>)
  let ?m = "fst (apply_entry e m)" and ?c = "client_id e"
  show ?thesis
  proof (cases "sessions ?m = sessions m")
    case True
    with R show ?thesis by (simp add: remembers_def recent_def)
  next
    case False
    then obtain v where t: "tracked e" "session_result ?c (seq_num e) m = None"
      "sessions ?m = evict (max_sessions m) (dmove_to_end (dset (sessions m) ?c \<lparr>se_seq = seq_num e, se_result = v\<rparr>) ?c)"
      using sessions_entry [of e m] by auto
    let ?w = "\<lparr>se_seq = seq_num e, se_result = v\<rparr>"
    let ?d = "dmove_to_end (dset (sessions m) ?c ?w) ?c"
    have wfd: "wf_dict ?d" using wf by simp
    show ?thesis
    proof (cases "?c = c")
      case True
      then have q: "q < seq_num e" using t(2) g s(3) by (auto simp: session_result_def split: if_splits)
      obtain zs where d: "?d = zs @ [(c, ?w)]" using dmove_last [OF wf, of ?c ?w] True by auto
      have "\<exists>z. evict (max_sessions m) ?d = z @ (c, ?w) # []"
        unfolding d using S wfd by (intro evict_split) (simp_all add: d)
      then obtain z where "sessions ?m = z @ (c, ?w) # []" using t(3) by metis
      then have "recent c ?w S ?m" by (rule recent_intro) simp
      moreover have "seq_num e \<in> Q" using e True t(1) by simp
      ultimately show ?thesis using q unfolding remembers_def by (intro exI [of _ ?w]) simp
    next
      case False
      obtain xs' ys' where d: "?d = xs' @ (c, s) # ys'" "fst ` set ys' = insert ?c (fst ` set ys)"
        using dmove_split [OF wf s(1) False] by blast
      have sub: "fst ` set ys' \<subseteq> S" using d(2) s(2) e False t(1) by auto
      have "\<exists>z. evict (max_sessions m) ?d = z @ (c, s) # ys'"
        unfolding d(1) using wfd card_mono [OF S(1) sub] S(2) by (intro evict_split) (simp_all add: d(1))
      then obtain z where "sessions ?m = z @ (c, s) # ys'" using t(3) by metis
      then have "recent c s S ?m" using sub by (rule recent_intro)
      with s(3) show ?thesis unfolding remembers_def by blast
    qed
  qed
qed

text \<open>The clients whose requests are tracked, and the sequence numbers of one.\<close>

definition clients :: "log_entry list \<Rightarrow> string set" where
  "clients es = client_id ` {e \<in> set es. tracked e}"

definition seqs_of :: "string \<Rightarrow> log_entry list \<Rightarrow> int set" where
  "seqs_of c es = seq_num ` {e \<in> set es. tracked e \<and> client_id e = c}"

lemma remembers_run:
  assumes "kv_ok m" "finite S" "card S < max_sessions m" "remembers c q r S Q m"
    and "\<forall>e\<in>set es. tracked e \<longrightarrow> (if client_id e = c then seq_num e \<in> Q else client_id e \<in> S)"
  shows "remembers c q r S Q (run_kv es m)"
  using assms
proof (induction es arbitrary: m)
  case Nil
  then show ?case by simp
next
  case (Cons e es)
  have "remembers c q r S Q (fst (apply_entry e m))"
    by (rule remembers_entry [OF Cons.prems(1-4)]) (use Cons.prems(5) in simp)
  then show ?case using Cons.IH [OF kv_ok_entry [OF Cons.prems(1)]] Cons.prems(2,3,5) by simp
qed

lemma remembers_first:
  assumes "kv_ok m" "0 < max_sessions m" "tracked e" "session_result (client_id e) (seq_num e) m = None"
    and "snd (apply_entry e m) = Inr r"
  shows "remembers (client_id e) (seq_num e) r {} {} (fst (apply_entry e m))"
proof -
  let ?c = "client_id e" and ?w = "\<lparr>se_seq = seq_num e, se_result = r\<rparr>"
  let ?d = "dmove_to_end (dset (sessions m) ?c ?w) ?c"
  have wf: "wf_dict (sessions m)" using assms(1) by (simp add: kv_ok_def)
  then have wfd: "wf_dict ?d" by simp
  have s: "sessions (fst (apply_entry e m)) = evict (max_sessions m) ?d"
    using assms(3-5) sessions_op [of e m]
    by (cases "apply_op e m") (auto simp: apply_entry_def remember_def split: sum.splits)
  obtain zs where d: "?d = zs @ [(?c, ?w)]" using dmove_last [OF wf, of ?c ?w] by blast
  have "\<exists>z. evict (max_sessions m) ?d = z @ (?c, ?w) # []"
    unfolding d using assms(2) wfd by (intro evict_split) (simp_all add: d)
  then obtain z where "sessions (fst (apply_entry e m)) = z @ (?c, ?w) # []" using s by metis
  then have "recent ?c ?w {} (fst (apply_entry e m))" by (rule recent_intro) simp
  then show ?thesis unfolding remembers_def by (intro exI [of _ ?w]) simp
qed

lemma remembers_mono:
  assumes "remembers c q r S Q m" "S \<subseteq> T" "Q \<subseteq> P" shows "remembers c q r T P m"
proof -
  from assms(1) obtain s where "recent c s S m" "se_seq s = q \<and> se_result s = r \<or> q < se_seq s \<and> se_seq s \<in> Q"
    by (auto simp: remembers_def)
  with recent_mono [OF _ assms(2)] assms(3) show ?thesis unfolding remembers_def by (intro exI [of _ s]) auto
qed

lemma remembered_retry:
  assumes "kv_ok m" "remembers (client_id e) (seq_num e) r S Q m" "tracked e"
  shows "apply_entry e m = (m, Inr r)
    \<or> (apply_entry e m = (m, Inr [(''success'', PBool True), (''stale'', PBool True)]) \<and> (\<exists>q\<in>Q. seq_num e < q))"
proof -
  from assms(2) obtain s where s: "recent (client_id e) s S m"
    "se_seq s = seq_num e \<and> se_result s = r \<or> seq_num e < se_seq s \<and> se_seq s \<in> Q" by (auto simp: remembers_def)
  have "dget (sessions m) (client_id e) = Some s"
    by (rule recent_dget [OF s(1)]) (use assms(1) in \<open>simp add: kv_ok_def\<close>)
  with s(2) assms(3) show ?thesis by (auto simp: apply_entry_def session_result_def)
qed

text \<open>Both together: what a retry meets after other entries were applied.\<close>

lemma retry_after:
  assumes "kv_ok m" "tracked e" "session_result (client_id e) (seq_num e) m = None" "snd (apply_entry e m) = Inr r"
    and "card (clients es - {client_id e}) < max_sessions m" "client_id e' = client_id e" "seq_num e' = seq_num e"
  shows "apply_entry e' (run_kv (e # es) m) = (run_kv (e # es) m, Inr r)
    \<or> (apply_entry e' (run_kv (e # es) m)
         = (run_kv (e # es) m, Inr [(''success'', PBool True), (''stale'', PBool True)])
       \<and> (\<exists>q\<in>seqs_of (client_id e) es. seq_num e < q))"
proof -
  let ?S = "clients es - {client_id e}" and ?Q = "seqs_of (client_id e) es" and ?m = "fst (apply_entry e m)"
  have ok: "kv_ok ?m" by (rule kv_ok_entry [OF assms(1)])
  have "remembers (client_id e) (seq_num e) r {} {} ?m"
    by (rule remembers_first [OF assms(1) _ assms(2-4)]) (use assms(5) in simp)
  then have "remembers (client_id e) (seq_num e) r ?S ?Q ?m" by (rule remembers_mono) simp_all
  then have "remembers (client_id e) (seq_num e) r ?S ?Q (run_kv es ?m)"
    by (rule remembers_run [OF ok, rotated 2]) (use assms(5) in \<open>auto simp: clients_def seqs_of_def\<close>)
  then have "remembers (client_id e') (seq_num e') r ?S ?Q (run_kv es ?m)" by (simp only: assms(6,7))
  from remembered_retry [OF kv_ok_run [OF ok] this] show ?thesis using assms(2,6,7) by (simp add: tracked_def)
qed

section \<open>Snapshots\<close>

lemma map_res_inverse:
  "(\<And>x. x \<in> set xs \<Longrightarrow> f (g x) = Inr x) \<Longrightarrow> map_res f (map g xs) = Inr xs"
  by (induction xs) simp_all

lemma decode_encode_pyval: "decode_pyval (encode_pyval v) = Inr v"
  by (cases v) (simp_all add: decode_pyval_def encode_pyval_def jget_def dget_def b64decode_encode)

lemma decode_encode_result: "wf_dict r \<Longrightarrow> decode_result (encode_result r) = Inr r"
  by (simp add: decode_result_def encode_result_def map_res_inverse decode_encode_pyval case_prod_unfold
      dict_of_distinct wf_dict_def)

lemma map_fst_apsnd: "map fst (map (\<lambda>(k, v). (k, f k v)) d) = map fst d"
  by (simp add: case_prod_unfold comp_def)

lemma jwf_encode_result: "wf_dict r \<Longrightarrow> jwf (encode_result r)"
proof -
  have "jwf (encode_pyval v)" for v by (cases v) (simp_all add: encode_pyval_def)
  then show "wf_dict r \<Longrightarrow> jwf (encode_result r)"
    by (simp add: encode_result_def wf_dict_def list_all_iff case_prod_unfold comp_def)
qed

lemma jwf_snapshot:
  assumes "kv_ok m" shows "jwf (snapshot_json m)"
proof -
  have "wf_dict (store m)" "wf_dict (tombstones m)" "\<forall>s \<in> snd ` set (sessions m). wf_dict (se_result s)"
    using assms by (simp_all add: kv_ok_def)
  then show ?thesis
    by (simp add: snapshot_json_def wf_dict_def list_all_iff case_prod_unfold comp_def)
      (simp add: jwf_encode_result wf_dict_def)
qed

lemma restore_fields:
  assumes "kv_ok m" and b: "snapshot_json m = JObj blob"
  shows "restore_store blob = Inr (store m)" "restore_tombstones blob = Inr (tombstones m)"
    "restore_sessions blob = Inr (sessions m)"
proof -
  have w: "wf_dict (store m)" "wf_dict (tombstones m)" "wf_dict (sessions m)"
    and r: "\<And>s. s \<in> snd ` set (sessions m) \<Longrightarrow> wf_dict (se_result s)"
    using assms(1) by (auto simp: kv_ok_def)
  note d = w [THEN dict_of_distinct [unfolded wf_dict_def [symmetric]]]
  have g: "jget blob ''store'' = Some (JObj (map (\<lambda>(k, c). (k, JObj [(''value'', JStr (b64encode (c_value c))),
                                             (''version'', JInt (c_version c))])) (store m)))"
    "jget blob ''tombstones'' = Some (JObj (map (\<lambda>(k, v). (k, JInt v)) (tombstones m)))"
    "jget blob ''sessions'' = Some (JArr (map (\<lambda>(c, s). JArr [JStr c, JInt (se_seq s), encode_result (se_result s)]) (sessions m)))"
    using b by (auto simp: snapshot_json_def jget_def dget_def)
  show "restore_store blob = Inr (store m)" unfolding restore_store_def g
    by (simp only: option.case json.case, subst map_res_inverse)
      (auto simp: cell_of_json_def jget_def dget_def b64decode_encode d)
  show "restore_tombstones blob = Inr (tombstones m)" unfolding restore_tombstones_def g
    by (simp only: option.case json.case, subst map_res_inverse) (auto simp: d)
  have "map_res session_of_json (map (\<lambda>(c, s). JArr [JStr c, JInt (se_seq s), encode_result (se_result s)]) (sessions m))
      = Inr (sessions m)"
    by (rule map_res_inverse) (use r in \<open>force simp: session_of_json_def decode_encode_result\<close>)
  then show "restore_sessions blob = Inr (sessions m)" unfolding restore_sessions_def g by (simp add: d)
qed

lemma restore_of_snapshot:
  assumes "kv_ok m"
  shows "restore (snapshot m) m0 = (m0\<lparr>store := store m, tombstones := tombstones m, sessions := sessions m\<rparr>, Inr ())"
proof -
  obtain blob where b: "snapshot_json m = JObj blob" by (simp add: snapshot_json_def)
  obtain a t where "dumps (snapshot_json m) = a # t" by (meson dumps_nonempty neq_Nil_conv)
  then have u: "utf8_decode (snapshot m) = Some (a # t)" using utf8_decode_encode [of "dumps (snapshot_json m)"]
    by (simp only: snapshot_def)
  moreover have "loads (a # t) = Some (JObj blob)"
    using loads_dumps [OF jwf_snapshot [OF assms]] b \<open>dumps (snapshot_json m) = a # t\<close> by simp
  ultimately show ?thesis
    by (simp only: restore_def u option.case list.case) (simp add: restore_blob_def restore_fields [OF assms b] Let_def)
qed

section \<open>A small history\<close>

text \<open>A put, a delete and a put of one key, by two clients, in a table of two sessions.\<close>

definition demo_entry :: "kv_op \<Rightarrow> string \<Rightarrow> string \<Rightarrow> int \<Rightarrow> log_entry" where
  "demo_entry p k c q = \<lparr>e_term = 1, e_index = 1, op_type = op_name p, filename = k, data = op_data p,
                         client_id = c, seq_num = q\<rparr>"

definition demo_writes :: "log_entry list" where
  "demo_writes = [demo_entry (OpPut ''v'') ''k'' ''alice'' 1, demo_entry OpDelete ''k'' ''bob'' 1,
                  demo_entry (OpPut ''w'') ''k'' ''bob'' 2]"

definition demo_kv :: kv where
  "demo_kv = \<lparr>store = [(''k'', \<lparr>c_value = ''w'', c_version = 2\<rparr>)], tombstones = [],
     sessions = [(''alice'', \<lparr>se_seq = 1, se_result = [(''success'', PBool True), (''version'', PInt 1)]\<rparr>),
                 (''bob'', \<lparr>se_seq = 2, se_result = [(''success'', PBool True), (''version'', PInt 2)]\<rparr>)],
     max_sessions = 2\<rparr>"

lemmas kv_eval = demo_entry_def apply_entry_def tracked_def session_result_def apply_op_def apply_put_def
  apply_delete_def write_kv_def remember_def evict_drop kv_init_def dget_def dset_def dpop_def dget_or_def
  dmove_to_end_def

lemma demo_run: "run_kv demo_writes (kv_init 2) = demo_kv"
  by (simp add: demo_writes_def demo_kv_def kv_eval)

section \<open>Properties\<close>

text \<open>
  C14. The state machine's invariant: from an empty store, whatever the log holds, the three tables
  have no duplicate keys, every version is at least 1, no key is both stored and a tombstone, and
  no more sessions are kept than allowed.
\<close>

theorem kv_invariant:
  "kv_ok (run_kv es (kv_init n))"
  by (rule kv_ok_run [OF kv_ok_init])

text \<open>
  C11. Functional correctness: each entry the servicer builds for a put, a delete or a
  compare-and-swap that is not a retry does to the cell of its key, and returns, exactly what the
  abstract operation says, and leaves every other key alone. This covers both outcomes of a
  compare-and-swap, its three kinds of condition and the way it is encoded in the log.
\<close>

theorem kv_refines_cells:
  assumes "op_type e = op_name p" "data e = op_data p"
    and "lookup_session (client_id e) (seq_num e) (run_kv es (kv_init n)) = None"
  shows "cells (fst (apply_entry e (run_kv es (kv_init n)))) =
      (cells (run_kv es (kv_init n)))(filename e := fst (spec_op p (cells (run_kv es (kv_init n)) (filename e))))
    \<and> snd (apply_entry e (run_kv es (kv_init n))) = Inr (snd (spec_op p (cells (run_kv es (kv_init n)) (filename e))))"
proof -
  let ?m = "run_kv es (kv_init n)"
  from assms(3) have "(if tracked e then session_result (client_id e) (seq_num e) ?m else None) = None"
    by (auto simp: lookup_session_def tracked_def)
  with cells_op [OF kv_ok_run [OF kv_ok_init] assms(1,2), of es n] show ?thesis
    by (cases "apply_op e ?m") (auto simp: apply_entry_def split: sum.split)
qed

theorem kv_refines_cells_witness:
  "cells (fst (apply_entry (demo_entry (OpCas \<lparr>cr_expected = [], cr_new = ''x'', cr_absent = False, cr_version = 2\<rparr>)
       ''k'' ''carol'' 1) demo_kv)) ''k'' = (Some ''x'', 3)"
  using kv_refines_cells [where es = demo_writes and n = 2 and p = "OpCas \<lparr>cr_expected = [], cr_new = ''x'', cr_absent = False, cr_version = 2\<rparr>"
      and e = "demo_entry (OpCas \<lparr>cr_expected = [], cr_new = ''x'', cr_absent = False, cr_version = 2\<rparr>) ''k'' ''carol'' 1"]
  by (simp add: demo_run) (simp add: demo_kv_def demo_entry_def lookup_session_def session_result_def dget_def
      cells_def cas_holds_def)

text \<open>
  C12. Versions never repeat: if a key is read with the same version at two times, whatever was
  applied in between (deleting and creating it again included), it holds the same value, and its
  version at the later time is never smaller. A compare-and-swap on a version therefore succeeds
  only if the value its client read is still there: it has no ABA problem.
\<close>

theorem kv_versions_never_repeat:
  assumes "kv_get k (run_kv es (kv_init n)) = (Some v, x, True)"
    and "kv_get k (run_kv (es @ fs) (kv_init n)) = (Some w, y, True)"
  shows "x \<le> y \<and> (x = y \<longrightarrow> v = w)"
proof -
  have "later (cells (run_kv es (kv_init n)) k) (cells (run_kv fs (run_kv es (kv_init n))) k)"
    by (rule later_run [OF kv_ok_run [OF kv_ok_init]])
  with assms show ?thesis by (auto simp: kv_get_cell later_def)
qed

theorem kv_versions_never_repeat_witness:
  "\<not> kv_get ''k'' (run_kv (demo_writes @ [demo_entry OpDelete ''k'' ''bob'' 3, demo_entry (OpPut ''z'') ''k'' ''bob'' 4])
       (kv_init 2)) = (Some ''z'', 2, True)"
proof
  assume "kv_get ''k'' (run_kv (demo_writes @ [demo_entry OpDelete ''k'' ''bob'' 3, demo_entry (OpPut ''z'') ''k'' ''bob'' 4])
       (kv_init 2)) = (Some ''z'', 2, True)"
  moreover have "kv_get ''k'' (run_kv demo_writes (kv_init 2)) = (Some ''w'', 2, True)"
    by (simp add: demo_run) (simp add: demo_kv_def kv_get_def dget_def)
  ultimately show False
    using kv_versions_never_repeat [of "''k''" demo_writes 2 "''w''" 2 "[demo_entry OpDelete ''k'' ''bob'' 3,
      demo_entry (OpPut ''z'') ''k'' ''bob'' 4]" "''z''" 2] by simp
qed

text \<open>
  Exactly once: a client's write was applied with result \<open>r\<close>. Applying it again later (a retry
  that reached the log a second time) changes nothing and returns \<open>r\<close>, or the marker for a stale
  request if the client has used a later sequence number since; provided that fewer other clients
  than the session table holds have been active in between.
\<close>

lemma kv_exactly_once:
  assumes "tracked e" "lookup_session (client_id e) (seq_num e) (run_kv es (kv_init n)) = None"
    and "snd (apply_entry e (run_kv es (kv_init n))) = Inr r"
    and "card (clients fs - {client_id e}) < n" "client_id e' = client_id e" "seq_num e' = seq_num e"
  shows "apply_entry e' (run_kv (es @ e # fs) (kv_init n)) = (run_kv (es @ e # fs) (kv_init n), Inr r)
    \<or> (apply_entry e' (run_kv (es @ e # fs) (kv_init n))
         = (run_kv (es @ e # fs) (kv_init n), Inr [(''success'', PBool True), (''stale'', PBool True)])
       \<and> (\<exists>q\<in>seqs_of (client_id e) fs. seq_num e < q))"
proof -
  let ?m = "run_kv es (kv_init n)"
  have "session_result (client_id e) (seq_num e) ?m = None"
    using assms(1,2) by (auto simp: lookup_session_def tracked_def)
  moreover have "max_sessions ?m = n" by (simp add: kv_init_def)
  ultimately show ?thesis
    using retry_after [OF kv_ok_run [OF kv_ok_init] assms(1) _ assms(3) _ assms(5,6), of fs] assms(4)
    unfolding run_kv_simps(3) by simp
qed

text \<open>
  C13. Snapshots: a fresh state machine restored from a snapshot is in exactly the state the
  snapshot was taken of: values, versions, tombstones and the session table in its order of
  eviction, binary values and results included.
\<close>

theorem kv_snapshot_roundtrip:
  "apply_kv (SnapshotArg (snapshot (run_kv es (kv_init n)))) (kv_init n)
     = (run_kv es (kv_init n), Inr [(''success'', PBool True)])"
proof -
  let ?m = "run_kv es (kv_init n)"
  have "max_sessions ?m = n" by (simp add: kv_init_def)
  then have "(kv_init n)\<lparr>store := store ?m, tombstones := tombstones ?m, sessions := sessions ?m\<rparr> = ?m"
    by (simp add: kv_init_def)
  with restore_of_snapshot [OF kv_ok_run [OF kv_ok_init], of es n "kv_init n"] show ?thesis
    by (simp add: apply_kv_def)
qed

end
