(* ===== verification/Sm_Run.thy ===== *)
theory Sm_Run
  imports Raft_Run
begin

text \<open>
  The run of \<open>Raft_Run\<close> with any state machine: up to the moment the entry is committed no step
  depends on the state machine; then both nodes apply it.
\<close>

section \<open>The same steps with another state machine\<close>

definition with_sm :: "'t \<Rightarrow> 's cluster \<Rightarrow> 't cluster" where
  "with_sm s0 c = \<lparr>c_node = c_node c, c_sm = (\<lambda>_. s0), c_applied = (\<lambda>_. []), c_rv = c_rv c, c_rvr = c_rvr c,
     c_counted = c_counted c, c_ae = c_ae c, c_aer = c_aer c\<rparr>"

lemma with_sm_simps [simp]:
  "c_node (with_sm s c) = c_node c" "c_sm (with_sm s c) = (\<lambda>_. s)" "c_applied (with_sm s c) = (\<lambda>_. [])"
  "c_rv (with_sm s c) = c_rv c" "c_rvr (with_sm s c) = c_rvr c" "c_counted (with_sm s c) = c_counted c"
  "c_ae (with_sm s c) = c_ae c" "c_aer (with_sm s c) = c_aer c"
  "with_sm s (set_node n nd c) = set_node n nd (with_sm s c)"
  "with_sm s (c\<lparr>c_rv := x1\<rparr>) = with_sm s c\<lparr>c_rv := x1\<rparr>" "with_sm s (c\<lparr>c_rvr := x2\<rparr>) = with_sm s c\<lparr>c_rvr := x2\<rparr>"
  "with_sm s (c\<lparr>c_counted := x3\<rparr>) = with_sm s c\<lparr>c_counted := x3\<rparr>"
  "with_sm s (c\<lparr>c_ae := x4\<rparr>) = with_sm s c\<lparr>c_ae := x4\<rparr>" "with_sm s (c\<lparr>c_aer := x5\<rparr>) = with_sm s c\<lparr>c_aer := x5\<rparr>"
  "with_sm s (c\<lparr>c_sm := x6, c_applied := x7\<rparr>) = with_sm s c"
  by (simp_all add: with_sm_def set_node_def)

lemma with_sm_step:
  assumes "cstep ids f sm0 c c'" "c_applied c = (\<lambda>_. [])" "c_applied c' = (\<lambda>_. [])"
  shows "cstep ids g s0 (with_sm s0 c) (with_sm s0 c')"
  using assms(1)
proof cases
  case (apply_one n)
  have q: "apply_queue (c_node c n) = []"
  proof (rule ccontr)
    assume "apply_queue (c_node c n) \<noteq> []"
    then obtain p ps where "apply_queue (c_node c n) = p # ps" by (auto simp: neq_Nil_conv)
    then have "length (c_applied c' n) = Suc (length (c_applied c n))"
      using apply_one by (simp add: c_apply_def set_node_def split: prod.splits)
    with assms(3) show False by simp
  qed
  then have "with_sm s0 c' = c_apply g n (with_sm s0 c)"
    using apply_one(1) by (simp add: with_sm_def c_apply_def applier_apply_def set_node_def fun_upd_idem)
  with cstep.apply_one [OF apply_one(2)] show ?thesis by simp
next
  case (restart n)
  have "with_sm s0 c' = c_restart s0 n (with_sm s0 c)"
    using restart(1) by (simp add: with_sm_def c_restart_def set_node_def Let_def fun_upd_idem)
  with cstep.restart [OF restart(2)] show ?thesis by simp
next
  case timeout
  with cstep.timeout [where c = "with_sm s0 c"] show ?thesis by simp
next
  case send_vote
  with cstep.send_vote [where c = "with_sm s0 c"] show ?thesis by simp
next
  case recv_vote
  with cstep.recv_vote [where c = "with_sm s0 c"] show ?thesis by simp
next
  case vote_reply
  with cstep.vote_reply [where c = "with_sm s0 c"] show ?thesis by simp
next
  case finish
  with cstep.finish [where c = "with_sm s0 c"] show ?thesis by simp
next
  case heartbeat
  with cstep.heartbeat [where c = "with_sm s0 c"] show ?thesis by simp
next
  case send_append
  with cstep.send_append [where c = "with_sm s0 c"] show ?thesis by simp
next
  case recv_append
  with cstep.recv_append [where c = "with_sm s0 c"] show ?thesis by simp
next
  case recv_append_fails
  with cstep.recv_append_fails [where c = "with_sm s0 c"] show ?thesis by simp
next
  case append_reply
  with cstep.append_reply [where c = "with_sm s0 c"] show ?thesis by simp
next
  case client
  with cstep.client [where c = "with_sm s0 c"] show ?thesis by simp
next
  case client_end
  with cstep.client_end [where c = "with_sm s0 c"] show ?thesis by simp
next
  case collect
  with cstep.collect [where c = "with_sm s0 c"] show ?thesis by simp
next
  case isolate
  with cstep.isolate [where c = "with_sm s0 c"] show ?thesis by simp
next
  case cut_vote
  with cstep.cut_vote [where c = "with_sm s0 c"] show ?thesis by simp
next
  case cut_append
  with cstep.cut_append [where c = "with_sm s0 c"] show ?thesis by simp
qed

section \<open>Nothing is applied up to the commit\<close>

lemma nothing_applied:
  "c_applied demo_0 = (\<lambda>_. [])" "c_applied demo_1 = (\<lambda>_. [])" "c_applied demo_2 = (\<lambda>_. [])"
  "c_applied demo_3 = (\<lambda>_. [])" "c_applied demo_4 = (\<lambda>_. [])" "c_applied demo_5 = (\<lambda>_. [])"
  "c_applied (trace_6 op) = (\<lambda>_. [])" "c_applied (trace_7 op) = (\<lambda>_. [])" "c_applied (trace_8 op) = (\<lambda>_. [])"
  "c_applied (trace_9 op) = (\<lambda>_. [])" "c_applied (trace_10 op) = (\<lambda>_. [])" "c_applied (trace_11 op) = (\<lambda>_. [])"
  "c_applied (trace_11a op) = (\<lambda>_. [])" "c_applied (trace_12 op) = (\<lambda>_. [])"
proof -
  show a: "c_applied demo_0 = (\<lambda>_. [])" by (simp add: demo_0_def c_init_def)
  show "c_applied demo_1 = (\<lambda>_. [])" by (simp add: demo_1_def set_node_sm a)
  show b: "c_applied demo_2 = (\<lambda>_. [])" by (simp add: demo_2_def demo_1_def set_node_sm a)
  show c: "c_applied demo_3 = (\<lambda>_. [])" by (simp add: demo_3_eq set_node_sm b)
  show d: "c_applied demo_4 = (\<lambda>_. [])" by (simp add: demo_4_def set_node_sm c)
  show e: "c_applied demo_5 = (\<lambda>_. [])" by (simp add: demo_5_def set_node_sm d)
  show f: "c_applied (trace_6 op) = (\<lambda>_. [])" by (simp add: trace_6_def begin_6 set_node_sm e)
  show g: "c_applied (trace_7 op) = (\<lambda>_. [])" by (simp add: trace_7_def f)
  show h: "c_applied (trace_8 op) = (\<lambda>_. [])" by (simp add: trace_8_def set_node_sm g)
  show i: "c_applied (trace_9 op) = (\<lambda>_. [])" by (simp add: trace_9_def set_node_sm h)
  show j: "c_applied (trace_10 op) = (\<lambda>_. [])" by (simp add: trace_10_def i)
  show k: "c_applied (trace_11 op) = (\<lambda>_. [])" by (simp add: trace_11_def set_node_sm j)
  show "c_applied (trace_11a op) = (\<lambda>_. [])" "c_applied (trace_12 op) = (\<lambda>_. [])"
    by (simp_all add: trace_11a_def trace_12_def set_node_sm k)
qed

section \<open>The run\<close>

definition sm_5 :: "'s \<Rightarrow> 's cluster" where "sm_5 s0 = with_sm s0 demo_5"
definition sm_12 :: "string \<Rightarrow> 's \<Rightarrow> 's cluster" where "sm_12 op s0 = with_sm s0 (trace_12 op)"

lemma sm_reachable_5: "reachable demo_ids demo_cfg f s0 (sm_5 s0)"
proof -
  have i: "with_sm s0 demo_0 = c_init demo_cfg s0" by (simp add: with_sm_def demo_0_def c_init_def)
  note s = with_sm_step [where g = f and ?s0.0 = s0]
  have "(cstep demo_ids f s0)\<^sup>*\<^sup>* (with_sm s0 demo_0) (sm_5 s0)" unfolding sm_5_def
    using s [OF single_steps_5(1) nothing_applied(1,2)] s [OF single_steps_5(2) nothing_applied(2,3)]
      s [OF single_steps_5(3) nothing_applied(3,4)] s [OF single_steps_5(4) nothing_applied(4,5)]
      s [OF single_steps_5(5) nothing_applied(5,6)]
    by (meson converse_rtranclp_into_rtranclp rtranclp.rtrancl_refl)
  with i config show ?thesis by (simp add: reachable_def)
qed

lemma sm_steps_12: "(cstep demo_ids f s0)\<^sup>*\<^sup>* (with_sm s0 (trace_6 op)) (sm_12 op s0)"
proof -
  note s = with_sm_step [where g = f and ?s0.0 = s0]
  show ?thesis unfolding sm_12_def
    using s [OF single_steps_9(1) nothing_applied(7,8)] s [OF single_steps_9(2) nothing_applied(8,9)]
      s [OF single_steps_9(3) nothing_applied(9,10)] s [OF single_steps_12(1) nothing_applied(10,11)]
      s [OF single_steps_12(2) nothing_applied(11,12)] s [OF single_steps_12(3) nothing_applied(12,13)]
      s [OF single_steps_12(4) nothing_applied(13,14)]
    by (meson converse_rtranclp_into_rtranclp rtranclp.rtrancl_refl)
qed

type_synonym 's apply_fn = "log_entry \<Rightarrow> 's \<Rightarrow> 's \<times> (exn + (string, pyval) dict)"

definition sm_13a :: "'s apply_fn \<Rightarrow> string \<Rightarrow> 's \<Rightarrow> 's cluster" where
  "sm_13a f op s0 = c_apply f 0 (sm_12 op s0)"
definition sm_13 :: "'s apply_fn \<Rightarrow> string \<Rightarrow> 's \<Rightarrow> 's cluster" where
  "sm_13 f op s0 = c_apply f 0 (sm_13a f op s0)"
definition sm_14a :: "'s apply_fn \<Rightarrow> string \<Rightarrow> 's \<Rightarrow> 's cluster" where
  "sm_14a f op s0 = c_apply f 1 (sm_13 f op s0)"
definition sm_14 :: "'s apply_fn \<Rightarrow> string \<Rightarrow> 's \<Rightarrow> 's cluster" where
  "sm_14 f op s0 = c_apply f 1 (sm_14a f op s0)"

lemma sm_steps_14:
  "(cstep demo_ids f s0)\<^sup>*\<^sup>* (sm_12 op s0) (sm_13 f op s0)" "(cstep demo_ids f s0)\<^sup>*\<^sup>* (sm_13 f op s0) (sm_14 f op s0)"
proof -
  have "cstep demo_ids f s0 (sm_12 op s0) (sm_13a f op s0)" unfolding sm_13a_def
    by (rule cstep.apply_one) (simp add: demo_ids_def)
  moreover have "cstep demo_ids f s0 (sm_13a f op s0) (sm_13 f op s0)" unfolding sm_13_def
    by (rule cstep.apply_one) (simp add: demo_ids_def)
  ultimately show "(cstep demo_ids f s0)\<^sup>*\<^sup>* (sm_12 op s0) (sm_13 f op s0)"
    by (meson converse_rtranclp_into_rtranclp rtranclp.rtrancl_refl)
  have "cstep demo_ids f s0 (sm_13 f op s0) (sm_14a f op s0)" unfolding sm_14a_def
    by (rule cstep.apply_one) (simp add: demo_ids_def)
  moreover have "cstep demo_ids f s0 (sm_14a f op s0) (sm_14 f op s0)" unfolding sm_14_def
    by (rule cstep.apply_one) (simp add: demo_ids_def)
  ultimately show "(cstep demo_ids f s0)\<^sup>*\<^sup>* (sm_13 f op s0) (sm_14 f op s0)"
    by (meson converse_rtranclp_into_rtranclp rtranclp.rtrancl_refl)
qed

lemma trace_entry: "trace_entries op ! 0 = noop_entry 1 1" "trace_entries op ! 1 = client_entry 1 2 op ''x'' ''v'' ''c'' 1"
  by (simp_all add: trace_entries_def)

lemma sm_start: "run_apply f (trace_entries op ! 0) m = (m, RNone)"
  unfolding trace_entry run_apply_noop by simp

lemma sm_nodes_13a:
  "c_node (sm_13a f op s0) 0 = c_node (trace_9 op) 0\<lparr>last_applied := 2, apply_queue := [(2, trace_entries op ! 1)]\<rparr>"
  "c_sm (sm_13a f op s0) 0 = s0" "c_applied (sm_13a f op s0) 0 = [trace_entries op ! 0]"
  "c_node (sm_13a f op s0) 1 = c_node (trace_12 op) 1" "c_sm (sm_13a f op s0) 1 = s0" "c_applied (sm_13a f op s0) 1 = []"
proof -
  have q: "apply_queue (c_node (sm_12 op s0) 0) = (1, trace_entries op ! 0) # [(2, trace_entries op ! 1)]"
    unfolding sm_12_def by (simp add: nodes_12)
  show "c_node (sm_13a f op s0) 0 = c_node (trace_9 op) 0\<lparr>last_applied := 2, apply_queue := [(2, trace_entries op ! 1)]\<rparr>"
    unfolding sm_13a_def c_apply_head(1) [OF q] sm_start
    by (simp add: sm_12_def nodes_12 resolve_waiter_def dget_def nodes_9 del: One_nat_def)
  show "c_sm (sm_13a f op s0) 0 = s0" "c_applied (sm_13a f op s0) 0 = [trace_entries op ! 0]"
    unfolding sm_13a_def c_apply_head(2,3) [OF q] sm_start by (simp_all add: sm_12_def)
  show "c_node (sm_13a f op s0) 1 = c_node (trace_12 op) 1" "c_sm (sm_13a f op s0) 1 = s0" "c_applied (sm_13a f op s0) 1 = []"
    unfolding sm_13a_def by (simp_all add: c_apply_other sm_12_def del: One_nat_def)
qed

lemma sm_nodes_13:
  assumes r: "run_apply f (client_entry 1 2 op ''x'' ''v'' ''c'' 1) s0 = (s1, RDict d)"
  shows "c_node (sm_13 f op s0) 0 = c_node (trace_9 op) 0\<lparr>last_applied := 2, commit_waiters := [],
      waiters := [\<lparr>w_index = 2, w_term = 1, w_client = ''c'', w_seq = 1, w_event = True, w_result = RDict d\<rparr>]\<rparr>"
    and "c_sm (sm_13 f op s0) 0 = s1" "c_applied (sm_13 f op s0) 0 = trace_entries op"
    and "c_node (sm_13 f op s0) 1 = c_node (trace_12 op) 1" "c_sm (sm_13 f op s0) 1 = s0" "c_applied (sm_13 f op s0) 1 = []"
proof -
  have q: "apply_queue (c_node (sm_13a f op s0) 0) = (2, trace_entries op ! 1) # []" unfolding sm_nodes_13a by simp
  show "c_node (sm_13 f op s0) 0 = c_node (trace_9 op) 0\<lparr>last_applied := 2, commit_waiters := [],
      waiters := [\<lparr>w_index = 2, w_term = 1, w_client = ''c'', w_seq = 1, w_event = True, w_result = RDict d\<rparr>]\<rparr>"
    unfolding sm_13_def c_apply_head(1) [OF q] sm_nodes_13a
    unfolding trace_entry r by (simp add: resolve_waiter_def dget_def dpop_def nodes_9 client_entry_def)
  show "c_sm (sm_13 f op s0) 0 = s1" unfolding sm_13_def c_apply_head(2) [OF q] sm_nodes_13a unfolding trace_entry r by simp
  show "c_applied (sm_13 f op s0) 0 = trace_entries op" unfolding sm_13_def c_apply_head(3) [OF q] sm_nodes_13a
    by (simp add: trace_entries_def)
  show "c_node (sm_13 f op s0) 1 = c_node (trace_12 op) 1" "c_sm (sm_13 f op s0) 1 = s0" "c_applied (sm_13 f op s0) 1 = []"
    unfolding sm_13_def by (simp_all add: c_apply_other sm_nodes_13a del: One_nat_def)
qed

lemma sm_nodes_14:
  assumes r: "run_apply f (client_entry 1 2 op ''x'' ''v'' ''c'' 1) s0 = (s1, RDict d)"
  shows "c_node (sm_14 f op s0) 0 = c_node (sm_13 f op s0) 0" "c_sm (sm_14 f op s0) 0 = s1"
    and "c_applied (sm_14 f op s0) 0 = trace_entries op"
    and "c_node (sm_14 f op s0) 1 = c_node (trace_9 op) 1\<lparr>commit_index := 2, last_applied := 2\<rparr>"
    and "c_sm (sm_14 f op s0) 1 = s1" "c_applied (sm_14 f op s0) 1 = trace_entries op"
proof -
  note n = sm_nodes_13 [OF r]
  show "c_node (sm_14 f op s0) 0 = c_node (sm_13 f op s0) 0" "c_sm (sm_14 f op s0) 0 = s1"
    "c_applied (sm_14 f op s0) 0 = trace_entries op"
    unfolding sm_14_def sm_14a_def by (simp_all add: c_apply_other n)
  have q: "apply_queue (c_node (sm_13 f op s0) 1) = (1, trace_entries op ! 0) # [(2, trace_entries op ! 1)]"
    unfolding n nodes_12 by simp
  have a: "c_node (sm_14a f op s0) 1 = c_node (trace_9 op) 1\<lparr>commit_index := 2, last_applied := 2,
      apply_queue := [(2, trace_entries op ! 1)]\<rparr>"
    unfolding sm_14a_def c_apply_head(1) [OF q] sm_start
    by (simp add: n nodes_12 resolve_waiter_def dget_def nodes_9 del: One_nat_def)
  have b: "c_sm (sm_14a f op s0) 1 = s0" "c_applied (sm_14a f op s0) 1 = [trace_entries op ! 0]"
    unfolding sm_14a_def c_apply_head(2,3) [OF q] sm_start by (simp_all add: n del: One_nat_def)
  have q': "apply_queue (c_node (sm_14a f op s0) 1) = (2, trace_entries op ! 1) # []" unfolding a by simp
  show "c_node (sm_14 f op s0) 1 = c_node (trace_9 op) 1\<lparr>commit_index := 2, last_applied := 2\<rparr>"
    unfolding sm_14_def c_apply_head(1) [OF q'] a b unfolding trace_entry r
    by (simp add: resolve_waiter_def dget_def nodes_9 del: One_nat_def)
  show "c_sm (sm_14 f op s0) 1 = s1" unfolding sm_14_def c_apply_head(2) [OF q'] b unfolding trace_entry r by simp
  show "c_applied (sm_14 f op s0) 1 = trace_entries op" unfolding sm_14_def c_apply_head(3) [OF q'] b
    by (simp add: trace_entries_def)
qed

end
