(* ===== verification/Kv_Run.thy ===== *)
theory Kv_Run
  imports Raft_Theorems Kv_Theorems Sm_Run
begin

text \<open>
  A run of the key-value service on the three nodes of \<open>Raft_Run\<close>: node 0, elected leader,
  commits a client's put with node 1, both apply it, and node 0 serves a linearizable read. The
  election and the replication of the put are the run of \<open>Sm_Run\<close>.
\<close>

section \<open>Up to the commit of the put\<close>

abbreviation "kv_step \<equiv> cstep demo_ids kv_apply_fn (kv_init 2)"
abbreviation "kv_5 \<equiv> sm_5 (kv_init 2)"
abbreviation "kv_12 \<equiv> sm_12 ''put'' (kv_init 2)"
abbreviation "kv_13 \<equiv> sm_13 kv_apply_fn ''put'' (kv_init 2)"
abbreviation "kv_14 \<equiv> sm_14 kv_apply_fn ''put'' (kv_init 2)"

definition kv_done :: kv where
  "kv_done = \<lparr>store = [(''x'', \<lparr>c_value = ''v'', c_version = 1\<rparr>)], tombstones = [],
     sessions = [(''c'', \<lparr>se_seq = 1, se_result = [(''success'', PBool True), (''version'', PInt 1)]\<rparr>)],
     max_sessions = 2\<rparr>"

lemma run_put: "run_apply kv_apply_fn (client_entry 1 2 ''put'' ''x'' ''v'' ''c'' 1) (kv_init 2) =
    (kv_done, RDict [(''success'', PBool True), (''version'', PInt 1)])"
proof -
  have "apply_entry \<lparr>e_term = 1, e_index = 2, op_type = ''put'', filename = ''x'', data = ''v'', client_id = ''c'',
      seq_num = 1\<rparr> (kv_init 2) = (kv_done, Inr [(''success'', PBool True), (''version'', PInt 1)])"
    by (simp add: kv_eval kv_done_def)
  moreover have "(client_entry 1 2 ''put'' ''x'' ''v'' ''c'' 1)\<lparr>data := ''v''\<rparr> = \<lparr>e_term = 1, e_index = 2,
      op_type = ''put'', filename = ''x'', data = ''v'', client_id = ''c'', seq_num = 1\<rparr>"
    by (simp add: client_entry_def)
  ultimately show ?thesis
    by (simp add: run_apply_client kv_apply_fn_def apply_kv_def)
qed

lemmas kv_reachable_5 = sm_reachable_5 [of kv_apply_fn "kv_init 2"]
lemmas kv_steps_12 = sm_steps_12 [of kv_apply_fn "kv_init 2" "''put''"]
lemmas kv_steps_14 = sm_steps_14 [of kv_apply_fn "kv_init 2" "''put''"]
lemmas kv_nodes_13 = sm_nodes_13 [OF run_put]
lemmas kv_nodes_14 = sm_nodes_14 [OF run_put]

section \<open>A linearizable read\<close>

definition kv_noop :: log_entry where
  "kv_noop = client_entry 1 3 ''noop'' [] [] [] 0"

definition kv_leader :: raft_node where
  "kv_leader = \<lparr>node_id = 0, peers = [(1, ''n1''), (2, ''n2'')], current_term = 1, voted_for = Some 0,
      log = demo_entries @ [kv_noop], commit_index = 2, last_applied = 2, state = Leader, leader_id = Some 0,
      next_index = [(1, 3), (2, 1), (0, 4)], match_index = [(1, 2), (2, 0), (0, 3)],
      election_timer = False, hb_threads = 1, ballots = [], apply_queue = [],
      waiters = [\<lparr>w_index = 2, w_term = 1, w_client = ''c'', w_seq = 1, w_event = True,
                   w_result = RDict [(''success'', PBool True), (''version'', PInt 1)]\<rparr>,
                 \<lparr>w_index = 3, w_term = 1, w_client = [], w_seq = 0, w_event = False, w_result = RNone\<rparr>],
      commit_waiters = [(3, 1)], isolated = False, heal_timer = False,
      disk_hard = Some (dumps (hard_state_json 1 (Some 0))),
      disk_log = Some (dumps (JArr (map entry_json (demo_entries @ [kv_noop]))))\<rparr>"

definition kv_15 :: "kv cluster" where
  "kv_15 = set_node 0 kv_leader kv_14"

definition kv_ae :: ae_args where
  "kv_ae = \<lparr>ae_term = 1, ae_leader = 0, ae_prev_idx = 2, ae_prev_term = 1, ae_entries = [kv_noop], ae_commit = 2\<rparr>"

definition kv_16 :: "kv cluster" where
  "kv_16 = kv_15\<lparr>c_ae := insert (1, kv_ae) (c_ae kv_15)\<rparr>"

definition kv_17 :: "kv cluster" where
  "kv_17 = set_node 1 (fst (handle_append_entries kv_ae (c_node kv_16 1)))
             (kv_16\<lparr>c_aer := insert (1, kv_ae, demo_aer) (c_aer kv_16)\<rparr>)"

definition kv_18 :: "kv cluster" where
  "kv_18 = set_node 0 (handle_append_reply 1 kv_ae demo_aer kv_leader) kv_17"

definition kv_19 :: "kv cluster" where
  "kv_19 = set_node 0 (applier_collect (c_node kv_18 0)) kv_18"

definition kv_20 :: "kv cluster" where
  "kv_20 = c_apply kv_apply_fn 0 kv_19"

lemma kv_begin_15: "append_entry_begin ''noop'' [] [] [] 0 (c_node kv_14 0) = Inr (kv_leader, 3, 1)"
proof -
  have "log (c_node kv_14 0) = demo_entries" by (simp add: kv_nodes_14 kv_nodes_13 nodes_9)
  then have "last_log_index (c_node kv_14 0) = 2" by (simp add: trace_entries_def last_log_index_def client_entry_def)
  then show ?thesis
    by (simp add: append_entry_begin_def Let_def persist_log_def kv_leader_def kv_noop_def)
      (simp add: kv_nodes_14 kv_nodes_13 nodes_9 dset_def)
qed

lemma kv_step_15: "kv_step kv_14 kv_15"
  unfolding kv_15_def by (rule cstep.client [OF _ kv_begin_15]) (simp add: demo_ids_def)

lemma kv_step_16: "kv_step kv_15 kv_16"
proof -
  have "append_entries_msg kv_leader 1 = Inr (Some kv_ae)"
    by (simp add: append_entries_msg_def kv_leader_def dget_or_def dget_def kv_ae_def trace_entries_def
        client_entry_def nth_Cons' Let_def del: One_nat_def)
  then show ?thesis unfolding kv_16_def
    by (intro cstep.send_append [of 0]) (simp_all add: demo_ids_def kv_15_def set_node_def kv_leader_def dkeys_def)
qed

lemma kv_append_17: "\<exists>nd. handle_append_entries kv_ae (c_node kv_16 1) = (nd, Inr demo_aer)"
proof -
  have n: "c_node kv_16 1 = c_node demo_9 1\<lparr>commit_index := 2, last_applied := 2\<rparr>"
    by (simp add: kv_16_def kv_15_def set_node_def kv_nodes_14 del: One_nat_def)
  show ?thesis unfolding n
    by (simp add: nodes_9 kv_ae_def demo_aer_def trace_entries_def handle_append_entries_def nth_Cons'
      ae_follow_def ae_accept_def reset_election_timer_def last_log_index_def persist_log_def client_entry_def
      noop_entry_def Let_def del: dumps.simps One_nat_def)
qed

lemma kv_step_17: "kv_step kv_16 kv_17"
proof -
  obtain nd where "handle_append_entries kv_ae (c_node kv_16 1) = (nd, Inr demo_aer)" using kv_append_17 by blast
  then show ?thesis unfolding kv_17_def
    using cstep.recv_append [of 1 kv_ae kv_16 nd demo_aer demo_ids kv_apply_fn "kv_init 2"]
    by (simp add: kv_16_def kv_15_def set_node_def kv_nodes_14 nodes_9 del: One_nat_def)
qed

lemma kv_node_17: "c_node kv_17 0 = kv_leader" "c_sm kv_17 0 = kv_done" "c_applied kv_17 0 = demo_entries"
  by (simp_all add: kv_17_def kv_16_def kv_15_def set_node_def kv_nodes_14)

lemma kv_step_18: "kv_step kv_17 kv_18"
proof -
  have "(1, kv_ae, demo_aer) \<in> c_aer kv_17" by (simp add: kv_17_def set_node_def)
  then show ?thesis
    using cstep.append_reply [of 1 kv_ae demo_aer kv_17 0 demo_ids kv_apply_fn "kv_init 2"]
    by (simp add: kv_18_def kv_node_17 kv_ae_def kv_leader_def)
qed

lemma advance_from_three:
  "advance_from nd 3 =
     (if 3 \<le> commit_index nd then nd
      else if replicated_count nd 3 \<ge> majority nd \<and> 3 \<le> length (log nd) \<and> e_term (log nd ! 2) = current_term nd
           then nd\<lparr>commit_index := 3\<rparr>
           else advance_from nd 2)"
  using advance_from.simps(2) [of nd 2] by (simp add: numeral_3_eq_3 numeral_2_eq_2)

lemma kv_node_18: "c_node kv_18 0 = kv_leader\<lparr>commit_index := 3, match_index := [(1, 3), (2, 0), (0, 3)],
    next_index := [(1, 4), (2, 1), (0, 4)]\<rparr>"
  by (simp add: kv_18_def set_node_def handle_append_reply_def advance_commit_index_def kv_leader_def kv_ae_def
      demo_aer_def trace_entries_def kv_noop_def last_log_index_def majority_def replicated_count_def client_entry_def noop_entry_def
      dget_or_def dget_def dset_def dvalues_def Let_def advance_from_three nth_Cons' del: hex.simps dumps.simps One_nat_def)

lemma kv_step_19: "kv_step kv_18 kv_19"
  unfolding kv_19_def
  by (rule cstep.collect) (simp_all add: demo_ids_def kv_node_18, simp add: kv_leader_def)

lemma kv_step_20: "kv_step kv_19 kv_20"
  unfolding kv_20_def by (rule cstep.apply_one) (simp add: demo_ids_def)

lemma kv_steps_20: "kv_step\<^sup>*\<^sup>* kv_15 kv_20"
  using kv_step_16 kv_step_17 kv_step_18 kv_step_19 kv_step_20
  by (meson converse_rtranclp_into_rtranclp rtranclp.rtrancl_refl)

lemma kv_node_20:
  "c_sm kv_20 0 = kv_done" "c_applied kv_20 0 = demo_entries @ [kv_noop]"
  "waiters (c_node kv_20 0) = [waiters kv_leader ! 0,
     \<lparr>w_index = 3, w_term = 1, w_client = [], w_seq = 0, w_event = True, w_result = RNone\<rparr>]"
proof -
  have q: "apply_queue (c_node kv_19 0) = (3, kv_noop) # []"
  proof -
    have l: "last_applied kv_leader = 2" "log kv_leader ! 2 = kv_noop" "length (log kv_leader) = 3"
      by (simp_all add: kv_leader_def trace_entries_def)
    have u: "[Suc 2..<Suc 3] = [3]" by (simp add: upt_rec)
    show ?thesis by (simp add: kv_19_def set_node_def applier_collect_def to_apply_def kv_node_18 l u)
  qed
  have r: "run_apply kv_apply_fn kv_noop m = (m, RNone)" for m
    by (simp add: run_apply_def kv_noop_def client_entry_def)
  have n: "c_sm kv_19 0 = kv_done" "c_applied kv_19 0 = demo_entries"
    by (simp_all add: kv_19_def kv_18_def set_node_sm kv_node_17)
  show "c_sm kv_20 0 = kv_done" "c_applied kv_20 0 = demo_entries @ [kv_noop]"
    unfolding kv_20_def c_apply_head(2,3) [OF q] r n by simp_all
  have w: "waiters (c_node kv_19 0) = waiters kv_leader" "commit_waiters (c_node kv_19 0) = [(3, 1)]"
    by (simp_all add: kv_19_def set_node_def applier_collect_def kv_node_18) (simp_all add: kv_leader_def)
  show "waiters (c_node kv_20 0) = [waiters kv_leader ! 0,
     \<lparr>w_index = 3, w_term = 1, w_client = [], w_seq = 0, w_event = True, w_result = RNone\<rparr>]"
    unfolding kv_20_def c_apply_head(1) [OF q] r
    by (simp add: resolve_waiter_def w dget_def) (simp add: kv_leader_def kv_noop_def client_entry_def)
qed

end
