(* ===== verification/Kv_Cluster.thy ===== *)
theory Kv_Cluster
  imports Kv_Run
begin

text \<open>
  The key-value service as a whole: \<open>RaftKVServicer\<close> on every node of a cluster whose
  applier feeds \<open>KVStateMachine.apply\<close>. A write that was acknowledged is in every state a
  linearizable read sees afterwards, whichever nodes serve the two, and a retry of it is answered
  from the replicated session table on any node that has applied it.
\<close>

section \<open>The state machine of a node\<close>

text \<open>The log entries as the state machine receives them: no-ops are not handed to it.\<close>

definition kv_entry :: "log_entry \<Rightarrow> log_entry list" where
  "kv_entry e =
     (if op_type e = ''noop'' \<or> op_type e = ''_snapshot'' then []
      else case (if data e = [] then Some [] else fromhex (data e)) of None \<Rightarrow> [] | Some b \<Rightarrow> [e\<lparr>data := b\<rparr>])"

definition kv_entries :: "log_entry list \<Rightarrow> log_entry list" where
  "kv_entries es = concat (map kv_entry es)"

lemma kv_entries_simps [simp]: "kv_entries [] = []" "kv_entries (e # es) = kv_entry e @ kv_entries es"
  "kv_entries (es @ fs) = kv_entries es @ kv_entries fs"
  by (simp_all add: kv_entries_def)

lemma run_apply_kv: "fst (run_apply kv_apply_fn e m) = run_kv (kv_entry e) m"
  by (cases "apply_entry (e\<lparr>data := the (if data e = [] then Some [] else fromhex (data e))\<rparr>) m")
    (auto simp: run_apply_def kv_entry_def kv_apply_fn_def apply_kv_def split: option.split sum.split)

lemma run_entries_kv: "run_entries kv_apply_fn m es = run_kv (kv_entries es) m"
proof -
  have "foldl (\<lambda>m e. fst (run_apply kv_apply_fn e m)) m es = run_kv (kv_entries es) m"
    by (induction es arbitrary: m) (simp_all add: run_apply_kv)
  then show ?thesis by (simp add: run_entries_def)
qed

text \<open>A write as \<open>append_entry\<close> logs it comes out of the applier as it went in.\<close>

lemma kv_entry_client:
  assumes "op \<noteq> ''noop''" "op \<noteq> ''_snapshot''"
  shows "kv_entry (client_entry t i op k b c q) =
      [\<lparr>e_term = t, e_index = i, op_type = op, filename = k, data = b, client_id = c, seq_num = q\<rparr>]"
    and "run_apply kv_apply_fn (client_entry t i op k b c q) m =
      (let (m', r) = apply_entry \<lparr>e_term = t, e_index = i, op_type = op, filename = k, data = b, client_id = c, seq_num = q\<rparr> m
       in (m', case r of Inl x \<Rightarrow> RExn x | Inr d \<Rightarrow> RDict d))"
  using assms
  by (auto simp: kv_entry_def client_entry_def run_apply_def kv_apply_fn_def apply_kv_def Let_def split: prod.split sum.split)

section \<open>Acknowledged writes\<close>

text \<open>The store as it was when the entry at index \<open>i\<close> of this log was applied.\<close>

definition kv_before :: "nat \<Rightarrow> nat \<Rightarrow> log_entry list \<Rightarrow> kv" where
  "kv_before N i l = run_kv (kv_entries (take (i - 1) l)) (kv_init N)"

definition kv_after :: "nat \<Rightarrow> nat \<Rightarrow> log_entry list \<Rightarrow> kv" where
  "kv_after N i l = run_kv (kv_entries (take i l)) (kv_init N)"

lemma kv_after_eq:
  assumes "0 < i" "i \<le> length l" "l ! (i - 1) = client_entry t i op k b c q" "op \<noteq> ''noop''" "op \<noteq> ''_snapshot''"
  shows "kv_after N i l = fst (apply_entry \<lparr>e_term = t, e_index = i, op_type = op, filename = k, data = b,
      client_id = c, seq_num = q\<rparr> (kv_before N i l))"
proof -
  have "take i l = take (i - 1) l @ [l ! (i - 1)]" using assms(1,2) take_Suc_conv_app_nth [of "i - 1" l] by simp
  then show ?thesis by (simp add: kv_after_def kv_before_def assms(3) kv_entry_client(1) [OF assms(4,5)] del: One_nat_def)
qed

lemma commit_acknowledged:
  assumes R: "reachable ids cfg kv_apply_fn (kv_init N) c" and n: "n \<in> ids"
    and b: "commit_begin op key d cid sq m0 nd1 (c_node c n) = Pending nd i ref"
    and st: "(cstep ids kv_apply_fn (kv_init N))\<^sup>*\<^sup>* (set_node n nd c) c'"
    and w: "own_waiter c' n ref i (current_term (c_node c n))"
    and e: "commit_end i ref (c_node c' n) = (nd', Some r, [])"
    and op: "op \<noteq> ''noop''" "op \<noteq> ''_snapshot''"
  defines "x \<equiv> \<lparr>e_term = current_term (c_node c n), e_index = i, op_type = op, filename = key, data = d,
      client_id = cid, seq_num = sq\<rparr>"
  shows "snd (apply_entry x (kv_before N i (log (c_node c' n)))) = Inr r"
    and "kv_after N i (log (c_node c' n)) = fst (apply_entry x (kv_before N i (log (c_node c' n))))"
    and "0 < i" "i \<le> commit_index (c_node c' n)" "reachable ids cfg kv_apply_fn (kv_init N) c'"
    and "(cstep ids kv_apply_fn (kv_init N))\<^sup>*\<^sup>* c c'"
proof -
  from b have a: "append_entry_begin op key d cid sq (c_node c n) = Inr (nd, i, ref)"
    by (auto simp: commit_begin_def split: option.splits if_splits sum.splits)
  from e have f: "snd (append_entry_end i ref (c_node c' n)) = Inr (Some r)"
    by (auto simp: commit_end_def split: prod.splits sum.splits)
  from w have w': "ref < length (waiters (c_node c' n))" "w_index (waiters (c_node c' n) ! ref) = i"
    "w_term (waiters (c_node c' n) ! ref) = current_term (c_node c n)" by (simp_all add: own_waiter_def)
  note own = own_entry [OF R n a st w' f]
  let ?l = "log (c_node c' n)"
  have len: "i \<le> length ?l"
    using arg_cong [OF applied_prefix(1) [OF own(7) n], of length] own(3) by simp
  show "kv_after N i ?l = fst (apply_entry x (kv_before N i ?l))"
    unfolding x_def by (rule kv_after_eq [OF own(1) len own(4) op])
  show "snd (apply_entry x (kv_before N i ?l)) = Inr r"
    using own(6) unfolding kv_entry_client(2) [OF op] run_entries_kv kv_before_def [symmetric] x_def [symmetric]
    by (cases "apply_entry x (kv_before N i ?l)") (auto split: sum.splits)
  show "0 < i" "i \<le> commit_index (c_node c' n)" "reachable ids cfg kv_apply_fn (kv_init N) c'"
    "(cstep ids kv_apply_fn (kv_init N))\<^sup>*\<^sup>* c c'" by (rule own(1) own(2) own(7) own(8))+
qed

lemma kv_ok_before: "kv_ok (kv_before N i l)"
  by (simp add: kv_before_def kv_ok_run kv_ok_init)

lemma fresh_entry:
  assumes "kv_ok m" "op_type x = op_name p" "data x = op_data p" "lookup_session (client_id x) (seq_num x) m = None"
  shows "cells (fst (apply_entry x m)) = (cells m)(filename x := fst (spec_op p (cells m (filename x))))"
    and "snd (apply_entry x m) = Inr (snd (spec_op p (cells m (filename x))))"
proof -
  from assms(4) have "(if tracked x then session_result (client_id x) (seq_num x) m else None) = None"
    by (auto simp: lookup_session_def tracked_def)
  with cells_op [OF assms(1-3)] show "cells (fst (apply_entry x m)) = (cells m)(filename x := fst (spec_op p (cells m (filename x))))"
    "snd (apply_entry x m) = Inr (snd (spec_op p (cells m (filename x))))"
    by (cases "apply_op x m"; auto simp: apply_entry_def split: sum.split)+
qed

lemma op_name_not [simp]: "op_name p \<noteq> ''noop''" "op_name p \<noteq> ''_snapshot''"
  by (cases p; simp)+

section \<open>Reads after writes\<close>

text \<open>What a linearizable read that was answered has seen: the state of a prefix of the log that contains the write.\<close>

lemma read_after_commit:
  assumes R: "reachable ids cfg kv_apply_fn (kv_init N) c1" and n: "n \<in> ids" and i: "i \<le> commit_index (c_node c1 n)"
    and st: "(cstep ids kv_apply_fn (kv_init N))\<^sup>*\<^sup>* c1 c2" and l: "l \<in> ids"
    and a: "append_entry_begin ''noop'' [] [] [] 0 (c_node c2 l) = Inr (nd, j, ref)"
    and st': "(cstep ids kv_apply_fn (kv_init N))\<^sup>*\<^sup>* (set_node l nd c2) c3"
    and w: "own_waiter c3 l ref j (current_term (c_node c2 l))"
    and e: "snd (append_entry_end j ref (c_node c3 l)) = Inr r"
  shows "\<exists>fs. c_sm c3 l = run_kv fs (kv_after N i (log (c_node c1 n)))"
proof -
  from w have w': "ref < length (waiters (c_node c3 l))" "w_index (waiters (c_node c3 l) ! ref) = j"
    "w_term (waiters (c_node c3 l) ! ref) = current_term (c_node c2 l)" by (simp_all add: own_waiter_def)
  have R2: "reachable ids cfg kv_apply_fn (kv_init N) c2" using R st by (auto simp: reachable_def)
  let ?ap = "c_applied c3 l" and ?k = "commit_index (c_node c1 n)"
  from commit_before_barrier [OF R n st l a st' w' e]
  have t: "take ?k ?ap = take ?k (log (c_node c1 n))" by simp
  have "take i ?ap = take i (log (c_node c1 n))" using arg_cong [OF t, of "take i"] i by (simp add: min_absorb1)
  then have s: "?ap = take i (log (c_node c1 n)) @ drop i ?ap" by (metis append_take_drop_id)
  have R3: "reachable ids cfg kv_apply_fn (kv_init N) c3" by (rule own_entry(7) [OF R2 l a st' w' e])
  have "c_sm c3 l = run_kv (kv_entries ?ap) (kv_init N)"
    using applied_prefix(4) [OF R3 l] by (simp add: run_entries_kv)
  also have "\<dots> = run_kv (kv_entries (drop i ?ap)) (kv_after N i (log (c_node c1 n)))"
    by (subst s) (simp add: kv_after_def)
  finally show ?thesis by blast
qed

lemma get_read_cell:
  assumes "get_read key m = g"
  shows "g_found g \<Longrightarrow> cells m key = (Some (g_value g), g_version g)" "\<not> g_found g \<Longrightarrow> fst (cells m key) = None"
  using assms by (auto simp: get_read_def kv_get_def cells_def split: option.splits)

section \<open>Retries on other nodes\<close>

lemma remembered_lookup:
  assumes "kv_ok m" "remembers c q r S Q m" "c \<noteq> []" "0 < q" "\<forall>q'\<in>Q. q' \<le> q"
  shows "lookup_session c q m = Some r"
proof -
  from assms(2,5) obtain s where s: "recent c s S m" "se_seq s = q" "se_result s = r"
    by (auto simp: remembers_def)
  have "dget (sessions m) c = Some s" by (rule recent_dget [OF s(1)]) (use assms(1) in \<open>simp add: kv_ok_def\<close>)
  with s(2,3) assms(3,4) show ?thesis by (simp add: lookup_session_def session_result_def)
qed

section \<open>The run\<close>

text \<open>The hypotheses of the properties, on the run of \<open>Kv_Run\<close>.\<close>

lemma run_log: "log (c_node kv_13 0) = demo_entries" "current_term (c_node kv_5 0) = 1"
  by (simp_all add: kv_nodes_13 nodes_9 sm_5_def nodes_5)

definition kv_put_node :: raft_node where
  "kv_put_node = fst (projr (append_entry_begin ''put'' ''x'' ''v'' ''c'' 1 (c_node demo_5 0)))"

lemma run_begin: "append_entry_begin ''put'' ''x'' ''v'' ''c'' 1 (c_node kv_5 0) = Inr (kv_put_node, 2, 0)"
  by (simp add: kv_put_node_def sm_5_def begin_6)

lemma run_leads: "is_leader (c_node kv_5 0)" "\<not> isolated (c_node kv_5 0)"
  by (simp_all add: sm_5_def nodes_5 is_leader_def)

lemma run_commit_begin:
  "commit_begin (op_name (OpPut ''v'')) ''x'' (op_data (OpPut ''v'')) ''c'' 1 (kv_init 2) (c_node kv_5 0) (c_node kv_5 0)
     = Pending kv_put_node 2 0"
proof -
  have "lookup_session ''c'' 1 (kv_init 2) = None" by (simp add: lookup_session_def session_result_def kv_init_def)
  then show ?thesis using run_leads by (simp add: commit_begin_def run_begin)
qed

lemma run_put_begin:
  "put_begin ''x'' ''v'' ''c'' 1 (kv_init 2) (c_node kv_5 0) (c_node kv_5 0) (c_node kv_5 0) = Waits kv_put_node 2 0"
  using run_commit_begin run_leads by (simp add: put_begin_def abort_if_isolated_def start_write_def)

lemma run_steps: "kv_step\<^sup>*\<^sup>* (set_node 0 kv_put_node kv_5) kv_13"
proof -
  have "set_node 0 kv_put_node kv_5 = with_sm (kv_init 2) demo_6"
    by (simp add: sm_5_def trace_6_def begin_6 kv_put_node_def)
  then show ?thesis using rtranclp_trans [OF kv_steps_12 kv_steps_14(1)] by simp
qed

lemma run_waiter: "own_waiter kv_13 0 0 2 (current_term (c_node kv_5 0))"
  by (simp add: own_waiter_def kv_nodes_13 run_log)

lemma run_commit_end:
  "commit_end 2 0 (c_node kv_13 0) = (c_node kv_13 0, Some [(''success'', PBool True), (''version'', PInt 1)], [])"
  by (simp add: commit_end_def append_entry_end_def kv_nodes_13)

lemma run_put_end: "snd (put_end 2 0 (c_node kv_13 0)) = Reply \<lparr>p_success = True, p_version = 1, p_error = []\<rparr>"
  by (simp add: put_end_def run_commit_end put_reply_def res_int_def dget_def)

lemma run_before: "kv_before 2 2 (log (c_node kv_13 0)) = kv_init 2"
  by (simp add: kv_before_def run_log trace_entries_def kv_entry_def noop_entry_def)

lemma run_fresh: "lookup_session ''c'' 1 (kv_before 2 2 (log (c_node kv_13 0))) = None"
  by (simp add: run_before) (simp add: lookup_session_def session_result_def kv_init_def)

lemma run_get_begin:
  "get_begin ''x'' True kv_done (c_node kv_14 0) (c_node kv_14 0) (c_node kv_14 0) = Waits kv_leader 3 1"
  using kv_begin_15
  by (simp add: get_begin_def abort_if_isolated_def is_leader_def kv_nodes_14 kv_nodes_13 nodes_9)

lemma run_get_end:
  "snd (get_end ''x'' 3 1 (c_node kv_20 0) (c_sm kv_20 0)) =
     Reply \<lparr>g_found = True, g_value = ''v'', g_version = 1, g_success = True, g_error = []\<rparr>"
  by (simp add: get_end_def append_entry_end_def kv_node_20 get_read_def kv_get_def kv_done_def dget_def)

lemma run_get_waiter: "own_waiter kv_20 0 1 3 (current_term (c_node kv_14 0))"
  by (simp add: own_waiter_def kv_node_20 kv_nodes_14 kv_nodes_13 nodes_9)

lemma run_nodes: "0 \<in> demo_ids" "1 \<in> demo_ids"
  by (simp_all add: demo_ids_def)

section \<open>Properties\<close>

text \<open>
  An acknowledged write took effect: when \<open>_commit\<close> returns a result to \<open>Put\<close>, \<open>Delete\<close> or
  \<open>Cas\<close>, the write is in the committed log at its index, the state after it is the state before it
  with its key's cell changed as the abstract operation says, and the result is the operation's.
\<close>

lemma kv_write_takes_effect:
  assumes "reachable ids cfg kv_apply_fn (kv_init N) c" "n \<in> ids"
    and "commit_begin (op_name p) key (op_data p) cid sq m0 nd1 (c_node c n) = Pending nd i ref"
    and "(cstep ids kv_apply_fn (kv_init N))\<^sup>*\<^sup>* (set_node n nd c) c'"
    and "own_waiter c' n ref i (current_term (c_node c n))"
    and "commit_end i ref (c_node c' n) = (nd', Some r, [])"
    and "lookup_session cid sq (kv_before N i (log (c_node c' n))) = None"
  shows "i \<le> commit_index (c_node c' n)
    \<and> cells (kv_after N i (log (c_node c' n))) = (cells (kv_before N i (log (c_node c' n))))
        (key := fst (spec_op p (cells (kv_before N i (log (c_node c' n))) key)))
    \<and> r = snd (spec_op p (cells (kv_before N i (log (c_node c' n))) key))"
proof -
  note A = commit_acknowledged [OF assms(1-6) op_name_not]
  note F = fresh_entry [OF kv_ok_before, of "\<lparr>e_term = current_term (c_node c n), e_index = i, op_type = op_name p,
      filename = key, data = op_data p, client_id = cid, seq_num = sq\<rparr>" p N i "log (c_node c' n)"]
  show ?thesis using A(1,2,4) F assms(7) by simp
qed



text \<open>
  Exactly once across nodes: once a tracked write was acknowledged with result \<open>r\<close>, a retry of
  it that reaches any node whose state machine has applied it is answered with \<open>r\<close> from the
  session table, without being appended again, as long as the client has not moved on and fewer
  other clients than the table holds have been active since. It makes no difference which node
  leads, or whether the one that acknowledged the write is still up.
\<close>

lemma kv_retry_answered:
  assumes "reachable ids cfg kv_apply_fn (kv_init N) c" "n \<in> ids"
    and "commit_begin (op_name p) key (op_data p) cid sq m0 nd1 (c_node c n) = Pending nd i ref"
    and "(cstep ids kv_apply_fn (kv_init N))\<^sup>*\<^sup>* (set_node n nd c) c'"
    and "own_waiter c' n ref i (current_term (c_node c n))"
    and "commit_end i ref (c_node c' n) = (nd', Some r, [])"
    and "lookup_session cid sq (kv_before N i (log (c_node c' n))) = None" "cid \<noteq> []" "0 < sq"
    and "(cstep ids kv_apply_fn (kv_init N))\<^sup>*\<^sup>* c' c2" "m \<in> ids" "i \<le> length (c_applied c2 m)"
    and "card (clients (kv_entries (drop i (c_applied c2 m))) - {cid}) < N"
    and "\<forall>q \<in> seqs_of cid (kv_entries (drop i (c_applied c2 m))). q \<le> sq"
  shows "commit_begin op key' d cid sq (c_sm c2 m) nd3 nd4 = Answer (Some r) []"
proof -
  note A = commit_acknowledged [OF assms(1-6) op_name_not]
  let ?l = "log (c_node c' n)" and ?fs = "kv_entries (drop i (c_applied c2 m))" and ?b = "kv_before N i (log (c_node c' n))"
  let ?x = "\<lparr>e_term = current_term (c_node c n), e_index = i, op_type = op_name p, filename = key,
      data = op_data p, client_id = cid, seq_num = sq\<rparr>"
  have R2: "reachable ids cfg kv_apply_fn (kv_init N) c2" using A(5) assms(10) by (auto simp: reachable_def)
  note ap = applied_prefix [OF R2 assms(11)]
  have "take i ?l = take i (log (c_node c2 m))"
    using raft_prefix_forever [OF A(5) assms(10,2,11) A(4)] ap(2,3) assms(12) by simp
  also have "\<dots> = take i (c_applied c2 m)"
    using arg_cong [OF ap(1), of "take i"] assms(12) by (simp add: min_absorb1)
  finally have "c_applied c2 m = take i ?l @ drop i (c_applied c2 m)" by simp
  then have s: "c_sm c2 m = run_kv ?fs (kv_after N i ?l)"
    using ap(4) by (metis kv_after_def kv_entries_simps(3) run_entries_kv run_kv_simps(3))
  have t: "tracked ?x" using assms(8,9) by (simp add: tracked_def)
  have f: "session_result (client_id ?x) (seq_num ?x) ?b = None" using assms(7-9) by (simp add: lookup_session_def)
  have N: "max_sessions ?b = N" by (simp add: kv_before_def kv_init_def)
  note ok = kv_ok_entry [OF kv_ok_before, of ?x N i ?l]
  have "remembers cid sq r {} {} (fst (apply_entry ?x ?b))"
    using remembers_first [OF kv_ok_before _ t f A(1)] assms(13) N by simp
  then have "remembers cid sq r (clients ?fs - {cid}) (seqs_of cid ?fs) (fst (apply_entry ?x ?b))"
    by (rule remembers_mono) simp_all
  then have "remembers cid sq r (clients ?fs - {cid}) (seqs_of cid ?fs) (run_kv ?fs (fst (apply_entry ?x ?b)))"
    by (rule remembers_run [OF ok, rotated 2]) (use assms(13) N in \<open>auto simp: clients_def seqs_of_def\<close>)
  then have "remembers cid sq r (clients ?fs - {cid}) (seqs_of cid ?fs) (c_sm c2 m)" using s A(2) by simp
  from remembered_lookup [OF _ this assms(8,9,14)] show ?thesis
    using kv_ok_run [OF ok, of ?fs] s A(2) by (simp add: commit_begin_def)
qed

end
