(* ===== verification/Raft_Rpc_Theorems.thy ===== *)
theory Raft_Rpc_Theorems
  imports Raft_Theorems Raft_Rpc
begin

text \<open>
  The transport and the configuration of a cluster are transparent: what arrives at a follower is
  what the leader's log holds, every node computes the same membership, and any node that knows
  the leader names its configured address.
\<close>

section \<open>Hexadecimal data\<close>

definition hexed :: "log_entry list \<Rightarrow> bool" where
  "hexed es \<longleftrightarrow> (\<forall>e\<in>set es. \<exists>b. data e = hex b)"

lemma hexed_simps [simp]: "hexed []" "hexed (es @ fs) \<longleftrightarrow> hexed es \<and> hexed fs"
  by (auto simp: hexed_def)

lemma hexed_subset: "set fs \<subseteq> set es \<Longrightarrow> hexed es \<Longrightarrow> hexed fs"
  by (auto simp: hexed_def)

lemma hexed_single [simp]: "hexed [client_entry t i op f b c s]" "hexed [noop_entry t i]"
  by (auto simp: hexed_def client_entry_def noop_entry_def intro: exI [of _ b] exI [of _ "[]"])

lemma set_append_new: "set (append_new l pos es) \<subseteq> set l \<union> set es"
proof (induction l pos es rule: append_new.induct)
  case (2 l pos e es)
  have "set (take pos l) \<subseteq> set l" by (rule set_take_subset)
  with 2 show ?case by (auto split: if_splits)
qed simp

lemma log_handle_append: "set (log (fst (handle_append_entries a nd))) \<subseteq> set (log nd) \<union> set (ae_entries a)"
  using set_append_new [of "log nd" "ae_prev_idx a" "ae_entries a"]
  by (auto simp: handle_append_entries_def ae_accept_def persist_log_def Let_def)

lemma log_advance [simp]: "log (advance_commit_index nd) = log nd"
  by (simp add: advance_commit_index_def)

lemma log_applier: "log (fst (applier_apply f nd sm)) = log nd"
  by (simp add: applier_apply_def split: list.split prod.split)

lemma hexed_node_step:
  assumes "node_step nd nd'" "hexed (log nd)" shows "hexed (log nd')"
  using assms
proof (induction rule: node_step.induct)
  case (4 t nd)
  have "hexed (log (become_leader nd))" if "hexed (log nd)" for nd
    using that by (simp add: become_leader_def persist_log_def Let_def)
  with 4 show ?case by (simp add: finish_election_def reset_election_timer_def Let_def split: option.split)
next
  case (7 op fn b cl sq nd nd' i ref)
  then show ?case by (auto simp: append_entry_begin_def persist_log_def Let_def split: if_splits)
qed (simp_all add: start_election_def handle_request_vote_def handle_vote_reply_def hb_turn_def handle_append_reply_def
    append_entry_end_def set_isolated_def persist_hard_state_def reset_election_timer_def Let_def split: option.split)

definition hexed_cluster :: "nat set \<Rightarrow> 's cluster \<Rightarrow> bool" where
  "hexed_cluster ids c \<longleftrightarrow> (\<forall>n\<in>ids. hexed (log (c_node c n))) \<and> (\<forall>(p, a) \<in> c_ae c. hexed (ae_entries a))"

lemma c_ae_step:
  assumes "cstep ids f sm0 c c'" "(p, a) \<in> c_ae c'"
  obtains "(p, a) \<in> c_ae c" | n where "n \<in> ids" "append_entries_msg (c_node c n) p = Inr (Some a)"
  using assms
  by cases (auto simp: set_node_def c_apply_def c_restart_def Let_def split: prod.splits)

lemma hexed_reachable:
  assumes "reachable ids cfg f sm0 c" shows "hexed_cluster ids c"
proof -
  from assms have cf: "cluster_config ids cfg" and st: "(cstep ids f sm0)\<^sup>*\<^sup>* (c_init cfg sm0) c"
    by (simp_all add: reachable_def)
  from st show ?thesis
  proof (induction rule: rtranclp_induct)
    case base
    show ?case by (simp add: hexed_cluster_def c_init_def init_node_fresh_eq)
  next
    case (step c c')
    have "hexed (log (c_node c' n))" if n: "n \<in> ids" for n
    proof -
      have h: "hexed (log (c_node c n))" using step.IH n by (simp add: hexed_cluster_def)
      from step.hyps(2) n show ?thesis
      proof (cases rule: cstep_cases_node)
        case local
        then show ?thesis using hexed_node_step h by blast
      next
        case (recv a res)
        have "hexed (ae_entries a)" using step.IH recv(1) by (auto simp: hexed_cluster_def)
        then have "hexed (log (c_node c n) @ ae_entries a)" using h by simp
        moreover have "set (log (c_node c' n)) \<subseteq> set (log (c_node c n) @ ae_entries a)"
          using log_handle_append [of a "c_node c n"] recv(2) by simp
        ultimately show ?thesis by (rule hexed_subset [rotated])
      next
        case collect
        then show ?thesis using h by (simp add: applier_collect_def)
      next
        case apply_one
        then show ?thesis using h log_applier [of f "c_node c n" "c_sm c n"] by simp
      next
        case restart
        have "reachable ids cfg f sm0 c" using cf step.hyps(1) by (simp add: reachable_def)
        then obtain s where "sim ids cfg c s" by (rule reachable_sim)
        from durable_restart [OF node_simD(8) [OF simD(1) [OF this n]]] restart h show ?thesis by simp
      qed (use h in simp)
    qed
    moreover have "hexed (ae_entries a)" if "(p, a) \<in> c_ae c'" for p a
      using step.hyps(2) that
    proof (cases rule: c_ae_step)
      case 1
      then show ?thesis using step.IH by (auto simp: hexed_cluster_def)
    next
      case (2 n)
      then have "set (ae_entries a) \<subseteq> set (log (c_node c n))"
        by (auto simp: append_entries_msg_def Let_def split: if_splits dest: in_set_dropD)
      then show ?thesis using step.IH 2(1) hexed_subset by (auto simp: hexed_cluster_def)
    qed
    ultimately show ?case by (auto simp: hexed_cluster_def)
  qed
qed

lemma wire_hexed: "hexed es \<Longrightarrow> \<exists>ws. wire_entries es = Inr ws \<and> map unwire_entry ws = es"
proof (induction es)
  case (Cons e es)
  then obtain ws where ws: "wire_entries es = Inr ws" "map unwire_entry ws = es" by (auto simp: hexed_def)
  from Cons.prems obtain b where b: "data e = hex b" by (auto simp: hexed_def)
  then have "wire_entry e = Inr (e\<lparr>data := b\<rparr>)" by (auto simp: wire_entry_def)
  moreover have "unwire_entry (e\<lparr>data := b\<rparr>) = e" using b by (simp add: unwire_entry_def)
  ultimately show ?case using ws by simp
qed simp

section \<open>Configuration\<close>

lemma dget_dict_of_map:
  "distinct (map f xs) \<Longrightarrow> dget (dict_of (map (\<lambda>x. (f x, g x)) xs)) k = map_option g (find (\<lambda>x. f x = k) xs)"
proof (induction xs rule: rev_induct)
  case Nil
  then show ?case by (simp add: dict_of_def)
next
  case (snoc x xs)
  have "find (\<lambda>x. f x = k) (xs @ [x]) = (case find (\<lambda>x. f x = k) xs of Some y \<Rightarrow> Some y | None \<Rightarrow> if f x = k then Some x else None)"
    by (induction xs) auto
  moreover have "find (\<lambda>x. f x = k) xs = None" if "f x = k"
    using snoc.prems that by (auto simp: find_None_iff) (metis image_eqI)
  ultimately show ?case using snoc by (simp add: dict_of_snoc split: option.split)
qed

lemma serve_peers_keys: "fst ` set (serve_peers n cfgs) = nc_id ` set cfgs - {n}"
proof -
  have "fst ` set (dict_of ps) = fst ` set ps" for ps :: "(nat \<times> addr) list"
    by (induction ps rule: rev_induct) (simp_all add: dict_of_snoc keys_dset, simp add: dict_of_def)
  then show ?thesis by (auto simp: serve_peers_def image_image)
qed

lemma peer_stubs_eq: "build_peer_stubs n cfgs = serve_peers n cfgs"
  by (induction cfgs rule: rev_induct) (simp_all add: build_peer_stubs_def serve_peers_def dict_of_def)

lemma dget_serve_peers:
  assumes "distinct (map nc_id cfgs)" "l \<noteq> n"
  shows "dget (serve_peers n cfgs) l = map_option nc_address (find (\<lambda>nc. nc_id nc = l) cfgs)"
proof -
  have "find (\<lambda>nc. nc_id nc = l) (filter (\<lambda>nc. nc_id nc \<noteq> n) cfgs) = find (\<lambda>nc. nc_id nc = l) cfgs"
    using assms(2) by (induction cfgs) auto
  moreover have "distinct (map nc_id (filter (\<lambda>nc. nc_id nc \<noteq> n) cfgs))"
    using assms(1) by (simp add: distinct_map_filter)
  ultimately show ?thesis by (simp add: serve_peers_def dget_dict_of_map)
qed

section \<open>Properties\<close>

text \<open>
  C16. The wire is transparent: the entries of any append request a leader builds survive the
  conversion to protobuf and back, so the handler behind \<open>AppendEntries\<close> works on exactly the
  leader's entries, and an isolated node answers nothing and keeps its state.
\<close>

theorem raft_wire_transparent:
  assumes "reachable ids cfg f sm0 c" "(p, a) \<in> c_ae c"
  shows "\<exists>ws. wire_entries (ae_entries a) = Inr ws \<and> (\<forall>nd. rpc_append_entries (a\<lparr>ae_entries := ws\<rparr>) nd =
     (if isolated nd then (nd, RpcError ''UNAVAILABLE'')
      else case handle_append_entries a nd of (nd', Inr r) \<Rightarrow> (nd', Reply r)
                                            | (nd', Inl x) \<Rightarrow> (nd', RpcError ''UNKNOWN'')))"
proof -
  have "hexed (ae_entries a)" using hexed_reachable [OF assms(1)] assms(2) by (auto simp: hexed_cluster_def)
  from wire_hexed [OF this] obtain ws where "wire_entries (ae_entries a) = Inr ws" "map unwire_entry ws = ae_entries a"
    by blast
  then show ?thesis by (intro exI [of _ ws]) (simp add: rpc_append_entries_def abort_if_isolated_def)
qed

theorem raft_wire_transparent_witness:
  "\<exists>ws. wire_entries demo_entries = Inr ws
     \<and> snd (rpc_append_entries (demo_ae\<lparr>ae_entries := ws\<rparr>) (c_node demo_7 1)) = Reply demo_aer"
proof -
  have "(1, demo_ae) \<in> c_ae demo_13"
    by (simp add: demo_13_def c_apply_def trace_12_def trace_11_def trace_10_def trace_9_def trace_8_def trace_7_def
        set_node_def split: prod.split)
  from raft_wire_transparent [OF demo_reachable(3) this] obtain ws where w: "wire_entries (ae_entries demo_ae) = Inr ws"
    "\<And>nd. rpc_append_entries (demo_ae\<lparr>ae_entries := ws\<rparr>) nd =
     (if isolated nd then (nd, RpcError ''UNAVAILABLE'')
      else case handle_append_entries demo_ae nd of (nd', Inr r) \<Rightarrow> (nd', Reply r)
                                            | (nd', Inl x) \<Rightarrow> (nd', RpcError ''UNKNOWN''))" by blast
  have "isolated (c_node demo_7 1) = False" by (simp add: trace_7_def node_6 nodes_5 del: One_nat_def)
  with w(2) [of "c_node demo_7 1"] w(1) append_8 show ?thesis
    by (intro exI [of _ ws]) (simp add: trace_ae_def)
qed

text \<open>
  Every node gets the same membership: for a configuration file with distinct ids, the
  dictionaries \<open>serve\<close> builds on the nodes form one cluster, so the theorems on clusters apply to
  it, and the stubs a node calls are exactly the peers its majority counts.
\<close>

lemma raft_configured_cluster:
  assumes "distinct (map nc_id cfgs)"
  shows "cluster_config (set (map nc_id cfgs)) (\<lambda>n. serve_peers n cfgs)
    \<and> build_peer_stubs n cfgs = serve_peers n cfgs"
  by (auto simp: cluster_config_def serve_peers_keys peer_stubs_eq) (simp add: serve_peers_def)

text \<open>
  Redirects work: a configured node that follows a configured leader, or leads, and is not
  isolated answers \<open>GetLeader\<close> with the leader's address of the configuration file.
\<close>

lemma raft_leader_address:
  assumes "distinct (map nc_id cfgs)" "nc \<in> set cfgs" "peers nd = serve_peers (node_id nd) cfgs"
    and "leader_id nd = Some (nc_id nc)" "\<not> isolated nd"
  shows "rpc_get_leader cfgs nd = Reply \<lparr>lr_id = nc_id nc, lr_address = nc_address nc, lr_has = True\<rparr>"
proof -
  have f: "find (\<lambda>x. nc_id x = nc_id nc) cfgs = Some nc"
    using assms(1,2)
  proof (induction cfgs)
    case (Cons x xs)
    then show ?case by (cases "x = nc") (force simp: rev_image_eqI)+
  qed simp
  show ?thesis
  proof (cases "nc_id nc = node_id nd")
    case True
    with f assms(4,5) show ?thesis by (simp add: rpc_get_leader_def abort_if_isolated_def get_leader_info_def)
  next
    case False
    then have "dget (peers nd) (nc_id nc) = Some (nc_address nc)"
      using dget_serve_peers [OF assms(1), of "nc_id nc" "node_id nd"] f assms(3) by simp
    with False assms(4,5) show ?thesis by (simp add: rpc_get_leader_def abort_if_isolated_def get_leader_info_def Let_def)
  qed
qed

end
