(* ===== verification/Files.thy ===== *)
theory Files
  imports Dist_Prelude
begin

text \<open>
  What the file servers use of the operating system, and the messages of their RPC interface
  (\<open>fs.proto\<close>): a disk is a dictionary from file locations to contents; the directory tree, which
  no modelled code changes, is a function that tells what a path names.
\<close>

section \<open>Paths and files\<close>

text \<open>
  A path names a (possible) regular file, a directory, or nothing that can be opened because a
  directory on the way is missing. Several paths may name one file.
\<close>

datatype loc = File string | Directory | Missing

type_synonym os = "string \<Rightarrow> loc"
type_synonym disk = "(string, bytes) dict"

text \<open>\<open>os.path.join(base, name)\<close>\<close>

definition path_join :: "string \<Rightarrow> string \<Rightarrow> string" where
  "path_join base name =
     (if startswith name ''/'' then name
      else if base = [] \<or> last base = CHR ''/'' then base @ name
      else base @ ''/'' @ name)"

definition path_exists :: "os \<Rightarrow> disk \<Rightarrow> string \<Rightarrow> bool" where
  "path_exists os d p = (case os p of File c \<Rightarrow> dget d c \<noteq> None | Directory \<Rightarrow> True | Missing \<Rightarrow> False)"

definition os_error :: "string \<Rightarrow> string \<Rightarrow> exn" where
  "os_error msg p = PyException (msg @ '': '' @ [CHR 0x27] @ p @ [CHR 0x27])"

text \<open>\<open>open(p, "wb")\<close>, \<open>write(b)\<close>, \<open>close()\<close>, and \<open>open(p, "rb").read()\<close>.\<close>

definition write_file :: "os \<Rightarrow> string \<Rightarrow> bytes \<Rightarrow> disk \<Rightarrow> exn + disk" where
  "write_file os p b d =
     (case os p of
        File c \<Rightarrow> Inr (dset d c b)
      | Directory \<Rightarrow> Inl (os_error ''[Errno 21] Is a directory'' p)
      | Missing \<Rightarrow> Inl (os_error ''[Errno 2] No such file or directory'' p))"

definition read_file :: "os \<Rightarrow> string \<Rightarrow> disk \<Rightarrow> exn + bytes" where
  "read_file os p d =
     (case os p of
        File c \<Rightarrow> (case dget d c of None \<Rightarrow> Inl (os_error ''[Errno 2] No such file or directory'' p) | Some b \<Rightarrow> Inr b)
      | Directory \<Rightarrow> Inl (os_error ''[Errno 21] Is a directory'' p)
      | Missing \<Rightarrow> Inl (os_error ''[Errno 2] No such file or directory'' p))"

text \<open>What a path holds; \<open>None\<close> where there is no regular file.\<close>

definition contents :: "os \<Rightarrow> disk \<Rightarrow> string \<Rightarrow> bytes option" where
  "contents os d p = (case os p of File c \<Rightarrow> dget d c | _ \<Rightarrow> None)"

lemma write_file_contents:
  assumes "write_file os p b d = Inr d'"
  shows "contents os d' q = (if os q = os p then Some b else contents os d q)"
  using assms by (auto simp: write_file_def contents_def split: loc.splits)

lemma write_file_error: "write_file os p b d = Inl x \<Longrightarrow> \<exists>m. x = os_error m p"
  by (auto simp: write_file_def split: loc.splits)

lemma write_file_exists:
  "write_file os p b d = Inr d' \<Longrightarrow> path_exists os d q \<Longrightarrow> path_exists os d' q"
  by (auto simp: write_file_def path_exists_def split: loc.splits)

lemma read_file_contents: "read_file os p d = Inr b \<longleftrightarrow> contents os d p = Some b"
  by (auto simp: read_file_def contents_def split: loc.splits option.splits)

lemma contents_exists: "contents os d p = Some b \<Longrightarrow> path_exists os d p"
  by (auto simp: contents_def path_exists_def split: loc.splits)

section \<open>Messages\<close>

record handle_info =
  h_file :: string
  h_mode :: string

record create_response =
  cre_handle :: int
  cre_success :: bool
  cre_error :: string

record open_response =
  opn_handle :: int
  opn_data :: bytes
  opn_version :: int
  opn_success :: bool
  opn_error :: string

record close_response =
  clo_success :: bool
  clo_version :: int
  clo_error :: string

definition create_error :: "string \<Rightarrow> create_response" where
  "create_error e = \<lparr>cre_handle = -1, cre_success = False, cre_error = e\<rparr>"

definition open_error :: "string \<Rightarrow> open_response" where
  "open_error e = \<lparr>opn_handle = -1, opn_data = [], opn_version = 0, opn_success = False, opn_error = e\<rparr>"

definition close_error :: "string \<Rightarrow> close_response" where
  "close_error e = \<lparr>clo_success = False, clo_version = 0, clo_error = e\<rparr>"

lemma errors_fail [simp]:
  "\<not> cre_success (create_error e)" "\<not> opn_success (open_error e)" "\<not> clo_success (close_error e)"
  by (simp_all add: create_error_def open_error_def close_error_def)

definition quoted :: "string \<Rightarrow> string" where
  "quoted f = [CHR 0x27] @ f @ [CHR 0x27]"

definition mode_error :: string where
  "mode_error = ''Mode must be '' @ quoted ''r'' @ '' or '' @ quoted ''w''"

section \<open>Calls\<close>

text \<open>
  What the caller of an RPC sees: the reply, or a status other than OK with its details. The
  deduplication caches keep the last response of each client, whichever call it answered.
\<close>

datatype 'r call = Answered 'r | Status string string

datatype cached_response = CachedCreate create_response | CachedClose close_response

end
