(* ===== verification/Fs_Server.thy ===== *)
theory Fs_Server
  imports Files
begin

text \<open>
  The single file server of \<open>part1_filesystem/fs/server.py\<close> (\<open>part2_3_replication/server.py\<close> is the
  same file): versions, open handles, write locks that expire, and the notifications their owners
  poll for.

  Time is in whole milliseconds; every reading of the clock is an argument. A handler runs from its
  first to its last line as one function; \<open>Close\<close>, which releases the state lock in the middle,
  is the composition of its sections, which can also be interleaved with other calls. The thread
  of a lock's timer is the step \<open>auto_release\<close>, which may run at any time: it checks owner and
  expiry itself.
\<close>

section \<open>State\<close>

record lock_info =
  lk_owner :: string
  lk_expires :: int

record fs_state =
  fs_disk :: disk
  fs_open :: "(int, handle_info) dict"
  fs_versions :: "(string, int) dict"
  fs_locks :: "(string, lock_info) dict"
  fs_notes :: "(string, string list) dict"
  fs_next :: int

definition BASE_DIR :: string where
  "BASE_DIR = ''./server_data''"

definition fs_init :: "disk \<Rightarrow> fs_state" where
  "fs_init d = \<lparr>fs_disk = d, fs_open = [], fs_versions = [], fs_locks = [], fs_notes = [], fs_next = 1\<rparr>"

definition fs_path :: "string \<Rightarrow> string" where
  "fs_path f = path_join BASE_DIR f"

section \<open>Locks\<close>

definition push_note :: "string \<Rightarrow> string \<Rightarrow> fs_state \<Rightarrow> fs_state" where
  "push_note cl msg s =
     (if cl = [] then s else s\<lparr>fs_notes := dset (fs_notes s) cl (dget_or (fs_notes s) cl [] @ [msg])\<rparr>)"

definition timed_out_msg :: "string \<Rightarrow> string" where
  "timed_out_msg f = ''Lock on '' @ quoted f @ '' timed out and was released automatically.''"

definition cleanup_expired_lock :: "int \<Rightarrow> string \<Rightarrow> fs_state \<Rightarrow> fs_state" where
  "cleanup_expired_lock now f s =
     (case dget (fs_locks s) f of
        None \<Rightarrow> s
      | Some l \<Rightarrow>
          if now < lk_expires l then s
          else push_note (lk_owner l) (timed_out_msg f) (s\<lparr>fs_locks := dpop (fs_locks s) f\<rparr>))"

definition is_locked :: "int \<Rightarrow> string \<Rightarrow> fs_state \<Rightarrow> fs_state \<times> bool" where
  "is_locked now f s = (let s' = cleanup_expired_lock now f s in (s', dget (fs_locks s') f \<noteq> None))"

definition auto_release :: "int \<Rightarrow> string \<Rightarrow> string \<Rightarrow> fs_state \<Rightarrow> fs_state" where
  "auto_release now f owner s =
     (case dget (fs_locks s) f of
        None \<Rightarrow> s
      | Some l \<Rightarrow>
          if lk_owner l \<noteq> owner then s
          else if now < lk_expires l then s
          else push_note owner (timed_out_msg f) (s\<lparr>fs_locks := dpop (fs_locks s) f\<rparr>))"

section \<open>Files\<close>

definition fs_test_version :: "string \<Rightarrow> fs_state \<Rightarrow> int" where
  "fs_test_version f s = dget_or (fs_versions s) f 1"

definition fs_create :: "os \<Rightarrow> string \<Rightarrow> fs_state \<Rightarrow> fs_state \<times> create_response" where
  "fs_create os f s =
     (if path_exists os (fs_disk s) (fs_path f) then (s, create_error ''File already exists'')
      else (case write_file os (fs_path f) [] (fs_disk s) of
              Inl x \<Rightarrow> (s, create_error (exn_str x))
            | Inr d \<Rightarrow> (s\<lparr>fs_disk := d, fs_versions := dset (fs_versions s) f 1\<rparr>,
                        \<lparr>cre_handle = 0, cre_success = True, cre_error = []\<rparr>)))"

definition locked_msg :: "string \<Rightarrow> string" where
  "locked_msg f = ''File '' @ quoted f @ '' is currently locked for writes''"

text \<open>The locked section of \<open>Open\<close>, once the contents have been read.\<close>

definition open_section :: "os \<Rightarrow> int \<Rightarrow> string \<Rightarrow> string \<Rightarrow> bytes \<Rightarrow> fs_state \<Rightarrow> fs_state \<times> open_response" where
  "open_section os now f mode b s =
     (let (s1, locked) = (if mode = ''w'' then is_locked now f s else (s, False)) in
      if locked then (s1, open_error (locked_msg f))
      else
        (let h = fs_next s1;
             s2 = s1\<lparr>fs_open := dset (fs_open s1) h \<lparr>h_file = f, h_mode = mode\<rparr>, fs_next := h + 1\<rparr>;
             s3 = (if dget (fs_versions s2) f = None \<and> path_exists os (fs_disk s2) (fs_path f)
                   then s2\<lparr>fs_versions := dset (fs_versions s2) f 1\<rparr> else s2)
         in (s3, \<lparr>opn_handle = h, opn_data = b, opn_version = dget_or (fs_versions s3) f 1,
                  opn_success = True, opn_error = []\<rparr>)))"

definition fs_open_call ::
  "os \<Rightarrow> int \<Rightarrow> string \<Rightarrow> string \<Rightarrow> bool \<Rightarrow> fs_state \<Rightarrow> fs_state \<times> open_response" where
  "fs_open_call os now f mode fetch s =
     (if mode \<noteq> ''r'' \<and> mode \<noteq> ''w'' then (s, open_error mode_error)
      else if \<not> path_exists os (fs_disk s) (fs_path f) \<and> mode = ''r'' then (s, open_error ''File not found'')
      else if fetch \<and> path_exists os (fs_disk s) (fs_path f) then
        (case read_file os (fs_path f) (fs_disk s) of
           Inl x \<Rightarrow> (s, open_error (exn_str x))
         | Inr b \<Rightarrow> open_section os now f mode b s)
      else open_section os now f mode [] s)"

section \<open>Close\<close>

text \<open>
  Its sections: the handle is looked up and taken; the version is read; the file is written; the
  version is set to one more than what was read.
\<close>

definition close_take :: "int \<Rightarrow> int \<Rightarrow> fs_state \<Rightarrow> fs_state \<times> (string + handle_info)" where
  "close_take now h s =
     (case dget (fs_open s) h of
        None \<Rightarrow> (s, Inl ''Invalid file handle'')
      | Some i \<Rightarrow>
          (let (s1, locked) = (if h_mode i = ''w'' then is_locked now (h_file i) s else (s, False)) in
           if locked then (s1, Inl (locked_msg (h_file i)))
           else (s1\<lparr>fs_open := dpop (fs_open s1) h\<rparr>, Inr i)))"

definition close_read :: "handle_info \<Rightarrow> fs_state \<Rightarrow> int" where
  "close_read i s = dget_or (fs_versions s) (h_file i) 1"

definition close_write :: "os \<Rightarrow> handle_info \<Rightarrow> bytes \<Rightarrow> fs_state \<Rightarrow> fs_state \<times> (exn + unit)" where
  "close_write os i b s =
     (case write_file os (fs_path (h_file i)) b (fs_disk s) of
        Inl x \<Rightarrow> (s, Inl x) | Inr d \<Rightarrow> (s\<lparr>fs_disk := d\<rparr>, Inr ()))"

definition close_bump :: "handle_info \<Rightarrow> int \<Rightarrow> fs_state \<Rightarrow> fs_state \<times> int" where
  "close_bump i v s = (s\<lparr>fs_versions := dset (fs_versions s) (h_file i) (v + 1)\<rparr>, v + 1)"

definition fs_close :: "os \<Rightarrow> int \<Rightarrow> int \<Rightarrow> bytes \<Rightarrow> fs_state \<Rightarrow> fs_state \<times> close_response" where
  "fs_close os now h b s =
     (case close_take now h s of
        (s1, Inl e) \<Rightarrow> (s1, close_error e)
      | (s1, Inr i) \<Rightarrow>
          (let v = close_read i s1 in
           if h_mode i \<noteq> ''w'' then (s1, \<lparr>clo_success = True, clo_version = 0, clo_error = []\<rparr>)
           else (case close_write os i b s1 of
                   (s2, Inl x) \<Rightarrow> (s2, close_error (exn_str x))
                 | (s2, Inr _) \<Rightarrow>
                     (let (s3, v') = close_bump i v s2
                      in (s3, \<lparr>clo_success = True, clo_version = v', clo_error = []\<rparr>)))))"

section \<open>Lock calls\<close>

record lock_response =
  lkr_success :: bool
  lkr_error :: string
  lkr_expires :: int

definition lock_error :: "string \<Rightarrow> int \<Rightarrow> lock_response" where
  "lock_error e t = \<lparr>lkr_success = False, lkr_error = e, lkr_expires = t\<rparr>"

definition remaining_secs :: "lock_info \<Rightarrow> int \<Rightarrow> int" where
  "remaining_secs l now = max 0 ((lk_expires l - now) div 1000)"

text \<open>\<open>now\<close>: the clock in the expiry check; \<open>now'\<close>: the later reading.\<close>

definition fs_lock ::
  "os \<Rightarrow> int \<Rightarrow> int \<Rightarrow> string \<Rightarrow> int \<Rightarrow> string \<Rightarrow> fs_state \<Rightarrow> fs_state \<times> lock_response" where
  "fs_lock os now now' f secs cl s =
     (if secs \<le> 0 then (s, lock_error ''timeout_seconds must be > 0'' 0)
      else if \<not> path_exists os (fs_disk s) (fs_path f) then (s, lock_error ''File not found'' 0)
      else
        (let (s1, locked) = is_locked now f s in
         if locked then
           (s1, case dget (fs_locks s1) f of
                  None \<Rightarrow> lock_error [] 0
                | Some l \<Rightarrow> lock_error (''File '' @ quoted f @ '' is already locked for writes (about ''
                              @ int_str (remaining_secs l now') @ ''s remaining)'') (lk_expires l))
         else
           (let e = now' + 1000 * secs in
            (s1\<lparr>fs_locks := dset (fs_locks s1) f \<lparr>lk_owner = cl, lk_expires = e\<rparr>\<rparr>,
             \<lparr>lkr_success = True, lkr_error = [], lkr_expires = e\<rparr>))))"

record unlock_response =
  ulr_success :: bool
  ulr_error :: string

definition fs_unlock :: "int \<Rightarrow> string \<Rightarrow> string \<Rightarrow> fs_state \<Rightarrow> fs_state \<times> unlock_response" where
  "fs_unlock now f cl s =
     (let s1 = cleanup_expired_lock now f s in
      case dget (fs_locks s1) f of
        None \<Rightarrow> (s1, \<lparr>ulr_success = False, ulr_error = ''File '' @ quoted f @ '' is not locked''\<rparr>)
      | Some l \<Rightarrow>
          if lk_owner l \<noteq> cl then (s1, \<lparr>ulr_success = False, ulr_error = ''Only lock owner can unlock file '' @ quoted f\<rparr>)
          else (push_note (lk_owner l) (''Lock on '' @ quoted f @ '' was released explicitly.'')
                  (s1\<lparr>fs_locks := dpop (fs_locks s1) f\<rparr>),
                \<lparr>ulr_success = True, ulr_error = []\<rparr>))"

definition fs_take_notes :: "string \<Rightarrow> fs_state \<Rightarrow> fs_state \<times> string list" where
  "fs_take_notes cl s = (s\<lparr>fs_notes := dpop (fs_notes s) cl\<rparr>, dget_or (fs_notes s) cl [])"

section \<open>Histories of calls\<close>

text \<open>What clients and timers may do, one call after the other.\<close>

datatype fs_call =
    Create string
  | Open string string bool
  | Close int bytes
  | TestVersion string
  | Lock string int string
  | Unlock string string
  | TakeNotes string
  | Timer string string

fun fs_exec :: "os \<Rightarrow> int \<Rightarrow> fs_call \<Rightarrow> fs_state \<Rightarrow> fs_state" where
  "fs_exec os now (Create f) s = fst (fs_create os f s)"
| "fs_exec os now (Open f mode fetch) s = fst (fs_open_call os now f mode fetch s)"
| "fs_exec os now (Close h b) s = fst (fs_close os now h b s)"
| "fs_exec os now (TestVersion f) s = s"
| "fs_exec os now (Lock f secs cl) s = fst (fs_lock os now now f secs cl s)"
| "fs_exec os now (Unlock f cl) s = fst (fs_unlock now f cl s)"
| "fs_exec os now (TakeNotes cl) s = fst (fs_take_notes cl s)"
| "fs_exec os now (Timer f owner) s = auto_release now f owner s"

definition fs_run :: "os \<Rightarrow> (int \<times> fs_call) list \<Rightarrow> fs_state \<Rightarrow> fs_state" where
  "fs_run os cs s = foldl (\<lambda>s (t, c). fs_exec os t c s) s cs"

end
