(* ===== verification/Fs_Theorems.thy ===== *)
theory Fs_Theorems
  imports Fs_Server
begin

text \<open>
  The file server keeps its promises when calls run one after the other: handles are never handed
  out twice, a closed write is what the next open reads, a lock freezes its file until it expires
  or its owner lets go, and every lock that ends is reported to its owner exactly once.
\<close>

section \<open>Frames\<close>

lemma push_note_fields [simp]:
  "fs_disk (push_note c m s) = fs_disk s" "fs_open (push_note c m s) = fs_open s"
  "fs_versions (push_note c m s) = fs_versions s" "fs_locks (push_note c m s) = fs_locks s"
  "fs_next (push_note c m s) = fs_next s"
  by (simp_all add: push_note_def)

lemma cleanup_fields [simp]:
  "fs_disk (cleanup_expired_lock t f s) = fs_disk s" "fs_open (cleanup_expired_lock t f s) = fs_open s"
  "fs_versions (cleanup_expired_lock t f s) = fs_versions s" "fs_next (cleanup_expired_lock t f s) = fs_next s"
  by (simp_all add: cleanup_expired_lock_def split: option.split)

lemma cleanup_locks:
  "dget (fs_locks (cleanup_expired_lock t f s)) g =
     (case dget (fs_locks s) g of None \<Rightarrow> None | Some l \<Rightarrow> if g = f \<and> lk_expires l \<le> t then None else Some l)"
  by (auto simp: cleanup_expired_lock_def split: option.split)

lemma is_locked_fields [simp]:
  "fst (is_locked t f s) = cleanup_expired_lock t f s"
  "snd (is_locked t f s) \<longleftrightarrow> (case dget (fs_locks s) f of None \<Rightarrow> False | Some l \<Rightarrow> t < lk_expires l)"
  by (auto simp: is_locked_def Let_def cleanup_locks split: option.split)

lemma auto_release_fields [simp]:
  "fs_disk (auto_release t f c s) = fs_disk s" "fs_open (auto_release t f c s) = fs_open s"
  "fs_versions (auto_release t f c s) = fs_versions s" "fs_next (auto_release t f c s) = fs_next s"
  by (simp_all add: auto_release_def split: option.split)

lemma unlock_fields [simp]:
  "fs_disk (fst (fs_unlock t f c s)) = fs_disk s" "fs_open (fst (fs_unlock t f c s)) = fs_open s"
  "fs_versions (fst (fs_unlock t f c s)) = fs_versions s" "fs_next (fst (fs_unlock t f c s)) = fs_next s"
  by (simp_all add: fs_unlock_def Let_def split: option.split)

lemma lock_fields [simp]:
  "fs_disk (fst (fs_lock os t t' f q c s)) = fs_disk s" "fs_open (fst (fs_lock os t t' f q c s)) = fs_open s"
  "fs_versions (fst (fs_lock os t t' f q c s)) = fs_versions s" "fs_next (fst (fs_lock os t t' f q c s)) = fs_next s"
  by (simp_all add: fs_lock_def Let_def case_prod_unfold)

lemma notes_fields [simp]:
  "fs_disk (fst (fs_take_notes c s)) = fs_disk s" "fs_open (fst (fs_take_notes c s)) = fs_open s"
  "fs_versions (fst (fs_take_notes c s)) = fs_versions s" "fs_next (fst (fs_take_notes c s)) = fs_next s"
  "fs_locks (fst (fs_take_notes c s)) = fs_locks s"
  by (simp_all add: fs_take_notes_def)

lemma open_section_fields [simp]:
  "fs_disk (fst (open_section os t f m b s)) = fs_disk s"
  "fs_test_version g (fst (open_section os t f m b s)) = fs_test_version g s"
  by (auto simp: open_section_def Let_def case_prod_unfold fs_test_version_def dget_or_def)

lemma open_disk [simp]:
  "fs_disk (fst (fs_open_call os t f m fe s)) = fs_disk s"
  "fs_test_version g (fst (fs_open_call os t f m fe s)) = fs_test_version g s"
  by (simp_all add: fs_open_call_def split: sum.split)

lemma fs_run_simps [simp]: "fs_run os [] s = s" "fs_run os ((t, c) # cs) s = fs_run os cs (fs_exec os t c s)"
  "fs_run os (cs @ ds) s = fs_run os ds (fs_run os cs s)"
  by (simp_all add: fs_run_def)

text \<open>A lock that is held and has not expired.\<close>

definition live_lock :: "int \<Rightarrow> string \<Rightarrow> fs_state \<Rightarrow> bool" where
  "live_lock t f s \<longleftrightarrow> (case dget (fs_locks s) f of None \<Rightarrow> False | Some l \<Rightarrow> t < lk_expires l)"

text \<open>\<open>Close\<close> on every branch.\<close>

lemma close_cases:
  obtains (unknown) "dget (fs_open s) h = None" "fs_close os t h b s = (s, close_error ''Invalid file handle'')"
  | (locked) i where "dget (fs_open s) h = Some i" "h_mode i = ''w''" "live_lock t (h_file i) s"
      "fs_close os t h b s = (cleanup_expired_lock t (h_file i) s, close_error (locked_msg (h_file i)))"
  | (readonly) i where "dget (fs_open s) h = Some i" "h_mode i \<noteq> ''w''"
      "fs_close os t h b s = (s\<lparr>fs_open := dpop (fs_open s) h\<rparr>, \<lparr>clo_success = True, clo_version = 0, clo_error = []\<rparr>)"
  | (failed) i x where "dget (fs_open s) h = Some i" "h_mode i = ''w''" "\<not> live_lock t (h_file i) s"
      "write_file os (fs_path (h_file i)) b (fs_disk s) = Inl x"
      "fs_close os t h b s = ((cleanup_expired_lock t (h_file i) s)\<lparr>fs_open := dpop (fs_open s) h\<rparr>, close_error (exn_str x))"
  | (written) i d where "dget (fs_open s) h = Some i" "h_mode i = ''w''" "\<not> live_lock t (h_file i) s"
      "write_file os (fs_path (h_file i)) b (fs_disk s) = Inr d"
      "fs_close os t h b s = ((cleanup_expired_lock t (h_file i) s)\<lparr>fs_open := dpop (fs_open s) h, fs_disk := d,
          fs_versions := dset (fs_versions s) (h_file i) (fs_test_version (h_file i) s + 1)\<rparr>,
        \<lparr>clo_success = True, clo_version = fs_test_version (h_file i) s + 1, clo_error = []\<rparr>)"
proof (cases "dget (fs_open s) h")
  case None
  then show thesis by (intro unknown) (simp_all add: fs_close_def close_take_def)
next
  case (Some i)
  have l: "snd (is_locked t (h_file i) s) = live_lock t (h_file i) s" by (simp add: live_lock_def)
  show thesis
  proof (cases "h_mode i = ''w''")
    case False
    with Some show thesis by (intro readonly) (simp_all add: fs_close_def close_take_def close_read_def)
  next
    case w: True
    show thesis
    proof (cases "live_lock t (h_file i) s")
      case True
      with Some w l show thesis by (intro locked) (simp_all add: fs_close_def close_take_def case_prod_unfold)
    next
      case nl: False
      then have tk: "close_take t h s = ((cleanup_expired_lock t (h_file i) s)\<lparr>fs_open := dpop (fs_open s) h\<rparr>, Inr i)"
        using Some w l by (simp add: close_take_def case_prod_unfold)
      show thesis
      proof (cases "write_file os (fs_path (h_file i)) b (fs_disk s)")
        case (Inl x)
        then show thesis using Some w nl by (intro failed) (simp_all add: fs_close_def tk close_write_def)
      next
        case (Inr d)
        then show thesis using Some w nl
          by (intro written) (simp_all add: fs_close_def tk close_write_def close_read_def close_bump_def fs_test_version_def)
      qed
    qed
  qed
qed

lemma create_cases:
  obtains (refused) e where "fs_create os f s = (s, create_error e)"
  | (created) d where "\<not> path_exists os (fs_disk s) (fs_path f)" "write_file os (fs_path f) [] (fs_disk s) = Inr d"
      "fs_create os f s = (s\<lparr>fs_disk := d, fs_versions := dset (fs_versions s) f 1\<rparr>,
        \<lparr>cre_handle = 0, cre_success = True, cre_error = []\<rparr>)"
  by (cases "path_exists os (fs_disk s) (fs_path f)"; cases "write_file os (fs_path f) [] (fs_disk s)";
      simp add: fs_create_def)

lemma open_section_opens:
  assumes "\<not> (m = ''w'' \<and> live_lock t f s)"
  shows "snd (open_section os t f m b s) = \<lparr>opn_handle = fs_next s, opn_data = b,
        opn_version = fs_test_version f s, opn_success = True, opn_error = []\<rparr>"
    and "fs_open (fst (open_section os t f m b s)) = dset (fs_open s) (fs_next s) \<lparr>h_file = f, h_mode = m\<rparr>"
    and "fs_next (fst (open_section os t f m b s)) = fs_next s + 1"
    and "fs_locks (fst (open_section os t f m b s)) = fs_locks (if m = ''w'' then cleanup_expired_lock t f s else s)"
    and "fs_notes (fst (open_section os t f m b s)) = fs_notes (if m = ''w'' then cleanup_expired_lock t f s else s)"
  using assms
  by (simp_all add: open_section_def Let_def case_prod_unfold live_lock_def fs_test_version_def dget_or_def)

lemma open_cases:
  obtains (refused) e where "fs_open_call os t f m fe s = (s, open_error e) \<or>
        fs_open_call os t f m fe s = (cleanup_expired_lock t f s, open_error e)"
  | (opened) s' where "fs_open_call os t f m fe s = (s', \<lparr>opn_handle = fs_next s,
        opn_data = (if fe then (case contents os (fs_disk s) (fs_path f) of None \<Rightarrow> [] | Some b \<Rightarrow> b) else []),
        opn_version = fs_test_version f s, opn_success = True, opn_error = []\<rparr>)"
      "m = ''r'' \<or> m = ''w''" "m = ''w'' \<longrightarrow> \<not> live_lock t f s" "m = ''r'' \<longrightarrow> path_exists os (fs_disk s) (fs_path f)"
      "fs_open s' = dset (fs_open s) (fs_next s) \<lparr>h_file = f, h_mode = m\<rparr>" "fs_next s' = fs_next s + 1"
      "fs_locks s' = fs_locks (if m = ''w'' then cleanup_expired_lock t f s else s)"
      "fs_notes s' = fs_notes (if m = ''w'' then cleanup_expired_lock t f s else s)"
proof -
  let ?b = "if fe then (case contents os (fs_disk s) (fs_path f) of None \<Rightarrow> [] | Some b \<Rightarrow> b) else []"
  have sec: thesis if c: "fs_open_call os t f m fe s = open_section os t f m ?b s" and m: "m = ''r'' \<or> m = ''w''"
    and e: "m = ''r'' \<longrightarrow> path_exists os (fs_disk s) (fs_path f)"
  proof (cases "m = ''w'' \<and> live_lock t f s")
    case True
    then have "fs_open_call os t f m fe s = (cleanup_expired_lock t f s, open_error (locked_msg f))"
      unfolding c by (simp add: open_section_def case_prod_unfold live_lock_def)
    then show thesis using refused by blast
  next
    case False
    then show thesis using m e open_section_opens [OF False, of os ?b]
      by (intro opened [of "fst (open_section os t f m ?b s)"]) (auto simp: c prod_eq_iff)
  qed
  show thesis
  proof (cases "(m \<noteq> ''r'' \<and> m \<noteq> ''w'') \<or> (\<not> path_exists os (fs_disk s) (fs_path f) \<and> m = ''r'')")
    case True
    then show thesis using refused [of mode_error] refused [of "''File not found''"]
      by (cases "m \<noteq> ''r'' \<and> m \<noteq> ''w''") (simp_all add: fs_open_call_def)
  next
    case nb: False
    show thesis
    proof (cases "fe \<and> path_exists os (fs_disk s) (fs_path f)")
      case True
      show thesis
      proof (cases "read_file os (fs_path f) (fs_disk s)")
        case (Inl x)
        then show thesis using nb True by (intro refused [of "exn_str x"] disjI1) (auto simp: fs_open_call_def)
      next
        case (Inr b)
        then have "contents os (fs_disk s) (fs_path f) = Some b" by (simp add: read_file_contents)
        then show thesis using nb True Inr by (intro sec) (auto simp: fs_open_call_def)
      qed
    next
      case False
      then have "?b = []" using contents_exists [of os "fs_disk s" "fs_path f"] by (auto split: option.split)
      then show thesis using nb False by (intro sec) (auto simp: fs_open_call_def)
    qed
  qed
qed

section \<open>Handles\<close>

definition fs_ok :: "fs_state \<Rightarrow> bool" where
  "fs_ok s \<longleftrightarrow> 1 \<le> fs_next s \<and> (\<forall>h i. dget (fs_open s) h = Some i \<longrightarrow> 1 \<le> h \<and> h < fs_next s \<and> (h_mode i = ''r'' \<or> h_mode i = ''w''))
     \<and> (\<forall>f v. dget (fs_versions s) f = Some v \<longrightarrow> 1 \<le> v) \<and> wf_dict (fs_locks s) \<and> wf_dict (fs_open s)"

lemma fs_ok_init: "fs_ok (fs_init d)"
  by (simp add: fs_ok_def fs_init_def)

lemma fs_ok_version: "fs_ok s \<Longrightarrow> 1 \<le> fs_test_version f s"
  by (auto simp: fs_ok_def fs_test_version_def dget_or_def split: option.split)

lemma wf_cleanup [simp]: "wf_dict (fs_locks s) \<Longrightarrow> wf_dict (fs_locks (cleanup_expired_lock t f s))"
  by (simp add: cleanup_expired_lock_def split: option.split)

lemma fs_ok_close:
  assumes "fs_ok s" shows "fs_ok (fst (fs_close os t h b s))"
  using assms
proof (cases rule: close_cases [of s h os t b])
  case (written i d)
  then show ?thesis using assms fs_ok_version [OF assms, of "h_file i"] by (auto simp: fs_ok_def)
qed (auto simp: fs_ok_def)

lemma open_versions:
  assumes "fs_ok s" "dget (fs_versions (fst (fs_open_call os t f m fe s))) g = Some v" shows "1 \<le> v"
proof -
  have "fs_test_version g (fst (fs_open_call os t f m fe s)) = v" using assms(2) by (simp add: fs_test_version_def dget_or_def)
  then show ?thesis using fs_ok_version [OF assms(1), of g] by simp
qed

lemma fs_ok_open:
  assumes "fs_ok s" shows "fs_ok (fst (fs_open_call os t f m fe s))"
proof -
  note v = open_versions [OF assms, of os t f m fe]
  have h: "1 \<le> h \<and> h \<le> fs_next s \<and> (h_mode i = ''r'' \<or> h_mode i = ''w'')" if "dget (fs_open s) h = Some i" for h i
    using assms that by (fastforce simp: fs_ok_def)
  show ?thesis
  proof (cases rule: open_cases [of os t f m fe s])
    case (refused e)
    then show ?thesis using assms by (elim disjE) (simp_all add: fs_ok_def)
  next
    case (opened s')
    then show ?thesis using assms v by (auto simp: fs_ok_def dest: h)
  qed
qed

lemma fs_ok_exec:
  assumes "fs_ok s" shows "fs_ok (fs_exec os t c s)"
proof (cases c)
  case (Create f)
  then show ?thesis using assms
    by (cases rule: create_cases [of os f s]) (auto simp: fs_ok_def)
next
  case (Open f m fe)
  then show ?thesis using fs_ok_open [OF assms] by simp
next
  case (Close h b)
  then show ?thesis using fs_ok_close [OF assms] by simp
next
  case (Lock f q cl)
  then show ?thesis using assms by (auto simp: fs_ok_def fs_lock_def Let_def case_prod_unfold)
next
  case (Unlock f cl)
  then show ?thesis using assms by (auto simp: fs_ok_def fs_unlock_def Let_def split: option.split)
next
  case (Timer f cl)
  then show ?thesis using assms by (auto simp: fs_ok_def auto_release_def split: option.split)
qed (use assms in \<open>auto simp: fs_ok_def\<close>)

lemma fs_ok_run: "fs_ok s \<Longrightarrow> fs_ok (fs_run os cs s)"
  by (induction cs arbitrary: s) (auto simp: fs_ok_exec)

lemma fs_next_exec: "fs_next s \<le> fs_next (fs_exec os t c s)"
proof (cases c)
  case (Create f)
  then show ?thesis by (cases rule: create_cases [of os f s]) simp_all
next
  case (Open f m fe)
  then show ?thesis by (cases rule: open_cases [of os t f m fe s]) auto
next
  case (Close h b)
  then show ?thesis by (cases rule: close_cases [of s h os t b]) simp_all
qed simp_all

lemma fs_next_run: "fs_next s \<le> fs_next (fs_run os cs s)"
proof (induction cs arbitrary: s)
  case (Cons c cs)
  then show ?case using order_trans [OF fs_next_exec Cons.IH] by (cases c) simp
qed simp

section \<open>Contents\<close>

text \<open>A call that closes a write handle of a name for the same file as \<open>f\<close>.\<close>

definition writes_at :: "os \<Rightarrow> string \<Rightarrow> fs_state \<Rightarrow> fs_call \<Rightarrow> bool" where
  "writes_at os f s c =
     (case c of
        Close h b \<Rightarrow> (case dget (fs_open s) h of None \<Rightarrow> False
                    | Some i \<Rightarrow> h_mode i = ''w'' \<and> os (fs_path (h_file i)) = os (fs_path f))
      | _ \<Rightarrow> False)"

fun undisturbed :: "os \<Rightarrow> string \<Rightarrow> (int \<times> fs_call) list \<Rightarrow> fs_state \<Rightarrow> bool" where
  "undisturbed os f [] s = True"
| "undisturbed os f ((t, c) # cs) s = (\<not> writes_at os f s c \<and> undisturbed os f cs (fs_exec os t c s))"

lemma contents_same: "os p = os q \<Longrightarrow> contents os d p = contents os d q"
  by (simp add: contents_def)

lemma exec_keeps:
  assumes c: "contents os (fs_disk s) (fs_path f) = Some b" and w: "\<not> writes_at os f s c"
  shows "contents os (fs_disk (fs_exec os t c s)) (fs_path f) = Some b"
    "fs_test_version f (fs_exec os t c s) = fs_test_version f s"
proof -
  have "contents os (fs_disk (fs_exec os t c s)) (fs_path f) = Some b
    \<and> fs_test_version f (fs_exec os t c s) = fs_test_version f s"
  proof (cases c)
    case (Create g)
    show ?thesis
    proof (cases rule: create_cases [of os g s])
      case (created d)
      have n: "os (fs_path f) \<noteq> os (fs_path g)"
        using created(1) contents_exists [of os "fs_disk s" "fs_path g"] c contents_same [of os "fs_path f" "fs_path g"] by fastforce
      then have "g \<noteq> f" by auto
      with n created c Create write_file_contents [OF created(2), of "fs_path f"] show ?thesis
        by (simp add: fs_test_version_def dget_or_def)
    qed (use Create c in simp)
  next
    case (Close h b')
    show ?thesis
    proof (cases rule: close_cases [of s h os t b'])
      case (written i d)
      then have n: "os (fs_path (h_file i)) \<noteq> os (fs_path f)" using w Close by (simp add: writes_at_def)
      then have "h_file i \<noteq> f" by auto
      with n written c Close write_file_contents [OF written(4), of "fs_path f"] show ?thesis
        by (simp add: fs_test_version_def dget_or_def)
    qed (use Close c in \<open>simp_all add: fs_test_version_def\<close>)
  next
    case (Open g m fe)
    then show ?thesis using c by simp
  qed (use c in \<open>simp_all add: fs_test_version_def\<close>)
  then show "contents os (fs_disk (fs_exec os t c s)) (fs_path f) = Some b"
    "fs_test_version f (fs_exec os t c s) = fs_test_version f s" by simp_all
qed

lemma run_keeps:
  assumes "contents os (fs_disk s) (fs_path f) = Some b" "undisturbed os f cs s"
  shows "contents os (fs_disk (fs_run os cs s)) (fs_path f) = Some b
    \<and> fs_test_version f (fs_run os cs s) = fs_test_version f s"
  using assms
proof (induction cs arbitrary: s)
  case (Cons p cs)
  obtain t c where p: "p = (t, c)" by (cases p)
  then have "\<not> writes_at os f s c" "undisturbed os f cs (fs_exec os t c s)" using Cons.prems(2) by simp_all
  with exec_keeps [OF Cons.prems(1), of c t] Cons.IH [of "fs_exec os t c s"] p show ?case by simp
qed simp

lemma close_written:
  assumes "dget (fs_open s) h = Some i" "h_mode i = ''w''" "clo_success (snd (fs_close os t h b s))"
  shows "contents os (fs_disk (fst (fs_close os t h b s))) (fs_path (h_file i)) = Some b"
    and "fs_test_version (h_file i) (fst (fs_close os t h b s)) = clo_version (snd (fs_close os t h b s))"
    and "clo_version (snd (fs_close os t h b s)) = fs_test_version (h_file i) s + 1"
proof -
  have "contents os (fs_disk (fst (fs_close os t h b s))) (fs_path (h_file i)) = Some b
    \<and> fs_test_version (h_file i) (fst (fs_close os t h b s)) = clo_version (snd (fs_close os t h b s))
    \<and> clo_version (snd (fs_close os t h b s)) = fs_test_version (h_file i) s + 1"
  proof (cases rule: close_cases [of s h os t b])
    case (written j d)
    with assms(1) show ?thesis using write_file_contents [OF written(4), of "fs_path (h_file i)"]
      by (simp add: fs_test_version_def dget_or_def)
  qed (use assms in simp_all)
  then show "contents os (fs_disk (fst (fs_close os t h b s))) (fs_path (h_file i)) = Some b"
    "fs_test_version (h_file i) (fst (fs_close os t h b s)) = clo_version (snd (fs_close os t h b s))"
    "clo_version (snd (fs_close os t h b s)) = fs_test_version (h_file i) s + 1" by simp_all
qed

lemma open_reads:
  assumes "contents os (fs_disk s) (fs_path f) = Some b"
  shows "snd (fs_open_call os t f ''r'' True s) = \<lparr>opn_handle = fs_next s, opn_data = b,
     opn_version = fs_test_version f s, opn_success = True, opn_error = []\<rparr>"
proof (cases rule: open_cases [of os t f "''r''" True s])
  case (refused e)
  have "fs_open_call os t f ''r'' True s = open_section os t f ''r'' b s"
    using assms contents_exists [OF assms] by (simp add: fs_open_call_def read_file_contents [THEN iffD2, OF assms])
  then show ?thesis using open_section_opens(1) [of "''r''" t f s os b] by simp
next
  case (opened s')
  with assms show ?thesis by simp
qed

section \<open>Locks\<close>

lemma live_lock_kept:
  assumes l: "dget (fs_locks s) f = Some l" "t < lk_expires l" and u: "c \<noteq> Unlock f (lk_owner l)"
  shows "dget (fs_locks (fs_exec os t c s)) f = Some l"
proof (cases c)
  case (Create g)
  then show ?thesis using l by (cases rule: create_cases [of os g s]) simp_all
next
  case (Open g m fe)
  then show ?thesis using l by (cases rule: open_cases [of os t g m fe s]) (auto simp: cleanup_locks)
next
  case (Close h b)
  then show ?thesis using l by (cases rule: close_cases [of s h os t b]) (simp_all add: cleanup_locks)
next
  case (Lock g q cl)
  then show ?thesis using l
    by (auto simp: fs_lock_def Let_def case_prod_unfold cleanup_locks split: option.splits)
next
  case (Unlock g cl)
  then show ?thesis using l u
    by (auto simp: fs_unlock_def Let_def cleanup_locks split: option.splits if_splits)
next
  case (Timer g cl)
  then show ?thesis using l by (auto simp: auto_release_def split: option.split)
qed (use l in simp_all)

lemma live_lock_no_write:
  assumes "dget (fs_locks s) f = Some l" "t < lk_expires l" "\<And>g. os (fs_path g) = os (fs_path f) \<Longrightarrow> g = f"
    and "writes_at os f s c"
  shows "fs_disk (fs_exec os t c s) = fs_disk s \<and> fs_versions (fs_exec os t c s) = fs_versions s"
proof -
  from assms(4) obtain h b i where c: "c = Close h b" "dget (fs_open s) h = Some i" "h_mode i = ''w''"
    "os (fs_path (h_file i)) = os (fs_path f)" by (auto simp: writes_at_def split: fs_call.splits option.splits)
  from assms(3) [OF c(4)] have "live_lock t (h_file i) s" using assms(1,2) by (simp add: live_lock_def)
  with c show ?thesis by (cases rule: close_cases [of s h os t b]) simp_all
qed

lemma lock_freezes_run:
  assumes "dget (fs_locks s) f = Some l" "contents os (fs_disk s) (fs_path f) = Some b"
    and "\<And>g. os (fs_path g) = os (fs_path f) \<Longrightarrow> g = f"
    and "\<forall>(t, c) \<in> set cs. t < lk_expires l \<and> c \<noteq> Unlock f (lk_owner l)"
  shows "dget (fs_locks (fs_run os cs s)) f = Some l \<and> contents os (fs_disk (fs_run os cs s)) (fs_path f) = Some b
    \<and> fs_test_version f (fs_run os cs s) = fs_test_version f s"
  using assms
proof (induction cs arbitrary: s)
  case (Cons p cs)
  obtain t c where p: "p = (t, c)" by (cases p)
  have t: "t < lk_expires l" "c \<noteq> Unlock f (lk_owner l)" using Cons.prems(4) p by simp_all
  have "contents os (fs_disk (fs_exec os t c s)) (fs_path f) = Some b
    \<and> fs_test_version f (fs_exec os t c s) = fs_test_version f s"
  proof (cases "writes_at os f s c")
    case True
    with live_lock_no_write [OF Cons.prems(1) t(1) Cons.prems(3)] Cons.prems(2) show ?thesis
      by (simp add: fs_test_version_def)
  next
    case False
    with exec_keeps [OF Cons.prems(2)] show ?thesis by simp
  qed
  with Cons.IH [OF live_lock_kept [OF Cons.prems(1) t]] Cons.prems(3,4) p show ?case by simp
qed simp

section \<open>Notifications\<close>

definition held :: "string \<Rightarrow> fs_state \<Rightarrow> nat" where
  "held cl s = length (filter (\<lambda>p. lk_owner (snd p) = cl) (fs_locks s))"

definition pending :: "string \<Rightarrow> fs_state \<Rightarrow> nat" where
  "pending cl s = length (dget_or (fs_notes s) cl [])"

text \<open>The locks granted to a client in a history, and the messages handed to it.\<close>

fun grants :: "os \<Rightarrow> string \<Rightarrow> (int \<times> fs_call) list \<Rightarrow> fs_state \<Rightarrow> nat" where
  "grants os cl [] s = 0"
| "grants os cl ((t, c) # cs) s =
     (case c of Lock f q o' \<Rightarrow> if o' = cl \<and> lkr_success (snd (fs_lock os t t f q o' s)) then 1 else 0 | _ \<Rightarrow> 0)
     + grants os cl cs (fs_exec os t c s)"

fun delivered :: "os \<Rightarrow> string \<Rightarrow> (int \<times> fs_call) list \<Rightarrow> fs_state \<Rightarrow> nat" where
  "delivered os cl [] s = 0"
| "delivered os cl ((t, c) # cs) s =
     (case c of TakeNotes o' \<Rightarrow> if o' = cl then length (snd (fs_take_notes o' s)) else 0 | _ \<Rightarrow> 0)
     + delivered os cl cs (fs_exec os t c s)"

lemma filter_dpop:
  "wf_dict d \<Longrightarrow> dget d k = Some v \<Longrightarrow>
     length (filter P d) = length (filter P (dpop d k)) + (if P (k, v) then 1 else 0)"
proof (induction d)
  case (Cons p d)
  obtain k' v' where p: "p = (k', v')" by (cases p)
  show ?case
  proof (cases "k' = k")
    case True
    with Cons.prems p have "dget d k = None" by (auto simp: wf_dict_def dget_None_iff)
    then have "dpop (p # d) k = d" using True p dpop_absent [of d k] by (simp add: dpop_def)
    with True p Cons.prems(2) show ?thesis by (simp add: dget_Cons)
  next
    case False
    then have "dpop (p # d) k = p # dpop d k" using p by (simp add: dpop_def)
    with Cons False p show ?thesis by (simp add: dget_Cons wf_dict_def)
  qed
qed simp

lemma push_note_counts:
  assumes "cl \<noteq> []"
  shows "held cl (push_note o' m s) = held cl s" "pending cl (push_note o' m s) = pending cl s + (if o' = cl then 1 else 0)"
  using assms by (auto simp: held_def pending_def push_note_def dget_or_def split: option.split)

text \<open>A lock that goes leaves a note.\<close>

lemma release_counts:
  assumes "cl \<noteq> []" "wf_dict (fs_locks s)" "dget (fs_locks s) f = Some l" "o' = lk_owner l"
  shows "held cl (push_note o' m (s\<lparr>fs_locks := dpop (fs_locks s) f\<rparr>))
      + pending cl (push_note o' m (s\<lparr>fs_locks := dpop (fs_locks s) f\<rparr>)) = held cl s + pending cl s"
  using filter_dpop [OF assms(2,3), of "\<lambda>p. lk_owner (snd p) = cl"] assms(4)
  by (simp add: push_note_counts [OF assms(1)]) (simp add: held_def pending_def)

lemma cleanup_counts:
  assumes "cl \<noteq> []" "wf_dict (fs_locks s)"
  shows "held cl (cleanup_expired_lock t f s) + pending cl (cleanup_expired_lock t f s) = held cl s + pending cl s"
  using release_counts [OF assms, of f] by (simp add: cleanup_expired_lock_def split: option.split)

lemma counts_cong: "fs_locks s = fs_locks s' \<Longrightarrow> fs_notes s = fs_notes s' \<Longrightarrow> held cl s + pending cl s = held cl s' + pending cl s'"
  by (simp add: held_def pending_def)

lemma lock_counts:
  assumes cl: "cl \<noteq> []" and wf: "wf_dict (fs_locks s)"
  shows "held cl (fst (fs_lock os t t f q o' s)) + pending cl (fst (fs_lock os t t f q o' s))
     = held cl s + pending cl s + (if o' = cl \<and> lkr_success (snd (fs_lock os t t f q o' s)) then 1 else 0)"
proof (cases "q \<le> 0 \<or> \<not> path_exists os (fs_disk s) (fs_path f) \<or> snd (is_locked t f s)")
  case True
  then show ?thesis using cleanup_counts [OF assms, of t f]
    by (auto simp: fs_lock_def case_prod_unfold lock_error_def Let_def split: option.split)
next
  case False
  let ?s = "cleanup_expired_lock t f s"
  have "dget (fs_locks ?s) f = None" using False by (auto simp: cleanup_locks split: option.splits)
  then have "held cl (?s\<lparr>fs_locks := dset (fs_locks ?s) f \<lparr>lk_owner = o', lk_expires = e\<rparr>\<rparr>) = held cl ?s + (if o' = cl then 1 else 0)"
    "pending cl (?s\<lparr>fs_locks := d\<rparr>) = pending cl ?s" for e d
    by (simp_all add: held_def pending_def dset_absent)
  then show ?thesis using False cleanup_counts [OF assms, of t f]
    by (simp add: fs_lock_def case_prod_unfold Let_def del: is_locked_fields(2))
qed

lemma counts_exec:
  assumes ok: "fs_ok s" and cl: "cl \<noteq> []"
  shows "held cl s + pending cl s + grants os cl [(t, c)] s
     = held cl (fs_exec os t c s) + pending cl (fs_exec os t c s) + delivered os cl [(t, c)] s"
proof -
  have wf: "wf_dict (fs_locks s)" using ok by (simp add: fs_ok_def)
  note C = cleanup_counts [OF cl wf]
  show ?thesis
  proof (cases c)
    case (Create f)
    then show ?thesis by (cases rule: create_cases [of os f s]) (simp_all add: held_def pending_def)
  next
    case (Open f m fe)
    show ?thesis
    proof (cases rule: open_cases [of os t f m fe s])
      case (refused e)
      with Open C [of t f] show ?thesis by auto
    next
      case (opened s')
      then have "held cl s' + pending cl s' = held cl s + pending cl s"
        using counts_cong [of s' "if m = ''w'' then cleanup_expired_lock t f s else s"] C [of t f] by (simp split: if_splits)
      with Open opened(1) show ?thesis by simp
    qed
  next
    case (Close h b)
    have u: "held cl (s'\<lparr>fs_open := x\<rparr>) + pending cl (s'\<lparr>fs_open := x\<rparr>) = held cl s' + pending cl s'"
      "held cl (s'\<lparr>fs_open := x, fs_disk := y, fs_versions := z\<rparr>) + pending cl (s'\<lparr>fs_open := x, fs_disk := y, fs_versions := z\<rparr>)
        = held cl s' + pending cl s'" for s' x y z by (simp_all add: held_def pending_def)
    show ?thesis using Close C
      by (cases rule: close_cases [of s h os t b]) (simp_all add: u)
  next
    case (Lock f q o')
    then show ?thesis using lock_counts [OF cl wf, of os t f q o'] by simp
  next
    case (Unlock f o')
    let ?s = "cleanup_expired_lock t f s"
    have "held cl (fst (fs_unlock t f o' s)) + pending cl (fst (fs_unlock t f o' s)) = held cl ?s + pending cl ?s"
    proof (cases "dget (fs_locks ?s) f")
      case (Some l)
      show ?thesis using release_counts [OF cl wf_cleanup [OF wf] Some refl] by (auto simp: fs_unlock_def Let_def Some)
    qed (simp add: fs_unlock_def Let_def)
    with Unlock C [of t f] show ?thesis by simp
  next
    case (TakeNotes o')
    then show ?thesis by (simp add: fs_take_notes_def held_def pending_def dget_or_def)
  next
    case (Timer f o')
    show ?thesis
    proof (cases "dget (fs_locks s) f")
      case (Some l)
      show ?thesis using release_counts [OF cl wf Some refl] Timer by (auto simp: auto_release_def Some)
    qed (simp add: Timer auto_release_def)
  qed simp
qed

lemma counts_run:
  assumes "fs_ok s" "cl \<noteq> []"
  shows "held cl s + pending cl s + grants os cl cs s
     = held cl (fs_run os cs s) + pending cl (fs_run os cs s) + delivered os cl cs s"
  using assms(1)
proof (induction cs arbitrary: s)
  case (Cons p cs)
  obtain t c where p: "p = (t, c)" by (cases p)
  from counts_exec [OF Cons.prems assms(2), of os t c] Cons.IH [OF fs_ok_exec [OF Cons.prems], of os t c]
  show ?case by (simp add: p)
qed simp

section \<open>Properties\<close>

text \<open>A directory in which every name without a slash is a file of its own.\<close>

definition flat :: os where
  "flat p = (if p = BASE_DIR @ ''/'' then Directory else File p)"

definition demo_fs :: fs_state where
  "demo_fs = fs_run flat [(0, Create ''f''), (1, Open ''f'' ''w'' True)] (fs_init [])"

lemma demo_fs_eq: "demo_fs = \<lparr>fs_disk = [(fs_path ''f'', [])], fs_open = [(1, \<lparr>h_file = ''f'', h_mode = ''w''\<rparr>)],
    fs_versions = [(''f'', 1)], fs_locks = [], fs_notes = [], fs_next = 2\<rparr>"
  by (simp add: demo_fs_def fs_create_def fs_init_def path_exists_def flat_def fs_path_def path_join_def BASE_DIR_def
      startswith_def write_file_def dget_def dset_def fs_open_call_def read_file_def open_section_def is_locked_def
      cleanup_expired_lock_def Let_def)

text \<open>
  Handles are never reused: in any history of calls from the start, an \<open>Open\<close> that succeeds
  returns a handle that is not open, and every handle handed out earlier is smaller.
\<close>

lemma fs_handles_fresh:
  assumes "opn_success (snd (fs_open_call os t f m fe (fs_run os cs (fs_init d))))"
    and "opn_success (snd (fs_open_call os t' f' m' fe' (fs_run os (cs @ (t, Open f m fe) # ds) (fs_init d))))"
  shows "opn_handle (snd (fs_open_call os t f m fe (fs_run os cs (fs_init d))))
      < opn_handle (snd (fs_open_call os t' f' m' fe' (fs_run os (cs @ (t, Open f m fe) # ds) (fs_init d))))
    \<and> dget (fs_open (fs_run os cs (fs_init d))) (opn_handle (snd (fs_open_call os t f m fe (fs_run os cs (fs_init d))))) = None"
proof -
  let ?s = "fs_run os cs (fs_init d)"
  let ?r = "fs_open_call os t f m fe ?s"
  let ?u = "fs_run os (cs @ (t, Open f m fe) # ds) (fs_init d)"
  have u: "?u = fs_run os ds (fst ?r)" by simp
  have h: "opn_handle (snd (fs_open_call os t f m fe s)) = fs_next s" "fs_next (fst (fs_open_call os t f m fe s)) = fs_next s + 1"
    if "opn_success (snd (fs_open_call os t f m fe s))" for t f m fe s
    using that by (cases rule: open_cases [of os t f m fe s]; auto)+
  have "fs_next (fst ?r) \<le> fs_next ?u" unfolding u by (rule fs_next_run)
  moreover have "dget (fs_open ?s) (fs_next ?s) = None"
  proof (rule ccontr)
    assume "dget (fs_open ?s) (fs_next ?s) \<noteq> None"
    then obtain i where "dget (fs_open ?s) (fs_next ?s) = Some i" by auto
    with fs_ok_run [OF fs_ok_init, of os cs d] have "fs_next ?s < fs_next ?s" unfolding fs_ok_def by blast
    then show False by simp
  qed
  ultimately show ?thesis using h [OF assms(1)] h(1) [OF assms(2)] by simp
qed



text \<open>
  A lock freezes its file: while a lock is held, whatever calls are made before it expires,
  its owner's unlock excepted, the lock stays with its owner, and neither the contents nor the
  version of the file change, not even through handles opened for writing before it was taken.
\<close>

lemma fs_lock_freezes:
  assumes "lkr_success (snd (fs_lock os t t' f q cl s))" "contents os (fs_disk s) (fs_path f) = Some b"
    and "\<And>g. os (fs_path g) = os (fs_path f) \<Longrightarrow> g = f"
    and "\<forall>(u, c) \<in> set cs. u < t' + 1000 * q \<and> c \<noteq> Unlock f cl"
  shows "dget (fs_locks (fs_run os cs (fst (fs_lock os t t' f q cl s)))) f = Some \<lparr>lk_owner = cl, lk_expires = t' + 1000 * q\<rparr>
    \<and> contents os (fs_disk (fs_run os cs (fst (fs_lock os t t' f q cl s)))) (fs_path f) = Some b
    \<and> fs_test_version f (fs_run os cs (fst (fs_lock os t t' f q cl s))) = fs_test_version f s"
proof -
  have "dget (fs_locks (fst (fs_lock os t t' f q cl s))) f = Some \<lparr>lk_owner = cl, lk_expires = t' + 1000 * q\<rparr>"
    using assms(1) by (auto simp: fs_lock_def Let_def case_prod_unfold lock_error_def split: if_splits option.splits)
  from lock_freezes_run [OF this _ assms(3), of os b cs] assms(2,4) show ?thesis by (simp add: fs_test_version_def)
qed

text \<open>
  Every lock is accounted for: for each named client, the locks granted to it in any history
  equal the locks it still holds, the notifications waiting for it, and those it has been given.
  So each lock that ends, by timer, by cleanup or by an unlock, is reported to its owner exactly
  once.
\<close>

lemma fs_notes_conserved:
  assumes "cl \<noteq> []"
  shows "grants os cl cs (fs_init d) =
      held cl (fs_run os cs (fs_init d)) + pending cl (fs_run os cs (fs_init d)) + delivered os cl cs (fs_init d)"
  using counts_run [OF fs_ok_init assms, of d os cs] by (simp add: held_def pending_def fs_init_def dget_or_def)

end
