(* ===== verification/Raft_Fs.thy ===== *)
theory Raft_Fs
  imports Files Raft_Rpc
begin

text \<open>
  The Raft-replicated file server, \<open>RaftDSFSServicer\<close> of \<open>part2_3_replication/raft_server.py\<close>.

  Files and versions are the replicated state: \<open>rfs_apply\<close> is its \<open>_apply_entry\<close>, which the
  applier of the node runs on each committed entry. Open handles and the deduplication cache belong
  to one node and are not replicated. As in the key-value servicer, a handler that commits through
  the log is two functions, up to the wait in \<open>append_entry\<close> and from the wake-up on, and takes
  the node once per section in which it is read.
\<close>

section \<open>State\<close>

record rfs =
  rf_disk :: disk
  rf_versions :: "(string, int) dict"
  rf_open :: "(int, handle_info) dict"
  rf_next :: int
  rf_dedup :: "(string, int \<times> cached_response) dict"

definition rfs_init :: "disk \<Rightarrow> rfs" where
  "rfs_init d = \<lparr>rf_disk = d, rf_versions = [], rf_open = [], rf_next = 1, rf_dedup = []\<rparr>"

definition rfs_path :: "string \<Rightarrow> string \<Rightarrow> string" where
  "rfs_path base f = path_join base f"

section \<open>The state machine\<close>

text \<open>
  The first lines read \<open>filename\<close> and \<open>data\<close>, which the argument of \<open>handle_install_snapshot\<close> does
  not have, and a log entry has no \<open>snapshot_data\<close>: the branch that restores a snapshot raises
  \<open>KeyError\<close> either way and its body is never reached.
\<close>

definition rfs_apply_create :: "os \<Rightarrow> string \<Rightarrow> string \<Rightarrow> rfs \<Rightarrow> rfs \<times> (exn + (string, pyval) dict)" where
  "rfs_apply_create os base f s =
     (case (if path_exists os (rf_disk s) (rfs_path base f) then Inr (rf_disk s)
            else write_file os (rfs_path base f) [] (rf_disk s)) of
        Inl x \<Rightarrow> (s, Inl x)
      | Inr d \<Rightarrow> (s\<lparr>rf_disk := d, rf_versions := dsetdefault (rf_versions s) f 1\<rparr>, Inr [(''success'', PBool True)]))"

definition rfs_apply_write :: "os \<Rightarrow> string \<Rightarrow> string \<Rightarrow> bytes \<Rightarrow> rfs \<Rightarrow> rfs \<times> (exn + (string, pyval) dict)" where
  "rfs_apply_write os base f b s =
     (case write_file os (rfs_path base f) b (rf_disk s) of
        Inl x \<Rightarrow> (s, Inl x)
      | Inr d \<Rightarrow>
          (let v = dget_or (rf_versions s) f 1 + 1
           in (s\<lparr>rf_disk := d, rf_versions := dset (rf_versions s) f v\<rparr>, Inr [(''new_version'', PInt v)])))"

definition rfs_apply_entry :: "os \<Rightarrow> string \<Rightarrow> apply_arg \<Rightarrow> rfs \<Rightarrow> rfs \<times> (exn + (string, pyval) dict)" where
  "rfs_apply_entry os base arg s =
     (case arg of
        SnapshotArg d \<Rightarrow> (s, Inl (KeyError ''filename''))
      | EntryArg e \<Rightarrow>
          if op_type e = ''create'' then rfs_apply_create os base (filename e) s
          else if op_type e = ''write'' then rfs_apply_write os base (filename e) (data e) s
          else if op_type e = ''_snapshot'' then (s, Inl (KeyError ''snapshot_data''))
          else (s, Inr [(''success'', PBool True)]))"

text \<open>As the applier calls it.\<close>

definition rfs_apply :: "os \<Rightarrow> string \<Rightarrow> log_entry \<Rightarrow> rfs \<Rightarrow> rfs \<times> (exn + (string, pyval) dict)" where
  "rfs_apply os base e s = rfs_apply_entry os base (EntryArg e) s"

section \<open>Deduplication\<close>

definition rfs_check_idempotent :: "string \<Rightarrow> int \<Rightarrow> rfs \<Rightarrow> cached_response option" where
  "rfs_check_idempotent cid seq s =
     (if cid = [] \<or> seq \<le> 0 then None
      else (case dget (rf_dedup s) cid of
              None \<Rightarrow> None
            | Some (last_seq, r) \<Rightarrow> if seq \<le> last_seq then Some r else None))"

definition rfs_cache_resp :: "string \<Rightarrow> int \<Rightarrow> cached_response \<Rightarrow> rfs \<Rightarrow> rfs" where
  "rfs_cache_resp cid seq r s =
     (if cid \<noteq> [] \<and> seq > 0 then s\<lparr>rf_dedup := dset (rf_dedup s) cid (seq, r)\<rparr> else s)"

text \<open>
  The cache does not tell the two kinds of response apart; gRPC cannot serialize a response of
  the other kind and reports INTERNAL.
\<close>

definition as_create :: "cached_response \<Rightarrow> create_response rpc" where
  "as_create c = (case c of CachedCreate r \<Rightarrow> Reply r | CachedClose r \<Rightarrow> RpcError ''INTERNAL'')"

definition as_close :: "cached_response \<Rightarrow> close_response rpc" where
  "as_close c = (case c of CachedClose r \<Rightarrow> Reply r | CachedCreate r \<Rightarrow> RpcError ''INTERNAL'')"

section \<open>Handlers\<close>

text \<open>A handler that has replied, or waits for its entry.\<close>

datatype 'r fs_handler = FsDone "'r rpc" | FsWaits raft_node nat nat

definition append_error :: "exn \<Rightarrow> string" where
  "append_error x = (case x of NotLeaderError l a \<Rightarrow> not_leader_msg l a | _ \<Rightarrow> exn_str x)"

definition rfs_test_version :: "string \<Rightarrow> rfs \<Rightarrow> raft_node \<Rightarrow> int rpc" where
  "rfs_test_version f s nd0 =
     (if abort_if_isolated nd0 then RpcError ''UNAVAILABLE'' else Reply (dget_or (rf_versions s) f 1))"

definition rfs_create_begin ::
  "os \<Rightarrow> string \<Rightarrow> string \<Rightarrow> string \<Rightarrow> int \<Rightarrow> rfs \<Rightarrow> raft_node \<Rightarrow> raft_node \<Rightarrow> raft_node \<Rightarrow> create_response fs_handler" where
  "rfs_create_begin os base f cid seq s nd0 nd1 nd2 =
     (if abort_if_isolated nd0 then FsDone (RpcError ''UNAVAILABLE'')
      else (case rfs_check_idempotent cid seq s of
              Some c \<Rightarrow> FsDone (as_create c)
            | None \<Rightarrow>
                if \<not> is_leader nd1 then FsDone (Reply (create_error (redirect nd1)))
                else if path_exists os (rf_disk s) (rfs_path base f)
                then FsDone (Reply (create_error ''File already exists''))
                else (case append_entry_begin ''create'' f [] cid seq nd2 of
                        Inl x \<Rightarrow> FsDone (Reply (create_error (append_error x)))
                      | Inr (nd, i, ref) \<Rightarrow> FsWaits nd i ref)))"

definition rfs_create_end ::
  "string \<Rightarrow> int \<Rightarrow> nat \<Rightarrow> nat \<Rightarrow> raft_node \<Rightarrow> rfs \<Rightarrow> raft_node \<times> rfs \<times> create_response" where
  "rfs_create_end cid seq i ref nd s =
     (case append_entry_end i ref nd of
        (nd', Inl x) \<Rightarrow> (nd', s, create_error (append_error x))
      | (nd', Inr _) \<Rightarrow>
          (let r = \<lparr>cre_handle = 0, cre_success = True, cre_error = []\<rparr>
           in (nd', rfs_cache_resp cid seq (CachedCreate r) s, r)))"

text \<open>The locked section of \<open>Open\<close>.\<close>

definition rfs_open_section ::
  "os \<Rightarrow> string \<Rightarrow> string \<Rightarrow> string \<Rightarrow> bytes \<Rightarrow> rfs \<Rightarrow> rfs \<times> open_response" where
  "rfs_open_section os base f mode b s =
     (let h = rf_next s;
          s1 = s\<lparr>rf_next := h + 1, rf_open := dset (rf_open s) h \<lparr>h_file = f, h_mode = mode\<rparr>\<rparr>;
          s2 = (if dget (rf_versions s1) f = None \<and> path_exists os (rf_disk s1) (rfs_path base f)
                then s1\<lparr>rf_versions := dset (rf_versions s1) f 1\<rparr> else s1)
      in (s2, \<lparr>opn_handle = h, opn_data = b, opn_version = dget_or (rf_versions s2) f 1,
               opn_success = True, opn_error = []\<rparr>))"

text \<open>
  What comes before: the checks and the reading of the file, without the lock. \<open>Inl\<close> is the reply
  of a call that ends here. The applier may run between the two parts.
\<close>

definition rfs_open_read ::
  "os \<Rightarrow> string \<Rightarrow> string \<Rightarrow> string \<Rightarrow> bool \<Rightarrow> rfs \<Rightarrow> raft_node \<Rightarrow> open_response rpc + bytes" where
  "rfs_open_read os base f mode fetch s nd0 =
     (if abort_if_isolated nd0 then Inl (RpcError ''UNAVAILABLE'')
      else if mode \<noteq> ''r'' \<and> mode \<noteq> ''w'' then Inl (Reply (open_error mode_error))
      else if \<not> path_exists os (rf_disk s) (rfs_path base f) \<and> mode = ''r''
      then Inl (Reply (open_error ''File not found''))
      else if fetch \<and> path_exists os (rf_disk s) (rfs_path base f) then
        (case read_file os (rfs_path base f) (rf_disk s) of
           Inl x \<Rightarrow> Inl (Reply (open_error (exn_str x)))
         | Inr b \<Rightarrow> Inr b)
      else Inr [])"

text \<open>The whole call, when nothing comes in between.\<close>

definition rfs_open ::
  "os \<Rightarrow> string \<Rightarrow> string \<Rightarrow> string \<Rightarrow> bool \<Rightarrow> rfs \<Rightarrow> raft_node \<Rightarrow> rfs \<times> open_response rpc" where
  "rfs_open os base f mode fetch s nd0 =
     (case rfs_open_read os base f mode fetch s nd0 of
        Inl r \<Rightarrow> (s, r)
      | Inr b \<Rightarrow> (let (s', r) = rfs_open_section os base f mode b s in (s', Reply r)))"

definition rfs_close_begin ::
  "int \<Rightarrow> bytes \<Rightarrow> string \<Rightarrow> int \<Rightarrow> rfs \<Rightarrow> raft_node \<Rightarrow> raft_node \<Rightarrow> raft_node \<Rightarrow> rfs \<times> close_response fs_handler" where
  "rfs_close_begin h b cid seq s nd0 nd1 nd2 =
     (if abort_if_isolated nd0 then (s, FsDone (RpcError ''UNAVAILABLE''))
      else (case rfs_check_idempotent cid seq s of
              Some c \<Rightarrow> (s, FsDone (as_close c))
            | None \<Rightarrow>
                (case dget (rf_open s) h of
                   None \<Rightarrow> (s, FsDone (Reply (close_error ''Invalid file handle'')))
                 | Some info \<Rightarrow>
                     (let s1 = s\<lparr>rf_open := dpop (rf_open s) h\<rparr> in
                      if h_mode info \<noteq> ''w'' then
                        (let r = \<lparr>clo_success = True, clo_version = 0, clo_error = []\<rparr>
                         in (rfs_cache_resp cid seq (CachedClose r) s1, FsDone (Reply r)))
                      else if \<not> is_leader nd1 then (s1, FsDone (Reply (close_error (redirect nd1))))
                      else (case append_entry_begin ''write'' (h_file info) b cid seq nd2 of
                              Inl x \<Rightarrow> (s1, FsDone (Reply (close_error (append_error x))))
                            | Inr (nd, i, ref) \<Rightarrow> (s1, FsWaits nd i ref))))))"

text \<open>\<open>result.get("new_version", 0) if isinstance(result, dict) else 0\<close>\<close>

definition result_version :: "(string, pyval) dict option \<Rightarrow> int" where
  "result_version r =
     (case r of None \<Rightarrow> 0 | Some d \<Rightarrow> (case dget d ''new_version'' of Some (PInt v) \<Rightarrow> v | _ \<Rightarrow> 0))"

definition rfs_close_end ::
  "string \<Rightarrow> int \<Rightarrow> nat \<Rightarrow> nat \<Rightarrow> raft_node \<Rightarrow> rfs \<Rightarrow> raft_node \<times> rfs \<times> close_response" where
  "rfs_close_end cid seq i ref nd s =
     (case append_entry_end i ref nd of
        (nd', Inl x) \<Rightarrow> (nd', s, close_error (append_error x))
      | (nd', Inr res) \<Rightarrow>
          (let r = \<lparr>clo_success = True, clo_version = result_version res, clo_error = []\<rparr>
           in (nd', rfs_cache_resp cid seq (CachedClose r) s, r)))"

section \<open>Histories of one node\<close>

text \<open>
  What happens to the state of one servicer: committed entries applied, handler sections in any
  order, whatever the Raft node is like at the time; a restart keeps the disk only.
\<close>

datatype rfs_event =
    Applied log_entry
  | OpenSection string string bytes
  | CloseCall int bytes string int raft_node raft_node raft_node
  | CreateEnd string int nat nat raft_node
  | CloseEnd string int nat nat raft_node

fun rfs_exec :: "os \<Rightarrow> string \<Rightarrow> rfs_event \<Rightarrow> rfs \<Rightarrow> rfs" where
  "rfs_exec os base (Applied e) s = fst (run_apply (rfs_apply os base) e s)"
| "rfs_exec os base (OpenSection f mode b) s = fst (rfs_open_section os base f mode b s)"
| "rfs_exec os base (CloseCall h b cid seq nd0 nd1 nd2) s = fst (rfs_close_begin h b cid seq s nd0 nd1 nd2)"
| "rfs_exec os base (CreateEnd cid seq i ref nd) s = fst (snd (rfs_create_end cid seq i ref nd s))"
| "rfs_exec os base (CloseEnd cid seq i ref nd) s = fst (snd (rfs_close_end cid seq i ref nd s))"

definition rfs_run :: "os \<Rightarrow> string \<Rightarrow> rfs_event list \<Rightarrow> rfs \<Rightarrow> rfs" where
  "rfs_run os base es s = foldl (\<lambda>s e. rfs_exec os base e s) s es"

fun applied_entries :: "rfs_event list \<Rightarrow> log_entry list" where
  "applied_entries [] = []"
| "applied_entries (Applied e # es) = e # applied_entries es"
| "applied_entries (_ # es) = applied_entries es"

end
