(* ===== verification/Raft_Fs_Theorems.thy ===== *)
theory Raft_Fs_Theorems
  imports Raft_Fs Raft_Rpc_Theorems Sm_Run
begin

text \<open>
  What the replicated file server promises: its files and versions are a function of the committed
  entries, whatever handlers run in between; a restart, which keeps the files and replays the log
  on top of them, ends in the same state; the version a write is acknowledged with counts the
  writes of the file in the committed log, so it is the same on every node and never given twice.
\<close>

section \<open>The abstract file store\<close>

text \<open>
  What can be seen of a store: the contents and the version of each name. Names may share a file;
  \<open>lay\<close> says where each leads.
\<close>

type_synonym store_view = "(string \<Rightarrow> bytes option) \<times> (string \<Rightarrow> int)"

definition rfs_lay :: "os \<Rightarrow> string \<Rightarrow> string \<Rightarrow> loc" where
  "rfs_lay os base f = os (rfs_path base f)"

definition rfs_view :: "os \<Rightarrow> string \<Rightarrow> rfs \<Rightarrow> store_view" where
  "rfs_view os base s = (\<lambda>f. contents os (rf_disk s) (rfs_path base f), \<lambda>f. dget_or (rf_versions s) f 1)"

definition is_file :: "loc \<Rightarrow> bool" where
  "is_file l \<longleftrightarrow> (case l of File _ \<Rightarrow> True | _ \<Rightarrow> False)"

datatype fs_op = MakeFile string | PutFile string bytes | NoFileOp

definition entry_op :: "log_entry \<Rightarrow> fs_op" where
  "entry_op e =
     (if op_type e = ''noop'' then NoFileOp
      else case (if data e = [] then Some [] else fromhex (data e)) of
             None \<Rightarrow> NoFileOp
           | Some b \<Rightarrow> if op_type e = ''create'' then MakeFile (filename e)
                       else if op_type e = ''write'' then PutFile (filename e) b else NoFileOp)"

fun fop_step :: "(string \<Rightarrow> loc) \<Rightarrow> fs_op \<Rightarrow> store_view \<Rightarrow> store_view" where
  "fop_step lay NoFileOp v = v"
| "fop_step lay (MakeFile f) (c, v) =
     (if is_file (lay f) \<and> c f = None then (\<lambda>g. if lay g = lay f then Some [] else c g, v) else (c, v))"
| "fop_step lay (PutFile f b) (c, v) =
     (if is_file (lay f) then (\<lambda>g. if lay g = lay f then Some b else c g, v(f := v f + 1)) else (c, v))"

definition store_run :: "(string \<Rightarrow> loc) \<Rightarrow> log_entry list \<Rightarrow> store_view \<Rightarrow> store_view" where
  "store_run lay es v = foldl (\<lambda>v e. fop_step lay (entry_op e) v) v es"

lemma store_run_simps [simp]:
  "store_run lay [] v = v" "store_run lay (e # es) v = store_run lay es (fop_step lay (entry_op e) v)"
  "store_run lay (es @ fs) v = store_run lay fs (store_run lay es v)"
  by (simp_all add: store_run_def)

section \<open>Refinement\<close>

lemma dget_or_dset: "dget_or (dset d k x) j y = (if j = k then x else dget_or d j y)"
  by (simp add: dget_or_def)

lemma dget_or_default [simp]: "dget_or (dsetdefault d k x) j x = dget_or d j x"
  by (simp add: dget_or_def split: option.split)

lemma apply_create_view:
  "rfs_view os base (fst (rfs_apply_create os base f s)) = fop_step (rfs_lay os base) (MakeFile f) (rfs_view os base s)"
proof (cases "os (rfs_path base f)")
  case (File l)
  then show ?thesis
    by (auto simp: rfs_apply_create_def rfs_view_def rfs_lay_def is_file_def path_exists_def write_file_def contents_def
        fun_eq_iff split: loc.split)
qed (auto simp: rfs_apply_create_def rfs_view_def rfs_lay_def is_file_def path_exists_def write_file_def)

lemma apply_write_view:
  "rfs_view os base (fst (rfs_apply_write os base f b s)) = fop_step (rfs_lay os base) (PutFile f b) (rfs_view os base s)"
proof (cases "os (rfs_path base f)")
  case (File l)
  then show ?thesis
    by (auto simp: rfs_apply_write_def rfs_view_def rfs_lay_def is_file_def write_file_def contents_def dget_or_dset Let_def
        fun_eq_iff split: loc.split)
qed (auto simp: rfs_apply_write_def rfs_view_def rfs_lay_def is_file_def write_file_def)

lemma apply_view:
  "rfs_view os base (fst (run_apply (rfs_apply os base) e s)) = fop_step (rfs_lay os base) (entry_op e) (rfs_view os base s)"
proof (cases "op_type e = ''noop'' \<or> (if data e = [] then Some [] else fromhex (data e)) = None")
  case True
  then show ?thesis by (auto simp: run_apply_def entry_op_def split: if_splits)
next
  case False
  then obtain b where b: "(if data e = [] then Some [] else fromhex (data e)) = Some b" "op_type e \<noteq> ''noop''" by blast
  then have "fst (run_apply (rfs_apply os base) e s) = fst (rfs_apply os base (e\<lparr>data := b\<rparr>) s)"
    by (simp add: run_apply_def split: prod.split sum.split)
  moreover have "entry_op e = (if op_type e = ''create'' then MakeFile (filename e)
      else if op_type e = ''write'' then PutFile (filename e) b else NoFileOp)"
    using b by (simp add: entry_op_def)
  ultimately show ?thesis
    by (simp add: rfs_apply_def rfs_apply_entry_def apply_create_view apply_write_view)
qed

lemma cache_view [simp]: "rfs_view os base (rfs_cache_resp cid seq r s) = rfs_view os base s"
  by (simp add: rfs_view_def rfs_cache_resp_def)

lemma handler_view:
  "rfs_view os base (fst (rfs_open_section os base f mode b s)) = rfs_view os base s"
  "rfs_view os base (fst (rfs_close_begin h b cid seq s nd0 nd1 nd2)) = rfs_view os base s"
  "rfs_view os base (fst (snd (rfs_create_end cid seq i ref nd s))) = rfs_view os base s"
  "rfs_view os base (fst (snd (rfs_close_end cid seq i ref nd s))) = rfs_view os base s"
proof -
  show "rfs_view os base (fst (rfs_open_section os base f mode b s)) = rfs_view os base s"
    by (auto simp: rfs_open_section_def rfs_view_def Let_def dget_or_dset dget_or_def)
  have "rfs_view os base (s\<lparr>rf_open := d\<rparr>) = rfs_view os base s" for d by (simp add: rfs_view_def)
  then show "rfs_view os base (fst (rfs_close_begin h b cid seq s nd0 nd1 nd2)) = rfs_view os base s"
    by (simp add: rfs_close_begin_def Let_def split: option.split sum.split prod.split)
  show "rfs_view os base (fst (snd (rfs_create_end cid seq i ref nd s))) = rfs_view os base s"
    by (simp add: rfs_create_end_def Let_def split: sum.split prod.split)
  show "rfs_view os base (fst (snd (rfs_close_end cid seq i ref nd s))) = rfs_view os base s"
    by (simp add: rfs_close_end_def Let_def split: sum.split prod.split)
qed

lemma rfs_run_simps [simp]:
  "rfs_run os base [] s = s" "rfs_run os base (e # es) s = rfs_run os base es (rfs_exec os base e s)"
  "rfs_run os base (es @ fs) s = rfs_run os base fs (rfs_run os base es s)"
  by (simp_all add: rfs_run_def)

lemma run_view: "rfs_view os base (rfs_run os base es s) = store_run (rfs_lay os base) (applied_entries es) (rfs_view os base s)"
proof (induction es arbitrary: s)
  case (Cons e es)
  then show ?case by (cases e) (simp_all add: apply_view handler_view)
qed simp

section \<open>Versions count writes\<close>

definition writes_of :: "string \<Rightarrow> log_entry list \<Rightarrow> nat" where
  "writes_of f es = length (filter (\<lambda>e. case entry_op e of PutFile g b \<Rightarrow> g = f | _ \<Rightarrow> False) es)"

lemma writes_of_simps [simp]:
  "writes_of f [] = 0" "writes_of f (es @ fs) = writes_of f es + writes_of f fs"
  "writes_of f (e # es) = (case entry_op e of PutFile g b \<Rightarrow> if g = f then 1 else 0 | _ \<Rightarrow> 0) + writes_of f es"
  by (simp_all add: writes_of_def split: fs_op.split)

lemma writes_of_mono: "i \<le> j \<Longrightarrow> writes_of f (take i es) \<le> writes_of f (take j es)"
  by (metis le_Suc_ex le_add1 take_add writes_of_simps(2))

lemma store_versions:
  "snd (store_run lay es v) f = snd v f + (if is_file (lay f) then int (writes_of f es) else 0)"
proof (induction es arbitrary: v)
  case (Cons e es)
  obtain c w where v: "v = (c, w)" by (cases v)
  show ?case using Cons v by (cases "entry_op e") auto
qed simp

lemma apply_put_result:
  assumes "entry_op e = PutFile f b"
  shows "snd (run_apply (rfs_apply os base) e s) =
     (if is_file (rfs_lay os base f) then RDict [(''new_version'', PInt (snd (rfs_view os base s) f + 1))]
      else RExn (projl (write_file os (rfs_path base f) b (rf_disk s))))"
proof -
  from assms have *: "(if data e = [] then Some [] else fromhex (data e)) = Some b" "op_type e = ''write''" "filename e = f"
    by (auto simp: entry_op_def split: if_splits option.splits)
  then have "snd (run_apply (rfs_apply os base) e s) =
      (case snd (rfs_apply os base (e\<lparr>data := b\<rparr>) s) of Inl x \<Rightarrow> RExn x | Inr d \<Rightarrow> RDict d)"
    by (simp add: run_apply_def split: prod.split sum.split)
  with * show ?thesis
    by (auto simp: rfs_apply_def rfs_apply_entry_def rfs_apply_write_def write_file_def is_file_def rfs_lay_def rfs_view_def
        Let_def split: loc.split)
qed

lemma run_entries_view:
  "rfs_view os base (run_entries (rfs_apply os base) s es) = store_run (rfs_lay os base) es (rfs_view os base s)"
  by (induction es arbitrary: s) (simp_all add: run_entries_def apply_view)

lemma init_version [simp]: "snd (rfs_view os base (rfs_init d)) f = 1"
  by (simp add: rfs_view_def rfs_init_def dget_or_def)

lemma entry_op_client: "entry_op (client_entry t i ''write'' f b cid sq) = PutFile f b"
  by (simp add: entry_op_def client_entry_def)

section \<open>Replay\<close>

text \<open>On one location, each run of entries leaves the contents alone, creates them, or sets them.\<close>

datatype loc_effect = Keeps | Creates | Sets bytes

fun on_loc :: "loc_effect \<Rightarrow> bytes option \<Rightarrow> bytes option" where
  "on_loc Keeps x = x"
| "on_loc Creates x = (if x = None then Some [] else x)"
| "on_loc (Sets b) x = Some b"

fun then_effect :: "loc_effect \<Rightarrow> loc_effect \<Rightarrow> loc_effect" where
  "then_effect (Sets b) Keeps = Sets b"
| "then_effect (Sets b) Creates = Sets b"
| "then_effect Creates Keeps = Creates"
| "then_effect x y = y"

lemma on_loc_then [simp]: "on_loc (then_effect x y) c = on_loc y (on_loc x c)"
  by (cases x; cases y) auto

lemma on_loc_idem [simp]: "on_loc x (on_loc x c) = on_loc x c"
  by (cases x) auto

definition op_effect :: "(string \<Rightarrow> loc) \<Rightarrow> string \<Rightarrow> fs_op \<Rightarrow> loc_effect" where
  "op_effect lay g p =
     (case p of NoFileOp \<Rightarrow> Keeps
      | MakeFile f \<Rightarrow> if is_file (lay f) \<and> lay g = lay f then Creates else Keeps
      | PutFile f b \<Rightarrow> if is_file (lay f) \<and> lay g = lay f then Sets b else Keeps)"

definition shares :: "(string \<Rightarrow> loc) \<Rightarrow> store_view \<Rightarrow> bool" where
  "shares lay v \<longleftrightarrow> (\<forall>f g. lay f = lay g \<longrightarrow> fst v f = fst v g)"

lemma shares_view: "shares (rfs_lay os base) (rfs_view os base s)"
  unfolding shares_def
proof (intro allI impI)
  fix f g assume "rfs_lay os base f = rfs_lay os base g"
  then show "fst (rfs_view os base s) f = fst (rfs_view os base s) g"
    unfolding rfs_view_def rfs_lay_def contents_def by simp
qed

lemma op_effect:
  assumes "shares lay v" shows "fst (fop_step lay p v) g = on_loc (op_effect lay g p) (fst v g)"
proof -
  obtain c w where v: "v = (c, w)" by (cases v)
  have *: "lay g = lay f \<Longrightarrow> c g = c f" for f using assms unfolding shares_def v by (metis fst_conv)
  show ?thesis
  proof (cases p)
    case (MakeFile f)
    then show ?thesis using * [of f] by (cases "lay g = lay f") (simp_all add: v op_effect_def)
  next
    case (PutFile f b)
    then show ?thesis by (simp add: v op_effect_def)
  qed (simp add: op_effect_def)
qed

lemma op_shares:
  assumes "shares lay v" shows "shares lay (fop_step lay p v)"
  unfolding shares_def
proof (intro allI impI)
  fix f g assume l: "lay f = lay g"
  with assms have "fst v f = fst v g" unfolding shares_def by blast
  moreover have "op_effect lay f p = op_effect lay g p" using l by (simp add: op_effect_def split: fs_op.split)
  ultimately show "fst (fop_step lay p v) f = fst (fop_step lay p v) g" by (simp add: op_effect [OF assms])
qed

lemma store_effect:
  "\<exists>x. \<forall>v. shares lay v \<longrightarrow> fst (store_run lay es v) g = on_loc x (fst v g)"
proof (induction es)
  case Nil
  then show ?case by (auto intro: exI [of _ Keeps])
next
  case (Cons e es)
  then obtain x where x: "\<And>v. shares lay v \<Longrightarrow> fst (store_run lay es v) g = on_loc x (fst v g)" by blast
  show ?case
    by (rule exI [of _ "then_effect (op_effect lay g (entry_op e)) x"]) (simp add: x op_shares op_effect)
qed

lemma store_shares: "shares lay v \<Longrightarrow> shares lay (store_run lay es v)"
  by (induction es arbitrary: v) (simp_all add: op_shares)

lemma replay_contents:
  assumes "shares lay v" "shares lay w" "fst w = fst (store_run lay es v)"
  shows "fst (store_run lay (es @ fs) w) = fst (store_run lay (es @ fs) v)"
proof
  fix g
  obtain x where x: "\<And>v. shares lay v \<Longrightarrow> fst (store_run lay es v) g = on_loc x (fst v g)"
    using store_effect [of lay es g] by blast
  obtain y where y: "\<And>v. shares lay v \<Longrightarrow> fst (store_run lay fs v) g = on_loc y (fst v g)"
    using store_effect [of lay fs g] by blast
  show "fst (store_run lay (es @ fs) w) g = fst (store_run lay (es @ fs) v) g"
    using assms by (simp add: x y store_shares)
qed

section \<open>Acknowledged writes\<close>

lemma writes_of_take_Suc:
  assumes "0 < i" "i \<le> length es" "entry_op (es ! (i - 1)) = PutFile f b"
  shows "writes_of f (take i es) = Suc (writes_of f (take (i - 1) es))"
proof -
  have "take i es = take (i - 1) es @ [es ! (i - 1)]"
    using assms(1,2) by (metis Suc_pred' Suc_le_lessD take_Suc_conv_app_nth)
  with assms(3) show ?thesis by simp
qed

lemma close_begin_append:
  assumes "rfs_close_begin h b cid sq s nd0 nd1 nd2 = (s1, FsWaits nd i ref)"
  obtains info where "dget (rf_open s) h = Some info" "h_mode info = ''w''"
    "append_entry_begin ''write'' (h_file info) b cid sq nd2 = Inr (nd, i, ref)"
  using assms by (auto simp: rfs_close_begin_def Let_def split: if_splits option.splits sum.splits)

lemma close_acknowledged:
  assumes R: "reachable ids cfg (rfs_apply os base) (rfs_init d) c" and n: "n \<in> ids"
    and b: "rfs_close_begin h b cid sq s nd0 nd1 (c_node c n) = (s1, FsWaits nd i ref)"
    and st: "(cstep ids (rfs_apply os base) (rfs_init d))\<^sup>*\<^sup>* (set_node n nd c) c'"
    and w: "own_waiter c' n ref i (current_term (c_node c n))"
    and r: "snd (snd (rfs_close_end cid sq i ref (c_node c' n) s2)) = r" "clo_success r"
    and f: "dget (rf_open s) h = Some info"
  shows "0 < i" "i \<le> commit_index (c_node c' n)" "i \<le> length (log (c_node c' n))"
    "entry_op (log (c_node c' n) ! (i - 1)) = PutFile (h_file info) b"
    "is_file (rfs_lay os base (h_file info))"
    "clo_version r = 1 + int (writes_of (h_file info) (take i (log (c_node c' n))))"
    "reachable ids cfg (rfs_apply os base) (rfs_init d) c'"
proof -
  from b obtain info' where "dget (rf_open s) h = Some info'"
    and ab: "append_entry_begin ''write'' (h_file info') b cid sq (c_node c n) = Inr (nd, i, ref)"
    by (rule close_begin_append)
  with f have i: "info' = info" by simp
  obtain q where q: "snd (append_entry_end i ref (c_node c' n)) = Inr q" "clo_version r = result_version q"
    using r by (auto simp: rfs_close_end_def Let_def split: prod.splits sum.splits)
  from w have w': "ref < length (waiters (c_node c' n))" "w_index (waiters (c_node c' n) ! ref) = i"
    "w_term (waiters (c_node c' n) ! ref) = current_term (c_node c n)" by (simp_all add: own_waiter_def)
  note own = own_entry [OF R n ab [unfolded i] st w' q(1)]
  let ?l = "log (c_node c' n)" and ?e = "client_entry (current_term (c_node c n)) i ''write'' (h_file info) b cid sq"
  show "0 < i" "i \<le> commit_index (c_node c' n)" "reachable ids cfg (rfs_apply os base) (rfs_init d) c'"
    by (fact own(1,2,7))+
  show l: "i \<le> length ?l" using raft_prefix_forever [OF own(7) rtranclp.rtrancl_refl n n own(2) own(2)] by blast
  show e: "entry_op (?l ! (i - 1)) = PutFile (h_file info) b" unfolding own(4) by (rule entry_op_client)
  note ar = apply_put_result [OF entry_op_client, of os base "current_term (c_node c n)" i "h_file info" b cid sq
    "run_entries (rfs_apply os base) (rfs_init d) (take (i - 1) ?l)"]
  show fi: "is_file (rfs_lay os base (h_file info))"
    using own(6) unfolding ar by (auto split: if_splits option.splits)
  have "q = Some [(''new_version'', PInt (snd (rfs_view os base (run_entries (rfs_apply os base) (rfs_init d)
      (take (i - 1) ?l))) (h_file info) + 1))]"
    using own(6) fi unfolding ar by (auto split: option.splits)
  then have "clo_version r = snd (store_run (rfs_lay os base) (take (i - 1) ?l) (rfs_view os base (rfs_init d))) (h_file info) + 1"
    using q(2) by (simp add: result_version_def dget_def run_entries_view)
  then show "clo_version r = 1 + int (writes_of (h_file info) (take i ?l))"
    using fi writes_of_take_Suc [OF own(1) l e] by (simp add: store_versions)
qed

lemma version_prefix:
  assumes "0 < i" "i \<le> length es" "entry_op (es ! (i - 1)) = PutFile f b" "k \<le> length es"
    and "writes_of f (take k es) = writes_of f (take i es)"
  shows "i \<le> k \<and> writes_of f (drop i (take k es)) = 0"
proof -
  have "i \<le> k"
  proof (rule ccontr)
    assume "\<not> i \<le> k"
    then have "writes_of f (take k es) \<le> writes_of f (take (i - 1) es)" by (intro writes_of_mono) simp
    with writes_of_take_Suc [OF assms(1-3)] assms(5) show False by simp
  qed
  moreover have "take k es = take i es @ drop i (take k es)"
    using \<open>i \<le> k\<close> by (metis append_take_drop_id min.absorb1 take_take)
  ultimately show ?thesis using assms(5) by (metis add_cancel_right_right writes_of_simps(2))
qed

lemma store_unwritten:
  assumes "writes_of f es = 0" "\<And>g. lay g = lay f \<Longrightarrow> g = f" "fst v f = Some b"
  shows "fst (store_run lay es v) f = Some b"
  using assms(1,3)
proof (induction es arbitrary: v)
  case (Cons e es)
  obtain c w where v: "v = (c, w)" by (cases v)
  have "fst (fop_step lay (entry_op e) v) f = Some b"
  proof (cases "entry_op e")
    case (MakeFile g)
    then show ?thesis using Cons.prems assms(2) [of g] by (auto simp: v)
  next
    case (PutFile g b')
    then show ?thesis using Cons.prems assms(2) [of g] by (auto simp: v)
  qed (simp add: v Cons.prems [unfolded v, simplified])
  moreover have "writes_of f es = 0" using Cons.prems(1) by (simp split: fs_op.splits)
  ultimately show ?case using Cons.IH by simp
qed simp

section \<open>Lives of a node\<close>

text \<open>The disk after a node has lived through these histories, with a restart after each.\<close>

fun after_lives :: "os \<Rightarrow> string \<Rightarrow> rfs_event list list \<Rightarrow> disk \<Rightarrow> disk" where
  "after_lives os base [] d = d"
| "after_lives os base (h # hs) d = after_lives os base hs (rf_disk (rfs_run os base h (rfs_init d)))"

lemma init_shares: "shares (rfs_lay os base) (rfs_view os base (rfs_init d))"
  by (rule shares_view)

lemma init_contents: "fst (rfs_view os base (rfs_init (rf_disk s))) = fst (rfs_view os base s)"
  by (simp add: rfs_view_def rfs_init_def)

lemma replay_lives:
  assumes "\<forall>h\<in>set hs. prefix (applied_entries h) es"
  shows "store_run (rfs_lay os base) es (rfs_view os base (rfs_init (after_lives os base hs d)))
    = store_run (rfs_lay os base) es (rfs_view os base (rfs_init d))"
  using assms
proof (induction hs arbitrary: d)
  case (Cons h hs)
  let ?l = "rfs_lay os base" and ?d = "rf_disk (rfs_run os base h (rfs_init d))"
  obtain fs where es: "es = applied_entries h @ fs" using Cons.prems by (auto simp: prefix_def)
  have "fst (rfs_view os base (rfs_init ?d)) = fst (store_run ?l (applied_entries h) (rfs_view os base (rfs_init d)))"
    by (simp add: init_contents run_view)
  from replay_contents [OF init_shares init_shares this]
  have "fst (store_run ?l es (rfs_view os base (rfs_init ?d))) = fst (store_run ?l es (rfs_view os base (rfs_init d)))"
    unfolding es .
  moreover have "snd (store_run ?l es (rfs_view os base (rfs_init ?d))) = snd (store_run ?l es (rfs_view os base (rfs_init d)))"
    by (rule ext) (simp add: store_versions)
  ultimately show ?case using Cons by (simp add: prod_eq_iff)
qed simp

lemma open_section_reply:
  "opn_data (snd (rfs_open_section os base f mode b s)) = b"
  "opn_version (snd (rfs_open_section os base f mode b s)) = snd (rfs_view os base s) f"
  by (auto simp: rfs_open_section_def rfs_view_def Let_def dget_or_def)

lemma open_reply:
  assumes "rfs_open os base f mode fetch s nd = (s', Reply r)" "opn_success r"
  obtains b where "rfs_open_read os base f mode fetch s nd = Inr b" "opn_data r = b"
    "opn_version r = snd (rfs_view os base s) f"
proof (cases "rfs_open_read os base f mode fetch s nd")
  case (Inl x)
  then have "x = Reply r" using assms(1) by (simp add: rfs_open_def)
  with Inl assms(2) have False by (auto simp: rfs_open_read_def open_error_def split: if_splits sum.splits)
  then show ?thesis ..
next
  case (Inr b)
  then have "r = snd (rfs_open_section os base f mode b s)" using assms(1) by (auto simp: rfs_open_def split: prod.splits)
  with Inr that show ?thesis by (simp add: open_section_reply)
qed

lemma open_read_contents:
  assumes "contents os (rf_disk s) (rfs_path base f) = Some b" "rfs_open_read os base f mode True s nd = Inr b'"
  shows "b' = b"
proof -
  have "path_exists os (rf_disk s) (rfs_path base f)" "read_file os (rfs_path base f) (rf_disk s) = Inr b"
    using assms(1) by (simp_all add: contents_exists read_file_contents)
  then show ?thesis using assms(2) by (simp add: rfs_open_read_def split: if_splits)
qed

section \<open>The run\<close>

text \<open>Node 0 of the run of \<open>Sm_Run\<close> closes a handle open for writing on file \<open>x\<close>.\<close>

definition rdisk :: os where
  "rdisk p = File p"

abbreviation "rfs_f \<equiv> rfs_apply rdisk ''d''"
abbreviation "rfs_5 \<equiv> sm_5 (rfs_init [])"
abbreviation "rfs_13 \<equiv> sm_13 rfs_f ''write'' (rfs_init [])"
abbreviation "rfs_14 \<equiv> sm_14 rfs_f ''write'' (rfs_init [])"

definition rfs_done :: rfs where
  "rfs_done = \<lparr>rf_disk = [(''d/x'', ''v'')], rf_versions = [(''x'', 2)], rf_open = [], rf_next = 1, rf_dedup = []\<rparr>"

definition rfs_opened :: rfs where
  "rfs_opened = \<lparr>rf_disk = [], rf_versions = [], rf_open = [(1, \<lparr>h_file = ''x'', h_mode = ''w''\<rparr>)], rf_next = 2, rf_dedup = []\<rparr>"

lemma rdisk_lay: "rfs_lay rdisk ''d'' g = rfs_lay rdisk ''d'' ''x'' \<Longrightarrow> g = ''x''"
  by (auto simp: rfs_lay_def rdisk_def rfs_path_def path_join_def startswith_def split: if_splits)

lemma rfs_run_write: "run_apply rfs_f (client_entry 1 2 ''write'' ''x'' ''v'' ''c'' 1) (rfs_init []) =
    (rfs_done, RDict [(''new_version'', PInt 2)])"
proof -
  have "rfs_apply_write rdisk ''d'' ''x'' ''v'' (rfs_init []) = (rfs_done, Inr [(''new_version'', PInt 2)])"
    by (simp add: rfs_apply_write_def write_file_def rdisk_def rfs_path_def path_join_def startswith_def rfs_init_def
        rfs_done_def dget_or_def dset_def Let_def)
  then show ?thesis by (simp add: run_apply_client rfs_apply_def rfs_apply_entry_def) (simp add: client_entry_def)
qed

lemmas rfs_nodes_13 = sm_nodes_13 [OF rfs_run_write]
lemmas rfs_nodes_14 = sm_nodes_14 [OF rfs_run_write]

definition rfs_node :: raft_node where
  "rfs_node = fst (projr (append_entry_begin ''write'' ''x'' ''v'' ''c'' 1 (c_node demo_5 0)))"

lemma rfs_close_begin_run:
  "rfs_close_begin 1 ''v'' ''c'' 1 rfs_opened (c_node rfs_5 0) (c_node rfs_5 0) (c_node rfs_5 0)
     = (rfs_opened\<lparr>rf_open := []\<rparr>, FsWaits rfs_node 2 0)"
proof -
  have "\<not> isolated (c_node rfs_5 0)" "is_leader (c_node rfs_5 0)"
    by (simp_all add: sm_5_def is_leader_def nodes_5(1))
  moreover have "append_entry_begin ''write'' ''x'' ''v'' ''c'' 1 (c_node rfs_5 0) = Inr (rfs_node, 2, 0)"
    by (simp add: sm_5_def begin_6 rfs_node_def)
  ultimately show ?thesis
    by (simp add: rfs_close_begin_def abort_if_isolated_def rfs_check_idempotent_def rfs_opened_def dget_def dpop_def)
qed

lemma rfs_steps: "(cstep demo_ids rfs_f (rfs_init []))\<^sup>*\<^sup>* (set_node 0 rfs_node rfs_5) rfs_13"
proof -
  have "set_node 0 rfs_node rfs_5 = with_sm (rfs_init []) (trace_6 ''write'')"
    by (simp add: sm_5_def trace_6_def begin_6 rfs_node_def)
  then show ?thesis using rtranclp_trans [OF sm_steps_12 sm_steps_14(1)] by metis
qed

lemma rfs_waiter: "own_waiter rfs_13 0 0 2 (current_term (c_node rfs_5 0))"
  by (simp add: own_waiter_def rfs_nodes_13 sm_5_def nodes_5)

lemma rfs_close_end_run:
  "snd (snd (rfs_close_end ''c'' 1 2 0 (c_node rfs_13 0) s)) = \<lparr>clo_success = True, clo_version = 2, clo_error = []\<rparr>"
  by (simp add: rfs_close_end_def append_entry_end_def rfs_nodes_13 result_version_def dget_def Let_def)

lemma rfs_run_nodes: "0 \<in> demo_ids" "1 \<in> demo_ids"
  by (simp_all add: demo_ids_def)

lemma rfs_append_run: "append_entry_begin ''write'' ''x'' ''v'' ''c'' 1 (c_node rfs_5 0) = Inr (rfs_node, 2, 0)"
  by (simp add: sm_5_def begin_6 rfs_node_def)

lemma rfs_end_run: "snd (append_entry_end 2 0 (c_node rfs_13 0)) = Inr (Some [(''new_version'', PInt 2)])"
  by (simp add: append_entry_end_def rfs_nodes_13)

lemma rfs_opened_handle: "dget (rf_open rfs_opened) 1 = Some \<lparr>h_file = ''x'', h_mode = ''w''\<rparr>"
  by (simp add: rfs_opened_def dget_def)

section \<open>Properties\<close>

text \<open>
  C19. The replicated store refines the abstract one: in any history of applied entries and handler
  sections, the contents and versions of all names are the abstract store run on the applied
  entries alone. Opening, closing, and the deduplication cache never change what is stored, so
  replicas that applied the same entries hold the same files at the same versions.
\<close>

theorem rfs_refines:
  "rfs_view os base (rfs_run os base es s) = store_run (rfs_lay os base) (applied_entries es) (rfs_view os base s)"
  by (rule run_view)

text \<open>
  The version of a write: when a \<open>Close\<close> of a handle opened for writing succeeds, its entry is
  in the committed log, and the version it returns is one more than the number of writes of the
  file up to and including it. So versions order the writes of a file, and no two acknowledged
  writes share one, whichever nodes lead.
\<close>

lemma rfs_close_version:
  assumes "reachable ids cfg (rfs_apply os base) (rfs_init d) c" "n \<in> ids"
    and "rfs_close_begin h b cid sq s nd0 nd1 (c_node c n) = (s1, FsWaits nd i ref)"
    and "(cstep ids (rfs_apply os base) (rfs_init d))\<^sup>*\<^sup>* (set_node n nd c) c'"
    and "own_waiter c' n ref i (current_term (c_node c n))"
    and "snd (snd (rfs_close_end cid sq i ref (c_node c' n) s2)) = r" "clo_success r"
    and "dget (rf_open s) h = Some info"
  shows "0 < i \<and> i \<le> commit_index (c_node c' n) \<and> entry_op (log (c_node c' n) ! (i - 1)) = PutFile (h_file info) b
    \<and> clo_version r = 1 + int (writes_of (h_file info) (take i (log (c_node c' n))))"
  using close_acknowledged [OF assms] by simp





text \<open>
  A race in \<open>Open\<close>: it reads the file before it takes the lock and the version after. A write
  applied in between makes it return the old bytes under the new version, so a client that caches
  by version keeps stale bytes until the next write.
\<close>

lemma rfs_open_race:
  assumes "contents os (rf_disk s) (rfs_path base f) = Some a" "\<not> isolated nd" "entry_op e = PutFile f b"
  shows "rfs_open_read os base f ''r'' True s nd = Inr a
    \<and> opn_data (snd (rfs_open_section os base f ''r'' a (rfs_exec os base (Applied e) s))) = a
    \<and> opn_version (snd (rfs_open_section os base f ''r'' a (rfs_exec os base (Applied e) s)))
        = snd (rfs_view os base (rfs_exec os base (Applied e) s)) f
    \<and> fst (rfs_view os base (rfs_exec os base (Applied e) s)) f = Some b
    \<and> snd (rfs_view os base (rfs_exec os base (Applied e) s)) f = snd (rfs_view os base s) f + 1"
proof -
  have "is_file (rfs_lay os base f)" using assms(1) by (simp add: is_file_def rfs_lay_def contents_def split: loc.splits)
  moreover have "path_exists os (rf_disk s) (rfs_path base f)" "read_file os (rfs_path base f) (rf_disk s) = Inr a"
    using assms(1) by (simp_all add: contents_exists read_file_contents)
  moreover obtain c v where "rfs_view os base s = (c, v)" by (cases "rfs_view os base s")
  ultimately show ?thesis
    using assms(2,3) by (simp add: rfs_open_read_def abort_if_isolated_def open_section_reply apply_view)
qed

text \<open>
  Snapshots are not restored: \<open>InstallSnapshot\<close> on a file server node leaves its files and
  versions as they are, because \<open>_apply_entry\<close> raises before it looks at the snapshot, and yet
  counts everything up to the snapshot's index as committed and applied.
\<close>

lemma rfs_snapshot_lost:
  assumes "\<not> isolated nd"
  shows "\<exists>nd' t. rpc_install_snapshot (\<lambda>b s. fst (rfs_apply_entry os base (SnapshotArg b) s)) a nd s = (nd', s, Reply t)
    \<and> is_last_idx a \<le> last_applied nd' \<and> is_last_idx a \<le> commit_index nd'"
proof -
  have "last_applied (persist_log nd) = last_applied nd" "commit_index (persist_log nd) = commit_index nd" for nd
    by (simp_all add: persist_log_def)
  then show ?thesis
    using assms by (simp add: rpc_install_snapshot_def abort_if_isolated_def handle_install_snapshot_def
        install_snapshot_end_def rfs_apply_entry_def Let_def)
qed

end
