(* ===== verification/Primary_Backup.thy ===== *)
theory Primary_Backup
  imports Files "HOL-Library.List_Lexorder" "HOL-Library.Char_ord"
begin

text \<open>
  The primary-backup file server, \<open>part2_3_replication/replication/server.py\<close>: one server and
  what it does on each call, and the cluster, in which the calls of a server to its peers run on
  their state. Which calls reach a peer is an argument: a peer that is down, cut off or too slow
  is one the call does not reach. Addresses are ordered as Python orders strings.

  Time is in whole milliseconds.
\<close>

section \<open>State of a server\<close>

datatype rep_role = RUnknown | RPrimary | RBackup

record rep =
  rp_addr :: addr
  rp_peers :: "addr list"
  rp_dir :: string
  rp_disk :: disk
  rp_versions :: "(string, int) dict"
  rp_open :: "(int, handle_info) dict"
  rp_next :: int
  rp_dedup :: "(string, int \<times> cached_response) dict"
  rp_primary :: addr
  rp_role :: rep_role
  rp_ready :: bool
  rp_heard :: "(addr, int) dict"
  rp_stubs :: "addr list"

definition rp_path :: "rep \<Rightarrow> string \<Rightarrow> string" where
  "rp_path s f = path_join (rp_dir s) f"

definition all_addrs :: "rep \<Rightarrow> addr list" where
  "all_addrs s = sort (rp_addr s # rp_peers s)"

text \<open>\<open>peer_stubs\<close> is a dictionary; the model keeps its keys in their order.\<close>

definition connect_one_peer :: "addr \<Rightarrow> rep \<Rightarrow> rep" where
  "connect_one_peer a s = (if a \<in> set (rp_stubs s) then s else s\<lparr>rp_stubs := rp_stubs s @ [a]\<rparr>)"

definition connect_peers :: "rep \<Rightarrow> rep" where
  "connect_peers s = foldl (\<lambda>s a. connect_one_peer a s) s (rp_peers s)"

text \<open>The constructor up to the choice of a role; the disk is what an earlier life left.\<close>

definition rp_init :: "addr \<Rightarrow> addr list \<Rightarrow> string \<Rightarrow> disk \<Rightarrow> rep" where
  "rp_init me peers dir d = connect_peers
     \<lparr>rp_addr = me, rp_peers = peers, rp_dir = dir, rp_disk = d, rp_versions = [], rp_open = [], rp_next = 1,
      rp_dedup = [], rp_primary = hd (sort (me # peers)), rp_role = RUnknown, rp_ready = False,
      rp_heard = dict_of (map (\<lambda>p. (p, 0)) peers), rp_stubs = []\<rparr>"

section \<open>Replication calls\<close>

definition rp_heartbeat :: "addr \<Rightarrow> int \<Rightarrow> rep \<Rightarrow> rep \<times> rep_role \<times> addr" where
  "rp_heartbeat sender now s =
     (let s' = (if dget (rp_heard s) sender \<noteq> None then s\<lparr>rp_heard := dset (rp_heard s) sender now\<rparr> else s)
      in (s', rp_role s', rp_primary s'))"

definition rp_announce_leader :: "addr \<Rightarrow> rep \<Rightarrow> rep" where
  "rp_announce_leader p s = s\<lparr>rp_primary := p, rp_role := (if p = rp_addr s then RPrimary else RBackup)\<rparr>"

definition rp_cluster_info :: "rep \<Rightarrow> addr \<times> rep_role" where
  "rp_cluster_info s = (rp_primary s, rp_role s)"

text \<open>Success, or the message of the exception.\<close>

definition rp_replicate_write :: "os \<Rightarrow> string \<Rightarrow> bytes \<Rightarrow> int \<Rightarrow> rep \<Rightarrow> rep \<times> (string + unit)" where
  "rp_replicate_write os f b v s =
     (case write_file os (rp_path s f) b (rp_disk s) of
        Inl x \<Rightarrow> (s, Inl (exn_str x))
      | Inr d \<Rightarrow> (s\<lparr>rp_disk := d, rp_versions := dset (rp_versions s) f v\<rparr>, Inr ()))"

definition rp_replicate_create :: "os \<Rightarrow> string \<Rightarrow> rep \<Rightarrow> rep \<times> (string + unit)" where
  "rp_replicate_create os f s =
     (case (if path_exists os (rp_disk s) (rp_path s f) then Inr (rp_disk s)
            else write_file os (rp_path s f) [] (rp_disk s)) of
        Inl x \<Rightarrow> (s, Inl (exn_str x))
      | Inr d \<Rightarrow> (s\<lparr>rp_disk := d, rp_versions := dset (rp_versions s) f 1\<rparr>, Inr ()))"

record file_entry =
  fe_name :: string
  fe_data :: bytes
  fe_version :: int

definition rp_sync_state :: "os \<Rightarrow> rep \<Rightarrow> file_entry list" where
  "rp_sync_state os s = concat (map (\<lambda>(f, v).
     case read_file os (rp_path s f) (rp_disk s) of
       Inl x \<Rightarrow> [] | Inr b \<Rightarrow> [\<lparr>fe_name = f, fe_data = b, fe_version = v\<rparr>]) (rp_versions s))"

section \<open>Starting\<close>

text \<open>\<open>listdir\<close> with \<open>isfile\<close>: the names in the directory that are files, in some order.\<close>

definition load_existing_files :: "string list \<Rightarrow> rep \<Rightarrow> rep" where
  "load_existing_files names s = s\<lparr>rp_versions := foldl (\<lambda>d f. dsetdefault d f 1) (rp_versions s) names\<rparr>"

text \<open>\<open>answers a\<close>: the primary that peer \<open>a\<close> names; \<open>None\<close> when the call fails.\<close>

definition count_votes :: "(addr \<Rightarrow> addr option) \<Rightarrow> addr list \<Rightarrow> (addr, nat) dict" where
  "count_votes answers stubs = foldl (\<lambda>d a. case answers a of
     Some p \<Rightarrow> if p \<noteq> [] then dset d p (dget_or d p 0 + 1) else d | None \<Rightarrow> d) [] stubs"

text \<open>\<open>max(votes, key=...)\<close>: the first key with the largest count.\<close>

fun first_max :: "(addr, nat) dict \<Rightarrow> (addr \<times> nat) option" where
  "first_max [] = None"
| "first_max ((p, n) # d) = (case first_max d of None \<Rightarrow> Some (p, n) | Some (q, m) \<Rightarrow> if m \<le> n then Some (p, n) else Some (q, m))"

definition query_peers_for_primary :: "(addr \<Rightarrow> addr option) \<Rightarrow> rep \<Rightarrow> addr option" where
  "query_peers_for_primary answers s = map_option fst (first_max (count_votes answers (rp_stubs s)))"

text \<open>One attempt to synchronize; an exception other than that of the call ends the server.\<close>

fun install_entries :: "os \<Rightarrow> file_entry list \<Rightarrow> rep \<Rightarrow> exn + rep" where
  "install_entries os [] s = Inr s"
| "install_entries os (e # es) s =
     (case write_file os (rp_path s (fe_name e)) (fe_data e) (rp_disk s) of
        Inl x \<Rightarrow> Inl x
      | Inr d \<Rightarrow> install_entries os es
          (s\<lparr>rp_disk := d, rp_versions := dset (rp_versions s) (fe_name e) (fe_version e)\<rparr>))"

text \<open>The attempts that fit in the time: what each call returned.\<close>

fun try_sync_from :: "os \<Rightarrow> addr \<Rightarrow> file_entry list option list \<Rightarrow> rep \<Rightarrow> exn + (rep \<times> bool)" where
  "try_sync_from os src [] s = Inr (s, False)"
| "try_sync_from os src (None # rs) s = try_sync_from os src rs s"
| "try_sync_from os src (Some es # rs) s =
     (case install_entries os es s of
        Inl x \<Rightarrow> Inl x
      | Inr s' \<Rightarrow> Inr (s'\<lparr>rp_primary := src, rp_role := RBackup, rp_ready := True\<rparr>, True))"

section \<open>Election\<close>

text \<open>\<open>alive\<close>: the peers that answer. The announcement goes out when the server elects itself.\<close>

definition elect_new_primary :: "(addr \<Rightarrow> bool) \<Rightarrow> rep \<Rightarrow> rep" where
  "elect_new_primary alive s =
     (let p = hd (sort (rp_addr s # filter alive (rp_stubs s)))
      in s\<lparr>rp_primary := p, rp_role := (if p = rp_addr s then RPrimary else RBackup)\<rparr>)"

definition sync_or_elect ::
  "os \<Rightarrow> string list \<Rightarrow> (addr \<Rightarrow> bool) \<Rightarrow> file_entry list option list \<Rightarrow> addr \<Rightarrow> rep \<Rightarrow> exn + rep" where
  "sync_or_elect os names alive attempts target s =
     (case try_sync_from os target attempts s of
        Inl x \<Rightarrow> Inl x
      | Inr (s', True) \<Rightarrow> Inr s'
      | Inr (s', False) \<Rightarrow>
          (let s1 = elect_new_primary alive s';
               s2 = (if rp_role s1 = RPrimary then load_existing_files names s1 else s1)
           in Inr (s2\<lparr>rp_ready := True\<rparr>)))"

definition determine_startup_role ::
  "os \<Rightarrow> string list \<Rightarrow> (addr \<Rightarrow> addr option) \<Rightarrow> (addr \<Rightarrow> bool) \<Rightarrow> file_entry list option list \<Rightarrow> rep \<Rightarrow> exn + rep" where
  "determine_startup_role os names answers alive attempts s =
     (case query_peers_for_primary answers s of
        Some claimed \<Rightarrow>
          if claimed = rp_addr s then
            Inr ((load_existing_files names (s\<lparr>rp_role := RPrimary, rp_primary := rp_addr s\<rparr>))\<lparr>rp_ready := True\<rparr>)
          else sync_or_elect os names alive attempts claimed
                 (connect_one_peer claimed (s\<lparr>rp_role := RBackup, rp_primary := claimed\<rparr>))
      | None \<Rightarrow>
          (let preferred = hd (all_addrs s) in
           if rp_addr s = preferred then
             Inr ((load_existing_files names (s\<lparr>rp_role := RPrimary, rp_primary := rp_addr s\<rparr>))\<lparr>rp_ready := True\<rparr>)
           else sync_or_elect os names alive attempts preferred (s\<lparr>rp_role := RBackup, rp_primary := preferred\<rparr>)))"

section \<open>Heartbeats\<close>

definition HEARTBEAT_TIMEOUT :: int where
  "HEARTBEAT_TIMEOUT = 6000"

text \<open>A heartbeat to \<open>a\<close> came back.\<close>

definition heartbeat_sent :: "addr \<Rightarrow> int \<Rightarrow> rep \<Rightarrow> rep" where
  "heartbeat_sent a now s = s\<lparr>rp_heard := dset (rp_heard s) a now\<rparr>"

definition failure_detected :: "int \<Rightarrow> rep \<Rightarrow> bool" where
  "failure_detected now s \<longleftrightarrow> rp_role s = RBackup \<and> rp_primary s \<noteq> rp_addr s
     \<and> dget_or (rp_heard s) (rp_primary s) 0 > 0 \<and> now - dget_or (rp_heard s) (rp_primary s) 0 > HEARTBEAT_TIMEOUT"

section \<open>File calls\<close>

definition not_ready :: "rep \<Rightarrow> 'r call option" where
  "not_ready s = (if rp_ready s then None else Some (Status ''UNAVAILABLE'' ''Server syncing, try again shortly''))"

definition require_primary :: "rep \<Rightarrow> 'r call option" where
  "require_primary s =
     (if rp_role s = RPrimary then None else Some (Status ''FAILED_PRECONDITION'' (''NOT_PRIMARY:'' @ rp_primary s)))"

definition rp_check_idempotent :: "string \<Rightarrow> int \<Rightarrow> rep \<Rightarrow> cached_response option" where
  "rp_check_idempotent cid seq s =
     (if cid = [] \<or> seq \<le> 0 then None
      else (case dget (rp_dedup s) cid of
              None \<Rightarrow> None | Some (last_seq, r) \<Rightarrow> if seq \<le> last_seq then Some r else None))"

definition store_response :: "string \<Rightarrow> int \<Rightarrow> cached_response \<Rightarrow> rep \<Rightarrow> rep" where
  "store_response cid seq r s =
     (if cid \<noteq> [] \<and> seq > 0 then s\<lparr>rp_dedup := dset (rp_dedup s) cid (seq, r)\<rparr> else s)"

text \<open>A cached response of another kind of call cannot be serialized.\<close>

definition cached_create :: "cached_response \<Rightarrow> create_response call" where
  "cached_create c = (case c of CachedCreate r \<Rightarrow> Answered r | CachedClose _ \<Rightarrow> Status ''INTERNAL'' ''Failed to serialize response!'')"

definition cached_close :: "cached_response \<Rightarrow> close_response call" where
  "cached_close c = (case c of CachedClose r \<Rightarrow> Answered r | CachedCreate _ \<Rightarrow> Status ''INTERNAL'' ''Failed to serialize response!'')"

definition rp_test_version :: "string \<Rightarrow> rep \<Rightarrow> int call" where
  "rp_test_version f s = (case not_ready s of Some e \<Rightarrow> e | None \<Rightarrow> Answered (dget_or (rp_versions s) f 1))"

text \<open>
  \<open>Create\<close> and \<open>Close\<close> are given as the change of this server, the answer, and what is sent to the
  peers before answering.
\<close>

datatype replication = SendCreate string | SendWrite string bytes int

definition rp_create ::
  "os \<Rightarrow> string \<Rightarrow> string \<Rightarrow> int \<Rightarrow> rep \<Rightarrow> rep \<times> create_response call \<times> replication option" where
  "rp_create os f cid seq s =
     (case not_ready s of Some e \<Rightarrow> (s, e, None) | None \<Rightarrow>
      case require_primary s of Some e \<Rightarrow> (s, e, None) | None \<Rightarrow>
      case rp_check_idempotent cid seq s of Some c \<Rightarrow> (s, cached_create c, None) | None \<Rightarrow>
      if path_exists os (rp_disk s) (rp_path s f) then (s, Answered (create_error ''File already exists''), None)
      else (case write_file os (rp_path s f) [] (rp_disk s) of
              Inl x \<Rightarrow> (s, Answered (create_error (exn_str x)), None)
            | Inr d \<Rightarrow>
                (let r = \<lparr>cre_handle = 0, cre_success = True, cre_error = []\<rparr>
                 in (store_response cid seq (CachedCreate r) (s\<lparr>rp_disk := d, rp_versions := dset (rp_versions s) f 1\<rparr>),
                     Answered r, Some (SendCreate f)))))"

definition rp_open_section :: "os \<Rightarrow> string \<Rightarrow> string \<Rightarrow> bytes \<Rightarrow> rep \<Rightarrow> rep \<times> open_response" where
  "rp_open_section os f mode b s =
     (let h = rp_next s;
          s1 = s\<lparr>rp_next := h + 1, rp_open := dset (rp_open s) h \<lparr>h_file = f, h_mode = mode\<rparr>\<rparr>;
          s2 = (if dget (rp_versions s1) f = None \<and> path_exists os (rp_disk s1) (rp_path s1 f)
                then s1\<lparr>rp_versions := dset (rp_versions s1) f 1\<rparr> else s1)
      in (s2, \<lparr>opn_handle = h, opn_data = b, opn_version = dget_or (rp_versions s2) f 1,
               opn_success = True, opn_error = []\<rparr>))"

definition rp_open_call :: "os \<Rightarrow> string \<Rightarrow> string \<Rightarrow> bool \<Rightarrow> rep \<Rightarrow> rep \<times> open_response call" where
  "rp_open_call os f mode fetch s =
     (case not_ready s of Some e \<Rightarrow> (s, e) | None \<Rightarrow>
      if mode \<noteq> ''r'' \<and> mode \<noteq> ''w'' then (s, Answered (open_error mode_error))
      else case (if mode = ''w'' then require_primary s else None) of Some e \<Rightarrow> (s, e) | None \<Rightarrow>
      if \<not> path_exists os (rp_disk s) (rp_path s f) \<and> mode = ''r'' then (s, Answered (open_error ''File not found''))
      else (case (if fetch \<and> path_exists os (rp_disk s) (rp_path s f)
                  then read_file os (rp_path s f) (rp_disk s) else Inr []) of
              Inl x \<Rightarrow> (s, Answered (open_error (exn_str x)))
            | Inr b \<Rightarrow> (let (s', r) = rp_open_section os f mode b s in (s', Answered r))))"

text \<open>The sections of \<open>Close\<close>: checks and taking the handle, writing the file, the new version.\<close>

definition rp_close_take ::
  "int \<Rightarrow> string \<Rightarrow> int \<Rightarrow> rep \<Rightarrow> rep \<times> (close_response call + handle_info)" where
  "rp_close_take h cid seq s =
     (case not_ready s of Some e \<Rightarrow> (s, Inl e) | None \<Rightarrow>
      case (case dget (rp_open s) h of Some i \<Rightarrow> if h_mode i = ''w'' then require_primary s else None | None \<Rightarrow> None) of
        Some e \<Rightarrow> (s, Inl e) | None \<Rightarrow>
      case rp_check_idempotent cid seq s of Some c \<Rightarrow> (s, Inl (cached_close c)) | None \<Rightarrow>
      case dget (rp_open s) h of
        None \<Rightarrow> (s, Inl (Answered (close_error ''Invalid file handle'')))
      | Some i \<Rightarrow> (s\<lparr>rp_open := dpop (rp_open s) h\<rparr>, Inr i))"

definition rp_close_write :: "os \<Rightarrow> string \<Rightarrow> bytes \<Rightarrow> rep \<Rightarrow> exn + rep" where
  "rp_close_write os f b s =
     (case write_file os (rp_path s f) b (rp_disk s) of Inl x \<Rightarrow> Inl x | Inr d \<Rightarrow> Inr (s\<lparr>rp_disk := d\<rparr>))"

definition rp_close_bump :: "string \<Rightarrow> rep \<Rightarrow> rep \<times> int" where
  "rp_close_bump f s = (let v = dget_or (rp_versions s) f 1 + 1 in (s\<lparr>rp_versions := dset (rp_versions s) f v\<rparr>, v))"

definition rp_close ::
  "os \<Rightarrow> int \<Rightarrow> bytes \<Rightarrow> string \<Rightarrow> int \<Rightarrow> rep \<Rightarrow> rep \<times> close_response call \<times> replication option" where
  "rp_close os h b cid seq s =
     (case rp_close_take h cid seq s of
        (s1, Inl e) \<Rightarrow> (s1, e, None)
      | (s1, Inr i) \<Rightarrow>
          if h_mode i = ''w'' then
            (case rp_close_write os (h_file i) b s1 of
               Inl x \<Rightarrow> (s1, Answered (close_error (exn_str x)), None)
             | Inr s2 \<Rightarrow>
                 (let (s3, v) = rp_close_bump (h_file i) s2; r = \<lparr>clo_success = True, clo_version = v, clo_error = []\<rparr>
                  in (store_response cid seq (CachedClose r) s3, Answered r, Some (SendWrite (h_file i) b v))))
          else
            (let r = \<lparr>clo_success = True, clo_version = 0, clo_error = []\<rparr>
             in (store_response cid seq (CachedClose r) s1, Answered r, None)))"

section \<open>The cluster\<close>

type_synonym cluster_state = "addr \<Rightarrow> rep"

definition receive :: "os \<Rightarrow> replication \<Rightarrow> rep \<Rightarrow> rep" where
  "receive os m s = (case m of SendCreate f \<Rightarrow> fst (rp_replicate_create os f s)
                             | SendWrite f b v \<Rightarrow> fst (rp_replicate_write os f b v s))"

text \<open>
  \<open>_replicate_write\<close> and \<open>_replicate_create\<close>: one call per peer, in order; a call that fails, or
  that the peer answers with a failure, is ignored.
\<close>

definition replicate_to :: "os \<Rightarrow> (addr \<Rightarrow> bool) \<Rightarrow> replication \<Rightarrow> addr list \<Rightarrow> cluster_state \<Rightarrow> cluster_state" where
  "replicate_to os reach m as c = foldl (\<lambda>c a. if reach a then c(a := receive os m (c a)) else c) c as"

definition send_out :: "os \<Rightarrow> (addr \<Rightarrow> bool) \<Rightarrow> addr \<Rightarrow> replication option \<Rightarrow> cluster_state \<Rightarrow> cluster_state" where
  "send_out os reach a m c = (case m of None \<Rightarrow> c | Some m \<Rightarrow> replicate_to os reach m (rp_stubs (c a)) c)"

definition cl_create ::
  "os \<Rightarrow> (addr \<Rightarrow> bool) \<Rightarrow> addr \<Rightarrow> string \<Rightarrow> string \<Rightarrow> int \<Rightarrow> cluster_state \<Rightarrow> cluster_state \<times> create_response call" where
  "cl_create os reach a f cid seq c =
     (let (s, r, m) = rp_create os f cid seq (c a) in (send_out os reach a m (c(a := s)), r))"

definition cl_close ::
  "os \<Rightarrow> (addr \<Rightarrow> bool) \<Rightarrow> addr \<Rightarrow> int \<Rightarrow> bytes \<Rightarrow> string \<Rightarrow> int \<Rightarrow> cluster_state \<Rightarrow> cluster_state \<times> close_response call" where
  "cl_close os reach a h b cid seq c =
     (let (s, r, m) = rp_close os h b cid seq (c a) in (send_out os reach a m (c(a := s)), r))"

text \<open>An election run by \<open>a\<close>: it hears from the peers \<open>alive\<close> and its announcement gets to \<open>reach\<close>.\<close>

definition announce_leader :: "(addr \<Rightarrow> bool) \<Rightarrow> addr \<Rightarrow> addr list \<Rightarrow> cluster_state \<Rightarrow> cluster_state" where
  "announce_leader reach p as c = foldl (\<lambda>c a. if reach a then c(a := rp_announce_leader p (c a)) else c) c as"

definition cl_elect :: "(addr \<Rightarrow> bool) \<Rightarrow> (addr \<Rightarrow> bool) \<Rightarrow> addr \<Rightarrow> cluster_state \<Rightarrow> cluster_state" where
  "cl_elect alive reach a c =
     (let s = elect_new_primary alive (c a); c' = c(a := s)
      in if rp_role s = RPrimary then announce_leader reach (rp_primary s) (rp_stubs s) c' else c')"

text \<open>A round of \<open>_heartbeat_sender\<close>, and a turn of \<open>_failure_detector\<close>.\<close>

definition cl_heartbeat :: "(addr \<Rightarrow> bool) \<Rightarrow> int \<Rightarrow> addr \<Rightarrow> cluster_state \<Rightarrow> cluster_state" where
  "cl_heartbeat reach now a c =
     foldl (\<lambda>c b. if reach b then (let c1 = c(b := fst (rp_heartbeat a now (c b))) in c1(a := heartbeat_sent b now (c1 a))) else c)
       c (rp_stubs (c a))"

definition cl_detect :: "(addr \<Rightarrow> bool) \<Rightarrow> (addr \<Rightarrow> bool) \<Rightarrow> int \<Rightarrow> addr \<Rightarrow> cluster_state \<Rightarrow> cluster_state" where
  "cl_detect alive reach now a c = (if failure_detected now (c a) then cl_elect alive reach a c else c)"

definition cl_open ::
  "os \<Rightarrow> addr \<Rightarrow> string \<Rightarrow> string \<Rightarrow> bool \<Rightarrow> cluster_state \<Rightarrow> cluster_state \<times> open_response call" where
  "cl_open os a f mode fetch c = (let (s, r) = rp_open_call os f mode fetch (c a) in (c(a := s), r))"

section \<open>Histories\<close>

text \<open>Calls of clients and heartbeat rounds, one after the other, every replication call getting through.\<close>

datatype pb_call =
    PbCreate addr string string int
  | PbClose addr int bytes string int
  | PbOpen addr string string bool
  | PbBeat addr int

fun pb_target :: "pb_call \<Rightarrow> addr" where
  "pb_target (PbCreate a f cid seq) = a"
| "pb_target (PbClose a h b cid seq) = a"
| "pb_target (PbOpen a f mode fetch) = a"
| "pb_target (PbBeat a now) = a"

fun pb_exec :: "os \<Rightarrow> pb_call \<Rightarrow> cluster_state \<Rightarrow> cluster_state" where
  "pb_exec os (PbCreate a f cid seq) c = fst (cl_create os (\<lambda>_. True) a f cid seq c)"
| "pb_exec os (PbClose a h b cid seq) c = fst (cl_close os (\<lambda>_. True) a h b cid seq c)"
| "pb_exec os (PbOpen a f mode fetch) c = fst (cl_open os a f mode fetch c)"
| "pb_exec os (PbBeat a now) c = cl_heartbeat (\<lambda>_. True) now a c"

definition pb_run :: "os \<Rightarrow> pb_call list \<Rightarrow> cluster_state \<Rightarrow> cluster_state" where
  "pb_run os ks c = foldl (\<lambda>c k. pb_exec os k c) c ks"

end
