(* ===== verification/Primary_Backup_Theorems.thy ===== *)
theory Primary_Backup_Theorems
  imports Primary_Backup
begin

text \<open>
  What the primary-backup cluster promises: while every replication call gets through, all
  replicas hold the same files at the same versions, so a fail-over loses no acknowledged write;
  servers that hear from the same peers elect the same primary; a server that synchronizes gets
  what its source has. And what it does not: nothing stops a partitioned server from electing
  itself.
\<close>

section \<open>What can be seen of a server\<close>

definition rp_lay :: "os \<Rightarrow> rep \<Rightarrow> string \<Rightarrow> loc" where
  "rp_lay os s f = os (rp_path s f)"

definition rp_view :: "os \<Rightarrow> rep \<Rightarrow> (string \<Rightarrow> bytes option) \<times> (string \<Rightarrow> int)" where
  "rp_view os s = (\<lambda>f. contents os (rp_disk s) (rp_path s f), \<lambda>f. dget_or (rp_versions s) f 1)"

text \<open>Two servers whose directories treat names in the same way.\<close>

definition alike :: "os \<Rightarrow> rep \<Rightarrow> rep \<Rightarrow> bool" where
  "alike os s t \<longleftrightarrow> (\<forall>f g. (rp_lay os s f = rp_lay os s g) = (rp_lay os t f = rp_lay os t g))
     \<and> (\<forall>f. (\<exists>l. rp_lay os s f = File l) = (\<exists>l. rp_lay os t f = File l))
     \<and> (\<forall>f. (rp_lay os s f = Directory) = (rp_lay os t f = Directory))"

lemma alikeD:
  assumes "alike os s t"
  shows "(rp_lay os s f = rp_lay os s g) = (rp_lay os t f = rp_lay os t g)"
    "(\<exists>l. rp_lay os s f = File l) = (\<exists>l. rp_lay os t f = File l)"
    "(rp_lay os s f = Directory) = (rp_lay os t f = Directory)"
  using assms unfolding alike_def by blast+

lemma alike_refl: "alike os s s" by (simp add: alike_def)

lemma alike_dir: "rp_dir s' = rp_dir s \<Longrightarrow> rp_dir t' = rp_dir t \<Longrightarrow> alike os s t \<Longrightarrow> alike os s' t'"
  by (simp add: alike_def rp_lay_def rp_path_def)

lemma rp_path_updates [simp]:
  "rp_path (s\<lparr>rp_disk := d\<rparr>) = rp_path s" "rp_path (s\<lparr>rp_versions := vs\<rparr>) = rp_path s"
  "rp_path (s\<lparr>rp_open := x\<rparr>) = rp_path s" "rp_path (s\<lparr>rp_next := n\<rparr>) = rp_path s"
  "rp_path (s\<lparr>rp_dedup := dd\<rparr>) = rp_path s" "rp_path (s\<lparr>rp_heard := hh\<rparr>) = rp_path s"
  "rp_path (s\<lparr>rp_primary := p\<rparr>) = rp_path s" "rp_path (s\<lparr>rp_role := r\<rparr>) = rp_path s"
  "rp_path (s\<lparr>rp_ready := b\<rparr>) = rp_path s" "rp_path (s\<lparr>rp_stubs := st\<rparr>) = rp_path s"
  by (simp_all add: rp_path_def fun_eq_iff)

text \<open>The two changes of a store.\<close>

definition put_view ::
  "(string \<Rightarrow> loc) \<Rightarrow> string \<Rightarrow> bytes \<Rightarrow> int \<Rightarrow> (string \<Rightarrow> bytes option) \<times> (string \<Rightarrow> int) \<Rightarrow> (string \<Rightarrow> bytes option) \<times> (string \<Rightarrow> int)" where
  "put_view lay f b v w = (\<lambda>g. if lay g = lay f then Some b else fst w g, (snd w)(f := v))"

lemma write_view:
  assumes "write_file os (rp_path s f) b (rp_disk s) = Inr d"
  shows "rp_view os (s\<lparr>rp_disk := d, rp_versions := dset (rp_versions s) f v\<rparr>) = put_view (rp_lay os s) f b v (rp_view os s)"
proof -
  have "(contents os d (rp_path s g) = Some b) = (rp_lay os s g = rp_lay os s f \<or> contents os (rp_disk s) (rp_path s g) = Some b)" for g
    using write_file_contents [OF assms, of "rp_path s g"] by (auto simp: rp_lay_def)
  then show ?thesis
    using write_file_contents [OF assms] by (auto simp: rp_view_def put_view_def rp_lay_def dget_or_def fun_eq_iff)
qed

lemma put_view_alike: "alike os s t \<Longrightarrow> put_view (rp_lay os s) f b v w = put_view (rp_lay os t) f b v w"
  by (simp add: put_view_def alikeD(1) [of os s t])

lemma write_succeeds: "(\<exists>d. write_file os (rp_path s f) b (rp_disk s) = Inr d) \<longleftrightarrow> (\<exists>l. rp_lay os s f = File l)"
  by (auto simp: write_file_def rp_lay_def split: loc.splits)

lemma exists_view: "path_exists os (rp_disk s) (rp_path s f) \<longleftrightarrow> rp_lay os s f = Directory \<or> fst (rp_view os s) f \<noteq> None"
  by (auto simp: path_exists_def rp_lay_def rp_view_def contents_def split: loc.splits)

lemma view_updates [simp]:
  "rp_view os (s\<lparr>rp_open := x\<rparr>) = rp_view os s" "rp_view os (s\<lparr>rp_next := n\<rparr>) = rp_view os s"
  "rp_view os (s\<lparr>rp_dedup := dd\<rparr>) = rp_view os s" "rp_view os (s\<lparr>rp_heard := hh\<rparr>) = rp_view os s"
  "rp_view os (s\<lparr>rp_primary := p\<rparr>) = rp_view os s" "rp_view os (s\<lparr>rp_role := r\<rparr>) = rp_view os s"
  "rp_view os (s\<lparr>rp_ready := b\<rparr>) = rp_view os s" "rp_view os (s\<lparr>rp_stubs := st\<rparr>) = rp_view os s"
  by (simp_all add: rp_view_def)

text \<open>What else the operations leave alone.\<close>

definition same_server :: "rep \<Rightarrow> rep \<Rightarrow> bool" where
  "same_server s s' \<longleftrightarrow> rp_addr s' = rp_addr s \<and> rp_dir s' = rp_dir s \<and> rp_role s' = rp_role s \<and> rp_stubs s' = rp_stubs s
     \<and> rp_primary s' = rp_primary s \<and> rp_ready s' = rp_ready s"

lemma same_server_refl [simp]: "same_server s s" by (simp add: same_server_def)

lemma same_server_trans: "same_server s t \<Longrightarrow> same_server t u \<Longrightarrow> same_server s u"
  by (simp add: same_server_def)

lemma store_response_same [simp]:
  "rp_view os (store_response cid seq r s) = rp_view os s" "same_server s (store_response cid seq r s)"
  "rp_open (store_response cid seq r s) = rp_open s"
  by (simp_all add: store_response_def same_server_def)

section \<open>The calls\<close>

lemma open_section_same:
  "rp_view os (fst (rp_open_section os f mode b s)) = rp_view os s" "same_server s (fst (rp_open_section os f mode b s))"
  by (auto simp: rp_open_section_def rp_view_def same_server_def Let_def dget_or_def)

lemma pb_open_reply:
  "opn_data (snd (rp_open_section os f mode b s)) = b" "opn_success (snd (rp_open_section os f mode b s))"
  "opn_version (snd (rp_open_section os f mode b s)) = snd (rp_view os s) f"
  by (auto simp: rp_open_section_def rp_view_def Let_def dget_or_def)

lemma open_call_same:
  "rp_view os (fst (rp_open_call os f mode fetch s)) = rp_view os s" "same_server s (fst (rp_open_call os f mode fetch s))"
  by (auto simp: rp_open_call_def not_ready_def require_primary_def open_section_same case_prod_unfold Let_def
      split: option.split sum.split)

lemma heartbeat_same:
  "rp_view os (fst (rp_heartbeat x now s)) = rp_view os s" "same_server s (fst (rp_heartbeat x now s))"
  "rp_view os (heartbeat_sent x now s) = rp_view os s" "same_server s (heartbeat_sent x now s)"
  by (simp_all add: rp_heartbeat_def heartbeat_sent_def same_server_def Let_def)

text \<open>Each of \<open>Create\<close> and \<open>Close\<close> sends nothing and changes no file, or is the primary's write.\<close>

lemma pb_create_cases:
  assumes "rp_create os f cid seq s = (s', r, m)"
  obtains (nothing) "m = None" "rp_view os s' = rp_view os s" "same_server s s'"
  | (made) d where "rp_role s = RPrimary" "rp_ready s" "m = Some (SendCreate f)" "same_server s s'"
      "\<not> path_exists os (rp_disk s) (rp_path s f)" "write_file os (rp_path s f) [] (rp_disk s) = Inr d"
      "rp_view os s' = put_view (rp_lay os s) f [] 1 (rp_view os s)"
      "r = Answered \<lparr>cre_handle = 0, cre_success = True, cre_error = []\<rparr>"
proof (cases "rp_ready s \<and> rp_role s = RPrimary \<and> rp_check_idempotent cid seq s = None
    \<and> \<not> path_exists os (rp_disk s) (rp_path s f) \<and> (\<exists>d. write_file os (rp_path s f) [] (rp_disk s) = Inr d)")
  case True
  then obtain d where d: "write_file os (rp_path s f) [] (rp_disk s) = Inr d" by blast
  let ?r = "\<lparr>cre_handle = 0, cre_success = True, cre_error = []\<rparr>"
  from True d assms have s: "s' = store_response cid seq (CachedCreate ?r) (s\<lparr>rp_disk := d, rp_versions := dset (rp_versions s) f 1\<rparr>)"
      "r = Answered ?r" "m = Some (SendCreate f)"
    by (auto simp: rp_create_def not_ready_def require_primary_def Let_def)
  have "same_server s (s\<lparr>rp_disk := d, rp_versions := dset (rp_versions s) f 1\<rparr>)" by (simp add: same_server_def)
  then have "same_server s s'" unfolding s(1) by (rule same_server_trans) simp
  moreover have "rp_view os s' = put_view (rp_lay os s) f [] 1 (rp_view os s)" unfolding s(1) by (simp add: write_view [OF d])
  ultimately show ?thesis using made [OF _ _ s(3) _ _ d _ s(2)] True by blast
next
  case False
  then have "s' = s \<and> m = None" using assms
    by (auto simp: rp_create_def not_ready_def require_primary_def Let_def split: if_splits option.splits sum.splits)
  then have e: "s' = s" "m = None" by simp_all
  show ?thesis by (rule nothing) (simp_all add: e)
qed

lemma close_take_same:
  assumes "rp_close_take h cid seq s = (s', x)"
  shows "rp_view os s' = rp_view os s" "same_server s s'" "rp_disk s' = rp_disk s" "rp_versions s' = rp_versions s"
  using assms by (auto simp: rp_close_take_def same_server_def not_ready_def split: option.splits if_splits)

lemma pb_close_cases:
  assumes "rp_close os h b cid seq s = (s', r, m)"
  obtains (nothing) "m = None" "rp_view os s' = rp_view os s" "same_server s s'"
      "\<And>c i. r = Answered c \<Longrightarrow> rp_check_idempotent cid seq s = None \<Longrightarrow> clo_success c \<Longrightarrow> dget (rp_open s) h = Some i \<Longrightarrow> h_mode i \<noteq> ''w''"
  | (wrote) i d where "rp_role s = RPrimary" "rp_ready s" "dget (rp_open s) h = Some i" "h_mode i = ''w''" "same_server s s'"
      "write_file os (rp_path s (h_file i)) b (rp_disk s) = Inr d"
      "m = Some (SendWrite (h_file i) b (snd (rp_view os s) (h_file i) + 1))"
      "rp_view os s' = put_view (rp_lay os s) (h_file i) b (snd (rp_view os s) (h_file i) + 1) (rp_view os s)"
      "r = Answered \<lparr>clo_success = True, clo_version = snd (rp_view os s) (h_file i) + 1, clo_error = []\<rparr>"
proof (cases "\<exists>s1 i d. rp_close_take h cid seq s = (s1, Inr i) \<and> h_mode i = ''w'' \<and> write_file os (rp_path s (h_file i)) b (rp_disk s) = Inr d")
  case True
  then obtain s1 i d where t: "rp_close_take h cid seq s = (s1, Inr i)" "h_mode i = ''w''"
    and d: "write_file os (rp_path s (h_file i)) b (rp_disk s) = Inr d" by blast
  from t have p: "rp_role s = RPrimary" "rp_ready s" "dget (rp_open s) h = Some i" "s1 = s\<lparr>rp_open := dpop (rp_open s) h\<rparr>"
    by (auto simp: rp_close_take_def not_ready_def require_primary_def split: option.splits if_splits)
  let ?v = "snd (rp_view os s) (h_file i) + 1"
  let ?r = "\<lparr>clo_success = True, clo_version = ?v, clo_error = []\<rparr>"
  have s': "s' = store_response cid seq (CachedClose ?r) (s1\<lparr>rp_disk := d, rp_versions := dset (rp_versions s) (h_file i) ?v\<rparr>)"
    "r = Answered ?r" "m = Some (SendWrite (h_file i) b ?v)"
    using assms t d p(4) by (auto simp: rp_close_def rp_close_write_def rp_close_bump_def rp_view_def Let_def)
  have "same_server s (s1\<lparr>rp_disk := d, rp_versions := dset (rp_versions s) (h_file i) ?v\<rparr>)"
    using p(4) by (simp add: same_server_def)
  then have "same_server s s'" unfolding s'(1) by (rule same_server_trans) simp
  moreover have "rp_view os (s1\<lparr>rp_disk := d, rp_versions := dset (rp_versions s) (h_file i) ?v\<rparr>)
      = put_view (rp_lay os s) (h_file i) b ?v (rp_view os s)"
  proof -
    have "rp_lay os s1 = rp_lay os s" by (simp add: rp_lay_def p(4) fun_eq_iff)
    then show ?thesis using write_view [of os s1 "h_file i" b d ?v] d p(4) by simp
  qed
  ultimately show ?thesis using wrote [OF p(1-3) t(2) _ d s'(3) _ s'(2)] unfolding s'(1) by simp
next
  case False
  obtain s1 x where t: "rp_close_take h cid seq s = (s1, x)" by (cases "rp_close_take h cid seq s")
  note same = close_take_same(1) [OF t, of os] close_take_same(2-4) [OF t]
  have disk: "rp_path s1 = rp_path s" using same(2) by (simp add: same_server_def rp_path_def fun_eq_iff)
  have "m = None \<and> (s' = s1 \<or> (\<exists>r. s' = store_response cid seq r s1))"
  proof (cases x)
    case (Inr i)
    then show ?thesis using assms t False same(3) disk
      by (auto simp: rp_close_def rp_close_write_def Let_def split: if_splits sum.splits)
  qed (use assms t in \<open>simp add: rp_close_def\<close>)
  then have "m = None" "rp_view os s' = rp_view os s" "same_server s s'"
    using same(1,2) by (auto intro: same_server_trans)
  moreover have "h_mode i \<noteq> ''w''" if "r = Answered c" "rp_check_idempotent cid seq s = None" "clo_success c" "dget (rp_open s) h = Some i" for c i
  proof
    assume w: "h_mode i = ''w''"
    show False
    proof (cases "rp_ready s \<and> rp_role s = RPrimary")
      case True
      then have x: "s1 = s\<lparr>rp_open := dpop (rp_open s) h\<rparr>" "x = Inr i"
        using t that(2,4) w by (simp_all add: rp_close_take_def not_ready_def require_primary_def)
      obtain e where "write_file os (rp_path s (h_file i)) b (rp_disk s) = Inl e"
        using False t x w by (cases "write_file os (rp_path s (h_file i)) b (rp_disk s)") auto
      then have "r = Answered (close_error (exn_str e))"
        using assms t x w by (simp add: rp_close_def rp_close_write_def)
      with that(1,3) show False by auto
    next
      case no: False
      have "\<exists>c d. x = Inl (Status c d)"
        using t no that(4) w by (auto simp: rp_close_take_def not_ready_def require_primary_def split: if_splits)
      then obtain c d where "x = Inl (Status c d)" by blast
      then show False using assms t that(1) by (simp add: rp_close_def)
    qed
  qed
  ultimately show ?thesis by (rule nothing)
qed

section \<open>Replication\<close>

lemma receive_same: "same_server s (receive os m s)"
  by (auto simp: receive_def rp_replicate_create_def rp_replicate_write_def same_server_def
      split: replication.split sum.split)

lemma receive_write:
  assumes "\<exists>l. rp_lay os s f = File l"
  shows "rp_view os (receive os (SendWrite f b v) s) = put_view (rp_lay os s) f b v (rp_view os s)"
proof -
  from assms obtain d where "write_file os (rp_path s f) b (rp_disk s) = Inr d" using write_succeeds by blast
  then show ?thesis by (simp add: receive_def rp_replicate_write_def write_view)
qed

lemma receive_create:
  assumes "\<exists>l. rp_lay os s f = File l" "\<not> path_exists os (rp_disk s) (rp_path s f)"
  shows "rp_view os (receive os (SendCreate f) s) = put_view (rp_lay os s) f [] 1 (rp_view os s)"
proof -
  from assms obtain d where "write_file os (rp_path s f) [] (rp_disk s) = Inr d" using write_succeeds by blast
  with assms(2) show ?thesis by (simp add: receive_def rp_replicate_create_def write_view)
qed

text \<open>Every call gets through: each peer receives the message once.\<close>

lemma replicate_all:
  assumes "distinct as"
  shows "replicate_to os (\<lambda>_. True) m as c a = (if a \<in> set as then receive os m (c a) else c a)"
  using assms
proof (induction as arbitrary: c)
  case (Cons x xs)
  have "replicate_to os (\<lambda>_. True) m (x # xs) c = replicate_to os (\<lambda>_. True) m xs (c(x := receive os m (c x)))"
    by (simp add: replicate_to_def)
  then show ?case using Cons by simp
qed (simp add: replicate_to_def)

text \<open>
  A group of replicas in agreement, with \<open>p\<close> the only one that takes writes and connected to all
  the others.
\<close>

definition in_sync :: "os \<Rightarrow> addr set \<Rightarrow> addr \<Rightarrow> cluster_state \<Rightarrow> bool" where
  "in_sync os A p c \<longleftrightarrow> p \<in> A \<and> distinct (rp_stubs (c p)) \<and> set (rp_stubs (c p)) = A - {p}
     \<and> (\<forall>a\<in>A. rp_addr (c a) = a \<and> (rp_role (c a) = RPrimary \<longrightarrow> a = p) \<and> alike os (c p) (c a)
          \<and> rp_view os (c a) = rp_view os (c p))"

lemma in_syncD:
  assumes "in_sync os A p c"
  shows "p \<in> A" "distinct (rp_stubs (c p))" "set (rp_stubs (c p)) = A - {p}"
    and "a \<in> A \<Longrightarrow> rp_addr (c a) = a" "a \<in> A \<Longrightarrow> rp_role (c a) = RPrimary \<Longrightarrow> a = p"
    and "a \<in> A \<Longrightarrow> alike os (c p) (c a)" "a \<in> A \<Longrightarrow> rp_view os (c a) = rp_view os (c p)"
  using assms unfolding in_sync_def by blast+

lemma in_sync_server:
  assumes "in_sync os A p c" "\<And>a. same_server (c a) (c' a)" "\<And>a. a \<in> A \<Longrightarrow> rp_view os (c' a) = rp_view os (c' p)"
  shows "in_sync os A p c'"
proof -
  note D = in_syncD [OF assms(1)]
  have e: "rp_stubs (c' p) = rp_stubs (c p)" "rp_addr (c' a) = rp_addr (c a)" "rp_role (c' a) = rp_role (c a)"
    "rp_dir (c' a) = rp_dir (c a)" for a using assms(2) by (simp_all add: same_server_def)
  have "alike os (c' p) (c' a)" if "a \<in> A" for a using D(6) [OF that] by (rule alike_dir [OF e(4) e(4)])
  with D(1-5) assms(3) show ?thesis unfolding in_sync_def e by blast
qed

lemma put_agrees:
  assumes "in_sync os A p c"
    and "\<And>a. same_server (c a) (c' a)"
    and "rp_view os (c' p) = put_view (rp_lay os (c p)) f b v (rp_view os (c p))"
    and "\<And>a. a \<in> A \<Longrightarrow> a \<noteq> p \<Longrightarrow> rp_view os (c' a) = put_view (rp_lay os (c a)) f b v (rp_view os (c a))"
  shows "in_sync os A p c'"
proof (rule in_sync_server [OF assms(1,2)])
  fix a assume a: "a \<in> A"
  show "rp_view os (c' a) = rp_view os (c' p)"
  proof (cases "a = p")
    case False
    note al = in_syncD(6,7) [OF assms(1) a]
    have "rp_view os (c' a) = put_view (rp_lay os (c a)) f b v (rp_view os (c p))"
      using assms(4) [OF a False] unfolding al(2) .
    also have "\<dots> = rp_view os (c' p)" unfolding assms(3) by (rule put_view_alike [OF al(1), symmetric])
    finally show ?thesis .
  qed simp
qed

lemma send_out_all:
  assumes "in_sync os A p c" "same_server (c p) s"
  shows "send_out os (\<lambda>_. True) p (Some m) (c(p := s)) a = (if a = p then s else if a \<in> A then receive os m (c a) else c a)"
proof -
  have "distinct (rp_stubs s)" "set (rp_stubs s) = A - {p}" using in_syncD(2,3) [OF assms(1)] assms(2) by (simp_all add: same_server_def)
  then show ?thesis by (simp add: send_out_def replicate_all)
qed

lemma create_in_sync:
  assumes "in_sync os A p c" "a \<in> A"
  shows "in_sync os A p (fst (cl_create os (\<lambda>_. True) a f cid seq c))"
    "same_server (c x) (fst (cl_create os (\<lambda>_. True) a f cid seq c) x)"
proof -
  obtain s r m where e: "rp_create os f cid seq (c a) = (s, r, m)" by (metis prod.exhaust)
  let ?c = "fst (cl_create os (\<lambda>_. True) a f cid seq c)"
  have "in_sync os A p ?c \<and> (\<forall>x. same_server (c x) (?c x))"
  proof (cases rule: pb_create_cases [OF e])
    case 1
    then have c: "?c = c(a := s)" using e by (simp add: cl_create_def send_out_def)
    have v: "rp_view os (?c x) = rp_view os (c x)" for x using 1(2) c by simp
    have sv: "same_server (c x) (?c x)" for x using 1(3) c by simp
    moreover have "in_sync os A p ?c"
      by (rule in_sync_server [OF assms(1) sv]) (simp only: v in_syncD(7) [OF assms(1)])
    ultimately show ?thesis by blast
  next
    case (2 d)
    have p: "a = p" by (rule in_syncD(5) [OF assms 2(1)])
    have c: "?c x = (if x = p then s else if x \<in> A then receive os (SendCreate f) (c x) else c x)" for x
      using e 2(3) send_out_all [OF assms(1), of s "SendCreate f" x] 2(4) p by (simp add: cl_create_def)
    have sv: "same_server (c x) (?c x)" for x using c 2(4) p receive_same by simp
    have fi: "\<exists>l. rp_lay os (c p) f = File l" using 2(6) write_succeeds p by blast
    have "rp_view os (?c x) = put_view (rp_lay os (c x)) f [] 1 (rp_view os (c x))" if x: "x \<in> A" "x \<noteq> p" for x
    proof -
      have al: "alike os (c p) (c x)" "rp_view os (c x) = rp_view os (c p)" using in_syncD(6,7) [OF assms(1) x(1)] .
      have "\<not> path_exists os (rp_disk (c x)) (rp_path (c x) f)"
        using 2(5) al(2) alikeD(3) [OF al(1)] by (simp add: exists_view p)
      moreover have "\<exists>l. rp_lay os (c x) f = File l" using fi alikeD(2) [OF al(1)] by blast
      ultimately show ?thesis using c x by (simp add: receive_create)
    qed
    then have "in_sync os A p ?c"
      by (intro put_agrees [OF assms(1) sv]) (use p c 2(7) in simp_all)
    with sv show ?thesis by blast
  qed
  then show "in_sync os A p ?c" "same_server (c x) (?c x)" by blast+
qed

lemma close_in_sync:
  assumes "in_sync os A p c" "a \<in> A"
  shows "in_sync os A p (fst (cl_close os (\<lambda>_. True) a h b cid seq c))"
    "same_server (c x) (fst (cl_close os (\<lambda>_. True) a h b cid seq c) x)"
proof -
  obtain s r m where e: "rp_close os h b cid seq (c a) = (s, r, m)" by (metis prod.exhaust)
  let ?c = "fst (cl_close os (\<lambda>_. True) a h b cid seq c)"
  have "in_sync os A p ?c \<and> (\<forall>x. same_server (c x) (?c x))"
  proof (cases rule: pb_close_cases [OF e])
    case 1
    then have c: "?c = c(a := s)" using e by (simp add: cl_close_def send_out_def)
    have v: "rp_view os (?c x) = rp_view os (c x)" for x using 1(2) c by simp
    have sv: "same_server (c x) (?c x)" for x using 1(3) c by simp
    moreover have "in_sync os A p ?c"
      by (rule in_sync_server [OF assms(1) sv]) (simp only: v in_syncD(7) [OF assms(1)])
    ultimately show ?thesis by blast
  next
    case (2 i d)
    let ?v = "snd (rp_view os (c a)) (h_file i) + 1"
    have p: "a = p" by (rule in_syncD(5) [OF assms 2(1)])
    have c: "?c x = (if x = p then s else if x \<in> A then receive os (SendWrite (h_file i) b ?v) (c x) else c x)" for x
      using e 2(7) send_out_all [OF assms(1), of s "SendWrite (h_file i) b ?v" x] 2(5) p by (simp add: cl_close_def)
    have sv: "same_server (c x) (?c x)" for x using c 2(5) p receive_same by simp
    have fi: "\<exists>l. rp_lay os (c p) (h_file i) = File l" using 2(6) write_succeeds p by blast
    have "rp_view os (?c x) = put_view (rp_lay os (c x)) (h_file i) b ?v (rp_view os (c x))" if x: "x \<in> A" "x \<noteq> p" for x
    proof -
      have "alike os (c p) (c x)" by (rule in_syncD(6) [OF assms(1) x(1)])
      then have "\<exists>l. rp_lay os (c x) (h_file i) = File l" using fi alikeD(2) by blast
      then show ?thesis using c x by (simp add: receive_write)
    qed
    then have "in_sync os A p ?c"
      by (intro put_agrees [OF assms(1) sv]) (use p c 2(8) in simp_all)
    with sv show ?thesis by blast
  qed
  then show "in_sync os A p ?c" "same_server (c x) (?c x)" by blast+
qed

section \<open>Histories\<close>

text \<open>Changes that leave every server's files and role alone.\<close>

definition quiet :: "os \<Rightarrow> cluster_state \<Rightarrow> cluster_state \<Rightarrow> bool" where
  "quiet os c c' \<longleftrightarrow> (\<forall>a. same_server (c a) (c' a) \<and> rp_view os (c' a) = rp_view os (c a))"

lemma quiet_refl: "quiet os c c" by (simp add: quiet_def)

lemma quiet_trans: "quiet os c d \<Longrightarrow> quiet os d e \<Longrightarrow> quiet os c e"
  unfolding quiet_def by (metis same_server_trans)

lemma quiet_upd: "same_server (c a) s \<Longrightarrow> rp_view os s = rp_view os (c a) \<Longrightarrow> quiet os c (c(a := s))"
  by (simp add: quiet_def)

lemma quiet_heartbeat: "quiet os c (cl_heartbeat reach now a c)"
proof -
  have "quiet os c (foldl (\<lambda>c b. if reach b then (let c1 = c(b := fst (rp_heartbeat a now (c b)))
      in c1(a := heartbeat_sent b now (c1 a))) else c) c bs)" for bs c
  proof (induction bs arbitrary: c)
    case (Cons b bs)
    let ?c1 = "c(b := fst (rp_heartbeat a now (c b)))"
    have "quiet os c ?c1" by (rule quiet_upd) (simp_all add: heartbeat_same)
    moreover have "quiet os ?c1 (?c1(a := heartbeat_sent b now (?c1 a)))" by (rule quiet_upd) (simp_all only: heartbeat_same)
    ultimately have "quiet os c (?c1(a := heartbeat_sent b now (?c1 a)))" by (rule quiet_trans)
    then have "quiet os c (if reach b then (let c1 = ?c1 in c1(a := heartbeat_sent b now (c1 a))) else c)"
      unfolding Let_def by (simp only: quiet_refl split: if_split) simp
    then show ?case using quiet_trans [OF _ Cons] by simp
  qed (simp add: quiet_refl)
  then show ?thesis by (simp add: cl_heartbeat_def)
qed

lemma quiet_open: "quiet os c (fst (cl_open os a f mode fetch c))"
  by (simp add: cl_open_def case_prod_unfold Let_def quiet_upd open_call_same)

lemma quiet_in_sync: "in_sync os A p c \<Longrightarrow> quiet os c c' \<Longrightarrow> in_sync os A p c'"
proof (rule in_sync_server)
  assume s: "in_sync os A p c" and q: "quiet os c c'"
  show "in_sync os A p c" by (rule s)
  show "same_server (c a) (c' a)" for a using q unfolding quiet_def by blast
  have v: "rp_view os (c' a) = rp_view os (c a)" for a using q unfolding quiet_def by blast
  show "rp_view os (c' a) = rp_view os (c' p)" if "a \<in> A" for a unfolding v by (rule in_syncD(7) [OF s that])
qed

lemma exec_in_sync: "in_sync os A p c \<Longrightarrow> pb_target k \<in> A \<Longrightarrow> in_sync os A p (pb_exec os k c)"
  by (cases k) (simp_all add: create_in_sync close_in_sync quiet_in_sync [OF _ quiet_open] quiet_in_sync [OF _ quiet_heartbeat])

lemma pb_run_simps [simp]: "pb_run os [] c = c" "pb_run os (k # ks) c = pb_run os ks (pb_exec os k c)"
  by (simp_all add: pb_run_def)

lemma run_in_sync: "in_sync os A p c \<Longrightarrow> \<forall>k\<in>set ks. pb_target k \<in> A \<Longrightarrow> in_sync os A p (pb_run os ks c)"
  by (induction ks arbitrary: c) (simp_all add: exec_in_sync)

text \<open>A call that writes the file \<open>f\<close>: the close of a handle open for writing on it.\<close>

fun pb_writes :: "os \<Rightarrow> string \<Rightarrow> cluster_state \<Rightarrow> pb_call \<Rightarrow> bool" where
  "pb_writes os f c (PbClose a h b cid seq) =
     (case dget (rp_open (c a)) h of None \<Rightarrow> False | Some i \<Rightarrow> h_mode i = ''w'' \<and> rp_lay os (c a) (h_file i) = rp_lay os (c a) f)"
| "pb_writes os f c _ = False"

fun pb_undisturbed :: "os \<Rightarrow> string \<Rightarrow> pb_call list \<Rightarrow> cluster_state \<Rightarrow> bool" where
  "pb_undisturbed os f [] c = True"
| "pb_undisturbed os f (k # ks) c = (\<not> pb_writes os f c k \<and> pb_undisturbed os f ks (pb_exec os k c))"

definition holds :: "os \<Rightarrow> rep \<Rightarrow> string \<Rightarrow> bytes \<Rightarrow> int \<Rightarrow> bool" where
  "holds os s f b v \<longleftrightarrow> fst (rp_view os s) f = Some b \<and> snd (rp_view os s) f = v"

lemma exec_holds:
  assumes "in_sync os A p c" "pb_target k \<in> A" "holds os (c p) f b v" "\<not> pb_writes os f c k"
  shows "holds os (pb_exec os k c p) f b v"
proof (cases k)
  case (PbCreate a g cid seq)
  obtain s r m where e: "rp_create os g cid seq (c a) = (s, r, m)" by (metis prod.exhaust)
  show ?thesis
  proof (cases rule: pb_create_cases [OF e])
    case 1
    then show ?thesis using assms(3) e PbCreate by (auto simp: cl_create_def send_out_def holds_def)
  next
    case (2 d)
    have p: "a = p" using in_syncD(5) [OF assms(1) _ 2(1)] assms(2) PbCreate by simp
    have "rp_lay os (c p) f \<noteq> rp_lay os (c p) g"
    proof
      assume l: "rp_lay os (c p) f = rp_lay os (c p) g"
      then have "fst (rp_view os (c p)) g = fst (rp_view os (c p)) f"
        by (simp add: rp_view_def contents_def rp_lay_def)
      with assms(3) have "path_exists os (rp_disk (c p)) (rp_path (c p) g)" by (simp add: exists_view holds_def)
      with 2(5) p show False by simp
    qed
    moreover have "f \<noteq> g" using calculation by blast
    moreover have "pb_exec os k c p = s" using e PbCreate send_out_all [OF assms(1), of s "SendCreate g" p] 2(3,4) p
      by (simp add: cl_create_def)
    ultimately show ?thesis using assms(3) 2(7) p by (simp add: holds_def put_view_def)
  qed
next
  case (PbClose a h b' cid seq)
  obtain s r m where e: "rp_close os h b' cid seq (c a) = (s, r, m)" by (metis prod.exhaust)
  show ?thesis
  proof (cases rule: pb_close_cases [OF e])
    case 1
    then show ?thesis using assms(3) e PbClose by (auto simp: cl_close_def send_out_def holds_def)
  next
    case (2 i d)
    have p: "a = p" using in_syncD(5) [OF assms(1) _ 2(1)] assms(2) PbClose by simp
    have "rp_lay os (c p) (h_file i) \<noteq> rp_lay os (c p) f" using assms(4) PbClose 2(3,4) p by simp
    moreover have "f \<noteq> h_file i" using calculation by blast
    moreover have "pb_exec os k c p = s"
      using e PbClose send_out_all [OF assms(1), of s "SendWrite (h_file i) b' (snd (rp_view os (c a)) (h_file i) + 1)" p] 2(5,7) p
      by (simp add: cl_close_def)
    ultimately show ?thesis using assms(3) 2(8) p by (auto simp: holds_def put_view_def)
  qed
next
  case (PbOpen a g mode fetch)
  then show ?thesis using assms(3) quiet_open by (simp add: holds_def quiet_def)
next
  case (PbBeat a now)
  then show ?thesis using assms(3) quiet_heartbeat by (simp add: holds_def quiet_def)
qed

lemma run_holds:
  assumes "in_sync os A p c" "\<forall>k\<in>set ks. pb_target k \<in> A" "holds os (c p) f b v" "pb_undisturbed os f ks c"
  shows "holds os (pb_run os ks c p) f b v"
  using assms by (induction ks arbitrary: c) (simp_all add: exec_in_sync exec_holds)

section \<open>Elections\<close>

lemma announce_leader_at:
  assumes "distinct as"
  shows "announce_leader reach p as c a = (if a \<in> set as \<and> reach a then rp_announce_leader p (c a) else c a)"
  using assms
proof (induction as arbitrary: c)
  case (Cons x xs)
  have "announce_leader reach p (x # xs) c
      = announce_leader reach p xs (if reach x then c(x := rp_announce_leader p (c x)) else c)"
    by (simp add: announce_leader_def)
  then show ?case using Cons by auto
qed (simp add: announce_leader_def)

lemma announce_view: "rp_view os (announce_leader reach p as c a) = rp_view os (c a)"
proof (induction as arbitrary: c)
  case (Cons x xs)
  have "announce_leader reach p (x # xs) c
      = announce_leader reach p xs (if reach x then c(x := rp_announce_leader p (c x)) else c)"
    by (simp add: announce_leader_def)
  then show ?case using Cons by (simp add: rp_announce_leader_def)
qed (simp add: announce_leader_def)

lemma elect_view [simp]: "rp_view os (elect_new_primary alive s) = rp_view os s"
  by (simp add: elect_new_primary_def Let_def)

lemma cl_elect_view: "rp_view os (cl_elect alive reach a c x) = rp_view os (c x)"
  by (simp add: cl_elect_def Let_def announce_view)

lemma sort_hd_Min: "xs \<noteq> [] \<Longrightarrow> hd (sort xs) = Min (set xs)"
proof -
  assume "xs \<noteq> []"
  then obtain y ys where y: "sort xs = y # ys" by (metis neq_Nil_conv set_empty set_sort)
  then have "set xs = insert y (set ys)" by (metis list.simps(15) set_sort)
  moreover have "\<forall>z\<in>set ys. y \<le> z" using sorted_sort [of xs] unfolding y by simp
  ultimately have "Min (set xs) = y" by (intro Min_eqI) auto
  with y show "hd (sort xs) = Min (set xs)" by simp
qed

lemma elect_Min:
  assumes "rp_addr s = a" "set (rp_stubs s) = G - {a}" "L \<subseteq> G" "a \<in> L" "\<And>b. b \<in> G - {a} \<Longrightarrow> alive b = (b \<in> L)"
  shows "rp_primary (elect_new_primary alive s) = Min L"
    "rp_role (elect_new_primary alive s) = (if Min L = a then RPrimary else RBackup)"
proof -
  have "set (a # filter alive (rp_stubs s)) = L" using assms by auto
  then have "hd (sort (rp_addr s # filter alive (rp_stubs s))) = Min L"
    using sort_hd_Min [of "a # filter alive (rp_stubs s)"] assms(1) by simp
  then show "rp_primary (elect_new_primary alive s) = Min L"
    "rp_role (elect_new_primary alive s) = (if Min L = a then RPrimary else RBackup)"
    using assms(1) by (simp_all add: elect_new_primary_def Let_def)
qed

section \<open>Synchronization\<close>

lemma install_all:
  assumes "\<forall>e\<in>set es. (\<exists>l. rp_lay os t (fe_name e) = File l) \<and> k (fe_name e) = fe_data e"
    and "\<And>f g. rp_lay os t f = rp_lay os t g \<Longrightarrow> k f = k g" "distinct (map fe_name es)"
  shows "\<exists>t'. install_entries os es t = Inr t' \<and> rp_dir t' = rp_dir t
    \<and> (\<forall>f. contents os (rp_disk t') (rp_path t' f)
         = (if \<exists>e\<in>set es. rp_lay os t (fe_name e) = rp_lay os t f then Some (k f) else contents os (rp_disk t) (rp_path t f)))
    \<and> (\<forall>e\<in>set es. dget (rp_versions t') (fe_name e) = Some (fe_version e))
    \<and> (\<forall>f. f \<notin> fe_name ` set es \<longrightarrow> dget (rp_versions t') f = dget (rp_versions t) f)"
  using assms
proof (induction es arbitrary: t)
  case Nil
  show ?case by simp
next
  case (Cons e es)
  have "\<exists>l. rp_lay os t (fe_name e) = File l" using Cons.prems(1) by simp
  then obtain d where d: "write_file os (rp_path t (fe_name e)) (fe_data e) (rp_disk t) = Inr d"
    using write_succeeds by blast
  let ?t = "t\<lparr>rp_disk := d, rp_versions := dset (rp_versions t) (fe_name e) (fe_version e)\<rparr>"
  have l: "rp_lay os ?t = rp_lay os t" by (simp add: rp_lay_def fun_eq_iff)
  have "\<exists>t'. install_entries os es ?t = Inr t' \<and> rp_dir t' = rp_dir ?t
    \<and> (\<forall>f. contents os (rp_disk t') (rp_path t' f)
         = (if \<exists>e\<in>set es. rp_lay os ?t (fe_name e) = rp_lay os ?t f then Some (k f) else contents os (rp_disk ?t) (rp_path ?t f)))
    \<and> (\<forall>e\<in>set es. dget (rp_versions t') (fe_name e) = Some (fe_version e))
    \<and> (\<forall>f. f \<notin> fe_name ` set es \<longrightarrow> dget (rp_versions t') f = dget (rp_versions ?t) f)"
  proof (rule Cons.IH)
    show "\<forall>e\<in>set es. (\<exists>l. rp_lay os ?t (fe_name e) = File l) \<and> k (fe_name e) = fe_data e"
      unfolding l using Cons.prems(1) by simp
    show "rp_lay os ?t f = rp_lay os ?t g \<Longrightarrow> k f = k g" for f g unfolding l by (rule Cons.prems(2))
  qed (use Cons.prems(3) in simp)
  then obtain t' where t0: "install_entries os es ?t = Inr t'" "rp_dir t' = rp_dir ?t"
    "\<forall>f. contents os (rp_disk t') (rp_path t' f)
       = (if \<exists>e\<in>set es. rp_lay os ?t (fe_name e) = rp_lay os ?t f then Some (k f) else contents os (rp_disk ?t) (rp_path ?t f))"
    "\<forall>e\<in>set es. dget (rp_versions t') (fe_name e) = Some (fe_version e)"
    "\<forall>f. f \<notin> fe_name ` set es \<longrightarrow> dget (rp_versions t') f = dget (rp_versions ?t) f"
    by (elim exE conjE)
  have t': "install_entries os es ?t = Inr t'" "rp_dir t' = rp_dir t"
    "contents os (rp_disk t') (rp_path t' f)
       = (if \<exists>e\<in>set es. rp_lay os t (fe_name e) = rp_lay os t f then Some (k f) else contents os d (rp_path t f))"
    "x \<in> set es \<Longrightarrow> dget (rp_versions t') (fe_name x) = Some (fe_version x)"
    "f \<notin> fe_name ` set es \<Longrightarrow> dget (rp_versions t') f = (if f = fe_name e then Some (fe_version e) else dget (rp_versions t) f)"
    for f x using t0(1,2) t0(3) [rule_format, of f] t0(4) t0(5) [rule_format, of f] unfolding l by simp_all
  have c: "contents os d (rp_path t f) = (if rp_lay os t (fe_name e) = rp_lay os t f then Some (k f) else contents os (rp_disk t) (rp_path t f))" for f
    using write_file_contents [OF d, of "rp_path t f"] Cons.prems(1) Cons.prems(2) [of "fe_name e" f]
    by (auto simp: rp_lay_def)
  have "fe_name e \<notin> fe_name ` set es" using Cons.prems(3) by simp
  then have "dget (rp_versions t') (fe_name e) = Some (fe_version e)" using t'(5) by simp
  moreover have "install_entries os (e # es) t = Inr t'" using t'(1) d by simp
  ultimately show ?case
    using t'(2-5) by (intro exI [of _ t']) (auto simp: c)
qed

lemma sync_entries:
  assumes "wf_dict (rp_versions s)"
  shows "distinct (map fe_name (rp_sync_state os s))"
    and "e \<in> set (rp_sync_state os s) \<longleftrightarrow> dget (rp_versions s) (fe_name e) = Some (fe_version e)
           \<and> contents os (rp_disk s) (rp_path s (fe_name e)) = Some (fe_data e)"
proof -
  have *: "map fe_name (concat (map (\<lambda>(f, v). case read_file os (rp_path s f) (rp_disk s) of
       Inl x \<Rightarrow> [] | Inr b \<Rightarrow> [\<lparr>fe_name = f, fe_data = b, fe_version = v\<rparr>]) vs))
      = filter (\<lambda>f. contents os (rp_disk s) (rp_path s f) \<noteq> None) (map fst vs)" for vs
  proof (induction vs)
    case (Cons p vs)
    obtain f v where p: "p = (f, v)" by (cases p)
    show ?case
    proof (cases "read_file os (rp_path s f) (rp_disk s)")
      case (Inl x)
      then have "contents os (rp_disk s) (rp_path s f) = None" using read_file_contents [of os "rp_path s f" "rp_disk s"] by (metis Inl_Inr_False not_Some_eq)
      then show ?thesis using Inl p Cons by simp
    next
      case (Inr b)
      then show ?thesis using p Cons read_file_contents [of os "rp_path s f" "rp_disk s" b] by simp
    qed
  qed simp
  show "distinct (map fe_name (rp_sync_state os s))"
    unfolding rp_sync_state_def * using assms by (simp add: wf_dict_def)
  show "e \<in> set (rp_sync_state os s) \<longleftrightarrow> dget (rp_versions s) (fe_name e) = Some (fe_version e)
           \<and> contents os (rp_disk s) (rp_path s (fe_name e)) = Some (fe_data e)"
    by (cases e) (auto simp: rp_sync_state_def wf_dget_iff [OF assms] read_file_contents [symmetric] split: sum.splits)
qed

lemma try_sync_late: "try_sync_from os a (replicate n None @ rs) t = try_sync_from os a rs t"
  by (induction n) simp_all

section \<open>A cluster of two\<close>

definition plain :: os where
  "plain p = File p"

definition pb_a :: rep where
  "pb_a = \<lparr>rp_addr = ''a'', rp_peers = [''b''], rp_dir = ''da'', rp_disk = [(''da/f'', ''old'')], rp_versions = [(''f'', 3)],
     rp_open = [(1, \<lparr>h_file = ''f'', h_mode = ''w''\<rparr>)], rp_next = 2, rp_dedup = [], rp_primary = ''a'', rp_role = RPrimary,
     rp_ready = True, rp_heard = [(''b'', 0)], rp_stubs = [''b'']\<rparr>"

definition pb_b :: rep where
  "pb_b = \<lparr>rp_addr = ''b'', rp_peers = [''a''], rp_dir = ''db'', rp_disk = [(''db/f'', ''old'')], rp_versions = [(''f'', 3)],
     rp_open = [(1, \<lparr>h_file = ''f'', h_mode = ''w''\<rparr>)], rp_next = 2, rp_dedup = [], rp_primary = ''a'', rp_role = RBackup,
     rp_ready = True, rp_heard = [(''a'', 0)], rp_stubs = [''a'']\<rparr>"

definition pb_two :: cluster_state where
  "pb_two = (\<lambda>x. if x = ''a'' then pb_a else pb_b)"

lemma pb_paths: "rp_path pb_a f = (if startswith f ''/'' then f else ''da/'' @ f)"
  "rp_path pb_b f = (if startswith f ''/'' then f else ''db/'' @ f)"
  by (simp_all add: rp_path_def pb_a_def pb_b_def path_join_def)

lemma pb_alike: "alike plain pb_a pb_b"
proof -
  have "(rp_lay plain pb_a f = rp_lay plain pb_a g) = (f = g)" "(rp_lay plain pb_b f = rp_lay plain pb_b g) = (f = g)" for f g
    by (auto simp: rp_lay_def plain_def pb_paths startswith_def)
  then show ?thesis by (simp add: alike_def) (simp add: rp_lay_def plain_def)
qed

lemma pb_views:
  "fst (rp_view plain pb_a) ''f'' = Some ''old''" "snd (rp_view plain pb_a) ''f'' = 3" "rp_view plain pb_b = rp_view plain pb_a"
proof -
  show "fst (rp_view plain pb_a) ''f'' = Some ''old''" "snd (rp_view plain pb_a) ''f'' = 3"
    by (simp_all add: rp_view_def contents_def plain_def pb_paths startswith_def)
      (simp_all add: pb_a_def dget_def dget_or_def)
  have "contents plain (rp_disk pb_b) (rp_path pb_b f) = contents plain (rp_disk pb_a) (rp_path pb_a f)" for f
    by (simp add: contents_def plain_def pb_paths) (auto simp: pb_a_def pb_b_def dget_def startswith_def)
  moreover have "rp_versions pb_b = rp_versions pb_a" by (simp add: pb_a_def pb_b_def)
  ultimately show "rp_view plain pb_b = rp_view plain pb_a" by (simp add: rp_view_def)
qed

lemma pb_two_sync: "in_sync plain {''a'', ''b''} ''a'' pb_two"
proof -
  have "rp_addr pb_a = ''a''" "rp_addr pb_b = ''b''" "rp_role pb_b = RBackup" "rp_stubs pb_a = [''b'']"
    by (simp_all add: pb_a_def pb_b_def)
  then show ?thesis using pb_alike alike_refl pb_views(3) by (auto simp: in_sync_def pb_two_def)
qed

lemma pb_file: "\<exists>l. rp_lay plain s ''f'' = File l"
  by (simp add: rp_lay_def plain_def)

text \<open>The primary's close, evaluated.\<close>

lemma close_ready:
  assumes "rp_ready s" "rp_role s = RPrimary" "rp_check_idempotent cid seq s = None" "dget (rp_open s) h = Some i"
    "h_mode i = ''w''" "\<exists>l. rp_lay os s (h_file i) = File l"
  shows "\<exists>s'. rp_close os h b cid seq s = (s', Answered \<lparr>clo_success = True, clo_version = snd (rp_view os s) (h_file i) + 1, clo_error = []\<rparr>,
      Some (SendWrite (h_file i) b (snd (rp_view os s) (h_file i) + 1)))
    \<and> rp_view os s' = put_view (rp_lay os s) (h_file i) b (snd (rp_view os s) (h_file i) + 1) (rp_view os s) \<and> same_server s s'"
proof -
  obtain s' r m where e: "rp_close os h b cid seq s = (s', r, m)" by (metis prod.exhaust)
  obtain d where d: "write_file os (rp_path s (h_file i)) b (rp_disk s) = Inr d" using assms(6) write_succeeds by blast
  have t: "rp_close_take h cid seq s = (s\<lparr>rp_open := dpop (rp_open s) h\<rparr>, Inr i)"
    using assms by (simp add: rp_close_take_def not_ready_def require_primary_def)
  have "m \<noteq> None" using e t assms(5) d by (auto simp: rp_close_def rp_close_write_def Let_def case_prod_unfold)
  with e show ?thesis
    by (cases rule: pb_close_cases [OF e]) (use assms(4) in auto)
qed

lemma open_holds:
  assumes "holds os s f b v"
  shows "rp_open_call os f ''r'' True s =
    (if rp_ready s then (fst (rp_open_section os f ''r'' b s), Answered (snd (rp_open_section os f ''r'' b s)))
     else (s, Status ''UNAVAILABLE'' ''Server syncing, try again shortly''))"
proof -
  have c: "contents os (rp_disk s) (rp_path s f) = Some b" using assms by (simp add: holds_def rp_view_def)
  from contents_exists [OF c] have "path_exists os (rp_disk s) (rp_path s f)" .
  moreover have "read_file os (rp_path s f) (rp_disk s) = Inr b" using c by (simp add: read_file_contents)
  ultimately show ?thesis by (simp add: rp_open_call_def not_ready_def case_prod_unfold Let_def)
qed

lemma cl_elect_ready: "rp_ready (cl_elect alive reach a c x) = rp_ready (c x)"
proof -
  have "rp_ready (announce_leader reach p as c x) = rp_ready (c x)" for p as c
  proof (induction as arbitrary: c)
    case (Cons y ys)
    have "announce_leader reach p (y # ys) c
        = announce_leader reach p ys (if reach y then c(y := rp_announce_leader p (c y)) else c)"
      by (simp add: announce_leader_def)
    then show ?case using Cons by (simp add: rp_announce_leader_def)
  qed (simp add: announce_leader_def)
  then show ?thesis by (simp add: cl_elect_def Let_def elect_new_primary_def)
qed

section \<open>Properties\<close>





text \<open>
  Elections agree: all live servers, each hearing from exactly the live ones, elect the same
  primary, the live server with the lowest address; and once that one has announced itself, it
  is the only live server with the role of primary.
\<close>

lemma pb_election_unique:
  assumes "finite G" "L \<subseteq> G" "L \<noteq> {}" "\<forall>a\<in>L. rp_addr (c a) = a \<and> distinct (rp_stubs (c a)) \<and> set (rp_stubs (c a)) = G - {a}"
  shows "\<forall>a\<in>L. rp_primary (elect_new_primary (\<lambda>b. b \<in> L) (c a)) = Min L
      \<and> rp_primary (cl_elect (\<lambda>b. b \<in> L) (\<lambda>b. b \<in> L) (Min L) c a) = Min L
      \<and> (rp_role (cl_elect (\<lambda>b. b \<in> L) (\<lambda>b. b \<in> L) (Min L) c a) = RPrimary \<longleftrightarrow> a = Min L)"
proof
  fix a assume a: "a \<in> L"
  let ?al = "\<lambda>b. b \<in> L"
  have m: "Min L \<in> L" using assms(1-3) finite_subset by (intro Min_in) auto
  note A = assms(4) [rule_format, OF a] and M = assms(4) [rule_format, OF m]
  have 1: "rp_primary (elect_new_primary ?al (c a)) = Min L" by (rule elect_Min) (use A a assms(2) in auto)
  have 2: "rp_primary (elect_new_primary ?al (c (Min L))) = Min L" "rp_role (elect_new_primary ?al (c (Min L))) = RPrimary"
    using elect_Min [of "c (Min L)" "Min L" G L ?al] M m assms(2) by auto
  have s: "rp_stubs (elect_new_primary ?al (c (Min L))) = rp_stubs (c (Min L))" by (simp add: elect_new_primary_def Let_def)
  have c: "cl_elect ?al ?al (Min L) c a = (if a = Min L then elect_new_primary ?al (c (Min L)) else rp_announce_leader (Min L) (c a))"
    using M a assms(2) by (auto simp: cl_elect_def Let_def 2 s announce_leader_at)
  then show "rp_primary (elect_new_primary ?al (c a)) = Min L \<and> rp_primary (cl_elect ?al ?al (Min L) c a) = Min L
      \<and> (rp_role (cl_elect ?al ?al (Min L) c a) = RPrimary \<longleftrightarrow> a = Min L)"
    using 1 2 A by (auto simp: rp_announce_leader_def)
qed

text \<open>
  Synchronizing: however many attempts fail first, when one call of \<open>SyncState\<close> comes back,
  every file the source has under a version is on the server with the same bytes and version, and
  the server is a ready backup of the source.
\<close>

lemma pb_sync_roundtrip:
  assumes "alike os s t" "wf_dict (rp_versions s)"
  shows "\<exists>t'. try_sync_from os (rp_addr s) (replicate n None @ Some (rp_sync_state os s) # rs) t = Inr (t', True)
    \<and> rp_role t' = RBackup \<and> rp_primary t' = rp_addr s \<and> rp_ready t'
    \<and> (\<forall>f v b. dget (rp_versions s) f = Some v \<and> contents os (rp_disk s) (rp_path s f) = Some b \<longrightarrow>
         dget (rp_versions t') f = Some v \<and> contents os (rp_disk t') (rp_path t' f) = Some b)"
proof -
  let ?k = "\<lambda>f. the (contents os (rp_disk s) (rp_path s f))" and ?es = "rp_sync_state os s"
  note E = sync_entries(1) [OF assms(2), of os] sync_entries(2) [OF assms(2), where os = os]
  have f: "\<exists>l. rp_lay os s f = File l" if "contents os (rp_disk s) (rp_path s f) = Some b" for f b
    using that by (auto simp: contents_def rp_lay_def split: loc.splits)
  have 1: "\<forall>e\<in>set ?es. (\<exists>l. rp_lay os t (fe_name e) = File l) \<and> ?k (fe_name e) = fe_data e"
  proof
    fix e assume "e \<in> set ?es"
    then have c: "contents os (rp_disk s) (rp_path s (fe_name e)) = Some (fe_data e)" using E(2) by blast
    from f [OF c] alikeD(2) [OF assms(1)] have "\<exists>l. rp_lay os t (fe_name e) = File l" by blast
    with c show "(\<exists>l. rp_lay os t (fe_name e) = File l) \<and> ?k (fe_name e) = fe_data e" by simp
  qed
  have 2: "?k f = ?k g" if "rp_lay os t f = rp_lay os t g" for f g
  proof -
    have "rp_lay os s f = rp_lay os s g" using that alikeD(1) [OF assms(1)] by blast
    then show ?thesis unfolding contents_def rp_lay_def by simp
  qed
  obtain t' where t': "install_entries os ?es t = Inr t'"
    "\<forall>f. contents os (rp_disk t') (rp_path t' f)
       = (if \<exists>e\<in>set ?es. rp_lay os t (fe_name e) = rp_lay os t f then Some (?k f) else contents os (rp_disk t) (rp_path t f))"
    "\<forall>e\<in>set ?es. dget (rp_versions t') (fe_name e) = Some (fe_version e)"
    by (rule install_all [OF 1 _ E(1), THEN exE]) (rule 2, assumption, elim conjE, rule that)
  have 3: "dget (rp_versions t') f = Some v \<and> contents os (rp_disk t') (rp_path t' f) = Some b"
    if h: "dget (rp_versions s) f = Some v" "contents os (rp_disk s) (rp_path s f) = Some b" for f v b
  proof -
    let ?e = "\<lparr>fe_name = f, fe_data = b, fe_version = v\<rparr>"
    have m: "?e \<in> set ?es" using E(2) [of ?e] h by simp
    have "\<exists>e\<in>set ?es. rp_lay os t (fe_name e) = rp_lay os t f" by (rule bexI [OF _ m]) simp
    with t'(2) [rule_format, of f] bspec [OF t'(3) m] h(2) show ?thesis by simp
  qed
  show ?thesis
    by (rule exI [of _ "t'\<lparr>rp_primary := rp_addr s, rp_role := RBackup, rp_ready := True\<rparr>"])
      (use 3 in \<open>simp add: try_sync_late t'(1)\<close>)
qed

text \<open>
  C23. Split brain: a backup that reaches nobody elects itself while the old primary stays primary.
  Both then acknowledge a write of the same file, with different bytes under the same version.
\<close>

theorem pb_split_brain:
  assumes "a \<noteq> b" "rp_role (c a) = RPrimary" "rp_addr (c b) = b" "rp_ready (c a)" "rp_ready (c b)"
    and "dget (rp_open (c a)) h = Some i" "dget (rp_open (c b)) k = Some i" "h_mode i = ''w''"
    and "\<exists>l. rp_lay os (c a) (h_file i) = File l" "\<exists>l. rp_lay os (c b) (h_file i) = File l"
    and "snd (rp_view os (c a)) (h_file i) = v" "snd (rp_view os (c b)) (h_file i) = v"
  shows "\<exists>c' r. r = Answered \<lparr>clo_success = True, clo_version = v + 1, clo_error = []\<rparr>
    \<and> snd (cl_close os (\<lambda>_. False) a h x [] 0 (cl_elect (\<lambda>_. False) (\<lambda>_. False) b c)) = r
    \<and> cl_close os (\<lambda>_. False) b k y [] 0 (fst (cl_close os (\<lambda>_. False) a h x [] 0 (cl_elect (\<lambda>_. False) (\<lambda>_. False) b c))) = (c', r)
    \<and> rp_role (c' a) = RPrimary \<and> rp_role (c' b) = RPrimary
    \<and> holds os (c' a) (h_file i) x (v + 1) \<and> holds os (c' b) (h_file i) y (v + 1)"
proof -
  let ?c1 = "cl_elect (\<lambda>_. False) (\<lambda>_. False) b c" and ?r = "Answered \<lparr>clo_success = True, clo_version = v + 1, clo_error = []\<rparr>"
  have none: "announce_leader (\<lambda>_. False) p as d = d" "replicate_to os (\<lambda>_. False) m as d = d" for p as d m
    by (induction as) (simp_all add: announce_leader_def replicate_to_def)
  have e: "elect_new_primary (\<lambda>_. False) (c b) = c b\<lparr>rp_primary := b, rp_role := RPrimary\<rparr>"
    using assms(3) by (simp add: elect_new_primary_def)
  have c1: "?c1 = c(b := c b\<lparr>rp_primary := b, rp_role := RPrimary\<rparr>)" by (simp add: cl_elect_def e none)
  have id: "rp_check_idempotent [] 0 s = None" for s by (simp add: rp_check_idempotent_def)
  from close_ready [OF assms(4,2) id assms(6,8,9), of x] obtain s where s:
    "rp_close os h x [] 0 (c a) = (s, ?r, Some (SendWrite (h_file i) x (v + 1)))"
    "rp_view os s = put_view (rp_lay os (c a)) (h_file i) x (v + 1) (rp_view os (c a))" "same_server (c a) s"
    unfolding assms(11) by blast
  have 1: "cl_close os (\<lambda>_. False) a h x [] 0 ?c1 = (?c1(a := s), ?r)"
    using assms(1) s(1) by (simp add: cl_close_def c1 send_out_def none)
  let ?b = "c b\<lparr>rp_primary := b, rp_role := RPrimary\<rparr>"
  have B: "rp_ready ?b" "rp_role ?b = RPrimary" "dget (rp_open ?b) k = Some i" "\<exists>l. rp_lay os ?b (h_file i) = File l"
    "snd (rp_view os ?b) (h_file i) = v" using assms(5,7,10,12) by (simp_all add: rp_lay_def)
  from close_ready [OF B(1,2) id B(3) assms(8) B(4), of y] obtain t where t:
    "rp_close os k y [] 0 ?b = (t, ?r, Some (SendWrite (h_file i) y (v + 1)))"
    "rp_view os t = put_view (rp_lay os ?b) (h_file i) y (v + 1) (rp_view os ?b)" "same_server ?b t"
    unfolding B(5) by blast
  have 2: "cl_close os (\<lambda>_. False) b k y [] 0 (?c1(a := s)) = (?c1(a := s, b := t), ?r)"
    using assms(1) t(1) by (simp add: cl_close_def c1 send_out_def none)
  have "rp_role s = RPrimary" "rp_role t = RPrimary" using s(3) t(3) assms(2) by (simp_all add: same_server_def)
  then show ?thesis using 1 2 s(2) t(2) assms(1)
    by (intro exI [of _ "?c1(a := s, b := t)"] exI [of _ ?r]) (simp add: holds_def put_view_def)
qed

theorem pb_split_brain_witness:
  "\<exists>c'. snd (cl_close plain (\<lambda>_. False) ''a'' 1 ''one'' [] 0 (cl_elect (\<lambda>_. False) (\<lambda>_. False) ''b'' pb_two))
      = Answered \<lparr>clo_success = True, clo_version = 4, clo_error = []\<rparr>
    \<and> cl_close plain (\<lambda>_. False) ''b'' 1 ''two'' [] 0
        (fst (cl_close plain (\<lambda>_. False) ''a'' 1 ''one'' [] 0 (cl_elect (\<lambda>_. False) (\<lambda>_. False) ''b'' pb_two)))
      = (c', Answered \<lparr>clo_success = True, clo_version = 4, clo_error = []\<rparr>)
    \<and> holds plain (c' ''a'') ''f'' ''one'' 4 \<and> holds plain (c' ''b'') ''f'' ''two'' 4"
proof -
  have h: "rp_role (pb_two ''a'') = RPrimary" "rp_addr (pb_two ''b'') = ''b''" "rp_ready (pb_two ''a'')" "rp_ready (pb_two ''b'')"
    "dget (rp_open (pb_two ''a'')) 1 = Some \<lparr>h_file = ''f'', h_mode = ''w''\<rparr>"
    "dget (rp_open (pb_two ''b'')) 1 = Some \<lparr>h_file = ''f'', h_mode = ''w''\<rparr>"
    by (simp_all add: pb_two_def pb_a_def pb_b_def dget_def)
  have v: "snd (rp_view plain (pb_two ''a'')) ''f'' = 3" "snd (rp_view plain (pb_two ''b'')) ''f'' = 3"
    by (simp_all add: pb_two_def pb_views)
  from pb_split_brain [OF _ h, of plain 3 "''one''" "''two''"] v pb_file show ?thesis by auto
qed

text \<open>
  The acknowledgement does not wait for the backups: whichever calls to the peers get through,
  none of them included, \<open>Close\<close> answers the same, and the primary itself ends in the same state.
\<close>

lemma pb_ack_ignores_backups:
  assumes "a \<notin> set (rp_stubs (c a))"
  shows "snd (cl_close os reach a h b cid seq c) = snd (cl_close os reach' a h b cid seq c)
    \<and> fst (cl_close os reach a h b cid seq c) a = fst (cl_close os reach' a h b cid seq c) a"
proof -
  obtain s r m where e: "rp_close os h b cid seq (c a) = (s, r, m)" by (metis prod.exhaust)
  have "replicate_to os rc msg as d a = d a" if "a \<notin> set as" for rc msg as d
    using that by (induction as arbitrary: d) (simp_all add: replicate_to_def)
  moreover have "same_server (c a) s" by (cases rule: pb_close_cases [OF e]) simp_all
  ultimately show ?thesis using assms e by (simp add: cl_close_def send_out_def same_server_def split: option.split)
qed

end
