(* ===== verification/Client_Rpc.thy ===== *)
theory Client_Rpc
  imports Files Kv_Server
begin

text \<open>
  How the client stubs reach a server: the redirect and fail-over loop of \<open>kv_client_stub.py\<close>,
  which \<open>raft_client_stub.py\<close> has too (the two differ in the pause between attempts and in what
  they print), the calls of the key-value client on top of it, and the loop of
  \<open>replication/client_stub.py\<close>, which looks for the primary.

  The servers of the first two are an argument: \<open>env k a q\<close> is what the \<open>k\<close>-th attempt of a call gets from
  address \<open>a\<close> for the request \<open>q\<close>.
\<close>

section \<open>Connection\<close>

record conn =
  cn_nodes :: "(string \<times> nat) list"
  cn_max_retries :: nat
  cn_idx :: nat
  cn_target :: addr
  cn_client :: string
  cn_seq :: int

definition node_addr :: "string \<times> nat \<Rightarrow> addr" where
  "node_addr p = fst p @ '':'' @ nat_str (snd p)"

text \<open>\<open>cn_target\<close>: the address of the open channel.\<close>

definition connect_idx :: "nat \<Rightarrow> conn \<Rightarrow> conn" where
  "connect_idx i c =
     (let j = i mod length (cn_nodes c) in c\<lparr>cn_idx := j, cn_target := node_addr (cn_nodes c ! j)\<rparr>)"

definition connect_to_address :: "addr \<Rightarrow> conn \<Rightarrow> conn" where
  "connect_to_address a c = c\<lparr>cn_target := a\<rparr>"

definition next_node :: "conn \<Rightarrow> conn" where
  "next_node c = connect_idx ((cn_idx c + 1) mod length (cn_nodes c)) c"

definition next_seq :: "conn \<Rightarrow> conn \<times> int" where
  "next_seq c = (c\<lparr>cn_seq := cn_seq c + 1\<rparr>, cn_seq c + 1)"

text \<open>An empty list of nodes makes the constructor raise \<open>ZeroDivisionError\<close>.\<close>

definition new_conn :: "(string \<times> nat) list \<Rightarrow> nat \<Rightarrow> string \<Rightarrow> exn + conn" where
  "new_conn nodes max_retries client =
     (if nodes = [] then Inl (PyException ''integer modulo by zero'')
      else Inr (connect_idx 0
        \<lparr>cn_nodes = nodes, cn_max_retries = max_retries, cn_idx = 0, cn_target = [], cn_client = client, cn_seq = 0\<rparr>))"

section \<open>The loop\<close>

text \<open>\<open>NOT_LEADER:<id>:<host:port>\<close>; the address may contain colons.\<close>

definition leader_hint :: "string \<Rightarrow> addr option" where
  "leader_hint msg =
     (let parts = split_max 2 (CHR '':'') msg
      in if length parts > 2 \<and> parts ! 2 \<noteq> [] then Some (parts ! 2) else None)"

definition is_redirect :: "string \<Rightarrow> bool" where
  "is_redirect msg = startswith msg ''NOT_LEADER:''"

definition transient :: "string \<Rightarrow> bool" where
  "transient code \<longleftrightarrow> code \<in> {''UNAVAILABLE'', ''DEADLINE_EXCEEDED'', ''RESOURCE_EXHAUSTED'', ''ABORTED''}"

text \<open>
  What \<open>_execute\<close> uses of a response: its success flag and error message. \<open>shown\<close> prints the err
  error.
\<close>

definition retries_exceeded :: "nat \<Rightarrow> string option \<Rightarrow> exn" where
  "retries_exceeded m err =
     PyException (''RPC failed after '' @ nat_str m @ '' retries: '' @ (case err of None \<Rightarrow> ''None'' | Some s \<Rightarrow> s))"

primrec execute_from ::
  "('r \<Rightarrow> bool) \<Rightarrow> ('r \<Rightarrow> string) \<Rightarrow> (string \<Rightarrow> string \<Rightarrow> string) \<Rightarrow> (nat \<Rightarrow> addr \<Rightarrow> 'r call)
   \<Rightarrow> nat \<Rightarrow> nat \<Rightarrow> string option \<Rightarrow> conn \<Rightarrow> conn \<times> (exn + 'r)" where
  "execute_from ok msg shown env 0 k err c = (c, Inl (retries_exceeded (cn_max_retries c) err))"
| "execute_from ok msg shown env (Suc n) k err c =
     (case env k (cn_target c) of
        Answered r \<Rightarrow>
          if ok r then (c, Inr r)
          else if is_redirect (msg r) then
            execute_from ok msg shown env n (Suc k) err
              (case leader_hint (msg r) of Some a \<Rightarrow> connect_to_address a c | None \<Rightarrow> next_node c)
          else (c, Inl (PyException (msg r)))
      | Status code details \<Rightarrow>
          if transient code then execute_from ok msg shown env n (Suc k) (Some (shown code details)) (next_node c)
          else (c, Inl (PyException (''gRPC error: '' @ details))))"

definition execute ::
  "('r \<Rightarrow> bool) \<Rightarrow> ('r \<Rightarrow> string) \<Rightarrow> (string \<Rightarrow> string \<Rightarrow> string) \<Rightarrow> (nat \<Rightarrow> addr \<Rightarrow> 'r call) \<Rightarrow> conn \<Rightarrow> conn \<times> (exn + 'r)" where
  "execute ok msg shown env c = execute_from ok msg shown env (cn_max_retries c + 1) 0 None c"

section \<open>The key-value client\<close>

datatype kv_request =
    PutRequest string bytes string int
  | GetRequest string bool
  | DeleteRequest string string int
  | CasRequest string cas_request string int

text \<open>The values a caller passes: a \<open>str\<close> is encoded, bytes are sent as they are.\<close>

datatype data = Str string | Bytes bytes

definition as_bytes :: "data \<Rightarrow> bytes" where
  "as_bytes v = (case v of Str s \<Rightarrow> utf8_encode s | Bytes b \<Rightarrow> b)"

definition client_put ::
  "(string \<Rightarrow> string \<Rightarrow> string) \<Rightarrow> (nat \<Rightarrow> addr \<Rightarrow> kv_request \<Rightarrow> put_response call) \<Rightarrow> string \<Rightarrow> data \<Rightarrow> conn
   \<Rightarrow> conn \<times> (exn + int)" where
  "client_put shown env key v c =
     (let (c1, seq) = next_seq c;
          (c2, r) = execute p_success p_error shown (\<lambda>k a. env k a (PutRequest key (as_bytes v) (cn_client c) seq)) c1
      in (c2, case r of Inl x \<Rightarrow> Inl x | Inr p \<Rightarrow> Inr (p_version p)))"

definition client_get_versioned ::
  "(string \<Rightarrow> string \<Rightarrow> string) \<Rightarrow> (nat \<Rightarrow> addr \<Rightarrow> kv_request \<Rightarrow> get_response call) \<Rightarrow> string \<Rightarrow> bool \<Rightarrow> conn
   \<Rightarrow> conn \<times> (exn + (bytes \<times> int \<times> bool))" where
  "client_get_versioned shown env key lin c =
     (let (c2, r) = execute g_success g_error shown (\<lambda>k a. env k a (GetRequest key lin)) c
      in (c2, case r of Inl x \<Rightarrow> Inl x | Inr g \<Rightarrow> Inr (g_value g, g_version g, g_found g)))"

definition client_get ::
  "(string \<Rightarrow> string \<Rightarrow> string) \<Rightarrow> (nat \<Rightarrow> addr \<Rightarrow> kv_request \<Rightarrow> get_response call) \<Rightarrow> string \<Rightarrow> bool \<Rightarrow> conn
   \<Rightarrow> conn \<times> (exn + bytes option)" where
  "client_get shown env key lin c =
     (let (c2, r) = execute g_success g_error shown (\<lambda>k a. env k a (GetRequest key lin)) c
      in (c2, case r of Inl x \<Rightarrow> Inl x | Inr g \<Rightarrow> Inr (if g_found g then Some (g_value g) else None)))"

definition client_delete ::
  "(string \<Rightarrow> string \<Rightarrow> string) \<Rightarrow> (nat \<Rightarrow> addr \<Rightarrow> kv_request \<Rightarrow> delete_response call) \<Rightarrow> string \<Rightarrow> conn
   \<Rightarrow> conn \<times> (exn + bool)" where
  "client_delete shown env key c =
     (let (c1, seq) = next_seq c;
          (c2, r) = execute d_success d_error shown (\<lambda>k a. env k a (DeleteRequest key (cn_client c) seq)) c1
      in (c2, case r of Inl x \<Rightarrow> Inl x | Inr d \<Rightarrow> Inr (d_existed d)))"

definition send_cas ::
  "(string \<Rightarrow> string \<Rightarrow> string) \<Rightarrow> (nat \<Rightarrow> addr \<Rightarrow> kv_request \<Rightarrow> cas_response call) \<Rightarrow> string \<Rightarrow> cas_request \<Rightarrow> conn
   \<Rightarrow> conn \<times> (exn + cas_response)" where
  "send_cas shown env key q c =
     (let (c1, seq) = next_seq c
      in execute s_success s_error shown (\<lambda>k a. env k a (CasRequest key q (cn_client c) seq)) c1)"

definition client_cas ::
  "(string \<Rightarrow> string \<Rightarrow> string) \<Rightarrow> (nat \<Rightarrow> addr \<Rightarrow> kv_request \<Rightarrow> cas_response call) \<Rightarrow> string \<Rightarrow> data \<Rightarrow> data \<Rightarrow> conn
   \<Rightarrow> conn \<times> (exn + bool)" where
  "client_cas shown env key expected v c =
     (let (c2, r) = send_cas shown env key
            \<lparr>cr_expected = as_bytes expected, cr_new = as_bytes v, cr_absent = False, cr_version = 0\<rparr> c
      in (c2, case r of Inl x \<Rightarrow> Inl x | Inr s \<Rightarrow> Inr (s_swapped s)))"

definition client_cas_version ::
  "(string \<Rightarrow> string \<Rightarrow> string) \<Rightarrow> (nat \<Rightarrow> addr \<Rightarrow> kv_request \<Rightarrow> cas_response call) \<Rightarrow> string \<Rightarrow> int \<Rightarrow> data \<Rightarrow> conn
   \<Rightarrow> conn \<times> (exn + (bool \<times> int))" where
  "client_cas_version shown env key version v c =
     (if version \<le> 0 then (c, Inl (ValueError ''expected_version must be >= 1 (use put_if_absent for new keys)''))
      else
        (let (c2, r) = send_cas shown env key
               \<lparr>cr_expected = [], cr_new = as_bytes v, cr_absent = False, cr_version = version\<rparr> c
         in (c2, case r of Inl x \<Rightarrow> Inl x | Inr s \<Rightarrow> Inr (s_swapped s, s_version s))))"

definition client_put_if_absent ::
  "(string \<Rightarrow> string \<Rightarrow> string) \<Rightarrow> (nat \<Rightarrow> addr \<Rightarrow> kv_request \<Rightarrow> cas_response call) \<Rightarrow> string \<Rightarrow> data \<Rightarrow> conn
   \<Rightarrow> conn \<times> (exn + bool)" where
  "client_put_if_absent shown env key v c =
     (let (c2, r) = send_cas shown env key \<lparr>cr_expected = [], cr_new = as_bytes v, cr_absent = True, cr_version = 0\<rparr> c
      in (c2, case r of Inl x \<Rightarrow> Inl x | Inr s \<Rightarrow> Inr (s_swapped s)))"

section \<open>The client of the primary-backup servers\<close>

record rep_conn =
  rc_servers :: "addr list"
  rc_max_retries :: nat
  rc_conns :: "addr list"
  rc_primary :: addr
  rc_client :: string
  rc_seq :: int

definition rc_connect :: "addr \<Rightarrow> rep_conn \<Rightarrow> rep_conn" where
  "rc_connect a c = (if a \<in> set (rc_conns c) then c else c\<lparr>rc_conns := rc_conns c @ [a]\<rparr>)"

text \<open>
  The servers are a state \<open>'s\<close> that the calls go through: \<open>info a\<close> asks the server at \<open>a\<close> for the primary,
  with \<open>None\<close> if the call raises.
\<close>

fun discover_from ::
  "(addr \<Rightarrow> 's \<Rightarrow> 's \<times> addr option) \<Rightarrow> addr list \<Rightarrow> rep_conn \<Rightarrow> 's \<Rightarrow> rep_conn \<times> 's \<times> addr" where
  "discover_from info [] c s = (c, s, hd (rc_servers c))"
| "discover_from info (a # as) c s =
     (case (if a \<in> set (rc_conns c) then info a s else (s, None)) of
        (s', Some p) \<Rightarrow> if p \<noteq> [] then (rc_connect p c, s', p) else discover_from info as c s'
      | (s', None) \<Rightarrow> discover_from info as c s')"

text \<open>The fallback is the first address; \<open>new_rep_conn\<close> raises when there is none.\<close>

definition discover_primary :: "(addr \<Rightarrow> 's \<Rightarrow> 's \<times> addr option) \<Rightarrow> rep_conn \<times> 's \<Rightarrow> rep_conn \<times> 's" where
  "discover_primary info w =
     (let (c, s, p) = discover_from info (rc_servers (fst w)) (fst w) (snd w) in (c\<lparr>rc_primary := p\<rparr>, s))"

definition new_rep_conn ::
  "(addr \<Rightarrow> 's \<Rightarrow> 's \<times> addr option) \<Rightarrow> addr list \<Rightarrow> nat \<Rightarrow> string \<Rightarrow> 's \<Rightarrow> exn + rep_conn \<times> 's" where
  "new_rep_conn info servers max_retries client s =
     (if servers = [] then Inl IndexError
      else Inr (discover_primary info
        (foldl (\<lambda>c a. rc_connect a c)
           \<lparr>rc_servers = servers, rc_max_retries = max_retries, rc_conns = [], rc_primary = [], rc_client = client, rc_seq = 0\<rparr>
           servers, s)))"

definition handle_not_primary :: "string \<Rightarrow> rep_conn \<Rightarrow> rep_conn \<times> bool" where
  "handle_not_primary details c =
     (if startswith details ''NOT_PRIMARY:'' then
        (let p = split_max 1 (CHR '':'') details ! 1 in ((rc_connect p c)\<lparr>rc_primary := p\<rparr>, True))
      else (c, False))"

definition rc_next_seq :: "rep_conn \<Rightarrow> rep_conn \<times> int" where
  "rc_next_seq c = (c\<lparr>rc_seq := rc_seq c + 1\<rparr>, rc_seq c + 1)"

definition rep_transient :: "string \<Rightarrow> bool" where
  "rep_transient code \<longleftrightarrow> code \<in> {''UNAVAILABLE'', ''DEADLINE_EXCEEDED'', ''RESOURCE_EXHAUSTED''}"

text \<open>\<open>k\<close> counts the attempts, \<open>a\<close> is the server of the next one.\<close>

primrec rep_execute_from ::
  "('r \<Rightarrow> bool) \<Rightarrow> ('r \<Rightarrow> string) \<Rightarrow> (string \<Rightarrow> string \<Rightarrow> string) \<Rightarrow> (addr \<Rightarrow> 's \<Rightarrow> 's \<times> addr option)
   \<Rightarrow> (addr \<Rightarrow> 's \<Rightarrow> 's \<times> 'r call) \<Rightarrow> nat \<Rightarrow> nat \<Rightarrow> string option \<Rightarrow> addr \<Rightarrow> rep_conn \<times> 's \<Rightarrow> (rep_conn \<times> 's) \<times> (exn + 'r)" where
  "rep_execute_from ok msg shown info rpc 0 k err a w =
     (w, Inl (PyException (''RPC failed: '' @ (case err of None \<Rightarrow> ''None'' | Some s \<Rightarrow> s))))"
| "rep_execute_from ok msg shown info rpc (Suc n) k err a w =
     (if a \<notin> set (rc_conns (fst w)) then (w, Inl (KeyError a))
      else (let c = fst w in
            case rpc a (snd w) of
              (s, Answered r) \<Rightarrow>
                if ok r then ((c, s), Inr r)
                else (case handle_not_primary (msg r) c of
                        (c', True) \<Rightarrow> rep_execute_from ok msg shown info rpc n (Suc k) err (rc_primary c') (c', s)
                      | (c', False) \<Rightarrow> ((c', s), Inl (PyException (msg r))))
            | (s, Status code details) \<Rightarrow>
                if code = ''FAILED_PRECONDITION'' then
                  (case handle_not_primary details c of
                     (c', True) \<Rightarrow> rep_execute_from ok msg shown info rpc n (Suc k) (Some (shown code details)) (rc_primary c') (c', s)
                   | (c', False) \<Rightarrow> ((c', s), Inl (PyException (''gRPC FAILED_PRECONDITION: '' @ details))))
                else if rep_transient code then
                  (if k < rc_max_retries c then
                     (let w' = discover_primary info (c, s)
                      in rep_execute_from ok msg shown info rpc n (Suc k) (Some (shown code details)) (rc_primary (fst w')) w')
                   else ((c, s), Inl (PyException (''RPC failed after '' @ nat_str (rc_max_retries c) @ '' retries: '' @ details))))
                else ((c, s), Inl (PyException (''gRPC error: '' @ details)))))"

definition rep_execute ::
  "('r \<Rightarrow> bool) \<Rightarrow> ('r \<Rightarrow> string) \<Rightarrow> (string \<Rightarrow> string \<Rightarrow> string) \<Rightarrow> (addr \<Rightarrow> 's \<Rightarrow> 's \<times> addr option)
   \<Rightarrow> (addr \<Rightarrow> 's \<Rightarrow> 's \<times> 'r call) \<Rightarrow> rep_conn \<times> 's \<Rightarrow> (rep_conn \<times> 's) \<times> (exn + 'r)" where
  "rep_execute ok msg shown info rpc w =
     rep_execute_from ok msg shown info rpc (rc_max_retries (fst w) + 1) 0 None (rc_primary (fst w)) w"

text \<open>\<open>test_version_number\<close> has a loop of its own: \<open>Answered (Some v)\<close> is a success.\<close>

primrec rep_test_version_from ::
  "(addr \<Rightarrow> 's \<Rightarrow> 's \<times> addr option) \<Rightarrow> (addr \<Rightarrow> 's \<Rightarrow> 's \<times> int option call) \<Rightarrow> nat \<Rightarrow> nat \<Rightarrow> rep_conn \<times> 's
   \<Rightarrow> (rep_conn \<times> 's) \<times> (exn + int)" where
  "rep_test_version_from info rpc 0 k w = (w, Inl (PyException ''TestVersionNumber failed on all replicas''))"
| "rep_test_version_from info rpc (Suc n) k w =
     (let c = fst w in
      if rc_primary c \<notin> set (rc_conns c) then (w, Inl (KeyError (rc_primary c)))
      else (case rpc (rc_primary c) (snd w) of
              (s, Answered (Some v)) \<Rightarrow> ((c, s), Inr v)
            | (s, Answered None) \<Rightarrow> rep_test_version_from info rpc n (Suc k) (c, s)
            | (s, Status code details) \<Rightarrow>
                rep_test_version_from info rpc n (Suc k)
                  (if k < rc_max_retries c then discover_primary info (c, s) else (c, s))))"

definition rep_test_version ::
  "(addr \<Rightarrow> 's \<Rightarrow> 's \<times> addr option) \<Rightarrow> (addr \<Rightarrow> 's \<Rightarrow> 's \<times> int option call) \<Rightarrow> rep_conn \<times> 's \<Rightarrow> (rep_conn \<times> 's) \<times> (exn + int)" where
  "rep_test_version info rpc w = rep_test_version_from info rpc (rc_max_retries (fst w) + 1) 0 w"

end
