(* ===== verification/Client_Rpc_Theorems.thy ===== *)
theory Client_Rpc_Theorems
  imports Client_Rpc Kv_Theorems Primary_Backup
begin

text \<open>
  The client's loop: it finds the leader, gives up after a bounded number of attempts, and returns
  only what a server answered. Its retries with one sequence number and the session table of the
  state machine together apply each request once.
\<close>

section \<open>Redirects\<close>

lemma is_redirect_not_leader [simp]: "is_redirect (not_leader_msg l a)"
  by (simp add: is_redirect_def not_leader_msg_def startswith_def)

lemma colon_opt_nat_str: "CHR '':'' \<notin> set (opt_nat_str l)"
  by (cases l) (auto simp: opt_nat_str_def not_digit_in_nat_str is_digit_def)

lemma split_not_leader:
  "split_max 2 (CHR '':'') (not_leader_msg l a) = [''NOT_LEADER'', opt_nat_str l, case a of None \<Rightarrow> [] | Some s \<Rightarrow> s]"
  using split_at_char_append [OF colon_opt_nat_str]
  by (simp add: not_leader_msg_def numeral_2_eq_2 split: prod.split)

text \<open>
  What a server that does not lead answers is understood by the client: it is taken for a
  redirect, and the address in it comes out as the server put it in, whatever it contains.
\<close>

lemma client_parses_redirect:
  "is_redirect (not_leader_msg l a) \<and> leader_hint (not_leader_msg l a) = (if a = Some [] then None else a)"
  by (cases a) (auto simp: leader_hint_def split_not_leader)

lemma client_hint_none: "is_redirect (not_leader_msg l None)" "leader_hint (not_leader_msg l None) = None"
  by (simp_all add: leader_hint_def split_not_leader)

section \<open>Attempts\<close>

text \<open>
  The loop as a search: \<open>conn_before env k c\<close> is the connection the \<open>k\<close>-th attempt is made on, an
  answer is decisive unless it is a redirect or a transient error, and the call ends with the
  first decisive one.
\<close>

definition decisive :: "('r \<Rightarrow> bool) \<Rightarrow> ('r \<Rightarrow> string) \<Rightarrow> 'r call \<Rightarrow> bool" where
  "decisive ok msg r = (case r of Answered x \<Rightarrow> ok x \<or> \<not> is_redirect (msg x) | Status code d \<Rightarrow> \<not> transient code)"

definition outcome :: "('r \<Rightarrow> bool) \<Rightarrow> ('r \<Rightarrow> string) \<Rightarrow> 'r call \<Rightarrow> exn + 'r" where
  "outcome ok msg r =
     (case r of Answered x \<Rightarrow> if ok x then Inr x else Inl (PyException (msg x))
      | Status code d \<Rightarrow> Inl (PyException (''gRPC error: '' @ d)))"

definition reconnect :: "('r \<Rightarrow> string) \<Rightarrow> 'r call \<Rightarrow> conn \<Rightarrow> conn" where
  "reconnect msg r c =
     (case r of
        Answered x \<Rightarrow> (case leader_hint (msg x) of Some a \<Rightarrow> connect_to_address a c | None \<Rightarrow> next_node c)
      | Status code d \<Rightarrow> next_node c)"

primrec conn_before :: "('r \<Rightarrow> string) \<Rightarrow> (nat \<Rightarrow> addr \<Rightarrow> 'r call) \<Rightarrow> nat \<Rightarrow> conn \<Rightarrow> conn" where
  "conn_before msg env 0 c = c"
| "conn_before msg env (Suc k) c =
     (let c' = conn_before msg env k c in reconnect msg (env k (cn_target c')) c')"

abbreviation answer_at :: "('r \<Rightarrow> string) \<Rightarrow> (nat \<Rightarrow> addr \<Rightarrow> 'r call) \<Rightarrow> nat \<Rightarrow> conn \<Rightarrow> 'r call" where
  "answer_at msg env k c \<equiv> env k (cn_target (conn_before msg env k c))"

lemma execute_from_Suc:
  assumes "r = env k (cn_target c)"
  shows "execute_from ok msg shown env (Suc n) k err c =
      (if decisive ok msg r then (c, outcome ok msg r)
       else execute_from ok msg shown env n (Suc k)
              (case r of Answered x \<Rightarrow> err | Status code d \<Rightarrow> Some (shown code d)) (reconnect msg r c))"
  using assms by (auto simp: decisive_def outcome_def reconnect_def split: call.split)

lemma retries_conn [simp]:
  "cn_max_retries (connect_idx i c) = cn_max_retries c" "cn_nodes (connect_idx i c) = cn_nodes c"
  "cn_max_retries (reconnect msg r c) = cn_max_retries c" "cn_nodes (reconnect msg r c) = cn_nodes c"
  by (auto simp: connect_idx_def reconnect_def connect_to_address_def next_node_def Let_def split: call.split option.split)

text \<open>Which attempt, if any, is the first decisive one.\<close>

definition first_decisive :: "('r \<Rightarrow> bool) \<Rightarrow> ('r \<Rightarrow> string) \<Rightarrow> (nat \<Rightarrow> addr \<Rightarrow> 'r call) \<Rightarrow> conn \<Rightarrow> nat option" where
  "first_decisive ok msg env c = List.find (\<lambda>k. decisive ok msg (answer_at msg env k c)) [0..<cn_max_retries c + 1]"

lemma execute_from_find:
  assumes "conn_before msg env k c = c'"
  shows "case List.find (\<lambda>k. decisive ok msg (answer_at msg env k c)) [k..<k + n] of
       Some j \<Rightarrow> execute_from ok msg shown env n k err c' = (conn_before msg env j c, outcome ok msg (answer_at msg env j c))
     | None \<Rightarrow> \<exists>e. execute_from ok msg shown env n k err c' = (conn_before msg env (k + n) c, Inl (retries_exceeded (cn_max_retries c') e))"
  using assms
proof (induction n arbitrary: k err c')
  case (Suc n)
  define r where r: "r = env k (cn_target c')"
  have l: "[k..<k + Suc n] = k # [Suc k..<Suc k + n]" by (simp add: upt_conv_Cons del: upt_Suc)
  show ?case
  proof (cases "decisive ok msg r")
    case True
    with Suc.prems show ?thesis unfolding execute_from_Suc [where env = env and k = k and c = c', OF r] l by (simp add: r)
  next
    case False
    from Suc.prems have "conn_before msg env (Suc k) c = reconnect msg r c'" by (simp add: Let_def r)
    from Suc.IH [OF this, of "case r of Answered x \<Rightarrow> err | Status code d \<Rightarrow> Some (shown code d)"] False Suc.prems
    show ?thesis unfolding execute_from_Suc [where env = env and k = k and c = c', OF r] l
      by (simp add: r del: conn_before.simps cong: option.case_cong)
  qed
qed auto

text \<open>
  The loop is a search for the first decisive answer among at most \<open>max_retries + 1\<close> attempts: it
  returns what that answer means, on the connection that got it, and otherwise raises after the
  last attempt. Retries change nothing but the connection.
\<close>

lemma client_search:
  "case first_decisive ok msg env c of
     Some k \<Rightarrow> k \<le> cn_max_retries c
       \<and> execute ok msg shown env c = (conn_before msg env k c, outcome ok msg (answer_at msg env k c))
   | None \<Rightarrow> \<exists>e. execute ok msg shown env c
       = (conn_before msg env (cn_max_retries c + 1) c, Inl (retries_exceeded (cn_max_retries c) e))"
proof (cases "first_decisive ok msg env c")
  case None
  with execute_from_find [where k = 0 and c = c and n = "cn_max_retries c + 1" and err = None and ok = ok and msg = msg and env = env and shown = shown] show ?thesis
    by (simp add: first_decisive_def execute_def del: upt_Suc)
next
  case (Some k)
  then have "k < cn_max_retries c + 1"
    by (auto simp: first_decisive_def find_Some_iff simp del: upt_Suc)
  with Some execute_from_find [where k = 0 and c = c and n = "cn_max_retries c + 1" and err = None and ok = ok and msg = msg and env = env and shown = shown] show ?thesis
    by (simp add: first_decisive_def execute_def del: upt_Suc)
qed

section \<open>Finding the leader\<close>

text \<open>What a server that does not lead answers: a redirect to \<open>L\<close> or to nobody, or a transient error.\<close>

definition sends_on :: "('r \<Rightarrow> bool) \<Rightarrow> ('r \<Rightarrow> string) \<Rightarrow> addr \<Rightarrow> 'r call \<Rightarrow> bool" where
  "sends_on ok msg L r =
     (case r of
        Answered x \<Rightarrow> \<not> ok x \<and> is_redirect (msg x) \<and> leader_hint (msg x) \<in> {None, Some L}
      | Status code d \<Rightarrow> transient code)"

lemma sends_on_not_decisive: "sends_on ok msg L r \<Longrightarrow> \<not> decisive ok msg r"
  by (auto simp: sends_on_def decisive_def split: call.splits)

lemma reconnect_cases:
  "sends_on ok msg L r \<Longrightarrow> cn_target (reconnect msg r c) = L \<or> reconnect msg r c = next_node c"
  by (auto simp: sends_on_def reconnect_def connect_to_address_def split: call.splits)

lemma next_node_simps:
  assumes "cn_nodes c \<noteq> []"
  shows "cn_idx (next_node c) = (cn_idx c + 1) mod length (cn_nodes c)"
    "cn_target (next_node c) = node_addr (cn_nodes c ! ((cn_idx c + 1) mod length (cn_nodes c)))"
  using assms by (simp_all add: next_node_def connect_idx_def Let_def)

lemma nodes_before [simp]: "cn_nodes (conn_before msg env k c) = cn_nodes c"
  by (induction k) (simp_all add: Let_def)

text \<open>Until it reaches \<open>L\<close>, the client goes round the nodes.\<close>

lemma round_robin:
  assumes "\<And>k a. a \<noteq> L \<Longrightarrow> sends_on ok msg L (env k a)" "cn_nodes c \<noteq> []"
    and "\<forall>j\<le>k. cn_target (conn_before msg env j c) \<noteq> L"
  shows "cn_idx (conn_before msg env k c) mod length (cn_nodes c) = (cn_idx c + k) mod length (cn_nodes c)
    \<and> (0 < k \<longrightarrow> cn_target (conn_before msg env k c) = node_addr (cn_nodes c ! ((cn_idx c + k) mod length (cn_nodes c))))"
  using assms(3)
proof (induction k)
  case (Suc k)
  let ?d = "conn_before msg env k c"
  have "cn_target ?d \<noteq> L" using Suc.prems by simp
  from reconnect_cases [OF assms(1) [OF this], of k ?d] Suc.prems
  have n: "conn_before msg env (Suc k) c = next_node ?d" by (auto simp: Let_def)
  from Suc have "cn_idx ?d mod length (cn_nodes c) = (cn_idx c + k) mod length (cn_nodes c)" by simp
  then have "Suc (cn_idx ?d) mod length (cn_nodes c) = Suc (cn_idx c + k) mod length (cn_nodes c)"
    by (metis mod_Suc_eq)
  with assms(2) show ?case unfolding n by (simp add: next_node_simps)
qed simp

lemma reaches_node:
  assumes "\<And>k a. a \<noteq> L \<Longrightarrow> sends_on ok msg L (env k a)" "L \<in> node_addr ` set (cn_nodes c)"
  shows "\<exists>k\<le>length (cn_nodes c). cn_target (conn_before msg env k c) = L"
proof (rule ccontr)
  let ?n = "length (cn_nodes c)"
  assume "\<not> ?thesis"
  then have no: "\<forall>j\<le>?n. cn_target (conn_before msg env j c) \<noteq> L" by blast
  from assms(2) obtain p where p: "p < ?n" "L = node_addr (cn_nodes c ! p)" by (auto simp: in_set_conv_nth)
  then have ne: "cn_nodes c \<noteq> []" by auto
  define k where "k = (let d = (p + ?n - cn_idx c mod ?n) mod ?n in if d = 0 then ?n else d)"
  have "(p + ?n - cn_idx c mod ?n) mod ?n < ?n" using p(1) by (intro mod_less_divisor) linarith
  then have "0 < k" "k \<le> ?n" using p(1) by (auto simp: k_def Let_def)
  have "(cn_idx c mod ?n + k) mod ?n = (cn_idx c mod ?n + (p + ?n - cn_idx c mod ?n)) mod ?n"
    by (auto simp: k_def Let_def mod_add_right_eq)
  also have "\<dots> = p"
  proof -
    have "cn_idx c mod ?n < ?n" using p(1) by (intro mod_less_divisor) linarith
    then have "cn_idx c mod ?n + (p + ?n - cn_idx c mod ?n) = p + ?n" by linarith
    with p(1) show ?thesis by simp
  qed
  finally have "(cn_idx c + k) mod ?n = p" by (simp add: mod_add_left_eq)
  moreover have "\<forall>j\<le>k. cn_target (conn_before msg env j c) \<noteq> L" using no \<open>k \<le> ?n\<close> by auto
  ultimately show False using round_robin [where env = env and k = k, OF assms(1) ne] no \<open>0 < k\<close> \<open>k \<le> ?n\<close> p(2) by auto
qed

lemma find_upt:
  assumes "P k" "\<forall>j<k. \<not> P j" "k < n" shows "List.find P [0..<n] = Some k"
  using assms by (auto simp: find_Some_iff simp del: upt_Suc intro!: exI [of _ k])

text \<open>
  C24. Liveness: if one of the client's nodes leads and answers, and every other address sends the
  client on (a redirect to the leader or without an address, or a transient error), then a call
  succeeds with the leader's answer after at most one attempt per node and one more; so it never
  runs out of retries if there are as many of them as nodes.
\<close>

theorem client_reaches_leader:
  assumes "L \<in> node_addr ` set (cn_nodes c)" "length (cn_nodes c) \<le> cn_max_retries c"
    and "\<And>k. \<exists>r. env k L = Answered r \<and> ok r"
    and "\<And>k a. a \<noteq> L \<Longrightarrow> sends_on ok msg L (env k a)"
  shows "\<exists>k\<le>length (cn_nodes c). \<exists>c' r. execute ok msg shown env c = (c', Inr r) \<and> cn_target c' = L \<and> env k L = Answered r"
proof -
  let ?at = "\<lambda>k. cn_target (conn_before msg env k c)"
  define k where "k = (LEAST k. ?at k = L)"
  from reaches_node [where env = env, OF assms(4,1)] obtain k' where "k' \<le> length (cn_nodes c)" "?at k' = L" by blast
  then have k: "?at k = L" "k \<le> length (cn_nodes c)" unfolding k_def
    by (auto intro: LeastI Least_le [THEN order_trans])
  from assms(3) obtain r where r: "env k L = Answered r" "ok r" by blast
  have "\<forall>j<k. \<not> decisive ok msg (answer_at msg env j c)"
    using sends_on_not_decisive [OF assms(4)] not_less_Least [of _ "\<lambda>k. ?at k = L"] unfolding k_def by blast
  moreover have "decisive ok msg (answer_at msg env k c)" using r by (simp add: k(1) decisive_def)
  ultimately have "first_decisive ok msg env c = Some k"
    unfolding first_decisive_def by (intro find_upt) (use k(2) assms(2) in auto)
  with client_search [where ok = ok and msg = msg and env = env and c = c and shown = shown] r k show ?thesis by (auto simp: outcome_def)
qed

text \<open>Three nodes of which the last one leads; the first is down, the second knows no leader.\<close>

definition demo_conn :: conn where
  "demo_conn = \<lparr>cn_nodes = [(''a'', 1), (''b'', 2), (''c'', 3)], cn_max_retries = 5, cn_idx = 0, cn_target = ''a:1'',
                cn_client = ''alice'', cn_seq = 0\<rparr>"

definition demo_env :: "nat \<Rightarrow> addr \<Rightarrow> put_response call" where
  "demo_env k a = (if a = ''c:3'' then Answered \<lparr>p_success = True, p_version = 7, p_error = []\<rparr>
                   else if a = ''b:2'' then Answered \<lparr>p_success = False, p_version = 0, p_error = not_leader_msg None None\<rparr>
                   else Status ''UNAVAILABLE'' [])"

theorem client_reaches_leader_witness:
  "\<exists>c' r. execute p_success p_error (\<lambda>a b. a) demo_env demo_conn = (c', Inr r) \<and> p_version r = 7"
proof -
  have n: "''c:3'' \<in> node_addr ` set (cn_nodes demo_conn)"
    by (simp add: demo_conn_def node_addr_def) (simp add: nat_str.simps, code_simp)
  have s: "sends_on p_success p_error ''c:3'' (demo_env k a)" if "a \<noteq> ''c:3''" for k a
    using that client_hint_none by (simp add: demo_env_def sends_on_def transient_def)
  have e: "\<exists>r. demo_env k ''c:3'' = Answered r \<and> p_success r" for k by (simp add: demo_env_def)
  show ?thesis
    using client_reaches_leader [where L = "''c:3''" and c = demo_conn and env = demo_env and ok = p_success
        and msg = p_error and shown = "\<lambda>a b. a", OF n _ e s] by (auto simp: demo_conn_def demo_env_def)
qed

section \<open>Retries in the log\<close>

text \<open>
  A request as a client sends it; a retry is the same request again. In the log each becomes an
  entry of some term and index.
\<close>

record request =
  rq_op :: kv_op
  rq_key :: string
  rq_client :: string
  rq_seq :: int

definition logged :: "log_entry \<Rightarrow> request \<Rightarrow> bool" where
  "logged e q \<longleftrightarrow> op_type e = op_name (rq_op q) \<and> data e = op_data (rq_op q) \<and> filename e = rq_key q
     \<and> client_id e = rq_client q \<and> seq_num e = rq_seq q"

text \<open>What was meant: each request once, at its first place, and none older than one already done.\<close>

definition outdated :: "request list \<Rightarrow> request \<Rightarrow> bool" where
  "outdated seen q \<longleftrightarrow> rq_client q \<noteq> [] \<and> 0 < rq_seq q
     \<and> list_ex (\<lambda>p. rq_client p = rq_client q \<and> rq_seq q \<le> rq_seq p) seen"

primrec run_once :: "request list \<Rightarrow> request list \<Rightarrow> (string \<Rightarrow> cell) \<Rightarrow> string \<Rightarrow> cell" where
  "run_once seen [] m = m"
| "run_once seen (q # qs) m =
     run_once (seen @ [q]) qs (if outdated seen q then m else m(rq_key q := fst (spec_op (rq_op q) (m (rq_key q)))))"

text \<open>The session table without evictions: the largest sequence number of each client.\<close>

definition knows :: "request list \<Rightarrow> kv \<Rightarrow> bool" where
  "knows seen m \<longleftrightarrow> kv_ok m \<and> fst ` set (sessions m) \<subseteq> rq_client ` set seen
     \<and> (\<forall>c q. c \<noteq> [] \<and> 0 < q \<longrightarrow> (session_result c q m \<noteq> None) = list_ex (\<lambda>p. rq_client p = c \<and> q \<le> rq_seq p) seen)"

lemma keys_dget: "fst ` set d = {k. dget d k \<noteq> None}"
  by (auto simp: dget_def map_of_eq_None_iff)

lemma length_keys: "wf_dict d \<Longrightarrow> length d = card {k. dget d k \<noteq> None}"
  unfolding keys_dget [symmetric] using distinct_card [of "map fst d"] by (simp add: wf_dict_def)

text \<open>An entry whose client fits into the table: either its request is known, or it becomes so.\<close>

lemma sessions_fresh:
  assumes ok: "kv_ok m" and t: "tracked e" "session_result (client_id e) (seq_num e) m = None"
    and l: "logged e q" and k: "insert (client_id e) (fst ` set (sessions m)) \<subseteq> C" "finite C" "card C \<le> max_sessions m"
  shows "\<exists>s. se_seq s = seq_num e
    \<and> dget (sessions (fst (apply_entry e m))) = (dget (sessions m))(client_id e \<mapsto> s)"
proof -
  let ?d = "\<lambda>s. dmove_to_end (dset (sessions m) (client_id e) s) (client_id e)"
  have wf: "wf_dict (sessions m)" using ok by (simp add: kv_ok_def)
  have g: "dget (?d s) = (dget (sessions m))(client_id e \<mapsto> s)" for s by (auto simp: fun_eq_iff dict_simps)
  have "length (?d s) \<le> max_sessions m" for s
  proof -
    have "{x. dget (?d s) x \<noteq> None} \<subseteq> C" unfolding g using k(1) by (auto simp: keys_dget)
    then have "card {x. dget (?d s) x \<noteq> None} \<le> card C" by (rule card_mono [OF k(2)])
    moreover have "wf_dict (?d s)" using wf by simp
    ultimately show ?thesis using k(3) by (simp only: length_keys)
  qed
  then have ev: "evict (max_sessions m) (?d s) = ?d s" for s by (simp add: evict_drop del: evict.simps)
  have "op_type e = op_name (rq_op q)" "data e = op_data (rq_op q)" using l by (simp_all add: logged_def)
  from cells_op(2) [OF ok this] obtain m' r where a: "apply_op e m = (m', Inr r)" by (cases "apply_op e m") auto
  with sessions_op [of e m] have "sessions m' = sessions m" "max_sessions m' = max_sessions m" by simp_all
  with t a have "sessions (fst (apply_entry e m)) = ?d \<lparr>se_seq = seq_num e, se_result = r\<rparr>"
    using ev by (simp add: apply_entry_def remember_def del: evict.simps)
  with g [of "\<lparr>se_seq = seq_num e, se_result = r\<rparr>"] show ?thesis by (metis session.select_convs(1))
qed

lemma outdated_known:
  assumes "knows seen m" "logged e q"
  shows "outdated seen q \<longleftrightarrow> tracked e \<and> session_result (client_id e) (seq_num e) m \<noteq> None"
proof -
  have "rq_client q \<noteq> [] \<and> 0 < rq_seq q \<Longrightarrow> (session_result (rq_client q) (rq_seq q) m \<noteq> None)
      = list_ex (\<lambda>p. rq_client p = rq_client q \<and> rq_seq q \<le> rq_seq p) seen"
    using assms(1) by (simp add: knows_def del: not_None_eq)
  with assms(2) show ?thesis unfolding outdated_def tracked_def logged_def by metis
qed

lemma knows_entry:
  assumes K: "knows seen m" and l: "logged e q" and c: "card (rq_client ` set (seen @ [q])) \<le> max_sessions m"
  shows "knows (seen @ [q]) (fst (apply_entry e m))"
proof -
  let ?m = "fst (apply_entry e m)"
  have ok: "kv_ok m" and sub: "fst ` set (sessions m) \<subseteq> rq_client ` set seen"
    and known: "\<And>c q. c \<noteq> [] \<Longrightarrow> 0 < q \<Longrightarrow> (session_result c q m \<noteq> None) = list_ex (\<lambda>p. rq_client p = c \<and> q \<le> rq_seq p) seen"
    using K by (auto simp: knows_def)
  have q: "client_id e = rq_client q" "seq_num e = rq_seq q" using l by (auto simp: logged_def)
  show ?thesis
  proof (cases "tracked e \<and> session_result (client_id e) (seq_num e) m = None")
    case True
    have "insert (client_id e) (fst ` set (sessions m)) \<subseteq> rq_client ` set (seen @ [q])" using sub q by auto
    from sessions_fresh [OF ok conjunct1 [OF True] conjunct2 [OF True] l this _ c]
    obtain s where s: "se_seq s = rq_seq q" "dget (sessions ?m) = (dget (sessions m))(rq_client q \<mapsto> s)"
      unfolding q by auto
    have "fst ` set (sessions ?m) \<subseteq> rq_client ` set (seen @ [q])"
      using sub unfolding keys_dget s(2) by auto
    moreover have "(session_result c x ?m \<noteq> None) = list_ex (\<lambda>p. rq_client p = c \<and> x \<le> rq_seq p) (seen @ [q])"
      if "c \<noteq> []" "0 < x" for c x
    proof (cases "c = rq_client q")
      case False
      then have "session_result c x ?m = session_result c x m" by (simp add: session_result_def s(2))
      with known [OF that] False show ?thesis by simp
    next
      case c: True
      have "\<not> list_ex (\<lambda>p. rq_client p = c \<and> rq_seq q \<le> rq_seq p) seen"
        using known [of c "rq_seq q"] True that c q by (auto simp: tracked_def)
      then have "list_ex (\<lambda>p. rq_client p = c \<and> x \<le> rq_seq p) seen \<Longrightarrow> x \<le> rq_seq q"
        by (fastforce simp: list_ex_iff)
      with s c show ?thesis by (auto simp: session_result_def)
    qed
    ultimately show ?thesis using kv_ok_entry [OF ok] by (simp add: knows_def)
  next
    case False
    have "sessions ?m = sessions m" using sessions_entry [of e m] False by blast
    then have sr: "session_result c x ?m = session_result c x m" for c x by (simp add: session_result_def)
    have "list_ex (\<lambda>p. rq_client p = c \<and> x \<le> rq_seq p) seen"
      if "c \<noteq> []" "0 < x" "rq_client q = c" "x \<le> rq_seq q" for c x
    proof -
      have "list_ex (\<lambda>p. rq_client p = c \<and> rq_seq q \<le> rq_seq p) seen"
        using False that known [of c "rq_seq q"] q by (auto simp: tracked_def)
      with that(4) show ?thesis by (fastforce simp: list_ex_iff)
    qed
    then show ?thesis using K kv_ok_entry [OF ok] \<open>sessions ?m = sessions m\<close> known
      by (auto simp: knows_def sr)
  qed
qed

lemma cells_entry_once:
  assumes "knows seen m" "logged e q"
  shows "cells (fst (apply_entry e m))
      = (if outdated seen q then cells m else (cells m)(rq_key q := fst (spec_op (rq_op q) (cells m (rq_key q)))))"
proof -
  have ok: "kv_ok m" using assms(1) by (simp add: knows_def)
  have "op_type e = op_name (rq_op q)" "data e = op_data (rq_op q)" "filename e = rq_key q"
    using assms(2) by (auto simp: logged_def)
  with cells_op [OF ok this(1,2)] outdated_known [OF assms] show ?thesis
    by (cases "apply_op e m") (auto simp: apply_entry_def split: option.splits)
qed

lemma run_once_cells:
  assumes "list_all2 logged es qs" "knows seen m" "card (rq_client ` set (seen @ qs)) \<le> max_sessions m"
  shows "cells (run_kv es m) = run_once seen qs (cells m)"
  using assms
proof (induction es qs arbitrary: seen m rule: list_all2_induct)
  case (Cons e es q qs)
  have "card (rq_client ` set (seen @ [q])) \<le> card (rq_client ` set (seen @ q # qs))" by (rule card_mono) auto
  then have "knows (seen @ [q]) (fst (apply_entry e m))" using Cons by (intro knows_entry) auto
  from Cons.IH [OF this] Cons.prems Cons.hyps show ?case
    by (simp add: cells_entry_once)
qed simp



section \<open>Finding the primary\<close>

lemma rc_connect_simps [simp]:
  "a \<in> set (rc_conns (rc_connect a c))" "rc_max_retries (rc_connect a c) = rc_max_retries c" "rc_primary (rc_connect a c) = rc_primary c"
  by (simp_all add: rc_connect_def)

lemma discover_finds:
  assumes "P \<in> set as" "P \<noteq> []" "set as \<subseteq> set (rc_conns c)" "I s"
    and i: "\<And>a s s' x. I s \<Longrightarrow> info a s = (s', x) \<Longrightarrow> I s' \<and> (x = Some P \<or> x = None \<and> a \<noteq> P)"
  shows "\<exists>s'. discover_from info as c s = (rc_connect P c, s', P) \<and> I s'"
  using assms(1,3,4)
proof (induction as arbitrary: s)
  case (Cons a as)
  obtain s1 x where x: "info a s = (s1, x)" by fastforce
  from i [OF Cons.prems(3) x] have "I s1" "x = Some P \<or> x = None \<and> a \<noteq> P" by blast+
  with x Cons.prems Cons.IH [of s1] assms(2) show ?case by auto
qed simp

lemma discover_primary_finds:
  assumes "P \<in> set (rc_servers c)" "P \<noteq> []" "set (rc_servers c) \<subseteq> set (rc_conns c)" "I s"
    and "\<And>a s s' x. I s \<Longrightarrow> info a s = (s', x) \<Longrightarrow> I s' \<and> (x = Some P \<or> x = None \<and> a \<noteq> P)"
  shows "\<exists>s'. discover_primary info (c, s) = ((rc_connect P c)\<lparr>rc_primary := P\<rparr>, s') \<and> I s'"
  using discover_finds [where I = I and info = info, OF assms(1-3), OF assms(4,5)] by (fastforce simp: discover_primary_def)

lemma redirect_primary:
  assumes "require_primary s = Some (Status code d)"
  shows "code = ''FAILED_PRECONDITION''" "handle_not_primary d c = ((rc_connect (rp_primary s) c)\<lparr>rc_primary := rp_primary s\<rparr>, True)"
proof -
  have d: "d = ''NOT_PRIMARY:'' @ rp_primary s" and "code = ''FAILED_PRECONDITION''"
    using assms by (auto simp: require_primary_def split: if_splits)
  then show "code = ''FAILED_PRECONDITION''" by simp
  have "split_max 1 (CHR '':'') d = [''NOT_PRIMARY'', rp_primary s]"
    using split_at_char_append [of "CHR '':''" "''NOT_PRIMARY''" "rp_primary s"] by (simp add: d)
  then show "handle_not_primary d c = ((rc_connect (rp_primary s) c)\<lparr>rc_primary := rp_primary s\<rparr>, True)"
    by (simp add: handle_not_primary_def d startswith_def Let_def)
qed

text \<open>
  The client of the primary-backup servers finds the primary: if \<open>P\<close> is the primary, is one of the
  configured servers and answers, every server that can be asked names \<open>P\<close>, and the server the client
  takes for the primary is \<open>P\<close>, refuses as a backup of \<open>P\<close> does, or cannot be reached, then a call
  returns the answer of \<open>P\<close> on its first or second attempt, and the client remembers \<open>P\<close>.
\<close>

lemma rep_reaches_primary:
  assumes "P \<noteq> []" "P \<in> set (rc_servers c)" "set (rc_servers c) \<subseteq> set (rc_conns c)" "rc_primary c \<in> set (rc_conns c)"
    and "1 \<le> rc_max_retries c" "I s" and P: "\<And>s. I s \<Longrightarrow> \<exists>s' r. rpc P s = (s', Answered r) \<and> ok r"
    and i: "\<And>a s s' x. I s \<Longrightarrow> info a s = (s', x) \<Longrightarrow> I s' \<and> (x = Some P \<or> x = None \<and> a \<noteq> P)"
    and e: "rc_primary c \<noteq> P \<Longrightarrow> \<exists>s' code d. rpc (rc_primary c) s = (s', Status code d) \<and> I s'
      \<and> (rep_transient code \<or> (\<exists>t. require_primary t = Some (Status code d :: 'r call) \<and> rp_primary t = P))"
  shows "\<exists>c' s1 s2 r. rep_execute ok msg shown info rpc (c, s) = ((c', s2), Inr (r :: 'r)) \<and> I s1 \<and> rpc P s1 = (s2, Answered r)
    \<and> rc_primary c' = P"
proof -
  obtain n where n: "rc_max_retries c + 1 = Suc (Suc n)" using assms(5) by (cases "rc_max_retries c") auto
  have at: "\<exists>s2 r. rep_execute_from ok msg shown info rpc (Suc m) k err P (c', s1) = ((c', s2), Inr r) \<and> rpc P s1 = (s2, Answered r)"
    if "I s1" "P \<in> set (rc_conns c')" for m k err c' s1 using P [OF that(1)] that(2) by auto
  show ?thesis
  proof (cases "rc_primary c = P")
    case True
    obtain s2 r where "rep_execute_from ok msg shown info rpc (Suc (Suc n)) 0 None P (c, s) = ((c, s2), Inr r)" "rpc P s = (s2, Answered r)"
      using at [of s c "Suc n" 0 None] True assms(4,6) by auto
    with True assms(6) show ?thesis unfolding rep_execute_def fst_conv n by auto
  next
    case False
    then obtain s' code d where s: "rpc (rc_primary c) s = (s', Status code d)" "I s'"
      "rep_transient code \<or> (\<exists>t. require_primary t = Some (Status code d :: 'r call) \<and> rp_primary t = P)" using e by blast
    have "\<exists>s1. I s1 \<and> rep_execute ok msg shown info rpc (c, s)
        = rep_execute_from ok msg shown info rpc (Suc n) 1 (Some (shown code d)) P ((rc_connect P c)\<lparr>rc_primary := P\<rparr>, s1)"
      using s(3)
    proof
      assume "\<exists>t. require_primary t = Some (Status code d :: 'r call) \<and> rp_primary t = P"
      then obtain t where q: "require_primary t = Some (Status code d :: 'r call)" "rp_primary t = P" by blast
      from redirect_primary [OF q(1)] s(1,2) assms(4) show ?thesis
        unfolding rep_execute_def fst_conv n rep_execute_from.simps(2) [of _ _ _ _ _ "Suc n"]
        by (intro exI [of _ s']) (simp add: q(2) del: rep_execute_from.simps)
    next
      assume t: "rep_transient code"
      have "\<exists>s1. discover_primary info (c, s') = ((rc_connect P c)\<lparr>rc_primary := P\<rparr>, s1) \<and> I s1"
        by (rule discover_primary_finds [where I = I, OF assms(2,1,3) s(2)]) (rule i)
      then obtain s1 where s1: "discover_primary info (c, s') = ((rc_connect P c)\<lparr>rc_primary := P\<rparr>, s1)" "I s1" by blast
      from t have "code \<noteq> ''FAILED_PRECONDITION''" by (auto simp: rep_transient_def)
      with t s(1) s1 assms(4,5) show ?thesis
        unfolding rep_execute_def fst_conv n rep_execute_from.simps(2) [of _ _ _ _ _ "Suc n"]
        by (intro exI [of _ s1]) (simp add: Let_def del: rep_execute_from.simps)
    qed
    then obtain s1 where s1: "I s1" "rep_execute ok msg shown info rpc (c, s)
        = rep_execute_from ok msg shown info rpc (Suc n) 1 (Some (shown code d)) P ((rc_connect P c)\<lparr>rc_primary := P\<rparr>, s1)" by blast
    from at [OF s1(1), of "(rc_connect P c)\<lparr>rc_primary := P\<rparr>" n 1 "Some (shown code d)"] s1 show ?thesis by force
  qed
qed

end
