(* ===== verification/Client_Cache.thy ===== *)
theory Client_Cache
  imports Client_Rpc
begin

text \<open>
  The file cache of the client stubs: \<open>part1_filesystem/fs/client_stub.py\<close>, and with small
  differences \<open>raft_client_stub.py\<close>, \<open>replication/client_stub.py\<close> and \<open>fs_wo_grpc/client_stub.py\<close>.
  A cached file is named after the file and its version; handles are edited in place in the cache
  and written back as a whole by \<open>close\<close>.

  The RPCs are arguments: functions on a state \<open>'s\<close> (a connection, or a server itself) that return
  the new state and a response or an exception. Two absolute paths are compared by what they name.
\<close>

section \<open>Local files\<close>

text \<open>\<open>f.seek(off); f.read(n)\<close> and \<open>f.seek(off); f.write(b)\<close> on a file with contents \<open>c\<close>.\<close>

definition seek_error :: exn where
  "seek_error = PyException ''[Errno 22] Invalid argument''"

definition read_at :: "int \<Rightarrow> int \<Rightarrow> bytes \<Rightarrow> exn + bytes" where
  "read_at off n c =
     (if off < 0 then Inl seek_error
      else Inr (if n < 0 then drop (nat off) c else take (nat n) (drop (nat off) c)))"

definition write_at :: "int \<Rightarrow> bytes \<Rightarrow> bytes \<Rightarrow> exn + bytes" where
  "write_at off b c =
     (if off < 0 then Inl seek_error
      else if b = [] then Inr c
      else Inr (take (nat off) c @ replicate (nat off - length c) (CHR 0x00) @ b @ drop (nat off + length b) c))"

definition missing_file :: "string \<Rightarrow> exn" where
  "missing_file p = os_error ''[Errno 2] No such file or directory'' p"

text \<open>\<open>os.replace(p, q)\<close>\<close>

definition replace_file :: "os \<Rightarrow> string \<Rightarrow> string \<Rightarrow> disk \<Rightarrow> exn + disk" where
  "replace_file os p q d =
     (case read_file os p d of
        Inl x \<Rightarrow> Inl x
      | Inr b \<Rightarrow> (case os p of File l \<Rightarrow> write_file os q b (dpop d l) | _ \<Rightarrow> Inl (missing_file p)))"

text \<open>\<open>os.remove(p)\<close>; \<open>Inr None\<close> stands for \<open>FileNotFoundError\<close>.\<close>

definition remove_file :: "os \<Rightarrow> string \<Rightarrow> disk \<Rightarrow> exn + disk option" where
  "remove_file os p d =
     (case os p of
        File l \<Rightarrow> Inr (if dget d l = None then None else Some (dpop d l))
      | Directory \<Rightarrow> Inl (os_error ''[Errno 21] Is a directory'' p)
      | Missing \<Rightarrow> Inr None)"

section \<open>The cache\<close>

record active =
  ah_path :: string
  ah_file :: string
  ah_mode :: string

record cache =
  ca_dir :: string
  ca_disk :: disk
  ca_meta :: "(string, int \<times> string) dict"
  ca_active :: "(int, active) dict"

definition new_cache :: "string \<Rightarrow> disk \<Rightarrow> cache" where
  "new_cache dir d = \<lparr>ca_dir = dir, ca_disk = d, ca_meta = [], ca_active = []\<rparr>"

definition cache_name :: "string \<Rightarrow> int \<Rightarrow> string" where
  "cache_name f v = f @ ''_v'' @ int_str v @ ''.bin''"

definition cache_path :: "cache \<Rightarrow> string \<Rightarrow> int \<Rightarrow> string" where
  "cache_path c f v = path_join (ca_dir c) (cache_name f v)"

definition endswith :: "string \<Rightarrow> string \<Rightarrow> bool" where
  "endswith s p \<longleftrightarrow> drop (length s - length p) s = p"

text \<open>\<open>names\<close>: what \<open>os.listdir\<close> returned.\<close>

fun delete_old :: "os \<Rightarrow> string list \<Rightarrow> string \<Rightarrow> string \<Rightarrow> cache \<Rightarrow> cache \<times> exn option" where
  "delete_old os [] f keep c = (c, None)"
| "delete_old os (e # es) f keep c =
     (let p = path_join (ca_dir c) e in
      if startswith e (f @ ''_v'') \<and> endswith e ''.bin'' \<and> os p \<noteq> os keep then
        (case remove_file os p (ca_disk c) of
           Inl x \<Rightarrow> (c, Some x)
         | Inr None \<Rightarrow> delete_old os es f keep c
         | Inr (Some d) \<Rightarrow> delete_old os es f keep (c\<lparr>ca_disk := d\<rparr>))
      else delete_old os es f keep c)"

section \<open>Open, read and write\<close>

text \<open>
  Whether to fetch: \<open>Inl\<close> if asking for the version raised. The file of the cache must exist and
  have the version of the server.
\<close>

definition cache_check ::
  "os \<Rightarrow> ('s \<Rightarrow> 's \<times> (exn + int)) \<Rightarrow> string \<Rightarrow> cache \<Rightarrow> 's \<Rightarrow> 's \<times> (exn + bool)" where
  "cache_check os tv f c s =
     (case dget (ca_meta c) f of
        None \<Rightarrow> (s, Inr True)
      | Some (v, p) \<Rightarrow>
          (case tv s of
             (s', Inl x) \<Rightarrow> (s', Inl x)
           | (s', Inr sv) \<Rightarrow> (s', Inr (\<not> (sv = v \<and> path_exists os (ca_disk c) p)))))"

definition cache_store ::
  "os \<Rightarrow> string list \<Rightarrow> string \<Rightarrow> string \<Rightarrow> open_response \<Rightarrow> cache \<Rightarrow> cache \<times> (exn + int)" where
  "cache_store os names f mode r c =
     (let p = cache_path c f (opn_version r) in
      case write_file os p (opn_data r) (ca_disk c) of
        Inl x \<Rightarrow> (c, Inl x)
      | Inr d \<Rightarrow>
          (case delete_old os names f p (c\<lparr>ca_disk := d, ca_meta := dset (ca_meta c) f (opn_version r, p)\<rparr>) of
             (c', Some x) \<Rightarrow> (c', Inl x)
           | (c', None) \<Rightarrow>
               (c'\<lparr>ca_active := dset (ca_active c') (opn_handle r) \<lparr>ah_path = p, ah_file = f, ah_mode = mode\<rparr>\<rparr>,
                Inr (opn_handle r))))"

definition cache_hit :: "string \<Rightarrow> string \<Rightarrow> open_response \<Rightarrow> cache \<Rightarrow> cache \<times> (exn + int)" where
  "cache_hit f mode r c =
     (case dget (ca_meta c) f of
        None \<Rightarrow> (c, Inl (KeyError f))
      | Some (v, p) \<Rightarrow>
          (c\<lparr>ca_active := dset (ca_active c) (opn_handle r) \<lparr>ah_path = p, ah_file = f, ah_mode = mode\<rparr>\<rparr>, Inr (opn_handle r)))"

definition cache_open ::
  "os \<Rightarrow> string list \<Rightarrow> ('s \<Rightarrow> 's \<times> (exn + int)) \<Rightarrow> (bool \<Rightarrow> 's \<Rightarrow> 's \<times> (exn + open_response)) \<Rightarrow> string \<Rightarrow> string
   \<Rightarrow> cache \<Rightarrow> 's \<Rightarrow> cache \<times> 's \<times> (exn + int)" where
  "cache_open os names tv op f mode c s =
     (if mode \<noteq> ''r'' \<and> mode \<noteq> ''w'' then (c, s, Inl (ValueError mode_error))
      else
        (case cache_check os tv f c s of
           (s1, Inl x) \<Rightarrow> (c, s1, Inl x)
         | (s1, Inr fetch) \<Rightarrow>
             (case op fetch s1 of
                (s2, Inl x) \<Rightarrow> (c, s2, Inl x)
              | (s2, Inr r) \<Rightarrow>
                  (let (c', h) = (if fetch then cache_store os names f mode r c else cache_hit f mode r c)
                   in (c', s2, h)))))"

definition bad_handle :: exn where
  "bad_handle = PyException ''Invalid file handle''"

definition cache_read :: "os \<Rightarrow> int \<Rightarrow> int \<Rightarrow> int \<Rightarrow> cache \<Rightarrow> exn + bytes" where
  "cache_read os h off n c =
     (case dget (ca_active c) h of
        None \<Rightarrow> Inl bad_handle
      | Some a \<Rightarrow> (case read_file os (ah_path a) (ca_disk c) of Inl x \<Rightarrow> Inl x | Inr b \<Rightarrow> read_at off n b))"

definition cache_write :: "os \<Rightarrow> int \<Rightarrow> int \<Rightarrow> data \<Rightarrow> cache \<Rightarrow> cache \<times> (exn + nat)" where
  "cache_write os h off dt c =
     (case dget (ca_active c) h of
        None \<Rightarrow> (c, Inl bad_handle)
      | Some a \<Rightarrow>
          (case read_file os (ah_path a) (ca_disk c) of
             Inl x \<Rightarrow> (c, Inl x)
           | Inr b \<Rightarrow>
               (case write_at off (as_bytes dt) b of
                  Inl x \<Rightarrow> (c, Inl x)
                | Inr b' \<Rightarrow>
                    (case write_file os (ah_path a) b' (ca_disk c) of
                       Inl x \<Rightarrow> (c, Inl x)
                     | Inr d \<Rightarrow> (c\<lparr>ca_disk := d\<rparr>, Inr (length (as_bytes dt)))))))"

text \<open>\<open>replication/client_stub.py\<close> truncates the file on a write at offset 0 through a write handle.\<close>

definition cache_write_trunc :: "os \<Rightarrow> int \<Rightarrow> int \<Rightarrow> data \<Rightarrow> cache \<Rightarrow> cache \<times> (exn + nat)" where
  "cache_write_trunc os h off dt c =
     (case dget (ca_active c) h of
        None \<Rightarrow> (c, Inl bad_handle)
      | Some a \<Rightarrow>
          if off = 0 \<and> ah_mode a = ''w'' then
            (case write_file os (ah_path a) (as_bytes dt) (ca_disk c) of
               Inl x \<Rightarrow> (c, Inl x)
             | Inr d \<Rightarrow> (c\<lparr>ca_disk := d\<rparr>, Inr (length (as_bytes dt))))
          else cache_write os h off dt c)"

section \<open>Close\<close>

text \<open>The cached file, just written back, becomes the cached file of the new version.\<close>

definition move_to :: "os \<Rightarrow> string \<Rightarrow> string \<Rightarrow> disk \<Rightarrow> exn + disk" where
  "move_to os p q d =
     (if os p = os q then Inr d
      else (case (if path_exists os d q then remove_file os q d else Inr (Some d)) of
              Inl x \<Rightarrow> Inl x
            | Inr None \<Rightarrow> Inl (missing_file q)
            | Inr (Some d') \<Rightarrow> replace_file os p q d'))"

definition cache_renew :: "os \<Rightarrow> string list \<Rightarrow> string \<Rightarrow> string \<Rightarrow> int \<Rightarrow> cache \<Rightarrow> cache \<times> (exn + bool)" where
  "cache_renew os names p f v c =
     (let q = cache_path c f v in
      case move_to os p q (ca_disk c) of
        Inl x \<Rightarrow> (c, Inl x)
      | Inr d \<Rightarrow>
          (case delete_old os names f q (c\<lparr>ca_disk := d, ca_meta := dset (ca_meta c) f (v, q)\<rparr>) of
             (c', Some x) \<Rightarrow> (c', Inl x)
           | (c', None) \<Rightarrow> (c', Inr True)))"

text \<open>This stub forgets the handle once the server has answered; the others do before they ask.\<close>

definition cache_close ::
  "os \<Rightarrow> string list \<Rightarrow> (bytes \<Rightarrow> 's \<Rightarrow> 's \<times> (exn + close_response)) \<Rightarrow> int \<Rightarrow> cache \<Rightarrow> 's \<Rightarrow> cache \<times> 's \<times> (exn + bool)" where
  "cache_close os names cl h c s =
     (case dget (ca_active c) h of
        None \<Rightarrow> (c, s, Inl bad_handle)
      | Some a \<Rightarrow>
          (case read_file os (ah_path a) (ca_disk c) of
             Inl x \<Rightarrow> (c, s, Inl x)
           | Inr b \<Rightarrow>
               (case cl b s of
                  (s', Inl x) \<Rightarrow> (c, s', Inl x)
                | (s', Inr r) \<Rightarrow>
                    (let c1 = c\<lparr>ca_active := dpop (ca_active c) h\<rparr>;
                         (c2, res) = (if clo_version r > 0 then cache_renew os names (ah_path a) (ah_file a) (clo_version r) c1
                                      else (c1, Inr True))
                     in (c2, s', res)))))"

definition cache_close_early ::
  "os \<Rightarrow> string list \<Rightarrow> (bytes \<Rightarrow> 's \<Rightarrow> 's \<times> (exn + close_response)) \<Rightarrow> int \<Rightarrow> cache \<Rightarrow> 's \<Rightarrow> cache \<times> 's \<times> (exn + bool)" where
  "cache_close_early os names cl h c s =
     (case dget (ca_active c) h of
        None \<Rightarrow> (c, s, Inl bad_handle)
      | Some a \<Rightarrow>
          (let c1 = c\<lparr>ca_active := dpop (ca_active c) h\<rparr> in
           case read_file os (ah_path a) (ca_disk c1) of
             Inl x \<Rightarrow> (c1, s, Inl x)
           | Inr b \<Rightarrow>
               (case cl b s of
                  (s', Inl x) \<Rightarrow> (c1, s', Inl x)
                | (s', Inr r) \<Rightarrow>
                    (let (c2, res) = (if clo_version r > 0 then cache_renew os names (ah_path a) (ah_file a) (clo_version r) c1
                                      else (c1, Inr True))
                     in (c2, s', res)))))"

section \<open>The other stubs' copies\<close>

text \<open>
  The stub of the Raft cluster and the one of the primary-backup servers have the same code for reading,
  for writing (the Raft stub) and for the names and the clean-up of cached files.
\<close>

definition rs_cache_path :: "cache \<Rightarrow> string \<Rightarrow> int \<Rightarrow> string" where
  "rs_cache_path = cache_path"

definition rs_delete_old :: "os \<Rightarrow> string list \<Rightarrow> string \<Rightarrow> string \<Rightarrow> cache \<Rightarrow> cache \<times> exn option" where
  "rs_delete_old = delete_old"

definition rs_read :: "os \<Rightarrow> int \<Rightarrow> int \<Rightarrow> int \<Rightarrow> cache \<Rightarrow> exn + bytes" where
  "rs_read = cache_read"

definition rs_write :: "os \<Rightarrow> int \<Rightarrow> int \<Rightarrow> data \<Rightarrow> cache \<Rightarrow> cache \<times> (exn + nat)" where
  "rs_write = cache_write"

definition rep_cache_path :: "cache \<Rightarrow> string \<Rightarrow> int \<Rightarrow> string" where
  "rep_cache_path = cache_path"

definition rep_delete_old :: "os \<Rightarrow> string list \<Rightarrow> string \<Rightarrow> string \<Rightarrow> cache \<Rightarrow> cache \<times> exn option" where
  "rep_delete_old = delete_old"

definition rep_read :: "os \<Rightarrow> int \<Rightarrow> int \<Rightarrow> int \<Rightarrow> cache \<Rightarrow> exn + bytes" where
  "rep_read = cache_read"

end
