(* ===== verification/Client_Stubs.thy ===== *)
theory Client_Stubs
  imports Client_Cache
begin

text \<open>
  The client stubs of the file servers: the calls of \<open>part1_filesystem/fs/client_stub.py\<close> on its one
  channel, of \<open>raft_client_stub.py\<close> through the loop that follows the leader, and of
  \<open>replication/client_stub.py\<close> through the loop that looks for the primary.
\<close>

record version_response =
  ver_version :: int
  ver_success :: bool
  ver_error :: string

section \<open>One server\<close>

definition fsc_execute_rpc :: "('r \<Rightarrow> bool) \<Rightarrow> ('r \<Rightarrow> string) \<Rightarrow> 'r call \<Rightarrow> exn + 'r" where
  "fsc_execute_rpc ok msg r =
     (case r of
        Answered x \<Rightarrow> if ok x then Inr x else Inl (PyException (msg x))
      | Status code details \<Rightarrow> Inl (PyException (''Network/gRPC Error: '' @ details)))"

text \<open>\<open>via\<close>: a call on the state \<open>'s\<close> whose answer goes through \<open>_execute_rpc\<close>, and a part of the response.\<close>

definition via :: "('s \<Rightarrow> 's \<times> 'r call) \<Rightarrow> ('r \<Rightarrow> bool) \<Rightarrow> ('r \<Rightarrow> string) \<Rightarrow> ('r \<Rightarrow> 'a) \<Rightarrow> 's \<Rightarrow> 's \<times> (exn + 'a)" where
  "via call ok msg get s =
     (let (s', r) = call s in (s', case fsc_execute_rpc ok msg r of Inl x \<Rightarrow> Inl x | Inr y \<Rightarrow> Inr (get y)))"

definition fsc_create :: "(string \<Rightarrow> 's \<Rightarrow> 's \<times> create_response call) \<Rightarrow> string \<Rightarrow> 's \<Rightarrow> 's \<times> (exn + int)" where
  "fsc_create rpc f = via (rpc f) cre_success cre_error cre_handle"

definition fsc_test_version :: "(string \<Rightarrow> 's \<Rightarrow> 's \<times> version_response call) \<Rightarrow> string \<Rightarrow> 's \<Rightarrow> 's \<times> (exn + int)" where
  "fsc_test_version rpc f = via (rpc f) ver_success ver_error ver_version"

definition fsc_open ::
  "os \<Rightarrow> string list \<Rightarrow> (string \<Rightarrow> 's \<Rightarrow> 's \<times> version_response call)
   \<Rightarrow> (string \<Rightarrow> string \<Rightarrow> bool \<Rightarrow> 's \<Rightarrow> 's \<times> open_response call) \<Rightarrow> string \<Rightarrow> string \<Rightarrow> cache \<Rightarrow> 's
   \<Rightarrow> cache \<times> 's \<times> (exn + int)" where
  "fsc_open os names tv op f mode =
     cache_open os names (fsc_test_version tv f) (\<lambda>fetch. via (op f mode fetch) opn_success opn_error (\<lambda>r. r)) f mode"

definition fsc_close ::
  "os \<Rightarrow> string list \<Rightarrow> (int \<Rightarrow> bytes \<Rightarrow> 's \<Rightarrow> 's \<times> close_response call) \<Rightarrow> int \<Rightarrow> cache \<Rightarrow> 's \<Rightarrow> cache \<times> 's \<times> (exn + bool)" where
  "fsc_close os names cl h = cache_close os names (\<lambda>b. via (cl h b) clo_success clo_error (\<lambda>r. r)) h"

subsection \<open>Locks\<close>

record lock_answer =
  la_success :: bool
  la_error :: string
  la_expires :: int

record unlock_answer =
  ua_success :: bool
  ua_error :: string

record notes_answer =
  na_success :: bool
  na_error :: string
  na_messages :: "string list"

definition fsc_lock_file ::
  "(string \<Rightarrow> int \<Rightarrow> string \<Rightarrow> 's \<Rightarrow> 's \<times> lock_answer call) \<Rightarrow> string \<Rightarrow> string \<Rightarrow> int \<Rightarrow> 's \<Rightarrow> 's \<times> (exn + int)" where
  "fsc_lock_file rpc client f secs = via (rpc f secs client) la_success la_error la_expires"

definition fsc_unlock_file ::
  "(string \<Rightarrow> string \<Rightarrow> 's \<Rightarrow> 's \<times> unlock_answer call) \<Rightarrow> string \<Rightarrow> string \<Rightarrow> 's \<Rightarrow> 's \<times> (exn + bool)" where
  "fsc_unlock_file rpc client f = via (rpc f client) ua_success ua_error (\<lambda>_. True)"

definition fsc_get_lock_notifications ::
  "(string \<Rightarrow> 's \<Rightarrow> 's \<times> notes_answer call) \<Rightarrow> string \<Rightarrow> 's \<Rightarrow> 's \<times> (exn + string list)" where
  "fsc_get_lock_notifications rpc client = via (rpc client) na_success na_error na_messages"

text \<open>
  Polling: \<open>clock k\<close> is the \<open>k\<close>-th reading of the clock. \<open>None\<close>: it never returns, which only a clock
  that stands still can cause.
\<close>

partial_function (option) poll_notes ::
  "(nat \<Rightarrow> int) \<Rightarrow> (nat \<Rightarrow> 's \<Rightarrow> 's \<times> (exn + string list)) \<Rightarrow> int \<Rightarrow> nat \<Rightarrow> 's \<Rightarrow> ('s \<times> (exn + string list)) option" where
  "poll_notes clock get deadline k s =
     (if clock k < deadline then
        (case get k s of
           (s', Inl x) \<Rightarrow> Some (s', Inl x)
         | (s', Inr ms) \<Rightarrow> if ms \<noteq> [] then Some (s', Inr ms) else poll_notes clock get deadline (Suc k) s')
      else Some (s, Inr []))"

definition fsc_wait_for_lock_notification ::
  "(nat \<Rightarrow> int) \<Rightarrow> (nat \<Rightarrow> 's \<Rightarrow> 's \<times> (exn + string list)) \<Rightarrow> int \<Rightarrow> 's \<Rightarrow> ('s \<times> (exn + string list)) option" where
  "fsc_wait_for_lock_notification clock get timeout s = poll_notes clock get (clock 0 + timeout) 1 s"

section \<open>The Raft cluster\<close>

definition rs_execute ::
  "('r \<Rightarrow> bool) \<Rightarrow> ('r \<Rightarrow> string) \<Rightarrow> (string \<Rightarrow> string \<Rightarrow> string) \<Rightarrow> (nat \<Rightarrow> addr \<Rightarrow> 'r call) \<Rightarrow> conn \<Rightarrow> conn \<times> (exn + 'r)" where
  "rs_execute = execute"

definition rs_create ::
  "(string \<Rightarrow> string \<Rightarrow> string) \<Rightarrow> (nat \<Rightarrow> addr \<Rightarrow> string \<Rightarrow> string \<Rightarrow> int \<Rightarrow> create_response call) \<Rightarrow> string \<Rightarrow> conn
   \<Rightarrow> conn \<times> (exn + int)" where
  "rs_create shown env f c =
     (let (c1, seq) = next_seq c;
          (c2, r) = rs_execute cre_success cre_error shown (\<lambda>k a. env k a f (cn_client c) seq) c1
      in (c2, case r of Inl x \<Rightarrow> Inl x | Inr y \<Rightarrow> Inr (cre_handle y)))"

definition rs_test_version ::
  "(string \<Rightarrow> string \<Rightarrow> string) \<Rightarrow> (nat \<Rightarrow> addr \<Rightarrow> string \<Rightarrow> version_response call) \<Rightarrow> string \<Rightarrow> conn \<Rightarrow> conn \<times> (exn + int)" where
  "rs_test_version shown env f c =
     (let (c2, r) = rs_execute ver_success ver_error shown (\<lambda>k a. env k a f) c
      in (c2, case r of Inl x \<Rightarrow> Inl x | Inr y \<Rightarrow> Inr (ver_version y)))"

definition rs_open ::
  "os \<Rightarrow> string list \<Rightarrow> (string \<Rightarrow> string \<Rightarrow> string) \<Rightarrow> (nat \<Rightarrow> addr \<Rightarrow> string \<Rightarrow> version_response call)
   \<Rightarrow> (nat \<Rightarrow> addr \<Rightarrow> string \<Rightarrow> string \<Rightarrow> bool \<Rightarrow> open_response call) \<Rightarrow> string \<Rightarrow> string \<Rightarrow> cache \<Rightarrow> conn
   \<Rightarrow> cache \<times> conn \<times> (exn + int)" where
  "rs_open os names shown tv op f mode =
     cache_open os names (rs_test_version shown tv f)
       (\<lambda>fetch. rs_execute opn_success opn_error shown (\<lambda>k a. op k a f mode fetch)) f mode"

definition rs_close ::
  "os \<Rightarrow> string list \<Rightarrow> (string \<Rightarrow> string \<Rightarrow> string)
   \<Rightarrow> (nat \<Rightarrow> addr \<Rightarrow> int \<Rightarrow> bytes \<Rightarrow> string \<Rightarrow> int \<Rightarrow> close_response call) \<Rightarrow> int \<Rightarrow> cache \<Rightarrow> conn
   \<Rightarrow> cache \<times> conn \<times> (exn + bool)" where
  "rs_close os names shown cl h =
     cache_close_early os names
       (\<lambda>b c. let (c1, seq) = next_seq c
              in rs_execute clo_success clo_error shown (\<lambda>k a. cl k a h b (cn_client c) seq) c1) h"

section \<open>The primary-backup servers\<close>

definition rep_create ::
  "(string \<Rightarrow> string \<Rightarrow> string) \<Rightarrow> (addr \<Rightarrow> 's \<Rightarrow> 's \<times> addr option)
   \<Rightarrow> (addr \<Rightarrow> string \<Rightarrow> string \<Rightarrow> int \<Rightarrow> 's \<Rightarrow> 's \<times> create_response call) \<Rightarrow> string \<Rightarrow> rep_conn \<times> 's \<Rightarrow> (rep_conn \<times> 's) \<times> (exn + int)" where
  "rep_create shown info rpc f w =
     (let (c, seq) = rc_next_seq (fst w);
          (w', r) = rep_execute cre_success cre_error shown info (\<lambda>a. rpc a f (rc_client c) seq) (c, snd w)
      in (w', case r of Inl x \<Rightarrow> Inl x | Inr y \<Rightarrow> Inr (cre_handle y)))"

definition rep_open ::
  "os \<Rightarrow> string list \<Rightarrow> (string \<Rightarrow> string \<Rightarrow> string) \<Rightarrow> (addr \<Rightarrow> 's \<Rightarrow> 's \<times> addr option)
   \<Rightarrow> (addr \<Rightarrow> string \<Rightarrow> 's \<Rightarrow> 's \<times> int option call) \<Rightarrow> (addr \<Rightarrow> string \<Rightarrow> string \<Rightarrow> bool \<Rightarrow> 's \<Rightarrow> 's \<times> open_response call)
   \<Rightarrow> string \<Rightarrow> string \<Rightarrow> cache \<Rightarrow> rep_conn \<times> 's \<Rightarrow> cache \<times> (rep_conn \<times> 's) \<times> (exn + int)" where
  "rep_open os names shown info tv op f mode =
     cache_open os names (rep_test_version info (\<lambda>a. tv a f))
       (\<lambda>fetch. rep_execute opn_success opn_error shown info (\<lambda>a. op a f mode fetch)) f mode"

definition rep_close ::
  "os \<Rightarrow> string list \<Rightarrow> (string \<Rightarrow> string \<Rightarrow> string) \<Rightarrow> (addr \<Rightarrow> 's \<Rightarrow> 's \<times> addr option)
   \<Rightarrow> (addr \<Rightarrow> int \<Rightarrow> bytes \<Rightarrow> string \<Rightarrow> int \<Rightarrow> 's \<Rightarrow> 's \<times> close_response call) \<Rightarrow> int \<Rightarrow> cache \<Rightarrow> rep_conn \<times> 's
   \<Rightarrow> cache \<times> (rep_conn \<times> 's) \<times> (exn + bool)" where
  "rep_close os names shown info rpc h =
     cache_close_early os names
       (\<lambda>b w. let (c, seq) = rc_next_seq (fst w)
              in rep_execute clo_success clo_error shown info (\<lambda>a. rpc a h b (rc_client c) seq) (c, snd w)) h"

end
