(* ===== verification/Client_Cache_Theorems.thy ===== *)
theory Client_Cache_Theorems
  imports Client_Stubs Fs_Theorems
begin

text \<open>
  The client's cache is coherent: what a client opens has the contents the server had while it was
  being opened, whatever other clients did before and meanwhile, unless the client has edited its
  cached copy and not yet closed it successfully.
\<close>

section \<open>Local files\<close>

lemma remove_file_contents:
  assumes "remove_file os p d = Inr (Some d')"
  shows "contents os d' q = (if os q = os p then None else contents os d q)"
  using assms by (auto simp: remove_file_def contents_def split: loc.splits if_splits)

lemma remove_file_exists: "path_exists os d p \<Longrightarrow> remove_file os p d \<noteq> Inr None"
  by (auto simp: remove_file_def path_exists_def split: loc.splits)

lemma replace_file_contents:
  assumes "replace_file os p q d = Inr d'" "os p \<noteq> os q"
  shows "contents os d' r = (if os r = os q then contents os d p else if os r = os p then None else contents os d r)"
proof -
  from assms(1) obtain l b where l: "os p = File l" "dget d l = Some b" "write_file os q b (dpop d l) = Inr d'"
    by (auto simp: replace_file_def read_file_def split: sum.splits loc.splits option.splits)
  show ?thesis using l(1,2) assms(2) unfolding write_file_contents [OF l(3)]
    by (auto simp: contents_def split: loc.split)
qed

lemma delete_old_keeps:
  "fst (delete_old os names f keep c) = c' \<Longrightarrow>
     ca_dir c' = ca_dir c \<and> ca_meta c' = ca_meta c \<and> ca_active c' = ca_active c
   \<and> contents os (ca_disk c') keep = contents os (ca_disk c) keep
   \<and> (\<forall>p. contents os (ca_disk c') p \<in> {None, contents os (ca_disk c) p})"
proof (induction names arbitrary: c)
  case (Cons e es)
  let ?p = "path_join (ca_dir c) e"
  show ?case
  proof (cases "startswith e (f @ ''_v'') \<and> endswith e ''.bin'' \<and> os ?p \<noteq> os keep")
    case False
    with Cons show ?thesis by (simp add: Let_def)
  next
    case True
    show ?thesis
    proof (cases "remove_file os ?p (ca_disk c)")
      case (Inl x)
      with True Cons.prems show ?thesis by auto
    next
      case (Inr o')
      show ?thesis
      proof (cases o')
        case None
        with True Inr Cons show ?thesis by simp
      next
        case (Some d)
        with Inr have r: "contents os d q = (if os q = os ?p then None else contents os (ca_disk c) q)" for q
          by (intro remove_file_contents) simp
        have "fst (delete_old os es f keep (c\<lparr>ca_disk := d\<rparr>)) = c'" using True Inr Some Cons.prems by simp
        from Cons.IH [OF this] show ?thesis using True by (auto simp: r split: if_splits)
      qed
    qed
  qed
qed auto

lemma move_to_contents:
  assumes m: "move_to os p q d = Inr d'" and b: "contents os d p = Some b"
  shows "contents os d' q = Some b \<and> (os r \<noteq> os q \<longrightarrow> contents os d' r \<in> {None, contents os d r})"
proof (cases "os p = os q")
  case True
  with m b contents_same [OF True] show ?thesis by (simp add: move_to_def)
next
  case ne: False
  from m ne obtain d1 where d1: "replace_file os p q d1 = Inr d'"
    "(if path_exists os d q then remove_file os q d else Inr (Some d)) = Inr (Some d1)"
    by (auto simp: move_to_def split: sum.splits option.splits)
  have "os s \<noteq> os q \<Longrightarrow> contents os d1 s = contents os d s" for s
    using d1(2) remove_file_contents [of os q d d1 s] by (auto split: if_splits)
  with b ne show ?thesis unfolding replace_file_contents [OF d1(1) ne] by auto
qed

section \<open>The server\<close>

text \<open>A missing file counts as empty; the version number identifies the contents.\<close>

definition file_bytes :: "os \<Rightarrow> string \<Rightarrow> fs_state \<Rightarrow> bytes" where
  "file_bytes os f s = (case contents os (fs_disk s) (fs_path f) of None \<Rightarrow> [] | Some b \<Rightarrow> b)"

text \<open>No two names for one file.\<close>

definition one_name :: "os \<Rightarrow> ('n \<Rightarrow> string) \<Rightarrow> bool" where
  "one_name os path \<longleftrightarrow> (\<forall>f g l. os (path f) = File l \<and> os (path g) = File l \<longrightarrow> f = g)"

definition written_ok :: "os \<Rightarrow> fs_state \<Rightarrow> bool" where
  "written_ok os s \<longleftrightarrow> fs_ok s \<and> (\<forall>f. 1 < fs_test_version f s \<longrightarrow> contents os (fs_disk s) (fs_path f) \<noteq> None)"

definition moved_on :: "os \<Rightarrow> string \<Rightarrow> fs_state \<Rightarrow> fs_state \<Rightarrow> bool" where
  "moved_on os f s s' \<longleftrightarrow> fs_test_version f s < fs_test_version f s'
     \<or> fs_test_version f s' = fs_test_version f s \<and> file_bytes os f s' = file_bytes os f s"

lemma exec_moves_on:
  assumes o: "one_name os fs_path" and w: "written_ok os s"
  shows "written_ok os (fs_exec os t c s) \<and> moved_on os f s (fs_exec os t c s)"
proof -
  have ok: "fs_ok s" "fs_ok (fs_exec os t c s)" using w fs_ok_exec [of s os t c] by (auto simp: written_ok_def)
  have same: ?thesis if "fs_disk (fs_exec os t c s) = fs_disk s" "\<And>g. fs_test_version g (fs_exec os t c s) = fs_test_version g s"
    using that w ok by (simp add: written_ok_def moved_on_def file_bytes_def)
  have other: "os (fs_path g) = os (fs_path f) \<Longrightarrow> write_file os (fs_path f) b d = Inr d' \<Longrightarrow> g = f" for f g b d d'
    using o by (auto simp: one_name_def write_file_def split: loc.splits)
  show ?thesis
  proof (cases c)
    case (Create g)
    show ?thesis
    proof (cases rule: create_cases [of os g s])
      case (created d)
      have "contents os (fs_disk s) (fs_path g) = None" using created(1) contents_exists [of os "fs_disk s" "fs_path g"] by fastforce
      moreover from this have "fs_test_version g s = 1" using w fs_ok_version [OF ok(1), of g] unfolding written_ok_def by (metis order_le_less)
      ultimately show ?thesis using created Create w ok write_file_contents [OF created(2)] other [OF _ created(2)]
        by (auto simp: written_ok_def moved_on_def file_bytes_def fs_test_version_def dget_or_def)
    next
      case (refused e)
      with Create show ?thesis by (intro same) simp_all
    qed
  next
    case (Close h b)
    show ?thesis
    proof (cases rule: close_cases [of s h os t b])
      case (written i d)
      then show ?thesis using Close w ok write_file_contents [OF written(4)] other [OF _ written(4)]
        by (auto simp: written_ok_def moved_on_def file_bytes_def fs_test_version_def dget_or_def)
    qed (use Close in \<open>intro same; simp add: fs_test_version_def\<close>)+
  next
    case (Open g m fe)
    then show ?thesis by (intro same) simp_all
  qed (intro same; simp add: fs_test_version_def)+
qed

lemma run_moves_on:
  assumes "one_name os fs_path" "written_ok os s"
  shows "written_ok os (fs_run os cs s) \<and> moved_on os f s (fs_run os cs s)"
  using assms(2)
proof (induction cs arbitrary: s)
  case Nil
  then show ?case by (simp add: moved_on_def)
next
  case (Cons x cs)
  obtain t c where x: "x = (t, c)" by (cases x)
  have "written_ok os (fs_exec os t c s)" "moved_on os f s (fs_exec os t c s)"
    using exec_moves_on [OF assms(1) Cons.prems] by auto
  with Cons.IH [of "fs_exec os t c s"] show ?case by (auto simp: x moved_on_def)
qed

text \<open>A handle that was handed out names the same file as long as it is open.\<close>

definition handle_names :: "int \<Rightarrow> string \<Rightarrow> fs_state \<Rightarrow> bool" where
  "handle_names h f s \<longleftrightarrow> h < fs_next s \<and> (\<forall>i. dget (fs_open s) h = Some i \<longrightarrow> h_file i = f)"

lemma handle_names_exec:
  assumes "handle_names h f s" shows "handle_names h f (fs_exec os t c s)"
proof -
  have "fs_open (fs_exec os t c s) = fs_open s \<or> (\<exists>k. fs_open (fs_exec os t c s) = dpop (fs_open s) k)
    \<or> (\<exists>i. fs_open (fs_exec os t c s) = dset (fs_open s) (fs_next s) i)"
  proof (cases c)
    case (Create g)
    then show ?thesis by (cases rule: create_cases [of os g s]) simp_all
  next
    case (Open g m fe)
    then show ?thesis by (cases rule: open_cases [of os t g m fe s]) auto
  next
    case (Close k b)
    then show ?thesis by (cases rule: close_cases [of s k os t b]) auto
  qed simp_all
  with assms fs_next_exec [of s os t c] show ?thesis by (auto simp: handle_names_def split: if_splits)
qed

lemma handle_names_run: "handle_names h f s \<Longrightarrow> handle_names h f (fs_run os cs s)"
  by (induction cs arbitrary: s) (auto simp: handle_names_exec)

section \<open>A client among others\<close>

text \<open>
  The calls of the stub on the server \<open>sos\<close>: other clients' calls \<open>cs\<close> come first; if the reply is
  \<open>lost\<close>, the call takes effect but the client sees a status.
\<close>

definition answer :: "bool \<Rightarrow> 'r \<Rightarrow> 'r call" where
  "answer lost r = (if lost then Status ''DEADLINE_EXCEEDED'' [] else Answered r)"

definition rpc_version :: "os \<Rightarrow> (int \<times> fs_call) list \<Rightarrow> bool \<Rightarrow> string \<Rightarrow> fs_state \<Rightarrow> fs_state \<times> version_response call" where
  "rpc_version sos cs lost f s =
     (let s' = fs_run sos cs s
      in (s', answer lost \<lparr>ver_version = fs_test_version f s', ver_success = True, ver_error = []\<rparr>))"

definition rpc_open ::
  "os \<Rightarrow> (int \<times> fs_call) list \<Rightarrow> bool \<Rightarrow> int \<Rightarrow> string \<Rightarrow> string \<Rightarrow> bool \<Rightarrow> fs_state \<Rightarrow> fs_state \<times> open_response call" where
  "rpc_open sos cs lost t f m fetch s =
     (let (s', r) = fs_open_call sos t f m fetch (fs_run sos cs s) in (s', answer lost r))"

definition rpc_close ::
  "os \<Rightarrow> (int \<times> fs_call) list \<Rightarrow> bool \<Rightarrow> int \<Rightarrow> int \<Rightarrow> bytes \<Rightarrow> fs_state \<Rightarrow> fs_state \<times> close_response call" where
  "rpc_close sos cs lost t h b s =
     (let (s', r) = fs_close sos t h b (fs_run sos cs s) in (s', answer lost r))"

datatype event =
    Others "(int \<times> fs_call) list"
  | COpen "(int \<times> fs_call) list" bool "(int \<times> fs_call) list" bool int "string list" string string
  | CWrite int int data
  | CClose "(int \<times> fs_call) list" bool int "string list" int

text \<open>
  The files the client has edited locally are \<open>dirty\<close> until their entry in the cache is replaced by a
  new version.
\<close>

type_synonym world = "cache \<times> fs_state \<times> string set"

definition still_dirty :: "string set \<Rightarrow> cache \<Rightarrow> cache \<Rightarrow> string set" where
  "still_dirty D c c' = {f \<in> D. dget (ca_meta c') f = dget (ca_meta c) f}"

fun world_step :: "os \<Rightarrow> os \<Rightarrow> event \<Rightarrow> world \<Rightarrow> world" where
  "world_step los sos (Others cs) (c, s, D) = (c, fs_run sos cs s, D)"
| "world_step los sos (COpen cs1 l1 cs2 l2 t names f m) (c, s, D) =
     (let (c', s', r) = fsc_open los names (rpc_version sos cs1 l1) (rpc_open sos cs2 l2 t) f m c s
      in (c', s', still_dirty D c c'))"
| "world_step los sos (CWrite h off b) (c, s, D) =
     (fst (cache_write los h off b c), s, case dget (ca_active c) h of None \<Rightarrow> D | Some a \<Rightarrow> insert (ah_file a) D)"
| "world_step los sos (CClose cs l t names h) (c, s, D) =
     (let (c', s', r) = fsc_close los names (rpc_close sos cs l t) h c s
      in (c', s', still_dirty D c c'))"

definition world_run :: "os \<Rightarrow> os \<Rightarrow> event list \<Rightarrow> world \<Rightarrow> world" where
  "world_run los sos es w = foldl (\<lambda>w e. world_step los sos e w) w es"

text \<open>
  The invariant: a cached copy that is not dirty and has the server's version has its contents.
\<close>

definition in_step :: "os \<Rightarrow> os \<Rightarrow> cache \<Rightarrow> fs_state \<Rightarrow> bool \<Rightarrow> string \<Rightarrow> int \<Rightarrow> string \<Rightarrow> bool" where
  "in_step los sos c s clean f v p \<longleftrightarrow> p = cache_path c f v \<and> (\<exists>l. los p = File l) \<and> v \<le> fs_test_version f s
     \<and> (clean \<and> v = fs_test_version f s
        \<longrightarrow> contents los (ca_disk c) p \<in> {None, Some (file_bytes sos f s)})"

definition own_names :: "os \<Rightarrow> cache \<Rightarrow> bool" where
  "own_names los c \<longleftrightarrow> one_name los (\<lambda>(f, v). cache_path c f v)"

definition coherent :: "os \<Rightarrow> os \<Rightarrow> world \<Rightarrow> bool" where
  "coherent los sos w \<longleftrightarrow>
     (case w of (c, s, D) \<Rightarrow> written_ok sos s \<and> own_names los c
        \<and> (\<forall>f v p. dget (ca_meta c) f = Some (v, p) \<longrightarrow> in_step los sos c s (f \<notin> D) f v p)
        \<and> (\<forall>h a. dget (ca_active c) h = Some a \<longrightarrow> handle_names h (ah_file a) s
             \<and> (\<exists>v l. ah_path a = cache_path c (ah_file a) v \<and> los (ah_path a) = File l)))"

lemma in_step_moved_on:
  "in_step los sos c s clean f v p \<Longrightarrow> moved_on sos f s s' \<Longrightarrow> in_step los sos c s' clean f v p"
  by (auto simp: in_step_def moved_on_def)

lemma coherent_server:
  assumes "coherent los sos (c, s, D)" "written_ok sos s'" "\<And>f. moved_on sos f s s'"
    and "\<And>h f. handle_names h f s \<Longrightarrow> handle_names h f s'"
  shows "coherent los sos (c, s', D)"
  using assms in_step_moved_on [OF _ assms(3)] unfolding coherent_def by simp

lemma coherent_run:
  assumes "coherent los sos (c, s, D)" "one_name sos fs_path" shows "coherent los sos (c, fs_run sos cs s, D)"
proof -
  have "written_ok sos s" using assms(1) by (simp add: coherent_def)
  from run_moves_on [OF assms(2) this] show ?thesis
    by (intro coherent_server [OF assms(1)]) (auto intro: handle_names_run)
qed

lemma coherent_exec:
  assumes "coherent los sos (c, s, D)" "one_name sos fs_path" shows "coherent los sos (c, fs_exec sos t x s, D)"
  using coherent_run [OF assms, of "[(t, x)]"] by simp

lemma one_name_paths:
  "own_names los c \<Longrightarrow> los (cache_path c f v) = File l \<Longrightarrow> f \<noteq> g
    \<Longrightarrow> los (cache_path c g w) \<noteq> los (cache_path c f v)"
  unfolding own_names_def one_name_def by fastforce

lemma cache_path_dir: "ca_dir c' = ca_dir c \<Longrightarrow> cache_path c' f v = cache_path c f v"
  by (simp add: cache_path_def)

lemma coherent_renewed:
  assumes co: "coherent los sos (c, s, D)" and c': "ca_dir c' = ca_dir c" "ca_meta c' = dset (ca_meta c) f (fs_test_version f s, p)"
    and p: "p = cache_path c f (fs_test_version f s)" "los p = File l" "contents los (ca_disk c') p = Some (file_bytes sos f s)"
    and d: "\<And>r. los r \<noteq> los p \<Longrightarrow> contents los (ca_disk c') r \<in> {None, contents los (ca_disk c) r}"
    and a: "\<And>h a. dget (ca_active c') h = Some a \<Longrightarrow> dget (ca_active c) h = Some a
      \<or> ah_path a = p \<and> ah_file a = f \<and> handle_names h f s"
    and D: "D \<subseteq> insert f D'"
  shows "coherent los sos (c', s, D')"
proof -
  have path: "cache_path c' g w = cache_path c g w" for g w by (rule cache_path_dir) (simp add: c')
  have one: "own_names los c" using co by (simp add: coherent_def)
  then have one': "own_names los c'" unfolding own_names_def path .
  have "in_step los sos c' s (g \<notin> D') g w q" if m: "dget (ca_meta c') g = Some (w, q)" for g w q
  proof (cases "g = f")
    case True
    with m c'(2) p show ?thesis by (auto simp: in_step_def path)
  next
    case False
    then have "in_step los sos c s (g \<notin> D) g w q" using co m c'(2) by (simp add: coherent_def)
    moreover from this have "q = cache_path c g w" by (simp add: in_step_def)
    then have "los q \<noteq> los p" using one_name_paths [OF one, of f] p(1,2) False by simp
    ultimately show ?thesis using d [of q] D False by (auto simp: in_step_def path)
  qed
  moreover have "handle_names h (ah_file x) s \<and> (\<exists>v l. ah_path x = cache_path c' (ah_file x) v \<and> los (ah_path x) = File l)"
    if "dget (ca_active c') h = Some x" for h x
    using a [OF that] co p(1,2) unfolding coherent_def by (auto simp: path)
  ultimately show ?thesis using co one' unfolding coherent_def by (simp add: path)
qed

lemma coherent_written:
  assumes co: "coherent los sos (c, s, D)" and a: "dget (ca_active c) h = Some a"
  shows "coherent los sos (fst (cache_write los h off b c), s, insert (ah_file a) D)"
proof -
  define c' where "c' = fst (cache_write los h off b c)"
  have c': "ca_dir c' = ca_dir c \<and> ca_meta c' = ca_meta c \<and> ca_active c' = ca_active c
      \<and> (\<forall>r. los r \<noteq> los (ah_path a) \<longrightarrow> contents los (ca_disk c') r = contents los (ca_disk c) r)"
    using a write_file_contents [of los "ah_path a" _ "ca_disk c"]
    by (auto simp: c'_def cache_write_def split: sum.split)
  have path: "cache_path c' g w = cache_path c g w" for g w by (rule cache_path_dir) (simp add: c')
  have one: "own_names los c" using co by (simp add: coherent_def)
  then have one': "own_names los c'" unfolding own_names_def path .
  obtain v l where p: "ah_path a = cache_path c (ah_file a) v" "los (ah_path a) = File l"
    using co a unfolding coherent_def prod.case by metis
  have "in_step los sos c' s (g \<notin> insert (ah_file a) D) g w q" if m: "dget (ca_meta c) g = Some (w, q)" for g w q
  proof (cases "g = ah_file a")
    case True
    with co m show ?thesis by (auto simp: coherent_def in_step_def path)
  next
    case False
    have i: "in_step los sos c s (g \<notin> D) g w q" using co m by (simp add: coherent_def)
    then have "q = cache_path c g w" by (simp add: in_step_def)
    then have "los q \<noteq> los (ah_path a)" using one_name_paths [OF one, of "ah_file a"] p False by simp
    with c' i False show ?thesis by (auto simp: in_step_def path)
  qed
  then show ?thesis using co c' one' unfolding c'_def [symmetric] coherent_def by (simp add: path)
qed

section \<open>Opening and closing\<close>

lemma via_answer [simp]: "via rpc ok msg get s = (s', Inr y) \<longleftrightarrow> (\<exists>r. rpc s = (s', Answered r) \<and> ok r \<and> y = get r)"
  by (auto simp: via_def fsc_execute_rpc_def split: call.splits prod.splits if_splits)

lemma fst_via [simp]: "fst (via rpc ok msg get s) = fst (rpc s)"
  by (simp add: via_def case_prod_unfold Let_def)

lemma rpc_state:
  "fst (rpc_version sos cs l f s) = fs_run sos cs s"
  "fst (rpc_open sos cs l t f m fe s) = fs_run sos (cs @ [(t, Open f m fe)]) s"
  "fst (rpc_close sos cs l t h b s) = fs_run sos (cs @ [(t, Close h b)]) s"
  by (simp_all add: rpc_version_def rpc_open_def rpc_close_def Let_def case_prod_unfold)

text \<open>What a successful \<open>Open\<close> answers.\<close>

lemma rpc_open_answer:
  assumes "rpc_open sos cs l t f m fe s = (s', Answered r)" "opn_success r"
  shows "opn_version r = fs_test_version f s'" "fe \<Longrightarrow> opn_data r = file_bytes sos f s'" "handle_names (opn_handle r) f s'"
proof -
  let ?s = "fs_run sos cs s"
  have r: "fs_open_call sos t f m fe ?s = (s', r)"
    using assms(1) by (auto simp: rpc_open_def answer_def split: prod.splits if_splits)
  have "opn_version r = fs_test_version f s' \<and> (fe \<longrightarrow> opn_data r = file_bytes sos f s') \<and> handle_names (opn_handle r) f s'"
  proof (cases rule: open_cases [of sos t f m fe ?s])
    case (refused e)
    with r assms(2) show ?thesis by auto
  next
    case (opened u)
    have "fs_disk s' = fs_disk ?s" "fs_test_version f s' = fs_test_version f ?s"
      using open_disk [where os = sos and t = t and f = f and m = m and fe = fe and s = ?s] r by simp_all
    with r opened show ?thesis by (auto simp: file_bytes_def handle_names_def)
  qed
  then show "opn_version r = fs_test_version f s'" "fe \<Longrightarrow> opn_data r = file_bytes sos f s'" "handle_names (opn_handle r) f s'"
    by simp_all
qed

lemma cache_open_cases:
  assumes "cache_open os names tv op f m c s = (c', s', r)"
  obtains (failed) x s1 where "c' = c" "r = Inl x" "s1 = s \<or> s1 = fst (tv s)" "s' = s1 \<or> (\<exists>fe. s' = fst (op fe s1))"
  | (hit) v p s1 a where "dget (ca_meta c) f = Some (v, p)" "tv s = (s1, Inr v)" "path_exists os (ca_disk c) p"
      "op False s1 = (s', Inr a)" "c' = c\<lparr>ca_active := dset (ca_active c) (opn_handle a) \<lparr>ah_path = p, ah_file = f, ah_mode = m\<rparr>\<rparr>"
      "r = Inr (opn_handle a)"
  | (stored) s1 a where "s1 = s \<or> s1 = fst (tv s)" "op True s1 = (s', Inr a)" "cache_store os names f m a c = (c', r)"
proof (cases "m \<noteq> ''r'' \<and> m \<noteq> ''w''")
  case True
  with assms show thesis by (intro failed) (auto simp: cache_open_def)
next
  case m: False
  obtain s1 k where k: "cache_check os tv f c s = (s1, k)" by fastforce
  have s1: "s1 = s \<or> s1 = fst (tv s)" using k by (auto simp: cache_check_def split: option.splits prod.splits sum.splits)
  show thesis
  proof (cases k)
    case (Inl x)
    with assms m k s1 show thesis by (intro failed [of x s1]) (auto simp: cache_open_def)
  next
    case (Inr fe)
    obtain s2 o' where o': "op fe s1 = (s2, o')" by fastforce
    show thesis
    proof (cases o')
      case (Inl x)
      then have "c' = c" "r = Inl x" "s' = s2" using assms m k o' Inr by (auto simp: cache_open_def)
      with s1 o' show thesis by (intro failed [of x s1]) (auto intro: exI [of _ fe])
    next
      case a: (Inr a)
      show thesis
      proof (cases fe)
        case True
        with assms m k o' a Inr s1 show thesis by (intro stored [of s1 a]) (auto simp: cache_open_def split: prod.splits)
      next
        case False
        with k Inr obtain v p where "dget (ca_meta c) f = Some (v, p)" "tv s = (s1, Inr v)" "path_exists os (ca_disk c) p"
          by (auto simp: cache_check_def split: option.splits prod.splits sum.splits)
        with assms m k o' a Inr False show thesis
          by (intro hit [of v p s1 a]) (auto simp: cache_open_def cache_hit_def split: prod.splits)
      qed
    qed
  qed
qed

lemma cache_store_effect:
  assumes "cache_store os names f m a c = (c', r)" "\<not> (c' = c \<and> (\<exists>x. r = Inl x))"
  shows "ca_dir c' = ca_dir c \<and> ca_meta c' = dset (ca_meta c) f (opn_version a, cache_path c f (opn_version a))
    \<and> (\<exists>l. os (cache_path c f (opn_version a)) = File l)
    \<and> contents os (ca_disk c') (cache_path c f (opn_version a)) = Some (opn_data a)
    \<and> (\<forall>q. os q \<noteq> os (cache_path c f (opn_version a)) \<longrightarrow> contents os (ca_disk c') q \<in> {None, contents os (ca_disk c) q})
    \<and> (ca_active c' = ca_active c \<and> (\<exists>x. r = Inl x) \<or> r = Inr (opn_handle a)
      \<and> ca_active c' = dset (ca_active c) (opn_handle a) \<lparr>ah_path = cache_path c f (opn_version a), ah_file = f, ah_mode = m\<rparr>)"
proof -
  let ?p = "cache_path c f (opn_version a)"
  from assms obtain d where d: "write_file os ?p (opn_data a) (ca_disk c) = Inr d"
    by (auto simp: cache_store_def Let_def split: sum.splits)
  let ?c = "c\<lparr>ca_disk := d, ca_meta := dset (ca_meta c) f (opn_version a, ?p)\<rparr>"
  obtain c1 e where e: "delete_old os names f ?p ?c = (c1, e)" by fastforce
  then have "fst (delete_old os names f ?p ?c) = c1" by simp
  note k = delete_old_keeps [OF this]
  have "\<exists>l. os ?p = File l" using d by (auto simp: write_file_def split: loc.splits)
  moreover have "contents os (ca_disk c1) ?p = Some (opn_data a)"
    "os q \<noteq> os ?p \<Longrightarrow> contents os (ca_disk c1) q \<in> {None, contents os (ca_disk c) q}" for q
    using k write_file_contents [OF d] by auto
  moreover have "ca_disk c' = ca_disk c1" "ca_dir c' = ca_dir c" "ca_meta c' = dset (ca_meta c) f (opn_version a, ?p)"
    "ca_active c' = ca_active c \<and> (\<exists>x. r = Inl x) \<or> r = Inr (opn_handle a)
      \<and> ca_active c' = dset (ca_active c) (opn_handle a) \<lparr>ah_path = ?p, ah_file = f, ah_mode = m\<rparr>"
    using assms d e k by (auto simp: cache_store_def Let_def split: option.splits)
  ultimately show ?thesis by simp
qed

lemma still_dirty_same [simp]: "ca_meta c' = ca_meta c \<Longrightarrow> still_dirty D c c' = D"
  by (simp add: still_dirty_def)

lemma still_dirty_new: "ca_meta c' = dset (ca_meta c) f x \<Longrightarrow> D \<subseteq> insert f (still_dirty D c c')"
  by (auto simp: still_dirty_def)

lemma coherent_active:
  assumes "coherent los sos (c, s, D)" "handle_names h (ah_file a) s" "dget (ca_meta c) (ah_file a) = Some (v, ah_path a)"
  shows "coherent los sos (c\<lparr>ca_active := dset (ca_active c) h a\<rparr>, s, D)"
proof -
  have path: "cache_path (c\<lparr>ca_active := x\<rparr>) g w = cache_path c g w" for g w x by (simp add: cache_path_def)
  have "in_step los sos c s (ah_file a \<notin> D) (ah_file a) v (ah_path a)" using assms(1,3) by (simp add: coherent_def)
  moreover have "own_names los (c\<lparr>ca_active := x\<rparr>)" for x
    using assms(1) unfolding coherent_def own_names_def path by simp
  ultimately show ?thesis using assms(1,2) unfolding coherent_def by (auto simp: path in_step_def)
qed

lemma coherent_open:
  assumes co: "coherent los sos (c, s, D)" and one: "one_name sos fs_path"
    and op: "fsc_open los names (rpc_version sos cs1 l1) (rpc_open sos cs2 l2 t) f m c s = (c', s', r)"
  shows "coherent los sos (c', s', still_dirty D c c')
    \<and> (\<forall>h. r = Inr h \<and> f \<notin> D \<longrightarrow> (\<exists>a. \<exists>u\<in>{fs_run sos cs1 s, s'}. dget (ca_active c') h = Some a
          \<and> contents los (ca_disk c') (ah_path a) = Some (file_bytes sos f u)))"
proof -
  let ?tv = "fsc_test_version (rpc_version sos cs1 l1) f" and ?op = "\<lambda>fe. via (rpc_open sos cs2 l2 t f m fe) opn_success opn_error (\<lambda>r. r)"
  have tv: "fst (?tv s) = fs_run sos cs1 s" by (simp add: fsc_test_version_def rpc_state)
  have run: "coherent los sos (c, fs_run sos cs s, D)" for cs by (rule coherent_run [OF co one])
  have run1: "coherent los sos (c, fst (?op fe s1), D)" if "coherent los sos (c, s1, D)" for fe s1
    using coherent_run [OF that one, of "cs2 @ [(t, Open f m fe)]"] by (simp add: rpc_state)
  from op [unfolded fsc_open_def] show ?thesis
  proof (cases rule: cache_open_cases)
    case (failed x s1)
    then have "coherent los sos (c, s1, D)" using co run tv by auto
    with failed run1 show ?thesis by auto
  next
    case (hit v p s1 a)
    then have s1: "s1 = fs_run sos cs1 s" using tv by simp
    have a: "rpc_open sos cs2 l2 t f m False s1 = (s', Answered a)" "opn_success a" using hit(4) by auto
    have co1: "coherent los sos (c, s1, D)" using run s1 by simp
    then have i: "in_step los sos c s1 (f \<notin> D) f v p" using hit(1) by (simp add: coherent_def)
    have "v = fs_test_version f s1" using hit(2) by (auto simp: fsc_test_version_def rpc_version_def answer_def Let_def split: if_splits)
    moreover obtain l where l: "los p = File l" using i unfolding in_step_def by blast
    moreover obtain b where "contents los (ca_disk c) p = Some b"
      using hit(3) l by (auto simp: path_exists_def contents_def)
    ultimately have "f \<notin> D \<Longrightarrow> contents los (ca_disk c) p = Some (file_bytes sos f s1)" using i by (simp add: in_step_def)
    moreover have "coherent los sos (c, s', D)" using run1 [OF co1, of False] hit(4) by simp
    then have "coherent los sos (c', s', D)" unfolding hit(5)
      by (rule coherent_active) (use rpc_open_answer(3) [OF a] hit(1) in auto)
    ultimately show ?thesis using hit s1 by simp
  next
    case (stored s1 a)
    have a: "rpc_open sos cs2 l2 t f m True s1 = (s', Answered a)" "opn_success a" using stored(2) by auto
    have co': "coherent los sos (c, s', D)" using run1 [of s1 True] stored(1,2) co run tv by auto
    show ?thesis
    proof (cases "c' = c \<and> (\<exists>x. r = Inl x)")
      case True
      with co' show ?thesis by auto
    next
      case False
      note e = cache_store_effect [OF stored(3) False, unfolded rpc_open_answer(1) [OF a] rpc_open_answer(2) [OF a TrueI]]
      then obtain l where l: "los (cache_path c f (fs_test_version f s')) = File l" by blast
      have "coherent los sos (c', s', still_dirty D c c')"
        by (rule coherent_renewed [OF co' _ _ refl l]) (use e rpc_open_answer(3) [OF a] still_dirty_new in \<open>auto split: if_splits\<close>)
      moreover have "\<exists>a. dget (ca_active c') h = Some a \<and> contents los (ca_disk c') (ah_path a) = Some (file_bytes sos f s')"
        if "r = Inr h" for h using e that by auto
      ultimately show ?thesis by blast
    qed
  qed
qed

lemma cache_renew_effect:
  assumes "cache_renew os names p f v c = (c', r)" "contents os (ca_disk c) p = Some b"
  shows "c' = c \<and> (\<exists>x. r = Inl x) \<or> ca_dir c' = ca_dir c \<and> ca_meta c' = dset (ca_meta c) f (v, cache_path c f v)
    \<and> ca_active c' = ca_active c \<and> (\<exists>l. os (cache_path c f v) = File l)
    \<and> contents os (ca_disk c') (cache_path c f v) = Some b
    \<and> (\<forall>q. os q \<noteq> os (cache_path c f v) \<longrightarrow> contents os (ca_disk c') q \<in> {None, contents os (ca_disk c) q})"
proof (cases "move_to os p (cache_path c f v) (ca_disk c)")
  case (Inl x)
  with assms(1) show ?thesis by (auto simp: cache_renew_def Let_def)
next
  case (Inr d)
  let ?q = "cache_path c f v" and ?c = "c\<lparr>ca_disk := d, ca_meta := dset (ca_meta c) f (v, cache_path c f v)\<rparr>"
  have "fst (delete_old os names f ?q ?c) = c'" using assms(1) Inr
    by (auto simp: cache_renew_def Let_def split: prod.splits option.splits)
  note k = delete_old_keeps [OF this]
  note m = move_to_contents [OF Inr assms(2)]
  then have "contents os d ?q = Some b" by blast
  moreover from this have "\<exists>l. os ?q = File l" by (auto simp: contents_def split: loc.splits)
  moreover have "contents os (ca_disk c') q \<in> {None, contents os (ca_disk c) q}" if "os q \<noteq> os ?q" for q
  proof -
    have "contents os (ca_disk c') q \<in> {None, contents os d q}" using k by simp
    moreover have "contents os d q \<in> {None, contents os (ca_disk c) q}" using m [of q] that by blast
    ultimately show ?thesis by auto
  qed
  ultimately show ?thesis using k by simp
qed

lemma rpc_close_answer:
  assumes "rpc_close sos cs l t h b s = (s', Answered r)" "clo_success r" "0 < clo_version r" "handle_names h f (fs_run sos cs s)"
  shows "clo_version r = fs_test_version f s'" "file_bytes sos f s' = b"
proof -
  let ?s = "fs_run sos cs s"
  have r: "fs_close sos t h b ?s = (s', r)"
    using assms(1) by (auto simp: rpc_close_def answer_def split: prod.splits if_splits)
  have "clo_version r = fs_test_version f s' \<and> file_bytes sos f s' = b"
  proof (cases rule: close_cases [of ?s h sos t b])
    case (written i d)
    then have "h_file i = f" using assms(4) by (simp add: handle_names_def)
    with r written assms(2) close_written [OF written(1,2), of sos t b] show ?thesis by (simp add: file_bytes_def)
  qed (use r assms(2,3) in auto)
  then show "clo_version r = fs_test_version f s'" "file_bytes sos f s' = b" by simp_all
qed

lemma coherent_dpop:
  assumes "coherent los sos (c, s, D)" shows "coherent los sos (c\<lparr>ca_active := dpop (ca_active c) h\<rparr>, s, D)"
proof -
  have path: "cache_path (c\<lparr>ca_active := x\<rparr>) g w = cache_path c g w" for g w x by (simp add: cache_path_def)
  have "own_names los (c\<lparr>ca_active := x\<rparr>)" for x using assms unfolding coherent_def own_names_def path by simp
  with assms show ?thesis unfolding coherent_def by (auto simp: path in_step_def split: if_splits)
qed

lemma coherent_close:
  assumes co: "coherent los sos (c, s, D)" and one: "one_name sos fs_path"
    and cl: "fsc_close los names (rpc_close sos cs l t) h c s = (c', s', r)"
  shows "coherent los sos (c', s', still_dirty D c c')"
proof (cases "dget (ca_active c) h")
  case None
  with cl co show ?thesis by (auto simp: fsc_close_def cache_close_def)
next
  case (Some a)
  let ?cl = "\<lambda>b. via (rpc_close sos cs l t h b) clo_success clo_error (\<lambda>r. r)"
  show ?thesis
  proof (cases "read_file los (ah_path a) (ca_disk c)")
    case (Inl x)
    with cl co Some show ?thesis by (auto simp: fsc_close_def cache_close_def)
  next
    case (Inr b)
    obtain s1 o' where o': "?cl b s = (s1, o')" by fastforce
    have s1: "s1 = fs_run sos (cs @ [(t, Close h b)]) s" using fst_via [of "rpc_close sos cs l t h b"] o' rpc_state(3)
      by (metis fst_conv)
    have co1: "coherent los sos (c, s1, D)" unfolding s1 by (rule coherent_run [OF co one])
    show ?thesis
    proof (cases o')
      case (Inl x)
      with cl Some Inr o' co1 show ?thesis by (auto simp: fsc_close_def cache_close_def)
    next
      case r: (Inr y)
      let ?c1 = "c\<lparr>ca_active := dpop (ca_active c) h\<rparr>"
      have co2: "coherent los sos (?c1, s1, D)" by (rule coherent_dpop [OF co1])
      show ?thesis
      proof (cases "0 < clo_version y")
        case False
        with cl Some Inr o' r co2 show ?thesis by (auto simp: fsc_close_def cache_close_def)
      next
        case True
        then have n: "cache_renew los names (ah_path a) (ah_file a) (clo_version y) ?c1 = (c', r)" "s' = s1"
          using cl Some Inr o' r by (auto simp: fsc_close_def cache_close_def Let_def split: prod.splits)
        have y: "rpc_close sos cs l t h b s = (s1, Answered y)" "clo_success y" using o' r by auto
        have "handle_names h (ah_file a) (fs_run sos cs s)" using co Some by (simp add: coherent_def handle_names_run)
        note v = rpc_close_answer [OF y True this]
        have b: "contents los (ca_disk ?c1) (ah_path a) = Some b" using Inr by (simp add: read_file_contents)
        from cache_renew_effect [OF n(1) b] show ?thesis
        proof
          assume "c' = ?c1 \<and> (\<exists>x. r = Inl x)"
          with co2 n(2) show ?thesis by simp
        next
          assume e: "ca_dir c' = ca_dir ?c1 \<and> ca_meta c' = dset (ca_meta ?c1) (ah_file a) (clo_version y, cache_path ?c1 (ah_file a) (clo_version y))
            \<and> ca_active c' = ca_active ?c1 \<and> (\<exists>l. los (cache_path ?c1 (ah_file a) (clo_version y)) = File l)
            \<and> contents los (ca_disk c') (cache_path ?c1 (ah_file a) (clo_version y)) = Some b
            \<and> (\<forall>q. los q \<noteq> los (cache_path ?c1 (ah_file a) (clo_version y)) \<longrightarrow> contents los (ca_disk c') q \<in> {None, contents los (ca_disk ?c1) q})"
          then obtain l where l: "los (cache_path ?c1 (ah_file a) (fs_test_version (ah_file a) s1)) = File l" using v(1) by auto
          have m: "ca_meta c' = dset (ca_meta c) (ah_file a) (clo_version y, cache_path ?c1 (ah_file a) (clo_version y))" using e by simp
          show ?thesis unfolding n(2)
            by (rule coherent_renewed [OF co2 _ _ refl l]) (use e v still_dirty_new [OF m] in \<open>auto split: if_splits\<close>)
        qed
      qed
    qed
  qed
qed

lemma world_coherent:
  assumes "one_name sos fs_path" "coherent los sos w"
  shows "coherent los sos (world_run los sos es w)"
  using assms(2)
proof (induction es arbitrary: w)
  case (Cons e es)
  obtain c s D where w: "w = (c, s, D)" by (cases w)
  have "coherent los sos (world_step los sos e w)"
  proof (cases e)
    case (Others cs)
    then show ?thesis using coherent_run [OF _ assms(1)] Cons.prems w by simp
  next
    case (COpen cs1 l1 cs2 l2 t names f m)
    obtain c' s' r where o': "fsc_open los names (rpc_version sos cs1 l1) (rpc_open sos cs2 l2 t) f m c s = (c', s', r)"
      by (metis prod.exhaust)
    from coherent_open [OF _ assms(1) o'] Cons.prems w COpen o' show ?thesis by simp
  next
    case (CWrite h off b)
    show ?thesis
    proof (cases "dget (ca_active c) h")
      case None
      with CWrite w Cons.prems show ?thesis by (simp add: cache_write_def)
    next
      case (Some a)
      with CWrite w coherent_written [OF _ Some] Cons.prems show ?thesis by simp
    qed
  next
    case (CClose cs l t names h)
    obtain c' s' r where o': "fsc_close los names (rpc_close sos cs l t) h c s = (c', s', r)" by (metis prod.exhaust)
    from coherent_close [OF _ assms(1) o'] Cons.prems w CClose o' show ?thesis by simp
  qed
  with Cons.IH show ?case by (simp add: world_run_def)
qed (simp add: world_run_def)

lemma coherent_init:
  assumes "own_names los (new_cache dir d)" shows "coherent los sos (new_cache dir d, fs_init d0, {})"
proof -
  have "written_ok sos (fs_init d0)" using fs_ok_init
    by (simp add: written_ok_def) (simp add: fs_init_def fs_test_version_def dget_or_def)
  with assms show ?thesis by (simp add: coherent_def) (simp add: new_cache_def)
qed

section \<open>Names of cached files\<close>

lemma split_at_last: "c \<notin> set x \<Longrightarrow> c \<notin> set y \<Longrightarrow> a @ c # x = b @ c # y \<Longrightarrow> a = b \<and> x = y"
  by (auto simp: append_eq_append_conv2 Cons_eq_append_conv append_eq_Cons_conv)

lemma cache_name_inj: "cache_name f v = cache_name g w \<longleftrightarrow> f = g \<and> v = w"
proof
  have "CHR ''v'' \<notin> set (nat_str k)" for k by (rule not_digit_in_nat_str) (simp add: is_digit_def)
  then have n: "CHR ''v'' \<notin> set (int_str i)" for i by (simp add: int_str_def)
  assume "cache_name f v = cache_name g w"
  then have "(f @ ''_'') @ CHR ''v'' # int_str v = (g @ ''_'') @ CHR ''v'' # int_str w" by (simp add: cache_name_def)
  from split_at_last [OF n n this] show "f = g \<and> v = w" using int_str_inj by simp
qed simp

section \<open>Properties\<close>


definition flat_disk :: os where
  "flat_disk p = File p"

definition demo_session :: "event list" where
  "demo_session =
     [Others [(0, Create ''f'')], COpen [] False [] False 1 [] ''f'' ''w'', CWrite 1 0 (Str ''x''),
      CClose [] False 2 [''f_v1.bin'', ''f_v2.bin''] 1]"

definition demo_cache :: cache where
  "demo_cache = \<lparr>ca_dir = ''c'', ca_disk = [(''c/f_v2.bin'', ''x'')], ca_meta = [(''f'', 2, ''c/f_v2.bin'')], ca_active = []\<rparr>"

definition demo_server :: fs_state where
  "demo_server = \<lparr>fs_disk = [(''./server_data/f'', ''x'')], fs_open = [], fs_versions = [(''f'', 2)], fs_locks = [],
                  fs_notes = [], fs_next = 2\<rparr>"

lemma demo_session_run:
  "world_run flat_disk flat_disk demo_session (new_cache ''c'' [], fs_init [], {}) = (demo_cache, demo_server, {})"
  unfolding demo_session_def demo_cache_def demo_server_def by code_simp

lemma path_join_inj:
  assumes "b \<noteq> []" "hd b \<noteq> CHR ''/''" "path_join b x = path_join b y" shows "x = y"
proof -
  have "startswith x ''/'' \<longleftrightarrow> startswith y ''/''"
    using assms by (cases b; cases x; cases y) (auto simp: path_join_def startswith_def split: if_splits)
  with assms(3) show ?thesis by (auto simp: path_join_def split: if_splits)
qed

lemma one_name_flat: "one_name flat_disk fs_path"
  by (auto simp: one_name_def flat_disk_def fs_path_def BASE_DIR_def dest: path_join_inj [rotated 2])

lemma own_names_flat: "own_names flat_disk (new_cache ''c'' d)"
  by (auto simp: own_names_def one_name_def flat_disk_def cache_path_def new_cache_def cache_name_inj dest!: path_join_inj [rotated 2])


text \<open>
  The cache is not coherent for a file the client has edited: when a close is refused (here by a
  lock of another client), the edited copy stays in the cache under the server's version, and the
  next \<open>open\<close> takes it for the file: the client reads bytes that were never on the server.
\<close>

lemma cache_keeps_refused_edit:
  "\<exists>c s c' s'. world_run flat_disk flat_disk
       [Others [(0, Create ''f'')], COpen [] False [] False 1 [] ''f'' ''w'', CWrite 1 0 (Str ''x''),
        Others [(2, Lock ''f'' 60 ''bob'')], CClose [] False 3 [''f_v1.bin''] 1] (new_cache ''c'' [], fs_init [], {}) = (c, s, {''f''})
     \<and> fsc_open flat_disk [''f_v1.bin''] (rpc_version flat_disk [] False) (rpc_open flat_disk [] False 4) ''f'' ''r'' c s = (c', s', Inr 2)
     \<and> cache_read flat_disk 2 0 (-1) c' = Inr ''x'' \<and> file_bytes flat_disk ''f'' s = [] \<and> file_bytes flat_disk ''f'' s' = []"
proof -
  let ?w = "world_run flat_disk flat_disk
       [Others [(0, Create ''f'')], COpen [] False [] False 1 [] ''f'' ''w'', CWrite 1 0 (Str ''x''),
        Others [(2, Lock ''f'' 60 ''bob'')], CClose [] False 3 [''f_v1.bin''] 1] (new_cache ''c'' [], fs_init [], {})"
  let ?c = "fst ?w" and ?s = "fst (snd ?w)"
  let ?o = "fsc_open flat_disk [''f_v1.bin''] (rpc_version flat_disk [] False) (rpc_open flat_disk [] False 4) ''f'' ''r'' ?c ?s"
  have "snd (snd ?w) = {''f''} \<and> snd (snd ?o) = Inr 2 \<and> cache_read flat_disk 2 0 (-1) (fst ?o) = Inr ''x''
    \<and> file_bytes flat_disk ''f'' ?s = [] \<and> file_bytes flat_disk ''f'' (fst (snd ?o)) = []" by code_simp
  then show ?thesis by (intro exI [of _ ?c] exI [of _ ?s] exI [of _ "fst ?o"] exI [of _ "fst (snd ?o)"]) (simp add: prod_eq_iff)
qed

section \<open>Waiting for a lock\<close>

lemma poll_returns:
  assumes "\<And>k. clock k < clock (Suc k)"
  shows "\<exists>s' r. poll_notes clock get dl k s = Some (s', r)
    \<and> (r = Inr [] \<longrightarrow> (\<exists>j\<ge>k. dl \<le> clock j \<and> (\<forall>i. k \<le> i \<and> i < j \<longrightarrow> (\<exists>u. snd (get i u) = Inr []))))"
proof (induction "nat (dl - clock k)" arbitrary: k s rule: less_induct)
  case less
  show ?case
  proof (cases "clock k < dl")
    case False
    then show ?thesis by (subst poll_notes.simps) auto
  next
    case True
    obtain s1 o' where g: "get k s = (s1, o')" by fastforce
    show ?thesis
    proof (cases "o' = Inr []")
      case False
      with True g show ?thesis by (subst poll_notes.simps) (cases o', auto)
    next
      case e: True
      have "nat (dl - clock (Suc k)) < nat (dl - clock k)" using assms [of k] True by simp
      from less [OF this, of s1] obtain s' r where r: "poll_notes clock get dl (Suc k) s1 = Some (s', r)"
        "r = Inr [] \<longrightarrow> (\<exists>j\<ge>Suc k. dl \<le> clock j \<and> (\<forall>i. Suc k \<le> i \<and> i < j \<longrightarrow> (\<exists>u. snd (get i u) = Inr [])))" by blast
      have "poll_notes clock get dl k s = Some (s', r)" using True g e r(1) by (subst poll_notes.simps) simp
      moreover have "\<exists>u. snd (get k u) = Inr []" using g e by (metis snd_conv)
      moreover have "\<exists>j\<ge>k. dl \<le> clock j \<and> (\<forall>i. k \<le> i \<and> i < j \<longrightarrow> (\<exists>u. snd (get i u) = Inr []))" if "r = Inr []"
      proof -
        from r(2) that obtain j where j: "Suc k \<le> j" "dl \<le> clock j" "\<And>i. Suc k \<le> i \<Longrightarrow> i < j \<Longrightarrow> \<exists>u. snd (get i u) = Inr []" by blast
        then have "\<exists>u. snd (get i u) = Inr []" if "k \<le> i" "i < j" for i
          using that \<open>\<exists>u. snd (get k u) = Inr []\<close> by (cases "i = k") auto
        with j(1,2) show ?thesis by (intro exI [of _ j]) auto
      qed
      ultimately show ?thesis by blast
    qed
  qed
qed

text \<open>
  Waiting for a lock ends: if the clock advances between readings, \<open>wait_for_lock_notification\<close>
  returns or raises, and it returns nothing only when the timeout has passed and every poll up to
  then found nothing.
\<close>

lemma client_wait_returns:
  assumes "\<And>k. clock k < clock (Suc k)"
  shows "\<exists>s' r. fsc_wait_for_lock_notification clock get timeout s = Some (s', r)
    \<and> (r = Inr [] \<longrightarrow> (\<exists>j\<ge>1. clock 0 + timeout \<le> clock j \<and> (\<forall>i. 1 \<le> i \<and> i < j \<longrightarrow> (\<exists>u. snd (get i u) = Inr []))))"
  unfolding fsc_wait_for_lock_notification_def by (rule poll_returns [where clock = clock, OF assms])

end
