(* ===== verification/Fs_Plain.thy ===== *)
theory Fs_Plain
  imports Client_Cache
begin

text \<open>
  The file service without gRPC, \<open>part1_filesystem/fs_wo_grpc\<close>: the server's logic (\<open>server.py\<close>), the
  framing of messages on a TCP connection and the dispatcher (\<open>server_stub.py\<close>), and the client
  (\<open>client_stub.py\<close>), which shares its cache with the other clients.

  Pickling and encryption are an argument: \<open>enc\<close> gives the encrypted bytes of a message, \<open>dec\<close> the
  message back or \<open>None\<close> for \<open>InvalidToken\<close> and the like.
\<close>

section \<open>The server's logic\<close>

record plain_fs =
  pf_disk :: disk
  pf_open :: "(int, handle_info) dict"
  pf_versions :: "(string, int) dict"
  pf_next :: int

definition pf_init :: "disk \<Rightarrow> plain_fs" where
  "pf_init d = \<lparr>pf_disk = d, pf_open = [], pf_versions = [], pf_next = 1\<rparr>"

definition pf_path :: "string \<Rightarrow> string" where
  "pf_path f = path_join ''./server_data'' f"

definition pf_test_version :: "string \<Rightarrow> plain_fs \<Rightarrow> int" where
  "pf_test_version f s = dget_or (pf_versions s) f 1"

definition pf_create :: "os \<Rightarrow> string \<Rightarrow> plain_fs \<Rightarrow> plain_fs \<times> create_response" where
  "pf_create os f s =
     (if path_exists os (pf_disk s) (pf_path f) then (s, create_error ''File already exists'')
      else (case write_file os (pf_path f) [] (pf_disk s) of
              Inl x \<Rightarrow> (s, create_error (exn_str x))
            | Inr d \<Rightarrow> (s\<lparr>pf_disk := d, pf_versions := dset (pf_versions s) f 1\<rparr>,
                        \<lparr>cre_handle = 0, cre_success = True, cre_error = []\<rparr>)))"

text \<open>The locked section of \<open>open_file\<close>, once the contents \<open>b\<close> have been read.\<close>

definition pf_open_section :: "os \<Rightarrow> string \<Rightarrow> string \<Rightarrow> bytes \<Rightarrow> plain_fs \<Rightarrow> plain_fs \<times> open_response" where
  "pf_open_section os f mode b s =
     (let h = pf_next s;
          s1 = s\<lparr>pf_open := dset (pf_open s) h \<lparr>h_file = f, h_mode = mode\<rparr>, pf_next := h + 1\<rparr>;
          s2 = (if dget (pf_versions s1) f = None \<and> path_exists os (pf_disk s1) (pf_path f)
                then s1\<lparr>pf_versions := dset (pf_versions s1) f 1\<rparr> else s1)
      in (s2, \<lparr>opn_handle = h, opn_data = b, opn_version = dget_or (pf_versions s2) f 1, opn_success = True, opn_error = []\<rparr>))"

definition pf_open_file :: "os \<Rightarrow> string \<Rightarrow> string \<Rightarrow> bool \<Rightarrow> plain_fs \<Rightarrow> plain_fs \<times> open_response" where
  "pf_open_file os f mode fetch s =
     (if mode \<noteq> ''r'' \<and> mode \<noteq> ''w'' then (s, open_error mode_error)
      else if \<not> path_exists os (pf_disk s) (pf_path f) then (s, open_error ''File not found'')
      else if fetch then
        (case read_file os (pf_path f) (pf_disk s) of
           Inl x \<Rightarrow> (s, open_error (exn_str x))
         | Inr b \<Rightarrow> pf_open_section os f mode b s)
      else pf_open_section os f mode [] s)"

text \<open>\<open>close_file\<close> answers with the version whatever the mode of the handle.\<close>

definition pf_close_take :: "int \<Rightarrow> plain_fs \<Rightarrow> plain_fs \<times> handle_info option" where
  "pf_close_take h s = (s\<lparr>pf_open := dpop (pf_open s) h\<rparr>, dget (pf_open s) h)"

definition pf_close_write :: "os \<Rightarrow> string \<Rightarrow> bytes \<Rightarrow> int \<Rightarrow> plain_fs \<Rightarrow> plain_fs \<times> (exn + int)" where
  "pf_close_write os f b v s =
     (case write_file os (pf_path f) b (pf_disk s) of
        Inl x \<Rightarrow> (s, Inl x)
      | Inr d \<Rightarrow> (s\<lparr>pf_disk := d, pf_versions := dset (pf_versions s) f (v + 1)\<rparr>, Inr (v + 1)))"

definition pf_close_file :: "os \<Rightarrow> int \<Rightarrow> bytes \<Rightarrow> plain_fs \<Rightarrow> plain_fs \<times> close_response" where
  "pf_close_file os h b s =
     (case pf_close_take h s of
        (s1, None) \<Rightarrow> (s1, close_error ''Invalid file handle'')
      | (s1, Some i) \<Rightarrow>
          (let v = dget_or (pf_versions s1) (h_file i) 1 in
           if h_mode i = ''w'' then
             (case pf_close_write os (h_file i) b v s1 of
                (s2, Inl x) \<Rightarrow> (s2, close_error (exn_str x))
              | (s2, Inr v') \<Rightarrow> (s2, \<lparr>clo_success = True, clo_version = v', clo_error = []\<rparr>))
           else (s1, \<lparr>clo_success = True, clo_version = v, clo_error = []\<rparr>)))"

section \<open>Messages\<close>

text \<open>
  A request names a method and its arguments; one whose arguments do not fit the method, or which
  is no dictionary, makes the dispatcher raise.
\<close>

datatype plain_request =
    RqOpen string string bool
  | RqCreate string
  | RqClose int bytes
  | RqTestVersion string
  | RqOther string
  | RqMalformed

datatype plain_reply =
    ReOpen open_response
  | ReCreate create_response
  | ReClose close_response
  | ReVersion int
  | ReUnknown string

definition dispatch :: "os \<Rightarrow> plain_request \<Rightarrow> plain_fs \<Rightarrow> plain_fs \<times> plain_reply option" where
  "dispatch os q s =
     (case q of
        RqOpen f m fe \<Rightarrow> (let (s', r) = pf_open_file os f m fe s in (s', Some (ReOpen r)))
      | RqCreate f \<Rightarrow> (let (s', r) = pf_create os f s in (s', Some (ReCreate r)))
      | RqClose h b \<Rightarrow> (let (s', r) = pf_close_file os h b s in (s', Some (ReClose r)))
      | RqTestVersion f \<Rightarrow> (s, Some (ReVersion (pf_test_version f s)))
      | RqOther m \<Rightarrow> (s, Some (ReUnknown (''Unknown method: '' @ m)))
      | RqMalformed \<Rightarrow> (s, None))"

section \<open>Framing\<close>

text \<open>\<open>struct.pack("!Q", n)\<close> and its inverse: eight bytes, the highest first.\<close>

definition pack_q :: "nat \<Rightarrow> bytes option" where
  "pack_q n = (if n < 2 ^ 64 then Some (map (\<lambda>i. char_of ((n div 256 ^ i) mod 256)) (rev [0..<8])) else None)"

definition unpack_q :: "bytes \<Rightarrow> nat" where
  "unpack_q b = foldl (\<lambda>a c. 256 * a + of_char c) 0 b"

text \<open>\<open>None\<close>: \<open>struct.error\<close>, for a message of \<open>2 ^ 64\<close> bytes or more.\<close>

definition send_msg :: "('m \<Rightarrow> bytes) \<Rightarrow> 'm \<Rightarrow> bytes option" where
  "send_msg enc m = (let e = enc m in case pack_q (length e) of None \<Rightarrow> None | Some l \<Rightarrow> Some (l @ e))"

text \<open>
  What is still to arrive on a connection, in the pieces in which it arrives; \<open>recv(n)\<close> returns at
  most \<open>n\<close> bytes of the next piece, and nothing when the other side has closed.
\<close>

type_synonym sock = "bytes list"

definition recv :: "nat \<Rightarrow> sock \<Rightarrow> sock \<times> bytes" where
  "recv n k =
     (case k of [] \<Rightarrow> ([], [])
      | p # ps \<Rightarrow> if length p \<le> n then (ps, p) else (drop n p # ps, take n p))"

function recvall_from :: "nat \<Rightarrow> bytes \<Rightarrow> sock \<Rightarrow> sock \<times> bytes option" where
  "recvall_from n b k =
     (if length b < n then
        (let (k', p) = recv (n - length b) k
         in if p = [] then (k', None) else recvall_from n (b @ p) k')
      else (k, Some b))"
  by auto
termination
  by (relation "measure (\<lambda>(n, b, k). n - length b)") (auto simp flip: length_greater_0_conv)

declare recvall_from.simps [simp del]

definition recvall :: "nat \<Rightarrow> sock \<Rightarrow> sock \<times> bytes option" where
  "recvall n k = recvall_from n [] k"

text \<open>\<open>Inr None\<close>: the connection was closed; \<open>Inl\<close>: what arrived cannot be decoded.\<close>

definition recv_msg :: "(bytes \<Rightarrow> 'm option) \<Rightarrow> sock \<Rightarrow> sock \<times> (unit + 'm option)" where
  "recv_msg dec k =
     (case recvall 8 k of
        (k1, None) \<Rightarrow> (k1, Inr None)
      | (k1, Some l) \<Rightarrow>
          (case recvall (unpack_q l) k1 of
             (k2, None) \<Rightarrow> (k2, Inr None)
           | (k2, Some e) \<Rightarrow>
               if e = [] then (k2, Inr None)
               else (case dec e of None \<Rightarrow> (k2, Inl ()) | Some m \<Rightarrow> (k2, Inr (Some m)))))"

section \<open>One connection\<close>

text \<open>The bytes still to arrive; every message takes some.\<close>

definition arriving :: "sock \<Rightarrow> nat" where
  "arriving k = sum_list (map length k)"

lemma recv_arriving: "recv n k = (k', p) \<Longrightarrow> arriving k' + length p = arriving k \<and> length p \<le> n"
  by (auto simp: recv_def arriving_def split: list.splits if_splits)

lemma recvall_arriving:
  "recvall_from n b k = (k', Some r) \<Longrightarrow> arriving k' + length r = arriving k + length b \<and> n \<le> length r"
proof (induction n b k rule: recvall_from.induct)
  case (1 n b k)
  obtain k1 p where p: "recv (n - length b) k = (k1, p)" by fastforce
  show ?case
  proof (cases "length b < n")
    case False
    with "1.prems" show ?thesis by (simp add: recvall_from.simps [of n b k])
  next
    case True
    with "1.prems" p have e: "p \<noteq> []" "recvall_from n (b @ p) k1 = (k', Some r)"
      by (auto simp: recvall_from.simps [of n b k] split: if_splits)
    with "1.IH" [OF True p [symmetric] refl] recv_arriving [OF p] show ?thesis by simp
  qed
qed

lemma recv_msg_arriving: "recv_msg dec k = (k', Inr (Some m)) \<Longrightarrow> arriving k' < arriving k"
  by (auto simp: recv_msg_def recvall_def split: prod.splits option.splits if_splits dest!: recvall_arriving)

text \<open>
  \<open>handle_client\<close>: the state after the connection has ended, and what was sent, message by message.
  Any exception ends the connection.
\<close>

function handle_client ::
  "os \<Rightarrow> (bytes \<Rightarrow> plain_request option) \<Rightarrow> (plain_reply \<Rightarrow> bytes) \<Rightarrow> sock \<Rightarrow> plain_fs \<Rightarrow> plain_fs \<times> bytes list" where
  "handle_client os dec enc k s =
     (case recv_msg dec k of
        (k', Inr (Some q)) \<Rightarrow>
          (case dispatch os q s of
             (s', None) \<Rightarrow> (s', [])
           | (s', Some r) \<Rightarrow>
               (case send_msg enc r of
                  None \<Rightarrow> (s', [])
                | Some b \<Rightarrow> (let (s2, out) = handle_client os dec enc k' s' in (s2, b # out))))
      | _ \<Rightarrow> (s, []))"
  by auto
termination
  by (relation "measure (\<lambda>(os, dec, enc, k, s). arriving k)") (auto dest: recv_msg_arriving [OF sym])

declare handle_client.simps [simp del]

section \<open>The client\<close>

text \<open>
  One attempt at a call: the response, or no response (the connection was closed), or an exception
  of the network. All but a response make \<open>_call_rpc\<close> reconnect and send the request once more:
  \<open>ConnectionError\<close> is a \<open>socket.error\<close>.
\<close>

datatype 'r attempt = Got 'r | NoResponse | Broken string

definition call_rpc ::
  "('r \<Rightarrow> bool) \<Rightarrow> ('r \<Rightarrow> string) \<Rightarrow> string \<Rightarrow> (nat \<Rightarrow> 's \<Rightarrow> 's \<times> 'r attempt) \<Rightarrow> ('s \<Rightarrow> 's \<times> exn option) \<Rightarrow> 's
   \<Rightarrow> 's \<times> (exn + 'r)" where
  "call_rpc ok msg meth send reconnect s =
     (case send 0 s of
        (s1, Got r) \<Rightarrow> if ok r then (s1, Inr r) else (s1, Inl (PyException (''RPC '' @ meth @ '' failed: '' @ msg r)))
      | (s1, _) \<Rightarrow>
          (case reconnect s1 of
             (s2, Some x) \<Rightarrow> (s2, Inl x)
           | (s2, None) \<Rightarrow>
               (case send 1 s2 of
                  (s3, Got r) \<Rightarrow> if ok r then (s3, Inr r) else (s3, Inl (PyException (''Retry failed: '' @ msg r)))
                | (s3, NoResponse) \<Rightarrow> (s3, Inl (PyException ''Retry failed: No response''))
                | (s3, Broken m) \<Rightarrow> (s3, Inl (PyException m)))))"

text \<open>What reading a field of a response gives.\<close>

definition field :: "('r \<Rightarrow> 'a) \<Rightarrow> 's \<times> (exn + 'r) \<Rightarrow> 's \<times> (exn + 'a)" where
  "field get p = (fst p, case snd p of Inl x \<Rightarrow> Inl x | Inr r \<Rightarrow> Inr (get r))"

type_synonym ('s, 'r) sender = "plain_request \<Rightarrow> nat \<Rightarrow> 's \<Rightarrow> 's \<times> 'r attempt"

definition pc_create :: "('s, create_response) sender \<Rightarrow> ('s \<Rightarrow> 's \<times> exn option) \<Rightarrow> string \<Rightarrow> 's \<Rightarrow> 's \<times> (exn + int)" where
  "pc_create send re f s = field cre_handle (call_rpc cre_success cre_error ''create'' (send (RqCreate f)) re s)"

definition pc_test_version :: "('s, int) sender \<Rightarrow> ('s \<Rightarrow> 's \<times> exn option) \<Rightarrow> string \<Rightarrow> 's \<Rightarrow> 's \<times> (exn + int)" where
  "pc_test_version send re f s =
     call_rpc (\<lambda>_. True) (\<lambda>_. []) ''test_version_number'' (send (RqTestVersion f)) re s"

definition pc_open ::
  "os \<Rightarrow> string list \<Rightarrow> ('s, int) sender \<Rightarrow> ('s, open_response) sender \<Rightarrow> ('s \<Rightarrow> 's \<times> exn option) \<Rightarrow> string \<Rightarrow> string \<Rightarrow> cache \<Rightarrow> 's
   \<Rightarrow> cache \<times> 's \<times> (exn + int)" where
  "pc_open los names tv op re f mode =
     cache_open los names (pc_test_version tv re f)
       (\<lambda>fetch. call_rpc opn_success opn_error ''open'' (op (RqOpen f mode fetch)) re) f mode"

text \<open>Every response of \<open>close_file\<close> that succeeds has a \<open>new_version\<close>, which is never 0.\<close>

definition pc_close ::
  "os \<Rightarrow> string list \<Rightarrow> ('s, close_response) sender \<Rightarrow> ('s \<Rightarrow> 's \<times> exn option) \<Rightarrow> int \<Rightarrow> cache \<Rightarrow> 's
   \<Rightarrow> cache \<times> 's \<times> (exn + bool)" where
  "pc_close los names cl re h =
     cache_close_early los names (\<lambda>b. call_rpc clo_success clo_error ''close'' (cl (RqClose h b)) re) h"

text \<open>The rest of this stub is the same code as that of the gRPC client.\<close>

definition pc_cache_path :: "cache \<Rightarrow> string \<Rightarrow> int \<Rightarrow> string" where
  "pc_cache_path = cache_path"

definition pc_delete_old :: "os \<Rightarrow> string list \<Rightarrow> string \<Rightarrow> string \<Rightarrow> cache \<Rightarrow> cache \<times> exn option" where
  "pc_delete_old = delete_old"

definition pc_read :: "os \<Rightarrow> int \<Rightarrow> int \<Rightarrow> int \<Rightarrow> cache \<Rightarrow> exn + bytes" where
  "pc_read = cache_read"

definition pc_write :: "os \<Rightarrow> int \<Rightarrow> int \<Rightarrow> data \<Rightarrow> cache \<Rightarrow> cache \<times> (exn + nat)" where
  "pc_write = cache_write"

end
