(* ===== verification/Fs_Script.thy ===== *)
theory Fs_Script
  imports Client_Stubs Fs_Server Fs_Plain
begin

text \<open>
  The acceptance scripts of the single file servers: \<open>part1_filesystem/fs/client.py\<close> drives a client
  stub through 17 tests, \<open>part1_filesystem/fs_wo_grpc/client.py\<close> its own stub through the first 15 of
  them. The stub is an argument: a record of its calls on a state \<open>'s\<close>, with both stubs, each in
  front of its server, as instances. \<open>run_id\<close>, the number of the process, is an argument.

  What is printed is left out, but for the counts. \<open>None\<close> stands for a script that runs forever.
\<close>

section \<open>A stub as the scripts see it\<close>

record 's file_client =
  cl_create :: "string \<Rightarrow> 's \<Rightarrow> 's \<times> (exn + int)"
  cl_open :: "string \<Rightarrow> string \<Rightarrow> 's \<Rightarrow> 's \<times> (exn + int)"
  cl_read :: "int \<Rightarrow> int \<Rightarrow> int \<Rightarrow> 's \<Rightarrow> 's \<times> (exn + bytes)"
  cl_write :: "int \<Rightarrow> int \<Rightarrow> data \<Rightarrow> 's \<Rightarrow> 's \<times> (exn + nat)"
  cl_close :: "int \<Rightarrow> 's \<Rightarrow> 's \<times> (exn + bool)"
  cl_version :: "string \<Rightarrow> 's \<Rightarrow> 's \<times> (exn + int)"
  cl_cached :: "string \<Rightarrow> 's \<Rightarrow> 's \<times> (exn + int)"

record 's lock_client =
  lc_lock :: "string \<Rightarrow> int \<Rightarrow> 's \<Rightarrow> 's \<times> (exn + int)"
  lc_unlock :: "string \<Rightarrow> 's \<Rightarrow> 's \<times> (exn + bool)"
  lc_notes :: "'s \<Rightarrow> 's \<times> (exn + string list)"
  lc_wait :: "int \<Rightarrow> 's \<Rightarrow> ('s \<times> (exn + string list)) option"

record 's tally =
  ta_state :: 's
  ta_passed :: nat
  ta_failed :: nat

type_synonym ('s, 'a) act = "'s tally \<Rightarrow> ('s tally \<times> (exn + 'a)) option"

definition andthen :: "('s, 'a) act \<Rightarrow> ('a \<Rightarrow> ('s, 'b) act) \<Rightarrow> ('s, 'b) act" where
  "andthen m k t = (case m t of None \<Rightarrow> None | Some (t', Inl x) \<Rightarrow> Some (t', Inl x) | Some (t', Inr a) \<Rightarrow> k a t')"

definition perform :: "('s \<Rightarrow> 's \<times> (exn + 'a)) \<Rightarrow> ('s, 'a) act" where
  "perform f t = (let (s', r) = f (ta_state t) in Some (t\<lparr>ta_state := s'\<rparr>, r))"

definition perform_maybe :: "('s \<Rightarrow> ('s \<times> (exn + 'a)) option) \<Rightarrow> ('s, 'a) act" where
  "perform_maybe f t = (case f (ta_state t) of None \<Rightarrow> None | Some (s', r) \<Rightarrow> Some (t\<lparr>ta_state := s'\<rparr>, r))"

definition passed :: "('s, unit) act" where
  "passed t = Some (t\<lparr>ta_passed := Suc (ta_passed t)\<rparr>, Inr ())"

definition failed :: "('s, unit) act" where
  "failed t = Some (t\<lparr>ta_failed := Suc (ta_failed t)\<rparr>, Inr ())"

definition judge :: "bool \<Rightarrow> ('s, unit) act" where
  "judge b = (if b then passed else failed)"

definition expect_exception :: "('s, 'a) act \<Rightarrow> ('s, unit) act" where
  "expect_exception m t =
     (case m t of None \<Rightarrow> None | Some (t', Inl x) \<Rightarrow> passed t' | Some (t', Inr _) \<Rightarrow> failed t')"

section \<open>The tests\<close>

definition f_main :: "string \<Rightarrow> string" where "f_main run_id = ''input_fileno_001_'' @ run_id @ ''.txt''"
definition f_chunks :: "string \<Rightarrow> string" where "f_chunks run_id = ''res_'' @ run_id @ ''.txt''"
definition f_str :: "string \<Rightarrow> string" where "f_str run_id = ''str_write_'' @ run_id @ ''.txt''"
definition f_ver :: "string \<Rightarrow> string" where "f_ver run_id = ''version_'' @ run_id @ ''.txt''"
definition f_overwrite :: "string \<Rightarrow> string" where "f_overwrite run_id = ''overwrite_'' @ run_id @ ''.txt''"
definition f_lock :: "string \<Rightarrow> string" where "f_lock run_id = ''lock_'' @ run_id @ ''.txt''"
definition f_unlock :: "string \<Rightarrow> string" where "f_unlock run_id = ''unlock_'' @ run_id @ ''.txt''"
definition f_missing :: "string \<Rightarrow> string" where "f_missing run_id = ''does_not_exist_'' @ run_id @ ''.txt''"

definition payload :: bytes where
  "payload = ''Line 1: 2, 3, 5, 7'' @ [CHR 0x0A]"

definition test1 :: "'s file_client \<Rightarrow> string \<Rightarrow> ('s, unit) act" where
  "test1 cl f = andthen (perform (cl_create cl f)) (\<lambda>_. passed)"

definition test2 :: "'s file_client \<Rightarrow> string \<Rightarrow> ('s, unit) act" where
  "test2 cl f = expect_exception (perform (cl_create cl f))"

definition test3 :: "'s file_client \<Rightarrow> string \<Rightarrow> ('s, unit) act" where
  "test3 cl f = expect_exception (perform (cl_open cl f ''x''))"

definition test4 :: "'s file_client \<Rightarrow> string \<Rightarrow> ('s, unit) act" where
  "test4 cl f =
     andthen (perform (cl_open cl f ''w'')) (\<lambda>h.
     andthen (perform (cl_write cl h 0 (Bytes payload))) (\<lambda>written.
     andthen (perform (cl_close cl h)) (\<lambda>_.
     judge (written = length payload))))"

definition test5 :: "'s file_client \<Rightarrow> string \<Rightarrow> ('s, unit) act" where
  "test5 cl f =
     andthen (perform (cl_open cl f ''r'')) (\<lambda>h.
     andthen (perform (cl_read cl h 0 64)) (\<lambda>data.
     andthen (perform (cl_close cl h)) (\<lambda>_.
     judge (data = payload))))"

definition test6 :: "'s file_client \<Rightarrow> string \<Rightarrow> ('s, unit) act" where
  "test6 cl f =
     andthen (perform (cl_cached cl f)) (\<lambda>v_before.
     andthen (perform (cl_open cl f ''r'')) (\<lambda>h.
     andthen (perform (cl_read cl h 0 4)) (\<lambda>_.
     andthen (perform (cl_close cl h)) (\<lambda>_.
     andthen (perform (cl_cached cl f)) (\<lambda>v_after.
     judge (v_before = v_after))))))"

definition test7 :: "'s file_client \<Rightarrow> string \<Rightarrow> ('s, unit) act" where
  "test7 cl f =
     andthen (perform (cl_create cl f)) (\<lambda>_.
     andthen (perform (cl_open cl f ''w'')) (\<lambda>h.
     andthen (perform (cl_write cl h 0 (Bytes ''CHUNK_A|''))) (\<lambda>_.
     andthen (perform (cl_write cl h 16 (Bytes ''CHUNK_C|''))) (\<lambda>_.
     andthen (perform (cl_write cl h 8 (Bytes ''CHUNK_B|''))) (\<lambda>_.
     andthen (perform (cl_close cl h)) (\<lambda>_.
     andthen (perform (cl_open cl f ''r'')) (\<lambda>h.
     andthen (perform (cl_read cl h 0 24)) (\<lambda>full.
     andthen (perform (cl_read cl h 8 8)) (\<lambda>middle.
     andthen (perform (cl_close cl h)) (\<lambda>_.
     judge (full = ''CHUNK_A|CHUNK_B|CHUNK_C|'' \<and> middle = ''CHUNK_B|'')))))))))))"

definition test8 :: "'s file_client \<Rightarrow> string \<Rightarrow> ('s, unit) act" where
  "test8 cl f =
     andthen (perform (cl_create cl f)) (\<lambda>_.
     andthen (perform (cl_open cl f ''w'')) (\<lambda>h.
     andthen (perform (cl_write cl h 0 (Str ''hello-string''))) (\<lambda>n.
     andthen (perform (cl_close cl h)) (\<lambda>_.
     andthen (perform (cl_open cl f ''r'')) (\<lambda>h.
     andthen (perform (cl_read cl h 0 64)) (\<lambda>sdata.
     andthen (perform (cl_close cl h)) (\<lambda>_.
     judge (n = length ''hello-string'' \<and> sdata = ''hello-string''))))))))"

definition test9 :: "'s file_client \<Rightarrow> string \<Rightarrow> ('s, unit) act" where
  "test9 cl f =
     andthen (perform (cl_open cl f ''r'')) (\<lambda>h.
     andthen (perform (cl_read cl h 1000 10)) (\<lambda>eof_data.
     andthen (perform (cl_close cl h)) (\<lambda>_.
     judge (eof_data = []))))"

definition test10 :: "'s file_client \<Rightarrow> string \<Rightarrow> ('s, unit) act" where
  "test10 cl f = expect_exception (perform (cl_open cl f ''r''))"

definition test11 :: "'s file_client \<Rightarrow> ('s, unit) act" where
  "test11 cl = expect_exception (perform (cl_read cl 9999 0 10))"

definition test12 :: "'s file_client \<Rightarrow> ('s, unit) act" where
  "test12 cl = expect_exception (perform (cl_write cl 9999 0 (Bytes ''x'')))"

definition test13 :: "'s file_client \<Rightarrow> ('s, unit) act" where
  "test13 cl = expect_exception (perform (cl_close cl 9999))"

definition test14 :: "'s file_client \<Rightarrow> string \<Rightarrow> ('s, unit) act" where
  "test14 cl f =
     andthen (perform (cl_create cl f)) (\<lambda>_.
     andthen (perform (cl_version cl f)) (\<lambda>v1.
     andthen (perform (cl_open cl f ''w'')) (\<lambda>h.
     andthen (perform (cl_write cl h 0 (Bytes ''v2''))) (\<lambda>_.
     andthen (perform (cl_close cl h)) (\<lambda>_.
     andthen (perform (cl_version cl f)) (\<lambda>v2.
     andthen (perform (cl_open cl f ''w'')) (\<lambda>h.
     andthen (perform (cl_write cl h 0 (Bytes ''v3''))) (\<lambda>_.
     andthen (perform (cl_close cl h)) (\<lambda>_.
     andthen (perform (cl_version cl f)) (\<lambda>v3.
     judge (v1 = 1 \<and> v2 = 2 \<and> v3 = 3)))))))))))"

definition test15 :: "'s file_client \<Rightarrow> string \<Rightarrow> ('s, unit) act" where
  "test15 cl f =
     andthen (perform (cl_create cl f)) (\<lambda>_.
     andthen (perform (cl_open cl f ''w'')) (\<lambda>h.
     andthen (perform (cl_write cl h 0 (Bytes ''ABCDEF''))) (\<lambda>_.
     andthen (perform (cl_close cl h)) (\<lambda>_.
     andthen (perform (cl_open cl f ''w'')) (\<lambda>h.
     andthen (perform (cl_write cl h 2 (Bytes ''ZZ''))) (\<lambda>_.
     andthen (perform (cl_close cl h)) (\<lambda>_.
     andthen (perform (cl_open cl f ''r'')) (\<lambda>h.
     andthen (perform (cl_read cl h 0 64)) (\<lambda>final_data.
     andthen (perform (cl_close cl h)) (\<lambda>_.
     judge (final_data = ''ABZZEF'')))))))))))"

definition test16 :: "'s file_client \<Rightarrow> 's lock_client \<Rightarrow> string \<Rightarrow> ('s, unit) act" where
  "test16 cl lc f =
     andthen (perform (cl_create cl f)) (\<lambda>_.
     andthen (perform (cl_open cl f ''w'')) (\<lambda>h.
     andthen (perform (cl_write cl h 0 (Bytes ''lock-protected-data''))) (\<lambda>_.
     andthen (perform (lc_lock lc f 2)) (\<lambda>_.
     andthen (expect_exception (perform (cl_close cl h))) (\<lambda>_.
     andthen (perform_maybe (lc_wait lc 5)) (\<lambda>notifications.
     andthen (judge (notifications \<noteq> [] \<and> sublist ''timed out'' (hd notifications))) (\<lambda>_.
     andthen (perform (cl_close cl h)) (\<lambda>_.
     andthen (perform (cl_open cl f ''r'')) (\<lambda>h.
     andthen (perform (cl_read cl h 0 64)) (\<lambda>locked_data.
     andthen (perform (cl_close cl h)) (\<lambda>_.
     judge (locked_data = ''lock-protected-data''))))))))))))"

definition test17 :: "'s file_client \<Rightarrow> 's lock_client \<Rightarrow> string \<Rightarrow> ('s, unit) act" where
  "test17 cl lc f =
     andthen (perform (cl_create cl f)) (\<lambda>_.
     andthen (perform (cl_open cl f ''w'')) (\<lambda>h.
     andthen (perform (cl_write cl h 0 (Bytes ''manual-unlock-data''))) (\<lambda>_.
     andthen (perform (lc_lock lc f 15)) (\<lambda>_.
     andthen (perform (lc_unlock lc f)) (\<lambda>_.
     andthen (perform (cl_close cl h)) (\<lambda>_.
     andthen (perform (lc_notes lc)) (\<lambda>messages.
     andthen (judge (list_ex (sublist ''released explicitly'') messages)) (\<lambda>_.
     andthen (perform (cl_open cl f ''r'')) (\<lambda>h.
     andthen (perform (cl_read cl h 0 64)) (\<lambda>unlocked_data.
     andthen (perform (cl_close cl h)) (\<lambda>_.
     judge (unlocked_data = ''manual-unlock-data''))))))))))))"

section \<open>The scripts\<close>

text \<open>\<open>run_exhaustive_tests\<close> of \<open>fs_wo_grpc/client.py\<close>, then that of \<open>fs/client.py\<close>.\<close>

fun in_order :: "('s, unit) act list \<Rightarrow> ('s, unit) act" where
  "in_order [] = (\<lambda>t. Some (t, Inr ()))"
| "in_order (m # ms) = andthen m (\<lambda>_. in_order ms)"

definition plain_script :: "'s file_client \<Rightarrow> string \<Rightarrow> ('s, unit) act" where
  "plain_script cl run_id =
     in_order [test1 cl (f_main run_id), test2 cl (f_main run_id), test3 cl (f_main run_id), test4 cl (f_main run_id),
       test5 cl (f_main run_id), test6 cl (f_main run_id), test7 cl (f_chunks run_id), test8 cl (f_str run_id),
       test9 cl (f_str run_id), test10 cl (f_missing run_id), test11 cl, test12 cl, test13 cl,
       test14 cl (f_ver run_id), test15 cl (f_overwrite run_id)]"

definition run_exhaustive_tests :: "'s file_client \<Rightarrow> 's lock_client \<Rightarrow> string \<Rightarrow> ('s, unit) act" where
  "run_exhaustive_tests cl lc run_id =
     in_order [plain_script cl run_id, test16 cl lc (f_lock run_id), test17 cl lc (f_unlock run_id)]"

end
