(* ===== verification/Fs_Session.thy ===== *)
theory Fs_Session
  imports Fs_Script Client_Cache_Theorems
begin

text \<open>
  A client alone with its server: the contract of a file client with one open handle at a time
  (\<open>file_session\<close>), under which the acceptance script passes, and the contract of a server
  (\<open>versioned_server\<close>), under which the cache of the client stubs provides the first.
\<close>

section \<open>What a script does\<close>

definition outcome :: "('s, 'a) act \<Rightarrow> 's tally \<Rightarrow> ('s tally \<Rightarrow> 'a \<Rightarrow> bool) \<Rightarrow> bool" where
  "outcome m t Q \<longleftrightarrow> (\<exists>t' a. m t = Some (t', Inr a) \<and> Q t' a)"

abbreviation tally :: "'s \<Rightarrow> nat \<Rightarrow> nat \<Rightarrow> 's tally" where
  "tally s p n \<equiv> \<lparr>ta_state = s, ta_passed = p, ta_failed = n\<rparr>"

lemma outcome_andthen: "outcome (andthen m k) t Q \<longleftrightarrow> outcome m t (\<lambda>t' a. outcome (k a) t' Q)"
  by (auto simp: outcome_def andthen_def split: option.splits sum.splits)

lemma outcome_perform: "f s = (s', Inr a) \<Longrightarrow> outcome (k a) (tally s' p n) Q \<Longrightarrow> outcome (andthen (perform f) k) (tally s p n) Q"
  by (auto simp: outcome_andthen outcome_def [of "perform f"] perform_def)

lemma outcome_perform_maybe:
  "f s = Some (s', Inr a) \<Longrightarrow> outcome (k a) (tally s' p n) Q \<Longrightarrow> outcome (andthen (perform_maybe f) k) (tally s p n) Q"
  by (auto simp: outcome_andthen outcome_def [of "perform_maybe f"] perform_maybe_def)

lemma outcome_passed: "outcome passed (tally s p n) Q \<longleftrightarrow> Q (tally s (Suc p) n) ()"
  by (simp add: outcome_def passed_def)

lemma outcome_judge: "b \<and> Q (tally s (Suc p) n) () \<Longrightarrow> outcome (judge b) (tally s p n) Q"
  by (simp add: judge_def outcome_passed)

lemma outcome_expect: "f s = (s', Inl x) \<Longrightarrow> Q (tally s' (Suc p) n) () \<Longrightarrow> outcome (expect_exception (perform f)) (tally s p n) Q"
  by (simp add: outcome_def expect_exception_def perform_def passed_def)

lemma outcome_mono: "outcome m t P \<Longrightarrow> (\<And>t' a. P t' a \<Longrightarrow> Q t' a) \<Longrightarrow> outcome m t Q"
  by (auto simp: outcome_def)

lemma outcome_Nil: "outcome (in_order []) t Q \<longleftrightarrow> Q t ()"
  by (simp add: outcome_def)

lemma outcome_Cons: "outcome (in_order (m # ms)) t Q \<longleftrightarrow> outcome m t (\<lambda>t' _. outcome (in_order ms) t' Q)"
  by (simp add: outcome_andthen)

lemma script_name_eqs [simp]:
  "f_main r \<noteq> f_chunks r" "f_main r \<noteq> f_str r" "f_main r \<noteq> f_ver r" "f_main r \<noteq> f_overwrite r" "f_main r \<noteq> f_missing r"
  "f_chunks r \<noteq> f_str r" "f_chunks r \<noteq> f_ver r" "f_chunks r \<noteq> f_overwrite r" "f_chunks r \<noteq> f_missing r"
  "f_str r \<noteq> f_ver r" "f_str r \<noteq> f_overwrite r" "f_str r \<noteq> f_missing r" "f_ver r \<noteq> f_overwrite r" "f_ver r \<noteq> f_missing r"
  "f_overwrite r \<noteq> f_missing r" "f_lock r \<noteq> f_unlock r"
  by (simp_all add: f_main_def f_chunks_def f_str_def f_ver_def f_overwrite_def f_missing_def f_lock_def f_unlock_def)

text \<open>The files the first 15 tests make; no other file is changed.\<close>

definition script_files :: "string \<Rightarrow> string set" where
  "script_files r = {f_main r, f_chunks r, f_str r, f_ver r, f_overwrite r}"

lemma script_files_other [simp]: "f_missing r \<notin> script_files r" "f_lock r \<notin> script_files r" "f_unlock r \<notin> script_files r"
  by (auto simp: script_files_def f_main_def f_chunks_def f_str_def f_ver_def f_overwrite_def f_missing_def f_lock_def f_unlock_def)

section \<open>The contract of a client\<close>

text \<open>
  \<open>stored s f\<close> is the version and the contents the server has for the file \<open>f\<close>; \<open>ready s\<close>: no handle is
  open; \<open>holds s h f m b\<close>: the only open handle is \<open>h\<close>, for \<open>f\<close> in mode \<open>m\<close>, and reads and edits a
  local copy with contents \<open>b\<close>. \<open>F\<close>: the files the client may use.
\<close>

definition spliced :: "nat \<Rightarrow> bytes \<Rightarrow> bytes \<Rightarrow> bytes" where
  "spliced off b c = (if b = [] then c else take off c @ replicate (off - length c) (CHR 0x00) @ b @ drop (off + length b) c)"

locale file_session =
  fixes cl :: "'s file_client"
    and ready :: "'s \<Rightarrow> bool"
    and holds :: "'s \<Rightarrow> int \<Rightarrow> string \<Rightarrow> string \<Rightarrow> bytes \<Rightarrow> bool"
    and stored :: "'s \<Rightarrow> string \<Rightarrow> (int \<times> bytes) option"
    and known :: "'s \<Rightarrow> string \<Rightarrow> int option"
    and F :: "string set"
  assumes create_new: "ready s \<Longrightarrow> f \<in> F \<Longrightarrow> stored s f = None
      \<Longrightarrow> \<exists>s' x. cl_create cl f s = (s', Inr x) \<and> ready s' \<and> stored s' = (stored s)(f \<mapsto> (1, []))"
    and create_again: "ready s \<Longrightarrow> f \<in> F \<Longrightarrow> stored s f \<noteq> None
      \<Longrightarrow> \<exists>s' x. cl_create cl f s = (s', Inl x) \<and> ready s' \<and> stored s' = stored s"
    and open_mode: "ready s \<Longrightarrow> m \<notin> {''r'', ''w''} \<Longrightarrow> \<exists>x. cl_open cl f m s = (s, Inl x)"
    and open_missing: "ready s \<Longrightarrow> f \<in> F \<Longrightarrow> stored s f = None
      \<Longrightarrow> \<exists>s' x. cl_open cl f ''r'' s = (s', Inl x) \<and> ready s' \<and> stored s' = stored s"
    and opens: "ready s \<Longrightarrow> f \<in> F \<Longrightarrow> stored s f = Some (v, b) \<Longrightarrow> m \<in> {''r'', ''w''}
      \<Longrightarrow> \<exists>s' h. cl_open cl f m s = (s', Inr h) \<and> holds s' h f m b \<and> stored s' = stored s \<and> known s' f = Some v"
    and reads: "holds s h f m b \<Longrightarrow> 0 \<le> off \<Longrightarrow> 0 \<le> n \<Longrightarrow> cl_read cl h off n s = (s, Inr (take (nat n) (drop (nat off) b)))"
    and writes: "holds s h f m b \<Longrightarrow> 0 \<le> off
      \<Longrightarrow> \<exists>s'. cl_write cl h off d s = (s', Inr (length (as_bytes d))) \<and> holds s' h f m (spliced (nat off) (as_bytes d) b)
            \<and> stored s' = stored s"
    and closes_write: "holds s h f ''w'' b \<Longrightarrow> stored s f = Some (v, b0)
      \<Longrightarrow> \<exists>s'. cl_close cl h s = (s', Inr True) \<and> ready s' \<and> stored s' = (stored s)(f \<mapsto> (v + 1, b))"
    and closes_read: "holds s h f ''r'' b \<Longrightarrow> stored s f = Some (v, b)
      \<Longrightarrow> \<exists>s'. cl_close cl h s = (s', Inr True) \<and> ready s' \<and> stored s' = stored s \<and> known s' f = known s f"
    and no_handle: "ready s \<Longrightarrow> \<exists>x y z. cl_read cl h off n s = (s, Inl x) \<and> cl_write cl h off d s = (s, Inl y) \<and> cl_close cl h s = (s, Inl z)"
    and version: "ready s \<Longrightarrow> f \<in> F \<Longrightarrow> stored s f = Some (v, b)
      \<Longrightarrow> \<exists>s'. cl_version cl f s = (s', Inr v) \<and> ready s' \<and> stored s' = stored s"
    and cached: "known s f = Some v \<Longrightarrow> cl_cached cl f s = (s, Inr v)"

section \<open>The script passes\<close>

context file_session
begin

lemma create_wp:
  assumes "ready s" "f \<in> F \<and> stored s f = None"
    and "\<And>s' x. ready s' \<Longrightarrow> stored s' = (stored s)(f \<mapsto> (1, [])) \<Longrightarrow> outcome (k x) (tally s' p n) Q"
  shows "outcome (andthen (perform (cl_create cl f)) k) (tally s p n) Q"
  using create_new [OF assms(1)] assms(2,3) by (blast intro: outcome_perform)

lemma open_wp:
  assumes "ready s" "f \<in> F \<and> stored s f \<noteq> None \<and> m \<in> {''r'', ''w''}"
    and "\<And>s' h. holds s' h f m (snd (the (stored s f))) \<Longrightarrow> stored s' = stored s \<Longrightarrow> known s' f = Some (fst (the (stored s f)))
      \<Longrightarrow> outcome (k h) (tally s' p n) Q"
  shows "outcome (andthen (perform (cl_open cl f m)) k) (tally s p n) Q"
proof -
  obtain v b where "stored s f = Some (v, b)" using assms(2) by auto
  with opens [OF assms(1), of f v b m] assms(2,3) show ?thesis by (auto intro: outcome_perform)
qed

lemma read_wp:
  assumes "holds s h f m b" "0 \<le> off \<and> 0 \<le> i" "outcome (k (take (nat i) (drop (nat off) b))) (tally s p n) Q"
  shows "outcome (andthen (perform (cl_read cl h off i)) k) (tally s p n) Q"
  by (rule outcome_perform) (use assms reads [OF assms(1)] in auto)

lemma write_wp:
  assumes "holds s h f m b" "0 \<le> off"
    and "\<And>s'. holds s' h f m (spliced (nat off) (as_bytes d) b) \<Longrightarrow> stored s' = stored s
      \<Longrightarrow> outcome (k (length (as_bytes d))) (tally s' p n) Q"
  shows "outcome (andthen (perform (cl_write cl h off d)) k) (tally s p n) Q"
  using writes [OF assms(1,2), of d] assms(3) by (blast intro: outcome_perform)

lemma close_write_wp:
  assumes "holds s h f ''w'' b" "stored s f \<noteq> None"
    and "\<And>s'. ready s' \<Longrightarrow> stored s' = (stored s)(f \<mapsto> (fst (the (stored s f)) + 1, b)) \<Longrightarrow> outcome (k True) (tally s' p n) Q"
  shows "outcome (andthen (perform (cl_close cl h)) k) (tally s p n) Q"
proof -
  obtain v b0 where "stored s f = Some (v, b0)" using assms(2) by auto
  with closes_write [OF assms(1), of v b0] assms(3) show ?thesis by (auto intro: outcome_perform)
qed

lemma close_read_wp:
  assumes "holds s h f ''r'' b" "\<exists>v. stored s f = Some (v, b)"
    and "\<And>s'. ready s' \<Longrightarrow> stored s' = stored s \<Longrightarrow> known s' f = known s f \<Longrightarrow> outcome (k True) (tally s' p n) Q"
  shows "outcome (andthen (perform (cl_close cl h)) k) (tally s p n) Q"
  using closes_read [OF assms(1)] assms(2,3) by (blast intro: outcome_perform)

lemma version_wp:
  assumes "ready s" "f \<in> F \<and> stored s f \<noteq> None"
    and "\<And>s'. ready s' \<Longrightarrow> stored s' = stored s \<Longrightarrow> outcome (k (fst (the (stored s f)))) (tally s' p n) Q"
  shows "outcome (andthen (perform (cl_version cl f)) k) (tally s p n) Q"
proof -
  obtain v b where "stored s f = Some (v, b)" using assms(2) by auto
  with version [OF assms(1), of f v b] assms(2,3) show ?thesis by (auto intro: outcome_perform)
qed

lemma cached_wp:
  assumes "known s f = Some v" "outcome (k v) (tally s p n) Q"
  shows "outcome (andthen (perform (cl_cached cl f)) k) (tally s p n) Q"
  by (rule outcome_perform) (use assms cached in auto)

lemmas wp = create_wp open_wp read_wp write_wp close_write_wp close_read_wp version_wp

lemma test1_passes:
  "ready s \<Longrightarrow> f \<in> F \<and> stored s f = None \<Longrightarrow>
   (\<And>s'. ready s' \<Longrightarrow> stored s' = (stored s)(f \<mapsto> (1, [])) \<Longrightarrow> Q (tally s' (Suc p) n) ()) \<Longrightarrow> outcome (test1 cl f) (tally s p n) Q"
  unfolding test1_def by (rule create_wp, assumption, simp, simp add: outcome_passed)

lemma test2_passes:
  assumes "ready s" "f \<in> F \<and> stored s f \<noteq> None" "\<And>s'. ready s' \<Longrightarrow> stored s' = stored s \<Longrightarrow> Q (tally s' (Suc p) n) ()"
  shows "outcome (test2 cl f) (tally s p n) Q"
  unfolding test2_def using create_again [OF assms(1)] assms(2,3) by (blast intro: outcome_expect)

lemma test3_passes:
  assumes "ready s" "Q (tally s (Suc p) n) ()"
  shows "outcome (test3 cl f) (tally s p n) Q"
  unfolding test3_def using open_mode [OF assms(1), of "''x''"] assms(2) by (auto intro: outcome_expect)

lemma test4_passes:
  assumes "ready s" "f \<in> F \<and> stored s f = Some (v, [])"
    and "\<And>s'. ready s' \<Longrightarrow> stored s' = (stored s)(f \<mapsto> (v + 1, payload)) \<Longrightarrow> Q (tally s' (Suc p) n) ()"
  shows "outcome (test4 cl f) (tally s p n) Q"
  unfolding test4_def
  apply (insert assms(1,2))
  apply (rule wp, assumption, simp)+
  apply (rule outcome_judge)
  apply (simp add: assms(3) spliced_def as_bytes_def)
  done

lemma test5_passes:
  assumes "ready s" "f \<in> F \<and> stored s f = Some (v, payload)"
    and "\<And>s'. ready s' \<Longrightarrow> stored s' = stored s \<Longrightarrow> known s' f = Some v \<Longrightarrow> Q (tally s' (Suc p) n) ()"
  shows "outcome (test5 cl f) (tally s p n) Q"
  unfolding test5_def
  apply (insert assms(1,2))
  apply (rule wp, assumption, simp)+
  apply (rule outcome_judge)
  apply (simp add: assms(3) payload_def)
  done

lemma test6_passes:
  assumes "ready s" "f \<in> F \<and> stored s f = Some (v, b)" "known s f = Some v"
    and "\<And>s'. ready s' \<Longrightarrow> stored s' = stored s \<Longrightarrow> Q (tally s' (Suc p) n) ()"
  shows "outcome (test6 cl f) (tally s p n) Q"
  unfolding test6_def
  apply (rule cached_wp [OF assms(3)])
  apply (insert assms(1,2))
  apply (rule wp, assumption, simp)+
  apply (rule cached_wp [where v = v], simp)
  apply (rule outcome_judge)
  apply (simp add: assms(4))
  done

lemma test7_passes:
  assumes "ready s" "f \<in> F \<and> stored s f = None"
    and "\<And>s' x. ready s' \<Longrightarrow> stored s' = (stored s)(f \<mapsto> x) \<Longrightarrow> Q (tally s' (Suc p) n) ()"
  shows "outcome (test7 cl f) (tally s p n) Q"
  unfolding test7_def
  apply (insert assms(1,2))
  apply (rule wp, assumption, simp)+
  apply (rule outcome_judge)
  apply (simp add: assms(3) spliced_def as_bytes_def)
  done

lemma test8_passes:
  assumes "ready s" "f \<in> F \<and> stored s f = None"
    and "\<And>s'. ready s' \<Longrightarrow> stored s' = (stored s)(f \<mapsto> (2, ''hello-string'')) \<Longrightarrow> Q (tally s' (Suc p) n) ()"
  shows "outcome (test8 cl f) (tally s p n) Q"
  unfolding test8_def
  apply (insert assms(1,2))
  apply (rule wp, assumption, simp)+
  apply (rule outcome_judge)
  apply (simp add: assms(3) spliced_def as_bytes_def)
  done

lemma test9_passes:
  assumes "ready s" "f \<in> F \<and> (\<exists>v b. stored s f = Some (v, b) \<and> length b \<le> 1000)"
    and "\<And>s'. ready s' \<Longrightarrow> stored s' = stored s \<Longrightarrow> Q (tally s' (Suc p) n) ()"
  shows "outcome (test9 cl f) (tally s p n) Q"
proof -
  obtain v b where b: "f \<in> F" "stored s f = Some (v, b)" "length b \<le> 1000" using assms(2) by blast
  show ?thesis
    unfolding test9_def
    apply (insert assms(1) b)
    apply (rule wp, assumption, simp)+
    apply (rule outcome_judge)
    apply (simp add: assms(3))
    done
qed

lemma test10_passes:
  assumes "ready s" "f \<in> F \<and> stored s f = None" "\<And>s'. ready s' \<Longrightarrow> stored s' = stored s \<Longrightarrow> Q (tally s' (Suc p) n) ()"
  shows "outcome (test10 cl f) (tally s p n) Q"
  unfolding test10_def using open_missing [OF assms(1)] assms(2,3) by (blast intro: outcome_expect)

lemma bad_handle_tests_pass:
  assumes "ready s" "Q (tally s (Suc p) n) ()"
  shows "outcome (test11 cl) (tally s p n) Q" "outcome (test12 cl) (tally s p n) Q" "outcome (test13 cl) (tally s p n) Q"
  unfolding test11_def test12_def test13_def using no_handle [OF assms(1)] assms(2) by (metis outcome_expect)+

lemma test14_passes:
  assumes "ready s" "f \<in> F \<and> stored s f = None"
    and "\<And>s' x. ready s' \<Longrightarrow> stored s' = (stored s)(f \<mapsto> x) \<Longrightarrow> Q (tally s' (Suc p) n) ()"
  shows "outcome (test14 cl f) (tally s p n) Q"
  unfolding test14_def
  apply (insert assms(1,2))
  apply (rule wp, assumption, simp)+
  apply (rule outcome_judge)
  apply (simp add: assms(3))
  done

lemma test15_passes:
  assumes "ready s" "f \<in> F \<and> stored s f = None"
    and "\<And>s' x. ready s' \<Longrightarrow> stored s' = (stored s)(f \<mapsto> x) \<Longrightarrow> Q (tally s' (Suc p) n) ()"
  shows "outcome (test15 cl f) (tally s p n) Q"
  unfolding test15_def
  apply (insert assms(1,2))
  apply (rule wp, assumption, simp)+
  apply (rule outcome_judge)
  apply (simp add: assms(3) spliced_def as_bytes_def)
  done

lemma plain_script_passes:
  assumes "ready s" "\<forall>f\<in>insert (f_missing r) (script_files r). f \<in> F \<and> stored s f = None"
    and Q: "\<And>s' p'. ready s' \<Longrightarrow> \<forall>f. f \<notin> script_files r \<longrightarrow> stored s' f = stored s f \<Longrightarrow> p' = p + 15 \<Longrightarrow> Q (tally s' p' n) ()"
  shows "outcome (plain_script cl r) (tally s p n) Q"
proof -
  have F: "f_main r \<in> F" "f_chunks r \<in> F" "f_str r \<in> F" "f_ver r \<in> F" "f_overwrite r \<in> F" "f_missing r \<in> F"
    and N: "stored s (f_main r) = None" "stored s (f_chunks r) = None" "stored s (f_str r) = None" "stored s (f_ver r) = None"
      "stored s (f_overwrite r) = None" "stored s (f_missing r) = None"
    using assms(2) by (auto simp: script_files_def)
  note o' = script_name_eqs [symmetric]
  show ?thesis
    unfolding plain_script_def outcome_Cons outcome_Nil
    apply (insert assms(1) F N)
    apply (rule test1_passes, assumption, simp)
    apply (rule test2_passes, assumption, simp)
    apply (rule test3_passes, assumption)
    apply (rule test4_passes, assumption, simp)
    apply (rule test5_passes, assumption, simp)
    apply (rule test6_passes, assumption, simp, simp)
    apply (rule test7_passes, assumption, simp add: o')
    apply (rule test8_passes, assumption, simp add: o')
    apply (rule test9_passes, assumption, simp)
    apply (rule test10_passes, assumption, simp add: o')
    apply (rule bad_handle_tests_pass, assumption)+
    apply (rule test14_passes, assumption, simp add: o')
    apply (rule test15_passes, assumption, simp add: o')
    apply (rule Q, assumption)
    apply (simp_all add: script_files_def)
    done
qed

end
section \<open>A cache in front of a server\<close>

record 's client_session =
  se_cache :: cache
  se_server :: 's

definition session_client ::
  "(string \<Rightarrow> 's \<Rightarrow> 's \<times> (exn + int)) \<Rightarrow> (string \<Rightarrow> string \<Rightarrow> cache \<Rightarrow> 's \<Rightarrow> cache \<times> 's \<times> (exn + int))
   \<Rightarrow> (int \<Rightarrow> int \<Rightarrow> int \<Rightarrow> cache \<Rightarrow> exn + bytes) \<Rightarrow> (int \<Rightarrow> int \<Rightarrow> data \<Rightarrow> cache \<Rightarrow> cache \<times> (exn + nat))
   \<Rightarrow> (int \<Rightarrow> cache \<Rightarrow> 's \<Rightarrow> cache \<times> 's \<times> (exn + bool)) \<Rightarrow> (string \<Rightarrow> 's \<Rightarrow> 's \<times> (exn + int)) \<Rightarrow> 's client_session file_client" where
  "session_client cr op rd wr cl tv =
     \<lparr>cl_create = \<lambda>f w. let (s, r) = cr f (se_server w) in (w\<lparr>se_server := s\<rparr>, r),
      cl_open = \<lambda>f m w. let (c, s, r) = op f m (se_cache w) (se_server w) in (\<lparr>se_cache = c, se_server = s\<rparr>, r),
      cl_read = \<lambda>h off n w. (w, rd h off n (se_cache w)),
      cl_write = \<lambda>h off d w. let (c, r) = wr h off d (se_cache w) in (w\<lparr>se_cache := c\<rparr>, r),
      cl_close = \<lambda>h w. let (c, s, r) = cl h (se_cache w) (se_server w) in (\<lparr>se_cache = c, se_server = s\<rparr>, r),
      cl_version = \<lambda>f w. let (s, r) = tv f (se_server w) in (w\<lparr>se_server := s\<rparr>, r),
      cl_cached = \<lambda>f w. (w, case dget (ca_meta (se_cache w)) f of None \<Rightarrow> Inl (KeyError f) | Some (v, p) \<Rightarrow> Inr v)\<rparr>"

text \<open>A client whose state is a part of a larger one.\<close>

definition with_part :: "('z \<Rightarrow> 's) \<Rightarrow> ('s \<Rightarrow> 'z \<Rightarrow> 'z) \<Rightarrow> ('s \<Rightarrow> 's \<times> 'r) \<Rightarrow> 'z \<Rightarrow> 'z \<times> 'r" where
  "with_part get put f z = (let (s, r) = f (get z) in (put s z, r))"

definition client_part :: "('z \<Rightarrow> 's) \<Rightarrow> ('s \<Rightarrow> 'z \<Rightarrow> 'z) \<Rightarrow> 's file_client \<Rightarrow> 'z file_client" where
  "client_part get put cl =
     \<lparr>cl_create = \<lambda>f. with_part get put (cl_create cl f), cl_open = \<lambda>f m. with_part get put (cl_open cl f m),
      cl_read = \<lambda>h off n. with_part get put (cl_read cl h off n), cl_write = \<lambda>h off d. with_part get put (cl_write cl h off d),
      cl_close = \<lambda>h. with_part get put (cl_close cl h), cl_version = \<lambda>f. with_part get put (cl_version cl f),
      cl_cached = \<lambda>f. with_part get put (cl_cached cl f)\<rparr>"

lemma client_part_simps [simp]:
  "cl_create (client_part get put cl) f = with_part get put (cl_create cl f)"
  "cl_open (client_part get put cl) f m = with_part get put (cl_open cl f m)"
  "cl_read (client_part get put cl) h off n = with_part get put (cl_read cl h off n)"
  "cl_write (client_part get put cl) h off d = with_part get put (cl_write cl h off d)"
  "cl_close (client_part get put cl) h = with_part get put (cl_close cl h)"
  "cl_version (client_part get put cl) f = with_part get put (cl_version cl f)"
  by (simp_all add: client_part_def)

text \<open>
  The cache directory: the cached copies of the files in \<open>F\<close> are files of their own, and nothing the
  directory lists is a directory.
\<close>

definition cache_dir_ok :: "os \<Rightarrow> string \<Rightarrow> (cache \<Rightarrow> string list) \<Rightarrow> string set \<Rightarrow> bool" where
  "cache_dir_ok los dir ls F \<longleftrightarrow>
     (\<forall>f\<in>F. \<forall>v. \<exists>l. los (path_join dir (cache_name f v)) = File l)
     \<and> (\<forall>f\<in>F. \<forall>g\<in>F. \<forall>v w. los (path_join dir (cache_name f v)) = los (path_join dir (cache_name g w)) \<longrightarrow> f = g \<and> v = w)
     \<and> (\<forall>c. \<forall>e\<in>set (ls c). los (path_join dir e) \<noteq> Directory)"

lemma flat_cache: "cache_dir_ok flat_disk (CHR ''c'' # dir) ls F"
  by (auto simp: cache_dir_ok_def flat_disk_def cache_name_inj dest!: path_join_inj [rotated 2])

definition copy_ok :: "os \<Rightarrow> string \<Rightarrow> string set \<Rightarrow> (string \<Rightarrow> (int \<times> bytes) option) \<Rightarrow> disk \<Rightarrow> string \<Rightarrow> int \<Rightarrow> string \<Rightarrow> bool" where
  "copy_ok los dir F st d f v p \<longleftrightarrow> f \<in> F \<and> p = path_join dir (cache_name f v)
     \<and> (\<exists>w b. st f = Some (w, b) \<and> (v = w \<longrightarrow> contents los d p \<in> {None, Some b}))"

definition in_sync :: "os \<Rightarrow> string \<Rightarrow> string set \<Rightarrow> (string \<Rightarrow> (int \<times> bytes) option) \<Rightarrow> string set \<Rightarrow> cache \<Rightarrow> bool" where
  "in_sync los dir F st X c \<longleftrightarrow> ca_dir c = dir \<and>
     (\<forall>f v p. f \<notin> X \<and> dget (ca_meta c) f = Some (v, p) \<longrightarrow> copy_ok los dir F st (ca_disk c) f v p)"

lemma delete_old_returns:
  assumes "\<forall>e\<in>set names. os (path_join (ca_dir c) e) \<noteq> Directory"
  shows "snd (delete_old os names f keep c) = None"
  using assms by (induction names arbitrary: c) (auto simp: Let_def remove_file_def split: sum.split option.split loc.splits)

lemma cache_store_returns:
  assumes "los (cache_path c f (opn_version a)) = File l" "\<forall>e\<in>set names. los (path_join (ca_dir c) e) \<noteq> Directory"
  shows "snd (cache_store los names f m a c) = Inr (opn_handle a)"
proof -
  obtain d where d: "write_file los (cache_path c f (opn_version a)) (opn_data a) (ca_disk c) = Inr d"
    using assms(1) by (simp add: write_file_def)
  let ?c = "c\<lparr>ca_disk := d, ca_meta := dset (ca_meta c) f (opn_version a, cache_path c f (opn_version a))\<rparr>"
  have "snd (delete_old los names f (cache_path c f (opn_version a)) ?c) = None"
    by (rule delete_old_returns) (use assms(2) in simp)
  with d show ?thesis by (auto simp: cache_store_def Let_def split: prod.split)
qed

lemma move_to_returns:
  assumes "os p = File l" "os q = File k" "contents os d p = Some b"
  shows "\<exists>d'. move_to os p q d = Inr d'"
  using assms by (auto simp: move_to_def path_exists_def remove_file_def replace_file_def read_file_def write_file_def contents_def
      split: option.split)

lemma cache_renew_returns:
  assumes "los p = File l" "los (cache_path c f v) = File k" "contents los (ca_disk c) p = Some b"
    and "\<forall>e\<in>set names. los (path_join (ca_dir c) e) \<noteq> Directory"
  shows "snd (cache_renew los names p f v c) = Inr True"
proof -
  obtain d where d: "move_to los p (cache_path c f v) (ca_disk c) = Inr d" using move_to_returns [OF assms(1-3)] by blast
  let ?c = "c\<lparr>ca_disk := d, ca_meta := dset (ca_meta c) f (v, cache_path c f v)\<rparr>"
  have "snd (delete_old los names f (cache_path c f v) ?c) = None" by (rule delete_old_returns) (use assms(4) in simp)
  with d show ?thesis by (auto simp: cache_renew_def Let_def split: prod.split)
qed

text \<open>
  What the client relies on: \<open>stored\<close> is the version and the contents the server has for a file,
  \<open>handles\<close> its open handles. A read handle may be closed with version 0 or with the current one.
\<close>

locale versioned_server =
  fixes create :: "string \<Rightarrow> 's \<Rightarrow> 's \<times> (exn + int)"
    and test_version :: "string \<Rightarrow> 's \<Rightarrow> 's \<times> (exn + int)"
    and open_file :: "string \<Rightarrow> string \<Rightarrow> bool \<Rightarrow> 's \<Rightarrow> 's \<times> (exn + open_response)"
    and close_file :: "int \<Rightarrow> bytes \<Rightarrow> 's \<Rightarrow> 's \<times> (exn + close_response)"
    and good :: "'s \<Rightarrow> bool"
    and stored :: "'s \<Rightarrow> string \<Rightarrow> (int \<times> bytes) option"
    and handles :: "'s \<Rightarrow> int \<Rightarrow> (string \<times> string) option"
    and F :: "string set"
  assumes create_new: "good s \<Longrightarrow> f \<in> F \<Longrightarrow> stored s f = None
      \<Longrightarrow> \<exists>s' x. create f s = (s', Inr x) \<and> good s' \<and> stored s' = (stored s)(f \<mapsto> (1, [])) \<and> handles s' = handles s"
    and create_again: "good s \<Longrightarrow> f \<in> F \<Longrightarrow> stored s f \<noteq> None
      \<Longrightarrow> \<exists>s' x. create f s = (s', Inl x) \<and> good s' \<and> stored s' = stored s \<and> handles s' = handles s"
    and tells_version: "good s \<Longrightarrow> f \<in> F \<Longrightarrow> stored s f = Some (v, b)
      \<Longrightarrow> 0 < v \<and> (\<exists>s'. test_version f s = (s', Inr v) \<and> good s' \<and> stored s' = stored s \<and> handles s' = handles s)"
    and opens: "good s \<Longrightarrow> f \<in> F \<Longrightarrow> stored s f = Some (v, b) \<Longrightarrow> m \<in> {''r'', ''w''}
      \<Longrightarrow> \<exists>s' r. open_file f m fetch s = (s', Inr r) \<and> good s' \<and> stored s' = stored s \<and> opn_version r = v
            \<and> (fetch \<longrightarrow> opn_data r = b) \<and> handles s' = (handles s)(opn_handle r \<mapsto> (f, m))"
    and open_missing: "good s \<Longrightarrow> f \<in> F \<Longrightarrow> stored s f = None
      \<Longrightarrow> \<exists>s' x. open_file f ''r'' fetch s = (s', Inl x) \<and> good s' \<and> stored s' = stored s \<and> handles s' = handles s"
    and closes_write: "good s \<Longrightarrow> f \<in> F \<Longrightarrow> handles s h = Some (f, ''w'') \<Longrightarrow> stored s f = Some (v, b0)
      \<Longrightarrow> \<exists>s' r. close_file h b s = (s', Inr r) \<and> clo_version r = v + 1 \<and> good s'
            \<and> stored s' = (stored s)(f \<mapsto> (v + 1, b))"
    and closes_read: "good s \<Longrightarrow> f \<in> F \<Longrightarrow> handles s h = Some (f, ''r'') \<Longrightarrow> stored s f = Some (v, b0)
      \<Longrightarrow> \<exists>s' r. close_file h b s = (s', Inr r) \<and> clo_version r \<in> {0, v} \<and> good s' \<and> stored s' = stored s"

definition se_ready ::
  "('s \<Rightarrow> bool) \<Rightarrow> ('s \<Rightarrow> string \<Rightarrow> (int \<times> bytes) option) \<Rightarrow> os \<Rightarrow> string \<Rightarrow> (cache \<Rightarrow> string list) \<Rightarrow> string set \<Rightarrow> 's client_session \<Rightarrow> bool" where
  "se_ready good stored los dir ls F w \<longleftrightarrow> cache_dir_ok los dir ls F \<and> good (se_server w)
     \<and> in_sync los dir F (stored (se_server w)) {} (se_cache w) \<and> (\<forall>h. dget (ca_active (se_cache w)) h = None)"

definition se_holds ::
  "('s \<Rightarrow> bool) \<Rightarrow> ('s \<Rightarrow> string \<Rightarrow> (int \<times> bytes) option) \<Rightarrow> ('s \<Rightarrow> int \<Rightarrow> (string \<times> string) option) \<Rightarrow> os \<Rightarrow> string
   \<Rightarrow> (cache \<Rightarrow> string list) \<Rightarrow> string set \<Rightarrow> 's client_session \<Rightarrow> int \<Rightarrow> string \<Rightarrow> string \<Rightarrow> bytes \<Rightarrow> bool" where
  "se_holds good stored handles los dir ls F w h f m b \<longleftrightarrow> cache_dir_ok los dir ls F \<and> good (se_server w)
     \<and> in_sync los dir F (stored (se_server w)) {f} (se_cache w) \<and> f \<in> F
     \<and> (\<exists>v b0. stored (se_server w) f = Some (v, b0)
          \<and> dget (ca_meta (se_cache w)) f = Some (v, path_join dir (cache_name f v))
          \<and> contents los (ca_disk (se_cache w)) (path_join dir (cache_name f v)) = Some b
          \<and> (\<forall>k. dget (ca_active (se_cache w)) k
                 = (if k = h then Some \<lparr>ah_path = path_join dir (cache_name f v), ah_file = f, ah_mode = m\<rparr> else None)))
     \<and> handles (se_server w) h = Some (f, m)"

definition se_known :: "'s client_session \<Rightarrow> string \<Rightarrow> int option" where
  "se_known w f = map_option fst (dget (ca_meta (se_cache w)) f)"

lemma cache_path_eq: "ca_dir c = dir \<Longrightarrow> cache_path c f v = path_join dir (cache_name f v)"
  by (simp add: cache_path_def)

text \<open>Replacing the entry of one file keeps the others in step.\<close>

lemma in_sync_entry:
  assumes "in_sync los dir F st X c" "cache_dir_ok los dir ls F" "f \<in> F" "X \<subseteq> {f}"
    and c': "ca_dir c' = ca_dir c" "ca_meta c' = dset (ca_meta c) f (v, path_join dir (cache_name f v))"
    and d: "\<And>q. los q \<noteq> los (path_join dir (cache_name f v)) \<Longrightarrow> contents los (ca_disk c') q \<in> {None, contents los (ca_disk c) q}"
    and st: "\<And>g. g \<noteq> f \<Longrightarrow> st' g = st g"
  shows "in_sync los dir F st' {f} c'"
  unfolding in_sync_def
proof (intro conjI allI impI)
  show "ca_dir c' = dir" using assms(1) c'(1) by (simp add: in_sync_def)
  fix g w p assume g: "g \<notin> {f} \<and> dget (ca_meta c') g = Some (w, p)"
  then have "dget (ca_meta c) g = Some (w, p)" "g \<notin> X" "g \<noteq> f" using c'(2) assms(4) by auto
  then have o': "copy_ok los dir F st (ca_disk c) g w p" using assms(1) by (simp add: in_sync_def)
  then have "los p \<noteq> los (path_join dir (cache_name f v))"
    using assms(2,3) \<open>g \<noteq> f\<close> unfolding copy_ok_def cache_dir_ok_def by blast
  with d [of p] st [OF \<open>g \<noteq> f\<close>] o' show "copy_ok los dir F st' (ca_disk c') g w p"
    unfolding copy_ok_def by fastforce
qed

lemma in_sync_copy: "in_sync los dir F st X c \<Longrightarrow> f \<notin> X \<Longrightarrow> dget (ca_meta c) f = Some (v, p) \<Longrightarrow> copy_ok los dir F st (ca_disk c) f v p"
  by (simp add: in_sync_def)

lemma in_sync_full:
  assumes "in_sync los dir F st {f} c" "f \<in> F" "st f = Some (v, b)" "dget (ca_meta c) f = Some (v, path_join dir (cache_name f v))"
    and "contents los (ca_disk c) (path_join dir (cache_name f v)) = Some b"
  shows "in_sync los dir F st {} c"
  unfolding in_sync_def
proof (intro conjI allI impI)
  show "ca_dir c = dir" using assms(1) by (simp add: in_sync_def)
  fix g w p assume "g \<notin> {} \<and> dget (ca_meta c) g = Some (w, p)"
  with assms show "copy_ok los dir F st (ca_disk c) g w p"
    by (cases "g = f") (auto simp: in_sync_def copy_ok_def)
qed

lemma in_sync_mono: "in_sync los dir F st X c \<Longrightarrow> X \<subseteq> Y \<Longrightarrow> in_sync los dir F st Y c"
  unfolding in_sync_def by blast

lemma in_sync_cong:
  "in_sync los dir F st X c \<Longrightarrow> ca_dir c' = ca_dir c \<Longrightarrow> ca_meta c' = ca_meta c \<Longrightarrow> ca_disk c' = ca_disk c \<Longrightarrow> in_sync los dir F st X c'"
  by (simp add: in_sync_def)

lemma cache_file: "cache_dir_ok los dir ls F \<Longrightarrow> f \<in> F \<Longrightarrow> \<exists>l. los (path_join dir (cache_name f v)) = File l"
  by (simp add: cache_dir_ok_def)

lemma cache_listing: "cache_dir_ok los dir ls F \<Longrightarrow> \<forall>e\<in>set (ls c). los (path_join dir e) \<noteq> Directory"
  by (simp add: cache_dir_ok_def)

lemma in_sync_other:
  assumes "in_sync los dir F st {f} c" "\<And>g. g \<noteq> f \<Longrightarrow> st' g = st g" shows "in_sync los dir F st' {f} c"
  using assms by (simp add: in_sync_def copy_ok_def)

text \<open>
  Once the server has answered a close, the cached copy is given the version \<open>w'\<close> it answered with;
  \<open>w\<close> is the version the server now has.
\<close>

lemma session_renew:
  assumes env: "cache_dir_ok los dir ls F" "\<forall>e\<in>set names. los (path_join dir e) \<noteq> Directory" and f: "f \<in> F"
    and sy: "in_sync los dir F st {f} c"
    and p: "dget (ca_meta c) f = Some (v, path_join dir (cache_name f v))"
      "contents los (ca_disk c) (path_join dir (cache_name f v)) = Some b"
    and st: "\<And>g. g \<noteq> f \<Longrightarrow> st' g = st g" "st' f = Some (w, b)" and w: "w' = w \<and> 0 < w \<or> w' = 0 \<and> w = v"
  shows "\<exists>c'. (if w' > 0 then cache_renew los names (path_join dir (cache_name f v)) f w' c else (c, Inr True)) = (c', Inr True)
    \<and> in_sync los dir F st' {} c' \<and> ca_active c' = ca_active c \<and> dget (ca_meta c') f = Some (w, path_join dir (cache_name f w))"
proof (cases "w' > 0")
  case False
  with w have w: "w' = 0" "w = v" by auto
  with p in_sync_full [OF in_sync_other [OF sy st(1)] f st(2)] show ?thesis by simp
next
  case True
  with w have w: "w' = w" "0 < w" by auto
  have dir: "ca_dir c = dir" using sy by (simp add: in_sync_def)
  let ?p = "path_join dir (cache_name f v)" and ?q = "path_join dir (cache_name f w)"
  obtain k l where lk: "los ?p = File k" "los ?q = File l" using cache_file [OF env(1) f] by meson
  obtain c' r where rn: "cache_renew los names ?p f w c = (c', r)" by fastforce
  have "r = Inr True"
    using cache_renew_returns [of los ?p k c f w l b names] lk p(2) env(2) rn dir by (simp add: cache_path_eq [OF dir])
  with cache_renew_effect [OF rn p(2)] have e: "ca_dir c' = ca_dir c" "ca_meta c' = dset (ca_meta c) f (w, ?q)"
    "ca_active c' = ca_active c" "contents los (ca_disk c') ?q = Some b"
    "\<And>q. los q \<noteq> los ?q \<Longrightarrow> contents los (ca_disk c') q \<in> {None, contents los (ca_disk c) q}"
    by (auto simp: cache_path_eq [OF dir])
  have "in_sync los dir F st' {f} c'"
    by (rule in_sync_entry [OF sy env(1) f _ e(1,2,5)]) (use st in auto)
  from in_sync_full [OF this f st(2)] show ?thesis using rn e w \<open>r = _\<close> by simp
qed

context versioned_server
begin

lemma session_open:
  assumes r: "se_ready good stored los dir ls F \<lparr>se_cache = c, se_server = s\<rparr>" and f: "f \<in> F" "stored s f = Some (v, b)" "m \<in> {''r'', ''w''}"
  shows "\<exists>c' s' h. cache_open los (ls c) (test_version f) (open_file f m) f m c s = (c', s', Inr h)
    \<and> se_holds good stored handles los dir ls F \<lparr>se_cache = c', se_server = s'\<rparr> h f m b \<and> stored s' = stored s
    \<and> se_known \<lparr>se_cache = c', se_server = s'\<rparr> f = Some v"
proof -
  have env: "cache_dir_ok los dir ls F" and g: "good s" and sy: "in_sync los dir F (stored s) {} c"
    and na: "\<And>h. dget (ca_active c) h = None" and dir: "ca_dir c = dir"
    using r by (auto simp: se_ready_def in_sync_def)
  have m: "\<not> (m \<noteq> ''r'' \<and> m \<noteq> ''w'')" using f(3) by auto
  obtain s1 fe where ck: "cache_check los (test_version f) f c s = (s1, Inr fe)" "good s1" "stored s1 = stored s"
    "\<not> fe \<Longrightarrow> \<exists>p. dget (ca_meta c) f = Some (v, p) \<and> path_exists los (ca_disk c) p"
  proof (cases "dget (ca_meta c) f")
    case None
    then show thesis using that [of s True] g by (simp add: cache_check_def)
  next
    case (Some e)
    obtain w p where e: "e = (w, p)" by fastforce
    obtain s1 where "test_version f s = (s1, Inr v)" "good s1" "stored s1 = stored s" using tells_version [OF g f(1,2)] by blast
    then show thesis using that [of s1 "\<not> (v = w \<and> path_exists los (ca_disk c) p)"] Some e by (simp add: cache_check_def)
  qed
  obtain s' a where op: "open_file f m fe s1 = (s', Inr a)" "good s'" "stored s' = stored s" "opn_version a = v"
    "fe \<longrightarrow> opn_data a = b" "handles s' = (handles s1)(opn_handle a \<mapsto> (f, m))"
    using opens [OF ck(2) f(1) _ f(3), of v b fe] f(2) ck(3) by auto
  let ?p = "path_join dir (cache_name f v)"
  obtain l where l: "los ?p = File l" using cache_file [OF env f(1)] by blast
  show ?thesis
  proof (cases fe)
    case True
    obtain c' x where st: "cache_store los (ls c) f m a c = (c', x)" by fastforce
    have "x = Inr (opn_handle a)"
      using cache_store_returns [of los c f a l "ls c" m] st cache_listing [OF env, of c] l op(4) dir by (simp add: cache_path_eq [OF dir])
    with cache_store_effect [OF st] have e: "ca_dir c' = ca_dir c" "ca_meta c' = dset (ca_meta c) f (v, ?p)"
      "contents los (ca_disk c') ?p = Some b" "\<And>q. los q \<noteq> los ?p \<Longrightarrow> contents los (ca_disk c') q \<in> {None, contents los (ca_disk c) q}"
      "ca_active c' = dset (ca_active c) (opn_handle a) \<lparr>ah_path = ?p, ah_file = f, ah_mode = m\<rparr>"
      using op(4,5) True by (auto simp: cache_path_eq [OF dir])
    have "in_sync los dir F (stored s') {f} c'"
      by (rule in_sync_entry [OF sy env f(1) _ e(1,2,4)]) (use op(3) in auto)
    moreover have "cache_open los (ls c) (test_version f) (open_file f m) f m c s = (c', s', Inr (opn_handle a))"
      using ck(1) op(1) True st \<open>x = _\<close> m by (simp add: cache_open_def)
    ultimately show ?thesis using env op e(2,3,5) f(1,2) na True
      by (intro exI [of _ c'] exI [of _ s'] exI [of _ "opn_handle a"]) (simp add: se_holds_def se_known_def)
  next
    case False
    with ck(4) obtain p where p: "dget (ca_meta c) f = Some (v, p)" "path_exists los (ca_disk c) p" by blast
    then have "p = ?p" "contents los (ca_disk c) p \<in> {None, Some b}" 
      using in_sync_copy [OF sy _ p(1)] f(2) by (auto simp: copy_ok_def)
    moreover from this p(2) l have "contents los (ca_disk c) p \<noteq> None" by (auto simp: path_exists_def contents_def)
    ultimately have e: "dget (ca_meta c) f = Some (v, ?p)" "contents los (ca_disk c) ?p = Some b" using p(1) by auto
    let ?c = "c\<lparr>ca_active := dset (ca_active c) (opn_handle a) \<lparr>ah_path = ?p, ah_file = f, ah_mode = m\<rparr>\<rparr>"
    have "in_sync los dir F (stored s') {f} ?c"
      unfolding op(3) ck(3) by (rule in_sync_cong [OF in_sync_mono [OF sy]]) simp_all
    moreover have "cache_open los (ls c) (test_version f) (open_file f m) f m c s = (?c, s', Inr (opn_handle a))"
      using ck(1) op(1) False m e(1) by (simp add: cache_open_def cache_hit_def)
    ultimately show ?thesis using env op e f(1,2) na
      by (intro exI [of _ ?c] exI [of _ s'] exI [of _ "opn_handle a"]) (simp add: se_holds_def se_known_def)
  qed
qed

lemma session_open_missing:
  assumes r: "se_ready good stored los dir ls F \<lparr>se_cache = c, se_server = s\<rparr>" and f: "f \<in> F" "stored s f = None"
  shows "\<exists>s' x. cache_open los (ls c) (test_version f) (open_file f ''r'') f ''r'' c s = (c, s', Inl x)
    \<and> se_ready good stored los dir ls F \<lparr>se_cache = c, se_server = s'\<rparr> \<and> stored s' = stored s"
proof -
  have g: "good s" and sy: "in_sync los dir F (stored s) {} c" using r by (auto simp: se_ready_def)
  have "dget (ca_meta c) f = None" using in_sync_copy [OF sy, of f] f(2) by (cases "dget (ca_meta c) f") (auto simp: copy_ok_def)
  moreover obtain s' x where "open_file f ''r'' True s = (s', Inl x)" "good s'" "stored s' = stored s"
    using open_missing [OF g f] by blast
  ultimately show ?thesis using r by (simp add: cache_open_def cache_check_def se_ready_def)
qed

lemma session_close:
  assumes h: "se_holds good stored handles los dir ls F \<lparr>se_cache = c, se_server = s\<rparr> h f m b"
    and st: "stored s f = Some (v, b0)" and w: "m = ''w'' \<and> w = v + 1 \<or> m = ''r'' \<and> w = v \<and> b = b0"
  shows "\<exists>c' s'. cache_close los (ls c) (close_file h) h c s = (c', s', Inr True)
        \<and> cache_close_early los (ls c) (close_file h) h c s = (c', s', Inr True)
        \<and> se_ready good stored los dir ls F \<lparr>se_cache = c', se_server = s'\<rparr> \<and> stored s' = (stored s)(f \<mapsto> (w, b))
        \<and> se_known \<lparr>se_cache = c', se_server = s'\<rparr> f = Some w"
proof -
  let ?p = "path_join dir (cache_name f v)" and ?c = "c\<lparr>ca_active := dpop (ca_active c) h\<rparr>"
  have env: "cache_dir_ok los dir ls F" and g: "good s" and sy: "in_sync los dir F (stored s) {f} c" and f: "f \<in> F"
    and hs: "handles s h = Some (f, m)" and p: "dget (ca_meta c) f = Some (v, ?p)" "contents los (ca_disk c) ?p = Some b"
    and ac: "\<And>k. dget (ca_active c) k = (if k = h then Some \<lparr>ah_path = ?p, ah_file = f, ah_mode = m\<rparr> else None)"
    using h st unfolding se_holds_def by auto
  have v: "0 < v" using tells_version [OF g f st] by blast
  obtain s' a where a: "close_file h b s = (s', Inr a)" "good s'" "stored s' = (stored s)(f \<mapsto> (w, b))"
    and w': "clo_version a = w \<and> 0 < w \<or> clo_version a = 0 \<and> w = v"
  proof (cases "m = ''w''")
    case True
    with closes_write [OF g f _ st, of h b] hs w v show thesis by (auto intro: that)
  next
    case False
    have "(stored s)(f \<mapsto> (v, b0)) = stored s" using st by auto
    with False closes_read [OF g f _ st, of h b] hs w v show thesis by (auto intro: that)
  qed
  have sy1: "in_sync los dir F (stored s) {f} ?c" by (rule in_sync_cong [OF sy]) simp_all
  have st': "\<And>k. k \<noteq> f \<Longrightarrow> stored s' k = stored s k" "stored s' f = Some (w, b)" using a(3) by auto
  obtain c' where c': "(if clo_version a > 0 then cache_renew los (ls c) ?p f (clo_version a) ?c else (?c, Inr True)) = (c', Inr True)"
    "in_sync los dir F (stored s') {} c'" "ca_active c' = ca_active ?c" "dget (ca_meta c') f = Some (w, path_join dir (cache_name f w))"
    using session_renew [OF env cache_listing [OF env, of c] f sy1 _ _ st' w'] p by auto
  have rd: "read_file los ?p (ca_disk c) = Inr b" using p(2) by (simp add: read_file_contents)
  have "dget (ca_active c') k = None" for k using c'(3) ac by simp
  then have "se_ready good stored los dir ls F \<lparr>se_cache = c', se_server = s'\<rparr>"
    using env a(2) c'(2) by (simp add: se_ready_def)
  moreover have "cache_close los (ls c) (close_file h) h c s = (c', s', Inr True)"
    "cache_close_early los (ls c) (close_file h) h c s = (c', s', Inr True)"
    using ac [of h] rd a(1) c'(1) by (simp_all add: cache_close_def cache_close_early_def Let_def split: if_splits)
  ultimately show ?thesis using a(3) c'(4) by (auto simp: se_known_def)
qed

text \<open>Writing to an open handle edits its cached copy.\<close>

lemma session_edit:
  assumes h: "se_holds good stored handles los dir ls F \<lparr>se_cache = c, se_server = s\<rparr> h f m b"
  shows "\<exists>a d'. dget (ca_active c) h = Some a \<and> ah_mode a = m \<and> read_file los (ah_path a) (ca_disk c) = Inr b
    \<and> write_file los (ah_path a) b' (ca_disk c) = Inr d'
    \<and> se_holds good stored handles los dir ls F \<lparr>se_cache = c\<lparr>ca_disk := d'\<rparr>, se_server = s\<rparr> h f m b'"
proof -
  obtain v b0 where v: "stored s f = Some (v, b0)" using h by (auto simp: se_holds_def)
  let ?p = "path_join dir (cache_name f v)"
  have env: "cache_dir_ok los dir ls F" and g: "good s" and sy: "in_sync los dir F (stored s) {f} c" and f: "f \<in> F"
    and hs: "handles s h = Some (f, m)" and p: "dget (ca_meta c) f = Some (v, ?p)" "contents los (ca_disk c) ?p = Some b"
    and ac: "\<And>k. dget (ca_active c) k = (if k = h then Some \<lparr>ah_path = ?p, ah_file = f, ah_mode = m\<rparr> else None)"
    using h v unfolding se_holds_def by auto
  obtain l where l: "los ?p = File l" using cache_file [OF env f] by blast
  then obtain d' where d': "write_file los ?p b' (ca_disk c) = Inr d'" by (simp add: write_file_def)
  have "in_sync los dir F (stored s) {f} (c\<lparr>ca_disk := d'\<rparr>)"
    unfolding in_sync_def
  proof (intro conjI allI impI)
    show "ca_dir (c\<lparr>ca_disk := d'\<rparr>) = dir" using sy by (simp add: in_sync_def)
    fix g w q assume g: "g \<notin> {f} \<and> dget (ca_meta (c\<lparr>ca_disk := d'\<rparr>)) g = Some (w, q)"
    then have o': "copy_ok los dir F (stored s) (ca_disk c) g w q" using in_sync_copy [OF sy] by simp
    then have "los q \<noteq> los ?p" using env f g unfolding copy_ok_def cache_dir_ok_def by blast
    with write_file_contents [OF d', of q] have "contents los d' q = contents los (ca_disk c) q" by simp
    with o' show "copy_ok los dir F (stored s) (ca_disk (c\<lparr>ca_disk := d'\<rparr>)) g w q"
      unfolding copy_ok_def by auto
  qed
  then show ?thesis using env g f v p ac hs d' write_file_contents [OF d', of ?p] read_file_contents [of los ?p "ca_disk c" b]
    by (simp add: se_holds_def)
qed

lemma session_write:
  assumes h: "se_holds good stored handles los dir ls F \<lparr>se_cache = c, se_server = s\<rparr> h f m b" and off: "0 \<le> off"
  shows "\<exists>c'. cache_write los h off d c = (c', Inr (length (as_bytes d)))
    \<and> se_holds good stored handles los dir ls F \<lparr>se_cache = c', se_server = s\<rparr> h f m (spliced (nat off) (as_bytes d) b)"
proof -
  have "write_at off (as_bytes d) b = Inr (spliced (nat off) (as_bytes d) b)" using off by (simp add: write_at_def spliced_def)
  with session_edit [OF h, of "spliced (nat off) (as_bytes d) b"] show ?thesis by (auto simp: cache_write_def)
qed

lemma session_write_start:
  assumes h: "se_holds good stored handles los dir ls F \<lparr>se_cache = c, se_server = s\<rparr> h f ''w'' b"
  shows "\<exists>c'. cache_write_trunc los h 0 d c = (c', Inr (length (as_bytes d)))
    \<and> se_holds good stored handles los dir ls F \<lparr>se_cache = c', se_server = s\<rparr> h f ''w'' (as_bytes d)"
  using session_edit [OF h, of "as_bytes d"] by (auto simp: cache_write_trunc_def)

end

text \<open>
  The two kinds of stub: with \<open>cache_close\<close> a handle is forgotten when the server has answered, with
  \<open>cache_close_early\<close> before it is asked.
\<close>

definition cached_client ::
  "(os \<Rightarrow> string list \<Rightarrow> (bytes \<Rightarrow> 's \<Rightarrow> 's \<times> (exn + close_response)) \<Rightarrow> int \<Rightarrow> cache \<Rightarrow> 's \<Rightarrow> cache \<times> 's \<times> (exn + bool))
   \<Rightarrow> (string \<Rightarrow> 's \<Rightarrow> 's \<times> (exn + int)) \<Rightarrow> (string \<Rightarrow> 's \<Rightarrow> 's \<times> (exn + int))
   \<Rightarrow> (string \<Rightarrow> string \<Rightarrow> bool \<Rightarrow> 's \<Rightarrow> 's \<times> (exn + open_response)) \<Rightarrow> (int \<Rightarrow> bytes \<Rightarrow> 's \<Rightarrow> 's \<times> (exn + close_response))
   \<Rightarrow> os \<Rightarrow> (cache \<Rightarrow> string list) \<Rightarrow> 's client_session file_client" where
  "cached_client close_call cr tv op cl los ls =
     session_client cr (\<lambda>f m c. cache_open los (ls c) (tv f) (op f m) f m c) (cache_read los) (cache_write los)
       (\<lambda>h c. close_call los (ls c) (cl h) h c) tv"

context versioned_server
begin

lemma session_laws:
  assumes "cls = cache_close \<or> cls = cache_close_early"
  shows "file_session (cached_client cls create test_version open_file close_file los ls) (se_ready good stored los dir ls F)
    (se_holds good stored handles los dir ls F) (\<lambda>w. stored (se_server w)) se_known F"
proof
  fix w f assume r: "se_ready good stored los dir ls F w" "f \<in> F" "stored (se_server w) f = None"
  then obtain s' x where s': "create f (se_server w) = (s', Inr x)" "good s'" "stored s' = (stored (se_server w))(f \<mapsto> (1, []))"
    using create_new [of "se_server w" f] by (auto simp: se_ready_def)
  have "in_sync los dir F (stored s') {} (se_cache w)"
    using r s'(3) unfolding se_ready_def in_sync_def copy_ok_def by (metis fun_upd_other option.distinct(1))
  with s' r show "\<exists>w' x. cl_create (cached_client cls create test_version open_file close_file los ls) f w = (w', Inr x)
      \<and> se_ready good stored los dir ls F w' \<and> stored (se_server w') = (stored (se_server w))(f \<mapsto> (1, []))"
    by (intro exI [of _ "w\<lparr>se_server := s'\<rparr>"] exI [of _ x]) (simp add: cached_client_def session_client_def se_ready_def)
next
  fix w f assume r: "se_ready good stored los dir ls F w" "f \<in> F" "stored (se_server w) f \<noteq> None"
  then obtain s' x where "create f (se_server w) = (s', Inl x)" "good s'" "stored s' = stored (se_server w)"
    using create_again [of "se_server w" f] by (auto simp: se_ready_def)
  with r show "\<exists>w' x. cl_create (cached_client cls create test_version open_file close_file los ls) f w = (w', Inl x)
      \<and> se_ready good stored los dir ls F w' \<and> stored (se_server w') = stored (se_server w)"
    by (intro exI [of _ "w\<lparr>se_server := s'\<rparr>"] exI [of _ x]) (simp add: cached_client_def session_client_def se_ready_def)
next
  fix w :: "'s client_session" and m :: string and f
  assume "se_ready good stored los dir ls F w" "m \<notin> {''r'', ''w''}"
  then show "\<exists>x. cl_open (cached_client cls create test_version open_file close_file los ls) f m w = (w, Inl x)"
    by (simp add: cached_client_def session_client_def cache_open_def)
next
  fix w f assume r: "se_ready good stored los dir ls F w" "f \<in> F" "stored (se_server w) f = None"
  obtain c s where w: "w = \<lparr>se_cache = c, se_server = s\<rparr>" by (cases w)
  obtain s' x where "cache_open los (ls c) (test_version f) (open_file f ''r'') f ''r'' c s = (c, s', Inl x)"
    "se_ready good stored los dir ls F \<lparr>se_cache = c, se_server = s'\<rparr>" "stored s' = stored s"
    using session_open_missing [of los dir ls c s f] r w by auto
  then show "\<exists>w' x. cl_open (cached_client cls create test_version open_file close_file los ls) f ''r'' w = (w', Inl x)
      \<and> se_ready good stored los dir ls F w' \<and> stored (se_server w') = stored (se_server w)"
    by (intro exI [of _ "\<lparr>se_cache = c, se_server = s'\<rparr>"] exI [of _ x]) (simp add: w cached_client_def session_client_def)
next
  fix w f v b and m :: string
  assume r: "se_ready good stored los dir ls F w" "f \<in> F" "stored (se_server w) f = Some (v, b)" "m \<in> {''r'', ''w''}"
  obtain c s where w: "w = \<lparr>se_cache = c, se_server = s\<rparr>" by (cases w)
  obtain c' s' h where "cache_open los (ls c) (test_version f) (open_file f m) f m c s = (c', s', Inr h)"
    "se_holds good stored handles los dir ls F \<lparr>se_cache = c', se_server = s'\<rparr> h f m b" "stored s' = stored s"
    "se_known \<lparr>se_cache = c', se_server = s'\<rparr> f = Some v"
    using session_open [of los dir ls c s f v b m] r w by auto
  then show "\<exists>w' h. cl_open (cached_client cls create test_version open_file close_file los ls) f m w = (w', Inr h)
      \<and> se_holds good stored handles los dir ls F w' h f m b \<and> stored (se_server w') = stored (se_server w) \<and> se_known w' f = Some v"
    by (intro exI [of _ "\<lparr>se_cache = c', se_server = s'\<rparr>"] exI [of _ h]) (simp add: w cached_client_def session_client_def)
next
  fix w h f m b and off n :: int assume h: "se_holds good stored handles los dir ls F w h f m b" "0 \<le> off" "0 \<le> n"
  then show "cl_read (cached_client cls create test_version open_file close_file los ls) h off n w = (w, Inr (take (nat n) (drop (nat off) b)))"
    by (auto simp: cached_client_def session_client_def cache_read_def se_holds_def read_at_def read_file_contents [symmetric])
next
  fix w h f m b d and off :: int assume h: "se_holds good stored handles los dir ls F w h f m b" "0 \<le> off"
  obtain c s where w: "w = \<lparr>se_cache = c, se_server = s\<rparr>" by (cases w)
  obtain c' where "cache_write los h off d c = (c', Inr (length (as_bytes d)))"
    "se_holds good stored handles los dir ls F \<lparr>se_cache = c', se_server = s\<rparr> h f m (spliced (nat off) (as_bytes d) b)"
    using session_write [of los dir ls c s h f m b off d] h w by auto
  then show "\<exists>w'. cl_write (cached_client cls create test_version open_file close_file los ls) h off d w = (w', Inr (length (as_bytes d)))
      \<and> se_holds good stored handles los dir ls F w' h f m (spliced (nat off) (as_bytes d) b)
      \<and> stored (se_server w') = stored (se_server w)"
    by (intro exI [of _ "\<lparr>se_cache = c', se_server = s\<rparr>"]) (simp add: w cached_client_def session_client_def)
next
  fix w h f b v b0 assume h: "se_holds good stored handles los dir ls F w h f ''w'' b" "stored (se_server w) f = Some (v, b0)"
  obtain c s where w: "w = \<lparr>se_cache = c, se_server = s\<rparr>" by (cases w)
  obtain c' s' where "cls los (ls c) (close_file h) h c s = (c', s', Inr True)"
    "se_ready good stored los dir ls F \<lparr>se_cache = c', se_server = s'\<rparr>" "stored s' = (stored s)(f \<mapsto> (v + 1, b))"
    using session_close [of los dir ls c s h f "''w''" b v b0 "v + 1"] h w assms by auto
  then show "\<exists>w'. cl_close (cached_client cls create test_version open_file close_file los ls) h w = (w', Inr True)
      \<and> se_ready good stored los dir ls F w' \<and> stored (se_server w') = (stored (se_server w))(f \<mapsto> (v + 1, b))"
    by (intro exI [of _ "\<lparr>se_cache = c', se_server = s'\<rparr>"]) (simp add: w cached_client_def session_client_def)
next
  fix w h f b v assume h: "se_holds good stored handles los dir ls F w h f ''r'' b" "stored (se_server w) f = Some (v, b)"
  then have k: "se_known w f = Some v" by (auto simp: se_holds_def se_known_def)
  have same: "(stored (se_server w))(f \<mapsto> (v, b)) = stored (se_server w)" using h(2) by auto
  obtain c s where w: "w = \<lparr>se_cache = c, se_server = s\<rparr>" by (cases w)
  obtain c' s' where "cls los (ls c) (close_file h) h c s = (c', s', Inr True)"
    "se_ready good stored los dir ls F \<lparr>se_cache = c', se_server = s'\<rparr>" "stored s' = stored s"
    "se_known \<lparr>se_cache = c', se_server = s'\<rparr> f = Some v"
    using session_close [of los dir ls c s h f "''r''" b v b v] h same w assms by auto
  then show "\<exists>w'. cl_close (cached_client cls create test_version open_file close_file los ls) h w = (w', Inr True)
      \<and> se_ready good stored los dir ls F w' \<and> stored (se_server w') = stored (se_server w) \<and> se_known w' f = se_known w f"
    unfolding k by (intro exI [of _ "\<lparr>se_cache = c', se_server = s'\<rparr>"]) (simp add: w cached_client_def session_client_def)
next
  fix w h d and off n :: int assume "se_ready good stored los dir ls F w"
  then have "dget (ca_active (se_cache w)) h = None" by (simp add: se_ready_def)
  then show "\<exists>x y z. cl_read (cached_client cls create test_version open_file close_file los ls) h off n w = (w, Inl x)
      \<and> cl_write (cached_client cls create test_version open_file close_file los ls) h off d w = (w, Inl y)
      \<and> cl_close (cached_client cls create test_version open_file close_file los ls) h w = (w, Inl z)"
    using assms by (auto simp: cached_client_def session_client_def cache_read_def cache_write_def cache_close_def cache_close_early_def)
next
  fix w f v b assume r: "se_ready good stored los dir ls F w" "f \<in> F" "stored (se_server w) f = Some (v, b)"
  then obtain s' where "test_version f (se_server w) = (s', Inr v)" "good s'" "stored s' = stored (se_server w)"
    using tells_version [of "se_server w" f v b] by (auto simp: se_ready_def)
  with r show "\<exists>w'. cl_version (cached_client cls create test_version open_file close_file los ls) f w = (w', Inr v)
      \<and> se_ready good stored los dir ls F w' \<and> stored (se_server w') = stored (se_server w)"
    by (intro exI [of _ "w\<lparr>se_server := s'\<rparr>"]) (simp add: cached_client_def session_client_def se_ready_def)
next
  fix w :: "'s client_session" and f v assume "se_known w f = Some v"
  then show "cl_cached (cached_client cls create test_version open_file close_file los ls) f w = (w, Inr v)"
    by (auto simp: cached_client_def session_client_def se_known_def)
qed

end

locale cached_session = versioned_server create test_version open_file close_file good stored handles F
  for create :: "string \<Rightarrow> 's \<Rightarrow> 's \<times> (exn + int)" and test_version open_file close_file good stored handles F +
  fixes los :: os and dir :: string and ls :: "cache \<Rightarrow> string list"

sublocale cached_session < late: file_session "cached_client cache_close create test_version open_file close_file los ls"
  "se_ready good stored los dir ls F" "se_holds good stored handles los dir ls F" "\<lambda>w. stored (se_server w)" se_known F
  by (rule session_laws) simp

sublocale cached_session < early: file_session "cached_client cache_close_early create test_version open_file close_file los ls"
  "se_ready good stored los dir ls F" "se_holds good stored handles los dir ls F" "\<lambda>w. stored (se_server w)" se_known F
  by (rule session_laws) simp

end
