(* ===== verification/Fs_Plain_Theorems.thy ===== *)
theory Fs_Plain_Theorems
  imports Fs_Plain Fs_Theorems
begin

text \<open>
  The file service without gRPC: messages survive any fragmentation of the TCP stream, the server
  does what the gRPC server does up to locks and the version a close reports, and what goes wrong
  because of the latter and because requests are sent again.
\<close>

section \<open>Framing\<close>

lemma foldl_digits:
  "foldl (\<lambda>a i. 256 * a + n div 256 ^ i mod 256) a (rev [0..<k]) = a * 256 ^ k + n mod 256 ^ k" for a n :: nat
proof (induction k arbitrary: a)
  case (Suc k)
  have "n mod 256 ^ Suc k = 256 ^ k * (n div 256 ^ k mod 256) + n mod 256 ^ k"
    using mod_mult2_eq [of n "256 ^ k" 256] by (simp add: mult.commute)
  with Suc [of "256 * a + n div 256 ^ k mod 256"] show ?case by (simp add: algebra_simps)
qed simp

lemma unpack_pack:
  assumes "pack_q n = Some b" shows "unpack_q b = n" "length b = 8"
proof -
  from assms have n: "n < 2 ^ 64" and b: "b = map (\<lambda>i. char_of ((n div 256 ^ i) mod 256)) (rev [0..<8])"
    by (simp_all add: pack_q_def del: upt_Suc split: if_splits)
  have "unpack_q b = foldl (\<lambda>a i. 256 * a + n div 256 ^ i mod 256) 0 (rev [0..<8])"
    unfolding unpack_q_def b foldl_map by (simp del: upt_Suc)
  then show "unpack_q b = n" using n by (simp only: foldl_digits) simp
  show "length b = 8" by (simp add: b)
qed

text \<open>Reading the next \<open>n\<close> bytes, however the stream is cut into pieces.\<close>

lemma recv_concat:
  assumes "recv n k = (k', p)" "0 < n" "[] \<notin> set k"
  shows "p @ concat k' = concat k \<and> [] \<notin> set k' \<and> length p \<le> n \<and> (p = [] \<longleftrightarrow> k = [])"
  using assms by (auto simp: recv_def split: list.splits if_splits)

lemma recvall_concat:
  assumes "[] \<notin> set k" "length b \<le> n"
  shows "if n \<le> length b + length (concat k)
    then \<exists>k'. recvall_from n b k = (k', Some (b @ take (n - length b) (concat k)))
      \<and> concat k' = drop (n - length b) (concat k) \<and> [] \<notin> set k'
    else \<exists>k'. recvall_from n b k = (k', None)"
  using assms
proof (induction n b k rule: recvall_from.induct)
  case (1 n b k)
  obtain k1 p where p: "recv (n - length b) k = (k1, p)" by fastforce
  show ?case
  proof (cases "length b < n")
    case False
    with "1.prems" show ?thesis by (simp add: recvall_from.simps [of n b k])
  next
    case True
    with recv_concat [OF p] "1.prems"
    have c: "concat k = p @ concat k1" "[] \<notin> set k1" "length p \<le> n - length b" "p = [] \<longleftrightarrow> k = []" by auto
    show ?thesis
    proof (cases "p = []")
      case True
      then have "recvall_from n b k = (k1, None)" using p \<open>length b < n\<close> by (simp add: recvall_from.simps [of n b k])
      moreover have "k = []" using True c(4) by simp
      ultimately show ?thesis using \<open>length b < n\<close> by simp
    next
      case ne: False
      have e: "recvall_from n b k = recvall_from n (b @ p) k1" using p ne True by (simp add: recvall_from.simps [of n b k])
      have "length (b @ p) \<le> n" using c(3) True by simp
      from "1.IH" [OF True p [symmetric] refl ne c(2) this] show ?thesis
        unfolding e c(1) using c(3) by (auto simp: algebra_simps split: if_splits)
    qed
  qed
qed

text \<open>One message at the head of the stream, and a stream that ends within a message.\<close>

lemma recv_msg_frame:
  assumes "[] \<notin> set k" "send_msg enc m = Some f" "concat k = f @ rest" "dec (enc m) = Some m" "enc m \<noteq> []"
  shows "\<exists>k'. recv_msg dec k = (k', Inr (Some m)) \<and> concat k' = rest \<and> [] \<notin> set k'"
proof -
  obtain l where l: "pack_q (length (enc m)) = Some l" "f = l @ enc m"
    using assms(2) by (auto simp: send_msg_def Let_def split: option.splits)
  note u = unpack_pack [OF l(1)]
  obtain k1 where k1: "recvall 8 k = (k1, Some l)" "concat k1 = enc m @ rest" "[] \<notin> set k1"
    using recvall_concat [OF assms(1), of "[]" 8] assms(3) l(2) u(2) by (auto simp: recvall_def)
  obtain k2 where k2: "recvall (length (enc m)) k1 = (k2, Some (enc m))" "concat k2 = rest" "[] \<notin> set k2"
    using recvall_concat [OF k1(3), of "[]" "length (enc m)"] k1(2) by (auto simp: recvall_def)
  show ?thesis using k1(1) k2 u(1) assms(4,5) by (auto simp: recv_msg_def)
qed

lemma recv_msg_cut:
  assumes "[] \<notin> set k" "send_msg enc m = Some (concat k @ rest)" "rest \<noteq> []"
  shows "\<exists>k'. recv_msg dec k = (k', Inr None)"
proof -
  obtain l where l: "pack_q (length (enc m)) = Some l" "concat k @ rest = l @ enc m"
    using assms(2) by (auto simp: send_msg_def Let_def split: option.splits)
  note u = unpack_pack [OF l(1)]
  have len: "length (concat k) < 8 + length (enc m)" using arg_cong [OF l(2), of length] u(2) assms(3) by (cases rest) auto
  show ?thesis
  proof (cases "8 \<le> length (concat k)")
    case False
    with recvall_concat [OF assms(1), of "[]" 8] show ?thesis by (auto simp: recvall_def recv_msg_def)
  next
    case True
    then have "take 8 (concat k) = l" using arg_cong [OF l(2), of "take 8"] u(2) by simp
    with recvall_concat [OF assms(1), of "[]" 8] True
    obtain k1 where k1: "recvall 8 k = (k1, Some l)" "concat k1 = drop 8 (concat k)" "[] \<notin> set k1" by (auto simp: recvall_def)
    then have "\<not> length (enc m) \<le> length (concat k1)" using len True by simp
    with recvall_concat [OF k1(3), of "[]" "length (enc m)"]
    obtain k2 where "recvall (length (enc m)) k1 = (k2, None)" by (auto simp: recvall_def)
    with k1(1) u(1) show ?thesis by (simp add: recv_msg_def)
  qed
qed

section \<open>A connection\<close>

text \<open>What a connection amounts to: the requests are executed in order and each is answered.\<close>

fun serve_all ::
  "os \<Rightarrow> (plain_reply \<Rightarrow> bytes) \<Rightarrow> plain_request list \<Rightarrow> plain_fs \<Rightarrow> plain_fs \<times> bytes list" where
  "serve_all os enc [] s = (s, [])"
| "serve_all os enc (q # qs) s =
     (case dispatch os q s of
        (s', None) \<Rightarrow> (s', [])
      | (s', Some r) \<Rightarrow>
          (case send_msg enc r of
             None \<Rightarrow> (s', [])
           | Some b \<Rightarrow> (let (s2, out) = serve_all os enc qs s' in (s2, b # out))))"

text \<open>
  C27. Any fragmentation will do: if what arrives on a connection, in whatever pieces, is the frames
  of some requests and perhaps the beginning of one more before the client is gone, the server
  executes exactly those requests, in order, once each, and answers each.
\<close>

theorem plain_connection_serves:
  assumes "\<And>q. q \<in> set qs \<Longrightarrow> dec (encq q) = Some q \<and> encq q \<noteq> []"
    and "list_all2 (\<lambda>q f. send_msg encq q = Some f) qs fs" "[] \<notin> set k" "concat k = concat fs @ part"
    and "part = [] \<or> (\<exists>q rest. send_msg encq q = Some (part @ rest) \<and> rest \<noteq> [])"
  shows "handle_client os dec enc k s = serve_all os enc qs s"
  using assms(2,1,3,4)
proof (induction qs fs arbitrary: k s rule: list_all2_induct)
  case Nil
  have "\<exists>k'. recv_msg dec k = (k', Inr None)"
  proof (cases "part = []")
    case True
    with Nil have "k = []" by (cases k) auto
    then show ?thesis by (simp add: recv_msg_def recvall_def recvall_from.simps recv_def)
  next
    case False
    with assms(5) Nil show ?thesis using recv_msg_cut [OF Nil(2)] by auto
  qed
  then show ?case by (auto simp: handle_client.simps [of os dec enc k s])
next
  case (Cons q qs f fs)
  have "concat k = f @ (concat fs @ part)" using Cons.prems(3) by simp
  from recv_msg_frame [OF Cons.prems(2) Cons.hyps(1) this] Cons.prems(1) [of q]
  obtain k' where k': "recv_msg dec k = (k', Inr (Some q))" "concat k' = concat fs @ part" "[] \<notin> set k'" by auto
  from Cons.IH [OF _ k'(3,2)] Cons.prems(1) have "handle_client os dec enc k' s' = serve_all os enc qs s'" for s' by simp
  with k'(1) show ?case by (simp add: handle_client.simps [of os dec enc k s] split: prod.split option.split)
qed

text \<open>Two requests that arrive in three pieces and the connection cut off in a third request.\<close>

definition demo_enc :: "plain_request \<Rightarrow> bytes" where
  "demo_enc q = (case q of RqCreate f \<Rightarrow> ''c'' @ f | RqTestVersion f \<Rightarrow> ''v'' @ f | _ \<Rightarrow> ''?'')"

definition demo_dec :: "bytes \<Rightarrow> plain_request option" where
  "demo_dec b = (case b of CHR ''c'' # f \<Rightarrow> Some (RqCreate f) | CHR ''v'' # f \<Rightarrow> Some (RqTestVersion f) | _ \<Rightarrow> None)"

definition demo_length :: "nat \<Rightarrow> bytes" where
  "demo_length n = map char_of [0, 0, 0, 0, 0, 0, 0, n]"

lemma pack_small: "pack_q 0 = Some (demo_length 0)" "pack_q 2 = Some (demo_length 2)" "pack_q 5 = Some (demo_length 5)"
proof -
  have "rev [0..<8] = [7, 6, 5, 4, 3, 2, 1, 0]" by (simp add: upt_rec)
  then show "pack_q 0 = Some (demo_length 0)" "pack_q 2 = Some (demo_length 2)" "pack_q 5 = Some (demo_length 5)"
    by (simp_all add: pack_q_def demo_length_def)
qed

theorem plain_connection_serves_witness:
  "fst (handle_client File demo_dec (\<lambda>r. []) [demo_length 2 @ ''c'', ''f'' @ demo_length 2, ''vf'' @ demo_length 5 @ ''c''] (pf_init []))
     = (pf_init [])\<lparr>pf_disk := [(''./server_data/f'', [])], pf_versions := [(''f'', 1)]\<rparr>"
proof -
  let ?k = "[demo_length 2 @ ''c'', ''f'' @ demo_length 2, ''vf'' @ demo_length 5 @ ''c'']"
  have f: "send_msg demo_enc (RqCreate ''f'') = Some (demo_length 2 @ ''cf'')" "send_msg demo_enc (RqTestVersion ''f'') = Some (demo_length 2 @ ''vf'')"
    "send_msg demo_enc (RqCreate ''gggg'') = Some ((demo_length 5 @ ''c'') @ ''gggg'')"
    using pack_small by (simp_all add: send_msg_def demo_enc_def eval_nat_numeral)
  have "handle_client File demo_dec (\<lambda>r. []) ?k (pf_init []) = serve_all File (\<lambda>r. []) [RqCreate ''f'', RqTestVersion ''f''] (pf_init [])"
  proof (rule plain_connection_serves)
    show "list_all2 (\<lambda>q f. send_msg demo_enc q = Some f) [RqCreate ''f'', RqTestVersion ''f''] [demo_length 2 @ ''cf'', demo_length 2 @ ''vf'']"
      using f by simp
    show "demo_length 5 @ ''c'' = [] \<or> (\<exists>q rest. send_msg demo_enc q = Some ((demo_length 5 @ ''c'') @ rest) \<and> rest \<noteq> [])"
      using f(3) by blast
  qed (auto simp: demo_enc_def demo_dec_def demo_length_def)
  then show ?thesis using pack_small(1)
    by (simp add: dispatch_def pf_create_def pf_init_def path_exists_def pf_path_def path_join_def startswith_def
        write_file_def send_msg_def dget_def dset_def)
qed

section \<open>Compared with the gRPC server\<close>

text \<open>The state of the gRPC server without its locks.\<close>

definition plain_of :: "fs_state \<Rightarrow> plain_fs" where
  "plain_of s = \<lparr>pf_disk = fs_disk s, pf_open = fs_open s, pf_versions = fs_versions s, pf_next = fs_next s\<rparr>"

lemma plain_of_simps [simp]:
  "pf_disk (plain_of s) = fs_disk s" "pf_open (plain_of s) = fs_open s" "pf_versions (plain_of s) = fs_versions s"
  "pf_next (plain_of s) = fs_next s"
  by (simp_all add: plain_of_def)

lemma pf_path_eq: "pf_path f = fs_path f"
  by (simp add: pf_path_def fs_path_def BASE_DIR_def)

lemma unlocked: "fs_locks s = [] \<Longrightarrow> cleanup_expired_lock t f s = s" "fs_locks s = [] \<Longrightarrow> \<not> live_lock t f s"
  by (simp_all add: cleanup_expired_lock_def live_lock_def)

lemma plain_open_section:
  assumes "fs_locks s = []"
  shows "pf_open_section os f m b (plain_of s) = (plain_of (fst (open_section os t f m b s)), snd (open_section os t f m b s))"
  using assms by (simp add: pf_open_section_def open_section_def Let_def is_locked_def unlocked pf_path_eq plain_of_def)



section \<open>Requests that are sent again\<close>

text \<open>
  A server behind \<open>_call_rpc\<close>: the request is executed, and the reply to attempt \<open>k\<close> gets lost or not.
\<close>

definition close_over :: "os \<Rightarrow> (nat \<Rightarrow> bool) \<Rightarrow> (plain_fs, close_response) sender" where
  "close_over os lost q k s =
     (case dispatch os q s of
        (s', Some (ReClose r)) \<Rightarrow> (s', if lost k then Broken ''timed out'' else Got r)
      | (s', _) \<Rightarrow> (s', NoResponse))"

definition open_over :: "os \<Rightarrow> (plain_fs, open_response) sender" where
  "open_over os q k s = (case dispatch os q s of (s', Some (ReOpen r)) \<Rightarrow> (s', Got r) | (s', _) \<Rightarrow> (s', NoResponse))"

definition version_over :: "os \<Rightarrow> (plain_fs, int) sender" where
  "version_over os q k s = (case dispatch os q s of (s', Some (ReVersion v)) \<Rightarrow> (s', Got v) | (s', _) \<Rightarrow> (s', NoResponse))"

text \<open>
  A lost reply makes a write that succeeded look like one that failed: when the server has
  executed a close but its reply is lost, the request is sent again, the handle is gone, and the
  client raises, although the file has the new contents and the next version.
\<close>

lemma plain_lost_reply:
  assumes "dget (ca_active c) h = Some a" "read_file los (ah_path a) (ca_disk c) = Inr b"
    and "dget (pf_open s) h = Some \<lparr>h_file = f, h_mode = ''w''\<rparr>" "write_file os (pf_path f) b (pf_disk s) = Inr d"
    and "lost 0"
  shows "\<exists>c' s' m. pc_close los names (close_over os lost) (\<lambda>s. (s, None)) h c s = (c', s', Inl (PyException m))
    \<and> contents os (pf_disk s') (pf_path f) = Some b \<and> pf_test_version f s' = pf_test_version f s + 1
    \<and> (\<not> lost 1 \<longrightarrow> m = ''Retry failed: Invalid file handle'')"
proof -
  define s1 where "s1 = s\<lparr>pf_open := dpop (pf_open s) h, pf_disk := d,
      pf_versions := dset (pf_versions s) f (dget_or (pf_versions s) f 1 + 1)\<rparr>"
  have c0: "close_over os lost (RqClose h b) 0 s = (s1, Broken ''timed out'')"
    using assms(3-5) by (simp add: close_over_def dispatch_def pf_close_file_def pf_close_take_def pf_close_write_def s1_def Let_def)
  have p: "dpop (dpop d h) h = dpop d h" for d :: "(int, handle_info) dict"
    by (simp add: dpop_def delete_idem)
  have c1: "close_over os lost (RqClose h b) 1 s1 = (s1, if lost 1 then Broken ''timed out'' else Got (close_error ''Invalid file handle''))"
    by (simp add: close_over_def dispatch_def pf_close_file_def pf_close_take_def s1_def p)
  have "contents os (pf_disk s1) (pf_path f) = Some b" "pf_test_version f s1 = pf_test_version f s + 1"
    using write_file_contents [OF assms(4)] by (simp_all add: s1_def pf_test_version_def dget_or_def)
  moreover have "\<exists>m. call_rpc clo_success clo_error ''close'' (close_over os lost (RqClose h b)) (\<lambda>s. (s, None)) s = (s1, Inl (PyException m))
      \<and> (\<not> lost 1 \<longrightarrow> m = ''Retry failed: Invalid file handle'')"
    using c0 c1 by (simp add: call_rpc_def close_error_def)
  ultimately show ?thesis using assms(1,2) by (auto simp: pc_close_def cache_close_early_def Let_def)
qed

section \<open>Read handles\<close>

text \<open>
  Closing a read handle corrupts the cache: the client gives its copy, which may be old, the
  version the server has at the time of the close. Here it opens version 1 for reading, another
  client writes version 2, and after the close the next open finds version 2 in the cache and
  reads the bytes of version 1.
\<close>

lemma plain_read_close_stale:
  "let re = (\<lambda>s. (s, None));
       s1 = fst (dispatch File (RqCreate ''f'') (pf_init []));
       (c1, s2, h1) = pc_open File [] (version_over File) (open_over File) re ''f'' ''r'' (new_cache ''c'' []) s1;
       s3 = fst (dispatch File (RqOpen ''f'' ''w'' False) s2);
       s4 = fst (dispatch File (RqClose 2 ''new'') s3);
       (c2, s5, ok) = pc_close File [''f_v1.bin''] (close_over File (\<lambda>_. False)) re 1 c1 s4;
       (c3, s6, h2) = pc_open File [''f_v2.bin''] (version_over File) (open_over File) re ''f'' ''r'' c2 s5
   in h1 = Inr 1 \<and> ok = Inr True \<and> h2 = Inr 3 \<and> dget (ca_meta c3) ''f'' = Some (2, ''c/f_v2.bin'')
      \<and> cache_read File 3 0 (-1) c3 = Inr []
      \<and> contents File (pf_disk s6) (pf_path ''f'') = Some ''new'' \<and> pf_test_version ''f'' s6 = 2"
  by code_simp

end
