(* ===== verification/Fs_Acceptance.thy ===== *)
theory Fs_Acceptance
  imports Fs_Session Fs_Plain_Theorems
begin

text \<open>
  The acceptance scripts of the two single file servers pass: each server keeps the contract of
  \<open>Fs_Session\<close>, so that its client does, and the tests of locks are followed call by call.
\<close>

section \<open>The gRPC client and its server\<close>

text \<open>
  The \<open>k\<close>-th call reaches the server at time \<open>T k\<close>; \<open>cs k\<close> are the runs of lock timers since the call before.
\<close>

type_synonym timed = "nat \<times> fs_state"

definition at_server ::
  "os \<Rightarrow> (nat \<Rightarrow> int) \<Rightarrow> (nat \<Rightarrow> (int \<times> fs_call) list) \<Rightarrow> (int \<Rightarrow> fs_state \<Rightarrow> fs_state \<times> 'r) \<Rightarrow> timed \<Rightarrow> timed \<times> 'r call" where
  "at_server sos T cs g w =
     (let (s, r) = g (T (fst w)) (fs_run sos (cs (fst w)) (snd w)) in ((Suc (fst w), s), Answered r))"

definition sv_version :: "os \<Rightarrow> (nat \<Rightarrow> int) \<Rightarrow> (nat \<Rightarrow> (int \<times> fs_call) list) \<Rightarrow> string \<Rightarrow> timed \<Rightarrow> timed \<times> version_response call" where
  "sv_version sos T cs f = at_server sos T cs (\<lambda>t s. (s, \<lparr>ver_version = fs_test_version f s, ver_success = True, ver_error = []\<rparr>))"

definition sv_create :: "os \<Rightarrow> (nat \<Rightarrow> int) \<Rightarrow> (nat \<Rightarrow> (int \<times> fs_call) list) \<Rightarrow> string \<Rightarrow> timed \<Rightarrow> timed \<times> create_response call" where
  "sv_create sos T cs f = at_server sos T cs (\<lambda>t. fs_create sos f)"

definition sv_open ::
  "os \<Rightarrow> (nat \<Rightarrow> int) \<Rightarrow> (nat \<Rightarrow> (int \<times> fs_call) list) \<Rightarrow> string \<Rightarrow> string \<Rightarrow> bool \<Rightarrow> timed \<Rightarrow> timed \<times> open_response call" where
  "sv_open sos T cs f m fetch = at_server sos T cs (\<lambda>t. fs_open_call sos t f m fetch)"

definition sv_close :: "os \<Rightarrow> (nat \<Rightarrow> int) \<Rightarrow> (nat \<Rightarrow> (int \<times> fs_call) list) \<Rightarrow> int \<Rightarrow> bytes \<Rightarrow> timed \<Rightarrow> timed \<times> close_response call" where
  "sv_close sos T cs h b = at_server sos T cs (\<lambda>t. fs_close sos t h b)"

definition sv_lock ::
  "os \<Rightarrow> (nat \<Rightarrow> int) \<Rightarrow> (nat \<Rightarrow> (int \<times> fs_call) list) \<Rightarrow> string \<Rightarrow> int \<Rightarrow> string \<Rightarrow> timed \<Rightarrow> timed \<times> lock_answer call" where
  "sv_lock sos T cs f secs c = at_server sos T cs (\<lambda>t s.
     let (s', r) = fs_lock sos t t f secs c s
     in (s', \<lparr>la_success = lkr_success r, la_error = lkr_error r, la_expires = lkr_expires r\<rparr>))"

definition sv_unlock :: "os \<Rightarrow> (nat \<Rightarrow> int) \<Rightarrow> (nat \<Rightarrow> (int \<times> fs_call) list) \<Rightarrow> string \<Rightarrow> string \<Rightarrow> timed \<Rightarrow> timed \<times> unlock_answer call" where
  "sv_unlock sos T cs f c = at_server sos T cs (\<lambda>t s.
     let (s', r) = fs_unlock t f c s in (s', \<lparr>ua_success = ulr_success r, ua_error = ulr_error r\<rparr>))"

definition sv_notes :: "os \<Rightarrow> (nat \<Rightarrow> int) \<Rightarrow> (nat \<Rightarrow> (int \<times> fs_call) list) \<Rightarrow> string \<Rightarrow> timed \<Rightarrow> timed \<times> notes_answer call" where
  "sv_notes sos T cs c = at_server sos T cs (\<lambda>t s.
     let (s', ms) = fs_take_notes c s in (s', \<lparr>na_success = True, na_error = [], na_messages = ms\<rparr>))"

definition fs_client ::
  "os \<Rightarrow> (nat \<Rightarrow> int) \<Rightarrow> (nat \<Rightarrow> (int \<times> fs_call) list) \<Rightarrow> os \<Rightarrow> (cache \<Rightarrow> string list) \<Rightarrow> timed client_session file_client" where
  "fs_client sos T cs los ls =
     session_client (fsc_create (sv_create sos T cs))
       (\<lambda>f m c. fsc_open los (ls c) (sv_version sos T cs) (sv_open sos T cs) f m c) (cache_read los) (cache_write los)
       (\<lambda>h c. fsc_close los (ls c) (sv_close sos T cs) h c) (fsc_test_version (sv_version sos T cs))"

text \<open>The client's clock is read before each poll.\<close>

definition fs_locks_of ::
  "os \<Rightarrow> (nat \<Rightarrow> int) \<Rightarrow> (nat \<Rightarrow> (int \<times> fs_call) list) \<Rightarrow> string \<Rightarrow> timed client_session lock_client" where
  "fs_locks_of sos T cs me =
     \<lparr>lc_lock = \<lambda>f secs w. let (s, r) = fsc_lock_file (sv_lock sos T cs) me f secs (se_server w) in (w\<lparr>se_server := s\<rparr>, r),
      lc_unlock = \<lambda>f w. let (s, r) = fsc_unlock_file (sv_unlock sos T cs) me f (se_server w) in (w\<lparr>se_server := s\<rparr>, r),
      lc_notes = \<lambda>w. let (s, r) = fsc_get_lock_notifications (sv_notes sos T cs) me (se_server w) in (w\<lparr>se_server := s\<rparr>, r),
      lc_wait = \<lambda>secs w. map_option (\<lambda>(s, r). (w\<lparr>se_server := s\<rparr>, r))
        (fsc_wait_for_lock_notification (\<lambda>j. T (fst (se_server w) + (j - 1)))
           (\<lambda>j. fsc_get_lock_notifications (sv_notes sos T cs) me) (1000 * secs) (se_server w))\<rparr>"

text \<open>
  No lock is held and no other client is at work; the files in \<open>F\<close> are files of their own. \<open>N\<close>: the
  notifications that wait to be taken.
\<close>

definition alone :: "os \<Rightarrow> (nat \<Rightarrow> (int \<times> fs_call) list) \<Rightarrow> string set \<Rightarrow> bool" where
  "alone sos cs F \<longleftrightarrow> (\<forall>k. \<forall>(t, c)\<in>set (cs k). \<exists>f cl. c = Timer f cl)
     \<and> (\<forall>f\<in>F. \<exists>l. sos (fs_path f) = File l) \<and> (\<forall>f\<in>F. \<forall>g\<in>F. sos (fs_path f) = sos (fs_path g) \<longrightarrow> f = g)"

definition fs_good :: "os \<Rightarrow> (nat \<Rightarrow> (int \<times> fs_call) list) \<Rightarrow> string set \<Rightarrow> (string, string list) dict \<Rightarrow> timed \<Rightarrow> bool" where
  "fs_good sos cs F N w \<longleftrightarrow> alone sos cs F \<and> fs_ok (snd w) \<and> fs_locks (snd w) = [] \<and> fs_notes (snd w) = N"

definition fs_stored :: "os \<Rightarrow> string set \<Rightarrow> timed \<Rightarrow> string \<Rightarrow> (int \<times> bytes) option" where
  "fs_stored sos F w f =
     (if f \<in> F then map_option (Pair (fs_test_version f (snd w))) (contents sos (fs_disk (snd w)) (fs_path f)) else None)"

definition fs_handles :: "timed \<Rightarrow> int \<Rightarrow> (string \<times> string) option" where
  "fs_handles w h = map_option (\<lambda>i. (h_file i, h_mode i)) (dget (fs_open (snd w)) h)"

lemma timers_idle:
  assumes "\<forall>(t, c)\<in>set cs. \<exists>f cl. c = Timer f cl" "fs_locks s = []"
  shows "fs_run sos cs s = s"
  using assms by (induction cs) (auto simp: auto_release_def)

lemma idle_server: "fs_good sos cs F N w \<Longrightarrow> fs_run sos (cs k) (snd w) = snd w"
  unfolding fs_good_def alone_def by (intro timers_idle) blast+

lemma at_idle:
  "fs_good sos cs F N w \<Longrightarrow> at_server sos T cs g w = (let (s, r) = g (T (fst w)) (snd w) in ((Suc (fst w), s), Answered r))"
  by (simp add: at_server_def idle_server)

lemma file_exists:
  "alone sos cs F \<Longrightarrow> f \<in> F \<Longrightarrow> path_exists sos d (fs_path f) \<longleftrightarrow> contents sos d (fs_path f) \<noteq> None"
  by (auto simp: alone_def path_exists_def contents_def)

lemma alone_same: "alone sos cs F \<Longrightarrow> f \<in> F \<Longrightarrow> g \<in> F \<Longrightarrow> sos (fs_path f) = sos (fs_path g) \<longleftrightarrow> f = g"
  by (auto simp: alone_def)

lemma alone_file: "alone sos cs F \<Longrightarrow> f \<in> F \<Longrightarrow> \<exists>l. sos (fs_path f) = File l"
  by (simp add: alone_def)

text \<open>Writing one file of \<open>F\<close> changes what is stored for it alone.\<close>

lemma stored_written:
  assumes "alone sos cs F" "f \<in> F" "write_file sos (fs_path f) b (fs_disk (snd w)) = Inr d" "fs_disk (snd w') = d"
    and "\<And>g. fs_test_version g (snd w') = (if g = f then v else fs_test_version g (snd w))"
  shows "fs_stored sos F w' = (fs_stored sos F w)(f \<mapsto> (v, b))"
  using write_file_contents [OF assms(3)] alone_same [OF assms(1) _ assms(2)] assms(2,4,5)
  by (auto simp: fs_stored_def fun_eq_iff)

lemma fs_creates:
  assumes g: "fs_good sos cs F N w" and f: "f \<in> F"
  shows "fs_stored sos F w f = None \<Longrightarrow> \<exists>w' x. fsc_create (sv_create sos T cs) f w = (w', Inr x) \<and> fs_good sos cs F N w'
      \<and> fs_stored sos F w' = (fs_stored sos F w)(f \<mapsto> (1, [])) \<and> fs_handles w' = fs_handles w"
    and "fs_stored sos F w f \<noteq> None \<Longrightarrow> \<exists>w' x. fsc_create (sv_create sos T cs) f w = (w', Inl x) \<and> fs_good sos cs F N w'
      \<and> fs_stored sos F w' = fs_stored sos F w \<and> fs_handles w' = fs_handles w"
proof -
  have al: "alone sos cs F" and ok: "fs_ok (snd w)" and nl: "fs_locks (snd w) = []" and nt: "fs_notes (snd w) = N" using g by (auto simp: fs_good_def)
  note ex = file_exists [OF al f, of "fs_disk (snd w)"]
  obtain l where l: "sos (fs_path f) = File l" using alone_file [OF al f] by blast
  { assume n: "fs_stored sos F w f = None"
    obtain d where d: "write_file sos (fs_path f) [] (fs_disk (snd w)) = Inr d" using l by (simp add: write_file_def)
    let ?s = "(snd w)\<lparr>fs_disk := d, fs_versions := dset (fs_versions (snd w)) f 1\<rparr>"
    have "fs_create sos f (snd w) = (?s, \<lparr>cre_handle = 0, cre_success = True, cre_error = []\<rparr>)"
      using n d ex f by (simp add: fs_create_def fs_stored_def)
    moreover from this have "fs_ok ?s" using fs_ok_exec [OF ok, of sos 0 "Create f"] by simp
    moreover have "fs_stored sos F (Suc (fst w), ?s) = (fs_stored sos F w)(f \<mapsto> (1, []))"
      by (rule stored_written [OF al f d]) (auto simp: fs_test_version_def dget_or_def)
    ultimately show "\<exists>w' x. fsc_create (sv_create sos T cs) f w = (w', Inr x) \<and> fs_good sos cs F N w'
        \<and> fs_stored sos F w' = (fs_stored sos F w)(f \<mapsto> (1, [])) \<and> fs_handles w' = fs_handles w"
      using al nl nt by (intro exI [of _ "(Suc (fst w), ?s)"] exI [of _ 0])
        (simp add: fsc_create_def sv_create_def at_idle [OF g] via_def fsc_execute_rpc_def fs_good_def fs_handles_def fun_eq_iff)
  next
    assume "fs_stored sos F w f \<noteq> None"
    then have "fs_create sos f (snd w) = (snd w, create_error ''File already exists'')"
      using ex f by (simp add: fs_create_def fs_stored_def)
    then show "\<exists>w' x. fsc_create (sv_create sos T cs) f w = (w', Inl x) \<and> fs_good sos cs F N w'
        \<and> fs_stored sos F w' = fs_stored sos F w \<and> fs_handles w' = fs_handles w"
      using g by (intro exI [of _ "(Suc (fst w), snd w)"])
        (simp add: fsc_create_def sv_create_def at_idle [OF g] via_def fsc_execute_rpc_def fs_good_def fs_handles_def fs_stored_def fun_eq_iff)
  }
qed

lemma no_live_lock: "fs_locks s = [] \<Longrightarrow> \<not> live_lock t f s"
  by (simp add: live_lock_def)

lemma fs_opens:
  assumes g: "fs_good sos cs F N w" and f: "f \<in> F"
  shows "fs_stored sos F w f = Some (v, b) \<Longrightarrow> m \<in> {''r'', ''w''} \<Longrightarrow> \<exists>w' r. via (sv_open sos T cs f m fetch) opn_success opn_error (\<lambda>r. r) w = (w', Inr r)
      \<and> fs_good sos cs F N w' \<and> fs_stored sos F w' = fs_stored sos F w \<and> opn_version r = v \<and> (fetch \<longrightarrow> opn_data r = b)
      \<and> fs_handles w' = (fs_handles w)(opn_handle r \<mapsto> (f, m))"
    and "fs_stored sos F w f = None \<Longrightarrow> \<exists>w' x. via (sv_open sos T cs f ''r'' fetch) opn_success opn_error (\<lambda>r. r) w = (w', Inl x)
      \<and> fs_good sos cs F N w' \<and> fs_stored sos F w' = fs_stored sos F w \<and> fs_handles w' = fs_handles w"
proof -
  have al: "alone sos cs F" and ok: "fs_ok (snd w)" and nl: "fs_locks (snd w) = []" and nt: "fs_notes (snd w) = N" using g by (auto simp: fs_good_def)
  note ex = file_exists [OF al f, of "fs_disk (snd w)"]
  { assume st: "fs_stored sos F w f = Some (v, b)" and m: "m \<in> {''r'', ''w''}"
    then have c: "contents sos (fs_disk (snd w)) (fs_path f) = Some b" and v: "fs_test_version f (snd w) = v"
      using f by (auto simp: fs_stored_def)
    obtain s' r where r: "fs_open_call sos (T (fst w)) f m fetch (snd w) = (s', r)" by fastforce
    have e: "opn_success r" "opn_version r = v" "fetch \<longrightarrow> opn_data r = b" "fs_open s' = dset (fs_open (snd w)) (opn_handle r) \<lparr>h_file = f, h_mode = m\<rparr>"
      "fs_locks s' = []" "fs_notes s' = N"
      using r m c v nl nt ex open_section_opens [where m = m and t = "T (fst w)" and f = f and s = "snd w" and os = sos and b = "if fetch then b else []"] no_live_lock [OF nl] unlocked [OF nl]
      by (auto simp: fs_open_call_def read_file_contents [symmetric] prod_eq_iff split: if_splits)
    have d: "fs_disk s' = fs_disk (snd w)" "\<And>k. fs_test_version k s' = fs_test_version k (snd w)"
      using open_disk [where os = sos and t = "T (fst w)" and f = f and m = m and fe = fetch and s = "snd w"] r by auto
    have "fs_ok s'" using fs_ok_exec [OF ok, of sos "T (fst w)" "Open f m fetch"] r by simp
    with e d r al show "\<exists>w' r. via (sv_open sos T cs f m fetch) opn_success opn_error (\<lambda>r. r) w = (w', Inr r)
      \<and> fs_good sos cs F N w' \<and> fs_stored sos F w' = fs_stored sos F w \<and> opn_version r = v \<and> (fetch \<longrightarrow> opn_data r = b)
      \<and> fs_handles w' = (fs_handles w)(opn_handle r \<mapsto> (f, m))"
      by (intro exI [of _ "(Suc (fst w), s')"] exI [of _ r])
        (simp add: sv_open_def at_idle [OF g] fs_good_def fs_handles_def fs_stored_def fun_eq_iff)
  next
    assume "fs_stored sos F w f = None"
    then have "fs_open_call sos (T (fst w)) f ''r'' fetch (snd w) = (snd w, open_error ''File not found'')"
      using f ex by (simp add: fs_open_call_def fs_stored_def)
    then show "\<exists>w' x. via (sv_open sos T cs f ''r'' fetch) opn_success opn_error (\<lambda>r. r) w = (w', Inl x)
      \<and> fs_good sos cs F N w' \<and> fs_stored sos F w' = fs_stored sos F w \<and> fs_handles w' = fs_handles w"
      using g by (intro exI [of _ "(Suc (fst w), snd w)"])
        (simp add: sv_open_def at_idle [OF g] via_def fsc_execute_rpc_def fs_good_def fs_handles_def fs_stored_def fun_eq_iff)
  }
qed

lemma fs_tells_version:
  assumes g: "fs_good sos cs F N w" and st: "fs_stored sos F w f = Some (v, b)"
  shows "0 < v \<and> (\<exists>w'. fsc_test_version (sv_version sos T cs) f w = (w', Inr v) \<and> fs_good sos cs F N w'
    \<and> fs_stored sos F w' = fs_stored sos F w \<and> fs_handles w' = fs_handles w)"
proof -
  have v: "fs_test_version f (snd w) = v" using st by (auto simp: fs_stored_def split: if_splits)
  have "0 < v" using fs_ok_version [of "snd w" f] g v by (simp add: fs_good_def)
  then show ?thesis using g v
    by (intro conjI exI [of _ "(Suc (fst w), snd w)"])
      (simp_all add: fsc_test_version_def sv_version_def at_idle [OF g] fs_good_def fs_handles_def fs_stored_def fun_eq_iff)
qed

lemma fs_closes:
  assumes g: "fs_good sos cs F N w" and f: "f \<in> F" and st: "fs_stored sos F w f = Some (v, b0)" and h: "fs_handles w h = Some (f, m)"
  shows "m = ''w'' \<Longrightarrow> \<exists>w' r. via (sv_close sos T cs h b) clo_success clo_error (\<lambda>r. r) w = (w', Inr r) \<and> clo_version r = v + 1
      \<and> fs_good sos cs F N w' \<and> fs_stored sos F w' = (fs_stored sos F w)(f \<mapsto> (v + 1, b))"
    and "m = ''r'' \<Longrightarrow> \<exists>w' r. via (sv_close sos T cs h b) clo_success clo_error (\<lambda>r. r) w = (w', Inr r) \<and> clo_version r \<in> {0, v}
      \<and> fs_good sos cs F N w' \<and> fs_stored sos F w' = fs_stored sos F w"
proof -
  have al: "alone sos cs F" and ok: "fs_ok (snd w)" and nl: "fs_locks (snd w) = []" and nt: "fs_notes (snd w) = N" using g by (auto simp: fs_good_def)
  obtain i where i: "dget (fs_open (snd w)) h = Some i" "h_file i = f" "h_mode i = m" using h by (auto simp: fs_handles_def)
  have v: "fs_test_version f (snd w) = v" using st by (auto simp: fs_stored_def split: if_splits)
  obtain l where l: "sos (fs_path f) = File l" using alone_file [OF al f] by blast
  have ok': "fs_ok (fst (fs_close sos (T (fst w)) h b (snd w)))" by (rule fs_ok_close [OF ok])
  { assume m: "m = ''w''"
    obtain d where d: "write_file sos (fs_path f) b (fs_disk (snd w)) = Inr d" using l by (simp add: write_file_def)
    let ?s = "(snd w)\<lparr>fs_open := dpop (fs_open (snd w)) h, fs_disk := d, fs_versions := dset (fs_versions (snd w)) f (v + 1)\<rparr>"
    have c: "fs_close sos (T (fst w)) h b (snd w) = (?s, \<lparr>clo_success = True, clo_version = v + 1, clo_error = []\<rparr>)"
      by (cases rule: close_cases [of "snd w" h sos "T (fst w)" b])
        (use i d m v no_live_lock [OF nl] unlocked [OF nl] in auto)
    have "fs_stored sos F (Suc (fst w), ?s) = (fs_stored sos F w)(f \<mapsto> (v + 1, b))"
      by (rule stored_written [OF al f d]) (auto simp: fs_test_version_def dget_or_def)
    then show "\<exists>w' r. via (sv_close sos T cs h b) clo_success clo_error (\<lambda>r. r) w = (w', Inr r) \<and> clo_version r = v + 1
      \<and> fs_good sos cs F N w' \<and> fs_stored sos F w' = (fs_stored sos F w)(f \<mapsto> (v + 1, b))"
      using c ok' al nl nt
      by (intro exI [of _ "(Suc (fst w), ?s)"] exI [of _ "\<lparr>clo_success = True, clo_version = v + 1, clo_error = []\<rparr>"])
        (simp add: sv_close_def at_idle [OF g] fs_good_def)
  next
    assume m: "m = ''r''"
    let ?s = "(snd w)\<lparr>fs_open := dpop (fs_open (snd w)) h\<rparr>"
    have c: "fs_close sos (T (fst w)) h b (snd w) = (?s, \<lparr>clo_success = True, clo_version = 0, clo_error = []\<rparr>)"
      by (cases rule: close_cases [of "snd w" h sos "T (fst w)" b]) (use i m in auto)
    then show "\<exists>w' r. via (sv_close sos T cs h b) clo_success clo_error (\<lambda>r. r) w = (w', Inr r) \<and> clo_version r \<in> {0, v}
      \<and> fs_good sos cs F N w' \<and> fs_stored sos F w' = fs_stored sos F w"
      using ok' al nl nt
      by (intro exI [of _ "(Suc (fst w), ?s)"] exI [of _ "\<lparr>clo_success = True, clo_version = 0, clo_error = []\<rparr>"])
        (simp add: sv_close_def at_idle [OF g] fs_good_def fs_stored_def fs_test_version_def fun_eq_iff)
  }
qed

interpretation fs_alone: cached_session "fsc_create (sv_create sos T cs)" "fsc_test_version (sv_version sos T cs)"
  "\<lambda>f m fetch. via (sv_open sos T cs f m fetch) opn_success opn_error (\<lambda>r. r)"
  "\<lambda>h b. via (sv_close sos T cs h b) clo_success clo_error (\<lambda>r. r)"
  "fs_good sos cs F N" "fs_stored sos F" fs_handles F los dir ls
  for sos T cs F N los dir ls
  by unfold_locales (rule fs_creates fs_opens fs_tells_version fs_closes; (assumption | rule refl))+

text \<open>The client is the cached one, so the script's first 15 tests pass.\<close>

lemma fs_client_cached:
  "fs_client sos T cs los ls = cached_client cache_close (fsc_create (sv_create sos T cs)) (fsc_test_version (sv_version sos T cs))
     (\<lambda>f m fetch. via (sv_open sos T cs f m fetch) opn_success opn_error (\<lambda>r. r))
     (\<lambda>h b. via (sv_close sos T cs h b) clo_success clo_error (\<lambda>r. r)) los ls"
  by (simp add: fs_client_def cached_client_def fsc_open_def fsc_close_def)

section \<open>The tests of locks\<close>

text \<open>
  Calls follow each other within 0.9 seconds (the pause between polls is half a second), time passes,
  and the timer of the lock has run no more than a second before each call; a run before the lock
  expires does nothing.
\<close>

definition prompt :: "(nat \<Rightarrow> int) \<Rightarrow> (nat \<Rightarrow> (int \<times> fs_call) list) \<Rightarrow> string \<Rightarrow> string \<Rightarrow> bool" where
  "prompt T cs f me \<longleftrightarrow>
     (\<forall>k. T k \<le> T (Suc k) \<and> T (Suc k) \<le> T k + 900 \<and> (\<forall>(t, c)\<in>set (cs k). t \<le> T k) \<and> (\<exists>t\<ge>T k - 1000. (t, Timer f me) \<in> set (cs k)))
     \<and> (\<forall>b. \<exists>k. b \<le> T k)"

definition locked_by :: "string \<Rightarrow> int \<Rightarrow> string \<Rightarrow> fs_state \<Rightarrow> fs_state" where
  "locked_by me e f s = s\<lparr>fs_locks := [(f, \<lparr>lk_owner = me, lk_expires = e\<rparr>)]\<rparr>"

definition noted :: "string \<Rightarrow> string list \<Rightarrow> fs_state \<Rightarrow> fs_state" where
  "noted me ms s = s\<lparr>fs_locks := [], fs_notes := dset (fs_notes s) me ms\<rparr>"

lemma locked_simps [simp]:
  "dget (fs_locks (locked_by me e f s)) g = (if g = f then Some \<lparr>lk_owner = me, lk_expires = e\<rparr> else None)"
  "fs_notes (locked_by me e f s) = fs_notes s" "fs_open (locked_by me e f s) = fs_open s" "fs_disk (locked_by me e f s) = fs_disk s"
  "fs_notes (noted me ms s) = dset (fs_notes s) me ms" "fs_locks (noted me ms s) = []" "fs_disk (noted me ms s) = fs_disk s"
  "fs_open (noted me ms s) = fs_open s" "fs_versions (noted me ms s) = fs_versions s" "fs_next (noted me ms s) = fs_next s"
  by (simp_all add: locked_by_def noted_def dget_Cons)

lemma locked_not_noted: "locked_by me e f s \<noteq> noted me' ms s'"
proof
  assume "locked_by me e f s = noted me' ms s'"
  then have "dget (fs_locks (locked_by me e f s)) f = dget (fs_locks (noted me' ms s')) f" by simp
  then show False by simp
qed

lemma unlocked_note:
  "me \<noteq> [] \<Longrightarrow> push_note me m ((locked_by me e f s)\<lparr>fs_locks := dpop (fs_locks (locked_by me e f s)) f\<rparr>)
    = noted me (dget_or (fs_notes s) me [] @ [m]) s"
  by (simp add: push_note_def locked_by_def noted_def dpop_def)

lemma timers_locked:
  assumes "\<forall>(t, c)\<in>set l. \<exists>g o'. c = Timer g o'" "me \<noteq> []"
  shows "fs_run os l (locked_by me e f s) = locked_by me e f s \<and> (\<forall>t. (t, Timer f me) \<in> set l \<longrightarrow> t < e)
    \<or> fs_run os l (locked_by me e f s) = noted me (dget_or (fs_notes s) me [] @ [timed_out_msg f]) s \<and> (\<exists>(t, c)\<in>set l. e \<le> t)"
  using assms(1)
proof (induction l)
  case (Cons x l)
  obtain t g o' where x: "x = (t, Timer g o')" using Cons.prems by (cases x) auto
  have "fs_run os l (noted me ms s) = noted me ms s" for ms by (rule timers_idle) (use Cons.prems in auto)
  then show ?case using Cons assms(2) unlocked_note [OF assms(2)] by (auto simp: x auto_release_def)
qed simp

lemma lock_call:
  assumes g: "fs_good sos cs F N w" and f: "f \<in> F" "fs_stored sos F w f \<noteq> None" "0 < secs"
  shows "fsc_lock_file (sv_lock sos T cs) me f secs w
    = ((Suc (fst w), locked_by me (T (fst w) + 1000 * secs) f (snd w)), Inr (T (fst w) + 1000 * secs))"
proof -
  have al: "alone sos cs F" and nl: "fs_locks (snd w) = []" using g by (auto simp: fs_good_def)
  have "path_exists sos (fs_disk (snd w)) (fs_path f)"
    using file_exists [OF al f(1), of "fs_disk (snd w)"] f by (auto simp: fs_stored_def)
  then have "fs_lock sos t t f secs me (snd w) = (locked_by me (t + 1000 * secs) f (snd w),
      \<lparr>lkr_success = True, lkr_error = [], lkr_expires = t + 1000 * secs\<rparr>)" for t
    using f(3) nl unlocked [OF nl] by (simp add: fs_lock_def is_locked_def locked_by_def Let_def dset_def)
  then show ?thesis by (simp add: fsc_lock_file_def sv_lock_def at_idle [OF g] via_def fsc_execute_rpc_def)
qed

lemma timers_of: "alone sos cs F \<Longrightarrow> \<forall>(t, c)\<in>set (cs k). \<exists>g o'. c = Timer g o'"
  unfolding alone_def by blast

lemma timers_early:
  assumes "alone sos cs F" "prompt T cs f me" "me \<noteq> []" "T k < e"
  shows "fs_run sos (cs k) (locked_by me e f s) = locked_by me e f s"
proof -
  have "\<forall>(t, c)\<in>set (cs k). t \<le> T k" using assms(2) by (simp add: prompt_def)
  with timers_locked [OF timers_of [OF assms(1)] assms(3), where os = sos and e = e and f = f and s = s] assms(4) show ?thesis by fastforce
qed

lemma timers_late:
  assumes "alone sos cs F" "prompt T cs f me" "me \<noteq> []" "e + 1000 \<le> T k"
  shows "fs_run sos (cs k) (locked_by me e f s) = noted me (dget_or (fs_notes s) me [] @ [timed_out_msg f]) s"
proof -
  obtain t where "T k - 1000 \<le> t" "(t, Timer f me) \<in> set (cs k)" using assms(2) unfolding prompt_def by blast
  with timers_locked [OF timers_of [OF assms(1)] assms(3), where os = sos and e = e and f = f and s = s] assms(4) show ?thesis by fastforce
qed

lemma close_call_locked:
  assumes "alone sos cs F" "prompt T cs f me" "me \<noteq> []" "T k < e" "dget (fs_open s) h = Some \<lparr>h_file = f, h_mode = ''w''\<rparr>"
  shows "\<exists>x. via (sv_close sos T cs h b) clo_success clo_error (\<lambda>r. r) (k, locked_by me e f s) = ((Suc k, locked_by me e f s), Inl x)"
proof -
  have "cleanup_expired_lock (T k) f (locked_by me e f s) = locked_by me e f s"
    using assms(4) by (simp add: cleanup_expired_lock_def)
  then have "fs_close sos (T k) h b (locked_by me e f s) = (locked_by me e f s, close_error (locked_msg f))"
    using assms(4,5) by (cases rule: close_cases [of "locked_by me e f s" h sos "T k" b]) (auto simp: live_lock_def)
  then show ?thesis
    by (simp add: sv_close_def at_server_def timers_early [OF assms(1-4)] via_def fsc_execute_rpc_def)
qed

text \<open>Polling ends with the notification of the timeout.\<close>

lemma poll_finds:
  assumes al: "alone sos cs F" and pr: "prompt T cs f me" and me: "me \<noteq> []" and nn: "dget (fs_notes s) me = None"
    and D: "e + 1900 < D" "T (n + i) < e + 1900"
  shows "\<exists>k. poll_notes (\<lambda>j. T (n + (j - 1))) (\<lambda>j. fsc_get_lock_notifications (sv_notes sos T cs) me) D (Suc i) (n + i, locked_by me e f s)
    = Some ((k, s\<lparr>fs_locks := [], fs_notes := dpop (dset (fs_notes s) me [timed_out_msg f]) me\<rparr>), Inr [timed_out_msg f])"
proof -
  obtain K where K: "e + 1000 \<le> T K" using pr unfolding prompt_def by blast
  show ?thesis using D(2)
  proof (induction "K - (n + i)" arbitrary: i rule: less_induct)
    case less
    have t: "T (n + i) < D" using less.prems D(1) by simp
    note step = poll_notes.simps [of "\<lambda>j. T (n + (j - 1))" _ D "Suc i"]
    show ?case
    proof (cases "fs_run sos (cs (n + i)) (locked_by me e f s) = locked_by me e f s")
      case True
      then have early: "T (n + i) < e + 1000" using timers_late [OF al pr me, of e "n + i" s] locked_not_noted by (metis not_le)
      have "T K \<le> T (K + d)" for d using pr by (induction d) (auto simp: prompt_def intro: order_trans)
      from this [of "n + i - K"] K early have "n + i < K" by (cases "n + i < K") auto
      then have m: "K - (n + Suc i) < K - (n + i)" by simp
      have "T (Suc (n + i)) \<le> T (n + i) + 900" using pr unfolding prompt_def by blast
      then have "T (n + Suc i) < e + 1900" using early by simp
      note ih = less.hyps [OF m this]
      have "fsc_get_lock_notifications (sv_notes sos T cs) me (n + i, locked_by me e f s) = ((n + Suc i, locked_by me e f s), Inr [])"
        using nn True by (simp add: fsc_get_lock_notifications_def sv_notes_def at_server_def fs_take_notes_def via_def fsc_execute_rpc_def
            dget_or_def dpop_absent locked_by_def)
      then show ?thesis using t ih by (subst step) simp
    next
      case False
      with timers_locked [OF timers_of [OF al] me, where os = sos and e = e and f = f and s = s]
      have "fs_run sos (cs (n + i)) (locked_by me e f s) = noted me [timed_out_msg f] s" using nn by (auto simp: dget_or_def)
      then have "fsc_get_lock_notifications (sv_notes sos T cs) me (n + i, locked_by me e f s)
        = ((n + Suc i, s\<lparr>fs_locks := [], fs_notes := dpop (dset (fs_notes s) me [timed_out_msg f]) me\<rparr>), Inr [timed_out_msg f])"
        by (simp add: fsc_get_lock_notifications_def sv_notes_def at_server_def fs_take_notes_def via_def fsc_execute_rpc_def dget_or_def noted_def)
      then show ?thesis using t by (subst step) simp
    qed
  qed
qed

abbreviation fs_ready ::
  "os \<Rightarrow> (nat \<Rightarrow> (int \<times> fs_call) list) \<Rightarrow> string set \<Rightarrow> os \<Rightarrow> string \<Rightarrow> (cache \<Rightarrow> string list) \<Rightarrow> (string, string list) dict
   \<Rightarrow> timed client_session \<Rightarrow> bool" where
  "fs_ready sos cs F los dir ls N \<equiv> se_ready (fs_good sos cs F N) (fs_stored sos F) los dir ls F"

abbreviation fs_holds ::
  "os \<Rightarrow> (nat \<Rightarrow> (int \<times> fs_call) list) \<Rightarrow> string set \<Rightarrow> os \<Rightarrow> string \<Rightarrow> (cache \<Rightarrow> string list) \<Rightarrow> (string, string list) dict
   \<Rightarrow> timed client_session \<Rightarrow> int \<Rightarrow> string \<Rightarrow> string \<Rightarrow> bytes \<Rightarrow> bool" where
  "fs_holds sos cs F los dir ls N \<equiv> se_holds (fs_good sos cs F N) (fs_stored sos F) fs_handles los dir ls F"

lemmas fs_wp = fs_alone.late.wp [folded fs_client_cached]

text \<open>Notifications do not matter to files and handles.\<close>

lemma good_noted: "fs_good sos cs F N (k, s) \<Longrightarrow> fs_good sos cs F N' (k', s\<lparr>fs_locks := [], fs_notes := N'\<rparr>)"
  by (simp add: fs_good_def fs_ok_def)

lemma stored_noted: "fs_stored sos F (k', s\<lparr>fs_locks := L, fs_notes := N'\<rparr>) = fs_stored sos F (k, s)"
  by (simp add: fs_stored_def fs_test_version_def fun_eq_iff)

lemma holds_noted:
  "fs_holds sos cs F los dir ls N \<lparr>se_cache = c, se_server = (k, s)\<rparr> h f m b
   \<Longrightarrow> fs_holds sos cs F los dir ls N' \<lparr>se_cache = c, se_server = (k', s\<lparr>fs_locks := [], fs_notes := N'\<rparr>)\<rparr> h f m b"
  by (auto simp: se_holds_def stored_noted [where k' = k' and k = k] fs_handles_def intro: good_noted)

lemma ready_noted:
  "fs_ready sos cs F los dir ls N \<lparr>se_cache = c, se_server = (k, s)\<rparr>
   \<Longrightarrow> fs_ready sos cs F los dir ls N' \<lparr>se_cache = c, se_server = (k', s\<lparr>fs_locks := [], fs_notes := N'\<rparr>)\<rparr>"
  by (auto simp: se_ready_def stored_noted [where k' = k' and k = k] intro: good_noted)

lemma lock_wait_wp:
  assumes h: "fs_holds sos cs F los dir ls N w h f ''w'' b" and pr: "prompt T cs f me" and me: "me \<noteq> []" "dget N me = None"
    and Q: "\<And>w' N'. fs_holds sos cs F los dir ls N' w' h f ''w'' b \<Longrightarrow> fs_stored sos F (se_server w') = fs_stored sos F (se_server w)
      \<Longrightarrow> dget N' me = None \<Longrightarrow> outcome (k [timed_out_msg f]) (tally w' (Suc p) n) Q"
  shows "outcome (andthen (perform (lc_lock (fs_locks_of sos T cs me) f 2)) (\<lambda>_.
    andthen (expect_exception (perform (cl_close (fs_client sos T cs los ls) h))) (\<lambda>_.
    andthen (perform_maybe (lc_wait (fs_locks_of sos T cs me) 5)) k))) (tally w p n) Q"
proof -
  obtain c i s where w: "w = \<lparr>se_cache = c, se_server = (i, s)\<rparr>" by (cases w) auto
  have g: "fs_good sos cs F N (i, s)" and f: "f \<in> F" "fs_stored sos F (i, s) f \<noteq> None" and hs: "fs_handles (i, s) h = Some (f, ''w'')"
    and ca: "\<exists>v. dget (ca_active c) h = Some \<lparr>ah_path = path_join dir (cache_name f v), ah_file = f, ah_mode = ''w''\<rparr>
      \<and> contents los (ca_disk c) (path_join dir (cache_name f v)) = Some b"
    using h unfolding w se_holds_def by auto
  have al: "alone sos cs F" and nt: "fs_notes s = N" using g by (auto simp: fs_good_def)
  have op: "dget (fs_open s) h = Some \<lparr>h_file = f, h_mode = ''w''\<rparr>" using hs by (auto simp: fs_handles_def)
  let ?e = "T i + 2000"
  let ?L = "locked_by me ?e f s" and ?N = "dpop (dset (fs_notes s) me [timed_out_msg f]) me"
  have T: "T (Suc i) < ?e" "T (Suc (Suc i)) < ?e + 1900" "T i \<le> T (Suc i)" "T (Suc i) \<le> T (Suc (Suc i))"
    using pr unfolding prompt_def by (smt (verit))+
  have lk: "lc_lock (fs_locks_of sos T cs me) f 2 w = (\<lparr>se_cache = c, se_server = (Suc i, ?L)\<rparr>, Inr ?e)"
    using lock_call [OF g f, of 2 T me] by (simp add: fs_locks_of_def w)
  obtain x where cx: "via (sv_close sos T cs h b) clo_success clo_error (\<lambda>r. r) (Suc i, ?L) = ((Suc (Suc i), ?L), Inl x)"
    using close_call_locked [OF al pr me(1) T(1) op] by blast
  have cl: "cl_close (fs_client sos T cs los ls) h \<lparr>se_cache = c, se_server = (Suc i, ?L)\<rparr>
      = (\<lparr>se_cache = c, se_server = (Suc (Suc i), ?L)\<rparr>, Inl x)"
    using ca cx by (auto simp: fs_client_def session_client_def fsc_close_def cache_close_def read_file_contents [symmetric])
  obtain j where "poll_notes (\<lambda>j. T (Suc (Suc i) + (j - 1))) (\<lambda>j. fsc_get_lock_notifications (sv_notes sos T cs) me)
      (T (Suc (Suc i)) + 5000) (Suc 0) (Suc (Suc i) + 0, ?L)
    = Some ((j, s\<lparr>fs_locks := [], fs_notes := ?N\<rparr>), Inr [timed_out_msg f])"
    using poll_finds [OF al pr me(1), of s ?e "T (Suc (Suc i)) + 5000" "Suc (Suc i)" 0] T me(2) nt by auto
  then have wt: "lc_wait (fs_locks_of sos T cs me) 5 \<lparr>se_cache = c, se_server = (Suc (Suc i), ?L)\<rparr>
      = Some (\<lparr>se_cache = c, se_server = (j, s\<lparr>fs_locks := [], fs_notes := ?N\<rparr>)\<rparr>, Inr [timed_out_msg f])"
    by (simp add: fs_locks_of_def fsc_wait_for_lock_notification_def)
  have q: "outcome (k [timed_out_msg f]) (tally \<lparr>se_cache = c, se_server = (j, s\<lparr>fs_locks := [], fs_notes := ?N\<rparr>)\<rparr> (Suc p) n) Q"
    by (rule Q [OF holds_noted [OF h [unfolded w]]]) (simp_all add: w stored_noted [where k' = j and k = i])
  show ?thesis
    apply (rule outcome_perform, rule lk)
    apply (simp only: outcome_andthen [of "expect_exception _"])
    apply (rule outcome_expect, rule cl)
    apply (rule outcome_perform_maybe, rule wt, rule q)
    done
qed

definition released_msg :: "string \<Rightarrow> string" where
  "released_msg f = ''Lock on '' @ quoted f @ '' was released explicitly.''"

lemma lock_unlock_wp:
  assumes h: "fs_holds sos cs F los dir ls N w h f ''w'' b" and pr: "prompt T cs f me" and me: "me \<noteq> []" "dget N me = None"
    and Q: "\<And>w' N'. fs_holds sos cs F los dir ls N' w' h f ''w'' b \<Longrightarrow> fs_stored sos F (se_server w') = fs_stored sos F (se_server w)
      \<Longrightarrow> dget N' me = Some [released_msg f] \<Longrightarrow> outcome (k True) (tally w' p n) Q"
  shows "outcome (andthen (perform (lc_lock (fs_locks_of sos T cs me) f 15)) (\<lambda>_.
    andthen (perform (lc_unlock (fs_locks_of sos T cs me) f)) k)) (tally w p n) Q"
proof -
  obtain c i s where w: "w = \<lparr>se_cache = c, se_server = (i, s)\<rparr>" by (cases w) auto
  have g: "fs_good sos cs F N (i, s)" and f: "f \<in> F" "fs_stored sos F (i, s) f \<noteq> None"
    using h unfolding w se_holds_def by auto
  have al: "alone sos cs F" and nt: "fs_notes s = N" using g by (auto simp: fs_good_def)
  let ?e = "T i + 15000" and ?m = "released_msg f"
  let ?L = "locked_by me ?e f s" and ?N = "dset (fs_notes s) me [?m]"
  have T: "T (Suc i) < ?e" using pr unfolding prompt_def by (smt (verit))
  have lk: "lc_lock (fs_locks_of sos T cs me) f 15 w = (\<lparr>se_cache = c, se_server = (Suc i, ?L)\<rparr>, Inr ?e)"
    using lock_call [OF g f, of 15 T me] by (simp add: fs_locks_of_def w)
  have "cleanup_expired_lock (T (Suc i)) f ?L = ?L" using T by (simp add: cleanup_expired_lock_def)
  then have "fs_unlock (T (Suc i)) f me ?L = (noted me [?m] s, \<lparr>ulr_success = True, ulr_error = []\<rparr>)"
    using unlocked_note [OF me(1), of ?m ?e f s] me(2) nt by (simp add: fs_unlock_def Let_def dget_or_def released_msg_def)
  then have ul: "lc_unlock (fs_locks_of sos T cs me) f \<lparr>se_cache = c, se_server = (Suc i, ?L)\<rparr>
      = (\<lparr>se_cache = c, se_server = (Suc (Suc i), s\<lparr>fs_locks := [], fs_notes := ?N\<rparr>)\<rparr>, Inr True)"
    by (simp add: fs_locks_of_def fsc_unlock_file_def sv_unlock_def at_server_def timers_early [OF al pr me(1) T] via_def
        fsc_execute_rpc_def noted_def)
  have q: "outcome (k True) (tally \<lparr>se_cache = c, se_server = (Suc (Suc i), s\<lparr>fs_locks := [], fs_notes := ?N\<rparr>)\<rparr> p n) Q"
    by (rule Q [OF holds_noted [OF h [unfolded w]]]) (simp_all add: w stored_noted [where k' = "Suc (Suc i)" and k = i])
  show ?thesis by (rule outcome_perform, rule lk, rule outcome_perform, rule ul, rule q)
qed

lemma notes_wp:
  assumes r: "fs_ready sos cs F los dir ls N w" and m: "dget N me = Some ms"
    and Q: "\<And>w' N'. fs_ready sos cs F los dir ls N' w' \<Longrightarrow> fs_stored sos F (se_server w') = fs_stored sos F (se_server w)
      \<Longrightarrow> outcome (k ms) (tally w' p n) Q"
  shows "outcome (andthen (perform (lc_notes (fs_locks_of sos T cs me))) k) (tally w p n) Q"
proof -
  obtain c i s where w: "w = \<lparr>se_cache = c, se_server = (i, s)\<rparr>" by (cases w) auto
  have g: "fs_good sos cs F N (i, s)" using r unfolding w se_ready_def by simp
  then have s: "fs_locks s = []" "fs_notes s = N" by (auto simp: fs_good_def)
  let ?N = "dpop N me"
  have "s\<lparr>fs_notes := ?N\<rparr> = s\<lparr>fs_locks := [], fs_notes := ?N\<rparr>" using s(1) by (cases s) simp
  then have nt: "lc_notes (fs_locks_of sos T cs me) w = (\<lparr>se_cache = c, se_server = (Suc i, s\<lparr>fs_locks := [], fs_notes := ?N\<rparr>)\<rparr>, Inr ms)"
    using s(2) m by (simp add: w fs_locks_of_def fsc_get_lock_notifications_def sv_notes_def at_idle [OF g] fs_take_notes_def via_def
        fsc_execute_rpc_def dget_or_def)
  have q: "outcome (k ms) (tally \<lparr>se_cache = c, se_server = (Suc i, s\<lparr>fs_locks := [], fs_notes := ?N\<rparr>)\<rparr> p n) Q"
    by (rule Q [OF ready_noted [OF r [unfolded w]]]) (simp add: w stored_noted [where k' = "Suc i" and k = i])
  show ?thesis by (rule outcome_perform, rule nt, rule q)
qed

lemma timed_out_noted: "sublist ''timed out'' (timed_out_msg f)"
proof -
  have "timed_out_msg f = (''Lock on '' @ quoted f @ '' '') @ ''timed out'' @ '' and was released automatically.''"
    by (simp add: timed_out_msg_def)
  then show ?thesis by (metis sublist_appendI)
qed

lemma release_noted: "sublist ''released explicitly'' (released_msg f)"
proof -
  have "released_msg f = (''Lock on '' @ quoted f @ '' was '') @ ''released explicitly'' @ ''.''"
    by (simp add: released_msg_def)
  then show ?thesis by (metis sublist_appendI)
qed

lemma test16_passes:
  assumes "fs_ready sos cs F los dir ls N w" "f \<in> F \<and> fs_stored sos F (se_server w) f = None"
    and "prompt T cs f me" "me \<noteq> []" "dget N me = None"
    and Q: "\<And>w' N' p' x. fs_ready sos cs F los dir ls N' w' \<Longrightarrow> dget N' me = None \<Longrightarrow> p' = p + 3
      \<Longrightarrow> fs_stored sos F (se_server w') = (fs_stored sos F (se_server w))(f \<mapsto> x) \<Longrightarrow> Q (tally w' p' n) ()"
  shows "outcome (test16 (fs_client sos T cs los ls) (fs_locks_of sos T cs me) f) (tally w p n) Q"
  unfolding test16_def
  apply (insert assms(1,2))
  apply (rule fs_wp, assumption, simp)+
  apply (rule lock_wait_wp [OF _ assms(3-5)], assumption)
  apply (simp only: outcome_andthen [of "judge _"])
  apply (rule outcome_judge)
  apply (simp add: timed_out_noted)
  apply (rule fs_wp, assumption, simp)+
  apply (rule outcome_judge)
  apply (simp add: spliced_def as_bytes_def)
  apply (rule Q, assumption, assumption, simp_all)
  done

lemma test17_passes:
  assumes "fs_ready sos cs F los dir ls N w" "f \<in> F \<and> fs_stored sos F (se_server w) f = None"
    and "prompt T cs f me" "me \<noteq> []" "dget N me = None"
    and Q: "\<And>w' p'. p' = p + 2 \<Longrightarrow> Q (tally w' p' n) ()"
  shows "outcome (test17 (fs_client sos T cs los ls) (fs_locks_of sos T cs me) f) (tally w p n) Q"
  unfolding test17_def
  apply (insert assms(1,2))
  apply (rule fs_wp, assumption, simp)+
  apply (rule lock_unlock_wp [OF _ assms(3-5)], assumption)
  apply (rule fs_wp, assumption, simp)
  apply (rule notes_wp, assumption, assumption)
  apply (simp only: outcome_andthen [of "judge _"])
  apply (rule outcome_judge)
  apply (simp add: release_noted)
  apply (rule fs_wp, assumption, simp)+
  apply (rule outcome_judge)
  apply (simp add: spliced_def as_bytes_def Q)
  done

section \<open>The scripts pass\<close>

definition all_files :: "string \<Rightarrow> string set" where
  "all_files r = insert (f_missing r) (insert (f_lock r) (insert (f_unlock r) (script_files r)))"

text \<open>
  C29. The acceptance script of the file server passes: all 20 checks of \<open>run_exhaustive_tests\<close> succeed,
  whatever the process id, with whatever files and cached copies there were before, if the files of the
  script do not exist yet, no other client is at work and calls are prompt. So every call returns
  what the script expects of it, errors included.
\<close>

theorem fs_script_passes:
  assumes "alone sos cs (all_files r)" "cache_dir_ok los dir ls (all_files r)"
    and "\<forall>f\<in>all_files r. contents sos d (fs_path f) = None"
    and "prompt T cs (f_lock r) me" "prompt T cs (f_unlock r) me" "me \<noteq> []"
  shows "\<exists>w. run_exhaustive_tests (fs_client sos T cs los ls) (fs_locks_of sos T cs me) r
      \<lparr>ta_state = \<lparr>se_cache = new_cache dir d', se_server = (0, fs_init d)\<rparr>, ta_passed = 0, ta_failed = 0\<rparr>
    = Some (\<lparr>ta_state = w, ta_passed = 20, ta_failed = 0\<rparr>, Inr ())"
proof -
  let ?w = "\<lparr>se_cache = new_cache dir d', se_server = (0 :: nat, fs_init d)\<rparr>" and ?F = "all_files r"
  have none: "fs_stored sos ?F (0, fs_init d) f = None" for f using assms(3) by (auto simp: fs_stored_def fs_init_def)
  have rdy: "fs_ready sos cs ?F los dir ls [] ?w"
    using assms(1,2) fs_ok_init by (simp add: se_ready_def fs_good_def in_sync_def new_cache_def) (simp add: fs_init_def)
  have files: "f_missing r \<in> ?F" "f_lock r \<in> ?F" "f_unlock r \<in> ?F" "script_files r \<subseteq> ?F" by (auto simp: all_files_def)
  have "outcome (run_exhaustive_tests (fs_client sos T cs los ls) (fs_locks_of sos T cs me) r) (tally ?w 0 0)
    (\<lambda>t _. \<exists>w. t = tally w 20 0)"
    unfolding run_exhaustive_tests_def outcome_Cons outcome_Nil fs_client_cached
    apply (rule fs_alone.late.plain_script_passes, rule rdy)
    using files none apply fastforce
    unfolding fs_client_cached [symmetric]
    apply (rule test16_passes [OF _ _ assms(4,6)], assumption)
    using files none apply simp
     apply simp
    apply (rule test17_passes [OF _ _ assms(5,6)], assumption)
    using files none apply (simp add: script_name_eqs [symmetric])
     apply assumption
    apply simp
    done
  then show ?thesis by (auto simp: outcome_def)
qed

text \<open>A run with a flat directory and a call every 0.1 seconds.\<close>

definition tick :: "nat \<Rightarrow> int" where
  "tick k = 100 * int k"

definition tick_timers :: "string \<Rightarrow> string \<Rightarrow> nat \<Rightarrow> (int \<times> fs_call) list" where
  "tick_timers r me k = [(tick k, Timer (f_lock r) me), (tick k, Timer (f_unlock r) me)]"

lemma tick_prompt:
  assumes "f \<in> {f_lock r, f_unlock r}" shows "prompt tick (tick_timers r me) f me"
  unfolding prompt_def
proof (intro conjI allI)
  fix k and b :: int
  show "\<exists>k. b \<le> tick k" by (rule exI [of _ "nat \<bar>b\<bar>"]) (simp add: tick_def)
  show "\<exists>t\<ge>tick k - 1000. (t, Timer f me) \<in> set (tick_timers r me k)"
    by (rule exI [of _ "tick k"]) (use assms in \<open>auto simp: tick_timers_def\<close>)
qed (simp_all add: tick_def tick_timers_def)

lemma flat_alone: "alone flat_disk (tick_timers r me) F"
  using one_name_flat by (auto simp: alone_def tick_timers_def flat_disk_def one_name_def)

theorem fs_script_passes_witness:
  "\<exists>w. run_exhaustive_tests (fs_client flat_disk tick (tick_timers ''42'' ''me'') flat_disk (\<lambda>c. map fst (ca_disk c)))
      (fs_locks_of flat_disk tick (tick_timers ''42'' ''me'') ''me'') ''42''
      \<lparr>ta_state = \<lparr>se_cache = new_cache ''c'' [], se_server = (0, fs_init [])\<rparr>, ta_passed = 0, ta_failed = 0\<rparr>
    = Some (\<lparr>ta_state = w, ta_passed = 20, ta_failed = 0\<rparr>, Inr ())"
  by (rule fs_script_passes) (simp_all add: flat_alone flat_cache tick_prompt contents_def flat_disk_def)

end
