(* ===== verification/Fs_Plain_Acceptance.thy ===== *)
theory Fs_Plain_Acceptance
  imports Fs_Acceptance
begin

text \<open>
  The acceptance script of the file service without gRPC passes: its server keeps the contract of
  \<open>Fs_Session\<close> too, and its client differs from the cached one only in forgetting a handle before it
  asks the server to close it.
\<close>

definition create_over :: "os \<Rightarrow> (plain_fs, create_response) sender" where
  "create_over os q k s = (case dispatch os q s of (s', Some (ReCreate r)) \<Rightarrow> (s', Got r) | (s', _) \<Rightarrow> (s', NoResponse))"

abbreviation reconnected :: "plain_fs \<Rightarrow> plain_fs \<times> exn option" where
  "reconnected s \<equiv> (s, None)"

definition pf_client :: "os \<Rightarrow> os \<Rightarrow> (cache \<Rightarrow> string list) \<Rightarrow> plain_fs client_session file_client" where
  "pf_client sos los ls =
     session_client (pc_create (create_over sos) reconnected)
       (\<lambda>f m c. pc_open los (ls c) (version_over sos) (open_over sos) reconnected f m c) (pc_read los) (pc_write los)
       (\<lambda>h c. pc_close los (ls c) (close_over sos (\<lambda>_. False)) reconnected h c) (pc_test_version (version_over sos) reconnected)"

definition pf_good :: "os \<Rightarrow> string set \<Rightarrow> plain_fs \<Rightarrow> bool" where
  "pf_good sos F s \<longleftrightarrow> alone sos (\<lambda>_. []) F \<and> (\<forall>f v. dget (pf_versions s) f = Some v \<longrightarrow> 1 \<le> v)"

definition pf_stored :: "os \<Rightarrow> string set \<Rightarrow> plain_fs \<Rightarrow> string \<Rightarrow> (int \<times> bytes) option" where
  "pf_stored sos F s f =
     (if f \<in> F then map_option (Pair (pf_test_version f s)) (contents sos (pf_disk s) (pf_path f)) else None)"

definition pf_handles :: "plain_fs \<Rightarrow> int \<Rightarrow> (string \<times> string) option" where
  "pf_handles s h = map_option (\<lambda>i. (h_file i, h_mode i)) (dget (pf_open s) h)"

lemma pf_stored_written:
  assumes "alone sos cs F" "f \<in> F" "write_file sos (pf_path f) b (pf_disk s) = Inr d" "pf_disk s' = d"
    and "pf_versions s' = dset (pf_versions s) f v"
  shows "pf_stored sos F s' = (pf_stored sos F s)(f \<mapsto> (v, b))"
  using write_file_contents [OF assms(3)] alone_same [OF assms(1) _ assms(2)] assms(2,4,5)
  by (auto simp: pf_stored_def fun_eq_iff pf_path_eq pf_test_version_def dget_or_def)

lemma pf_positive: "pf_good sos F s \<Longrightarrow> 1 \<le> pf_test_version f s"
  by (auto simp: pf_good_def pf_test_version_def dget_or_def split: option.split)

lemma pf_creates:
  assumes g: "pf_good sos F s" and f: "f \<in> F"
  shows "pf_stored sos F s f = None \<Longrightarrow> \<exists>s' x. pc_create (create_over sos) reconnected f s = (s', Inr x) \<and> pf_good sos F s'
      \<and> pf_stored sos F s' = (pf_stored sos F s)(f \<mapsto> (1, [])) \<and> pf_handles s' = pf_handles s"
    and "pf_stored sos F s f \<noteq> None \<Longrightarrow> \<exists>s' x. pc_create (create_over sos) reconnected f s = (s', Inl x) \<and> pf_good sos F s'
      \<and> pf_stored sos F s' = pf_stored sos F s \<and> pf_handles s' = pf_handles s"
proof -
  have al: "alone sos (\<lambda>_. []) F" using g by (simp add: pf_good_def)
  note ex = file_exists [OF al f, of "pf_disk s", folded pf_path_eq]
  obtain l where l: "sos (pf_path f) = File l" using alone_file [OF al f] by (auto simp: pf_path_eq)
  { assume n: "pf_stored sos F s f = None"
    obtain d where d: "write_file sos (pf_path f) [] (pf_disk s) = Inr d" using l by (simp add: write_file_def)
    let ?s = "s\<lparr>pf_disk := d, pf_versions := dset (pf_versions s) f 1\<rparr>"
    have "pf_create sos f s = (?s, \<lparr>cre_handle = 0, cre_success = True, cre_error = []\<rparr>)"
      using n d ex f by (simp add: pf_create_def pf_stored_def)
    moreover have "pf_stored sos F ?s = (pf_stored sos F s)(f \<mapsto> (1, []))"
      by (rule pf_stored_written [OF al f d]) simp_all
    ultimately show "\<exists>s' x. pc_create (create_over sos) reconnected f s = (s', Inr x) \<and> pf_good sos F s'
        \<and> pf_stored sos F s' = (pf_stored sos F s)(f \<mapsto> (1, [])) \<and> pf_handles s' = pf_handles s"
      using g by (intro exI [of _ ?s] exI [of _ 0])
        (simp add: pc_create_def create_over_def dispatch_def call_rpc_def field_def pf_good_def pf_handles_def fun_eq_iff)
  next
    assume "pf_stored sos F s f \<noteq> None"
    then have "pf_create sos f s = (s, create_error ''File already exists'')"
      using ex f by (simp add: pf_create_def pf_stored_def)
    then show "\<exists>s' x. pc_create (create_over sos) reconnected f s = (s', Inl x) \<and> pf_good sos F s'
        \<and> pf_stored sos F s' = pf_stored sos F s \<and> pf_handles s' = pf_handles s"
      using g by (intro exI [of _ s]) (simp add: pc_create_def create_over_def dispatch_def call_rpc_def field_def)
  }
qed

lemma pf_opens:
  assumes g: "pf_good sos F s" and f: "f \<in> F"
  shows "pf_stored sos F s f = Some (v, b) \<Longrightarrow> m \<in> {''r'', ''w''}
      \<Longrightarrow> \<exists>s' r. call_rpc opn_success opn_error ''open'' (open_over sos (RqOpen f m fetch)) reconnected s = (s', Inr r)
      \<and> pf_good sos F s' \<and> pf_stored sos F s' = pf_stored sos F s \<and> opn_version r = v \<and> (fetch \<longrightarrow> opn_data r = b)
      \<and> pf_handles s' = (pf_handles s)(opn_handle r \<mapsto> (f, m))"
    and "pf_stored sos F s f = None
      \<Longrightarrow> \<exists>s' x. call_rpc opn_success opn_error ''open'' (open_over sos (RqOpen f ''r'' fetch)) reconnected s = (s', Inl x)
      \<and> pf_good sos F s' \<and> pf_stored sos F s' = pf_stored sos F s \<and> pf_handles s' = pf_handles s"
proof -
  have al: "alone sos (\<lambda>_. []) F" using g by (simp add: pf_good_def)
  note ex = file_exists [OF al f, of "pf_disk s", folded pf_path_eq]
  { assume st: "pf_stored sos F s f = Some (v, b)" and m: "m \<in> {''r'', ''w''}"
    then have c: "contents sos (pf_disk s) (pf_path f) = Some b" and v: "pf_test_version f s = v"
      using f by (auto simp: pf_stored_def)
    let ?b = "if fetch then b else []"
    have r: "pf_open_file sos f m fetch s = pf_open_section sos f m ?b s"
      using c m ex by (auto simp: pf_open_file_def read_file_contents [symmetric])
    obtain s' r' where o': "pf_open_section sos f m ?b s = (s', r')" by fastforce
    have e: "opn_success r'" "opn_version r' = v" "opn_data r' = ?b" "pf_open s' = dset (pf_open s) (opn_handle r') \<lparr>h_file = f, h_mode = m\<rparr>"
      "pf_disk s' = pf_disk s" "\<And>k. pf_test_version k s' = pf_test_version k s" "pf_versions s' = pf_versions s \<or> pf_versions s' = dset (pf_versions s) f 1"
      using o' v by (auto simp: pf_open_section_def Let_def pf_test_version_def dget_or_def split: if_splits)
    then have "pf_good sos F s'" using g by (auto simp: pf_good_def split: if_splits)
    with e r o' show "\<exists>s' r. call_rpc opn_success opn_error ''open'' (open_over sos (RqOpen f m fetch)) reconnected s = (s', Inr r)
      \<and> pf_good sos F s' \<and> pf_stored sos F s' = pf_stored sos F s \<and> opn_version r = v \<and> (fetch \<longrightarrow> opn_data r = b)
      \<and> pf_handles s' = (pf_handles s)(opn_handle r \<mapsto> (f, m))"
      by (intro exI [of _ s'] exI [of _ r'])
        (simp add: call_rpc_def open_over_def dispatch_def pf_handles_def pf_stored_def fun_eq_iff)
  next
    assume "pf_stored sos F s f = None"
    then have "pf_open_file sos f ''r'' fetch s = (s, open_error ''File not found'')"
      using f ex by (simp add: pf_open_file_def pf_stored_def)
    then show "\<exists>s' x. call_rpc opn_success opn_error ''open'' (open_over sos (RqOpen f ''r'' fetch)) reconnected s = (s', Inl x)
      \<and> pf_good sos F s' \<and> pf_stored sos F s' = pf_stored sos F s \<and> pf_handles s' = pf_handles s"
      using g by (intro exI [of _ s]) (simp add: call_rpc_def open_over_def dispatch_def)
  }
qed

lemma pf_tells_version:
  assumes g: "pf_good sos F s" and st: "pf_stored sos F s f = Some (v, b)"
  shows "0 < v \<and> (\<exists>s'. pc_test_version (version_over sos) reconnected f s = (s', Inr v) \<and> pf_good sos F s'
    \<and> pf_stored sos F s' = pf_stored sos F s \<and> pf_handles s' = pf_handles s)"
proof -
  have v: "pf_test_version f s = v" using st by (auto simp: pf_stored_def split: if_splits)
  with pf_positive [OF g, of f] g show ?thesis
    by (intro conjI exI [of _ s]) (simp_all add: pc_test_version_def call_rpc_def version_over_def dispatch_def)
qed

lemma pf_closes:
  assumes g: "pf_good sos F s" and f: "f \<in> F" and st: "pf_stored sos F s f = Some (v, b0)" and h: "pf_handles s h = Some (f, m)"
  shows "m = ''w'' \<Longrightarrow> \<exists>s' r. call_rpc clo_success clo_error ''close'' (close_over sos (\<lambda>_. False) (RqClose h b)) reconnected s = (s', Inr r)
      \<and> clo_version r = v + 1 \<and> pf_good sos F s' \<and> pf_stored sos F s' = (pf_stored sos F s)(f \<mapsto> (v + 1, b))"
    and "m = ''r'' \<Longrightarrow> \<exists>s' r. call_rpc clo_success clo_error ''close'' (close_over sos (\<lambda>_. False) (RqClose h b)) reconnected s = (s', Inr r)
      \<and> clo_version r \<in> {0, v} \<and> pf_good sos F s' \<and> pf_stored sos F s' = pf_stored sos F s"
proof -
  have al: "alone sos (\<lambda>_. []) F" using g by (simp add: pf_good_def)
  obtain i where i: "dget (pf_open s) h = Some i" "h_file i = f" "h_mode i = m" using h by (auto simp: pf_handles_def)
  have v: "dget_or (pf_versions s) f 1 = v" using st by (auto simp: pf_stored_def pf_test_version_def split: if_splits)
  have v1: "1 \<le> v" using pf_positive [OF g, of f] v by (simp add: pf_test_version_def)
  obtain l where l: "sos (pf_path f) = File l" using alone_file [OF al f] by (auto simp: pf_path_eq)
  { assume m: "m = ''w''"
    obtain d where d: "write_file sos (pf_path f) b (pf_disk s) = Inr d" using l by (simp add: write_file_def)
    let ?s = "s\<lparr>pf_open := dpop (pf_open s) h, pf_disk := d, pf_versions := dset (pf_versions s) f (v + 1)\<rparr>"
    have "pf_close_file sos h b s = (?s, \<lparr>clo_success = True, clo_version = v + 1, clo_error = []\<rparr>)"
      using i m v d by (simp add: pf_close_file_def pf_close_take_def pf_close_write_def)
    moreover have "pf_stored sos F ?s = (pf_stored sos F s)(f \<mapsto> (v + 1, b))"
      by (rule pf_stored_written [OF al f d]) simp_all
    ultimately show "\<exists>s' r. call_rpc clo_success clo_error ''close'' (close_over sos (\<lambda>_. False) (RqClose h b)) reconnected s = (s', Inr r)
      \<and> clo_version r = v + 1 \<and> pf_good sos F s' \<and> pf_stored sos F s' = (pf_stored sos F s)(f \<mapsto> (v + 1, b))"
      using g v1 by (intro exI [of _ ?s] exI [of _ "\<lparr>clo_success = True, clo_version = v + 1, clo_error = []\<rparr>"])
        (simp add: call_rpc_def close_over_def dispatch_def pf_good_def)
  next
    assume m: "m = ''r''"
    have "pf_close_file sos h b s = (s\<lparr>pf_open := dpop (pf_open s) h\<rparr>, \<lparr>clo_success = True, clo_version = v, clo_error = []\<rparr>)"
      using i m v by (simp add: pf_close_file_def pf_close_take_def)
    then show "\<exists>s' r. call_rpc clo_success clo_error ''close'' (close_over sos (\<lambda>_. False) (RqClose h b)) reconnected s = (s', Inr r)
      \<and> clo_version r \<in> {0, v} \<and> pf_good sos F s' \<and> pf_stored sos F s' = pf_stored sos F s"
      using g by (intro exI [of _ "s\<lparr>pf_open := dpop (pf_open s) h\<rparr>"] exI [of _ "\<lparr>clo_success = True, clo_version = v, clo_error = []\<rparr>"])
        (simp add: call_rpc_def close_over_def dispatch_def pf_good_def pf_stored_def pf_test_version_def fun_eq_iff)
  }
qed

interpretation pf_alone: cached_session "pc_create (create_over sos) reconnected" "pc_test_version (version_over sos) reconnected"
  "\<lambda>f m fetch. call_rpc opn_success opn_error ''open'' (open_over sos (RqOpen f m fetch)) reconnected"
  "\<lambda>h b. call_rpc clo_success clo_error ''close'' (close_over sos (\<lambda>_. False) (RqClose h b)) reconnected"
  "pf_good sos F" "pf_stored sos F" pf_handles F los dir ls
  for sos F los dir ls
  by unfold_locales (rule pf_creates pf_opens pf_tells_version pf_closes; (assumption | rule refl))+

lemma pf_client_cached:
  "pf_client sos los ls = cached_client cache_close_early (pc_create (create_over sos) reconnected)
     (pc_test_version (version_over sos) reconnected)
     (\<lambda>f m fetch. call_rpc opn_success opn_error ''open'' (open_over sos (RqOpen f m fetch)) reconnected)
     (\<lambda>h b. call_rpc clo_success clo_error ''close'' (close_over sos (\<lambda>_. False) (RqClose h b)) reconnected) los ls"
  by (simp add: pf_client_def cached_client_def pc_open_def pc_close_def pc_read_def pc_write_def)

text \<open>All 15 checks of the script succeed.\<close>

lemma pf_script_passes:
  assumes "alone sos (\<lambda>_. []) (all_files r)" "cache_dir_ok los dir ls (all_files r)"
    and "\<forall>f\<in>all_files r. contents sos d (pf_path f) = None"
  shows "\<exists>w. plain_script (pf_client sos los ls) r
      \<lparr>ta_state = \<lparr>se_cache = new_cache dir d', se_server = pf_init d\<rparr>, ta_passed = 0, ta_failed = 0\<rparr>
    = Some (\<lparr>ta_state = w, ta_passed = 15, ta_failed = 0\<rparr>, Inr ())"
proof -
  let ?w = "\<lparr>se_cache = new_cache dir d', se_server = pf_init d\<rparr>" and ?F = "all_files r"
  have none: "pf_stored sos ?F (pf_init d) f = None" for f using assms(3) by (auto simp: pf_stored_def pf_init_def)
  have rdy: "se_ready (pf_good sos ?F) (pf_stored sos ?F) los dir ls ?F ?w"
    using assms(1,2) by (simp add: se_ready_def pf_good_def in_sync_def new_cache_def pf_init_def)
  have "outcome (plain_script (pf_client sos los ls) r) (tally ?w 0 0) (\<lambda>t _. \<exists>w. t = tally w 15 0)"
    unfolding pf_client_cached
    by (rule pf_alone.early.plain_script_passes, rule rdy) (use none in \<open>auto simp: all_files_def\<close>)
  then show ?thesis by (auto simp: outcome_def)
qed

end
