(* ===== verification/Gateway_Cluster.thy ===== *)
theory Gateway_Cluster
  imports Files Kv_Server
begin

text \<open>
  The web gateway's client of the key-value cluster, \<open>part6_web/gateway/clients/raft_cluster.py\<close>, and
  the data and errors of \<open>gateway/domain.py\<close>.

  Time is in microseconds. A call reads the clock where the code does: once at its start and in each
  attempt at the top of the loop (\<open>begun k\<close>) and before the pause (\<open>mid k\<close>); \<open>jitter k b\<close> is the random
  pause for backoff \<open>b\<close>. \<open>env k n t\<close> is what attempt \<open>k\<close> gets from node \<open>n\<close> with timeout \<open>t\<close>.
\<close>

section \<open>Data and errors\<close>

text \<open>\<open>Unexpected\<close>: any other exception.\<close>

datatype gw_error =
    InvalidRequest string
  | NotFound string
  | PreconditionFailed string int
  | ValueTooLarge string
  | StoreError string
  | ClusterUnavailable string
  | WriteOutcomeUnknown string
  | Unexpected exn

record gw_node_status =
  ns_id :: nat
  ns_address :: addr
  ns_reachable :: bool
  ns_state :: string
  ns_term :: nat
  ns_leader :: "nat option"
  ns_commit :: nat
  ns_applied :: nat
  ns_log_index :: nat
  ns_log_term :: nat
  ns_isolated :: bool
  ns_match :: "(nat, nat) dict"

definition unreachable_status :: "nat \<Rightarrow> addr \<Rightarrow> gw_node_status" where
  "unreachable_status i a =
     \<lparr>ns_id = i, ns_address = a, ns_reachable = False, ns_state = ''unknown'', ns_term = 0, ns_leader = None,
      ns_commit = 0, ns_applied = 0, ns_log_index = 0, ns_log_term = 0, ns_isolated = False, ns_match = []\<rparr>"

text \<open>\<open>max(leaders, key=term, default=None)\<close>: the first of those with the highest term.\<close>

fun max_term :: "gw_node_status list \<Rightarrow> gw_node_status option" where
  "max_term [] = None"
| "max_term (s # ss) =
     (case max_term ss of None \<Rightarrow> Some s | Some m \<Rightarrow> if ns_term m > ns_term s then Some m else Some s)"

definition current_leader :: "gw_node_status list \<Rightarrow> gw_node_status option" where
  "current_leader ss = max_term (filter (\<lambda>s. ns_reachable s \<and> \<not> ns_isolated s \<and> ns_state s = ''leader'') ss)"

section \<open>The cluster object\<close>

record gw_cluster =
  gc_nodes :: "addr list"
  gc_rpc_timeout :: int
  gc_deadline :: int
  gc_ttl :: int
  gc_leader :: nat
  gc_status :: "int \<times> gw_node_status list option"

definition new_gw_cluster :: "addr list \<Rightarrow> int \<Rightarrow> int \<Rightarrow> int \<Rightarrow> exn + gw_cluster" where
  "new_gw_cluster addrs rpc_timeout deadline ttl =
     (if addrs = [] then Inl (ValueError ''at least one node address is required'')
      else Inr \<lparr>gc_nodes = addrs, gc_rpc_timeout = rpc_timeout, gc_deadline = deadline, gc_ttl = ttl,
                gc_leader = 0, gc_status = (0, None)\<rparr>)"

text \<open>\<open>_by_address\<close>: of several nodes with one address the last.\<close>

definition by_address :: "addr list \<Rightarrow> (addr, nat) dict" where
  "by_address addrs = dict_of (zip addrs [0..<length addrs])"

definition is_digits :: "string \<Rightarrow> bool" where
  "is_digits s \<longleftrightarrow> s \<noteq> [] \<and> list_all is_digit s"

definition redirect_target :: "addr list \<Rightarrow> string \<Rightarrow> nat option" where
  "redirect_target addrs msg =
     (let parts = split_max 2 (CHR '':'') msg @ [[], []]; leader_id = parts ! 1; address = parts ! 2 in
      case dget (by_address addrs) address of
        Some n \<Rightarrow> Some n
      | None \<Rightarrow> if is_digits leader_id \<and> digits_val leader_id < length addrs then Some (digits_val leader_id) else None)"

text \<open>\<open>_next_node\<close>: the next node, and the set of unreachable nodes, which starts again when all are.\<close>

definition gw_next_node :: "nat \<Rightarrow> nat \<Rightarrow> nat set \<Rightarrow> nat \<times> nat set" where
  "gw_next_node count n U =
     (case List.find (\<lambda>c. c \<notin> U) (map (\<lambda>step. (n + step) mod count) [1..<count + 1]) of
        Some c \<Rightarrow> (c, U)
      | None \<Rightarrow> ((n + 1) mod count, {}))"

section \<open>The call loop\<close>

record call_state =
  cs_node :: nat
  cs_unreachable :: "nat set"
  cs_redirects :: nat
  cs_maybe :: bool
  cs_backoff :: int
  cs_problem :: string

definition call_start :: "nat \<Rightarrow> call_state" where
  "call_start leader = \<lparr>cs_node = leader, cs_unreachable = {}, cs_redirects = 0, cs_maybe = False,
                        cs_backoff = 50000, cs_problem = ''no attempt finished''\<rparr>"

definition gw_retryable :: "string \<Rightarrow> bool" where
  "gw_retryable code \<longleftrightarrow> code \<in> {''UNAVAILABLE'', ''DEADLINE_EXCEEDED''}"

text \<open>What one answer leads to: the end of the call, an attempt at once, or one after a pause.\<close>

datatype 'r verdict = Finish "gw_error + 'r" | AtOnce call_state | AfterPause call_state

definition gw_judge ::
  "addr list \<Rightarrow> bool \<Rightarrow> ('r \<Rightarrow> bool) \<Rightarrow> ('r \<Rightarrow> string) \<Rightarrow> call_state \<Rightarrow> 'r call \<Rightarrow> 'r verdict" where
  "gw_judge addrs write ok msg st a =
     (let n = cs_node st; addr = addrs ! n in
      case a of
        Status code details \<Rightarrow>
          if \<not> gw_retryable code then Finish (Inl (StoreError (addr @ '': '' @ code @ '': '' @ details)))
          else
            (let (n', U) = gw_next_node (length addrs) n (insert n (cs_unreachable st))
             in AfterPause (st\<lparr>cs_node := n', cs_unreachable := U, cs_redirects := 0,
                               cs_maybe := cs_maybe st \<or> write, cs_problem := addr @ '' '' @ code\<rparr>))
      | Answered r \<Rightarrow>
          if ok r then Finish (Inr r)
          else if \<not> startswith (msg r) ''NOT_LEADER:'' then Finish (Inl (StoreError (addr @ '': '' @ msg r)))
          else
            (let st1 = st\<lparr>cs_problem := addr @ '' is not the leader''\<rparr>;
                 (n', U) = gw_next_node (length addrs) n (cs_unreachable st);
                 next = AfterPause (st1\<lparr>cs_node := n', cs_unreachable := U, cs_redirects := 0\<rparr>)
             in case redirect_target addrs (msg r) of
                  None \<Rightarrow> next
                | Some t \<Rightarrow>
                    if t \<noteq> n \<and> t \<notin> cs_unreachable st \<and> cs_redirects st < 3
                    then AtOnce (st1\<lparr>cs_node := t, cs_redirects := cs_redirects st + 1\<rparr>) else next))"

text \<open>\<open>secs\<close>: the deadline as it is printed.\<close>

definition gw_gave_up :: "string \<Rightarrow> call_state \<Rightarrow> gw_error" where
  "gw_gave_up secs st =
     (if cs_maybe st
      then WriteOutcomeUnknown (''write not confirmed within '' @ secs @ ''s ('' @ cs_problem st @ '')'')
      else ClusterUnavailable (''no leader reachable within '' @ secs @ ''s ('' @ cs_problem st @ '')''))"

text \<open>
  The result, with the node that answered if it was a success; \<open>None\<close> if the loop never ends.
\<close>

partial_function (option) gw_loop ::
  "addr list \<Rightarrow> int \<Rightarrow> int \<Rightarrow> string \<Rightarrow> bool \<Rightarrow> ('r \<Rightarrow> bool) \<Rightarrow> ('r \<Rightarrow> string)
   \<Rightarrow> (nat \<Rightarrow> int) \<Rightarrow> (nat \<Rightarrow> int) \<Rightarrow> (nat \<Rightarrow> int \<Rightarrow> int) \<Rightarrow> (nat \<Rightarrow> nat \<Rightarrow> int \<Rightarrow> 'r call)
   \<Rightarrow> nat \<Rightarrow> call_state \<Rightarrow> (gw_error + 'r \<times> nat) option" where
  "gw_loop addrs rpc_timeout deadline secs write ok msg begun mid jitter env k st =
     (let t = min rpc_timeout (deadline - begun k) in
      if t \<le> 0 then Some (Inl (gw_gave_up secs st))
      else
        (case gw_judge addrs write ok msg st (env k (cs_node st) t) of
           Finish (Inl e) \<Rightarrow> Some (Inl e)
         | Finish (Inr r) \<Rightarrow> Some (Inr (r, cs_node st))
         | AtOnce st' \<Rightarrow> gw_loop addrs rpc_timeout deadline secs write ok msg begun mid jitter env (Suc k) st'
         | AfterPause st' \<Rightarrow>
             if mid k + jitter k (cs_backoff st') \<ge> deadline then Some (Inl (gw_gave_up secs st'))
             else gw_loop addrs rpc_timeout deadline secs write ok msg begun mid jitter env (Suc k)
                    (st'\<lparr>cs_backoff := min (2 * cs_backoff st') 500000\<rparr>)))"

text \<open>
  \<open>_call\<close> from \<open>start\<close> on: the leader hint is read at the start and set at the end, each under the
  lock; other calls may set it in between, so the object is an argument once more.
\<close>

definition gw_call ::
  "string \<Rightarrow> bool \<Rightarrow> ('r \<Rightarrow> bool) \<Rightarrow> ('r \<Rightarrow> string) \<Rightarrow> int \<Rightarrow> (nat \<Rightarrow> int) \<Rightarrow> (nat \<Rightarrow> int) \<Rightarrow> (nat \<Rightarrow> int \<Rightarrow> int)
   \<Rightarrow> (nat \<Rightarrow> nat \<Rightarrow> int \<Rightarrow> 'r call) \<Rightarrow> gw_cluster \<Rightarrow> (gw_error + 'r \<times> nat) option" where
  "gw_call secs write ok msg start begun mid jitter env c =
     gw_loop (gc_nodes c) (gc_rpc_timeout c) (start + gc_deadline c) secs write ok msg begun mid jitter env 0
       (call_start (gc_leader c))"

definition set_leader_hint :: "(gw_error + 'r \<times> nat) \<Rightarrow> gw_cluster \<Rightarrow> gw_cluster" where
  "set_leader_hint res c = (case res of Inr (r, n) \<Rightarrow> c\<lparr>gc_leader := n\<rparr> | Inl e \<Rightarrow> c)"

section \<open>Operations\<close>

datatype gw_request =
    GwPut string bytes string int
  | GwGet string bool
  | GwDelete string string int
  | GwCas string cas_request string int

text \<open>The parts of the responses that \<open>get\<close>, \<open>put\<close>, \<open>cas\<close> and \<open>delete\<close> return.\<close>

definition get_part :: "gw_error + get_response \<times> nat \<Rightarrow> gw_error + bool \<times> bytes \<times> int" where
  "get_part res = (case res of Inl e \<Rightarrow> Inl e | Inr (r, n) \<Rightarrow> Inr (g_found r, g_value r, g_version r))"

definition put_part :: "gw_error + put_response \<times> nat \<Rightarrow> gw_error + int" where
  "put_part res = (case res of Inl e \<Rightarrow> Inl e | Inr (r, n) \<Rightarrow> Inr (p_version r))"

definition cas_part :: "gw_error + cas_response \<times> nat \<Rightarrow> gw_error + bool \<times> int" where
  "cas_part res = (case res of Inl e \<Rightarrow> Inl e | Inr (r, n) \<Rightarrow> Inr (s_swapped r, s_version r))"

definition delete_part :: "gw_error + delete_response \<times> nat \<Rightarrow> gw_error + bool" where
  "delete_part res = (case res of Inl e \<Rightarrow> Inl e | Inr (r, n) \<Rightarrow> Inr (d_existed r))"

text \<open>\<open>expected_version\<close> is an \<open>int64\<close> of the message; its constructor raises if it does not fit.\<close>

definition int64 :: "int \<Rightarrow> bool" where
  "int64 i \<longleftrightarrow> - (2 ^ 63) \<le> i \<and> i < 2 ^ 63"

definition gw_cas_request :: "string \<Rightarrow> bytes \<Rightarrow> string \<Rightarrow> int \<Rightarrow> int \<Rightarrow> bool \<Rightarrow> gw_error + gw_request" where
  "gw_cas_request key v cid seq expected_version expect_absent =
     (if int64 expected_version
      then Inr (GwCas key \<lparr>cr_expected = [], cr_new = v, cr_absent = expect_absent, cr_version = expected_version\<rparr> cid seq)
      else Inl (Unexpected (ValueError ''Value out of range'')))"

section \<open>Status and fault injection\<close>

definition status_of :: "nat \<Rightarrow> addr \<Rightarrow> status_reply call \<Rightarrow> gw_node_status" where
  "status_of i a r =
     (case r of
        Status code details \<Rightarrow> unreachable_status i a
      | Answered s \<Rightarrow>
          \<lparr>ns_id = i, ns_address = a, ns_reachable = True, ns_state = sr_state s, ns_term = sr_term s,
           ns_leader = (if sr_has_leader s then Some (sr_leader_id s) else None),
           ns_commit = sr_commit_index s, ns_applied = sr_last_applied s,
           ns_log_index = sr_last_log_index s, ns_log_term = sr_last_log_term s,
           ns_isolated = sr_isolated s, ns_match = sr_match_index s\<rparr>)"

text \<open>\<open>now\<close>: the clock when the cached statuses are looked at; \<open>now'\<close>: after fetching.\<close>

definition node_statuses :: "int \<Rightarrow> int \<Rightarrow> (nat \<Rightarrow> status_reply call) \<Rightarrow> gw_cluster \<Rightarrow> gw_cluster \<times> gw_node_status list" where
  "node_statuses now now' ask c =
     (case gc_status c of
        (at, cached) \<Rightarrow>
          if cached \<noteq> None \<and> now - at < gc_ttl c then (c, the cached)
          else
            (let ss = map (\<lambda>(i, a). status_of i a (ask i)) (zip [0..<length (gc_nodes c)] (gc_nodes c))
             in (c\<lparr>gc_status := (now', Some ss)\<rparr>, ss)))"

text \<open>The node's answer to \<open>SetIsolated\<close>; \<open>node_id\<close> is in range (the caller checks).\<close>

definition gw_set_isolated :: "nat \<Rightarrow> bool call \<Rightarrow> gw_cluster \<Rightarrow> gw_cluster \<times> (gw_error + bool)" where
  "gw_set_isolated n a c =
     (case a of
        Status code details \<Rightarrow>
          (c, Inl (ClusterUnavailable (''node '' @ nat_str n @ '' ('' @ gc_nodes c ! n @ '') is unreachable: '' @ code)))
      | Answered on \<Rightarrow> (c\<lparr>gc_status := (0, None)\<rparr>, Inr on))"

end
