(* ===== verification/Gateway_Call_Theorems.thy ===== *)
theory Gateway_Call_Theorems
  imports Gateway_Cluster Kv_Cluster
begin

text \<open>
  The gateway's call loop: it ends, what its two timeouts say about the attempts it made, and a wr
  that it reports as not applied although it is in the log.
\<close>

section \<open>Runs of the loop\<close>

text \<open>The attempts a call makes: \<open>gw_run \<dots> k st j st'\<close> if, from attempt \<open>k\<close> in state \<open>st\<close>, it comes to attempt \<open>j\<close> in \<open>st'\<close>.\<close>

inductive gw_run ::
  "addr list \<Rightarrow> int \<Rightarrow> int \<Rightarrow> bool \<Rightarrow> ('r \<Rightarrow> bool) \<Rightarrow> ('r \<Rightarrow> string)
   \<Rightarrow> (nat \<Rightarrow> int) \<Rightarrow> (nat \<Rightarrow> int) \<Rightarrow> (nat \<Rightarrow> int \<Rightarrow> int) \<Rightarrow> (nat \<Rightarrow> nat \<Rightarrow> int \<Rightarrow> 'r call)
   \<Rightarrow> nat \<Rightarrow> call_state \<Rightarrow> nat \<Rightarrow> call_state \<Rightarrow> bool"
  for addrs rpc_timeout deadline wr ok msg begun mid jitter env k st
  where
  gw_here: "gw_run addrs rpc_timeout deadline wr ok msg begun mid jitter env k st k st"
| gw_next: "gw_run addrs rpc_timeout deadline wr ok msg begun mid jitter env k st j s \<Longrightarrow>
    0 < min rpc_timeout (deadline - begun j) \<Longrightarrow>
    gw_judge addrs wr ok msg s (env j (cs_node s) (min rpc_timeout (deadline - begun j))) = AtOnce s' \<Longrightarrow>
    gw_run addrs rpc_timeout deadline wr ok msg begun mid jitter env k st (Suc j) s'"
| gw_later: "gw_run addrs rpc_timeout deadline wr ok msg begun mid jitter env k st j s \<Longrightarrow>
    0 < min rpc_timeout (deadline - begun j) \<Longrightarrow>
    gw_judge addrs wr ok msg s (env j (cs_node s) (min rpc_timeout (deadline - begun j))) = AfterPause s' \<Longrightarrow>
    mid j + jitter j (cs_backoff s') < deadline \<Longrightarrow>
    gw_run addrs rpc_timeout deadline wr ok msg begun mid jitter env k st (Suc j)
      (s'\<lparr>cs_backoff := min (2 * cs_backoff s') 500000\<rparr>)"

declare gw_loop.simps [simp del]

lemma gw_loop_step:
  assumes "t = min rpc_timeout (deadline - begun k)"
  shows "t \<le> 0 \<Longrightarrow> gw_loop addrs rpc_timeout deadline secs wr ok msg begun mid jitter env k st = Some (Inl (gw_gave_up secs st))"
    and "0 < t \<Longrightarrow> gw_judge addrs wr ok msg st (env k (cs_node st) t) = AtOnce st' \<Longrightarrow>
      gw_loop addrs rpc_timeout deadline secs wr ok msg begun mid jitter env k st
        = gw_loop addrs rpc_timeout deadline secs wr ok msg begun mid jitter env (Suc k) st'"
    and "0 < t \<Longrightarrow> gw_judge addrs wr ok msg st (env k (cs_node st) t) = AfterPause st' \<Longrightarrow>
      gw_loop addrs rpc_timeout deadline secs wr ok msg begun mid jitter env k st =
        (if mid k + jitter k (cs_backoff st') \<ge> deadline then Some (Inl (gw_gave_up secs st'))
         else gw_loop addrs rpc_timeout deadline secs wr ok msg begun mid jitter env (Suc k)
                (st'\<lparr>cs_backoff := min (2 * cs_backoff st') 500000\<rparr>))"
    and "0 < t \<Longrightarrow> gw_judge addrs wr ok msg st (env k (cs_node st) t) = Finish x \<Longrightarrow>
      gw_loop addrs rpc_timeout deadline secs wr ok msg begun mid jitter env k st =
        Some (case x of Inl e \<Rightarrow> Inl e | Inr r \<Rightarrow> Inr (r, cs_node st))"
  by (subst gw_loop.simps; unfold Let_def assms [symmetric]; simp split: sum.split)+

lemma gw_run_loop:
  assumes "gw_run addrs rpc_timeout deadline wr ok msg begun mid jitter env k st j s"
  shows "gw_loop addrs rpc_timeout deadline secs wr ok msg begun mid jitter env k st =
    gw_loop addrs rpc_timeout deadline secs wr ok msg begun mid jitter env j s"
  using assms
proof induction
  case (gw_next j s s')
  with gw_loop_step(2) [where env = env and deadline = deadline and begun = begun and k = j and st = s, OF refl gw_next.hyps(2,3)] show ?case by simp
next
  case (gw_later j s s')
  with gw_loop_step(3) [where env = env and deadline = deadline and begun = begun and k = j and st = s, OF refl gw_later.hyps(2,3)] show ?case by simp
qed simp

section \<open>One answer\<close>

lemma judge_maybe:
  "gw_judge addrs wr ok msg st a = AtOnce s \<or> gw_judge addrs wr ok msg st a = AfterPause s \<Longrightarrow>
    cs_maybe s \<longleftrightarrow> cs_maybe st \<or> wr \<and> (\<exists>code details. a = Status code details)"
  by (auto simp: gw_judge_def Let_def split: call.splits if_splits option.splits prod.splits)

lemma judge_not_leader:
  "\<not> ok r \<Longrightarrow> gw_judge addrs wr ok msg st (Answered r) = AtOnce s \<or> gw_judge addrs wr ok msg st (Answered r) = AfterPause s
    \<Longrightarrow> startswith (msg r) ''NOT_LEADER:''"
  by (auto simp: gw_judge_def Let_def split: if_splits)

lemma judge_ok: "ok r \<Longrightarrow> gw_judge addrs wr ok msg st (Answered r) = Finish (Inr r)"
  by (simp add: gw_judge_def Let_def)

lemma judge_backoff:
  "gw_judge addrs wr ok msg st a = AtOnce s \<or> gw_judge addrs wr ok msg st a = AfterPause s \<Longrightarrow> cs_backoff s = cs_backoff st"
  by (auto simp: gw_judge_def Let_def split: call.splits if_splits option.splits prod.splits)

lemma judge_at_once: "gw_judge addrs wr ok msg st a = AtOnce s \<Longrightarrow> cs_redirects st < 3 \<and> cs_redirects s = Suc (cs_redirects st)"
  by (auto simp: gw_judge_def Let_def split: call.splits if_splits option.splits prod.splits)

lemma judge_pause: "gw_judge addrs wr ok msg st a = AfterPause s \<Longrightarrow> cs_redirects s = 0"
  by (auto simp: gw_judge_def Let_def split: call.splits if_splits option.splits prod.splits)

lemma judge_finish: "gw_judge addrs wr ok msg st a = Finish (Inl e) \<Longrightarrow> \<exists>m. e = StoreError m"
  by (auto simp: gw_judge_def Let_def split: call.splits if_splits option.splits prod.splits)

lemma gave_up_maybe: "cs_maybe st \<Longrightarrow> gw_gave_up secs st \<noteq> ClusterUnavailable m"
  by (simp add: gw_gave_up_def)

text \<open>A write that may have been applied is never reported as not applied.\<close>

lemma maybe_stays:
  assumes "gw_loop addrs rpc_timeout deadline secs wr ok msg begun mid jitter env k st = Some (Inl (ClusterUnavailable m))"
  shows "\<not> cs_maybe st"
proof -
  have "r = Inl (ClusterUnavailable m) \<longrightarrow> \<not> cs_maybe st"
    if "gw_loop addrs rpc_timeout deadline secs wr ok msg begun mid jitter env k st = Some r" for r
    using that
  proof (induction rule: gw_loop.raw_induct
      [where P = "\<lambda>addrs rt dl secs wr ok msg begun mid jitter env k st r. r = Inl (ClusterUnavailable m) \<longrightarrow> \<not> cs_maybe st", rotated 1, consumes 1, case_names step])
    case (step loop addrs rpc_timeout deadline secs wr ok msg begun mid jitter env k st r)
    let ?a = "env k (cs_node st) (min rpc_timeout (deadline - begun k))"
    show ?case
    proof (intro impI notI)
      assume r: "r = Inl (ClusterUnavailable m)" "cs_maybe st"
      show False
      proof (cases "gw_judge addrs wr ok msg st ?a")
        case (Finish x)
        with step(2) r show ?thesis
          by (auto simp: Let_def gave_up_maybe dest: judge_finish split: if_splits sum.splits)
      next
        case (AtOnce s)
        with step(2) r step(1) [of _ _ _ _ _ _ _ _ _ _ _ _ s r] judge_maybe [OF disjI1, OF AtOnce] show ?thesis
          by (auto simp: Let_def gave_up_maybe split: if_splits)
      next
        case (AfterPause s)
        with step(2) r step(1) [of _ _ _ _ _ _ _ _ _ _ _ _ "s\<lparr>cs_backoff := min (2 * cs_backoff s) 500000\<rparr>" r]
          judge_maybe [OF disjI2, OF AfterPause] show ?thesis
          by (auto simp: Let_def gave_up_maybe split: if_splits)
      qed
    qed
  qed
  with assms show ?thesis by blast
qed

text \<open>A run from its first step.\<close>

lemma gw_run_front:
  assumes "gw_run addrs rpc_timeout deadline wr ok msg begun mid jitter env (Suc k) st' j s"
    and "gw_run addrs rpc_timeout deadline wr ok msg begun mid jitter env k st (Suc k) st'"
  shows "gw_run addrs rpc_timeout deadline wr ok msg begun mid jitter env k st j s"
  using assms by induction (auto intro: gw_next gw_later)

text \<open>\<open>gw_failed \<dots> k st\<close>: from there on an attempt fails in transit.\<close>

definition gw_failed ::
  "addr list \<Rightarrow> int \<Rightarrow> int \<Rightarrow> bool \<Rightarrow> ('r \<Rightarrow> bool) \<Rightarrow> ('r \<Rightarrow> string)
   \<Rightarrow> (nat \<Rightarrow> int) \<Rightarrow> (nat \<Rightarrow> int) \<Rightarrow> (nat \<Rightarrow> int \<Rightarrow> int) \<Rightarrow> (nat \<Rightarrow> nat \<Rightarrow> int \<Rightarrow> 'r call)
   \<Rightarrow> nat \<Rightarrow> call_state \<Rightarrow> bool" where
  "gw_failed addrs rpc_timeout deadline wr ok msg begun mid jitter env k st \<longleftrightarrow>
     (\<exists>j s code details. gw_run addrs rpc_timeout deadline wr ok msg begun mid jitter env k st j s
        \<and> 0 < min rpc_timeout (deadline - begun j)
        \<and> env j (cs_node s) (min rpc_timeout (deadline - begun j)) = Status code details)"

lemma gw_failed_here:
  "0 < min rpc_timeout (deadline - begun k) \<Longrightarrow> env k (cs_node st) (min rpc_timeout (deadline - begun k)) = Status code details
    \<Longrightarrow> gw_failed addrs rpc_timeout deadline wr ok msg begun mid jitter env k st"
  unfolding gw_failed_def using gw_here by blast

lemma gw_failed_front:
  assumes "gw_run addrs rpc_timeout deadline wr ok msg begun mid jitter env k st (Suc k) st'"
    and "gw_failed addrs rpc_timeout deadline wr ok msg begun mid jitter env (Suc k) st'"
  shows "gw_failed addrs rpc_timeout deadline wr ok msg begun mid jitter env k st"
  using assms gw_run_front unfolding gw_failed_def by blast

lemma judge_unknown:
  assumes "cs_maybe s" "\<not> cs_maybe st"
    and "gw_judge addrs wr ok msg st a = AtOnce s \<or> gw_judge addrs wr ok msg st a = AfterPause s"
  shows "\<exists>code details. a = Status code details"
  using judge_maybe [OF assms(3)] assms(1,2) by blast

lemma unknown_failed:
  assumes "gw_loop addrs rpc_timeout deadline secs wr ok msg begun mid jitter env k st = Some (Inl (WriteOutcomeUnknown m))"
    and "\<not> cs_maybe st"
  shows "gw_failed addrs rpc_timeout deadline wr ok msg begun mid jitter env k st"
proof -
  have "r = Inl (WriteOutcomeUnknown m) \<longrightarrow> \<not> cs_maybe st \<longrightarrow>
      gw_failed addrs rpc_timeout deadline wr ok msg begun mid jitter env k st"
    if "gw_loop addrs rpc_timeout deadline secs wr ok msg begun mid jitter env k st = Some r" for r
    using that
  proof (induction rule: gw_loop.raw_induct
      [where P = "\<lambda>addrs rt dl secs wr ok msg begun mid jitter env k st r. r = Inl (WriteOutcomeUnknown m) \<longrightarrow> \<not> cs_maybe st
         \<longrightarrow> gw_failed addrs rt dl wr ok msg begun mid jitter env k st", rotated 1, consumes 1, case_names step])
    case (step loop addrs rpc_timeout deadline secs wr ok msg begun mid jitter env k st r)
    let ?t = "min rpc_timeout (deadline - begun k)"
    show ?case
    proof (intro impI, rule ccontr)
      assume r: "r = Inl (WriteOutcomeUnknown m)" "\<not> cs_maybe st"
        and n: "\<not> gw_failed addrs rpc_timeout deadline wr ok msg begun mid jitter env k st"
      have t: "0 < ?t" using step(2) r by (auto simp: Let_def gw_gave_up_def not_less split: if_splits)
      note u = judge_unknown [where st = st and a = "env k (cs_node st) ?t", OF _ r(2)]
      show False
      proof (cases "gw_judge addrs wr ok msg st (env k (cs_node st) ?t)")
        case (Finish x)
        with step(2) r t show ?thesis by (auto simp: Let_def dest: judge_finish split: sum.splits)
      next
        case (AtOnce s)
        have s: "\<not> cs_maybe s" using u [of s] AtOnce gw_failed_here [where begun = begun and env = env and k = k and st = st and deadline = deadline, OF t] n by blast
        have "loop addrs rpc_timeout deadline secs wr ok msg begun mid jitter env (Suc k) s = Some r"
          using step(2) AtOnce t by (simp add: Let_def)
        from step(1) [OF this] r(1) s gw_failed_front [OF gw_next [where env = env and begun = begun and deadline = deadline and j = k and s = st, OF gw_here t AtOnce]] n show ?thesis by blast
      next
        case (AfterPause s)
        let ?s = "s\<lparr>cs_backoff := min (2 * cs_backoff s) 500000\<rparr>"
        have s: "\<not> cs_maybe s" using u [of s] AfterPause gw_failed_here [where begun = begun and env = env and k = k and st = st and deadline = deadline, OF t] n by blast
        then have d: "mid k + jitter k (cs_backoff s) < deadline"
          using step(2) AfterPause t r by (auto simp: Let_def gw_gave_up_def split: if_splits)
        then have "loop addrs rpc_timeout deadline secs wr ok msg begun mid jitter env (Suc k) ?s = Some r"
          using step(2) AfterPause t by (simp add: Let_def)
        from step(1) [OF this] r(1) s gw_failed_front [OF gw_later [where mid = mid and jitter = jitter and env = env and begun = begun and deadline = deadline and j = k and s = st, OF gw_here t AfterPause d]] n show ?thesis by simp
      qed
    qed
  qed
  with assms show ?thesis by blast
qed

section \<open>Timeouts\<close>

definition gw_attempt ::
  "bool \<Rightarrow> ('r \<Rightarrow> bool) \<Rightarrow> ('r \<Rightarrow> string) \<Rightarrow> int \<Rightarrow> (nat \<Rightarrow> int) \<Rightarrow> (nat \<Rightarrow> int) \<Rightarrow> (nat \<Rightarrow> int \<Rightarrow> int)
   \<Rightarrow> (nat \<Rightarrow> nat \<Rightarrow> int \<Rightarrow> 'r call) \<Rightarrow> gw_cluster \<Rightarrow> nat \<Rightarrow> 'r call \<Rightarrow> bool" where
  "gw_attempt wr ok msg start begun mid jitter env c j a \<longleftrightarrow>
     (\<exists>s. gw_run (gc_nodes c) (gc_rpc_timeout c) (start + gc_deadline c) wr ok msg begun mid jitter env
           0 (call_start (gc_leader c)) j s
       \<and> 0 < min (gc_rpc_timeout c) (start + gc_deadline c - begun j)
       \<and> env j (cs_node s) (min (gc_rpc_timeout c) (start + gc_deadline c - begun j)) = a)"

lemma judge_status:
  assumes "\<And>x. gw_judge addrs wr ok msg st (Status code details) \<noteq> Finish x"
  shows "\<exists>s. gw_judge addrs wr ok msg st (Status code details) = AfterPause s \<and> (wr \<longrightarrow> cs_maybe s)"
  using assms by (cases "gw_retryable code") (auto simp: gw_judge_def Let_def split: prod.splits)

lemma judge_answered:
  assumes "\<And>x. gw_judge addrs wr ok msg st (Answered r) \<noteq> Finish x"
  shows "\<not> ok r \<and> startswith (msg r) ''NOT_LEADER:''"
  using assms by (cases "ok r"; cases "startswith (msg r) ''NOT_LEADER:''") (auto simp: gw_judge_def Let_def)

text \<open>
  C31. What the two timeouts of a write say. When the gateway gives up, every attempt it made failed in
  transit or was refused by a node that said it was not the leader; and it reports an unknown outcome
  (504) exactly if at least one attempt failed in transit, so "nothing was applied" (503) rests on
  refusals alone. This holds for any number of nodes, redirects, pauses and clock readings.
\<close>

theorem gw_timeout_verdict:
  assumes "gw_call secs True ok msg start begun mid jitter env c = Some (Inl e)"
    and "e = ClusterUnavailable m \<or> e = WriteOutcomeUnknown m"
  shows "(e = WriteOutcomeUnknown m \<longleftrightarrow>
      (\<exists>j code details. gw_attempt True ok msg start begun mid jitter env c j (Status code details)))
    \<and> (\<forall>j r. gw_attempt True ok msg start begun mid jitter env c j (Answered r) \<longrightarrow>
        \<not> ok r \<and> startswith (msg r) ''NOT_LEADER:'')"
proof -
  let ?dl = "start + gc_deadline c"
  note L = assms(1) [unfolded gw_call_def]
  have loop: "gw_loop (gc_nodes c) (gc_rpc_timeout c) ?dl secs True ok msg begun mid jitter env j s = Some (Inl e)"
    if "gw_run (gc_nodes c) (gc_rpc_timeout c) ?dl True ok msg begun mid jitter env 0 (call_start (gc_leader c)) j s" for j s
    using gw_run_loop [OF that, of secs] L by simp
  have fin: "gw_judge (gc_nodes c) True ok msg s a \<noteq> Finish x"
    if "gw_loop (gc_nodes c) (gc_rpc_timeout c) ?dl secs True ok msg begun mid jitter env j s = Some (Inl e)"
      and "env j (cs_node s) (min (gc_rpc_timeout c) (?dl - begun j)) = a" "0 < min (gc_rpc_timeout c) (?dl - begun j)" for j s a x
    using that assms(2) gw_loop_step(4) [where begun = begun and env = env and deadline = ?dl, OF refl that(3)]
    by (auto dest: judge_finish split: sum.splits)
  have maybe: "e = WriteOutcomeUnknown m" if "gw_attempt True ok msg start begun mid jitter env c j (Status code details)" for j code details
  proof -
    from that obtain s where s: "gw_run (gc_nodes c) (gc_rpc_timeout c) ?dl True ok msg begun mid jitter env 0 (call_start (gc_leader c)) j s"
      "0 < min (gc_rpc_timeout c) (?dl - begun j)" "env j (cs_node s) (min (gc_rpc_timeout c) (?dl - begun j)) = Status code details"
      by (auto simp: gw_attempt_def)
    from judge_status [OF fin [OF loop [OF s(1)] s(3,2)]] obtain s' where
      "gw_judge (gc_nodes c) True ok msg s (Status code details) = AfterPause s'" "cs_maybe s'" by auto
    with gw_loop_step(3) [where begun = begun and env = env and deadline = ?dl, OF refl s(2)] loop [OF s(1)] s(3) assms(2) show ?thesis
      using maybe_stays by (fastforce simp: gave_up_maybe split: if_splits)
  qed
  have "e = WriteOutcomeUnknown m \<Longrightarrow> \<exists>j code details. gw_attempt True ok msg start begun mid jitter env c j (Status code details)"
    using unknown_failed [of "gc_nodes c"] L by (fastforce simp: gw_failed_def gw_attempt_def call_start_def)
  moreover have "\<not> ok r \<and> startswith (msg r) ''NOT_LEADER:''" if "gw_attempt True ok msg start begun mid jitter env c j (Answered r)" for j r
  proof -
    from that obtain s where s: "gw_run (gc_nodes c) (gc_rpc_timeout c) ?dl True ok msg begun mid jitter env 0 (call_start (gc_leader c)) j s"
      "0 < min (gc_rpc_timeout c) (?dl - begun j)" "env j (cs_node s) (min (gc_rpc_timeout c) (?dl - begun j)) = Answered r"
      by (auto simp: gw_attempt_def)
    show ?thesis by (rule judge_answered [OF fin [OF loop [OF s(1)] s(3,2)]])
  qed
  ultimately show ?thesis using maybe by blast
qed

definition demo_gw :: gw_cluster where
  "demo_gw = \<lparr>gc_nodes = [''a:1'', ''b:2''], gc_rpc_timeout = 3000000, gc_deadline = 100000, gc_ttl = 0,
              gc_leader = 0, gc_status = (0, None)\<rparr>"

lemma demo_gw_call:
  "gw_call ''0.1'' True p_success p_error 0 (\<lambda>k. 0) (\<lambda>k. 60000) (\<lambda>k b. b) (\<lambda>k n t. Status ''UNAVAILABLE'' []) demo_gw
     = Some (Inl (WriteOutcomeUnknown ''write not confirmed within 0.1s (a:1 UNAVAILABLE)''))"
  by (simp add: gw_call_def demo_gw_def gw_loop.simps [of _ _ _ _ _ _ _ _ _ _ _ 0] gw_judge_def gw_retryable_def
      gw_next_node_def call_start_def gw_gave_up_def upt_rec Let_def)

theorem gw_timeout_verdict_witness:
  "\<exists>j code details. gw_attempt True p_success p_error 0 (\<lambda>k. 0) (\<lambda>k. 60000) (\<lambda>k b. b)
     (\<lambda>k n t. Status ''UNAVAILABLE'' []) demo_gw j (Status code details)"
  using gw_timeout_verdict [OF demo_gw_call, of "''write not confirmed within 0.1s (a:1 UNAVAILABLE)''"] by blast

section \<open>The loop ends\<close>

lemma gw_run_backoff:
  "gw_run addrs rpc_timeout deadline wr ok msg begun mid jitter env k st j s \<Longrightarrow> 50000 \<le> cs_backoff st \<Longrightarrow> 50000 \<le> cs_backoff s"
  by (induction rule: gw_run.induct) (auto dest: judge_backoff [OF disjI1] judge_backoff [OF disjI2])

text \<open>
  How time passes in a call: the clock does not run backwards, and a pause takes as long as was asked
  for, which is at least half the backoff.
\<close>

definition time_passes ::
  "bool \<Rightarrow> ('r \<Rightarrow> bool) \<Rightarrow> ('r \<Rightarrow> string) \<Rightarrow> int \<Rightarrow> (nat \<Rightarrow> int) \<Rightarrow> (nat \<Rightarrow> int) \<Rightarrow> (nat \<Rightarrow> int \<Rightarrow> int)
   \<Rightarrow> (nat \<Rightarrow> nat \<Rightarrow> int \<Rightarrow> 'r call) \<Rightarrow> gw_cluster \<Rightarrow> bool" where
  "time_passes wr ok msg start begun mid jitter env c \<longleftrightarrow>
     (\<forall>k. begun k \<le> mid k \<and> begun k \<le> begun (Suc k)) \<and> (\<forall>k b. 0 \<le> b \<longrightarrow> b div 2 \<le> jitter k b)
     \<and> (\<forall>k s s'. gw_run (gc_nodes c) (gc_rpc_timeout c) (start + gc_deadline c) wr ok msg begun mid jitter env
            0 (call_start (gc_leader c)) k s
          \<longrightarrow> gw_judge (gc_nodes c) wr ok msg s
                (env k (cs_node s) (min (gc_rpc_timeout c) (start + gc_deadline c - begun k))) = AfterPause s'
          \<longrightarrow> mid k + jitter k (cs_backoff s') \<le> begun (Suc k))"

text \<open>
  C32. A call to the cluster returns, whatever the nodes answer, redirect to or fail to answer, as long
  as time passes. At most three redirects are followed between two pauses, so nodes that point at
  each other do not keep it going.
\<close>

theorem gw_call_returns:
  assumes "time_passes wr ok msg start begun mid jitter env c"
  shows "\<exists>r. gw_call secs wr ok msg start begun mid jitter env c = Some r"
proof -
  let ?D = "start + gc_deadline c" and ?st = "call_start (gc_leader c)"
  let ?run = "gw_run (gc_nodes c) (gc_rpc_timeout c) ?D wr ok msg begun mid jitter env 0 ?st"
  let ?loop = "gw_loop (gc_nodes c) (gc_rpc_timeout c) ?D secs wr ok msg begun mid jitter env"
  let ?t = "\<lambda>k. min (gc_rpc_timeout c) (?D - begun k)"
  let ?m = "\<lambda>(k, s). 4 * nat (?D - begun k) + (3 - cs_redirects s)"
  note step = gw_loop_step [where begun = begun and env = env and deadline = ?D, OF refl]
  have "?run k s \<longrightarrow> (\<exists>r. ?loop k s = Some r)" for k s
  proof (induction "(k, s)" arbitrary: k s rule: measure_induct_rule [where f = ?m])
    case (less k s)
    show ?case
    proof (intro impI, cases "?t k \<le> 0")
      case False
      assume R: "?run k s"
      from False have t: "0 < ?t k" by linarith
      then have D: "begun k < ?D" by simp
      show "\<exists>r. ?loop k s = Some r"
      proof (cases "gw_judge (gc_nodes c) wr ok msg s (env k (cs_node s) (?t k))")
        case (Finish x)
        with step(4) [OF t Finish] show ?thesis by blast
      next
        case (AtOnce s')
        have "begun k \<le> begun (Suc k)" using assms by (simp add: time_passes_def)
        with judge_at_once [OF AtOnce] have "?m (Suc k, s') < ?m (k, s)" by auto
        from less [OF this] gw_next [where env = env and begun = begun and deadline = ?D, OF R t AtOnce]
        show ?thesis using step(2) [OF t AtOnce] by auto
      next
        case (AfterPause s')
        let ?s = "s'\<lparr>cs_backoff := min (2 * cs_backoff s') 500000\<rparr>"
        show ?thesis
        proof (cases "mid k + jitter k (cs_backoff s') < ?D")
          case True
          have "50000 \<le> cs_backoff s'"
            using gw_run_backoff [OF R] judge_backoff [OF disjI2, OF AfterPause] by (simp add: call_start_def)
          moreover from this have "cs_backoff s' div 2 \<le> jitter k (cs_backoff s')" using assms by (simp add: time_passes_def)
          ultimately have "25000 \<le> jitter k (cs_backoff s')" by linarith
          moreover have "begun k \<le> mid k" "mid k + jitter k (cs_backoff s') \<le> begun (Suc k)"
            using assms R AfterPause unfolding time_passes_def by blast+
          ultimately have "?m (Suc k, ?s) < ?m (k, s)" using D by auto
          from less [OF this] gw_later [where env = env and begun = begun and deadline = ?D, OF R t AfterPause True]
          show ?thesis using step(3) [OF t AfterPause] True by auto
        qed (use step(3) [OF t AfterPause] in simp)
      qed
    qed (use step(1) in blast)
  qed
  with gw_here show ?thesis unfolding gw_call_def by blast
qed

lemma demo_time: "time_passes wr ok msg 0 (\<lambda>k. 200000 * int k) (\<lambda>k. 200000 * int k + 60000) (\<lambda>k b. b)
  (\<lambda>k n t. Status ''UNAVAILABLE'' []) demo_gw"
proof -
  have start: "j = 0 \<and> s = call_start 0"
    if "gw_run (gc_nodes demo_gw) (gc_rpc_timeout demo_gw) (0 + gc_deadline demo_gw) wr ok msg (\<lambda>k. 200000 * int k)
          (\<lambda>k. 200000 * int k + 60000) (\<lambda>k b. b) (\<lambda>k n t. Status ''UNAVAILABLE'' []) 0 (call_start (gc_leader demo_gw)) j s" for j s
    using that
  proof induction
    case (gw_next j s s')
    then show ?case by (auto simp: gw_judge_def Let_def split: if_splits prod.splits)
  next
    case (gw_later j s s')
    then show ?case using judge_backoff [OF disjI2, OF gw_later.hyps(3)] by (simp add: demo_gw_def call_start_def)
  qed (simp add: demo_gw_def)
  have half: "b div 2 \<le> b" if "0 \<le> b" for b :: int using that by linarith
  have "200000 * int k + 60000 + cs_backoff s' \<le> 200000 * int (Suc k)"
    if "k = 0 \<and> s = call_start 0" "gw_judge (gc_nodes demo_gw) wr ok msg s (Status ''UNAVAILABLE'' []) = AfterPause s'" for k s s'
    using judge_backoff [OF disjI2, OF that(2)] that(1) by (simp add: call_start_def)
  with start half show ?thesis unfolding time_passes_def by auto
qed

theorem gw_call_returns_witness:
  "\<exists>r. gw_call ''0.1'' True p_success p_error 0 (\<lambda>k. 200000 * int k) (\<lambda>k. 200000 * int k + 60000) (\<lambda>k b. b)
     (\<lambda>k n t. Status ''UNAVAILABLE'' []) demo_gw = Some r"
  by (rule gw_call_returns [OF demo_time])

section \<open>A write reported as not applied\<close>

lemma become_follower_keeps:
  "log (become_follower t nd) = log nd" "commit_index (become_follower t nd) = commit_index nd"
  by (simp_all add: become_follower_def reset_election_timer_def persist_hard_state_def fail_all_waiters_def)

text \<open>
  C33. "Not applied" is not always true. A put waits for its entry on a leader that steps down: the
  node answers with NOT_LEADER and keeps the entry, and its place in the committed part of the log if
  it is there already; and the gateway takes this answer for a refusal, so that with no other attempt
  failing in transit it ends with 503, "nothing was applied", although the entry is in the log.
\<close>

theorem gw_refused_but_logged:
  assumes "reachable ids cfg f sm0 c" "n \<in> ids" "dget (commit_waiters (c_node c n)) i = Some ref"
    and "gw_judge addrs True p_success p_error st
      (case snd (put_end i ref (become_follower t (c_node c n))) of Reply r \<Rightarrow> Answered r | RpcError code \<Rightarrow> Status code []) = v"
  shows "log (become_follower t (c_node c n)) = log (c_node c n)
    \<and> commit_index (become_follower t (c_node c n)) = commit_index (c_node c n)
    \<and> (\<exists>st'. (v = AtOnce st' \<or> v = AfterPause st') \<and> cs_maybe st' = cs_maybe st)"
proof -
  have "snd (put_end i ref (become_follower t (c_node c n))) =
      Reply \<lparr>p_success = False, p_version = 0, p_error = not_leader_msg None None\<rparr>"
    using raft_step_down_fails_waiters [OF assms(1-3), of t]
    by (cases "append_entry_end i ref (become_follower t (c_node c n))")
      (simp add: put_end_def commit_end_def commit_error_def put_reply_def not_leader_msg_def)
  moreover have "startswith (not_leader_msg None None) ''NOT_LEADER:''" by (simp add: not_leader_msg_def startswith_def)
  ultimately show ?thesis using assms(4)
    by (auto simp: become_follower_keeps gw_judge_def Let_def split: option.splits prod.splits if_splits)
qed

theorem gw_refused_but_logged_witness:
  "\<exists>st. gw_judge [''a'', ''b''] True p_success p_error (call_start 0)
      (case snd (put_end 2 0 (become_follower 7 (c_node demo_9 0))) of Reply r \<Rightarrow> Answered r | RpcError code \<Rightarrow> Status code [])
        \<in> {AtOnce st, AfterPause st}
    \<and> \<not> cs_maybe st \<and> commit_index (become_follower 7 (c_node demo_9 0)) = 2"
  using gw_refused_but_logged [OF demo_reachable(2), of 0 2 0 "[''a'', ''b'']" "call_start 0" 7]
  by (auto simp: demo_ids_def nodes_9 dget_def call_start_def)

end
