(* ===== verification/Unicode.thy ===== *)
theory Unicode
  imports Codec
begin

text \<open>
  UTF-8 for whole Unicode texts (lists of code points), as \<open>str.encode\<close> and \<open>bytes.decode\<close> do it: the
  gateway decides by it whether a value is shown as text.
\<close>

type_synonym unicode = "nat list"

definition utf8_char :: "nat \<Rightarrow> nat list" where
  "utf8_char n =
     (if n < 128 then [n]
      else if n < 2048 then [192 + n div 64, 128 + n mod 64]
      else if n < 65536 then [224 + n div 4096, 128 + n div 64 mod 64, 128 + n mod 64]
      else [240 + n div 262144, 128 + n div 4096 mod 64, 128 + n div 64 mod 64, 128 + n mod 64])"

definition text_encode :: "unicode \<Rightarrow> bytes" where
  "text_encode t = concat (map (\<lambda>n. map char_of (utf8_char n)) t)"

text \<open>No surrogates, and at most \<open>0x10FFFF\<close>.\<close>

definition code_point :: "nat \<Rightarrow> bool" where
  "code_point n \<longleftrightarrow> n < 55296 \<or> 57344 \<le> n \<and> n < 1114112"

definition tail_byte :: "nat \<Rightarrow> bool" where
  "tail_byte b \<longleftrightarrow> 128 \<le> b \<and> b < 192"

text \<open>The first character of a list of bytes, and the rest; \<open>None\<close> where \<open>decode\<close> raises.\<close>

fun utf8_first :: "nat list \<Rightarrow> (nat \<times> nat list) option" where
  "utf8_first [] = None"
| "utf8_first (a # r) =
     (if a < 128 then Some (a, r)
      else if a < 194 then None
      else if a < 224 then
        (case r of b # r' \<Rightarrow> if tail_byte b then Some ((a - 192) * 64 + (b - 128), r') else None | _ \<Rightarrow> None)
      else if a < 240 then
        (case r of
           b # c # r' \<Rightarrow>
             (let n = (a - 224) * 4096 + (b - 128) * 64 + (c - 128)
              in if tail_byte b \<and> tail_byte c \<and> 2048 \<le> n \<and> code_point n then Some (n, r') else None)
         | _ \<Rightarrow> None)
      else if a < 245 then
        (case r of
           b # c # d # r' \<Rightarrow>
             (let n = (a - 240) * 262144 + (b - 128) * 4096 + (c - 128) * 64 + (d - 128)
              in if tail_byte b \<and> tail_byte c \<and> tail_byte d \<and> 65536 \<le> n \<and> code_point n then Some (n, r') else None)
         | _ \<Rightarrow> None)
      else None)"

lemma utf8_first_shorter: "utf8_first bs = Some (n, r) \<Longrightarrow> length r < length bs"
  by (cases bs) (auto simp: Let_def split: if_splits list.splits)

function utf8_all :: "nat list \<Rightarrow> unicode option" where
  "utf8_all bs =
     (if bs = [] then Some []
      else (case utf8_first bs of None \<Rightarrow> None
            | Some (n, r) \<Rightarrow> (case utf8_all r of None \<Rightarrow> None | Some t \<Rightarrow> Some (n # t))))"
  by auto
termination
  by (relation "measure length") (auto dest: utf8_first_shorter)

declare utf8_all.simps [simp del]

definition text_decode :: "bytes \<Rightarrow> unicode option" where
  "text_decode b = utf8_all (map of_char b)"

section \<open>Round trips\<close>

lemma split64: "n < m * 64 \<Longrightarrow> \<exists>x < m. \<exists>y < 64. n = x * 64 + (y :: nat)"
  by (intro exI [of _ "n div 64"] conjI exI [of _ "n mod 64"]) (auto simp: less_mult_imp_div_less)

lemma digits64 [simp]: "y < 64 \<Longrightarrow> (x * 64 + y) div 64 = x" "y < 64 \<Longrightarrow> (x * 64 + y) mod 64 = (y :: nat)"
  by simp_all

text \<open>The bytes of a character by its digits to the base 64.\<close>

lemma utf8_char_digits:
  assumes "y < 64" "z < 64" "u < 64"
  shows "2 \<le> x \<Longrightarrow> x < 32 \<Longrightarrow> utf8_char (x * 64 + y) = [192 + x, 128 + y]"
    "x < 16 \<Longrightarrow> 2048 \<le> (x * 64 + y) * 64 + z \<Longrightarrow> utf8_char ((x * 64 + y) * 64 + z) = [224 + x, 128 + y, 128 + z]"
    "65536 \<le> ((x * 64 + y) * 64 + z) * 64 + u
      \<Longrightarrow> utf8_char (((x * 64 + y) * 64 + z) * 64 + u) = [240 + x, 128 + y, 128 + z, 128 + u]"
proof -
  have d: "n div 4096 = n div 64 div 64" "n div 262144 = n div 64 div 64 div 64" for n :: nat
    by (simp_all flip: div_mult2_eq)
  note dd = digits64 [OF assms(1)] digits64 [OF assms(2)] digits64 [OF assms(3)]
  show "utf8_char (x * 64 + y) = [192 + x, 128 + y]" if "2 \<le> x" "x < 32"
  proof -
    have "128 \<le> x * 64 + y" "x * 64 + y < 2048" using that assms by linarith+
    then show ?thesis unfolding utf8_char_def d dd by simp
  qed
  show "utf8_char ((x * 64 + y) * 64 + z) = [224 + x, 128 + y, 128 + z]" if "x < 16" "2048 \<le> (x * 64 + y) * 64 + z"
  proof -
    have "x * 64 + y < 1024" using that assms by linarith
    moreover have "v < 1024 \<Longrightarrow> v * 64 + z < 65536" for v :: nat using assms by linarith
    ultimately have "(x * 64 + y) * 64 + z < 65536" by blast
    with that show ?thesis unfolding utf8_char_def d dd by simp
  qed
  show "utf8_char (((x * 64 + y) * 64 + z) * 64 + u) = [240 + x, 128 + y, 128 + z, 128 + u]"
    if "65536 \<le> ((x * 64 + y) * 64 + z) * 64 + u"
    using that unfolding utf8_char_def d dd by simp
qed

lemma utf8_first_char:
  assumes "code_point n" shows "utf8_first (utf8_char n @ r) = Some (n, r)"
proof -
  consider "n < 128" | "128 \<le> n" "n < 2048" | "2048 \<le> n" "n < 65536" | "65536 \<le> n" "n < 1114112"
    using assms unfolding code_point_def by linarith
  then show ?thesis
  proof cases
    case 1
    then show ?thesis by (simp add: utf8_char_def)
  next
    case 2
    then obtain x y where n: "x < 32" "y < 64" "n = x * 64 + y" using split64 [of n 32] by auto
    with 2 have "2 \<le> x" by linarith
    with n show ?thesis using utf8_char_digits(1) [of y 0 0 x] by (simp add: tail_byte_def)
  next
    case 3
    then obtain v z where v: "v < 1024" "z < 64" "n = v * 64 + z" using split64 [of n 1024] by auto
    then obtain x y where x: "x < 16" "y < 64" "v = x * 64 + y" using split64 [of v 16] by auto
    have "n = x * 4096 + y * 64 + z" "utf8_char n = [224 + x, 128 + y, 128 + z]"
      using v x 3 utf8_char_digits(2) [of y z 0 x] by simp_all
    with v x 3 assms show ?thesis by (simp add: tail_byte_def Let_def)
  next
    case 4
    then obtain w u where w: "w < 17408" "u < 64" "n = w * 64 + u" using split64 [of n 17408] by auto
    then obtain v z where v: "v < 272" "z < 64" "w = v * 64 + z" using split64 [of w 272] by auto
    then obtain x y where x: "x < 5" "y < 64" "v = x * 64 + y" using split64 [of v 5] by auto
    have "n = x * 262144 + y * 4096 + z * 64 + u" "utf8_char n = [240 + x, 128 + y, 128 + z, 128 + u]"
      using w v x 4 utf8_char_digits(3) [of y z u x] by simp_all
    with w v x 4 assms show ?thesis by (simp add: tail_byte_def Let_def)
  qed
qed

lemma offset: "k \<le> a \<Longrightarrow> a < k + m \<Longrightarrow> \<exists>x < m. a = k + (x :: nat)"
  by (intro exI [of _ "a - k"]) auto

lemma tail_byte_offset: "tail_byte b \<Longrightarrow> \<exists>y < 64. b = 128 + y"
  unfolding tail_byte_def by (rule offset) auto

lemma utf8_char_first:
  assumes "utf8_first bs = Some (n, r)" shows "code_point n \<and> bs = utf8_char n @ r"
proof (cases bs)
  case (Cons a q)
  consider "a < 128" | "194 \<le> a" "a < 224" | "224 \<le> a" "a < 240" | "240 \<le> a" "a < 245"
    using assms Cons by (auto split: if_splits)
  then show ?thesis
  proof cases
    case 1
    with assms Cons show ?thesis by (simp add: utf8_char_def code_point_def)
  next
    case 2
    with assms Cons obtain b where b: "q = b # r" "tail_byte b" "n = (a - 192) * 64 + (b - 128)"
      by (auto split: list.splits if_splits)
    obtain x where "x < 30" "a = 194 + x" using offset [of 194 a 30] 2 by auto
    moreover obtain y where "y < 64" "b = 128 + y" using tail_byte_offset [OF b(2)] by auto
    ultimately show ?thesis using Cons b utf8_char_digits(1) [of y 0 0 "2 + x"] by (simp add: code_point_def)
  next
    case 3
    with assms Cons obtain b c where b: "q = b # c # r" "tail_byte b" "tail_byte c" "2048 \<le> n" "code_point n"
      "n = (a - 224) * 4096 + (b - 128) * 64 + (c - 128)"
      by (auto simp: Let_def split: list.splits if_splits)
    obtain x where "x < 16" "a = 224 + x" using offset [of 224 a 16] 3 by auto
    moreover obtain y where "y < 64" "b = 128 + y" using tail_byte_offset [OF b(2)] by auto
    moreover obtain z where "z < 64" "c = 128 + z" using tail_byte_offset [OF b(3)] by auto
    ultimately have n: "n = (x * 64 + y) * 64 + z" "x < 16" "y < 64" "z < 64" "a = 224 + x" "b = 128 + y" "c = 128 + z"
      using b(6) by auto
    have "utf8_char n = [224 + x, 128 + y, 128 + z]" using utf8_char_digits(2) [of y z 0 x] n b(4) by simp
    with b Cons n(5-) show ?thesis by simp
  next
    case 4
    with assms Cons obtain b c d where b: "q = b # c # d # r" "tail_byte b" "tail_byte c" "tail_byte d" "65536 \<le> n" "code_point n"
      "n = (a - 240) * 262144 + (b - 128) * 4096 + (c - 128) * 64 + (d - 128)"
      by (auto simp: Let_def split: list.splits if_splits)
    obtain x where "x < 5" "a = 240 + x" using offset [of 240 a 5] 4 by auto
    moreover obtain y where "y < 64" "b = 128 + y" using tail_byte_offset [OF b(2)] by auto
    moreover obtain z where "z < 64" "c = 128 + z" using tail_byte_offset [OF b(3)] by auto
    moreover obtain u where "u < 64" "d = 128 + u" using tail_byte_offset [OF b(4)] by auto
    ultimately have n: "n = ((x * 64 + y) * 64 + z) * 64 + u" "y < 64" "z < 64" "u < 64"
      "a = 240 + x" "b = 128 + y" "c = 128 + z" "d = 128 + u" using b(7) by auto
    have "utf8_char n = [240 + x, 128 + y, 128 + z, 128 + u]" using utf8_char_digits(3) [of y z u x] n b(5) by simp
    with b Cons n(5-) show ?thesis by simp
  qed
qed (use assms in simp)

lemma utf8_char_bytes: "code_point n \<Longrightarrow> b \<in> set (utf8_char n) \<Longrightarrow> b < 256"
  unfolding utf8_char_def code_point_def by (auto split: if_splits)

lemma text_bytes: "list_all code_point t \<Longrightarrow> map of_char (text_encode t) = concat (map utf8_char t)"
proof (induction t)
  case (Cons n t)
  then have "map (\<lambda>x. of_char (char_of x :: char)) (utf8_char n) = utf8_char n"
    by (intro map_idI) (auto dest: utf8_char_bytes)
  with Cons show ?case by (simp add: text_encode_def comp_def)
qed (simp add: text_encode_def)

lemma text_decode_encode:
  assumes "list_all code_point t" shows "text_decode (text_encode t) = Some t"
proof -
  have "list_all code_point t \<Longrightarrow> utf8_all (concat (map utf8_char t)) = Some t"
  proof (induction t)
    case (Cons n t)
    have "utf8_char n \<noteq> []" by (simp add: utf8_char_def)
    with Cons utf8_first_char [of n "concat (map utf8_char t)"] show ?case by (simp add: utf8_all.simps [of "utf8_char n @ _"])
  qed (simp add: utf8_all.simps)
  with assms show ?thesis by (simp add: text_decode_def text_bytes)
qed

lemma utf8_all_valid: "utf8_all bs = Some t \<Longrightarrow> list_all code_point t \<and> bs = concat (map utf8_char t)"
proof (induction bs arbitrary: t rule: utf8_all.induct)
  case (1 bs)
  show ?case
  proof (cases "bs = []")
    case True
    with "1.prems" show ?thesis by (simp add: utf8_all.simps [of "[]"])
  next
    case False
    with "1.prems" obtain n r u where u: "utf8_first bs = Some (n, r)" "utf8_all r = Some u" "t = n # u"
      by (auto simp: utf8_all.simps [of bs] split: option.splits)
    from "1.IH" [OF False u(1) refl u(2)] utf8_char_first [OF u(1)] u(3) show ?thesis by simp
  qed
qed

lemma text_encode_decode: "text_decode b = Some t \<Longrightarrow> list_all code_point t \<and> text_encode t = b"
proof -
  assume "text_decode b = Some t"
  then have v: "list_all code_point t" "map of_char b = concat (map utf8_char t)"
    unfolding text_decode_def by (auto dest: utf8_all_valid)
  then have "map of_char b = (map of_char (text_encode t) :: nat list)" by (simp only: text_bytes)
  then have "map char_of (map of_char b :: nat list) = map char_of (map of_char (text_encode t) :: nat list)" by simp
  then have "b = text_encode t" by (simp add: comp_def)
  with v(1) show ?thesis by simp
qed

end
