(* ===== verification/Gateway_Api.thy ===== *)
theory Gateway_Api
  imports Gateway_Cluster Json Unicode
begin

text \<open>
  The gateway above its cluster client: the rules for keys (\<open>services/kv_service.py\<close>), the HTTP routes
  (\<open>api/kv.py\<close>, \<open>api/cluster.py\<close>, \<open>api/health.py\<close>) and the responses for errors (\<open>api/problems.py\<close>),
  under \<open>part6_web/gateway\<close>. The calls of the cluster client are arguments, functions on a state \<open>'s\<close>.

  \<open>repr\<close> prints a string for a message; \<open>digest\<close> is the hash of an idempotency key and a request,
  \<open>fresh\<close> the hexadecimal digits of a new UUID.
\<close>

section \<open>Rules\<close>

record entry =
  en_key :: string
  en_value :: bytes
  en_version :: int

record write_result =
  wr_version :: int
  wr_created :: bool

text \<open>What identifies a write apart from its idempotency key.\<close>

datatype write_request =
    PutOf string bytes "int option" bool
  | DeleteOf string

definition identity :: "(string \<Rightarrow> write_request \<Rightarrow> string) \<Rightarrow> string \<Rightarrow> string option \<Rightarrow> write_request \<Rightarrow> string \<times> int" where
  "identity digest fresh idem q =
     (case idem of
        None \<Rightarrow> (''gw-'' @ fresh, 1)
      | Some k \<Rightarrow> (''idem-'' @ take 32 (digest k q), 1))"

record 's kv_calls =
  kc_get :: "string \<Rightarrow> bool \<Rightarrow> 's \<Rightarrow> 's \<times> (gw_error + bool \<times> bytes \<times> int)"
  kc_put :: "string \<Rightarrow> bytes \<Rightarrow> string \<Rightarrow> int \<Rightarrow> 's \<Rightarrow> 's \<times> (gw_error + int)"
  kc_cas :: "string \<Rightarrow> bytes \<Rightarrow> string \<Rightarrow> int \<Rightarrow> int \<Rightarrow> bool \<Rightarrow> 's \<Rightarrow> 's \<times> (gw_error + bool \<times> int)"
  kc_delete :: "string \<Rightarrow> string \<Rightarrow> int \<Rightarrow> 's \<Rightarrow> 's \<times> (gw_error + bool)"

definition no_key :: "(string \<Rightarrow> string) \<Rightarrow> string \<Rightarrow> string" where
  "no_key repr key = ''key '' @ repr key @ '' does not exist''"

definition svc_get :: "(string \<Rightarrow> string) \<Rightarrow> 's kv_calls \<Rightarrow> string \<Rightarrow> bool \<Rightarrow> 's \<Rightarrow> 's \<times> (gw_error + entry)" where
  "svc_get repr kc key lin s =
     (case kc_get kc key lin s of
        (s', Inl e) \<Rightarrow> (s', Inl e)
      | (s', Inr (found, v, ver)) \<Rightarrow>
          (s', if \<not> found then Inl (NotFound (no_key repr key))
               else Inr \<lparr>en_key = key, en_value = v, en_version = ver\<rparr>))"

definition svc_put ::
  "(string \<Rightarrow> string) \<Rightarrow> 's kv_calls \<Rightarrow> int \<Rightarrow> (string \<Rightarrow> write_request \<Rightarrow> string) \<Rightarrow> string
   \<Rightarrow> string \<Rightarrow> bytes \<Rightarrow> int option \<Rightarrow> bool \<Rightarrow> string option \<Rightarrow> 's \<Rightarrow> 's \<times> (gw_error + write_result)" where
  "svc_put repr kc max_bytes digest fresh key v expected create_only idem s =
     (if int (length v) > max_bytes then
        (s, Inl (ValueTooLarge (''value is '' @ nat_str (length v) @ '' bytes; the limit is '' @ int_str max_bytes)))
      else if expected \<noteq> None \<and> create_only then
        (s, Inl (InvalidRequest ''a write can require a version or require absence, not both''))
      else
        (let (cid, seq) = identity digest fresh idem (PutOf key v expected create_only) in
         if create_only then
           (case kc_cas kc key v cid seq 0 True s of
              (s', Inl e) \<Rightarrow> (s', Inl e)
            | (s', Inr (swapped, ver)) \<Rightarrow>
                (s', if \<not> swapped then Inl (PreconditionFailed (''key '' @ repr key @ '' already exists'') ver)
                     else Inr \<lparr>wr_version = ver, wr_created = True\<rparr>))
         else
           (case expected of
              Some ev \<Rightarrow>
                if ev < 1 then (s, Inl (PreconditionFailed (''key '' @ repr key @ '' is not at version '' @ int_str ev) 0))
                else
                  (case kc_cas kc key v cid seq ev False s of
                     (s', Inl e) \<Rightarrow> (s', Inl e)
                   | (s', Inr (swapped, ver)) \<Rightarrow>
                       (s', if \<not> swapped then
                              Inl (PreconditionFailed
                                (if ver \<noteq> 0 then ''key '' @ repr key @ '' is at version '' @ int_str ver @ '', not '' @ int_str ev
                                 else no_key repr key) ver)
                            else Inr \<lparr>wr_version = ver, wr_created = False\<rparr>))
            | None \<Rightarrow>
                (case kc_put kc key v cid seq s of
                   (s', Inl e) \<Rightarrow> (s', Inl e)
                 | (s', Inr ver) \<Rightarrow> (s', Inr \<lparr>wr_version = ver, wr_created = False\<rparr>)))))"

definition svc_delete ::
  "(string \<Rightarrow> string) \<Rightarrow> 's kv_calls \<Rightarrow> (string \<Rightarrow> write_request \<Rightarrow> string) \<Rightarrow> string \<Rightarrow> string \<Rightarrow> string option \<Rightarrow> 's
   \<Rightarrow> 's \<times> (gw_error + unit)" where
  "svc_delete repr kc digest fresh key idem s =
     (let (cid, seq) = identity digest fresh idem (DeleteOf key) in
      case kc_delete kc key cid seq s of
        (s', Inl e) \<Rightarrow> (s', Inl e)
      | (s', Inr existed) \<Rightarrow> (s', if \<not> existed then Inl (NotFound (no_key repr key)) else Inr ()))"

section \<open>ETags\<close>

text \<open>The white space \<open>str.strip()\<close> removes, of the characters a header can hold.\<close>

definition is_space :: "char \<Rightarrow> bool" where
  "is_space c \<longleftrightarrow> (of_char c :: nat) \<in> {9, 10, 11, 12, 13, 28, 29, 30, 31, 32, 133, 160}"

definition strip_by :: "(char \<Rightarrow> bool) \<Rightarrow> string \<Rightarrow> string" where
  "strip_by p s = rev (dropWhile p (rev (dropWhile p s)))"

definition strip :: "string \<Rightarrow> string" where
  "strip s = strip_by is_space s"

definition dquote :: char where
  "dquote = CHR 0x22"

definition etag :: "int \<Rightarrow> string" where
  "etag v = dquote # int_str v @ [dquote]"

text \<open>\<open>_STRONG_ETAG.fullmatch\<close>: the digits, quoted or not.\<close>

definition strong_etag :: "string \<Rightarrow> string option" where
  "strong_etag t =
     (if is_digits t then Some t
      else (case t of
              c # r \<Rightarrow> if c = dquote \<and> r \<noteq> [] \<and> last r = dquote \<and> is_digits (butlast r) then Some (butlast r) else None
            | [] \<Rightarrow> None))"

definition parse_if_match :: "(string \<Rightarrow> string) \<Rightarrow> string option \<Rightarrow> gw_error + int option" where
  "parse_if_match repr header =
     (case header of
        None \<Rightarrow> Inr None
      | Some h \<Rightarrow>
          (let tag = strip h in
           if tag = ''*'' then Inl (InvalidRequest (''If-Match: * is not supported; send the ETag from a read, e.g. '' @ etag 3))
           else if startswith tag ''W/'' then Inl (InvalidRequest ''If-Match needs a strong ETag; a weak one (W/...) never matches'')
           else (case strong_etag tag of
                   None \<Rightarrow> Inl (InvalidRequest (''unrecognised ETag '' @ repr h @ ''; expected a quoted version like '' @ etag 3))
                 | Some d \<Rightarrow> Inr (Some (int (digits_val d))))))"

definition parse_create_only :: "string option \<Rightarrow> gw_error + bool" where
  "parse_create_only header =
     (case header of
        None \<Rightarrow> Inr False
      | Some h \<Rightarrow> if strip h \<noteq> ''*'' then Inl (InvalidRequest ''on a write, only If-None-Match: * (create only) is supported'')
                  else Inr True)"

definition remove_prefix :: "string \<Rightarrow> string \<Rightarrow> string" where
  "remove_prefix p s = (if startswith s p then drop (length p) s else s)"

definition etag_matches :: "string \<Rightarrow> int \<Rightarrow> bool" where
  "etag_matches header v =
     list_ex (\<lambda>t. let tag = strip t in tag = ''*'' \<or> strip_by (\<lambda>c. c = dquote) (remove_prefix ''W/'' tag) = int_str v)
       (split_on (CHR '','') header)"

section \<open>Routes\<close>

record 'b response =
  rs_status :: nat
  rs_headers :: "(string \<times> string) list"
  rs_body :: 'b

text \<open>The bodies: nothing, \<open>EntryOut\<close>, \<open>WriteOut\<close>, or a problem.\<close>

record problem_body =
  pb_title :: string
  pb_status :: nat
  pb_detail :: "string option"
  pb_current :: "int option"
  pb_hint :: "string option"

datatype body =
    NoBody
  | EntryOut string unicode string int
  | WriteOut string int
  | ProblemOut problem_body

definition show_value :: "bytes \<Rightarrow> unicode \<times> string" where
  "show_value b =
     (case text_decode b of
        Some t \<Rightarrow> (t, ''utf-8'')
      | None \<Rightarrow> (map of_char (b64encode b), ''base64''))"

definition read_key ::
  "(string \<Rightarrow> string) \<Rightarrow> 's kv_calls \<Rightarrow> string \<Rightarrow> string \<Rightarrow> string option \<Rightarrow> 's \<Rightarrow> 's \<times> (gw_error + body response)" where
  "read_key repr kc key consistency if_none_match s =
     (case svc_get repr kc key (consistency = ''linearizable'') s of
        (s', Inl e) \<Rightarrow> (s', Inl e)
      | (s', Inr en) \<Rightarrow>
          (let headers = [(''ETag'', etag (en_version en)), (''Cache-Control'', ''no-cache'')] in
           (s', Inr (if (case if_none_match of None \<Rightarrow> False | Some h \<Rightarrow> etag_matches h (en_version en))
                     then \<lparr>rs_status = 304, rs_headers = headers, rs_body = NoBody\<rparr>
                     else (let (v, encoding) = show_value (en_value en)
                           in \<lparr>rs_status = 200, rs_headers = headers,
                               rs_body = EntryOut key v encoding (en_version en)\<rparr>)))))"

text \<open>\<open>urllib.parse.quote\<close>\<close>

definition url_safe :: "char \<Rightarrow> bool" where
  "url_safe c \<longleftrightarrow> is_digit c \<or> c \<in> set ''ABCDEFGHIJKLMNOPQRSTUVWXYZabcdefghijklmnopqrstuvwxyz_.-~/''"

definition hex_upper :: "nat \<Rightarrow> char" where
  "hex_upper n = ''0123456789ABCDEF'' ! n"

definition url_quote :: "string \<Rightarrow> string" where
  "url_quote s = concat (map (\<lambda>c. if url_safe c then [c]
     else [CHR 0x25, hex_upper (of_char c div 16), hex_upper (of_char c mod 16)]) (utf8_encode s))"

definition write_key ::
  "(string \<Rightarrow> string) \<Rightarrow> 's kv_calls \<Rightarrow> int \<Rightarrow> (string \<Rightarrow> write_request \<Rightarrow> string) \<Rightarrow> string
   \<Rightarrow> string \<Rightarrow> unicode \<Rightarrow> string option \<Rightarrow> string option \<Rightarrow> string option \<Rightarrow> 's \<Rightarrow> 's \<times> (gw_error + body response)" where
  "write_key repr kc max_bytes digest fresh key v if_match if_none_match idem s =
     (case parse_if_match repr if_match of
        Inl e \<Rightarrow> (s, Inl e)
      | Inr expected \<Rightarrow>
          (case parse_create_only if_none_match of
             Inl e \<Rightarrow> (s, Inl e)
           | Inr create_only \<Rightarrow>
               (case svc_put repr kc max_bytes digest fresh key (text_encode v) expected create_only idem s of
                  (s', Inl e) \<Rightarrow> (s', Inl e)
                | (s', Inr r) \<Rightarrow>
                    (let headers = [(''ETag'', etag (wr_version r))];
                         body = WriteOut key (wr_version r)
                     in (s', Inr (if wr_created r
                                  then \<lparr>rs_status = 201,
                                        rs_headers = headers @ [(''Location'', ''/v1/kv/'' @ url_quote key)], rs_body = body\<rparr>
                                  else \<lparr>rs_status = 200, rs_headers = headers, rs_body = body\<rparr>))))))"

definition delete_key ::
  "(string \<Rightarrow> string) \<Rightarrow> 's kv_calls \<Rightarrow> (string \<Rightarrow> write_request \<Rightarrow> string) \<Rightarrow> string \<Rightarrow> string \<Rightarrow> string option
   \<Rightarrow> string option \<Rightarrow> 's \<Rightarrow> 's \<times> (gw_error + body response)" where
  "delete_key repr kc digest fresh key if_match idem s =
     (if if_match \<noteq> None then (s, Inl (InvalidRequest ''If-Match is not supported on DELETE yet''))
      else (case svc_delete repr kc digest fresh key idem s of
              (s', Inl e) \<Rightarrow> (s', Inl e)
            | (s', Inr _) \<Rightarrow> (s', Inr \<lparr>rs_status = 204, rs_headers = [], rs_body = NoBody\<rparr>)))"

section \<open>Problems\<close>

text \<open>\<open>_STATUS\<close>; the handler of every other exception answers 500.\<close>

fun status_code :: "gw_error \<Rightarrow> nat" where
  "status_code (InvalidRequest m) = 400"
| "status_code (NotFound m) = 404"
| "status_code (PreconditionFailed m v) = 412"
| "status_code (ValueTooLarge m) = 413"
| "status_code (StoreError m) = 502"
| "status_code (ClusterUnavailable m) = 503"
| "status_code (WriteOutcomeUnknown m) = 504"
| "status_code (Unexpected x) = 500"

fun error_text :: "gw_error \<Rightarrow> string" where
  "error_text (InvalidRequest m) = m"
| "error_text (NotFound m) = m"
| "error_text (PreconditionFailed m v) = m"
| "error_text (ValueTooLarge m) = m"
| "error_text (StoreError m) = m"
| "error_text (ClusterUnavailable m) = m"
| "error_text (WriteOutcomeUnknown m) = m"
| "error_text (Unexpected x) = ''Unexpected error in the gateway.''"

definition retry_hint :: string where
  "retry_hint = ''The write may or may not have been applied. Retrying it with the same '' @
     ''Idempotency-Key is safe: that returns the first attempt's result if it '' @
     ''was applied, and applies the write otherwise.''"

text \<open>\<open>problem\<close>; \<open>phrase\<close> is \<open>HTTPStatus(status).phrase\<close>.\<close>

definition problem ::
  "(nat \<Rightarrow> string) \<Rightarrow> nat \<Rightarrow> string \<Rightarrow> (string \<times> string) list \<Rightarrow> int option \<Rightarrow> string option \<Rightarrow> body response" where
  "problem phrase code detail headers current hint =
     \<lparr>rs_status = code, rs_headers = headers,
      rs_body = ProblemOut \<lparr>pb_title = phrase code, pb_status = code,
                           pb_detail = (if detail = [] then None else Some detail),
                           pb_current = current, pb_hint = hint\<rparr>\<rparr>"

definition domain_handler :: "(nat \<Rightarrow> string) \<Rightarrow> gw_error \<Rightarrow> body response" where
  "domain_handler phrase e =
     (let ans = problem phrase (status_code e) (error_text e) in
      case e of
        PreconditionFailed m v \<Rightarrow> if v \<noteq> 0 then ans [(''ETag'', etag v)] (Some v) None else ans [] None None
      | ClusterUnavailable m \<Rightarrow> ans [(''Retry-After'', ''1'')] None None
      | WriteOutcomeUnknown m \<Rightarrow> ans [] None (Some retry_hint)
      | _ \<Rightarrow> ans [] None None)"

definition respond :: "(nat \<Rightarrow> string) \<Rightarrow> 's \<times> (gw_error + body response) \<Rightarrow> 's \<times> body response" where
  "respond phrase r = (fst r, case snd r of Inl e \<Rightarrow> domain_handler phrase e | Inr a \<Rightarrow> a)"

section \<open>The cluster's routes and the probes\<close>

record cluster_out =
  co_leader :: "nat option"
  co_term :: nat
  co_nodes :: "gw_node_status list"

definition summarize :: "gw_node_status list \<Rightarrow> cluster_out" where
  "summarize ss =
     \<lparr>co_leader = map_option ns_id (current_leader ss),
      co_term = foldr max (map ns_term (filter ns_reachable ss)) 0,
      co_nodes = ss\<rparr>"

text \<open>\<open>ask on heal\<close> is the node's answer; times in seconds.\<close>

definition set_isolation ::
  "int \<Rightarrow> bool \<Rightarrow> int \<Rightarrow> (bool \<Rightarrow> int \<Rightarrow> bool call) \<Rightarrow> gw_cluster \<Rightarrow> gw_cluster \<times> (gw_error + int \<times> bool)" where
  "set_isolation n on heal_after ask c =
     (if \<not> (0 \<le> n \<and> n < int (length (gc_nodes c))) then (c, Inl (NotFound (''there is no node '' @ int_str n)))
      else (case gw_set_isolated (nat n) (ask on (if on then heal_after else 0)) c of
              (c', Inl e) \<Rightarrow> (c', Inl e)
            | (c', Inr on1) \<Rightarrow> (c', Inr (n, on1))))"

definition readyz :: "gw_node_status list \<Rightarrow> gw_error + nat \<times> nat" where
  "readyz ss =
     (case current_leader ss of
        None \<Rightarrow> Inl (ClusterUnavailable ''no connected leader right now'')
      | Some l \<Rightarrow> Inr (ns_id l, ns_term l))"

text \<open>\<open>_listed\<close> of the settings.\<close>

definition listed :: "string option \<Rightarrow> string list \<Rightarrow> string list" where
  "listed raw dflt =
     (case raw of None \<Rightarrow> dflt | Some [] \<Rightarrow> dflt
      | Some s \<Rightarrow> filter (\<lambda>p. p \<noteq> []) (map strip (split_on (CHR '','') s)))"

end
