(* ===== verification/Gateway_Theorems.thy ===== *)
theory Gateway_Theorems
  imports Gateway_Api Kv_Cluster
begin

text \<open>
  The gateway's HTTP interface over a store that answers: ETags, conditional writes and reads, and
  idempotency keys. The store is an interface (\<open>cell_store\<close>); the key-value state machine provides it.
\<close>

section \<open>ETags\<close>

lemma strip_by_solid: "s \<noteq> [] \<Longrightarrow> \<not> p (hd s) \<Longrightarrow> \<not> p (last s) \<Longrightarrow> strip_by p s = s"
proof -
  assume "s \<noteq> []" "\<not> p (hd s)" "\<not> p (last s)"
  then have "dropWhile p s = s" "dropWhile p (rev s) = rev s" by (simp_all add: dropWhile_eq_self_iff hd_rev)
  then show ?thesis by (simp add: strip_by_def)
qed

lemma strip_by_wrapped:
  assumes "\<forall>c \<in> set s. \<not> p c" "p q" shows "strip_by p (q # s @ [q]) = s"
proof -
  have "dropWhile p (rev s) = rev s" using assms(1) by (intro dropWhile_eq_self_iff [THEN iffD2]) (auto simp: hd_rev)
  moreover have "dropWhile p (s @ [q]) = (if s = [] then [] else s @ [q])" using assms by (cases s) auto
  ultimately show ?thesis using assms(2) by (simp add: strip_by_def)
qed

lemma int_str_chars: "c \<in> set (int_str v) \<Longrightarrow> is_digit c \<or> c = CHR ''-''"
  using nat_str_digits by (auto simp: int_str_def list_all_iff split: if_splits)

lemma int_str_plain [simp]: "dquote \<notin> set (int_str v)" "CHR '','' \<notin> set (int_str v)"
  by (auto dest!: int_str_chars simp: dquote_def is_digit_def)

lemma dquote_solid [simp]: "\<not> is_space dquote" "dquote \<noteq> CHR '',''" "CHR '','' \<noteq> dquote" "\<not> is_digit dquote"
  "dquote \<noteq> CHR ''*''" "dquote \<noteq> CHR ''W''"
  by (simp_all add: is_space_def dquote_def is_digit_def)

lemma strip_etag [simp]: "strip (etag v) = etag v"
  unfolding strip_def by (rule strip_by_solid) (simp_all add: etag_def)

lemma parse_etag: "0 \<le> v \<Longrightarrow> parse_if_match repr (Some (etag v)) = Inr (Some v)"
proof -
  assume "0 \<le> v"
  then have "strong_etag (etag v) = Some (nat_str (nat v))"
    using nat_str_digits [of "nat v"] by (simp add: strong_etag_def is_digits_def etag_def int_str_def)
  moreover have "\<not> startswith (etag v) ''W/''" "etag v \<noteq> ''*''" by (simp_all add: startswith_def etag_def)
  ultimately show ?thesis using \<open>0 \<le> v\<close> by (simp add: parse_if_match_def Let_def)
qed

lemma etag_matches_etag: "etag_matches (etag w) v \<longleftrightarrow> w = v"
proof -
  have "split_on (CHR '','') (etag w) = [etag w]" by (rule split_on_none) (simp add: etag_def)
  moreover have "remove_prefix ''W/'' (etag w) = etag w" by (simp add: remove_prefix_def startswith_def etag_def)
  moreover have "strip_by (\<lambda>c. c = dquote) (etag w) = int_str w"
    unfolding etag_def by (rule strip_by_wrapped) auto
  moreover have "etag w \<noteq> ''*''" by (simp add: etag_def)
  ultimately show ?thesis by (auto simp: etag_matches_def Let_def dest: int_str_inj)
qed

interpretation utf8: codec text_encode text_decode "list_all code_point"
  by unfold_locales (rule text_decode_encode)

interpretation etags: codec "\<lambda>n. etag (int n)" "\<lambda>s. case parse_if_match id (Some s) of Inr (Some v) \<Rightarrow> Some (nat v) | _ \<Rightarrow> None" "\<lambda>n. True"
  by unfold_locales (simp add: parse_etag)

section \<open>A store of versioned cells\<close>

text \<open>
  What the routes rely on: calls that act on one cell per key as \<open>spec_op\<close> does, if their identity is
  new to the store.
\<close>

locale cell_store =
  fixes kc :: "'s kv_calls" and view :: "'s \<Rightarrow> string \<Rightarrow> cell" and good :: "'s \<Rightarrow> bool" and used :: "'s \<Rightarrow> string \<Rightarrow> bool"
  assumes live: "good s \<Longrightarrow> fst (view s key) \<noteq> None \<Longrightarrow> 0 < snd (view s key)"
    and get: "good s \<Longrightarrow> kc_get kc key lin s =
      (s, Inr (case view s key of (None, x) \<Rightarrow> (False, [], 0) | (Some v, x) \<Rightarrow> (True, v, x)))"
    and put: "good s \<Longrightarrow> \<not> used s cid \<Longrightarrow> cid \<noteq> [] \<Longrightarrow> \<exists>s'. kc_put kc key v cid 1 s = (s', Inr (snd (view s key) + 1))
      \<and> good s' \<and> view s' = (view s)(key := (Some v, snd (view s key) + 1))"
    and cas: "good s \<Longrightarrow> \<not> used s cid \<Longrightarrow> cid \<noteq> [] \<Longrightarrow> int64 ev \<Longrightarrow> q = \<lparr>cr_expected = [], cr_new = v, cr_absent = ea, cr_version = ev\<rparr> \<Longrightarrow>
      \<exists>s'. kc_cas kc key v cid 1 ev ea s =
          (s', Inr (cas_holds q (view s key),
                    if cas_holds q (view s key) then snd (view s key) + 1 else if fst (view s key) = None then 0 else snd (view s key)))
        \<and> good s' \<and> view s' = (view s)(key := fst (spec_op (OpCas q) (view s key)))"
    and delete: "good s \<Longrightarrow> \<not> used s cid \<Longrightarrow> cid \<noteq> [] \<Longrightarrow> \<exists>s'. kc_delete kc key cid 1 s = (s', Inr (fst (view s key) \<noteq> None))
      \<and> good s' \<and> view s' = (view s)(key := (None, snd (view s key)))"

text \<open>The conditions a write can carry, as headers and as arguments of the service.\<close>

datatype condition = Always | AtVersion int | IfAbsent

fun cond_headers :: "condition \<Rightarrow> string option \<times> string option" where
  "cond_headers Always = (None, None)"
| "cond_headers (AtVersion v) = (Some (etag v), None)"
| "cond_headers IfAbsent = (None, Some ''*'')"

fun cond_args :: "condition \<Rightarrow> int option \<times> bool" where
  "cond_args Always = (None, False)"
| "cond_args (AtVersion v) = (Some v, False)"
| "cond_args IfAbsent = (None, True)"

fun cond_valid :: "condition \<Rightarrow> bool" where
  "cond_valid (AtVersion v) = (1 \<le> v \<and> v < 2 ^ 63)"
| "cond_valid c = True"

fun wanted :: "condition \<Rightarrow> cell \<Rightarrow> bool" where
  "wanted Always c = True"
| "wanted (AtVersion v) c = (fst c \<noteq> None \<and> snd c = v)"
| "wanted IfAbsent c = (fst c = None)"

text \<open>What a conditional write promises: the new cell, the status, the ETag of the answer.\<close>

definition spec_write :: "bytes \<Rightarrow> condition \<Rightarrow> cell \<Rightarrow> cell \<times> nat \<times> string option" where
  "spec_write v cond c =
     (if wanted cond c then ((Some v, snd c + 1), if cond = IfAbsent then 201 else 200, Some (etag (snd c + 1)))
      else (c, 412, if fst c = None then None else Some (etag (snd c))))"

definition headers_cond :: "condition \<Rightarrow> string \<Rightarrow> bytes \<Rightarrow> write_request" where
  "headers_cond cond key v = PutOf key v (fst (cond_args cond)) (snd (cond_args cond))"

lemma parse_cond: "cond_valid cond \<Longrightarrow> parse_if_match repr (fst (cond_headers cond)) = Inr (fst (cond_args cond))
    \<and> parse_create_only (snd (cond_headers cond)) = Inr (snd (cond_args cond))"
proof (cases cond)
  case Always
  then show ?thesis by (simp add: parse_if_match_def parse_create_only_def)
next
  case (AtVersion v)
  then show "cond_valid cond \<Longrightarrow> ?thesis" by (simp add: parse_etag parse_create_only_def)
next
  case IfAbsent
  have "strip ''*'' = ''*''" by (simp add: strip_def strip_by_def is_space_def)
  with IfAbsent show ?thesis by (simp add: parse_if_match_def parse_create_only_def)
qed

lemma identity_named: "fst (identity digest fresh idem q) \<noteq> [] \<and> snd (identity digest fresh idem q) = 1"
  by (simp add: identity_def split: option.split)

context cell_store
begin

lemma svc_put_cases:
  assumes "good s" "int (length v) \<le> max_bytes" "cond_valid cond" "\<not> used s (fst (identity digest fresh idem (headers_cond cond key v)))"
  shows "\<exists>s' a. svc_put repr kc max_bytes digest fresh key v (fst (cond_args cond)) (snd (cond_args cond)) idem s = (s', a)
    \<and> good s' \<and> view s' = (view s)(key := fst (spec_write v cond (view s key)))
    \<and> (if wanted cond (view s key) then a = Inr \<lparr>wr_version = snd (view s key) + 1, wr_created = (cond = IfAbsent)\<rparr>
       else \<exists>m. a = Inl (PreconditionFailed m (if fst (view s key) = None then 0 else snd (view s key))))"
proof -
  obtain cid where i: "identity digest fresh idem (headers_cond cond key v) = (cid, 1)" "cid \<noteq> []"
    using identity_named [of digest fresh idem "headers_cond cond key v"] by (metis prod.collapse)
  with assms(4) have u: "\<not> used s cid" by simp
  show ?thesis
  proof (cases cond)
    case Always
    with put [OF assms(1) u i(2), of key v] i(1) assms(2) show ?thesis
      by (auto simp: svc_put_def spec_write_def headers_cond_def)
  next
    case (AtVersion x)
    then have "int64 x" "\<not> x < 1" using assms(3) by (auto simp: int64_def)
    with AtVersion cas [OF assms(1) u i(2) _ refl, of x key v False] i(1) assms(2) live [OF assms(1), of key] show ?thesis
      by (auto simp: svc_put_def spec_write_def headers_cond_def cas_holds_def)
  next
    case IfAbsent
    have "int64 0" by (simp add: int64_def)
    with IfAbsent cas [OF assms(1) u i(2) _ refl, of 0 key v True] i(1) assms(2) live [OF assms(1), of key] show ?thesis
      by (auto simp: svc_put_def spec_write_def headers_cond_def cas_holds_def)
  qed
qed

text \<open>The whole route of a write, and of a read.\<close>

lemma write_key_cell:
  assumes "good s" "int (length (text_encode t)) \<le> max_bytes" "cond_valid cond"
    and "\<not> used s (fst (identity digest fresh idem (headers_cond cond key (text_encode t))))"
    and "respond phrase (write_key repr kc max_bytes digest fresh key t (fst (cond_headers cond)) (snd (cond_headers cond)) idem s) = (s', r)"
  shows "view s' = (view s)(key := fst (spec_write (text_encode t) cond (view s key)))" "good s'"
    and "rs_status r = fst (snd (spec_write (text_encode t) cond (view s key)))"
    and "map_of (rs_headers r) ''ETag'' = snd (snd (spec_write (text_encode t) cond (view s key)))"
proof -
  note P = parse_cond [OF assms(3), of repr]
  from svc_put_cases [OF assms(1-4), of repr] obtain s1 a where a:
    "svc_put repr kc max_bytes digest fresh key (text_encode t) (fst (cond_args cond)) (snd (cond_args cond)) idem s = (s1, a)"
    "good s1" "view s1 = (view s)(key := fst (spec_write (text_encode t) cond (view s key)))"
    "if wanted cond (view s key) then a = Inr \<lparr>wr_version = snd (view s key) + 1, wr_created = (cond = IfAbsent)\<rparr>
       else \<exists>m. a = Inl (PreconditionFailed m (if fst (view s key) = None then 0 else snd (view s key)))" by auto
  show "view s' = (view s)(key := fst (spec_write (text_encode t) cond (view s key)))" "good s'"
    using assms(5) a P by (auto simp: respond_def write_key_def Let_def split: if_splits)
  show "rs_status r = fst (snd (spec_write (text_encode t) cond (view s key)))"
    using assms(5) a P by (auto simp: respond_def write_key_def Let_def spec_write_def domain_handler_def problem_def split: if_splits)
  show "map_of (rs_headers r) ''ETag'' = snd (snd (spec_write (text_encode t) cond (view s key)))"
    using assms(5) a P live [OF assms(1), of key]
    by (auto simp: respond_def write_key_def Let_def spec_write_def domain_handler_def problem_def split: if_splits)
qed

lemma read_key_cell:
  assumes "good s"
  shows "respond phrase (read_key repr kc key consistency inm s) = (s,
    case view s key of
      (None, x) \<Rightarrow> domain_handler phrase (NotFound (no_key repr key))
    | (Some b, x) \<Rightarrow>
        (let headers = [(''ETag'', etag x), (''Cache-Control'', ''no-cache'')] in
         if (case inm of None \<Rightarrow> False | Some h \<Rightarrow> etag_matches h x)
         then \<lparr>rs_status = 304, rs_headers = headers, rs_body = NoBody\<rparr>
         else \<lparr>rs_status = 200, rs_headers = headers, rs_body = EntryOut key (fst (show_value b)) (snd (show_value b)) x\<rparr>))"
  using get [OF assms, of key "consistency = ''linearizable''"]
  by (auto simp: respond_def read_key_def svc_get_def Let_def split: option.splits prod.splits)

end

section \<open>The state machine provides it\<close>

text \<open>The calls of \<open>RaftCluster\<close> when the leader applies each write at once and its answer arrives.\<close>

definition store_write :: "kv_op \<Rightarrow> string \<Rightarrow> string \<Rightarrow> int \<Rightarrow> kv \<Rightarrow> kv \<times> result option" where
  "store_write p key cid seq m =
     (case lookup_session cid seq m of
        Some r \<Rightarrow> (m, Some r)
      | None \<Rightarrow> (case apply_entry (demo_entry p key cid seq) m of (m', Inr r) \<Rightarrow> (m', Some r) | (m', Inl x) \<Rightarrow> (m', None)))"

definition heard :: "('r \<Rightarrow> bool) \<Rightarrow> 'r rpc \<Rightarrow> gw_error + 'r \<times> nat" where
  "heard ok a = (case a of Reply r \<Rightarrow> if ok r then Inr (r, 0) else Inl (StoreError []) | RpcError code \<Rightarrow> Inl (StoreError code))"

definition store_calls :: "kv kv_calls" where
  "store_calls =
     \<lparr>kc_get = (\<lambda>key lin m. (m, get_part (Inr (get_read key m, 0)))),
      kc_put = (\<lambda>key v cid seq m. case store_write (OpPut v) key cid seq m of
                  (m', r) \<Rightarrow> (m', put_part (heard p_success (put_reply r [])))),
      kc_cas = (\<lambda>key v cid seq ev ea m. case gw_cas_request key v cid seq ev ea of
                  Inr (GwCas k q c n) \<Rightarrow> (case store_write (OpCas q) k c n m of
                    (m', r) \<Rightarrow> (m', cas_part (heard s_success (cas_reply r []))))
                | Inl e \<Rightarrow> (m, Inl e) | _ \<Rightarrow> (m, Inl (StoreError []))),
      kc_delete = (\<lambda>key cid seq m. case store_write OpDelete key cid seq m of
                  (m', r) \<Rightarrow> (m', delete_part (heard d_success (delete_reply r []))))\<rparr>"

definition session_of :: "kv \<Rightarrow> string \<Rightarrow> bool" where
  "session_of m cid \<longleftrightarrow> dget (sessions m) cid \<noteq> None"

lemma kv_live: "kv_ok m \<Longrightarrow> fst (cells m key) \<noteq> None \<Longrightarrow> 0 < snd (cells m key)"
  by (force simp: kv_ok_def cells_def split: option.splits)

lemma store_write_cell:
  assumes "kv_ok m" "\<not> session_of m cid"
  shows "\<exists>m'. store_write p key cid 1 m = (m', Some (snd (spec_op p (cells m key)))) \<and> kv_ok m'
    \<and> cells m' = (cells m)(key := fst (spec_op p (cells m key)))"
proof -
  let ?e = "demo_entry p key cid 1"
  from assms(2) have n: "session_result cid 1 m = None" by (simp add: session_result_def session_of_def)
  then have "lookup_session cid 1 m = None" by (simp add: lookup_session_def)
  moreover obtain m1 where "apply_op ?e m = (m1, Inr (snd (spec_op p (cells m key))))"
    "cells m1 = (cells m)(key := fst (spec_op p (cells m key)))"
    using cells_op [OF assms(1), of ?e p] by (cases "apply_op ?e m") (auto simp: demo_entry_def)
  moreover have "kv_ok (fst (apply_entry ?e m))" by (rule kv_ok_entry [OF assms(1)])
  moreover have "client_id ?e = cid" "seq_num ?e = 1" by (simp_all add: demo_entry_def)
  ultimately show ?thesis using n by (auto simp: store_write_def apply_entry_def)
qed

interpretation kv_cells: cell_store store_calls cells kv_ok session_of
proof unfold_locales
  fix m :: kv and key v cid lin ev ea and q :: cas_request
  show "kv_ok m \<Longrightarrow> fst (cells m key) \<noteq> None \<Longrightarrow> 0 < snd (cells m key)" by (rule kv_live)
  show "kc_get store_calls key lin m =
      (m, Inr (case cells m key of (None, x) \<Rightarrow> (False, [], 0) | (Some v, x) \<Rightarrow> (True, v, x)))"
    by (simp add: store_calls_def get_part_def get_read_def kv_get_def cells_def split: option.split)
  assume ok: "kv_ok m" "\<not> session_of m cid"
  note W = store_write_cell [OF ok, where key = key]
  show "\<exists>s'. kc_put store_calls key v cid 1 m = (s', Inr (snd (cells m key) + 1)) \<and> kv_ok s' \<and>
      cells s' = (cells m)(key := (Some v, snd (cells m key) + 1))"
    using W [of "OpPut v"] by (auto simp: store_calls_def put_reply_def heard_def put_part_def res_int_def dget_def)
  show "\<exists>s'. kc_delete store_calls key cid 1 m = (s', Inr (fst (cells m key) \<noteq> None)) \<and> kv_ok s' \<and>
      cells s' = (cells m)(key := (None, snd (cells m key)))"
    using W [of OpDelete] by (auto simp: store_calls_def delete_reply_def heard_def delete_part_def res_bool_def dget_def)
  assume q: "int64 ev" "q = \<lparr>cr_expected = [], cr_new = v, cr_absent = ea, cr_version = ev\<rparr>"
  show "\<exists>s'. kc_cas store_calls key v cid 1 ev ea m = (s', Inr (cas_holds q (cells m key),
          if cas_holds q (cells m key) then snd (cells m key) + 1 else if fst (cells m key) = None then 0 else snd (cells m key)))
      \<and> kv_ok s' \<and> cells s' = (cells m)(key := fst (spec_op (OpCas q) (cells m key)))"
    using W [of "OpCas q"] q
    by (auto simp: store_calls_def gw_cas_request_def cas_reply_def heard_def cas_part_def res_int_def res_bool_def
        dget_def swap_result_def split: option.splits if_splits)
qed

section \<open>Values\<close>

text \<open>How a client reads a value off an \<open>EntryOut\<close>.\<close>

definition read_value :: "unicode \<times> string \<Rightarrow> bytes option" where
  "read_value p = (if snd p = ''utf-8'' then Some (text_encode (fst p)) else b64decode (map char_of (fst p)))"

lemma read_show_value: "read_value (show_value b) = Some b"
proof (cases "text_decode b")
  case None
  have "map char_of (map of_char s :: nat list) = s" for s :: string by (simp add: comp_def)
  with None show ?thesis by (simp add: read_value_def show_value_def b64decode_encode)
next
  case (Some t)
  then show ?thesis using text_encode_decode [OF Some] by (simp add: read_value_def show_value_def)
qed

lemma show_text: "list_all code_point t \<Longrightarrow> show_value (text_encode t) = (t, ''utf-8'')"
  by (simp add: show_value_def utf8.dec_enc)

text \<open>A value of any bytes is read exactly: whoever stored it, the body of a read tells its bytes.\<close>

lemma gw_read_is_exact:
  assumes "kv_ok m" "cells m key = (Some b, x)"
    and "snd (respond phrase (read_key repr store_calls key consistency None m)) = r"
  shows "\<exists>u encoding. rs_body r = EntryOut key u encoding x \<and> read_value (u, encoding) = Some b"
  using assms(3) read_show_value [of b] unfolding kv_cells.read_key_cell [OF assms(1)]
  by (auto simp: assms(2))

section \<open>Retries\<close>

text \<open>A write is one call on the store, and an answer that depends on its result only.\<close>

fun cond_op :: "condition \<Rightarrow> bytes \<Rightarrow> kv_op" where
  "cond_op Always v = OpPut v"
| "cond_op (AtVersion x) v = OpCas \<lparr>cr_expected = [], cr_new = v, cr_absent = False, cr_version = x\<rparr>"
| "cond_op IfAbsent v = OpCas \<lparr>cr_expected = [], cr_new = v, cr_absent = True, cr_version = 0\<rparr>"

lemma write_key_store:
  fixes repr max_bytes digest key t cond k
  defines "route \<equiv> \<lambda>fresh. write_key repr store_calls max_bytes digest fresh key t (fst (cond_headers cond)) (snd (cond_headers cond)) (Some k)"
    and "call \<equiv> store_write (cond_op cond (text_encode t)) key (fst (identity digest [] (Some k) (headers_cond cond key (text_encode t)))) 1"
  assumes "int (length (text_encode t)) \<le> max_bytes" "cond_valid cond" "call m = (m1, r)"
  shows "fst (route fresh m) = m1" "call m' = (m2, r) \<Longrightarrow> snd (route fresh' m') = snd (route fresh m)"
proof -
  note P = parse_cond [OF assms(4), of repr]
  have x: "cond = AtVersion x \<Longrightarrow> int64 x \<and> \<not> x < 1" for x using assms(4) by (simp add: int64_def)
  have z: "int64 0" by (simp add: int64_def)
  note defs = route_def call_def write_key_def svc_put_def identity_def headers_cond_def store_calls_def gw_cas_request_def Let_def
  show "fst (route fresh m) = m1"
    using assms(3,5) P x z by (cases cond) (auto simp: defs split: sum.split prod.split)
  show "call m' = (m2, r) \<Longrightarrow> snd (route fresh' m') = snd (route fresh m)"
    using assms(3,5) P x z by (cases cond) (auto simp: defs split: sum.split prod.split)
qed

lemma store_write_again:
  assumes "kv_ok m" "\<not> session_of m cid" "cid \<noteq> []" "store_write p key cid 1 m = (m1, r)"
    and "card (clients fs - {cid}) < max_sessions m" "\<forall>q \<in> seqs_of cid fs. q \<le> 1"
  shows "store_write p key cid 1 (run_kv fs m1) = (run_kv fs m1, r)"
proof -
  let ?e = "demo_entry p key cid 1" and ?S = "clients fs - {cid}" and ?Q = "seqs_of cid fs"
  have e: "tracked ?e" "client_id ?e = cid" "seq_num ?e = 1" using assms(3) by (simp_all add: tracked_def demo_entry_def)
  from assms(2) have n: "session_result cid 1 m = None" by (simp add: session_result_def session_of_def)
  obtain d where d: "r = Some d" "snd (apply_entry ?e m) = Inr d" "fst (apply_entry ?e m) = m1"
    using store_write_cell [OF assms(1,2), of p key] assms(3,4) n
    by (auto simp: store_write_def lookup_session_def split: prod.splits sum.splits)
  have ok: "kv_ok m1" using kv_ok_entry [OF assms(1), of ?e] d(3) by simp
  have "max_sessions m1 = max_sessions m" using d(3) by auto
  have "remembers cid 1 d {} {} m1"
    using remembers_first [OF assms(1) _ e(1) _ d(2)] n e(2,3) d(3) assms(5) by simp
  then have "remembers cid 1 d ?S ?Q m1" by (rule remembers_mono) simp_all
  then have "remembers cid 1 d ?S ?Q (run_kv fs m1)"
    by (rule remembers_run [OF ok, rotated 2])
      (use assms(5) \<open>max_sessions m1 = max_sessions m\<close> in \<open>auto simp: clients_def seqs_of_def\<close>)
  from remembered_lookup [OF kv_ok_run [OF ok] this assms(3) _ assms(6)] show ?thesis by (simp add: store_write_def d(1))
qed

section \<open>Properties\<close>





text \<open>
  A retried write is applied once: sending the same conditional write again with the same
  idempotency key gives the same answer, success or 412, and changes nothing, whatever was written in
  between, as long as fewer other clients were active than the session table holds.
\<close>

lemma gw_retry_same_answer:
  fixes digest key t cond k
  defines "cid \<equiv> fst (identity digest [] (Some k) (headers_cond cond key (text_encode t)))"
  assumes "kv_ok m" "int (length (text_encode t)) \<le> max_bytes" "cond_valid cond" "\<not> session_of m cid"
    and "write_key repr store_calls max_bytes digest fresh key t (fst (cond_headers cond)) (snd (cond_headers cond)) (Some k) m = (m1, a)"
    and "card (clients fs - {cid}) < max_sessions m" "\<forall>q \<in> seqs_of cid fs. q \<le> 1"
  shows "write_key repr store_calls max_bytes digest fresh' key t (fst (cond_headers cond)) (snd (cond_headers cond)) (Some k)
      (run_kv fs m1) = (run_kv fs m1, a)"
proof -
  have c: "cid \<noteq> []" using identity_named unfolding cid_def by blast
  obtain m2 r where r: "store_write (cond_op cond (text_encode t)) key cid 1 m = (m2, r)" by fastforce
  note S = write_key_store [OF assms(3,4) r [unfolded cid_def], where repr = repr]
  have "m2 = m1" using S(1) [where fresh = fresh] assms(6) by simp
  with store_write_again [OF assms(2,5) c r assms(7,8)]
  have again: "store_write (cond_op cond (text_encode t)) key cid 1 (run_kv fs m1) = (run_kv fs m1, r)" by simp
  show ?thesis
    using write_key_store(1) [OF assms(3,4) again [unfolded cid_def], where repr = repr and fresh = fresh']
      S(2) [OF again [unfolded cid_def], where fresh = fresh and fresh' = fresh']
      assms(6) by (simp add: prod_eq_iff)
qed

definition demo_route :: "string \<Rightarrow> string option \<Rightarrow> string \<Rightarrow> unicode \<Rightarrow> kv \<Rightarrow> kv \<times> (gw_error + body response)" where
  "demo_route fresh idem key t = write_key id store_calls 100 (\<lambda>k q. k) fresh key t None None idem"

lemma clients_Cons:
  "clients [] = {}" "clients (e # es) = (if tracked e then insert (client_id e) (clients es) else clients es)"
  "seqs_of c [] = {}" "seqs_of c (e # es) = (if tracked e \<and> client_id e = c then insert (seq_num e) (seqs_of c es) else seqs_of c es)"
  by (auto simp: clients_def seqs_of_def)

lemma demo_route_put:
  assumes "text_encode t = v" "length v \<le> 100" "identity (\<lambda>k q. k) fresh idem (PutOf key v None False) = (cid, 1)"
    and "store_write (OpPut v) key cid 1 m = (m', Some r)"
  shows "demo_route fresh idem key t m =
    (m', Inr \<lparr>rs_status = 200, rs_headers = [(''ETag'', etag (res_int r ''version''))], rs_body = WriteOut key (res_int r ''version'')\<rparr>)"
  using assms
  by (simp add: demo_route_def write_key_def parse_if_match_def parse_create_only_def svc_put_def store_calls_def
    put_reply_def heard_def put_part_def Let_def)

lemma demo_text: "text_encode [97] = ''a''" "text_encode [98] = ''b''" "text_encode [99] = ''c''"
  by code_simp+

definition demo_cell :: "bytes \<Rightarrow> int \<Rightarrow> (string, session) dict \<Rightarrow> (string, kv_cell) dict \<Rightarrow> kv" where
  "demo_cell v n ss st = \<lparr>store = (''k'', \<lparr>c_value = v, c_version = n\<rparr>) # st, tombstones = [], sessions = ss, max_sessions = 2\<rparr>"

definition demo_session :: "string \<Rightarrow> int \<Rightarrow> string \<times> session" where
  "demo_session c n = (c, \<lparr>se_seq = 1, se_result = [(''success'', PBool True), (''version'', PInt n)]\<rparr>)"

text \<open>Four writes in a table of two sessions: a keyed one, two others, and the first again.\<close>

lemma demo_stores:
  defines "r \<equiv> \<lambda>n. Some [(''success'', PBool True), (''version'', PInt n)]"
  defines "m1 \<equiv> demo_cell ''a'' 1 [demo_session ''idem-i'' 1] []"
    and "m2 \<equiv> demo_cell ''b'' 2 [demo_session ''idem-i'' 1, demo_session ''gw-2'' 2] []"
    and "m3 \<equiv> demo_cell ''b'' 2 [demo_session ''gw-2'' 2, demo_session ''gw-3'' 1] [(''other'', \<lparr>c_value = ''c'', c_version = 1\<rparr>)]"
    and "m4 \<equiv> demo_cell ''a'' 3 [demo_session ''gw-3'' 1, demo_session ''idem-i'' 3] [(''other'', \<lparr>c_value = ''c'', c_version = 1\<rparr>)]"
  shows "store_write (OpPut ''a'') ''k'' ''idem-i'' 1 (kv_init 2) = (m1, r 1)"
    "store_write (OpPut ''b'') ''k'' ''gw-2'' 1 m1 = (m2, r 2)"
    "store_write (OpPut ''c'') ''other'' ''gw-3'' 1 m2 = (m3, r 1)"
    "store_write (OpPut ''a'') ''k'' ''idem-i'' 1 m3 = (m4, r 3)"
  unfolding r_def m1_def m2_def m3_def m4_def
  by (simp_all add: demo_cell_def demo_session_def store_write_def lookup_session_def kv_eval del: evict.simps)

lemma demo_route_first:
  "snd (demo_route ''1'' (Some ''i'') ''k'' [97] (kv_init 2)) =
     Inr \<lparr>rs_status = 200, rs_headers = [(''ETag'', etag 1)], rs_body = WriteOut ''k'' 1\<rparr>"
  by (simp add: demo_route_put [OF demo_text(1) _ _ demo_stores(1)] identity_def res_int_def dget_def)

section \<open>Limits\<close>

text \<open>
  The session table counts every request without an idempotency key as a client of its own, so other
  traffic pushes a key out of it: here, with a table of two, two other writes are enough for a retry to
  be applied a second time, over what was written since.
\<close>

lemma gw_key_forgotten:
  "snd (demo_route ''4'' (Some ''i'') ''k'' [97]
      (fst (demo_route ''3'' None ''other'' [99] (fst (demo_route ''2'' None ''k'' [98]
        (fst (demo_route ''1'' (Some ''i'') ''k'' [97] (kv_init 2)))))))) =
    Inr \<lparr>rs_status = 200, rs_headers = [(''ETag'', etag 3)], rs_body = WriteOut ''k'' 3\<rparr>"
  by (simp add: demo_route_put [OF demo_text(1) _ _ demo_stores(1)] demo_route_put [OF demo_text(2) _ _ demo_stores(2)]
    demo_route_put [OF demo_text(3) _ _ demo_stores(3)] demo_route_put [OF demo_text(1) _ _ demo_stores(4)]
    identity_def res_int_def dget_def)

text \<open>
  A version of more than 63 bits in \<open>If-Match\<close> is not a precondition that fails but an exception of the
  message's constructor: the answer is 500.
\<close>

lemma gw_huge_version:
  assumes "int (length (text_encode t)) \<le> max_bytes" "2 ^ 63 \<le> v"
  shows "rs_status (snd (respond phrase (write_key repr store_calls max_bytes digest fresh key t (Some (etag v)) None idem m))) = 500"
proof -
  have "0 \<le> v" using assms(2) by (rule order_trans [rotated]) simp
  moreover have "\<not> v < 1" "\<not> int64 v" using assms(2) by (auto simp: int64_def)
  ultimately show ?thesis using assms(1)
    by (auto simp: write_key_def parse_etag parse_create_only_def svc_put_def store_calls_def gw_cas_request_def
      respond_def domain_handler_def problem_def Let_def split: prod.split)
qed

text \<open>The leader the gateway names has the highest term of the connected nodes that call themselves leader.\<close>

lemma current_leader_highest:
  "current_leader ss = Some l \<Longrightarrow> l \<in> set ss \<and> ns_reachable l \<and> \<not> ns_isolated l \<and> ns_state l = ''leader''
    \<and> (\<forall>s \<in> set ss. ns_reachable s \<and> \<not> ns_isolated s \<and> ns_state s = ''leader'' \<longrightarrow> ns_term s \<le> ns_term l)"
proof -
  have "max_term ss = Some l \<Longrightarrow> l \<in> set ss \<and> (\<forall>s \<in> set ss. ns_term s \<le> ns_term l)" for ss
  proof (induction ss arbitrary: l)
    case (Cons s ss)
    then show ?case
      by (cases "max_term ss"; cases ss) (fastforce split: if_splits option.splits)+
  qed simp
  then show "current_leader ss = Some l \<Longrightarrow> ?thesis" unfolding current_leader_def by fastforce
qed

lemma current_leader_none:
  "current_leader ss = None \<longleftrightarrow> \<not> (\<exists>s \<in> set ss. ns_reachable s \<and> \<not> ns_isolated s \<and> ns_state s = ''leader'')"
proof -
  have "max_term ss = None \<longleftrightarrow> ss = []" for ss by (cases ss) (auto split: option.split)
  then show ?thesis by (auto simp: current_leader_def filter_empty_conv)
qed

end
