(* ===== verification/Ml_Training.thy ===== *)
theory Ml_Training
  imports Complex_Main Dist_Prelude
begin

text \<open>
  The distributed trainer: the parameter server of \<open>part4_5_compute/ml_coordinator.py\<close> and the workers
  of \<open>ml_worker.py\<close>. Floating-point numbers are modelled as reals, without rounding. \<open>files\<close> gives the
  text of a shard file, \<open>None\<close> where opening it fails; a request or response is a record of the fields
  the program sends.

  A heartbeat is one call of \<open>handle_heartbeat\<close>, which holds the coordinator's lock throughout.
\<close>

section \<open>Reading shards\<close>

text \<open>\<open>float(s)\<close> and \<open>int(s)\<close> on decimal literals: an optional sign, digits, for floats a fraction.\<close>

definition unsigned_int :: "string \<Rightarrow> nat option" where
  "unsigned_int s = (if s \<noteq> [] \<and> list_all is_digit s then Some (digits_val s) else None)"

definition py_int :: "string \<Rightarrow> exn + int" where
  "py_int s =
     (case (case s of [] \<Rightarrow> None
            | c # r \<Rightarrow> if c = CHR ''-'' then map_option (\<lambda>n. - int n) (unsigned_int r)
                      else map_option int (unsigned_int s)) of
        None \<Rightarrow> Inl (ValueError ''invalid literal for int()'')
      | Some i \<Rightarrow> Inr i)"

definition unsigned_float :: "string \<Rightarrow> real option" where
  "unsigned_float s =
     (case split_at_char (CHR ''.'') s of
        (a, None) \<Rightarrow> map_option real (unsigned_int a)
      | (a, Some b) \<Rightarrow>
          (case (unsigned_int a, unsigned_int b) of
             (Some i, Some f) \<Rightarrow> Some (real i + real f / 10 ^ length b)
           | _ \<Rightarrow> None))"

definition py_float :: "string \<Rightarrow> exn + real" where
  "py_float s =
     (case (case s of [] \<Rightarrow> None
            | c # r \<Rightarrow> if c = CHR ''-'' then map_option uminus (unsigned_float r) else unsigned_float s) of
        None \<Rightarrow> Inl (ValueError ''could not convert string to float'')
      | Some x \<Rightarrow> Inr x)"

definition blank :: "char \<Rightarrow> bool" where
  "blank c \<longleftrightarrow> c = CHR '' '' \<or> c = CHR 0x09 \<or> c = CHR 0x0A \<or> c = CHR 0x0D"

definition strip_line :: "string \<Rightarrow> string" where
  "strip_line s = rev (dropWhile blank (rev (dropWhile blank s)))"

fun floats :: "string list \<Rightarrow> exn + real list" where
  "floats [] = Inr []"
| "floats (v # vs) =
     (case py_float v of Inl e \<Rightarrow> Inl e
      | Inr x \<Rightarrow> (case floats vs of Inl e \<Rightarrow> Inl e | Inr xs \<Rightarrow> Inr (x # xs)))"

type_synonym sample = "real list \<times> int"

text \<open>One line: the features, with 1 appended for the bias, and the label.\<close>

definition parse_line :: "string \<Rightarrow> exn + sample" where
  "parse_line line =
     (let parts = split_on (CHR '','') line in
      case floats (butlast parts) of Inl e \<Rightarrow> Inl e
      | Inr xs \<Rightarrow> (case py_int (last parts) of Inl e \<Rightarrow> Inl e | Inr y \<Rightarrow> Inr (xs @ [1], y)))"

fun parse_lines :: "string list \<Rightarrow> exn + sample list" where
  "parse_lines [] = Inr []"
| "parse_lines (l # ls) =
     (if strip_line l = [] then parse_lines ls
      else (case parse_line (strip_line l) of Inl e \<Rightarrow> Inl e
            | Inr s \<Rightarrow> (case parse_lines ls of Inl e \<Rightarrow> Inl e | Inr ss \<Rightarrow> Inr (s # ss))))"

definition parse_shard :: "string \<Rightarrow> exn + sample list" where
  "parse_shard content = parse_lines (split_on (CHR 0x0A) content)"

section \<open>Messages\<close>

record heartbeat =
  hb_worker :: string
  hb_has_gradient :: bool
  hb_epoch :: int
  hb_gradient :: "real list"
  hb_count :: int

record hb_reply =
  rp_shards :: "string list"
  rp_epoch :: int
  rp_weights :: "real list"
  rp_terminate :: bool

section \<open>The coordinator\<close>

text \<open>\<open>co_kv\<close>: a store is configured; \<open>co_saved\<close>: what it holds under \<open>ml/model\<close>; \<open>co_model\<close>: the model file.\<close>

record coordinator =
  co_num_workers :: nat
  co_lr :: real
  co_max_epochs :: int
  co_shards :: "string list"
  co_dim :: nat
  co_weights :: "real list"
  co_epoch :: int
  co_slots :: "(string, nat) dict"
  co_assignments :: "(string, string list) dict"
  co_contrib :: "(string, real list \<times> int) dict"
  co_terminate :: bool
  co_kv :: bool
  co_saved :: "(real list \<times> int) option"
  co_model :: "(real list \<times> int \<times> nat) option"

definition infer_dim :: "(string \<Rightarrow> string option) \<Rightarrow> string list \<Rightarrow> nat" where
  "infer_dim files shards =
     (case shards of [] \<Rightarrow> 1
      | s # _ \<Rightarrow> (case files s of None \<Rightarrow> 1
                  | Some content \<Rightarrow>
                      (length (split_on (CHR '','') (strip_line (hd (split_on (CHR 0x0A) content)))) - 1) + 1))"

text \<open>\<open>shards\<close>: the sorted names of the shard files.\<close>

definition new_coordinator ::
  "(string \<Rightarrow> string option) \<Rightarrow> string list \<Rightarrow> nat \<Rightarrow> real \<Rightarrow> int \<Rightarrow> bool \<Rightarrow> (real list \<times> int) option \<Rightarrow> coordinator" where
  "new_coordinator files shards num_workers lr max_epochs kv saved =
     (let d = infer_dim files shards in
      \<lparr>co_num_workers = num_workers, co_lr = lr, co_max_epochs = max_epochs, co_shards = shards,
       co_dim = d, co_weights = replicate d 0, co_epoch = 0, co_slots = [], co_assignments = [],
       co_contrib = [], co_terminate = False, co_kv = kv, co_saved = saved, co_model = None\<rparr>)"

text \<open>\<open>restore\<close>; \<open>ok\<close>: the read from the store succeeds.\<close>

definition ml_restore :: "bool \<Rightarrow> coordinator \<Rightarrow> coordinator" where
  "ml_restore ok c =
     (if \<not> co_kv c \<or> \<not> ok then c
      else (case co_saved c of None \<Rightarrow> c | Some (w, e) \<Rightarrow> c\<lparr>co_weights := w, co_epoch := e\<rparr>))"

text \<open>\<open>xs[slot::n]\<close>\<close>

definition every :: "nat \<Rightarrow> nat \<Rightarrow> 'a list \<Rightarrow> 'a list" where
  "every n slot xs = map (\<lambda>i. xs ! i) (filter (\<lambda>i. slot \<le> i \<and> (i - slot) mod n = 0) [0..<length xs])"

definition contributors :: "coordinator \<Rightarrow> string list" where
  "contributors c = map fst (filter (\<lambda>(w, sh). sh \<noteq> []) (co_assignments c))"

definition checkpoint :: "bool \<Rightarrow> coordinator \<Rightarrow> coordinator" where
  "checkpoint ok c = (if co_kv c \<and> ok then c\<lparr>co_saved := Some (co_weights c, co_epoch c)\<rparr> else c)"

definition write_model :: "coordinator \<Rightarrow> coordinator" where
  "write_model c = c\<lparr>co_model := Some (co_weights c, co_epoch c, co_dim c)\<rparr>"

text \<open>The sum of the contributions whose gradient has the right length, and their number of samples.\<close>

definition add_contribution :: "nat \<Rightarrow> real list \<times> int \<Rightarrow> real list \<times> int \<Rightarrow> real list \<times> int" where
  "add_contribution d acc g =
     (if length (fst g) = d then (map (\<lambda>j. fst acc ! j + fst g ! j) [0..<d], snd acc + snd g) else acc)"

definition aggregate :: "coordinator \<Rightarrow> real list \<times> int" where
  "aggregate c = foldl (\<lambda>acc w. add_contribution (co_dim c) acc (the (dget (co_contrib c) w)))
     (replicate (co_dim c) 0, 0) (contributors c)"

text \<open>\<open>_maybe_step\<close>; \<open>ok\<close>: the checkpoint reaches the store.\<close>

definition maybe_step :: "bool \<Rightarrow> coordinator \<Rightarrow> coordinator \<times> exn option" where
  "maybe_step ok c =
     (if length (co_slots c) < co_num_workers c then (c, None)
      else if contributors c = [] \<or> \<not> list_all (\<lambda>w. dget (co_contrib c) w \<noteq> None) (contributors c) then (c, None)
      else
        (let (total, count) = aggregate c in
         if 0 < count \<and> length (co_weights c) < co_dim c then (c, Some IndexError)
         else
           (let w = (if 0 < count
                     then map (\<lambda>j. co_weights c ! j - co_lr c * (total ! j / real_of_int count)) [0..<co_dim c]
                     else co_weights c);
                c1 = checkpoint ok (c\<lparr>co_weights := w, co_epoch := co_epoch c + 1, co_contrib := []\<rparr>)
            in (if co_epoch c1 \<ge> co_max_epochs c1 then write_model (c1\<lparr>co_terminate := True\<rparr>) else c1, None))))"

definition ml_response :: "coordinator \<Rightarrow> string \<Rightarrow> hb_reply" where
  "ml_response c w = \<lparr>rp_shards = dget_or (co_assignments c) w [], rp_epoch = co_epoch c,
                      rp_weights = co_weights c, rp_terminate = co_terminate c\<rparr>"

text \<open>A new worker gets the next slot; \<open>shards[slot::0]\<close> raises.\<close>

definition ml_register :: "string \<Rightarrow> coordinator \<Rightarrow> coordinator \<times> exn option" where
  "ml_register w c =
     (if dget (co_slots c) w \<noteq> None then (c, None)
      else
        (let slot = length (co_slots c); c1 = c\<lparr>co_slots := dset (co_slots c) w slot\<rparr> in
         if co_shards c = [] then (c1\<lparr>co_assignments := dset (co_assignments c) w []\<rparr>, None)
         else if co_num_workers c = 0 then (c1, Some (ValueError ''slice step cannot be zero''))
         else (c1\<lparr>co_assignments := dset (co_assignments c) w (every (co_num_workers c) slot (co_shards c))\<rparr>, None)))"

definition ml_collect :: "heartbeat \<Rightarrow> coordinator \<Rightarrow> coordinator" where
  "ml_collect q c =
     (if hb_has_gradient q \<and> hb_epoch q = co_epoch c
      then c\<lparr>co_contrib := dsetdefault (co_contrib c) (hb_worker q) (hb_gradient q, hb_count q)\<rparr> else c)"

definition handle_heartbeat :: "bool \<Rightarrow> heartbeat \<Rightarrow> coordinator \<Rightarrow> coordinator \<times> (exn + hb_reply)" where
  "handle_heartbeat ok q c =
     (if co_terminate c then (c, Inr (ml_response c (hb_worker q)))
      else (case ml_register (hb_worker q) c of
              (c1, Some x) \<Rightarrow> (c1, Inl x)
            | (c1, None) \<Rightarrow>
                (case maybe_step ok (ml_collect q c1) of
                   (c', Some x) \<Rightarrow> (c', Inl x)
                 | (c', None) \<Rightarrow> (c', Inr (ml_response c' (hb_worker q))))))"

section \<open>Workers\<close>

definition sigmoid :: "real \<Rightarrow> real" where
  "sigmoid z = (if z < -700 then 0 else if z > 700 then 1 else 1 / (1 + exp (- z)))"

record worker =
  wk_id :: string
  wk_shards :: "string list"
  wk_data :: "sample list"
  wk_loaded :: "string set"
  wk_pending :: "(int \<times> real list \<times> int) option"
  wk_known :: int

definition new_worker :: "string \<Rightarrow> worker" where
  "new_worker i = \<lparr>wk_id = i, wk_shards = [], wk_data = [], wk_loaded = {}, wk_pending = None, wk_known = -1\<rparr>"

text \<open>\<open>_load_shards\<close>: a shard that cannot be opened is skipped; a malformed line raises.\<close>

fun load_shards :: "(string \<Rightarrow> string option) \<Rightarrow> string list \<Rightarrow> worker \<Rightarrow> exn + worker" where
  "load_shards files [] w = Inr w"
| "load_shards files (s # ss) w =
     (if s \<in> wk_loaded w then load_shards files ss w
      else (case files s of
              None \<Rightarrow> load_shards files ss w
            | Some content \<Rightarrow>
                (case parse_shard content of
                   Inl e \<Rightarrow> Inl e
                 | Inr d \<Rightarrow> load_shards files ss (w\<lparr>wk_data := wk_data w @ d, wk_loaded := insert s (wk_loaded w)\<rparr>))))"

definition dot :: "real list \<Rightarrow> real list \<Rightarrow> real" where
  "dot ws xs = sum_list (map (\<lambda>(w, x). w * x) (zip ws xs))"

fun ml_gradient :: "real list \<Rightarrow> sample list \<Rightarrow> real list \<Rightarrow> exn + real list" where
  "ml_gradient weights [] grad = Inr grad"
| "ml_gradient weights ((x, y) # data) grad =
     (let err = sigmoid (dot weights x) - real_of_int y in
      if length x < length weights then Inl IndexError
      else ml_gradient weights data (map (\<lambda>j. grad ! j + err * x ! j) [0..<length weights]))"

definition wk_gradient :: "worker \<Rightarrow> real list \<Rightarrow> exn + real list \<times> int" where
  "wk_gradient w weights =
     (case ml_gradient weights (wk_data w) (replicate (length weights) 0) of
        Inl e \<Rightarrow> Inl e | Inr g \<Rightarrow> Inr (g, int (length (wk_data w))))"

definition wk_request :: "worker \<Rightarrow> heartbeat" where
  "wk_request w =
     (case wk_pending w of
        None \<Rightarrow> \<lparr>hb_worker = wk_id w, hb_has_gradient = False, hb_epoch = -1, hb_gradient = [], hb_count = 0\<rparr>
      | Some (e, g, n) \<Rightarrow>
          \<lparr>hb_worker = wk_id w, hb_has_gradient = True, hb_epoch = e, hb_gradient = g, hb_count = n\<rparr>)"

text \<open>
  The rest of one turn of \<open>run\<close>, after the response: \<open>None\<close> where the worker exits. (If the call
  failed the worker does nothing and sends its request again.)
\<close>

definition wk_turn :: "(string \<Rightarrow> string option) \<Rightarrow> hb_reply \<Rightarrow> worker \<Rightarrow> exn + worker option" where
  "wk_turn files r w =
     (if rp_terminate r then Inr None
      else
        (case (if rp_shards r \<noteq> [] \<and> rp_shards r \<noteq> wk_shards w
               then load_shards files (rp_shards r) (w\<lparr>wk_shards := rp_shards r\<rparr>) else Inr w) of
           Inl e \<Rightarrow> Inl e
         | Inr w1 \<Rightarrow>
             if rp_weights r \<noteq> [] \<and> wk_shards w1 \<noteq> [] \<and> rp_epoch r \<noteq> wk_known w1
             then (case wk_gradient w1 (rp_weights r) of
                     Inl e \<Rightarrow> Inl e
                   | Inr (g, n) \<Rightarrow> Inr (Some (w1\<lparr>wk_pending := Some (rp_epoch r, g, n), wk_known := rp_epoch r\<rparr>)))
             else Inr (Some w1)))"

end
