(* ===== verification/Ml_Theorems.thy ===== *)
theory Ml_Theorems
  imports Ml_Training
begin

text \<open>
  Distributed training is gradient descent: whatever the order of heartbeats, losses, repetitions and
  worker restarts, the model after \<open>e\<close> epochs is the one \<open>e\<close> steps on all the data would give; and the
  training ends.
\<close>

section \<open>The reference\<close>

text \<open>The sum over all samples of the derivative by weight \<open>j\<close>, and one step on the average.\<close>

definition batch_gradient :: "sample list \<Rightarrow> real list \<Rightarrow> nat \<Rightarrow> real" where
  "batch_gradient data w j = sum_list (map (\<lambda>(x, y). (sigmoid (dot w x) - real_of_int y) * x ! j) data)"

definition descend :: "real \<Rightarrow> sample list \<Rightarrow> real list \<Rightarrow> real list" where
  "descend lr data w =
     (if data = [] then w
      else map (\<lambda>j. w ! j - lr * (batch_gradient data w j / real (length data))) [0..<length w])"

lemma length_descend [simp]: "length (descend lr data w) = length w"
  by (simp add: descend_def)

lemma length_descends [simp]: "length ((descend lr data ^^ k) w) = length w"
  by (induction k) simp_all

lemma batch_gradient_simps [simp]:
  "batch_gradient [] w j = 0"
  "batch_gradient ((x, y) # data) w j = (sigmoid (dot w x) - real_of_int y) * x ! j + batch_gradient data w j"
  "batch_gradient (d @ e) w j = batch_gradient d w j + batch_gradient e w j"
  by (simp_all add: batch_gradient_def)

lemma batch_gradient_concat: "batch_gradient (concat ds) w j = sum_list (map (\<lambda>d. batch_gradient d w j) ds)"
  by (induction ds) simp_all

text \<open>The worker's loop computes it.\<close>

lemma ml_gradient_batch:
  "ml_gradient w data g = Inr h \<Longrightarrow> length g = length w \<Longrightarrow>
    h = map (\<lambda>j. g ! j + batch_gradient data w j) [0..<length w]"
proof (induction w data g rule: ml_gradient.induct)
  case (1 w g)
  then show ?case by (auto intro: nth_equalityI)
next
  case (2 w x y data g)
  then show ?case by (auto simp: Let_def split: if_splits)
qed

lemma wk_gradient_batch:
  assumes "wk_gradient k w = Inr (g, n)"
  shows "g = map (batch_gradient (wk_data k) w) [0..<length w] \<and> n = int (length (wk_data k))"
proof -
  from assms obtain h where "ml_gradient w (wk_data k) (replicate (length w) 0) = Inr h" "g = h" "n = int (length (wk_data k))"
    by (auto simp: wk_gradient_def split: sum.splits)
  with ml_gradient_batch [OF this(1)] show ?thesis by simp
qed

section \<open>Splitting the shards\<close>

lemma every_sum:
  fixes f :: "'a \<Rightarrow> 'b :: comm_monoid_add"
  assumes "0 < n" shows "(\<Sum>i<n. sum_list (map f (every n i xs))) = sum_list (map f xs)"
proof -
  have m: "i \<le> k \<and> (k - i) mod n = 0 \<longleftrightarrow> k mod n = i" if "i < n" for i k :: nat
  proof
    assume a: "i \<le> k \<and> (k - i) mod n = 0"
    then obtain q where "k - i = n * q" by (auto elim: dvdE)
    with a have "k = i + n * q" by linarith
    with that show "k mod n = i" by simp
  next
    assume a: "k mod n = i"
    then have "k = i + n * (k div n)" by (metis add.commute div_mult_mod_eq mult.commute)
    then show "i \<le> k \<and> (k - i) mod n = 0" by (metis add_diff_cancel_left' le_add1 mod_mult_self1_is_0)
  qed
  have "sum_list (map f (every n i xs)) = (\<Sum>k<length xs. if k mod n = i then f (xs ! k) else 0)" if "i < n" for i
    using m [OF that] by (simp add: every_def comp_def sum_list_map_filter' interv_sum_list_conv_sum_set_nat atLeast0LessThan cong: if_cong)
  then have "(\<Sum>i<n. sum_list (map f (every n i xs))) = (\<Sum>i<n. \<Sum>k<length xs. if k mod n = i then f (xs ! k) else 0)"
    by (intro sum.cong) simp_all
  also have "\<dots> = (\<Sum>k<length xs. \<Sum>i<n. if k mod n = i then f (xs ! k) else 0)" by (rule sum.swap)
  also have "\<dots> = (\<Sum>k<length xs. f (xs ! k))" using assms by (intro sum.cong) (simp_all add: sum.delta)
  also have "\<dots> = sum_list (map f xs)" by (simp add: sum_list_sum_nth atLeast0LessThan)
  finally show ?thesis .
qed

lemma set_every: "set (every n i xs) \<subseteq> set xs"
  by (auto simp: every_def)

lemma distinct_every: "distinct xs \<Longrightarrow> distinct (every n i xs)"
  by (auto simp: every_def distinct_map inj_on_def nth_eq_iff_index_eq)

lemma every_Nil [simp]: "every n i [] = []"
  by (simp add: every_def)

section \<open>Loading\<close>

definition samples :: "(string \<Rightarrow> string option) \<Rightarrow> string list \<Rightarrow> sample list" where
  "samples files ss = concat (map (\<lambda>s. case files s of None \<Rightarrow> []
     | Some t \<Rightarrow> (case parse_shard t of Inl e \<Rightarrow> [] | Inr d \<Rightarrow> d)) ss)"

lemma load_shards_all:
  assumes "load_shards files ss w = Inr w'" "distinct ss" "set ss \<inter> wk_loaded w = {}" "\<forall>s \<in> set ss. files s \<noteq> None"
  shows "w' = w\<lparr>wk_data := wk_data w @ samples files ss, wk_loaded := wk_loaded w \<union> set ss\<rparr>"
  using assms
proof (induction ss arbitrary: w)
  case (Cons s ss)
  from Cons.prems obtain t d where t: "files s = Some t" "parse_shard t = Inr d" "s \<notin> wk_loaded w"
    "load_shards files ss (w\<lparr>wk_data := wk_data w @ d, wk_loaded := insert s (wk_loaded w)\<rparr>) = Inr w'"
    by (auto split: sum.splits option.splits)
  from Cons.IH [OF t(4)] Cons.prems t(1-3) show ?case by (simp add: samples_def insert_commute)
qed (simp add: samples_def)

lemma samples_append: "samples files (a @ b) = samples files a @ samples files b"
  by (simp add: samples_def)

section \<open>Aggregating\<close>

lemma foldl_contributions:
  assumes "\<forall>w \<in> set ws. length (fst (h w)) = d" "length (fst acc) = d"
  shows "length (fst (foldl (\<lambda>a w. add_contribution d a (h w)) acc ws)) = d
    \<and> (\<forall>j < d. fst (foldl (\<lambda>a w. add_contribution d a (h w)) acc ws) ! j = fst acc ! j + sum_list (map (\<lambda>w. fst (h w) ! j) ws))
    \<and> snd (foldl (\<lambda>a w. add_contribution d a (h w)) acc ws) = snd acc + sum_list (map (\<lambda>w. snd (h w)) ws)"
  using assms
proof (induction ws arbitrary: acc)
  case (Cons w ws)
  have l: "length (fst (add_contribution d acc (h w))) = d" using Cons.prems by (simp add: add_contribution_def)
  from Cons.IH [OF _ l] Cons.prems show ?case by (simp add: add_contribution_def)
qed simp

section \<open>The invariant of the coordinator\<close>

text \<open>The model after epoch \<open>e\<close> of a training that starts as \<open>c0\<close>.\<close>

definition model_at :: "(string \<Rightarrow> string option) \<Rightarrow> coordinator \<Rightarrow> int \<Rightarrow> real list" where
  "model_at files c0 e = (descend (co_lr c0) (samples files (co_shards c0)) ^^ nat (e - co_epoch c0)) (co_weights c0)"

definition contribution_of :: "(string \<Rightarrow> string option) \<Rightarrow> real list \<Rightarrow> string list \<Rightarrow> real list \<times> int" where
  "contribution_of files w ss = (map (batch_gradient (samples files ss) w) [0..<length w], int (length (samples files ss)))"

definition fresh_coordinator :: "coordinator \<Rightarrow> bool" where
  "fresh_coordinator c \<longleftrightarrow> co_slots c = [] \<and> co_assignments c = [] \<and> co_contrib c = [] \<and> \<not> co_terminate c
     \<and> length (co_weights c) = co_dim c \<and> 0 < co_num_workers c \<and> distinct (co_shards c)"

text \<open>Slots and shards are given out in the order of registration.\<close>

definition registered :: "string set \<Rightarrow> coordinator \<Rightarrow> string list \<Rightarrow> bool" where
  "registered W c ids \<longleftrightarrow> distinct ids \<and> set ids \<subseteq> W \<and> co_slots c = zip ids [0..<length ids]
     \<and> co_assignments c = map (\<lambda>i. (ids ! i, every (co_num_workers c) i (co_shards c))) [0..<length ids]"

definition same_setup :: "coordinator \<Rightarrow> coordinator \<Rightarrow> bool" where
  "same_setup c0 c \<longleftrightarrow> co_num_workers c = co_num_workers c0 \<and> co_lr c = co_lr c0 \<and> co_max_epochs c = co_max_epochs c0
     \<and> co_shards c = co_shards c0 \<and> co_dim c = co_dim c0"

text \<open>What the store holds is what it held at the start, or the model after some epoch since.\<close>

definition saved_ok :: "(string \<Rightarrow> string option) \<Rightarrow> coordinator \<Rightarrow> coordinator \<Rightarrow> bool" where
  "saved_ok files c0 c \<longleftrightarrow> co_saved c = co_saved c0 \<or> (\<exists>e \<ge> co_epoch c0. co_saved c = Some (model_at files c0 e, e))"

definition coord_inv :: "(string \<Rightarrow> string option) \<Rightarrow> string set \<Rightarrow> coordinator \<Rightarrow> coordinator \<Rightarrow> bool" where
  "coord_inv files W c0 c \<longleftrightarrow> same_setup c0 c \<and> co_epoch c0 \<le> co_epoch c \<and> co_weights c = model_at files c0 (co_epoch c)
     \<and> (\<exists>ids. registered W c ids) \<and> saved_ok files c0 c
     \<and> (\<forall>w g. dget (co_contrib c) w = Some g \<longrightarrow>
          (\<exists>ss. dget (co_assignments c) w = Some ss \<and> g = contribution_of files (model_at files c0 (co_epoch c)) ss))"

lemma length_model_at [simp]: "length (model_at files c0 e) = length (co_weights c0)"
  by (simp add: model_at_def)

lemma model_at_start [simp]: "model_at files c0 (co_epoch c0) = co_weights c0"
  by (simp add: model_at_def)

lemma model_at_next: "co_epoch c0 \<le> e \<Longrightarrow>
    model_at files c0 (e + 1) = descend (co_lr c0) (samples files (co_shards c0)) (model_at files c0 e)"
proof -
  assume "co_epoch c0 \<le> e"
  then have "nat (e + 1 - co_epoch c0) = Suc (nat (e - co_epoch c0))" by linarith
  then show ?thesis by (simp add: model_at_def)
qed

lemma coord_contrib:
  "coord_inv files W c0 c \<Longrightarrow> dget (co_contrib c) w = Some g \<Longrightarrow>
    \<exists>ss. dget (co_assignments c) w = Some ss \<and> g = contribution_of files (model_at files c0 (co_epoch c)) ss"
  unfolding coord_inv_def by blast

lemma coord_invI:
  assumes "same_setup c0 c" "co_epoch c0 \<le> co_epoch c" "co_weights c = model_at files c0 (co_epoch c)" "registered W c ids"
    and "saved_ok files c0 c"
    and "\<And>w g. dget (co_contrib c) w = Some g \<Longrightarrow>
      \<exists>ss. dget (co_assignments c) w = Some ss \<and> g = contribution_of files (model_at files c0 (co_epoch c)) ss"
  shows "coord_inv files W c0 c"
  using assms unfolding coord_inv_def by blast

lemma registered_assigned:
  assumes "registered W c ids"
  shows "dget (co_assignments c) w = Some ss \<longleftrightarrow> (\<exists>i < length ids. w = ids ! i \<and> ss = every (co_num_workers c) i (co_shards c))"
proof -
  let ?as = "map (\<lambda>i. (ids ! i, every (co_num_workers c) i (co_shards c))) [0..<length ids]"
  have d: "distinct (map fst ?as)" using assms by (simp add: comp_def registered_def map_nth)
  show ?thesis using assms map_of_eq_Some_iff [OF d] by (auto simp: registered_def dget_def)
qed

lemma registered_slot:
  assumes "registered W c ids"
  shows "dget (co_slots c) w = None \<longleftrightarrow> w \<notin> set ids" "length (co_slots c) = length ids"
  using assms by (simp_all add: registered_def dget_def map_of_zip_is_None)

lemma registered_full:
  assumes "registered W c ids" "finite W" "card W \<le> n" "n \<le> length ids"
  shows "length ids = n" "set ids = W"
proof -
  from assms(1) have c: "card (set ids) = length ids" "set ids \<subseteq> W" by (simp_all add: registered_def distinct_card)
  with card_mono [OF assms(2) c(2)] assms(3,4) show "length ids = n" by linarith
  with c assms(2,3) show "set ids = W" by (metis card_seteq)
qed

lemma int_lengths: "int (sum_list (map (\<lambda>s. length (f s)) ss)) = sum_list (map (\<lambda>s. int (length (f s))) ss)"
  by (induction ss) simp_all

text \<open>With all workers registered and heard, the sum is the one over all the data.\<close>

lemma aggregate_all:
  assumes inv: "coord_inv files W c0 c" and c0: "fresh_coordinator c0" and W: "finite W" "card W \<le> co_num_workers c0"
    and full: "co_num_workers c \<le> length (co_slots c)" "list_all (\<lambda>w. dget (co_contrib c) w \<noteq> None) (contributors c)"
  shows "length (fst (aggregate c)) = co_dim c"
    and "j < co_dim c \<Longrightarrow> fst (aggregate c) ! j = batch_gradient (samples files (co_shards c)) (co_weights c) j"
    and "snd (aggregate c) = int (length (samples files (co_shards c)))"
proof -
  let ?n = "co_num_workers c" and ?sh = "co_shards c" and ?w = "co_weights c" and ?h = "\<lambda>w. the (dget (co_contrib c) w)"
  let ?read = "\<lambda>s. case files s of None \<Rightarrow> [] | Some t \<Rightarrow> (case parse_shard t of Inl e \<Rightarrow> [] | Inr d \<Rightarrow> d)"
  from inv obtain ids where ids: "registered W c ids" by (auto simp: coord_inv_def)
  have n: "?n = co_num_workers c0" "0 < ?n" "length ?w = co_dim c"
    using inv c0 by (simp_all add: coord_inv_def same_setup_def fresh_coordinator_def)
  have len: "length ids = ?n"
    by (rule registered_full(1) [OF ids W(1)]) (use W(2) n full(1) registered_slot(2) [OF ids] in simp_all)
  let ?cs = "filter (\<lambda>i. every ?n i ?sh \<noteq> []) [0..<?n]"
  have cs: "contributors c = map (\<lambda>i. ids ! i) ?cs"
    using ids len by (simp add: contributors_def registered_def filter_map comp_def)
  have h: "?h (ids ! i) = contribution_of files ?w (every ?n i ?sh)" if "i \<in> set ?cs" for i
  proof -
    from that full(2) obtain g where g: "dget (co_contrib c) (ids ! i) = Some g" by (auto simp: cs list_all_iff)
    have "co_weights c = model_at files c0 (co_epoch c)" using inv by (simp add: coord_inv_def)
    with coord_contrib [OF inv g] obtain ss where "dget (co_assignments c) (ids ! i) = Some ss" "g = contribution_of files ?w ss"
      by auto
    moreover have "dget (co_assignments c) (ids ! i) = Some (every ?n i ?sh)"
      using registered_assigned [OF ids] that len by auto
    ultimately show ?thesis using g by simp
  qed
  have l: "\<forall>w \<in> set (contributors c). length (fst (?h w)) = co_dim c" using h n by (auto simp: cs contribution_of_def)
  have sum: "sum_list (map (\<lambda>i. f (every ?n i ?sh)) ?cs) = sum_list (map g ?sh)"
    if "\<And>ss. f ss = sum_list (map g ss)" for f :: "string list \<Rightarrow> 'b :: comm_monoid_add" and g
  proof -
    have "sum_list (map (\<lambda>i. f (every ?n i ?sh)) ?cs) = (\<Sum>i<?n. if every ?n i ?sh \<noteq> [] then f (every ?n i ?sh) else 0)"
      by (simp add: sum_list_map_filter' interv_sum_list_conv_sum_set_nat atLeast0LessThan)
    also have "\<dots> = (\<Sum>i<?n. sum_list (map g (every ?n i ?sh)))" using that by (intro sum.cong) auto
    also have "\<dots> = sum_list (map g ?sh)" by (rule every_sum [OF n(2)])
    finally show ?thesis .
  qed
  note F = foldl_contributions [OF l, of "(replicate (co_dim c) 0, 0)", folded aggregate_def]
  show "length (fst (aggregate c)) = co_dim c" using F by simp
  show "fst (aggregate c) ! j = batch_gradient (samples files ?sh) ?w j" if j: "j < co_dim c"
  proof -
    have "fst (aggregate c) ! j = sum_list (map (\<lambda>i. fst (?h (ids ! i)) ! j) ?cs)" using F j by (simp add: cs comp_def)
    also have "\<dots> = sum_list (map (\<lambda>i. batch_gradient (samples files (every ?n i ?sh)) ?w j) ?cs)"
      using h j n by (intro arg_cong [where f = sum_list] map_cong) (simp_all add: contribution_of_def)
    also have "\<dots> = sum_list (map (\<lambda>s. batch_gradient (?read s) ?w j) ?sh)"
      by (rule sum) (simp add: samples_def batch_gradient_concat comp_def)
    finally show ?thesis by (simp add: samples_def batch_gradient_concat comp_def)
  qed
  have "snd (aggregate c) = sum_list (map (\<lambda>i. snd (?h (ids ! i))) ?cs)" using F by (simp add: cs comp_def)
  also have "\<dots> = sum_list (map (\<lambda>i. int (length (samples files (every ?n i ?sh)))) ?cs)"
    using h by (intro arg_cong [where f = sum_list] map_cong) (simp_all add: contribution_of_def)
  also have "\<dots> = sum_list (map (\<lambda>s. int (length (?read s))) ?sh)"
    by (rule sum) (simp add: samples_def length_concat comp_def int_lengths)
  finally show "snd (aggregate c) = int (length (samples files ?sh))"
    by (simp add: samples_def length_concat comp_def int_lengths)
qed

section \<open>A heartbeat keeps it\<close>

lemma register_inv:
  assumes "coord_inv files W c0 c" "fresh_coordinator c0" "w \<in> W"
  shows "\<exists>c1. ml_register w c = (c1, None) \<and> coord_inv files W c0 c1 \<and> co_terminate c1 = co_terminate c
    \<and> co_epoch c1 = co_epoch c \<and> dget (co_assignments c1) w \<noteq> None
    \<and> (\<forall>v ss. dget (co_assignments c) v = Some ss \<longrightarrow> dget (co_assignments c1) v = Some ss)"
proof -
  from assms(1) obtain ids where ids: "registered W c ids" by (auto simp: coord_inv_def)
  show ?thesis
  proof (cases "w \<in> set ids")
    case True
    then have "dget (co_slots c) w \<noteq> None" using registered_slot(1) [OF ids] by simp
    moreover from True obtain i where "i < length ids" "w = ids ! i" by (auto simp: in_set_conv_nth)
    ultimately show ?thesis using assms(1) registered_assigned [OF ids, of w] by (auto simp: ml_register_def)
  next
    case False
    let ?new = "every (co_num_workers c) (length ids) (co_shards c)"
    let ?c1 = "c\<lparr>co_slots := dset (co_slots c) w (length ids), co_assignments := dset (co_assignments c) w ?new\<rparr>"
    have nw: "dget (co_slots c) w = None" using registered_slot(1) [OF ids] False by simp
    have na: "dget (co_assignments c) w = None" 
    proof (rule ccontr)
      assume "dget (co_assignments c) w \<noteq> None"
      then obtain ss where "dget (co_assignments c) w = Some ss" by blast
      with registered_assigned [OF ids, of w ss] False show False by auto
    qed
    have n: "0 < co_num_workers c" using assms(1,2) by (simp add: coord_inv_def same_setup_def fresh_coordinator_def)
    have "ml_register w c = (?c1, None)" using nw n registered_slot(2) [OF ids] by (simp add: ml_register_def Let_def)
    moreover have "registered W ?c1 (ids @ [w])"
      using ids False assms(3) nw na
      by (auto simp: registered_def dset_absent nth_append intro!: map_cong)
    moreover have "coord_inv files W c0 ?c1"
    proof -
      have "\<exists>ss. dget (co_assignments ?c1) v = Some ss \<and> g = contribution_of files (model_at files c0 (co_epoch ?c1)) ss"
        if "dget (co_contrib ?c1) v = Some g" for v g
        using coord_contrib [OF assms(1), of v g] that na by (cases "v = w") auto
      moreover have "same_setup c0 ?c1" "co_epoch c0 \<le> co_epoch ?c1" "co_weights ?c1 = model_at files c0 (co_epoch ?c1)"
        "saved_ok files c0 ?c1"
        using assms(1) by (simp_all add: coord_inv_def same_setup_def saved_ok_def)
      ultimately show ?thesis using coord_invI \<open>registered W ?c1 (ids @ [w])\<close> by blast
    qed
    ultimately show ?thesis using na by auto
  qed
qed

lemma collect_inv:
  assumes "coord_inv files W c0 c"
    and "hb_has_gradient q \<Longrightarrow> \<exists>ss. dget (co_assignments c) (hb_worker q) = Some ss
      \<and> (hb_gradient q, hb_count q) = contribution_of files (model_at files c0 (hb_epoch q)) ss"
  shows "coord_inv files W c0 (ml_collect q c)"
proof -
  have "\<exists>ss. dget (co_assignments (ml_collect q c)) v = Some ss \<and> g = contribution_of files (model_at files c0 (co_epoch (ml_collect q c))) ss"
    if "dget (co_contrib (ml_collect q c)) v = Some g" for v g
    using that assms(2) coord_contrib [OF assms(1), of v g] by (auto simp: ml_collect_def split: if_splits option.splits)
  moreover have "same_setup c0 (ml_collect q c) = same_setup c0 c" "registered W (ml_collect q c) = registered W c"
    "co_epoch (ml_collect q c) = co_epoch c" "co_weights (ml_collect q c) = co_weights c"
    "saved_ok files c0 (ml_collect q c) = saved_ok files c0 c"
    by (simp_all add: ml_collect_def same_setup_def registered_def saved_ok_def fun_eq_iff)
  ultimately show ?thesis using assms(1) unfolding coord_inv_def by auto
qed

text \<open>Either nothing happens, or all contributions are in and one step on all the data is made.\<close>

lemma step_cases:
  assumes "coord_inv files W c0 c" "fresh_coordinator c0" "finite W" "card W \<le> co_num_workers c0"
  shows "maybe_step ok c = (c, None)
      \<and> (length (co_slots c) < co_num_workers c \<or> contributors c = [] \<or> \<not> list_all (\<lambda>w. dget (co_contrib c) w \<noteq> None) (contributors c))
    \<or> (\<exists>c'. maybe_step ok c = (c', None) \<and> co_weights c' = model_at files c0 (co_epoch c + 1) \<and> co_epoch c' = co_epoch c + 1
        \<and> saved_ok files c0 c' \<and> co_contrib c' = [] \<and> co_slots c' = co_slots c \<and> co_assignments c' = co_assignments c \<and> same_setup c c'
        \<and> co_terminate c' = (co_terminate c \<or> co_epoch c' \<ge> co_max_epochs c'))"
proof (cases "length (co_slots c) < co_num_workers c \<or> contributors c = [] \<or> \<not> list_all (\<lambda>w. dget (co_contrib c) w \<noteq> None) (contributors c)")
  case True
  then show ?thesis by (auto simp: maybe_step_def)
next
  case False
  then have full: "co_num_workers c \<le> length (co_slots c)" "list_all (\<lambda>w. dget (co_contrib c) w \<noteq> None) (contributors c)" by auto
  note A = aggregate_all [OF assms full]
  obtain total count where tc: "aggregate c = (total, count)" by fastforce
  let ?d = "samples files (co_shards c)"
  let ?w = "if 0 < count then map (\<lambda>j. co_weights c ! j - co_lr c * (total ! j / real_of_int count)) [0..<co_dim c] else co_weights c"
  have e: "length (co_weights c) = co_dim c" "co_lr c = co_lr c0" "co_shards c = co_shards c0"
      "co_weights c = model_at files c0 (co_epoch c)" "co_epoch c0 \<le> co_epoch c"
    using assms(1,2) by (simp_all add: coord_inv_def same_setup_def fresh_coordinator_def)
  have "?w = descend (co_lr c) ?d (co_weights c)"
    using A tc e(1) by (auto simp: descend_def)
  then have w: "?w = model_at files c0 (co_epoch c + 1)" using model_at_next [OF e(5), of files] e by simp
  let ?c1 = "checkpoint ok (c\<lparr>co_weights := ?w, co_epoch := co_epoch c + 1, co_contrib := []\<rparr>)"
  have s: "saved_ok files c0 ?c1" using assms(1) e(5) w by (auto simp: saved_ok_def checkpoint_def coord_inv_def)
  let ?c' = "if co_epoch ?c1 \<ge> co_max_epochs ?c1 then write_model (?c1\<lparr>co_terminate := True\<rparr>) else ?c1"
  have "maybe_step ok c = (?c', None)" using False tc e(1) by (simp add: maybe_step_def Let_def)
  moreover have "saved_ok files c0 ?c'" using s by (simp add: saved_ok_def write_model_def)
  ultimately show ?thesis using w by (intro disjI2 exI [of _ ?c']) (simp add: checkpoint_def write_model_def same_setup_def)
qed

lemma heartbeat_inv:
  assumes "coord_inv files W c0 c" "fresh_coordinator c0" "finite W" "card W \<le> co_num_workers c0" "hb_worker q \<in> W"
    and "hb_has_gradient q \<Longrightarrow> \<exists>ss. dget (co_assignments c) (hb_worker q) = Some ss
      \<and> (hb_gradient q, hb_count q) = contribution_of files (model_at files c0 (hb_epoch q)) ss"
  shows "\<exists>c' r. handle_heartbeat ok q c = (c', Inr r) \<and> coord_inv files W c0 c'
    \<and> (\<forall>v ss. dget (co_assignments c) v = Some ss \<longrightarrow> dget (co_assignments c') v = Some ss)
    \<and> (rp_terminate r \<or> dget (co_assignments c') (hb_worker q) = Some (rp_shards r) \<and> rp_weights r = model_at files c0 (rp_epoch r))"
proof (cases "co_terminate c")
  case True
  with assms(1) show ?thesis by (simp add: handle_heartbeat_def ml_response_def)
next
  case False
  from register_inv [OF assms(1,2,5)] obtain c1 where c1: "ml_register (hb_worker q) c = (c1, None)" "coord_inv files W c0 c1"
    "dget (co_assignments c1) (hb_worker q) \<noteq> None" "\<forall>v ss. dget (co_assignments c) v = Some ss \<longrightarrow> dget (co_assignments c1) v = Some ss"
    by blast
  let ?c2 = "ml_collect q c1"
  have c2: "coord_inv files W c0 ?c2" by (rule collect_inv [OF c1(2)]) (use assms(6) c1(4) in blast)
  have a2: "co_assignments ?c2 = co_assignments c1" by (simp add: ml_collect_def)
  have step: "\<exists>c'. maybe_step ok ?c2 = (c', None) \<and> coord_inv files W c0 c' \<and> co_assignments c' = co_assignments ?c2"
    using step_cases [OF c2 assms(2-4), of ok]
  proof (elim disjE exE conjE)
    fix c'
    assume s: "maybe_step ok ?c2 = (c', None)" "co_weights c' = model_at files c0 (co_epoch ?c2 + 1)" "co_epoch c' = co_epoch ?c2 + 1"
      "saved_ok files c0 c'" "co_contrib c' = []" "co_slots c' = co_slots ?c2" "co_assignments c' = co_assignments ?c2" "same_setup ?c2 c'"
    then have "registered W c' = registered W ?c2" by (simp add: registered_def same_setup_def fun_eq_iff)
    with s c2 have "coord_inv files W c0 c'" unfolding coord_inv_def by (auto simp: same_setup_def)
    with s show ?thesis by blast
  qed (use c2 in auto)
  then obtain c' where c': "maybe_step ok ?c2 = (c', None)" "coord_inv files W c0 c'" "co_assignments c' = co_assignments c1" using a2 by auto
  have "co_weights c' = model_at files c0 (co_epoch c')" using c'(2) by (simp add: coord_inv_def)
  with False c1 c' show ?thesis by (auto simp: handle_heartbeat_def ml_response_def dget_or_def split: option.splits)
qed

section \<open>The system\<close>

text \<open>
  A coordinator and any number of worker processes. A request is sent once or more; each time it is
  served its reply may reach the worker that sent it (then or late) or get lost. A worker process may
  end or crash at any time and be started again under any of the names \<open>W\<close>, several under one name.
\<close>

record ml_system =
  sy_coord :: coordinator
  sy_workers :: "nat \<Rightarrow> worker"
  sy_sent :: "heartbeat set"
  sy_replies :: "(heartbeat \<times> hb_reply) set"

inductive ml_step :: "(string \<Rightarrow> string option) \<Rightarrow> string set \<Rightarrow> ml_system \<Rightarrow> ml_system \<Rightarrow> bool" for files W where
  ml_send: "ml_step files W s (s\<lparr>sy_sent := insert (wk_request (sy_workers s i)) (sy_sent s)\<rparr>)"
| ml_serve: "q \<in> sy_sent s \<Longrightarrow> handle_heartbeat ok q (sy_coord s) = (c', Inr r) \<Longrightarrow>
    ml_step files W s (s\<lparr>sy_coord := c', sy_replies := insert (q, r) (sy_replies s)\<rparr>)"
| ml_fail: "q \<in> sy_sent s \<Longrightarrow> handle_heartbeat ok q (sy_coord s) = (c', Inl x) \<Longrightarrow> ml_step files W s (s\<lparr>sy_coord := c'\<rparr>)"
| ml_receive: "(wk_request (sy_workers s i), r) \<in> sy_replies s \<Longrightarrow> wk_turn files r (sy_workers s i) = Inr (Some w) \<Longrightarrow>
    ml_step files W s (s\<lparr>sy_workers := (sy_workers s)(i := w)\<rparr>)"
| ml_restart: "w \<in> W \<Longrightarrow> ml_step files W s (s\<lparr>sy_workers := (sy_workers s)(i := new_worker w)\<rparr>)"

definition ml_start :: "string set \<Rightarrow> coordinator \<Rightarrow> ml_system \<Rightarrow> bool" where
  "ml_start W c0 s \<longleftrightarrow> sy_coord s = c0 \<and> (\<forall>i. \<exists>w \<in> W. sy_workers s i = new_worker w) \<and> sy_sent s = {} \<and> sy_replies s = {}"

text \<open>What the workers know, relative to the coordinator \<open>c\<close>.\<close>

definition good_pending :: "(string \<Rightarrow> string option) \<Rightarrow> coordinator \<Rightarrow> coordinator \<Rightarrow> string \<Rightarrow> int \<Rightarrow> real list \<times> int \<Rightarrow> bool" where
  "good_pending files c0 c w e g \<longleftrightarrow>
     (\<exists>ss. dget (co_assignments c) w = Some ss \<and> g = contribution_of files (model_at files c0 e) ss)"

definition good_worker :: "(string \<Rightarrow> string option) \<Rightarrow> string set \<Rightarrow> coordinator \<Rightarrow> coordinator \<Rightarrow> worker \<Rightarrow> bool" where
  "good_worker files W c0 c k \<longleftrightarrow> wk_id k \<in> W
     \<and> (wk_shards k = [] \<and> wk_data k = [] \<and> wk_loaded k = {}
        \<or> dget (co_assignments c) (wk_id k) = Some (wk_shards k) \<and> wk_data k = samples files (wk_shards k))
     \<and> (\<forall>e g. wk_pending k = Some (e, g) \<longrightarrow> good_pending files c0 c (wk_id k) e g)"

definition good_request :: "(string \<Rightarrow> string option) \<Rightarrow> string set \<Rightarrow> coordinator \<Rightarrow> coordinator \<Rightarrow> heartbeat \<Rightarrow> bool" where
  "good_request files W c0 c q \<longleftrightarrow> hb_worker q \<in> W
     \<and> (hb_has_gradient q \<longrightarrow> good_pending files c0 c (hb_worker q) (hb_epoch q) (hb_gradient q, hb_count q))"

definition good_reply :: "(string \<Rightarrow> string option) \<Rightarrow> coordinator \<Rightarrow> coordinator \<Rightarrow> string \<Rightarrow> hb_reply \<Rightarrow> bool" where
  "good_reply files c0 c w r \<longleftrightarrow> rp_terminate r
     \<or> dget (co_assignments c) w = Some (rp_shards r) \<and> rp_weights r = model_at files c0 (rp_epoch r)"

definition sys_inv :: "(string \<Rightarrow> string option) \<Rightarrow> string set \<Rightarrow> coordinator \<Rightarrow> ml_system \<Rightarrow> bool" where
  "sys_inv files W c0 s \<longleftrightarrow> coord_inv files W c0 (sy_coord s)
     \<and> (\<forall>i. good_worker files W c0 (sy_coord s) (sy_workers s i))
     \<and> (\<forall>q \<in> sy_sent s. good_request files W c0 (sy_coord s) q)
     \<and> (\<forall>(q, r) \<in> sy_replies s. good_reply files c0 (sy_coord s) (hb_worker q) r)"

text \<open>Assignments are only added, so what is known stays true.\<close>

definition grows :: "coordinator \<Rightarrow> coordinator \<Rightarrow> bool" where
  "grows c c' \<longleftrightarrow> (\<forall>v ss. dget (co_assignments c) v = Some ss \<longrightarrow> dget (co_assignments c') v = Some ss)"

lemma good_mono:
  assumes "grows c c'"
  shows "good_pending files c0 c w e g \<Longrightarrow> good_pending files c0 c' w e g"
    and "good_worker files W c0 c k \<Longrightarrow> good_worker files W c0 c' k"
    and "good_request files W c0 c q \<Longrightarrow> good_request files W c0 c' q"
    and "good_reply files c0 c v r \<Longrightarrow> good_reply files c0 c' v r"
proof -
  show P: "good_pending files c0 c w e g \<Longrightarrow> good_pending files c0 c' w e g" for w e g
    using assms unfolding good_pending_def grows_def by blast
  show "good_worker files W c0 c k \<Longrightarrow> good_worker files W c0 c' k"
    using assms P unfolding good_worker_def grows_def by blast
  show "good_request files W c0 c q \<Longrightarrow> good_request files W c0 c' q" using P unfolding good_request_def by blast
  show "good_reply files c0 c v r \<Longrightarrow> good_reply files c0 c' v r" using assms unfolding good_reply_def grows_def by blast
qed

lemma good_new [simp]: "w \<in> W \<Longrightarrow> good_worker files W c0 c (new_worker w)"
  by (simp add: good_worker_def new_worker_def)

lemma request_good: "good_worker files W c0 c k \<Longrightarrow> good_request files W c0 c (wk_request k)"
  by (auto simp: good_worker_def good_request_def wk_request_def split: option.splits)

lemma turn_good:
  assumes "good_worker files W c0 c k" "good_reply files c0 c (wk_id k) r" "coord_inv files W c0 c" "fresh_coordinator c0"
    and "wk_turn files r k = Inr (Some k')" "\<forall>s \<in> set (co_shards c0). files s \<noteq> None"
  shows "good_worker files W c0 c k'"
proof -
  from assms(5) have t: "\<not> rp_terminate r" by (auto simp: wk_turn_def)
  with assms(2) have r: "dget (co_assignments c) (wk_id k) = Some (rp_shards r)" "rp_weights r = model_at files c0 (rp_epoch r)"
    by (auto simp: good_reply_def)
  from assms(3) obtain ids where ids: "registered W c ids" "co_shards c = co_shards c0" by (auto simp: coord_inv_def same_setup_def)
  from registered_assigned [OF ids(1)] r(1) obtain i where i: "rp_shards r = every (co_num_workers c) i (co_shards c0)"
    using ids(2) by auto
  have d: "distinct (rp_shards r)"
    unfolding i by (rule distinct_every) (use assms(4) in \<open>simp add: fresh_coordinator_def\<close>)
  have "set (rp_shards r) \<subseteq> set (co_shards c0)" unfolding i by (rule set_every)
  with assms(6) have f: "\<forall>s \<in> set (rp_shards r). files s \<noteq> None" by blast
  let ?load = "if rp_shards r \<noteq> [] \<and> rp_shards r \<noteq> wk_shards k
     then load_shards files (rp_shards r) (k\<lparr>wk_shards := rp_shards r\<rparr>) else Inr k"
  from assms(5) t obtain k1 where k1: "?load = Inr k1" by (auto simp: wk_turn_def split: sum.splits)
  have id: "wk_id k1 = wk_id k" "wk_pending k1 = wk_pending k" "good_worker files W c0 c k1"
    "wk_shards k1 \<noteq> [] \<Longrightarrow> wk_shards k1 = rp_shards r \<and> wk_data k1 = samples files (rp_shards r)"
  proof -
    have "wk_id k1 = wk_id k \<and> wk_pending k1 = wk_pending k \<and> good_worker files W c0 c k1
      \<and> (wk_shards k1 \<noteq> [] \<longrightarrow> wk_shards k1 = rp_shards r \<and> wk_data k1 = samples files (rp_shards r))"
    proof (cases "rp_shards r \<noteq> [] \<and> rp_shards r \<noteq> wk_shards k")
      case True
      with assms(1) r(1) have "wk_shards k = []" "wk_data k = []" "wk_loaded k = {}" by (auto simp: good_worker_def)
      with load_shards_all [of files "rp_shards r" "k\<lparr>wk_shards := rp_shards r\<rparr>" k1] True k1 d f
      have "k1 = k\<lparr>wk_shards := rp_shards r, wk_data := samples files (rp_shards r), wk_loaded := set (rp_shards r)\<rparr>" by simp
      with assms(1) r(1) show ?thesis by (simp add: good_worker_def)
    next
      case False
      with k1 have "k1 = k" by (auto split: if_splits)
      with assms(1) r(1) show ?thesis by (auto simp: good_worker_def)
    qed
    then show "wk_id k1 = wk_id k" "wk_pending k1 = wk_pending k" "good_worker files W c0 c k1"
      "wk_shards k1 \<noteq> [] \<Longrightarrow> wk_shards k1 = rp_shards r \<and> wk_data k1 = samples files (rp_shards r)" by blast+
  qed
  show ?thesis
  proof (cases "rp_weights r \<noteq> [] \<and> wk_shards k1 \<noteq> [] \<and> rp_epoch r \<noteq> wk_known k1")
    case False
    with assms(5) t k1 id(3) show ?thesis by (simp add: wk_turn_def)
  next
    case True
    with assms(5) t k1 obtain g n where g: "wk_gradient k1 (rp_weights r) = Inr (g, n)"
      "k' = k1\<lparr>wk_pending := Some (rp_epoch r, g, n), wk_known := rp_epoch r\<rparr>"
      by (auto simp: wk_turn_def split: sum.splits)
    have "(g, n) = contribution_of files (model_at files c0 (rp_epoch r)) (rp_shards r)"
      using wk_gradient_batch [OF g(1)] id(4) True r(2) by (simp add: contribution_of_def)
    with id r(1) g(2) show ?thesis by (auto simp: good_worker_def good_pending_def)
  qed
qed

lemma start_inv: "ml_start W c0 s \<Longrightarrow> fresh_coordinator c0 \<Longrightarrow> sys_inv files W c0 s"
proof -
  assume s: "ml_start W c0 s" and c0: "fresh_coordinator c0"
  have "registered W c0 []" using c0 by (simp add: registered_def fresh_coordinator_def)
  then have "coord_inv files W c0 c0" using c0 by (auto simp: coord_inv_def same_setup_def fresh_coordinator_def saved_ok_def)
  moreover have "good_worker files W c0 c0 (sy_workers s i)" for i
  proof -
    from s have "\<exists>w \<in> W. sy_workers s i = new_worker w" by (simp add: ml_start_def)
    then obtain w where "w \<in> W" "sy_workers s i = new_worker w" by blast
    then show ?thesis by simp
  qed
  ultimately show ?thesis using s by (simp add: sys_inv_def ml_start_def)
qed

lemma step_inv:
  assumes "ml_step files W s s'" "sys_inv files W c0 s" "fresh_coordinator c0" "finite W" "card W \<le> co_num_workers c0"
    and "\<forall>s \<in> set (co_shards c0). files s \<noteq> None"
  shows "sys_inv files W c0 s'"
proof -
  have H: "\<exists>c' r. handle_heartbeat ok q (sy_coord s) = (c', Inr r) \<and> coord_inv files W c0 c' \<and> grows (sy_coord s) c'
      \<and> good_reply files c0 c' (hb_worker q) r" if "q \<in> sy_sent s" for q ok
    using heartbeat_inv [of files W c0 "sy_coord s" q ok] assms(2-5) that
    by (fastforce simp: sys_inv_def good_request_def good_pending_def grows_def good_reply_def)
  from assms(1) show ?thesis
  proof cases
    case (ml_send i)
    with assms(2) show ?thesis by (auto simp: sys_inv_def intro: request_good)
  next
    case (ml_serve q ok c' r)
    with H [of q ok] have "coord_inv files W c0 c'" "grows (sy_coord s) c'" "good_reply files c0 c' (hb_worker q) r" by auto
    with ml_serve assms(2) show ?thesis by (auto simp: sys_inv_def intro: good_mono)
  next
    case (ml_fail q ok c' x)
    with H [of q ok] show ?thesis by auto
  next
    case (ml_receive i r w)
    have "hb_worker (wk_request (sy_workers s i)) = wk_id (sy_workers s i)" by (simp add: wk_request_def split: option.split)
    with ml_receive assms(2) have "good_reply files c0 (sy_coord s) (wk_id (sy_workers s i)) r" by (fastforce simp: sys_inv_def)
    from turn_good [OF _ this _ assms(3) ml_receive(3) assms(6)] assms(2) ml_receive(1) show ?thesis by (auto simp: sys_inv_def)
  next
    case (ml_restart w i)
    with assms(2) show ?thesis by (auto simp: sys_inv_def)
  qed
qed

lemma ml_reachable:
  assumes "ml_start W c0 s0" "fresh_coordinator c0" "finite W" "card W \<le> co_num_workers c0"
    and "\<forall>f \<in> set (co_shards c0). files f \<noteq> None" "(ml_step files W)\<^sup>*\<^sup>* s0 s"
  shows "sys_inv files W c0 s"
  using assms(6) start_inv [OF assms(1,2)] by (induction rule: rtranclp_induct) (auto intro: step_inv [OF _ _ assms(2-5)])

text \<open>
  C38. Distributed training computes gradient descent. Start a coordinator, new or restored from a
  checkpoint, and workers under at most as many names as it expects; let heartbeats be sent, repeated,
  delayed, answered or lost in any order, and let workers crash and start again. Then at every moment the
  coordinator's model is the one that as many steps of gradient descent on all the data, in one place,
  give from the initial model. It holds for any shards and any data, also where a worker gets no shard.
\<close>

theorem ml_is_gradient_descent:
  assumes "ml_start W c0 s0" "fresh_coordinator c0" "finite W" "card W \<le> co_num_workers c0"
    and "\<forall>f \<in> set (co_shards c0). files f \<noteq> None" "(ml_step files W)\<^sup>*\<^sup>* s0 s"
  shows "co_weights (sy_coord s) =
    (descend (co_lr c0) (samples files (co_shards c0)) ^^ nat (co_epoch (sy_coord s) - co_epoch c0)) (co_weights c0)"
  using ml_reachable [OF assms] by (simp add: sys_inv_def coord_inv_def model_at_def)

section \<open>Checkpoints\<close>

lemma fresh_restored:
  assumes "0 < n" "distinct shards" "\<And>w e. saved = Some (w, e) \<Longrightarrow> length w = infer_dim files shards"
  shows "fresh_coordinator (ml_restore ok (new_coordinator files shards n lr m kv saved))"
  using assms by (auto simp: fresh_coordinator_def ml_restore_def new_coordinator_def Let_def split: option.split)


section \<open>A small training\<close>

text \<open>One worker, one shard with the single sample \<open>1 \<mapsto> 1\<close>, one epoch.\<close>

definition demo_files :: "string \<Rightarrow> string option" where
  "demo_files s = (if s = ''s'' then Some ''1,1'' else None)"

definition demo_training :: coordinator where
  "demo_training = new_coordinator demo_files [''s''] 1 1 1 True None"

lemma demo_shard: "parse_shard ''1,1'' = Inr [([1, 1], 1)]"
  by (simp add: parse_shard_def strip_line_def blank_def parse_line_def Let_def py_float_def unsigned_float_def
    unsigned_int_def is_digit_def digits_val_def digit_val_def py_int_def)

lemma demo_training_eq: "demo_training = \<lparr>co_num_workers = 1, co_lr = 1, co_max_epochs = 1, co_shards = [''s''], co_dim = 2,
   co_weights = [0, 0], co_epoch = 0, co_slots = [], co_assignments = [], co_contrib = [], co_terminate = False,
   co_kv = True, co_saved = None, co_model = None\<rparr>"
  by (simp add: demo_training_def new_coordinator_def infer_dim_def demo_files_def strip_line_def blank_def Let_def numeral_2_eq_2)


definition demo_k1 :: worker where
  "demo_k1 = \<lparr>wk_id = ''w'', wk_shards = [''s''], wk_data = [([1, 1], 1)], wk_loaded = {''s''},
              wk_pending = Some (0, [- 1 / 2, - 1 / 2], 1), wk_known = 0\<rparr>"

definition demo_c1 :: coordinator where
  "demo_c1 = demo_training\<lparr>co_slots := [(''w'', 0)], co_assignments := [(''w'', [''s''])]\<rparr>"

definition demo_c2 :: coordinator where
  "demo_c2 = demo_c1\<lparr>co_weights := [1 / 2, 1 / 2], co_epoch := 1, co_terminate := True, co_saved := Some ([1 / 2, 1 / 2], 1),
     co_model := Some ([1 / 2, 1 / 2], 1, 2)\<rparr>"

lemma demo_heartbeats:
  "handle_heartbeat True (wk_request (new_worker ''w'')) demo_training = (demo_c1, Inr (ml_response demo_c1 ''w''))"
  "wk_turn demo_files (ml_response demo_c1 ''w'') (new_worker ''w'') = Inr (Some demo_k1)"
  "handle_heartbeat True (wk_request demo_k1) demo_c1 = (demo_c2, Inr (ml_response demo_c2 ''w''))"
proof -
  note defs = demo_c1_def demo_training_eq wk_request_def new_worker_def handle_heartbeat_def ml_register_def ml_collect_def
    maybe_step_def contributors_def dget_def dset_def ml_response_def dget_or_def Let_def
  show "handle_heartbeat True (wk_request (new_worker ''w'')) demo_training = (demo_c1, Inr (ml_response demo_c1 ''w''))"
    by (simp add: defs every_def)
  show "wk_turn demo_files (ml_response demo_c1 ''w'') (new_worker ''w'') = Inr (Some demo_k1)"
    by (simp add: defs wk_turn_def demo_files_def demo_shard wk_gradient_def dot_def sigmoid_def demo_k1_def numeral_2_eq_2)
  show "handle_heartbeat True (wk_request demo_k1) demo_c1 = (demo_c2, Inr (ml_response demo_c2 ''w''))"
    by (simp add: defs demo_k1_def demo_c2_def aggregate_def add_contribution_def dsetdefault_def checkpoint_def write_model_def
      numeral_2_eq_2)
qed

definition demo_system :: "coordinator \<Rightarrow> (nat \<Rightarrow> worker) \<Rightarrow> heartbeat set \<Rightarrow> (heartbeat \<times> hb_reply) set \<Rightarrow> ml_system" where
  "demo_system c ks qs rs = \<lparr>sy_coord = c, sy_workers = ks, sy_sent = qs, sy_replies = rs\<rparr>"

lemma demo_trained:
  "\<exists>s. (ml_step demo_files {''w''})\<^sup>*\<^sup>* (demo_system demo_training (\<lambda>i. new_worker ''w'') {} {}) s \<and> sy_coord s = demo_c2"
proof -
  let ?ks = "\<lambda>i :: nat. new_worker ''w''" and ?q = "wk_request (new_worker ''w'')" and ?r = "ml_response demo_c1 ''w''"
  let ?step = "ml_step demo_files {''w''}"
  have "?step (demo_system demo_training ?ks {} {}) (demo_system demo_training ?ks {?q} {})"
    using ml_send [of demo_files "{''w''}" "demo_system demo_training ?ks {} {}" 0] by (simp add: demo_system_def)
  moreover have "?step (demo_system demo_training ?ks {?q} {}) (demo_system demo_c1 ?ks {?q} {(?q, ?r)})"
    using ml_serve [of ?q "demo_system demo_training ?ks {?q} {}" True demo_c1 ?r demo_files "{''w''}"] demo_heartbeats(1)
    by (simp add: demo_system_def)
  moreover have "?step (demo_system demo_c1 ?ks {?q} {(?q, ?r)}) (demo_system demo_c1 (?ks(0 := demo_k1)) {?q} {(?q, ?r)})"
    using ml_receive [of "demo_system demo_c1 ?ks {?q} {(?q, ?r)}" 0 ?r demo_files demo_k1 "{''w''}"] demo_heartbeats(2)
    by (simp add: demo_system_def)
  moreover have "?step (demo_system demo_c1 (?ks(0 := demo_k1)) {?q} {(?q, ?r)})
      (demo_system demo_c1 (?ks(0 := demo_k1)) {wk_request demo_k1, ?q} {(?q, ?r)})"
    using ml_send [of demo_files "{''w''}" "demo_system demo_c1 (?ks(0 := demo_k1)) {?q} {(?q, ?r)}" 0] by (simp add: demo_system_def)
  moreover have "?step (demo_system demo_c1 (?ks(0 := demo_k1)) {wk_request demo_k1, ?q} {(?q, ?r)})
      (demo_system demo_c2 (?ks(0 := demo_k1)) {wk_request demo_k1, ?q} {(wk_request demo_k1, ml_response demo_c2 ''w''), (?q, ?r)})"
    using ml_serve [of "wk_request demo_k1" "demo_system demo_c1 (?ks(0 := demo_k1)) {wk_request demo_k1, ?q} {(?q, ?r)}" True demo_c2]
      demo_heartbeats(3) by (simp add: demo_system_def)
  ultimately show ?thesis by (intro exI conjI) (rule r_into_rtranclp rtranclp.rtrancl_into_rtrancl | assumption | simp add: demo_system_def)+
qed

theorem ml_is_gradient_descent_witness:
  "descend 1 [([1, 1], 1)] [0, 0] = [1 / 2, 1 / 2]"
proof -
  obtain s where s: "(ml_step demo_files {''w''})\<^sup>*\<^sup>* (demo_system demo_training (\<lambda>i. new_worker ''w'') {} {}) s" "sy_coord s = demo_c2"
    using demo_trained by blast
  have "ml_start {''w''} demo_training (demo_system demo_training (\<lambda>i. new_worker ''w'') {} {})" by (simp add: ml_start_def demo_system_def)
  moreover have "fresh_coordinator demo_training" by (simp add: fresh_coordinator_def demo_training_eq)
  moreover have "samples demo_files [''s''] = [([1, 1], 1)]" by (simp add: samples_def demo_files_def demo_shard)
  ultimately show ?thesis
    using ml_is_gradient_descent [OF _ _ _ _ _ s(1)] s(2) by (simp add: demo_c2_def demo_c1_def demo_training_eq demo_files_def)
qed

lemma demo_samples: "samples demo_files [''s''] = [([1, 1], 1)]"
  by (simp add: samples_def demo_files_def demo_shard)


section \<open>Where the hypotheses matter\<close>

text \<open>
  A worker never forgets samples: given other shards, by a coordinator that was started again and saw the
  workers register in another order, it keeps the old ones and reports gradients over both.
\<close>

lemma ml_worker_keeps_old_shards:
  assumes "wk_turn files r k = Inr (Some k')" "rp_shards r \<noteq> []" "rp_shards r \<noteq> wk_shards k"
    and "set (rp_shards r) \<inter> wk_loaded k = {}" "distinct (rp_shards r)" "\<forall>s \<in> set (rp_shards r). files s \<noteq> None"
  shows "wk_data k' = wk_data k @ samples files (rp_shards r)"
proof -
  from assms(1-3) obtain k1 where k1: "load_shards files (rp_shards r) (k\<lparr>wk_shards := rp_shards r\<rparr>) = Inr k1" "wk_data k' = wk_data k1"
    by (auto simp: wk_turn_def split: if_splits sum.splits)
  with load_shards_all [OF k1(1) assms(5)] assms(4,6) show ?thesis by simp
qed

text \<open>A worker beyond the expected number gets shards that another worker has too, if there are enough.\<close>

lemma ml_extra_worker:
  assumes "0 < n" "n < length xs" shows "every n n xs \<noteq> [] \<and> set (every n n xs) \<subseteq> set (every n 0 xs)"
proof
  show "every n n xs \<noteq> []" using assms by (auto simp: every_def filter_empty_conv intro!: bexI [of _ n])
  have "i mod n = 0" if "n \<le> i" "(i - n) mod n = 0" for i using that by (simp add: le_mod_geq)
  then show "set (every n n xs) \<subseteq> set (every n 0 xs)" by (auto simp: every_def)
qed

end
