(* ===== verification/Ml_Progress.thy ===== *)
theory Ml_Progress
  imports Ml_Theorems
begin

text \<open>
  Training ends: on well-formed data, two heartbeats of every worker bring at least one epoch.
\<close>

section \<open>One exchange\<close>

text \<open>A worker's turn whose call is answered: request, \<open>handle_heartbeat\<close>, and the rest of the turn.\<close>

definition ml_exchange ::
  "(string \<Rightarrow> string option) \<Rightarrow> bool \<Rightarrow> string \<Rightarrow> coordinator \<times> (string \<Rightarrow> worker) \<Rightarrow> coordinator \<times> (string \<Rightarrow> worker)" where
  "ml_exchange files ok w s =
     (case handle_heartbeat ok (wk_request (snd s w)) (fst s) of
        (c', Inl x) \<Rightarrow> (c', snd s)
      | (c', Inr r) \<Rightarrow> (c', case wk_turn files r (snd s w) of Inr (Some k) \<Rightarrow> (snd s)(w := k) | _ \<Rightarrow> snd s))"

definition ml_round ::
  "(string \<Rightarrow> string option) \<Rightarrow> bool \<Rightarrow> string list \<Rightarrow> coordinator \<times> (string \<Rightarrow> worker) \<Rightarrow> coordinator \<times> (string \<Rightarrow> worker)" where
  "ml_round files ok ws = fold (ml_exchange files ok) ws"

text \<open>Every shard can be read and has rows of at least \<open>d\<close> numbers, the 1 included.\<close>

definition wf_data :: "(string \<Rightarrow> string option) \<Rightarrow> nat \<Rightarrow> string list \<Rightarrow> bool" where
  "wf_data files d ss \<longleftrightarrow> (\<forall>s \<in> set ss. \<exists>t rows. files s = Some t \<and> parse_shard t = Inr rows \<and> (\<forall>r \<in> set rows. d \<le> length (fst r)))"

lemma load_shards_ok:
  "wf_data files d ss \<Longrightarrow> \<exists>w'. load_shards files ss w = Inr w'"
proof (induction ss arbitrary: w)
  case (Cons s ss)
  from Cons.prems obtain t rows where "files s = Some t" "parse_shard t = Inr rows" by (auto simp: wf_data_def)
  with Cons show ?case by (simp add: wf_data_def)
qed simp

lemma samples_rows: "wf_data files d ss \<Longrightarrow> r \<in> set (samples files ss) \<Longrightarrow> d \<le> length (fst r)"
  by (fastforce simp: wf_data_def samples_def)

lemma ml_gradient_ok: "\<forall>r \<in> set data. length w \<le> length (fst r) \<Longrightarrow> \<exists>g. ml_gradient w data g0 = Inr g"
  by (induction w data g0 rule: ml_gradient.induct) (auto simp: Let_def)

text \<open>What a worker's fields say of each other.\<close>

definition tidy :: "worker \<Rightarrow> bool" where
  "tidy k \<longleftrightarrow> wk_known k = -1 \<or> (\<exists>g. wk_pending k = Some (wk_known k, g))"

lemma turn_ok:
  assumes "good_worker files W c0 c k" "good_reply files c0 c (wk_id k) r" "coord_inv files W c0 c" "fresh_coordinator c0"
    and "wf_data files (co_dim c0) (co_shards c0)" "0 < co_dim c0" "\<not> rp_terminate r" "tidy k"
  shows "\<exists>k'. wk_turn files r k = Inr (Some k') \<and> good_worker files W c0 c k' \<and> tidy k' \<and> wk_id k' = wk_id k
    \<and> (rp_shards r \<noteq> [] \<longrightarrow> wk_known k' = rp_epoch r)"
proof -
  from assms(2,7) have r: "dget (co_assignments c) (wk_id k) = Some (rp_shards r)" "rp_weights r = model_at files c0 (rp_epoch r)"
    by (auto simp: good_reply_def)
  from assms(3) obtain ids where ids: "registered W c ids" "co_shards c = co_shards c0" by (auto simp: coord_inv_def same_setup_def)
  from registered_assigned [OF ids(1)] r(1) obtain i where "rp_shards r = every (co_num_workers c) i (co_shards c0)"
    using ids(2) by auto
  then have sub: "set (rp_shards r) \<subseteq> set (co_shards c0)" and dist: "distinct (rp_shards r)"
    using assms(4) by (simp_all add: set_every distinct_every fresh_coordinator_def)
  with assms(5) have wf: "wf_data files (co_dim c0) (rp_shards r)" unfolding wf_data_def by blast
  have f: "\<forall>s \<in> set (rp_shards r). files s \<noteq> None" using wf by (auto simp: wf_data_def)
  have len: "length (rp_weights r) = co_dim c0" using r(2) assms(4) by (simp add: fresh_coordinator_def)
  define k1 where "k1 = (if rp_shards r \<noteq> [] \<and> rp_shards r \<noteq> wk_shards k
     then k\<lparr>wk_shards := rp_shards r, wk_data := samples files (rp_shards r), wk_loaded := set (rp_shards r)\<rparr> else k)"
  have load: "(if rp_shards r \<noteq> [] \<and> rp_shards r \<noteq> wk_shards k
     then load_shards files (rp_shards r) (k\<lparr>wk_shards := rp_shards r\<rparr>) else Inr k) = Inr k1"
  proof (cases "rp_shards r \<noteq> [] \<and> rp_shards r \<noteq> wk_shards k")
    case True
    with assms(1) r(1) have e: "wk_data k = []" "wk_loaded k = {}" by (auto simp: good_worker_def)
    obtain k2 where "load_shards files (rp_shards r) (k\<lparr>wk_shards := rp_shards r\<rparr>) = Inr k2" using load_shards_ok [OF wf] by blast
    with load_shards_all [OF this dist _ f] True e show ?thesis by (simp add: k1_def)
  next
    case False
    then show ?thesis by (auto simp: k1_def)
  qed
  have k1: "wk_id k1 = wk_id k" "wk_known k1 = wk_known k" "wk_pending k1 = wk_pending k"
    "rp_shards r \<noteq> [] \<Longrightarrow> wk_shards k1 \<noteq> [] \<and> wk_data k1 = samples files (rp_shards r)"
    using assms(1) r(1) by (auto simp: k1_def good_worker_def)
  have sh: "wk_shards k1 \<noteq> [] \<Longrightarrow> rp_shards r \<noteq> []" using assms(1) r(1) by (auto simp: k1_def good_worker_def split: if_splits)
  have "\<exists>k'. wk_turn files r k = Inr (Some k') \<and> tidy k' \<and> wk_id k' = wk_id k \<and> (rp_shards r \<noteq> [] \<longrightarrow> wk_known k' = rp_epoch r)"
  proof (cases "wk_shards k1 \<noteq> [] \<and> rp_epoch r \<noteq> wk_known k1")
    case True
    then have d: "wk_data k1 = samples files (rp_shards r)" using k1(4) sh by blast
    have "\<forall>x \<in> set (wk_data k1). length (rp_weights r) \<le> length (fst x)" using samples_rows [OF wf] d len by simp
    from ml_gradient_ok [OF this] obtain g where
      "ml_gradient (rp_weights r) (wk_data k1) (replicate (length (rp_weights r)) 0) = Inr g" by blast
    then have "wk_gradient k1 (rp_weights r) = Inr (g, int (length (wk_data k1)))" by (simp add: wk_gradient_def)
    moreover have "rp_weights r \<noteq> []" using len assms(6) by auto
    ultimately show ?thesis using True load assms(7) k1(1) by (simp add: wk_turn_def tidy_def)
  next
    case False
    then show ?thesis using load assms(7,8) k1 by (auto simp: wk_turn_def tidy_def)
  qed
  then obtain k' where k': "wk_turn files r k = Inr (Some k')" "tidy k'" "wk_id k' = wk_id k" "rp_shards r \<noteq> [] \<longrightarrow> wk_known k' = rp_epoch r"
    by blast
  have "good_worker files W c0 c k'"
    by (rule turn_good [OF assms(1-4) k'(1)]) (use assms(5) in \<open>auto simp: wf_data_def\<close>)
  with k' show ?thesis by blast
qed

section \<open>Progress of a heartbeat\<close>

definition waiting :: "coordinator \<Rightarrow> bool" where
  "waiting c \<longleftrightarrow> length (co_slots c) < co_num_workers c \<or> contributors c = []
     \<or> \<not> list_all (\<lambda>w. dget (co_contrib c) w \<noteq> None) (contributors c)"

text \<open>A heartbeat either leaves the coordinator waiting in its epoch, or begins the next one.\<close>

lemma heartbeat_cases:
  assumes "coord_inv files W c0 c" "fresh_coordinator c0" "finite W" "card W \<le> co_num_workers c0" "good_request files W c0 c q"
    and "\<not> co_terminate c"
  shows "\<exists>c'. handle_heartbeat ok q c = (c', Inr (ml_response c' (hb_worker q)))
    \<and> dget (co_assignments c') (hb_worker q) \<noteq> None
    \<and> (co_epoch c' = co_epoch c \<and> \<not> co_terminate c' \<and> waiting c'
        \<and> (\<forall>v. dget (co_contrib c) v \<noteq> None \<longrightarrow> dget (co_contrib c') v \<noteq> None)
        \<and> (hb_has_gradient q \<and> hb_epoch q = co_epoch c \<longrightarrow> dget (co_contrib c') (hb_worker q) \<noteq> None)
      \<or> co_epoch c' = co_epoch c + 1 \<and> (co_terminate c' \<longleftrightarrow> co_epoch c' \<ge> co_max_epochs c0))"
proof -
  have q: "hb_worker q \<in> W" "hb_has_gradient q \<Longrightarrow> \<exists>ss. dget (co_assignments c) (hb_worker q) = Some ss
      \<and> (hb_gradient q, hb_count q) = contribution_of files (model_at files c0 (hb_epoch q)) ss"
    using assms(5) by (auto simp: good_request_def good_pending_def)
  from register_inv [OF assms(1,2) q(1)] obtain c1 where c1: "ml_register (hb_worker q) c = (c1, None)" "coord_inv files W c0 c1"
    "co_terminate c1 = co_terminate c" "co_epoch c1 = co_epoch c"
    "dget (co_assignments c1) (hb_worker q) \<noteq> None" "\<forall>v ss. dget (co_assignments c) v = Some ss \<longrightarrow> dget (co_assignments c1) v = Some ss"
    by blast
  have con: "co_contrib c1 = co_contrib c" using c1(1) by (auto simp: ml_register_def Let_def split: if_splits)
  let ?c2 = "ml_collect q c1"
  have c2: "coord_inv files W c0 ?c2" by (rule collect_inv [OF c1(2)]) (use q(2) c1(6) in blast)
  have f: "co_assignments ?c2 = co_assignments c1" "co_epoch ?c2 = co_epoch c" "co_terminate ?c2 = co_terminate c"
    using c1(3,4) by (simp_all add: ml_collect_def)
  have m: "co_max_epochs ?c2 = co_max_epochs c0" using c2 by (simp add: coord_inv_def same_setup_def)
  have g: "\<forall>v. dget (co_contrib c) v \<noteq> None \<longrightarrow> dget (co_contrib ?c2) v \<noteq> None"
    "hb_has_gradient q \<and> hb_epoch q = co_epoch c \<Longrightarrow> dget (co_contrib ?c2) (hb_worker q) \<noteq> None"
    using con c1(4) by (auto simp: ml_collect_def split: option.split)
  from step_cases [OF c2 assms(2-4), of ok] show ?thesis
  proof (elim disjE [of "_ \<and> _"] exE conjE)
    assume "maybe_step ok ?c2 = (?c2, None)"
      and w: "length (co_slots ?c2) < co_num_workers ?c2 \<or> contributors ?c2 = [] \<or> \<not> list_all (\<lambda>w. dget (co_contrib ?c2) w \<noteq> None) (contributors ?c2)"
    then have "handle_heartbeat ok q c = (?c2, Inr (ml_response ?c2 (hb_worker q)))" using c1(1) assms(6) by (simp add: handle_heartbeat_def)
    moreover have "waiting ?c2" using w by (simp add: waiting_def)
    ultimately show ?thesis using f g c1(5) assms(6) by (intro exI [of _ ?c2]) simp
  next
    fix c'
    assume s: "maybe_step ok ?c2 = (c', None)" "co_epoch c' = co_epoch ?c2 + 1" "co_assignments c' = co_assignments ?c2" "same_setup ?c2 c'"
      "co_terminate c' = (co_terminate ?c2 \<or> co_max_epochs c' \<le> co_epoch c')"
    then have "handle_heartbeat ok q c = (c', Inr (ml_response c' (hb_worker q)))" using c1(1) assms(6) by (simp add: handle_heartbeat_def)
    moreover have "co_max_epochs c' = co_max_epochs c0" using s(4) m by (simp add: same_setup_def)
    ultimately show ?thesis using s f c1(5) assms(6) by (intro exI [of _ c']) simp
  qed
qed

section \<open>Progress of an exchange\<close>

definition ml_ok :: "(string \<Rightarrow> string option) \<Rightarrow> string set \<Rightarrow> coordinator \<Rightarrow> coordinator \<times> (string \<Rightarrow> worker) \<Rightarrow> bool" where
  "ml_ok files W c0 s \<longleftrightarrow> coord_inv files W c0 (fst s)
     \<and> (\<forall>w \<in> W. good_worker files W c0 (fst s) (snd s w) \<and> tidy (snd s w) \<and> wk_id (snd s w) = w)"

text \<open>\<open>holds v\<close>: worker \<open>v\<close> has the gradient of epoch \<open>e\<close>; \<open>gave v\<close>: the coordinator has it.\<close>

definition holds :: "int \<Rightarrow> coordinator \<times> (string \<Rightarrow> worker) \<Rightarrow> string \<Rightarrow> bool" where
  "holds e s v \<longleftrightarrow> (\<exists>ss. dget (co_assignments (fst s)) v = Some ss \<and> (ss \<noteq> [] \<longrightarrow> wk_known (snd s v) = e))"

definition gave :: "coordinator \<times> (string \<Rightarrow> worker) \<Rightarrow> string \<Rightarrow> bool" where
  "gave s v \<longleftrightarrow> (\<exists>ss. dget (co_assignments (fst s)) v = Some ss \<and> (ss \<noteq> [] \<longrightarrow> dget (co_contrib (fst s)) v \<noteq> None))"

lemma exchange_cases:
  fixes ok
  assumes "ml_ok files W c0 s" "fresh_coordinator c0" "finite W" "card W \<le> co_num_workers c0" "w \<in> W"
    and "wf_data files (co_dim c0) (co_shards c0)" "0 < co_dim c0" "0 \<le> co_epoch c0" "\<not> co_terminate (fst s)"
  defines "s' \<equiv> ml_exchange files ok w s" and "e \<equiv> co_epoch (fst s)"
  shows "ml_ok files W c0 s'
    \<and> (co_epoch (fst s') = e \<and> \<not> co_terminate (fst s') \<and> waiting (fst s') \<and> holds e s' w \<and> (holds e s w \<longrightarrow> gave s' w)
        \<and> (\<forall>v. holds e s v \<longrightarrow> holds e s' v) \<and> (\<forall>v. gave s v \<longrightarrow> gave s' v)
      \<or> co_epoch (fst s') = e + 1 \<and> (co_terminate (fst s') \<longleftrightarrow> co_epoch (fst s') \<ge> co_max_epochs c0))"
proof -
  let ?k = "snd s w" and ?c = "fst s"
  let ?q = "wk_request ?k"
  have C: "coord_inv files W c0 ?c" and k: "good_worker files W c0 ?c ?k" "tidy ?k" "wk_id ?k = w"
    using assms(1,5) by (simp_all add: ml_ok_def)
  have q: "good_request files W c0 ?c ?q" "hb_worker ?q = w"
    using request_good [OF k(1)] k(3) by (simp_all add: wk_request_def split: option.split)
  from heartbeat_cases [OF C assms(2-4) q(1) assms(9), of ok] obtain c' where
    h: "handle_heartbeat ok ?q ?c = (c', Inr (ml_response c' w))" "dget (co_assignments c') w \<noteq> None"
    and cases: "co_epoch c' = e \<and> \<not> co_terminate c' \<and> waiting c'
        \<and> (\<forall>v. dget (co_contrib ?c) v \<noteq> None \<longrightarrow> dget (co_contrib c') v \<noteq> None)
        \<and> (hb_has_gradient ?q \<and> hb_epoch ?q = e \<longrightarrow> dget (co_contrib c') w \<noteq> None)
      \<or> co_epoch c' = e + 1 \<and> (co_terminate c' \<longleftrightarrow> co_epoch c' \<ge> co_max_epochs c0)"
    unfolding q(2) e_def by blast
  let ?r = "ml_response c' w"
  have c': "coord_inv files W c0 c'" "grows ?c c'" "good_reply files c0 c' w ?r"
    using heartbeat_inv [OF C assms(2-4), of ?q ok] assms(5) q h(1)
    by (auto simp: good_request_def good_pending_def grows_def good_reply_def)
  have others: "\<forall>v \<in> W. good_worker files W c0 c' (snd s v)" using assms(1) good_mono(2) [OF c'(2)] by (auto simp: ml_ok_def)
  show ?thesis
  proof (cases "co_terminate c'")
    case True
    then have "s' = (c', snd s)" using h(1) by (simp add: s'_def ml_exchange_def wk_turn_def ml_response_def)
    with True cases c'(1) others assms(1) show ?thesis by (auto simp: ml_ok_def)
  next
    case False
    then have "\<not> rp_terminate ?r" by (simp add: ml_response_def)
    from turn_ok [OF others [rule_format, OF assms(5)] _ c'(1) assms(2,6,7) this k(2)] c'(3) k(3) obtain k' where
      k': "wk_turn files ?r ?k = Inr (Some k')" "good_worker files W c0 c' k'" "tidy k'" "wk_id k' = w"
        "rp_shards ?r \<noteq> [] \<longrightarrow> wk_known k' = rp_epoch ?r" by auto
    have s': "s' = (c', (snd s)(w := k'))" using h(1) k'(1) by (simp add: s'_def ml_exchange_def)
    have ok: "ml_ok files W c0 s'" using s' c'(1) others assms(1) k' by (auto simp: ml_ok_def)
    show ?thesis
    proof (cases "co_epoch c' = e + 1")
      case True
      with ok s' cases show ?thesis by auto
    next
      case False
      with cases have w: "co_epoch c' = e" "waiting c'" "\<forall>v. dget (co_contrib ?c) v \<noteq> None \<longrightarrow> dget (co_contrib c') v \<noteq> None"
        "hb_has_gradient ?q \<and> hb_epoch ?q = e \<longrightarrow> dget (co_contrib c') w \<noteq> None" by auto
      have hw: "holds e s' w" using h(2) k'(5) s' w(1) by (auto simp: holds_def ml_response_def dget_or_def)
      moreover have "holds e s v \<Longrightarrow> holds e s' v" for v
        using hw s' c'(2) by (cases "v = w") (auto simp: holds_def grows_def)
      moreover have "gave s v \<Longrightarrow> gave s' v" for v using s' c'(2) w(3) by (auto simp: gave_def grows_def)
      moreover have "gave s' w" if "holds e s w"
      proof -
        from that obtain ss where ss: "dget (co_assignments ?c) w = Some ss" "ss \<noteq> [] \<longrightarrow> wk_known ?k = e" by (auto simp: holds_def)
        have "0 \<le> e" using C assms(8) unfolding e_def coord_inv_def by linarith
        with ss(2) k(2) have "ss \<noteq> [] \<longrightarrow> hb_has_gradient ?q \<and> hb_epoch ?q = e" by (auto simp: tidy_def wk_request_def)
        with ss w(4) c'(2) s' show ?thesis by (auto simp: gave_def grows_def)
      qed
      ultimately show ?thesis using ok s' w \<open>\<not> co_terminate c'\<close> by simp
    qed
  qed
qed

section \<open>Rounds\<close>

lemma exchange_done: "co_terminate (fst s) \<Longrightarrow> co_terminate (fst (ml_exchange files ok w s)) \<and> co_epoch (fst (ml_exchange files ok w s)) = co_epoch (fst s)"
  by (simp add: ml_exchange_def handle_heartbeat_def)

lemma round_done: "co_terminate (fst s) \<Longrightarrow> co_terminate (fst (ml_round files ok ws s)) \<and> co_epoch (fst (ml_round files ok ws s)) = co_epoch (fst s)"
  unfolding ml_round_def by (induction ws arbitrary: s) (auto simp: exchange_done)

text \<open>
  The state of a training that has not ended: the epoch is the first one, or below the limit.
\<close>

definition training :: "(string \<Rightarrow> string option) \<Rightarrow> string set \<Rightarrow> coordinator \<Rightarrow> coordinator \<times> (string \<Rightarrow> worker) \<Rightarrow> bool" where
  "training files W c0 s \<longleftrightarrow> ml_ok files W c0 s \<and> \<not> co_terminate (fst s)
     \<and> (co_epoch (fst s) = co_epoch c0 \<or> co_epoch (fst s) < co_max_epochs c0)"

definition ml_setup :: "(string \<Rightarrow> string option) \<Rightarrow> string list \<Rightarrow> coordinator \<Rightarrow> bool" where
  "ml_setup files ws c0 \<longleftrightarrow> fresh_coordinator c0 \<and> distinct ws \<and> length ws = co_num_workers c0 \<and> co_shards c0 \<noteq> []
     \<and> wf_data files (co_dim c0) (co_shards c0) \<and> 0 < co_dim c0 \<and> 0 \<le> co_epoch c0"

lemma round_cases:
  fixes ok
  assumes "ml_setup files ws c0" "training files (set ws) c0 s" "set vs \<subseteq> set ws"
  defines "s' \<equiv> ml_round files ok vs s" and "e \<equiv> co_epoch (fst s)"
  shows "co_terminate (fst s') \<or> training files (set ws) c0 s' \<and> (e < co_epoch (fst s')
      \<or> co_epoch (fst s') = e \<and> (vs \<noteq> [] \<longrightarrow> waiting (fst s'))
        \<and> (\<forall>v. holds e s v \<or> v \<in> set vs \<longrightarrow> holds e s' v) \<and> (\<forall>v. gave s v \<or> v \<in> set vs \<and> holds e s v \<longrightarrow> gave s' v))"
  using assms(2,3) unfolding s'_def e_def ml_round_def
proof (induction vs arbitrary: s)
  case (Cons w vs)
  let ?e = "co_epoch (fst s)" and ?t = "ml_exchange files ok w s"
  have "card (set ws) \<le> co_num_workers c0" using assms(1) card_length [of ws] by (simp add: ml_setup_def)
  with exchange_cases [of files "set ws" c0 s w ok] Cons.prems assms(1)
  have t: "ml_ok files (set ws) c0 ?t
    \<and> (co_epoch (fst ?t) = ?e \<and> \<not> co_terminate (fst ?t) \<and> waiting (fst ?t) \<and> holds ?e ?t w \<and> (holds ?e s w \<longrightarrow> gave ?t w)
        \<and> (\<forall>v. holds ?e s v \<longrightarrow> holds ?e ?t v) \<and> (\<forall>v. gave s v \<longrightarrow> gave ?t v)
      \<or> co_epoch (fst ?t) = ?e + 1 \<and> (co_terminate (fst ?t) \<longleftrightarrow> co_epoch (fst ?t) \<ge> co_max_epochs c0))"
    by (simp add: training_def ml_setup_def)
  show ?case
  proof (cases "co_terminate (fst ?t)")
    case True
    with round_done [of ?t files ok vs] show ?thesis by (simp add: ml_round_def)
  next
    case False
    with t Cons.prems have T: "training files (set ws) c0 ?t" by (auto simp: training_def)
    from Cons.IH [OF T] Cons.prems(2) have IH: "co_terminate (fst (fold (ml_exchange files ok) vs ?t))
      \<or> training files (set ws) c0 (fold (ml_exchange files ok) vs ?t) \<and> (co_epoch (fst ?t) < co_epoch (fst (fold (ml_exchange files ok) vs ?t))
      \<or> co_epoch (fst (fold (ml_exchange files ok) vs ?t)) = co_epoch (fst ?t) \<and> (vs \<noteq> [] \<longrightarrow> waiting (fst (fold (ml_exchange files ok) vs ?t)))
        \<and> (\<forall>v. holds (co_epoch (fst ?t)) ?t v \<or> v \<in> set vs \<longrightarrow> holds (co_epoch (fst ?t)) (fold (ml_exchange files ok) vs ?t) v)
        \<and> (\<forall>v. gave ?t v \<or> v \<in> set vs \<and> holds (co_epoch (fst ?t)) ?t v \<longrightarrow> gave (fold (ml_exchange files ok) vs ?t) v))" by simp
    show ?thesis
    proof (cases "co_epoch (fst ?t) = ?e")
      case True
      with t have s: "waiting (fst ?t)" "holds ?e ?t w" "holds ?e s w \<longrightarrow> gave ?t w" "\<forall>v. holds ?e s v \<longrightarrow> holds ?e ?t v" "\<forall>v. gave s v \<longrightarrow> gave ?t v"
        by auto
      have "vs = [] \<Longrightarrow> waiting (fst (fold (ml_exchange files ok) vs ?t))" using s(1) by simp
      with IH s True show ?thesis by auto
    next
      case False
      with t have "co_epoch (fst ?t) = ?e + 1" by blast
      with IH show ?thesis by auto
    qed
  qed
qed (auto simp: training_def)

lemma every_first: "xs \<noteq> [] \<Longrightarrow> every n 0 xs \<noteq> []"
  by (auto simp: every_def filter_empty_conv intro!: bexI [of _ 0])

text \<open>When all workers have given their gradients, the coordinator is not waiting.\<close>

lemma not_waiting:
  assumes "ml_setup files ws c0" "ml_ok files (set ws) c0 s" "\<forall>v \<in> set ws. gave s v"
  shows "\<not> waiting (fst s)"
proof -
  let ?c = "fst s"
  from assms(2) obtain ids where ids: "registered (set ws) ?c ids" by (auto simp: ml_ok_def coord_inv_def)
  have n: "co_num_workers ?c = co_num_workers c0" "co_shards ?c = co_shards c0"
    using assms(2) by (simp_all add: ml_ok_def coord_inv_def same_setup_def)
  have "set ws \<subseteq> set ids"
    using assms(3) registered_assigned [OF ids] by (force simp: gave_def)
  moreover have "distinct ids" "set ids \<subseteq> set ws" using ids by (simp_all add: registered_def)
  ultimately have "length ids = length ws" using assms(1) by (metis distinct_card ml_setup_def subset_antisym)
  then have len: "length (co_slots ?c) = co_num_workers ?c" using registered_slot(2) [OF ids] assms(1) n by (simp add: ml_setup_def)
  have a: "dget (co_assignments ?c) w = Some sh" if "(w, sh) \<in> set (co_assignments ?c)" for w sh
    using that ids registered_assigned [OF ids, of w sh] by (auto simp: registered_def)
  have "0 < length ids" using assms(1) \<open>length ids = length ws\<close> by (simp add: ml_setup_def fresh_coordinator_def)
  moreover have "every (co_num_workers ?c) 0 (co_shards ?c) \<noteq> []" by (rule every_first) (use assms(1) n in \<open>simp add: ml_setup_def\<close>)
  ultimately have "contributors ?c \<noteq> []" using ids by (force simp: contributors_def registered_def filter_empty_conv)
  moreover have "dget (co_contrib ?c) w \<noteq> None" if "w \<in> set (contributors ?c)" for w
  proof -
    from that obtain sh where w: "(w, sh) \<in> set (co_assignments ?c)" "sh \<noteq> []" by (auto simp: contributors_def)
    with a have "dget (co_assignments ?c) w = Some sh" by blast
    moreover from this registered_assigned [OF ids] have "w \<in> set ids" by auto
    ultimately show ?thesis using assms(3) \<open>set ids \<subseteq> set ws\<close> w(2) by (force simp: gave_def)
  qed
  ultimately show ?thesis using len by (simp add: waiting_def list_all_iff)
qed

lemma two_rounds:
  fixes ok
  assumes "ml_setup files ws c0" "training files (set ws) c0 s"
  defines "s2 \<equiv> ml_round files ok ws (ml_round files ok ws s)"
  shows "co_terminate (fst s2) \<or> training files (set ws) c0 s2 \<and> co_epoch (fst s) < co_epoch (fst s2)"
proof -
  let ?s1 = "ml_round files ok ws s" and ?e = "co_epoch (fst s)"
  have ws: "ws \<noteq> []" using assms(1) by (auto simp: ml_setup_def fresh_coordinator_def)
  from round_cases [OF assms(1,2) order.refl, of ok] consider
      "co_terminate (fst ?s1)"
    | "training files (set ws) c0 ?s1" "?e < co_epoch (fst ?s1)"
    | "training files (set ws) c0 ?s1" "co_epoch (fst ?s1) = ?e" "\<forall>v \<in> set ws. holds ?e ?s1 v" by blast
  then show ?thesis
  proof cases
    case 1
    then show ?thesis unfolding s2_def using round_done by blast
  next
    case 2
    with round_cases [OF assms(1) 2(1) order.refl, of ok] show ?thesis unfolding s2_def by linarith
  next
    case 3
    have "\<not> (training files (set ws) c0 s2 \<and> waiting (fst s2) \<and> (\<forall>v \<in> set ws. gave s2 v))"
      using not_waiting [OF assms(1), of s2] by (auto simp: training_def)
    with round_cases [OF assms(1) 3(1) order.refl, of ok, folded s2_def] 3(2,3) ws show ?thesis by auto
  qed
qed

text \<open>
  Training ends. Let the coordinator expect as many workers as there are, with at least one shard and
  well-formed data, and let every worker in turn have its heartbeat answered, over and over. Then every
  two rounds end an epoch, and after at most two rounds for each epoch that is left (two, if the limit is
  already reached) the coordinator has ended the training and written the model, whether or not its
  checkpoints reach the store.
\<close>

lemma ml_training_ends:
  assumes "ml_setup files ws c0"
  shows "co_terminate (fst ((ml_round files ok ws ^^ (2 * nat (max 1 (co_max_epochs c0 - co_epoch c0)))) (c0, new_worker)))"
proof -
  let ?K = "nat (max 1 (co_max_epochs c0 - co_epoch c0))" and ?s = "\<lambda>k. (ml_round files ok ws ^^ (2 * k)) (c0, new_worker)"
  have start: "training files (set ws) c0 (c0, new_worker)"
  proof -
    have "registered (set ws) c0 []" "fresh_coordinator c0" using assms by (simp_all add: ml_setup_def registered_def fresh_coordinator_def)
    then have "coord_inv files (set ws) c0 c0" by (intro coord_invI) (auto simp: same_setup_def fresh_coordinator_def saved_ok_def)
    moreover have "tidy (new_worker w)" "wk_id (new_worker w) = w" for w by (simp_all add: tidy_def new_worker_def)
    ultimately show ?thesis using \<open>fresh_coordinator c0\<close> by (simp add: training_def ml_ok_def fresh_coordinator_def)
  qed
  have "co_terminate (fst (?s k)) \<or> training files (set ws) c0 (?s k) \<and> co_epoch c0 + int k \<le> co_epoch (fst (?s k))" for k
  proof (induction k)
    case (Suc k)
    have e: "?s (Suc k) = ml_round files ok ws (ml_round files ok ws (?s k))" by simp
    from Suc show ?case
    proof
      assume "co_terminate (fst (?s k))"
      then show ?thesis unfolding e using round_done by blast
    next
      assume "training files (set ws) c0 (?s k) \<and> co_epoch c0 + int k \<le> co_epoch (fst (?s k))"
      with two_rounds [OF assms, of "?s k" ok] show ?thesis unfolding e by auto
    qed
  qed (use start in simp)
  then have "co_terminate (fst (?s ?K)) \<or> training files (set ws) c0 (?s ?K) \<and> co_epoch c0 + int ?K \<le> co_epoch (fst (?s ?K))" .
  moreover have "1 \<le> int ?K" "co_max_epochs c0 - co_epoch c0 \<le> int ?K" by (simp_all add: max_def)
  ultimately show ?thesis unfolding training_def by linarith
qed

end
