(* ===== verification/Raft_Disk.thy ===== *)
theory Raft_Disk
  imports Raft_Run Files
begin

text \<open>
  The two files of a node, as \<open>_persist_hard_state\<close> and \<open>_persist_log\<close> of \<open>raft_node.py\<close> write them: a
  temporary file is opened, the text is written to it in pieces, and \<open>os.replace\<close> puts it in place of the
  old file. A process may die between any two of these operations. What the operating system may lose
  when the machine itself dies (nothing is flushed with \<open>fsync\<close>) is not modelled.
\<close>

section \<open>Paths\<close>

definition hard_state_path :: "string \<Rightarrow> nat \<Rightarrow> string" where
  "hard_state_path dir i = path_join dir (''node'' @ nat_str i @ ''_hard_state.json'')"

definition log_path :: "string \<Rightarrow> nat \<Rightarrow> string" where
  "log_path dir i = path_join dir (''node'' @ nat_str i @ ''_log.json'')"

definition tmp_path :: "string \<Rightarrow> string" where
  "tmp_path p = p @ ''.tmp''"

section \<open>Writing a file\<close>

datatype file_op = Open_w string | Write_to string string | Replace string string

fun do_op :: "file_op \<Rightarrow> disk \<Rightarrow> disk" where
  "do_op (Open_w p) d = dset d p ''''"
| "do_op (Write_to p s) d = dset d p (dget_or d p '''' @ s)"
| "do_op (Replace a b) d = (case dget d a of None \<Rightarrow> d | Some t \<Rightarrow> dset (dpop d a) b t)"

definition run_ops :: "file_op list \<Rightarrow> disk \<Rightarrow> disk" where
  "run_ops ops d = foldl (\<lambda>d x. do_op x d) d ops"

text \<open>\<open>pieces\<close>: the text, cut as it reaches the file.\<close>

definition persist_ops :: "string \<Rightarrow> string list \<Rightarrow> file_op list" where
  "persist_ops p pieces = Open_w (tmp_path p) # map (Write_to (tmp_path p)) pieces @ [Replace (tmp_path p) p]"

text \<open>A call of \<open>_persist_hard_state\<close> or \<open>_persist_log\<close> on the node as it is then.\<close>

datatype disk_write = Hard raft_node | Log raft_node

fun write_path :: "string \<Rightarrow> disk_write \<Rightarrow> string" where
  "write_path dir (Hard nd) = hard_state_path dir (node_id nd)"
| "write_path dir (Log nd) = log_path dir (node_id nd)"

fun write_text :: "disk_write \<Rightarrow> string" where
  "write_text (Hard nd) = dumps (hard_state_json (current_term nd) (voted_for nd))"
| "write_text (Log nd) = dumps (JArr (map entry_json (log nd)))"

text \<open>The disk when the process dies at some moment of the writes \<open>ws\<close>.\<close>

inductive died :: "string \<Rightarrow> disk_write list \<Rightarrow> disk \<Rightarrow> disk \<Rightarrow> bool" for dir where
  before: "died dir ws d d"
| during: "concat pieces = write_text w
    \<Longrightarrow> died dir (w # ws) d (run_ops (take k (persist_ops (write_path dir w) pieces)) d)"
| after: "concat pieces = write_text w \<Longrightarrow> died dir ws (run_ops (persist_ops (write_path dir w) pieces) d) d'
    \<Longrightarrow> died dir (w # ws) d d'"

inductive_cases died_NilE: "died dir [] d d'"

section \<open>What the handlers write\<close>

definition vote_writes :: "rv_args \<Rightarrow> raft_node \<Rightarrow> disk_write list" where
  "vote_writes a nd =
     (if rv_term a > current_term nd then [Hard (become_follower (rv_term a) nd)] else [])
     @ (if rvr_granted (snd (handle_request_vote a nd)) then [Hard (fst (handle_request_vote a nd))] else [])"

definition append_writes :: "ae_args \<Rightarrow> raft_node \<Rightarrow> disk_write list" where
  "append_writes a nd =
     (if ae_term a < current_term nd then []
      else (if ae_term a > current_term nd \<or> state nd = Candidate then [Hard (become_follower (ae_term a) nd)] else [])
        @ (case handle_append_entries a nd of
             (nd', Inr r) \<Rightarrow> if aer_success r \<and> ae_entries a \<noteq> [] then [Log nd'] else []
           | (nd', Inl x) \<Rightarrow> []))"

definition reply_writes :: "nat \<Rightarrow> raft_node \<Rightarrow> disk_write list" where
  "reply_writes t nd = (if t > current_term nd then [Hard (become_follower t nd)] else [])"

definition election_writes :: "raft_node \<Rightarrow> disk_write list" where
  "election_writes nd = (if state nd = Leader then [] else [Hard (start_election nd)])"

definition finish_writes :: "nat \<Rightarrow> raft_node \<Rightarrow> disk_write list" where
  "finish_writes t nd =
     (case dget (ballots nd) t of
        None \<Rightarrow> []
      | Some b \<Rightarrow> if state nd = Candidate \<and> current_term nd = t \<and> b_votes b \<ge> b_needed b
                  then [Log (finish_election t nd)] else [])"

text \<open>A step of node \<open>n\<close> that may write, with its writes and the cluster after it.\<close>

inductive writing ::
  "nat set \<Rightarrow> (log_entry \<Rightarrow> 's \<Rightarrow> 's \<times> (exn + (string, pyval) dict)) \<Rightarrow> 's \<Rightarrow> 's cluster \<Rightarrow> nat \<Rightarrow> disk_write list \<Rightarrow> 's cluster \<Rightarrow> bool"
  for ids f sm0 c where
  w_timeout: "n \<in> ids \<Longrightarrow> election_timer (c_node c n)
    \<Longrightarrow> writing ids f sm0 c n (election_writes (c_node c n)) (set_node n (start_election (c_node c n)) c)"
| w_vote: "n \<in> ids \<Longrightarrow> a \<in> c_rv c \<Longrightarrow> n \<noteq> rv_candidate a \<Longrightarrow> \<not> isolated (c_node c n)
    \<Longrightarrow> handle_request_vote a (c_node c n) = (nd, r)
    \<Longrightarrow> writing ids f sm0 c n (vote_writes a (c_node c n)) (set_node n nd (c\<lparr>c_rvr := insert (n, a, r) (c_rvr c)\<rparr>))"
| w_vote_reply: "(v, a, r) \<in> c_rvr c \<Longrightarrow> n = rv_candidate a \<Longrightarrow> n \<in> ids \<Longrightarrow> (n, rv_term a, v) \<notin> c_counted c
    \<Longrightarrow> writing ids f sm0 c n (reply_writes (rvr_term r) (c_node c n))
          (set_node n (handle_vote_reply (rv_term a) r (c_node c n)) (c\<lparr>c_counted := insert (n, rv_term a, v) (c_counted c)\<rparr>))"
| w_finish: "n \<in> ids \<Longrightarrow> writing ids f sm0 c n (finish_writes t (c_node c n)) (set_node n (finish_election t (c_node c n)) c)"
| w_append: "(n, a) \<in> c_ae c \<Longrightarrow> n \<in> ids \<Longrightarrow> \<not> isolated (c_node c n)
    \<Longrightarrow> handle_append_entries a (c_node c n) = (nd, Inr r)
    \<Longrightarrow> writing ids f sm0 c n (append_writes a (c_node c n)) (set_node n nd (c\<lparr>c_aer := insert (n, a, r) (c_aer c)\<rparr>))"
| w_append_reply: "(p, a, r) \<in> c_aer c \<Longrightarrow> n = ae_leader a \<Longrightarrow> n \<in> ids
    \<Longrightarrow> state (c_node c n) = Leader \<longrightarrow> current_term (c_node c n) = ae_term a
    \<Longrightarrow> writing ids f sm0 c n (reply_writes (aer_term r) (c_node c n)) (set_node n (handle_append_reply p a r (c_node c n)) c)"
| w_client: "n \<in> ids \<Longrightarrow> append_entry_begin op fn b cl sq (c_node c n) = Inr (nd, i, ref)
    \<Longrightarrow> writing ids f sm0 c n [Log nd] (set_node n nd c)"

section \<open>Paths of different files\<close>

definition basename :: "string \<Rightarrow> string" where
  "basename p = rev (takeWhile (\<lambda>c. c \<noteq> CHR ''/'') (rev p))"

lemma takeWhile_last: "P \<or> base = [] \<or> last base = x \<Longrightarrow> takeWhile (\<lambda>c. c \<noteq> x) (if P then x # rev base else rev base) = []"
  by (cases base rule: rev_cases) auto

lemma basename_join:
  assumes "CHR ''/'' \<notin> set n" "n \<noteq> []" shows "basename (path_join b n) = n"
proof -
  have "takeWhile (\<lambda>c. c \<noteq> CHR ''/'') (rev n @ xs) = rev n @ takeWhile (\<lambda>c. c \<noteq> CHR ''/'') xs" for xs
    using assms by (auto simp: takeWhile_append)
  moreover have "\<not> startswith n ''/''" using assms by (cases n) (auto simp: startswith_def)
  ultimately show ?thesis
    using takeWhile_last [of False b "CHR ''/''"] by (auto simp: basename_def path_join_def)
qed

lemma slash_free: "CHR ''/'' \<notin> set (nat_str i)"
  by (rule not_digit_in_nat_str) (simp add: is_digit_def)

lemma basename_paths:
  "basename (hard_state_path dir i) = ''node'' @ nat_str i @ ''_hard_state.json''"
  "basename (log_path dir i) = ''node'' @ nat_str i @ ''_log.json''"
  by (simp_all add: hard_state_path_def log_path_def basename_join slash_free)

text \<open>A name of a node's file ends with its number.\<close>

lemma digits_stop: "takeWhile is_digit (nat_str i @ CHR ''_'' # r) = nat_str i"
  using nat_str_digits [of i] by (simp add: takeWhile_append list_all_iff is_digit_def)

lemma names_inj:
  assumes "''node'' @ nat_str i @ CHR ''_'' # r = ''node'' @ nat_str j @ CHR ''_'' # q"
  shows "i = j \<and> r = q"
proof -
  from assms have e: "nat_str i @ CHR ''_'' # r = nat_str j @ CHR ''_'' # q" by simp
  from arg_cong [OF this, of "takeWhile is_digit"] have "nat_str i = nat_str j" by (simp only: digits_stop)
  with e show ?thesis by (auto dest: nat_str_inj)
qed

lemma paths_apart:
  "hard_state_path dir i \<noteq> log_path dir' j" "i \<noteq> j \<Longrightarrow> hard_state_path dir i \<noteq> hard_state_path dir' j"
  "i \<noteq> j \<Longrightarrow> log_path dir i \<noteq> log_path dir' j"
proof -
  note b = basename_paths
  show "hard_state_path dir i \<noteq> log_path dir' j"
  proof
    assume "hard_state_path dir i = log_path dir' j"
    then have "''hard_state.json'' = ''log.json''" using names_inj b by metis
    then show False by simp
  qed
  show "hard_state_path dir i \<noteq> hard_state_path dir' j" "log_path dir i \<noteq> log_path dir' j" if "i \<noteq> j"
    using that names_inj b by metis+
qed

lemma tmp_apart: "tmp_path p \<noteq> p" "tmp_path p = tmp_path q \<longleftrightarrow> p = q"
  "tmp_path p \<noteq> hard_state_path dir i" "tmp_path p \<noteq> log_path dir i"
proof -
  show "tmp_path p \<noteq> p" "tmp_path p = tmp_path q \<longleftrightarrow> p = q" by (simp_all add: tmp_path_def)
  have e: "last (path_join dir n) = last n" if "n \<noteq> []" for n using that by (simp add: path_join_def)
  have "last (hard_state_path dir i) = CHR ''n''" "last (log_path dir i) = CHR ''n''"
    by (simp_all add: hard_state_path_def log_path_def e)
  moreover have "last (tmp_path p) = CHR ''p''" by (simp add: tmp_path_def)
  ultimately show "tmp_path p \<noteq> hard_state_path dir i" "tmp_path p \<noteq> log_path dir i" by fastforce+
qed

lemmas apart = paths_apart(1) paths_apart(1) [THEN not_sym] tmp_apart(3,4) tmp_apart(3,4) [THEN not_sym]

section \<open>One write is all or nothing\<close>

lemma run_writes: "dget (run_ops (map (Write_to q) ps) d) x = (if x = q \<and> ps \<noteq> [] then Some (dget_or d q '''' @ concat ps) else dget d x)"
proof (induction ps arbitrary: d)
  case (Cons p ps)
  have "run_ops (map (Write_to q) (p # ps)) d = run_ops (map (Write_to q) ps) (dset d q (dget_or d q '''' @ p))" by (simp add: run_ops_def)
  then show ?case by (simp add: Cons dget_or_def)
qed (simp add: run_ops_def)

text \<open>Before the last operation only the temporary file has changed.\<close>

lemma persist_tmp_only:
  assumes "x \<noteq> tmp_path p" shows "dget (run_ops (take k (Open_w (tmp_path p) # map (Write_to (tmp_path p)) ps)) d) x = dget d x"
proof (cases k)
  case (Suc j)
  then have "run_ops (take k (Open_w (tmp_path p) # map (Write_to (tmp_path p)) ps)) d
      = run_ops (map (Write_to (tmp_path p)) (take j ps)) (dset d (tmp_path p) '''')" by (simp add: run_ops_def take_map)
  with assms show ?thesis by (simp add: run_writes)
qed (simp add: run_ops_def)

lemma persist_done:
  assumes "x \<noteq> tmp_path p"
  shows "dget (run_ops (persist_ops p ps) d) x = (if x = p then Some (concat ps) else dget d x)"
proof -
  let ?q = "tmp_path p" let ?d = "run_ops (Open_w ?q # map (Write_to ?q) ps) d"
  have d: "?d = run_ops (map (Write_to ?q) ps) (dset d ?q '''')" by (simp add: run_ops_def)
  have "run_ops (persist_ops p ps) d = do_op (Replace ?q p) ?d" by (simp add: persist_ops_def run_ops_def)
  moreover have "dget ?d ?q = Some (concat ps)" unfolding d run_writes by (cases ps) (simp_all add: dget_or_def run_ops_def)
  moreover have "dget ?d x = dget d x" using assms unfolding d by (simp add: run_writes)
  ultimately show ?thesis using assms by simp
qed

lemma persist_cut:
  assumes "x \<noteq> tmp_path p"
  shows "dget (run_ops (take k (persist_ops p ps)) d) x = dget d x
    \<or> dget (run_ops (take k (persist_ops p ps)) d) x = dget (run_ops (persist_ops p ps) d) x"
proof (cases "k \<le> Suc (length ps)")
  case True
  then have "take k (persist_ops p ps) = take k (Open_w (tmp_path p) # map (Write_to (tmp_path p)) ps)"
    by (simp add: persist_ops_def take_Cons' take_map)
  then show ?thesis using persist_tmp_only [OF assms] by simp
next
  case False
  then have "take k (persist_ops p ps) = persist_ops p ps" by (simp add: persist_ops_def)
  then show ?thesis by simp
qed

section \<open>A process that dies while it writes\<close>

definition on_disk :: "string \<Rightarrow> raft_node \<Rightarrow> disk \<Rightarrow> bool" where
  "on_disk dir nd d \<longleftrightarrow> dget d (hard_state_path dir (node_id nd)) = disk_hard nd \<and> dget d (log_path dir (node_id nd)) = disk_log nd"

definition write_node :: "disk_write \<Rightarrow> raft_node" where
  "write_node w = (case w of Hard nd \<Rightarrow> nd | Log nd \<Rightarrow> nd)"

text \<open>\<open>nd'\<close> differs from \<open>nd\<close> on the disk by the write \<open>w\<close>.\<close>

definition wrote :: "disk_write \<Rightarrow> raft_node \<Rightarrow> raft_node \<Rightarrow> bool" where
  "wrote w nd nd' \<longleftrightarrow> node_id nd' = node_id nd \<and> node_id (write_node w) = node_id nd \<and>
     (case w of Hard x \<Rightarrow> disk_hard nd' = Some (write_text w) \<and> disk_log nd' = disk_log nd
      | Log x \<Rightarrow> disk_hard nd' = disk_hard nd \<and> disk_log nd' = Some (write_text w))"

lemma wrote_path: "wrote w nd nd' \<Longrightarrow> concat ps = write_text w \<Longrightarrow> on_disk dir nd d \<Longrightarrow> on_disk dir nd' (run_ops (persist_ops (write_path dir w) ps) d)"
  by (cases w) (simp_all add: wrote_def on_disk_def write_node_def persist_done apart)

lemma died_first:
  assumes "wrote w nd nd1" "on_disk dir nd d" "died dir (w # ws) d d'"
  shows "on_disk dir nd d' \<or> (\<exists>d1. on_disk dir nd1 d1 \<and> died dir ws d1 d')"
  using assms(3)
proof cases
  case before
  with assms(2) show ?thesis by simp
next
  case (during pieces k)
  let ?D = "run_ops (persist_ops (write_path dir w) pieces) d"
  have new: "on_disk dir nd1 ?D" by (rule wrote_path [OF assms(1) during(2) assms(2)])
  have id: "node_id nd1 = node_id nd" using assms(1) by (simp add: wrote_def)
  have same: "dget ?D x = dget d x" if "x \<noteq> tmp_path (write_path dir w)" "x \<noteq> write_path dir w" for x
    using that by (simp add: persist_done)
  have or: "dget d' x = dget d x \<or> dget d' x = dget ?D x" if "x \<noteq> tmp_path (write_path dir w)" for x
    unfolding during(1) by (rule persist_cut [OF that])
  have "on_disk dir nd d' \<or> on_disk dir nd1 d'"
  proof (cases w)
    case (Hard x)
    then have p: "write_path dir w = hard_state_path dir (node_id nd)" using assms(1) by (simp add: wrote_def write_node_def)
    have "dget d' (log_path dir (node_id nd)) = dget d (log_path dir (node_id nd))"
      using or [of "log_path dir (node_id nd)"] same [of "log_path dir (node_id nd)"] paths_apart(1) [of dir "node_id nd" dir "node_id nd"]
        tmp_apart(4) [of _ dir "node_id nd"] unfolding p by metis
    then show ?thesis using or [of "hard_state_path dir (node_id nd)"] tmp_apart(3) [of _ dir "node_id nd"] assms(1,2) new Hard
      unfolding on_disk_def id by (simp add: wrote_def) metis
  next
    case (Log x)
    then have p: "write_path dir w = log_path dir (node_id nd)" using assms(1) by (simp add: wrote_def write_node_def)
    have "dget d' (hard_state_path dir (node_id nd)) = dget d (hard_state_path dir (node_id nd))"
      using or [of "hard_state_path dir (node_id nd)"] same [of "hard_state_path dir (node_id nd)"] paths_apart(1) [of dir "node_id nd" dir "node_id nd"]
        tmp_apart(3) [of _ dir "node_id nd"] unfolding p by metis
    then show ?thesis using or [of "log_path dir (node_id nd)"] tmp_apart(4) [of _ dir "node_id nd"] assms(1,2) new Log
      unfolding on_disk_def id by (simp add: wrote_def) metis
  qed
  then show ?thesis using died.before by blast
next
  case (after pieces)
  with wrote_path [OF assms(1) after(1) assms(2)] show ?thesis by blast
qed

lemma died_none: "died dir [] d d' \<Longrightarrow> d' = d"
  by (auto elim: died_NilE)

lemma died_last: "wrote w nd nd1 \<Longrightarrow> on_disk dir nd d \<Longrightarrow> died dir [w] d d' \<Longrightarrow> on_disk dir nd d' \<or> on_disk dir nd1 d'"
  using died_first died_none by blast

text \<open>Nobody else's files are touched.\<close>

lemma died_others:
  assumes "died dir ws d d'" "\<forall>w \<in> set ws. node_id (write_node w) \<noteq> node_id nd" "on_disk dir2 nd d"
  shows "on_disk dir2 nd d'"
proof -
  have ap: "hard_state_path dir2 (node_id nd) \<notin> {tmp_path (write_path dir w), write_path dir w}
      \<and> log_path dir2 (node_id nd) \<notin> {tmp_path (write_path dir w), write_path dir w}" if "node_id (write_node w) \<noteq> node_id nd" for w
    using that tmp_apart(3,4) paths_apart paths_apart(1) [symmetric] by (cases w) (auto simp: write_node_def dest: sym)
  from assms show ?thesis
  proof induction
    case (during pieces w ws d k)
    with ap [of w] persist_cut [of _ "write_path dir w" k pieces d] persist_done [of _ "write_path dir w" pieces d]
    show ?case unfolding on_disk_def by (metis insertCI list.set_intros(1))
  next
    case (after pieces w ws d d')
    with ap [of w] have "on_disk dir2 nd (run_ops (persist_ops (write_path dir w) pieces) d)"
      by (simp add: on_disk_def persist_done)
    with after show ?case by simp
  qed
qed

text \<open>The cluster after node \<open>n\<close> was started again from the disk \<open>d\<close>.\<close>

definition started_from :: "string \<Rightarrow> disk \<Rightarrow> nat \<Rightarrow> (nat, addr) dict \<Rightarrow> 's \<Rightarrow> 's cluster \<Rightarrow> 's cluster \<Rightarrow> bool" where
  "started_from dir d n ps sm0 c c' \<longleftrightarrow>
     c_node c' n = init_node n ps (dget d (hard_state_path dir n)) (dget d (log_path dir n)) \<and> c_sm c' n = sm0
     \<and> (\<forall>k. k \<noteq> n \<longrightarrow> c_node c' k = c_node c k)"

lemma restart_from:
  assumes "reachable ids cfg f sm0 c1" "n \<in> ids" "on_disk dir (c_node c1 n) d" "\<forall>k. k \<noteq> n \<longrightarrow> c_node c1 k = c_node c k"
  shows "\<exists>c'. reachable ids cfg f sm0 c' \<and> started_from dir d n (cfg n) sm0 c c'"
proof -
  obtain s where "sim ids cfg c1 s" using assms(1) by (rule reachable_sim)
  from node_simD(6,7) [OF simD(1) [OF this assms(2)]] have nd: "node_id (c_node c1 n) = n" "peers (c_node c1 n) = cfg n" .
  have "reachable ids cfg f sm0 (c_restart sm0 n c1)"
    using assms(1) cstep.restart [OF assms(2), of f sm0 c1] unfolding reachable_def by (meson rtranclp.rtrancl_into_rtrancl)
  moreover have "started_from dir d n (cfg n) sm0 c (c_restart sm0 n c1)"
    using assms(3,4) by (simp add: started_from_def c_restart_def Let_def set_node_def on_disk_def nd)
  ultimately show ?thesis by blast
qed

lemma reachable_step: "reachable ids cfg f sm0 c \<Longrightarrow> cstep ids f sm0 c c' \<Longrightarrow> reachable ids cfg f sm0 c'"
  unfolding reachable_def by (meson rtranclp.rtrancl_into_rtrancl)

lemma wrote_become_follower: "wrote (Hard (become_follower t nd)) nd (become_follower t nd)"
  by (simp add: wrote_def write_node_def) (simp add: node_simps)

lemma wrote_vote:
  assumes "rvr_granted (snd (handle_request_vote a nd))"
  shows "wrote (Hard (fst (handle_request_vote a nd))) (if rv_term a > current_term nd then become_follower (rv_term a) nd else nd)
     (fst (handle_request_vote a nd))"
  using assms by (simp add: wrote_def write_node_def handle_request_vote_def Let_def reset_election_timer_def persist_hard_state_def)

lemma vote_refused: "\<not> rvr_granted (snd (handle_request_vote a nd)) \<Longrightarrow>
    fst (handle_request_vote a nd) = (if rv_term a > current_term nd then become_follower (rv_term a) nd else nd)"
  by (auto simp: handle_request_vote_def Let_def)

lemma wrote_election: "state nd \<noteq> Leader \<Longrightarrow> wrote (Hard (start_election nd)) nd (start_election nd)"
  by (simp add: wrote_def write_node_def start_election_def Let_def persist_hard_state_def)

lemma wrote_begin: "append_entry_begin op fn b cl sq nd = Inr (nd', i, ref) \<Longrightarrow> wrote (Log nd') nd nd'"
  by (auto simp: wrote_def write_node_def append_entry_begin_def Let_def persist_log_def split: if_splits)

lemma wrote_leader: "wrote (Log (become_leader nd)) nd (become_leader nd)"
  by (simp add: wrote_def write_node_def become_leader_def Let_def persist_log_def)

lemma wrote_accept: "ae_accept a nd = (nd', res) \<Longrightarrow> ae_entries a \<noteq> [] \<Longrightarrow> wrote (Log nd') nd nd'"
  by (auto simp: wrote_def write_node_def ae_accept_def Let_def persist_log_def)

text \<open>Where a node that dies can be found: at a state of the cluster it had before a write or has after it.\<close>

definition found_at :: "nat set \<Rightarrow> (nat \<Rightarrow> (nat, addr) dict) \<Rightarrow> (log_entry \<Rightarrow> 's \<Rightarrow> 's \<times> (exn + (string, pyval) dict)) \<Rightarrow> 's
    \<Rightarrow> 's cluster \<Rightarrow> nat \<Rightarrow> raft_node \<Rightarrow> bool" where
  "found_at ids cfg f sm0 c n nd \<longleftrightarrow> (\<exists>c1. reachable ids cfg f sm0 c1 \<and> (\<forall>k. k \<noteq> n \<longrightarrow> c_node c1 k = c_node c k)
     \<and> node_id (c_node c1 n) = node_id nd \<and> disk_hard (c_node c1 n) = disk_hard nd \<and> disk_log (c_node c1 n) = disk_log nd)"

lemma found_same: "reachable ids cfg f sm0 c \<Longrightarrow> found_at ids cfg f sm0 c n (c_node c n)"
  unfolding found_at_def by blast

lemma found_step:
  assumes "reachable ids cfg f sm0 c" "cstep ids f sm0 c c1" "\<forall>k. k \<noteq> n \<longrightarrow> c_node c1 k = c_node c k" "c_node c1 n = nd"
  shows "found_at ids cfg f sm0 c n nd"
  unfolding found_at_def using reachable_step [OF assms(1,2)] assms(3,4) by blast

lemma found_restart:
  assumes "found_at ids cfg f sm0 c n nd" "n \<in> ids" "on_disk dir nd d"
  shows "\<exists>c'. reachable ids cfg f sm0 c' \<and> started_from dir d n (cfg n) sm0 c c'"
proof -
  from assms(1) obtain c1 where c1: "reachable ids cfg f sm0 c1" "\<forall>k. k \<noteq> n \<longrightarrow> c_node c1 k = c_node c k"
    "on_disk dir (c_node c1 n) d" using assms(3) unfolding found_at_def on_disk_def by auto
  from restart_from [OF c1(1) assms(2) c1(3,2)] show ?thesis .
qed

text \<open>At most two writes, of the node as it steps down and as it is in the end.\<close>

lemma died_twice:
  assumes "died dir ((if P then [w1] else []) @ (if Q then [w2] else [])) d d'" "on_disk dir nd d" "n \<in> ids"
    and "found_at ids cfg f sm0 c n nd" "P \<Longrightarrow> wrote w1 nd nd1 \<and> found_at ids cfg f sm0 c n nd1"
    and "\<not> P \<Longrightarrow> node_id nd1 = node_id nd \<and> disk_hard nd1 = disk_hard nd \<and> disk_log nd1 = disk_log nd"
    and "Q \<Longrightarrow> wrote w2 nd1 nd2 \<and> found_at ids cfg f sm0 c n nd2"
  shows "\<exists>c'. reachable ids cfg f sm0 c' \<and> started_from dir d' n (cfg n) sm0 c c'"
proof -
  have second: ?thesis if "died dir (if Q then [w2] else []) x d'" "on_disk dir nd1 x" "found_at ids cfg f sm0 c n nd1" for x
  proof (cases Q)
    case True
    with that(1) have "died dir [w2] x d'" by simp
    from died_last [OF _ that(2) this] assms(7) [OF True] have "on_disk dir nd1 d' \<or> on_disk dir nd2 d'" by blast
    then show ?thesis
      by (rule disjE) (rule found_restart [OF that(3) assms(3)] found_restart [OF conjunct2 [OF assms(7) [OF True]] assms(3)], assumption)+
  next
    case False
    with that(1) have "d' = x" by (simp add: died_none)
    with found_restart [OF that(3) assms(3)] that(2) show ?thesis by simp
  qed
  show ?thesis
  proof (cases P)
    case True
    with assms(1) have "died dir (w1 # (if Q then [w2] else [])) d d'" by simp
    from died_first [OF _ assms(2) this] assms(5) [OF True] show ?thesis
      using found_restart [OF assms(4,3)] second by blast
  next
    case False
    with assms(6) have s: "node_id nd1 = node_id nd" "disk_hard nd1 = disk_hard nd" "disk_log nd1 = disk_log nd" by simp_all
    then have "on_disk dir nd1 d" using assms(2) by (simp add: on_disk_def)
    moreover have "found_at ids cfg f sm0 c n nd1" using assms(4) s by (simp add: found_at_def)
    ultimately show ?thesis using second assms(1) False by simp
  qed
qed

lemmas died_once = died_twice [where P = False, simplified]

lemma crash_vote:
  assumes r: "reachable ids cfg f sm0 c" and n: "n \<in> ids" and a: "a \<in> c_rv c" "n \<noteq> rv_candidate a" "\<not> isolated (c_node c n)"
    and d: "on_disk dir (c_node c n) d" "died dir (vote_writes a (c_node c n)) d d'"
  shows "\<exists>c'. reachable ids cfg f sm0 c' \<and> started_from dir d' n (cfg n) sm0 c c'"
proof (rule died_twice [OF d(2) [unfolded vote_writes_def] d(1) n found_same [OF r]])
  let ?nd = "c_node c n" let ?nd1 = "if rv_term a > current_term ?nd then become_follower (rv_term a) ?nd else ?nd"
  show "wrote (Hard (become_follower (rv_term a) ?nd)) ?nd ?nd1 \<and> found_at ids cfg f sm0 c n ?nd1" if "current_term ?nd < rv_term a"
    using that wrote_become_follower [of "rv_term a" ?nd]
    by (auto intro!: found_step [OF r cstep.cut_vote [OF n a(1,3)]] simp: set_node_def)
  show "node_id ?nd1 = node_id ?nd \<and> disk_hard ?nd1 = disk_hard ?nd \<and> disk_log ?nd1 = disk_log ?nd" if "\<not> current_term ?nd < rv_term a"
    using that by simp
  show "wrote (Hard (fst (handle_request_vote a ?nd))) ?nd1 (fst (handle_request_vote a ?nd))
      \<and> found_at ids cfg f sm0 c n (fst (handle_request_vote a ?nd))" if "rvr_granted (snd (handle_request_vote a ?nd))"
  proof
    show "wrote (Hard (fst (handle_request_vote a ?nd))) ?nd1 (fst (handle_request_vote a ?nd))" by (rule wrote_vote [OF that])
    show "found_at ids cfg f sm0 c n (fst (handle_request_vote a ?nd))"
      by (rule found_step [OF r cstep.recv_vote [OF n a surjective_pairing]]) (simp_all add: set_node_def)
  qed
qed

lemma crash_append:
  assumes r: "reachable ids cfg f sm0 c" and n: "n \<in> ids" and a: "(n, a) \<in> c_ae c" "\<not> isolated (c_node c n)"
    and h: "handle_append_entries a (c_node c n) = (nd', Inr rp)"
    and d: "on_disk dir (c_node c n) d" "died dir (append_writes a (c_node c n)) d d'"
  shows "\<exists>c'. reachable ids cfg f sm0 c' \<and> started_from dir d' n (cfg n) sm0 c c'"
proof (cases "ae_term a < current_term (c_node c n)")
  case True
  with d have "on_disk dir (c_node c n) d'" by (auto simp: append_writes_def dest: died_none)
  with found_restart [OF found_same [OF r] n] show ?thesis .
next
  case False
  let ?nd = "c_node c n" and ?P = "ae_term a > current_term (c_node c n) \<or> state (c_node c n) = Candidate"
  have w: "died dir ((if ?P then [Hard (become_follower (ae_term a) ?nd)] else []) @ (if aer_success rp \<and> ae_entries a \<noteq> [] then [Log nd'] else [])) d d'"
    using d(2) False by (simp add: append_writes_def h)
  show ?thesis
  proof (rule died_twice [OF w d(1) n found_same [OF r]])
    have disk: "disk_hard (ae_follow a ?nd) = disk_hard (if ?P then become_follower (ae_term a) ?nd else ?nd)"
      "disk_log (ae_follow a ?nd) = disk_log ?nd" by (auto simp: ae_follow_def Let_def reset_election_timer_def)
    show "node_id (ae_follow a ?nd) = node_id ?nd \<and> disk_hard (ae_follow a ?nd) = disk_hard ?nd \<and> disk_log (ae_follow a ?nd) = disk_log ?nd"
      if "\<not> ?P" using disk that by auto
    show "wrote (Hard (become_follower (ae_term a) ?nd)) ?nd (ae_follow a ?nd) \<and> found_at ids cfg f sm0 c n (ae_follow a ?nd)" if p: ?P
    proof
      have w: "wrote (Hard (become_follower (ae_term a) ?nd)) ?nd (become_follower (ae_term a) ?nd)" by (rule wrote_become_follower)
      with disk p show "wrote (Hard (become_follower (ae_term a) ?nd)) ?nd (ae_follow a ?nd)" unfolding wrote_def by simp
      from p False have "current_term ?nd < ae_term a \<or> current_term ?nd = ae_term a \<and> state ?nd = Candidate" by auto
      then have "found_at ids cfg f sm0 c n (become_follower (ae_term a) ?nd)"
        by (intro found_step [OF r cstep.cut_append [OF a]]) (simp_all add: set_node_def)
      with disk p show "found_at ids cfg f sm0 c n (ae_follow a ?nd)" unfolding found_at_def by simp
    qed
    show "wrote (Log nd') (ae_follow a ?nd) nd' \<and> found_at ids cfg f sm0 c n nd'" if s: "aer_success rp \<and> ae_entries a \<noteq> []"
    proof
      from h s False have "ae_accept a (ae_follow a ?nd) = (nd', Inr rp)"
        by (auto simp: handle_append_entries_def Let_def ae_reject_def split: if_splits)
      then show "wrote (Log nd') (ae_follow a ?nd) nd'" using s by (rule wrote_accept [OF _ conjunct2])
      show "found_at ids cfg f sm0 c n nd'" by (rule found_step [OF r cstep.recv_append [OF a h]]) (simp_all add: set_node_def)
    qed
  qed
qed

text \<open>The handlers that write at most once.\<close>

lemma crash_once:
  assumes "reachable ids cfg f sm0 c" "n \<in> ids" "on_disk dir (c_node c n) d" "died dir (if Q then [w] else []) d d'"
    and "Q \<Longrightarrow> wrote w (c_node c n) nd" "Q \<Longrightarrow> cstep ids f sm0 c c1 \<and> (\<forall>k. k \<noteq> n \<longrightarrow> c_node c1 k = c_node c k) \<and> c_node c1 n = nd"
  shows "\<exists>c'. reachable ids cfg f sm0 c' \<and> started_from dir d' n (cfg n) sm0 c c'"
proof (rule died_twice [where P = False and nd = "c_node c n" and ?nd1.0 = "c_node c n" and ?nd2.0 = nd and Q = Q and ?w2.0 = w and d = d])
  show "died dir ((if False then [w1] else []) @ (if Q then [w] else [])) d d'" for w1 using assms(4) by simp
  show "wrote w (c_node c n) nd \<and> found_at ids cfg f sm0 c n nd" if Q
    using assms(5) [OF that] assms(6) [OF that] found_step [OF assms(1)] by blast
qed (use assms(2,3) found_same [OF assms(1)] in simp_all)

lemma crash_reply:
  assumes "reachable ids cfg f sm0 c" "n \<in> ids" "on_disk dir (c_node c n) d" "died dir (reply_writes t (c_node c n)) d d'"
    and "t > current_term (c_node c n) \<Longrightarrow> cstep ids f sm0 c c1 \<and> (\<forall>k. k \<noteq> n \<longrightarrow> c_node c1 k = c_node c k) \<and> c_node c1 n = become_follower t (c_node c n)"
  shows "\<exists>c'. reachable ids cfg f sm0 c' \<and> started_from dir d' n (cfg n) sm0 c c'"
  by (rule crash_once [OF assms(1-3) assms(4) [unfolded reply_writes_def] wrote_become_follower]) (use assms(5) in blast)

lemma finish_leader:
  assumes "dget (ballots nd) t = Some b" "state nd = Candidate" "current_term nd = t" "b_votes b \<ge> b_needed b"
  shows "wrote (Log (finish_election t nd)) nd (finish_election t nd)"
proof -
  have "finish_election t nd = become_leader (nd\<lparr>ballots := dpop (ballots nd) t\<rparr>)" using assms by (simp add: finish_election_def)
  with wrote_leader [of "nd\<lparr>ballots := dpop (ballots nd) t\<rparr>"] show ?thesis by (simp add: wrote_def)
qed

lemma node_id_kept:
  "node_id (start_election nd) = node_id nd" "node_id (fst (handle_request_vote a nd)) = node_id nd"
  "node_id (finish_election t nd) = node_id nd" "append_entry_begin op fn b cl sq nd = Inr (nd', i, ref) \<Longrightarrow> node_id nd' = node_id nd"
  "handle_append_entries ae nd = (nd', res) \<Longrightarrow> node_id nd' = node_id nd"
proof -
  show "node_id (start_election nd) = node_id nd" "node_id (fst (handle_request_vote a nd)) = node_id nd"
    "node_id (finish_election t nd) = node_id nd"
    by (simp_all add: start_election_def handle_request_vote_def finish_election_def become_leader_def Let_def persist_hard_state_def
        persist_log_def reset_election_timer_def split: option.split)
  show "append_entry_begin op fn b cl sq nd = Inr (nd', i, ref) \<Longrightarrow> node_id nd' = node_id nd"
    by (auto simp: append_entry_begin_def Let_def persist_log_def split: if_splits)
  have "node_id (fst (ae_accept ae x)) = node_id x" for x by (simp add: ae_accept_def Let_def persist_log_def)
  then show "handle_append_entries ae nd = (nd', res) \<Longrightarrow> node_id nd' = node_id nd"
    by (elim append_entries_cases) (auto dest: arg_cong [where f = fst])
qed

lemma writing_own:
  assumes "writing ids f sm0 c n ws c2" shows "\<forall>w \<in> set ws. node_id (write_node w) = node_id (c_node c n)"
  using assms
proof cases
  case (w_vote a nd r)
  then show ?thesis using node_id_kept(2) [of a "c_node c n"] by (auto simp: vote_writes_def write_node_def)
next
  case (w_append a nd r)
  then show ?thesis by (auto simp: append_writes_def write_node_def node_id_kept(5))
next
  case (w_client op fn b cl sq nd i ref)
  then show ?thesis by (simp add: write_node_def node_id_kept(4))
qed (auto simp: election_writes_def reply_writes_def finish_writes_def write_node_def node_id_kept split: option.splits)

text \<open>
  C9. A node may die at any moment: of a node of a reachable cluster whose files hold its persistent
  state, take any step that writes them (an election, a vote, an append request, a reply, a client's
  command, winning an election) and stop its process between any two file operations, also in the middle of
  a text. Started again from what is then in the directory, the node is one of a reachable cluster in
  which every other node is as it was, so all that is proved of clusters goes on to hold; and no other
  node's files have changed, even in one directory.
\<close>

theorem raft_crash_any_write:
  assumes r: "reachable ids cfg f sm0 c" and w: "writing ids f sm0 c n ws c2"
    and d: "on_disk dir (c_node c n) d" "died dir ws d d'"
  shows "(\<exists>c'. reachable ids cfg f sm0 c' \<and> started_from dir d' n (cfg n) sm0 c c')
    \<and> (\<forall>nd dir2. node_id nd \<noteq> n \<longrightarrow> on_disk dir2 nd d \<longrightarrow> on_disk dir2 nd d')"
proof
  from w have n: "n \<in> ids" by cases simp_all
  obtain s where s: "sim ids cfg c s" using r by (rule reachable_sim)
  then have id: "node_id (c_node c n) = n" using node_simD(6) [OF simD(1) [OF s n]] by simp
  show "\<exists>c'. reachable ids cfg f sm0 c' \<and> started_from dir d' n (cfg n) sm0 c c'"
    using w
  proof cases
    case w_timeout
    show ?thesis
      by (rule crash_once [OF r n d(1), where Q = "state (c_node c n) \<noteq> Leader" and w = "Hard (start_election (c_node c n))"
            and ?c1.0 = c2 and nd = "start_election (c_node c n)"])
        (use d(2) w_timeout cstep.timeout [OF w_timeout(3,4)] wrote_election in \<open>auto simp: election_writes_def set_node_def\<close>)
  next
    case (w_vote a nd rp)
    with crash_vote [OF r n w_vote(4-6) d(1)] d(2) show ?thesis by simp
  next
    case (w_vote_reply v a rp)
    show ?thesis
    proof (rule crash_reply [OF r n d(1)])
      show "died dir (reply_writes (rvr_term rp) (c_node c n)) d d'" using d(2) w_vote_reply(1) by simp
      show "cstep ids f sm0 c c2 \<and> (\<forall>k. k \<noteq> n \<longrightarrow> c_node c2 k = c_node c k) \<and> c_node c2 n = become_follower (rvr_term rp) (c_node c n)"
        if "current_term (c_node c n) < rvr_term rp"
        using cstep.vote_reply [OF w_vote_reply(3,4,6), of ids f sm0] w_vote_reply(2) that by (simp add: handle_vote_reply_def set_node_def)
    qed
  next
    case (w_finish t)
    show ?thesis
      by (rule crash_once [OF r n d(1), where w = "Log (finish_election t (c_node c n))" and ?c1.0 = c2 and nd = "finish_election t (c_node c n)"
            and Q = "\<exists>b. dget (ballots (c_node c n)) t = Some b \<and> state (c_node c n) = Candidate \<and> current_term (c_node c n) = t \<and> b_votes b \<ge> b_needed b"])
        (use d(2) w_finish cstep.finish [OF n] finish_leader in \<open>auto simp: finish_writes_def set_node_def split: option.splits if_splits\<close>)
  next
    case (w_append a nd rp)
    with crash_append [OF r n w_append(3,5,6) d(1)] d(2) show ?thesis by simp
  next
    case (w_append_reply p a rp)
    show ?thesis
    proof (rule crash_reply [OF r n d(1)])
      show "died dir (reply_writes (aer_term rp) (c_node c n)) d d'" using d(2) w_append_reply(1) by simp
      show "cstep ids f sm0 c c2 \<and> (\<forall>k. k \<noteq> n \<longrightarrow> c_node c2 k = c_node c k) \<and> c_node c2 n = become_follower (aer_term rp) (c_node c n)"
        if "current_term (c_node c n) < aer_term rp"
        using cstep.append_reply [OF w_append_reply(3,4,6), of ids f sm0] w_append_reply(2) that by (simp add: handle_append_reply_def set_node_def)
    qed
  next
    case (w_client op fn b cl sq nd i ref)
    show ?thesis
      by (rule crash_once [OF r n d(1), where Q = True and w = "Log nd" and ?c1.0 = c2 and nd = nd])
        (use d(2) w_client wrote_begin cstep.client [OF n w_client(4)] in \<open>auto simp: set_node_def\<close>)
  qed
  have "\<forall>x \<in> set ws. node_id (write_node x) = n" using writing_own [OF w] id by simp
  then show "\<forall>nd dir2. node_id nd \<noteq> n \<longrightarrow> on_disk dir2 nd d \<longrightarrow> on_disk dir2 nd d'"
    using died_others [OF d(2)] by metis
qed

text \<open>Node 1 of the small run dies after it has stepped down, before its vote is on the disk.\<close>

theorem raft_crash_any_write_witness:
  "\<exists>d' c'. dget d' (hard_state_path ''r'' 1) = Some (dumps (hard_state_json 1 None))
    \<and> reachable demo_ids demo_cfg demo_apply [] c' \<and> started_from ''r'' d' 1 (demo_cfg 1) [] demo_2 c'"
proof -
  let ?nd = "c_node demo_2 1" and ?w = "Hard (become_follower 1 (c_node demo_2 1))"
  let ?d = "run_ops (persist_ops (write_path ''r'' ?w) [write_text ?w]) []"
  have nd: "?nd = init_node 1 (demo_cfg 1) None None" by (simp add: demo_2_def demo_1_def demo_0_def c_init_def set_node_def)
  have r: "reachable demo_ids demo_cfg demo_apply [] demo_2"
    using config reachable_step [OF reachable_step [OF _ single_steps_5(1)] single_steps_5(2)] by (simp add: reachable_def demo_0_def)
  have w: "writing demo_ids demo_apply [] demo_2 1 (vote_writes demo_rv ?nd) demo_3"
    unfolding demo_3_eq
    by (rule w_vote [OF _ _ _ _ vote_3]) (simp_all add: demo_ids_def demo_2_def demo_1_def demo_0_def c_init_def init_node_fresh_eq demo_rv_def set_node_def)
  have "on_disk ''r'' ?nd []" unfolding on_disk_def nd by (simp add: init_node_fresh_eq)
  moreover have "vote_writes demo_rv ?nd = ?w # [Hard (fst (handle_request_vote demo_rv ?nd))]"
  proof -
    have "current_term ?nd = 0" "rv_term demo_rv = 1" unfolding nd by (simp_all add: init_node_fresh_eq demo_rv_def)
    then show ?thesis unfolding vote_writes_def vote_3 by simp
  qed
  moreover have "died ''r'' (?w # [Hard (fst (handle_request_vote demo_rv ?nd))]) [] ?d" by (rule died.after [OF _ died.before]) simp
  ultimately have "on_disk ''r'' ?nd []" "died ''r'' (vote_writes demo_rv ?nd) [] ?d" by (simp_all only:)
  then obtain c' where "reachable demo_ids demo_cfg demo_apply [] c'" "started_from ''r'' ?d 1 (demo_cfg 1) [] demo_2 c'"
    using raft_crash_any_write [OF r w] by blast
  moreover have "dget ?d (hard_state_path ''r'' 1) = Some (dumps (hard_state_json 1 None))"
  proof -
    have "node_id (become_follower 1 ?nd) = 1" unfolding nd by (simp add: init_node_fresh_eq)
    then show ?thesis by (simp add: persist_done apart)
  qed
  ultimately show ?thesis by blast
qed

end
