(* ===== verification/Ml_Data.thy ===== *)
theory Ml_Data
  imports Ml_Progress Json "HOL-Library.Multiset" "HOL-Library.List_Lexorder" "HOL-Library.Char_ord"
begin

text \<open>
  The data set the trainer works on: \<open>make_dataset\<close> of \<open>part4_5_compute/ml_datamaker.py\<close>, which writes
  the shard files, and the listing of them in \<open>MLCoordinator.__init__\<close>.

  The random generator is a record of functions on its state, one per method the program calls. The
  directory is the dictionary of its text files; \<open>stuck\<close> and \<open>blocked\<close> say of which files \<open>unlink\<close> and
  opening for writing raise \<open>OSError\<close>. What is written is in the file when the generator returns, as it
  closes every file.
\<close>

section \<open>Random draws\<close>

record 's rng =
  rg_uniform :: "real \<Rightarrow> real \<Rightarrow> 's \<Rightarrow> real \<times> 's"
  rg_gauss :: "real \<Rightarrow> real \<Rightarrow> 's \<Rightarrow> real \<times> 's"
  rg_random :: "'s \<Rightarrow> real \<times> 's"

text \<open>\<open>[f() for _ in range(n)]\<close>\<close>

fun draws :: "nat \<Rightarrow> ('s \<Rightarrow> 'a \<times> 's) \<Rightarrow> 's \<Rightarrow> 'a list \<times> 's" where
  "draws 0 f s = ([], s)"
| "draws (Suc n) f s = (let (x, s1) = f s; (xs, s2) = draws n f s1 in (x # xs, s2))"

definition true_model :: "'s rng \<Rightarrow> int \<Rightarrow> 's \<Rightarrow> (real list \<times> real) \<times> 's" where
  "true_model g num_features s =
     (let (w, s1) = draws (nat num_features) (rg_uniform g (-2) 2) s; (b, s2) = rg_uniform g (-1) 1 s1 in ((w, b), s2))"

definition draw_sample :: "'s rng \<Rightarrow> int \<Rightarrow> real \<Rightarrow> real list \<times> real \<Rightarrow> 's \<Rightarrow> sample \<times> 's" where
  "draw_sample g num_features noise wb s =
     (let (x, s1) = draws (nat num_features) (rg_gauss g 0 1) s;
          z = dot (fst wb) x + snd wb;
          y = (if z > 0 then 1 else 0);
          (r, s2) = rg_random g s1
      in ((x, if r < noise then 1 - y else y), s2))"

section \<open>Rows\<close>

text \<open>\<open>f"{v:.6f}"\<close>: rounded to the nearest millionth, a tie to the even one.\<close>

definition round_even :: "real \<Rightarrow> int" where
  "round_even x = (let f = \<lfloor>x\<rfloor>; r = x - of_int f in if r < 1 / 2 \<or> r = 1 / 2 \<and> even f then f else f + 1)"

definition millionths :: "real \<Rightarrow> nat" where
  "millionths v = nat (round_even (\<bar>v\<bar> * 10 ^ 6))"

definition pad6 :: "nat \<Rightarrow> string" where
  "pad6 n = replicate (6 - length (nat_str n)) (CHR ''0'') @ nat_str n"

definition fixed6 :: "real \<Rightarrow> string" where
  "fixed6 v = (if v < 0 then ''-'' else '''') @ nat_str (millionths v div 10 ^ 6) @ ''.'' @ pad6 (millionths v mod 10 ^ 6)"

fun comma_join :: "string list \<Rightarrow> string" where
  "comma_join [] = ''''"
| "comma_join [a] = a"
| "comma_join (a # b # rest) = a @ '','' @ comma_join (b # rest)"

definition sample_row :: "sample \<Rightarrow> string" where
  "sample_row r = comma_join (map fixed6 (fst r)) @ '','' @ int_str (snd r) @ [CHR 0x0A]"

section \<open>Writing the shards\<close>

datatype gen_exn = ZeroDivisionError | ShardIndexError | OSError string

record data_meta =
  mt_features :: int
  mt_shards :: int
  mt_samples :: int
  mt_true :: "real list \<times> real"

record data_dir =
  dd_files :: "(string, string) dict"
  dd_meta :: "data_meta option"

definition shard_name :: "nat \<Rightarrow> string" where
  "shard_name i = ''shard_'' @ nat_str i @ ''.csv''"

text \<open>The pattern \<open>shard_*.csv\<close>.\<close>

definition is_shard :: "string \<Rightarrow> bool" where
  "is_shard n \<longleftrightarrow> startswith n ''shard_'' \<and> 10 \<le> length n \<and> drop (length n - 4) n = ''.csv''"

definition remove_shards :: "(string \<Rightarrow> bool) \<Rightarrow> (string, string) dict \<Rightarrow> (string, string) dict" where
  "remove_shards stuck fs = filter (\<lambda>p. \<not> is_shard (fst p) \<or> stuck (fst p)) fs"

text \<open>Opening shard \<open>i\<close> and the \<open>n - 1\<close> after it; each is truncated.\<close>

fun open_shards :: "(string \<Rightarrow> bool) \<Rightarrow> nat \<Rightarrow> nat \<Rightarrow> (string, string) dict \<Rightarrow> (string, string) dict \<times> gen_exn option" where
  "open_shards blocked 0 i fs = (fs, None)"
| "open_shards blocked (Suc n) i fs =
     (if blocked (shard_name i) then (fs, Some (OSError (shard_name i)))
      else open_shards blocked n (Suc i) (dset fs (shard_name i) ''''))"

definition append_row :: "nat \<Rightarrow> string \<Rightarrow> (string, string) dict \<Rightarrow> (string, string) dict" where
  "append_row j row fs = dset fs (shard_name j) (dget_or fs (shard_name j) '''' @ row)"

text \<open>The loop, with \<open>n\<close> samples to go. A negative number of shards opens no file, and no index is in range.\<close>

fun write_rows ::
  "'s rng \<Rightarrow> int \<Rightarrow> real \<Rightarrow> int \<Rightarrow> real list \<times> real \<Rightarrow> nat \<Rightarrow> nat \<Rightarrow> 's \<Rightarrow> (string, string) dict
   \<Rightarrow> (string, string) dict \<times> gen_exn option" where
  "write_rows g d noise k wb 0 i s fs = (fs, None)"
| "write_rows g d noise k wb (Suc n) i s fs =
     (let (r, s') = draw_sample g d noise wb s in
      if k = 0 then (fs, Some ZeroDivisionError)
      else if k < 0 then (fs, Some ShardIndexError)
      else write_rows g d noise k wb n (Suc i) s' (append_row (i mod nat k) (sample_row r) fs))"

definition make_dataset ::
  "'s rng \<Rightarrow> (string \<Rightarrow> bool) \<Rightarrow> (string \<Rightarrow> bool) \<Rightarrow> int \<Rightarrow> int \<Rightarrow> int \<Rightarrow> real \<Rightarrow> 's \<Rightarrow> data_dir \<Rightarrow> data_dir \<times> gen_exn option" where
  "make_dataset g stuck blocked num_samples num_features num_shards noise seed dir =
     (let (wb, s) = true_model g num_features seed;
          fs0 = remove_shards stuck (dd_files dir)
      in case open_shards blocked (nat num_shards) 0 fs0 of
           (fs1, Some e) \<Rightarrow> (dir\<lparr>dd_files := fs1\<rparr>, Some e)
         | (fs1, None) \<Rightarrow>
             (case write_rows g num_features noise num_shards wb (nat num_samples) 0 s fs1 of
                (fs2, Some e) \<Rightarrow> (dir\<lparr>dd_files := fs2\<rparr>, Some e)
              | (fs2, None) \<Rightarrow>
                  if blocked ''meta.json'' then (dir\<lparr>dd_files := fs2\<rparr>, Some (OSError ''meta.json''))
                  else (dir\<lparr>dd_files := fs2,
                            dd_meta := Some \<lparr>mt_features = num_features, mt_shards = num_shards,
                                             mt_samples = num_samples, mt_true = wb\<rparr>\<rparr>, None)))"

text \<open>\<open>sorted(os.path.basename(p) for p in glob.glob(...))\<close>\<close>

definition shard_names :: "data_dir \<Rightarrow> string list" where
  "shard_names dir = sort (filter is_shard (dkeys (dd_files dir)))"

section \<open>A row is read back as it was rounded\<close>

definition to_six :: "real \<Rightarrow> real" where
  "to_six v = (if v < 0 then -1 else 1) * (real (millionths v) / 10 ^ 6)"

definition read_back :: "sample \<Rightarrow> sample" where
  "read_back r = (map to_six (fst r) @ [1], snd r)"

lemma round_even_close: "\<bar>of_int (round_even x) - x\<bar> \<le> 1 / 2"
  unfolding round_even_def Let_def using of_int_floor_le [of x] floor_less_iff [of x "\<lfloor>x\<rfloor> + 1"] by (auto; linarith)

lemma to_six_close: "\<bar>to_six v - v\<bar> \<le> 1 / 2000000"
proof -
  have "0 \<le> round_even (\<bar>v\<bar> * 10 ^ 6)" by (simp add: round_even_def Let_def)
  then have "real (millionths v) = of_int (round_even (\<bar>v\<bar> * 10 ^ 6))" by (simp add: millionths_def)
  with round_even_close [of "\<bar>v\<bar> * 10 ^ 6"] have "\<bar>real (millionths v) - \<bar>v\<bar> * 10 ^ 6\<bar> \<le> 1 / 2" by metis
  then show ?thesis unfolding to_six_def by (simp add: abs_if field_simps split: if_splits)
qed

lemma length_nat_str: "n < 10 ^ Suc k \<Longrightarrow> length (nat_str n) \<le> Suc k"
proof (induction k arbitrary: n)
  case (Suc k)
  then have "n div 10 < 10 ^ Suc k" by simp
  with Suc.IH [of "n div 10"] show ?case by (simp add: nat_str.simps [of n])
qed (simp add: nat_str.simps)

lemma digits_val_zeros: "digits_val (replicate k (CHR ''0'') @ s) = digits_val s"
proof -
  have "foldl (\<lambda>a c. 10 * a + digit_val c) 0 (replicate k (CHR ''0'')) = 0"
    by (induction k) (simp_all add: digit_val_def)
  then show ?thesis by (simp add: digits_val_def)
qed

lemma pad6_facts:
  assumes "n < 10 ^ 6"
  shows "length (pad6 n) = 6" "unsigned_int (pad6 n) = Some n" "CHR ''.'' \<notin> set (pad6 n)" "list_all is_digit (pad6 n)"
proof -
  show "length (pad6 n) = 6" using length_nat_str [of n 5] assms by (simp add: pad6_def)
  show d: "list_all is_digit (pad6 n)" using nat_str_digits [of n] by (auto simp: pad6_def list_all_iff is_digit_def)
  then show "CHR ''.'' \<notin> set (pad6 n)" by (auto simp: list_all_iff is_digit_def)
  show "unsigned_int (pad6 n) = Some n"
    using d by (simp add: unsigned_int_def pad6_def digits_val_zeros)
qed

lemma unsigned_int_nat_str [simp]: "unsigned_int (nat_str n) = Some n"
  using nat_str_digits [of n] by (simp add: unsigned_int_def)

lemma unsigned_float_printed: "unsigned_float (nat_str (n div 10 ^ 6) @ ''.'' @ pad6 (n mod 10 ^ 6)) = Some (real n / 10 ^ 6)"
proof -
  have "CHR ''.'' \<notin> set (nat_str (n div 10 ^ 6))" by (rule not_digit_in_nat_str) (simp add: is_digit_def)
  then have "split_at_char (CHR ''.'') (nat_str (n div 10 ^ 6) @ ''.'' @ pad6 (n mod 10 ^ 6))
    = (nat_str (n div 10 ^ 6), Some (pad6 (n mod 10 ^ 6)))" by (simp add: split_at_char_append)
  moreover have "real (n div 10 ^ 6) + real (n mod 10 ^ 6) / 10 ^ 6 = real n / 10 ^ 6"
  proof -
    have "real n = real (n div 10 ^ 6 * 10 ^ 6 + n mod 10 ^ 6)" by simp
    also have "\<dots> = real (n div 10 ^ 6) * 10 ^ 6 + real (n mod 10 ^ 6)" by (simp only: of_nat_add of_nat_mult) simp
    finally show ?thesis by (simp add: field_simps)
  qed
  ultimately show ?thesis using pad6_facts [of "n mod 10 ^ 6"] by (simp add: unsigned_float_def)
qed

lemma py_float_fixed6: "py_float (fixed6 v) = Inr (to_six v)"
proof (cases "v < 0")
  case True
  then show ?thesis using unsigned_float_printed [of "millionths v"] by (simp add: py_float_def fixed6_def to_six_def)
next
  case False
  obtain c r where cr: "nat_str (millionths v div 10 ^ 6) = c # r" by (metis list.exhaust nat_str_nonempty)
  then have "is_digit c" using nat_str_digits [of "millionths v div 10 ^ 6"] by simp
  then have "c \<noteq> CHR ''-''" by (auto simp: is_digit_def)
  with False cr show ?thesis using unsigned_float_printed [of "millionths v"] by (simp add: py_float_def fixed6_def to_six_def)
qed

text \<open>What a row is made of: no blank but the last character, and a comma only between the numbers.\<close>

definition plain_text :: "string \<Rightarrow> bool" where
  "plain_text s \<longleftrightarrow> (\<forall>c \<in> set s. is_digit c \<or> c = CHR ''-'' \<or> c = CHR ''.'')"

lemma plain_fixed6: "plain_text (fixed6 v)"
  using nat_str_digits [of "millionths v div 10 ^ 6"] pad6_facts(4) [of "millionths v mod 10 ^ 6"]
  by (auto simp: plain_text_def fixed6_def list_all_iff)

lemma plain_int: "plain_text (int_str i)"
  using nat_str_digits [of "nat i"] nat_str_digits [of "nat (- i)"] by (auto simp: plain_text_def int_str_def list_all_iff)

lemma plain_no: "plain_text s \<Longrightarrow> CHR '','' \<notin> set s" "plain_text s \<Longrightarrow> c \<in> set s \<Longrightarrow> \<not> blank c"
  by (auto simp: plain_text_def is_digit_def blank_def)

lemma split_on_step: "c \<notin> set a \<Longrightarrow> split_on c (a @ c # b) = a # split_on c b"
  by (induction a) auto

lemma split_comma_join:
  "\<forall>s \<in> set ss. CHR '','' \<notin> set s \<Longrightarrow> CHR '','' \<notin> set l \<Longrightarrow> ss \<noteq> [] \<Longrightarrow> split_on (CHR '','') (comma_join ss @ '','' @ l) = ss @ [l]"
  by (induction ss rule: comma_join.induct) (simp_all add: split_on_step split_on_none)

lemma py_int_str: "py_int (int_str i) = Inr i"
proof (cases "i < 0")
  case False
  obtain c r where cr: "nat_str (nat i) = c # r" by (metis list.exhaust nat_str_nonempty)
  then have "is_digit c" using nat_str_digits [of "nat i"] by simp
  then have "c \<noteq> CHR ''-''" by (auto simp: is_digit_def)
  with False show ?thesis using unsigned_int_nat_str [of "nat i"] by (simp add: py_int_def int_str_def cr)
qed (simp add: py_int_def int_str_def)

lemma floats_fixed6: "floats (map fixed6 xs) = Inr (map to_six xs)"
  by (induction xs) (simp_all add: py_float_fixed6)

definition row_text :: "sample \<Rightarrow> string" where
  "row_text r = comma_join (map fixed6 (fst r)) @ '','' @ int_str (snd r)"

lemma sample_row_text: "sample_row r = row_text r @ [CHR 0x0A]"
  by (simp add: sample_row_def row_text_def)

lemma split_row: "fst r \<noteq> [] \<Longrightarrow> split_on (CHR '','') (row_text r) = map fixed6 (fst r) @ [int_str (snd r)]"
  unfolding row_text_def by (rule split_comma_join) (auto simp: plain_no(1) plain_fixed6 plain_int)

lemma parse_row: "fst r \<noteq> [] \<Longrightarrow> parse_line (row_text r) = Inr (read_back r)"
  by (simp add: parse_line_def split_row floats_fixed6 py_int_str read_back_def)

lemma set_comma_join: "set (comma_join ss) \<subseteq> insert (CHR '','') (\<Union>(set ` set ss))"
  by (induction ss rule: comma_join.induct) auto

lemma row_no_blank: "c \<in> set (row_text r) \<Longrightarrow> \<not> blank c"
  using set_comma_join [of "map fixed6 (fst r)"] plain_no(2) [OF plain_fixed6] plain_no(2) [OF plain_int]
  by (fastforce simp: row_text_def blank_def)

lemma dropWhile_none: "\<forall>c \<in> set s. \<not> P c \<Longrightarrow> dropWhile P s = s"
  by (cases s) auto

lemma strip_row: "strip_line (row_text r) = row_text r"
  by (simp add: strip_line_def dropWhile_none row_no_blank)

lemma split_rows: "split_on (CHR 0x0A) (concat (map sample_row rs)) = map row_text rs @ [[]]"
proof (induction rs)
  case (Cons r rs)
  have nb: "CHR 0x0A \<notin> set (row_text r)" using row_no_blank [of "CHR 0x0A" r] by (auto simp: blank_def)
  have eq: "concat (map sample_row (r # rs)) = row_text r @ CHR 0x0A # concat (map sample_row rs)" by (simp add: sample_row_text)
  show ?case unfolding eq split_on_step [OF nb] Cons by simp
qed simp

lemma parse_rows: "\<forall>r \<in> set rs. fst r \<noteq> [] \<Longrightarrow> parse_shard (concat (map sample_row rs)) = Inr (map read_back rs)"
  unfolding parse_shard_def split_rows
proof (induction rs)
  case (Cons r rs)
  then show ?case by (simp add: strip_row parse_row) (simp add: row_text_def)
qed (simp add: strip_line_def)

section \<open>What the files hold\<close>

text \<open>The samples of shard \<open>j\<close> when \<open>rs\<close> are dealt to \<open>k\<close> shards, from number \<open>i\<close> on.\<close>

fun dealt :: "nat \<Rightarrow> nat \<Rightarrow> sample list \<Rightarrow> nat \<Rightarrow> sample list" where
  "dealt k i [] j = []"
| "dealt k i (r # rs) j = (if i mod k = j then r # dealt k (Suc i) rs j else dealt k (Suc i) rs j)"

lemma dealt_all: "0 < k \<Longrightarrow> (\<Sum>j<k. mset (dealt k i rs j)) = mset rs"
proof (induction rs arbitrary: i)
  case (Cons r rs)
  have "(\<Sum>j<k. mset (dealt k i (r # rs) j)) = (\<Sum>j<k. (if i mod k = j then {#r#} else {#}) + mset (dealt k (Suc i) rs j))"
    by (rule sum.cong) auto
  then show ?case using Cons by (simp add: sum.distrib)
qed simp

lemma dealt_subset: "set (dealt k i rs j) \<subseteq> set rs"
  by (induction rs arbitrary: i) auto

lemma shard_name_inj [simp]: "shard_name i = shard_name j \<longleftrightarrow> i = j"
  by (auto simp: shard_name_def dest: nat_str_inj)

lemma shard_name_is: "is_shard (shard_name i)"
  by (simp add: is_shard_def shard_name_def startswith_def Suc_le_eq)

text \<open>After the loop shard \<open>j\<close> has the rows of the samples dealt to it.\<close>

lemma write_rows_ok:
  assumes "write_rows g d noise k wb n i s fs = (fs', None)" "0 < k" "\<forall>j < nat k. dget fs (shard_name j) \<noteq> None"
  shows "(\<forall>j < nat k. dget fs' (shard_name j) =
      Some (dget_or fs (shard_name j) '''' @ concat (map sample_row (dealt (nat k) i (fst (draws n (draw_sample g d noise wb) s)) j))))
    \<and> (wf_dict fs \<longrightarrow> wf_dict fs') \<and> fst ` set fs' = fst ` set fs"
  using assms(1,3)
proof (induction n arbitrary: i s fs)
  case 0
  then show ?case by (auto simp: dget_or_def)
next
  case (Suc n)
  obtain r s' where r: "draw_sample g d noise wb s = (r, s')" by (rule that [OF surjective_pairing])
  let ?j = "i mod nat k"
  let ?fs = "append_row ?j (sample_row r) fs"
  from Suc.prems(1) r \<open>0 < k\<close> have w: "write_rows g d noise k wb n (Suc i) s' ?fs = (fs', None)" by simp
  have j: "?j < nat k" using \<open>0 < k\<close> by simp
  with Suc.prems(2) have *: "\<forall>j < nat k. dget ?fs (shard_name j) \<noteq> None" by (auto simp: append_row_def)
  from j Suc.prems(2) have keys: "fst ` set ?fs = fst ` set fs"
    by (auto simp: append_row_def keys_dset dget_None_iff)
  have d: "fst (draws (Suc n) (draw_sample g d noise wb) s) = r # fst (draws n (draw_sample g d noise wb) s')"
    by (simp add: r split_beta)
  show ?case using Suc.IH [OF w *] Suc.prems(2) j unfolding d keys
    by (auto simp: append_row_def dget_or_def)
qed

lemma open_shards_ok:
  "open_shards blocked n i fs = (fs', None) \<Longrightarrow>
   (\<forall>j. i \<le> j \<and> j < i + n \<longrightarrow> dget fs' (shard_name j) = Some '''') \<and> (\<forall>x. x \<notin> shard_name ` {i..<i + n} \<longrightarrow> dget fs' x = dget fs x)
    \<and> (wf_dict fs \<longrightarrow> wf_dict fs') \<and> fst ` set fs' = fst ` set fs \<union> shard_name ` {i..<i + n}"
proof (induction n arbitrary: i fs)
  case (Suc n)
  from Suc.prems have "open_shards blocked n (Suc i) (dset fs (shard_name i) '''') = (fs', None)" by (auto split: if_splits)
  note IH = Suc.IH [OF this]
  have ivl: "{i..<i + Suc n} = insert i {Suc i..<Suc i + n}" by auto
  have i: "shard_name i \<notin> shard_name ` {Suc i..<Suc i + n}" by auto
  with IH have "dget fs' (shard_name i) = Some ''''" by simp
  then have "dget fs' (shard_name j) = Some ''''" if "i \<le> j" "j < i + Suc n" for j
    using IH that by (cases "j = i") auto
  moreover have "dget fs' x = dget fs x" if "x \<notin> shard_name ` {i..<i + Suc n}" for x
    using IH that unfolding ivl by simp
  moreover have "fst ` set fs' = fst ` set fs \<union> shard_name ` {i..<i + Suc n}"
    using IH unfolding ivl by (simp add: keys_dset)
  ultimately show ?case using IH by auto
qed auto

section \<open>The data set\<close>

text \<open>The samples the generator draws.\<close>

definition generated :: "'s rng \<Rightarrow> int \<Rightarrow> int \<Rightarrow> real \<Rightarrow> 's \<Rightarrow> sample list" where
  "generated g num_samples num_features noise seed =
     (let (wb, s) = true_model g num_features seed in fst (draws (nat num_samples) (draw_sample g num_features noise wb) s))"

lemma length_draws [simp]: "length (fst (draws n f s)) = n"
  by (induction n arbitrary: s) (simp_all add: split_beta)

lemma draws_all: "(\<And>s. P (fst (f s))) \<Longrightarrow> x \<in> set (fst (draws n f s)) \<Longrightarrow> P x"
  by (induction n arbitrary: s) (auto simp: split_beta)

lemma generated_shape:
  "length (generated g m d noise seed) = nat m"
  "r \<in> set (generated g m d noise seed) \<Longrightarrow> length (fst r) = nat d \<and> snd r \<in> {0, 1}"
proof -
  show "length (generated g m d noise seed) = nat m" by (simp add: generated_def split_beta)
  have "length (fst r) = nat d \<and> snd r \<in> {0, 1}" if "r \<in> set (fst (draws n (draw_sample g d noise wb) s))" for r n wb s
    by (rule draws_all [OF _ that]) (simp add: draw_sample_def split_beta Let_def)
  then show "r \<in> set (generated g m d noise seed) \<Longrightarrow> length (fst r) = nat d \<and> snd r \<in> {0, 1}"
    by (simp add: generated_def split_beta)
qed

text \<open>No old shard survives that the generator does not write again.\<close>

definition old_removed :: "(string \<Rightarrow> bool) \<Rightarrow> int \<Rightarrow> data_dir \<Rightarrow> bool" where
  "old_removed stuck k dir \<longleftrightarrow> (\<forall>n \<in> fst ` set (dd_files dir). is_shard n \<longrightarrow> stuck n \<longrightarrow> n \<in> shard_name ` {..<nat k})"

lemma dataset_files:
  assumes "make_dataset g stuck blocked m d k noise seed dir = (dir', None)" "0 < k" "wf_dict (dd_files dir)" "old_removed stuck k dir"
  shows "j < nat k \<Longrightarrow> dget (dd_files dir') (shard_name j) = Some (concat (map sample_row (dealt (nat k) 0 (generated g m d noise seed) j)))"
    "set (shard_names dir') = shard_name ` {..<nat k}" "distinct (shard_names dir')"
proof -
  obtain wb s where t: "true_model g d seed = (wb, s)" by (rule that [OF surjective_pairing])
  let ?fs0 = "remove_shards stuck (dd_files dir)"
  from assms(1) t obtain fs1 fs2 where o: "open_shards blocked (nat k) 0 ?fs0 = (fs1, None)"
    and w: "write_rows g d noise k wb (nat m) 0 s fs1 = (fs2, None)" and fs: "dd_files dir' = fs2"
    by (auto simp: make_dataset_def split: prod.splits option.splits if_splits)
  note o' = open_shards_ok [OF o]
  then have e: "\<forall>j < nat k. dget fs1 (shard_name j) = Some ''''" by simp
  then have "\<forall>j < nat k. dget fs1 (shard_name j) \<noteq> None" by simp
  note w' = write_rows_ok [OF w assms(2) this]
  then show "dget (dd_files dir') (shard_name j) = Some (concat (map sample_row (dealt (nat k) 0 (generated g m d noise seed) j)))"
    if "j < nat k" using e that by (simp add: fs generated_def t dget_or_def)
  have "wf_dict ?fs0" using assms(3) by (simp add: wf_dict_def remove_shards_def distinct_map_filter)
  then have "wf_dict fs2" using o' w' by blast
  then show "distinct (shard_names dir')" by (simp add: shard_names_def fs wf_dict_def dkeys_def)
  have old: "n \<in> shard_name ` {..<nat k}" if "n \<in> fst ` set ?fs0" "is_shard n" for n
    using assms(4) that by (auto simp: old_removed_def remove_shards_def)
  have "fst ` set fs2 = fst ` set ?fs0 \<union> shard_name ` {..<nat k}" using o' w' by (simp add: atLeast0LessThan)
  then show "set (shard_names dir') = shard_name ` {..<nat k}"
    unfolding shard_names_def fs dkeys_def using old shard_name_is by auto
qed

lemma image_mset_lessThan: "image_mset f (\<Sum>j<(n::nat). M j) = (\<Sum>j<n. image_mset f (M j))"
  by (induction n) simp_all

lemma dataset_samples:
  assumes "make_dataset g stuck blocked m d k noise seed dir = (dir', None)" "0 < k" "0 < d" "wf_dict (dd_files dir)" "old_removed stuck k dir"
  shows "mset (samples (dget (dd_files dir')) (shard_names dir')) = image_mset read_back (mset (generated g m d noise seed))"
    "wf_data (dget (dd_files dir')) (nat d + 1) (shard_names dir')"
proof -
  let ?rs = "\<lambda>j. dealt (nat k) 0 (generated g m d noise seed) j" and ?files = "dget (dd_files dir')"
  note F = dataset_files [OF assms(1,2,4,5)]
  have r: "fst r \<noteq> []" "length (fst (read_back r)) = nat d + 1" if "r \<in> set (?rs j)" for r j
    using generated_shape(2) [of r g m d noise seed] subsetD [OF dealt_subset that] \<open>0 < d\<close> by (auto simp: read_back_def)
  have p: "parse_shard (concat (map sample_row (?rs j))) = Inr (map read_back (?rs j))" for j
    using r(1) by (intro parse_rows) blast
  let ?one = "\<lambda>s. case ?files s of None \<Rightarrow> [] | Some t \<Rightarrow> (case parse_shard t of Inl e \<Rightarrow> [] | Inr d \<Rightarrow> d)"
  have "mset (samples ?files (shard_names dir')) = (\<Sum>s \<in> set (shard_names dir'). mset (?one s))"
    using F(3) by (simp add: samples_def mset_concat comp_def sum_list_distinct_conv_sum_set)
  also have "\<dots> = (\<Sum>j<nat k. image_mset read_back (mset (?rs j)))"
    unfolding F(2) by (subst sum.reindex) (auto simp: inj_on_def F(1) p intro!: sum.cong)
  also have "\<dots> = image_mset read_back (\<Sum>j<nat k. mset (?rs j))" by (simp add: image_mset_lessThan)
  also have "\<dots> = image_mset read_back (mset (generated g m d noise seed))" using \<open>0 < k\<close> by (simp add: dealt_all)
  finally show "mset (samples ?files (shard_names dir')) = image_mset read_back (mset (generated g m d noise seed))" .
  show "wf_data ?files (nat d + 1) (shard_names dir')"
    unfolding wf_data_def F(2) using F(1) p r(2) by (auto intro!: exI)
qed

text \<open>Shard 0 is the first by name.\<close>

lemma shard_0_first: "shard_name 0 \<le> shard_name j"
proof -
  obtain c r where c: "nat_str j = c # r" by (metis list.exhaust nat_str_nonempty)
  then have d: "is_digit c" using nat_str_digits [of j] by simp
  have "j = 0 \<or> CHR ''0'' < c"
  proof (cases "c = CHR ''0''")
    case True
    then show ?thesis using nat_str_hd_zero [of j] c by simp
  next
    case False
    have "(of_char c :: nat) \<noteq> 48"
    proof
      assume "(of_char c :: nat) = 48"
      then have "c = char_of (48 :: nat)" by (metis char_of_char)
      moreover have "char_of (48 :: nat) = CHR ''0''" by code_simp
      ultimately show False using False by simp
    qed
    then show ?thesis using d by (simp add: is_digit_def less_char_def)
  qed
  then show ?thesis using c by (auto simp: shard_name_def)
qed

lemma first_shard:
  assumes "set ss = shard_name ` {..<nat k}" "0 < k" "sorted ss"
  shows "\<exists>rest. ss = shard_name 0 # rest"
proof -
  from assms(1,2) have in0: "shard_name 0 \<in> set ss" by simp
  then obtain x rest where x: "ss = x # rest" by (metis empty_iff empty_set neq_Nil_conv)
  then have "x \<in> shard_name ` {..<nat k}" using assms(1) by auto
  then obtain j where j: "x = shard_name j" by auto
  from in0 x assms(3) have "x \<le> shard_name 0" by auto
  with j shard_0_first [of j] have "x = shard_name 0" by simp
  with x show ?thesis by simp
qed

lemma dealt_first: "rs \<noteq> [] \<Longrightarrow> 0 < k \<Longrightarrow> \<exists>rest. dealt k 0 rs 0 = hd rs # rest"
  by (cases rs) auto

lemma dataset_dim:
  assumes "make_dataset g stuck blocked m d k noise seed dir = (dir', None)" "0 < k" "0 < d" "0 < m" "wf_dict (dd_files dir)" "old_removed stuck k dir"
  shows "shard_names dir' \<noteq> [] \<and> infer_dim (dget (dd_files dir')) (shard_names dir') = nat d + 1"
proof -
  let ?rs = "generated g m d noise seed"
  note F = dataset_files [OF assms(1,2,5,6)]
  have "sorted (shard_names dir')" by (simp add: shard_names_def)
  then obtain rest where ss: "shard_names dir' = shard_name 0 # rest" using first_shard F(2) assms(2) by blast
  have ne: "?rs \<noteq> []" using generated_shape(1) [of g m d noise seed] assms(4) by auto
  then obtain rs' where rs: "dealt (nat k) 0 ?rs 0 = hd ?rs # rs'" using dealt_first assms(2) by fastforce
  have f: "dget (dd_files dir') (shard_name 0) = Some (concat (map sample_row (hd ?rs # rs')))"
    using F(1) [of 0] assms(2) rs by simp
  from ne have "hd ?rs \<in> set ?rs" by simp
  then have l: "length (fst (hd ?rs)) = nat d" by (rule generated_shape(2) [THEN conjunct1])
  with assms(3) have "fst (hd ?rs) \<noteq> []" by auto
  then have "length (split_on (CHR '','') (strip_line (hd (split_on (CHR 0x0A) (concat (map sample_row (hd ?rs # rs'))))))) = nat d + 1"
    unfolding split_rows by (simp add: strip_row split_row l)
  then show ?thesis using f by (simp add: ss infer_dim_def)
qed

text \<open>
  C40. A generated data set can be trained on: with at least one sample, feature and shard, and no old
  shard file left over, the coordinator that reads the directory has one weight for each feature and one
  for the bias; its shards hold every generated sample exactly once, each number within half a millionth
  of the one drawn; and any positive number of workers brings the training to its end.
\<close>

theorem ml_generated_training:
  assumes "make_dataset g stuck blocked m d k noise seed dir = (dir', None)" "0 < m" "0 < d" "0 < k"
    "wf_dict (dd_files dir)" "old_removed stuck k dir" "distinct ws" "ws \<noteq> []"
    "files = dget (dd_files dir')" "c0 = new_coordinator files (shard_names dir') (length ws) lr epochs kv saved"
  shows "co_dim c0 = nat d + 1
    \<and> mset (samples files (co_shards c0)) = image_mset read_back (mset (generated g m d noise seed))
    \<and> list_all (\<lambda>r. list_all2 (\<lambda>a b. \<bar>a - b\<bar> \<le> 1 / 2000000) (fst (read_back r)) (fst r @ [1])) (generated g m d noise seed)
    \<and> co_terminate (fst ((ml_round files ok ws ^^ (2 * nat (max 1 epochs))) (c0, new_worker)))"
proof -
  note D = dataset_dim [OF assms(1,4,3,2,5,6)] and S = dataset_samples [OF assms(1,4,3,5,6)]
  have c0: "co_dim c0 = nat d + 1" "co_shards c0 = shard_names dir'" "co_epoch c0 = 0" "co_max_epochs c0 = epochs"
    using D by (simp_all add: assms(9,10) new_coordinator_def Let_def)
  have "list_all2 (\<lambda>a b. \<bar>a - b\<bar> \<le> 1 / 2000000) (fst (read_back r)) (fst r @ [1])" for r
    using to_six_close by (simp add: read_back_def list_all2_append list_all2_map1 list_all2_same)
  moreover have "ml_setup files ws c0"
    using D S(2) assms(7,8) dataset_files(3) [OF assms(1,4,5,6)] by (simp add: ml_setup_def assms(9,10) new_coordinator_def Let_def fresh_coordinator_def)
  from ml_training_ends [OF this, of ok] have "co_terminate (fst ((ml_round files ok ws ^^ (2 * nat (max 1 epochs))) (c0, new_worker)))"
    by (simp add: c0)
  ultimately show ?thesis using S(1) by (simp add: c0 assms(9) list_all_iff)
qed

text \<open>One sample of one feature, for a generator that always draws 1/2.\<close>

definition half_rng :: "nat rng" where
  "half_rng = \<lparr>rg_uniform = (\<lambda>a b s. (1 / 2, s)), rg_gauss = (\<lambda>a b s. (1 / 2, s)), rg_random = (\<lambda>s. (1 / 2, Suc s))\<rparr>"

lemma half_dataset:
  "make_dataset half_rng (\<lambda>n. False) (\<lambda>n. False) 1 1 1 0 0 \<lparr>dd_files = [], dd_meta = None\<rparr>
   = (\<lparr>dd_files = [(''shard_0.csv'', sample_row ([1 / 2], 1))],
       dd_meta = Some \<lparr>mt_features = 1, mt_shards = 1, mt_samples = 1, mt_true = ([1 / 2], 1 / 2)\<rparr>\<rparr>, None)"
  by (simp add: make_dataset_def true_model_def half_rng_def draw_sample_def remove_shards_def shard_name_def append_row_def
      dget_or_def dset_def dget_def dot_def)

theorem ml_generated_training_witness:
  "\<exists>dir'. make_dataset half_rng (\<lambda>n. False) (\<lambda>n. False) 1 1 1 0 0 \<lparr>dd_files = [], dd_meta = None\<rparr> = (dir', None)
    \<and> co_terminate (fst ((ml_round (dget (dd_files dir')) True [''w''] ^^ 6)
        (new_coordinator (dget (dd_files dir')) (shard_names dir') 1 1 3 False None, new_worker)))"
proof -
  obtain dir' where h: "make_dataset half_rng (\<lambda>n. False) (\<lambda>n. False) 1 1 1 0 0 \<lparr>dd_files = [], dd_meta = None\<rparr> = (dir', None)"
    using half_dataset by blast
  have w: "wf_dict (dd_files \<lparr>dd_files = [], dd_meta = None\<rparr>)" "old_removed (\<lambda>n. False) 1 \<lparr>dd_files = [], dd_meta = None\<rparr>"
    by (simp_all add: old_removed_def)
  have n: "2 * nat (max 1 3) = 6" "length [''w''] = 1" "(0 :: int) < 1" "distinct [''w'']" "[''w''] \<noteq> []" by simp_all
  from ml_generated_training [where ws = "[''w'']" and lr = 1 and epochs = 3 and kv = False and saved = None and ok = True,
      OF h n(3,3,3) w n(4,5) refl refl, unfolded n(1,2)] h
  show ?thesis by blast
qed

section \<open>Edge cases\<close>

text \<open>Without features a row starts with a comma, and the workers cannot read it.\<close>

lemma no_features_unreadable: "parse_shard (sample_row ([], y)) = Inl (ValueError ''could not convert string to float'')"
proof -
  have r: "row_text ([], y) = CHR '','' # int_str y" by (simp add: row_text_def)
  have "split_on (CHR '','') (row_text ([], y)) = [[], int_str y]" unfolding r using plain_no(1) [OF plain_int] by (simp add: split_on_none)
  then have "parse_line (row_text ([], y)) = Inl (ValueError ''could not convert string to float'')"
    by (simp add: parse_line_def py_float_def)
  moreover have "split_on (CHR 0x0A) (sample_row ([], y)) = [row_text ([], y), []]" using split_rows [of "[([], y)]"] by simp
  moreover have "row_text ([], y) \<noteq> []" unfolding r by simp
  ultimately show ?thesis by (simp add: parse_shard_def strip_row)
qed

text \<open>With no shard asked for, the old ones are gone when the first sample raises.\<close>

lemma no_shards_raises:
  "0 < m \<Longrightarrow> make_dataset g stuck blocked m d 0 noise seed dir = (dir\<lparr>dd_files := remove_shards stuck (dd_files dir)\<rparr>, Some ZeroDivisionError)"
  by (cases "nat m") (auto simp: make_dataset_def split_beta)

end
