(* ===== verification/Startup.thy ===== *)
theory Startup
  imports Raft_Disk Raft_Rpc_Theorems Raft_Fs Kv_Server Primary_Backup Gateway_Api Ml_Data
begin

text \<open>
  How the servers start: \<open>main\<close> and \<open>serve\<close> of \<open>raft_server.py\<close> and \<open>raft_kv_server.py\<close> from a node id
  and the configuration file, \<open>main\<close> of \<open>replication/server.py\<close> and \<open>serve\<close> of \<open>ml_coordinator.py\<close> from
  their command lines. Parsing the command line is \<open>argparse\<close>; its results are the arguments here.

  A configuration file is a JSON text whose ids and ports are non-negative integers and whose hosts and
  directories are strings; a value of another type is \<open>TypeError\<close> in the model, wherever the program would
  first trip over it.
\<close>

section \<open>The configuration file\<close>

record node_entry =
  ne_id :: nat
  ne_host :: "string option"
  ne_port :: "nat option"
  ne_data_dir :: "string option"
  ne_raft_dir :: "string option"

definition json_nat :: "json \<Rightarrow> exn + nat" where
  "json_nat j = (case j of JInt i \<Rightarrow> if 0 \<le> i then Inr (nat i) else Inl TypeError | _ \<Rightarrow> Inl TypeError)"

definition json_str :: "json \<Rightarrow> exn + string" where
  "json_str j = (case j of JStr s \<Rightarrow> Inr s | _ \<Rightarrow> Inl TypeError)"

text \<open>A field that may be missing.\<close>

definition optional_field :: "(json \<Rightarrow> exn + 'a) \<Rightarrow> (string \<times> json) list \<Rightarrow> string \<Rightarrow> exn + 'a option" where
  "optional_field conv ps k = (case jget ps k of None \<Rightarrow> Inr None | Some j \<Rightarrow> map_sum id Some (conv j))"

definition bind_sum :: "'e + 'a \<Rightarrow> ('a \<Rightarrow> 'e + 'b) \<Rightarrow> 'e + 'b" where
  "bind_sum r k = (case r of Inl e \<Rightarrow> Inl e | Inr x \<Rightarrow> k x)"

definition entry_of :: "json \<Rightarrow> exn + node_entry" where
  "entry_of j =
     (case j of
        JObj ps \<Rightarrow>
          (case jget ps ''id'' of
             None \<Rightarrow> Inl (KeyError ''id'')
           | Some i \<Rightarrow>
               bind_sum (json_nat i) (\<lambda>n.
               bind_sum (optional_field json_str ps ''host'') (\<lambda>h.
               bind_sum (optional_field json_nat ps ''port'') (\<lambda>p.
               bind_sum (optional_field json_str ps ''data_dir'') (\<lambda>d.
               bind_sum (optional_field json_str ps ''raft_dir'') (\<lambda>r.
                 Inr \<lparr>ne_id = n, ne_host = h, ne_port = p, ne_data_dir = d, ne_raft_dir = r\<rparr>))))))
      | _ \<Rightarrow> Inl TypeError)"

fun entries_of :: "json list \<Rightarrow> exn + node_entry list" where
  "entries_of [] = Inr []"
| "entries_of (j # js) = bind_sum (entry_of j) (\<lambda>e. bind_sum (entries_of js) (\<lambda>es. Inr (e # es)))"

text \<open>\<open>json.load(f)["nodes"]\<close>\<close>

definition read_config :: "string \<Rightarrow> exn + node_entry list" where
  "read_config text =
     (case loads text of
        None \<Rightarrow> Inl (ValueError ''JSONDecodeError'')
      | Some (JObj ps) \<Rightarrow>
          (case jget ps ''nodes'' of
             None \<Rightarrow> Inl (KeyError ''nodes'')
           | Some (JArr js) \<Rightarrow> entries_of js
           | Some _ \<Rightarrow> Inl TypeError)
      | Some _ \<Rightarrow> Inl TypeError)"

text \<open>\<open>f"{nc['host']}:{nc['port']}"\<close> needs both.\<close>

definition complete_entry :: "node_entry \<Rightarrow> exn + node_config" where
  "complete_entry e =
     (case ne_host e of
        None \<Rightarrow> Inl (KeyError ''host'')
      | Some h \<Rightarrow> (case ne_port e of
                    None \<Rightarrow> Inl (KeyError ''port'')
                  | Some p \<Rightarrow> Inr \<lparr>nc_id = ne_id e, nc_host = h, nc_port = p\<rparr>))"

fun complete_entries :: "node_entry list \<Rightarrow> exn + node_config list" where
  "complete_entries [] = Inr []"
| "complete_entries (e # es) = bind_sum (complete_entry e) (\<lambda>c. bind_sum (complete_entries es) (\<lambda>cs. Inr (c # cs)))"

section \<open>Raft servers\<close>

datatype 'p outcome = Exited nat | Raised exn | Serving 'p

definition outcome_of :: "exn + 'p \<Rightarrow> 'p outcome" where
  "outcome_of r = (case r of Inl e \<Rightarrow> Raised e | Inr p \<Rightarrow> Serving p)"

text \<open>
  The part the two servers share: the port, the directory and the node, which reads its files, and the
  stubs it gets a second later. \<open>disk\<close> gives the text files.
\<close>

record raft_process =
  pr_port :: nat
  pr_raft_dir :: string
  pr_node :: raft_node
  pr_stubs :: "(nat, addr) dict"

definition raft_dir_of :: "nat \<Rightarrow> node_entry \<Rightarrow> string" where
  "raft_dir_of me e = (case ne_raft_dir e of None \<Rightarrow> ''./raft_state_node'' @ nat_str me | Some d \<Rightarrow> d)"

definition data_dir_of :: "nat \<Rightarrow> node_entry \<Rightarrow> string" where
  "data_dir_of me e = (case ne_data_dir e of None \<Rightarrow> ''./server_data_node'' @ nat_str me | Some d \<Rightarrow> d)"

definition start_raft :: "nat \<Rightarrow> node_entry list \<Rightarrow> disk \<Rightarrow> exn + node_entry \<times> raft_process" where
  "start_raft me es disk =
     (case find (\<lambda>e. ne_id e = me) es of
        None \<Rightarrow> Inl (PyException ''StopIteration'')
      | Some my \<Rightarrow>
          (case ne_port my of
             None \<Rightarrow> Inl (KeyError ''port'')
           | Some port \<Rightarrow>
               bind_sum (complete_entries (filter (\<lambda>e. ne_id e \<noteq> me) es)) (\<lambda>others.
                 let dir = raft_dir_of me my in
                 Inr (my, \<lparr>pr_port = port, pr_raft_dir = dir,
                           pr_node = init_node me (serve_peers me others)
                             (dget disk (hard_state_path dir me)) (dget disk (log_path dir me)),
                           pr_stubs = build_peer_stubs me others\<rparr>))))"

record fs_process =
  fp_raft :: raft_process
  fp_base_dir :: string
  fp_state :: rfs

definition fs_serve :: "nat \<Rightarrow> node_entry list \<Rightarrow> disk \<Rightarrow> exn + fs_process" where
  "fs_serve me es disk =
     bind_sum (start_raft me es disk) (\<lambda>(my, pr).
       Inr \<lparr>fp_raft = pr, fp_base_dir = data_dir_of me my, fp_state = rfs_init disk\<rparr>)"

definition fs_main :: "nat \<Rightarrow> string \<Rightarrow> disk \<Rightarrow> fs_process outcome" where
  "fs_main me config disk =
     (case dget disk config of
        None \<Rightarrow> Exited 1
      | Some text \<Rightarrow>
          (case read_config text of
             Inl e \<Rightarrow> Raised e
           | Inr es \<Rightarrow> if me \<notin> set (map ne_id es) then Exited 1 else outcome_of (fs_serve me es disk)))"

text \<open>\<open>raft_kv_server.py\<close> does not look whether the file exists before it opens it.\<close>

record kv_process =
  kp_raft :: raft_process
  kp_state :: kv

definition kv_serve :: "nat \<Rightarrow> node_entry list \<Rightarrow> disk \<Rightarrow> exn + kv_process" where
  "kv_serve me es disk =
     bind_sum (start_raft me es disk) (\<lambda>(my, pr). Inr \<lparr>kp_raft = pr, kp_state = kv_init MAX_SESSIONS\<rparr>)"

definition kv_main :: "nat \<Rightarrow> string \<Rightarrow> disk \<Rightarrow> kv_process outcome" where
  "kv_main me config disk =
     (case dget disk config of
        None \<Rightarrow> Raised (os_error ''[Errno 2] No such file or directory'' config)
      | Some text \<Rightarrow>
          (case read_config text of
             Inl e \<Rightarrow> Raised e
           | Inr es \<Rightarrow> if me \<notin> set (map ne_id es) then Exited 1 else outcome_of (kv_serve me es disk)))"

section \<open>The primary-backup server\<close>

text \<open>\<open>main\<close> of \<open>replication/server.py\<close>: the peers, the port it listens on, and the replica before it chooses its role.\<close>

definition pb_peers :: "string \<Rightarrow> addr list" where
  "pb_peers arg = map strip (filter (\<lambda>p. strip p \<noteq> []) (split_on (CHR '','') arg))"

definition pb_main :: "addr \<Rightarrow> string \<Rightarrow> string option \<Rightarrow> disk \<Rightarrow> string \<times> rep" where
  "pb_main addr peer_arg data_dir disk =
     (let port = last (split_on (CHR '':'') addr);
          dir = (case data_dir of None \<Rightarrow> ''./data_'' @ port | Some d \<Rightarrow> if d = [] then ''./data_'' @ port else d)
      in (port, rp_init addr (pb_peers peer_arg) dir disk))"

section \<open>The training coordinator\<close>

text \<open>\<open>hp.rsplit(":", 1)\<close> into a host and a port.\<close>

definition host_port :: "string \<Rightarrow> exn + string \<times> int" where
  "host_port hp =
     (case split_at_char (CHR '':'') (rev hp) of
        (p, None) \<Rightarrow> Inl (ValueError ''not enough values to unpack (expected 2, got 1)'')
      | (p, Some h) \<Rightarrow> map_sum id (\<lambda>n. (rev h, n)) (py_int (rev p)))"

fun host_ports :: "string list \<Rightarrow> exn + (string \<times> int) list" where
  "host_ports [] = Inr []"
| "host_ports (x # xs) =
     (if strip x = [] then host_ports xs
      else bind_sum (host_port (strip x)) (\<lambda>a. bind_sum (host_ports xs) (\<lambda>rest. Inr (a # rest))))"

definition kv_nodes_arg :: "string option \<Rightarrow> exn + (string \<times> int) list" where
  "kv_nodes_arg arg = (case arg of None \<Rightarrow> Inr [] | Some s \<Rightarrow> if s = [] then Inr [] else host_ports (split_on (CHR '','') s))"

text \<open>
  \<open>importable\<close>: the client library is there, and its constructor does not raise. \<open>saved\<close> is what the store
  holds, \<open>ok\<close> that reading it succeeds.
\<close>

definition ml_serve ::
  "(string \<Rightarrow> string option) \<Rightarrow> string list \<Rightarrow> nat \<Rightarrow> real \<Rightarrow> int \<Rightarrow> string option \<Rightarrow> bool \<Rightarrow> bool \<Rightarrow> (real list \<times> int) option \<Rightarrow> bool
    \<Rightarrow> exn + coordinator" where
  "ml_serve files shards num_workers lr epochs kv_nodes importable resume saved ok =
     bind_sum (kv_nodes_arg kv_nodes) (\<lambda>nodes.
       let c = new_coordinator files shards num_workers lr epochs (nodes \<noteq> [] \<and> importable) saved
       in Inr (if resume then ml_restore ok c else c))"

section \<open>One file, one cluster\<close>

lemma bind_sum_Inr: "bind_sum r k = Inr y \<longleftrightarrow> (\<exists>x. r = Inr x \<and> k x = Inr y)"
  by (simp add: bind_sum_def split: sum.split)

lemma bind_Inr [simp]: "bind_sum (Inr x) k = k x"
  by (simp add: bind_sum_def)

lemma complete_entry_id: "complete_entry e = Inr c \<Longrightarrow> nc_id c = ne_id e \<and> ne_port e = Some (nc_port c) \<and> ne_host e = Some (nc_host c)"
  by (auto simp: complete_entry_def split: option.splits)

lemma complete_ids: "complete_entries es = Inr cs \<Longrightarrow> map nc_id cs = map ne_id es"
  by (induction es arbitrary: cs) (auto simp: bind_sum_Inr dest: complete_entry_id)

lemma complete_filter:
  "complete_entries es = Inr cs \<Longrightarrow> complete_entries (filter (\<lambda>e. ne_id e \<noteq> n) es) = Inr (filter (\<lambda>c. nc_id c \<noteq> n) cs)"
proof (induction es arbitrary: cs)
  case (Cons e es)
  from Cons.prems obtain c cs' where c: "complete_entry e = Inr c" "complete_entries es = Inr cs'" "cs = c # cs'"
    by (auto simp: bind_sum_Inr)
  with Cons.IH [OF c(2)] complete_entry_id [OF c(1)] show ?case by simp
qed simp

lemma serve_peers_others: "serve_peers n (filter (\<lambda>c. nc_id c \<noteq> n) cs) = serve_peers n cs"
  by (simp add: serve_peers_def)

lemma complete_ports: "complete_entries es = Inr cs \<Longrightarrow> e \<in> set es \<Longrightarrow> \<exists>p. ne_port e = Some p"
  by (induction es arbitrary: cs) (auto simp: bind_sum_Inr dest: complete_entry_id)

lemma find_entry: "n \<in> set (map ne_id es) \<Longrightarrow> \<exists>e. find (\<lambda>e. ne_id e = n) es = Some e \<and> e \<in> set es \<and> ne_id e = n"
  by (induction es) auto

text \<open>What the two servers start, for a file in which every entry has a host and a port.\<close>

lemma start_raft_ok:
  assumes "complete_entries es = Inr cs" "n \<in> set (map ne_id es)"
  shows "\<exists>e p. e \<in> set es \<and> ne_id e = n \<and> start_raft n es disk = Inr (e, p) \<and> pr_stubs p = serve_peers n cs \<and> ne_port e = Some (pr_port p)
    \<and> pr_node p = init_node n (serve_peers n cs) (dget disk (hard_state_path (raft_dir_of n e) n)) (dget disk (log_path (raft_dir_of n e) n))"
proof -
  obtain e where e: "find (\<lambda>e. ne_id e = n) es = Some e" "e \<in> set es" "ne_id e = n" using find_entry assms(2) by blast
  obtain p where "ne_port e = Some p" using complete_ports assms(1) e(2) by blast
  then show ?thesis
    using e by (simp add: start_raft_def complete_filter [OF assms(1)] serve_peers_others peer_stubs_eq Let_def)
qed

text \<open>
  C10. Nodes started from one configuration file form one cluster: when every entry of the file has a
  host and a port and the ids are distinct, the nodes' dictionaries of peers are those of a cluster, and
  both servers start. If the directory of node \<open>n\<close> holds the persistent state the node has in a reachable
  cluster (at the first start, no files), the node it starts as is the node of a reachable cluster in which
  nothing else has changed; both servers start the same node, and it calls every other node at its
  address in the file.
\<close>

theorem raft_started_from_config:
  fixes cs :: "node_config list"
  defines "cfg \<equiv> \<lambda>k. serve_peers k cs"
  assumes conf: "dget disk config = Some text" "read_config text = Inr es" "complete_entries es = Inr cs"
    and ids: "distinct (map ne_id es)" "n \<in> set (map ne_id es)"
    and c: "reachable (set (map ne_id es)) cfg f sm0 c"
    and saved: "\<And>e. e \<in> set es \<Longrightarrow> ne_id e = n \<Longrightarrow> on_disk (raft_dir_of n e) (c_node c n) disk"
  shows "cluster_config (set (map ne_id es)) cfg
    \<and> (\<exists>fs kv c'. fs_main n config disk = Serving fs \<and> kv_main n config disk = Serving kv \<and> fp_raft fs = kp_raft kv
        \<and> pr_stubs (fp_raft fs) = cfg n \<and> reachable (set (map ne_id es)) cfg f sm0 c' \<and> c_node c' n = pr_node (fp_raft fs)
        \<and> c_sm c' n = sm0 \<and> (\<forall>k. k \<noteq> n \<longrightarrow> c_node c' k = c_node c k))"
proof -
  obtain e p where s: "e \<in> set es" "ne_id e = n" "start_raft n es disk = Inr (e, p)" "pr_stubs p = cfg n"
    "pr_node p = init_node n (cfg n) (dget disk (hard_state_path (raft_dir_of n e) n)) (dget disk (log_path (raft_dir_of n e) n))"
    using start_raft_ok [OF conf(3) ids(2)] unfolding cfg_def by blast
  obtain c' where "reachable (set (map ne_id es)) cfg f sm0 c'" "started_from (raft_dir_of n e) disk n (cfg n) sm0 c c'"
    using restart_from [OF c ids(2) saved [OF s(1,2)], of c] by blast
  moreover have "fs_main n config disk = Serving \<lparr>fp_raft = p, fp_base_dir = data_dir_of n e, fp_state = rfs_init disk\<rparr>"
    "kv_main n config disk = Serving \<lparr>kp_raft = p, kp_state = kv_init MAX_SESSIONS\<rparr>"
    using ids(2) by (auto simp: fs_main_def kv_main_def conf s(3) fs_serve_def kv_serve_def outcome_of_def)
  moreover have "cluster_config (set (map ne_id es)) cfg"
    using raft_configured_cluster [of cs] ids(1) unfolding cfg_def complete_ids [OF conf(3), symmetric] by simp
  ultimately show ?thesis using s(4,5) by (intro conjI exI) (assumption | simp add: started_from_def)+
qed

section \<open>Configuration files as they are written\<close>

definition field_json :: "string \<Rightarrow> ('a \<Rightarrow> json) \<Rightarrow> 'a option \<Rightarrow> (string \<times> json) list" where
  "field_json k f x = (case x of None \<Rightarrow> [] | Some v \<Rightarrow> [(k, f v)])"

definition config_entry_json :: "node_entry \<Rightarrow> json" where
  "config_entry_json e = JObj ((''id'', JInt (int (ne_id e))) # field_json ''host'' JStr (ne_host e)
     @ field_json ''port'' (\<lambda>p. JInt (int p)) (ne_port e) @ field_json ''data_dir'' JStr (ne_data_dir e)
     @ field_json ''raft_dir'' JStr (ne_raft_dir e))"

definition config_json :: "node_entry list \<Rightarrow> json" where
  "config_json es = JObj [(''nodes'', JArr (map config_entry_json es))]"

lemma config_jwf: "jwf (config_json es)"
  by (auto simp: config_json_def config_entry_json_def field_json_def list_all_iff split: option.splits)

lemma entry_of_json: "entry_of (config_entry_json e) = Inr e"
  by (cases e; cases "ne_host e"; cases "ne_port e"; cases "ne_data_dir e"; cases "ne_raft_dir e")
    (simp_all add: entry_of_def config_entry_json_def field_json_def jget_def dget_def optional_field_def json_nat_def json_str_def)

lemma entries_of_json: "entries_of (map config_entry_json es) = Inr es"
  by (induction es) (simp_all add: entry_of_json)

lemma read_config_dumps: "read_config (dumps (config_json es)) = Inr es"
  using loads_dumps [OF config_jwf [of es]] by (simp add: read_config_def) (simp add: config_json_def jget_def dget_def entries_of_json)

text \<open>The file of three nodes the repository ships, without the comment, and the first start of node 1.\<close>

definition shipped_entry :: "nat \<Rightarrow> node_entry" where
  "shipped_entry i = \<lparr>ne_id = i, ne_host = Some ''localhost'', ne_port = Some (51051 + i), ne_data_dir = None,
     ne_raft_dir = Some (''./kv_state_node'' @ nat_str i)\<rparr>"

definition shipped_configs :: "node_config list" where
  "shipped_configs = map (\<lambda>i. \<lparr>nc_id = i, nc_host = ''localhost'', nc_port = 51051 + i\<rparr>) [0, 1, 2]"

theorem raft_started_from_config_witness:
  "\<exists>fs kv. fs_main 1 ''nodes.json'' [(''nodes.json'', dumps (config_json (map shipped_entry [0, 1, 2])))] = Serving fs
    \<and> kv_main 1 ''nodes.json'' [(''nodes.json'', dumps (config_json (map shipped_entry [0, 1, 2])))] = Serving kv
    \<and> pr_stubs (fp_raft fs) = serve_peers 1 shipped_configs"
proof -
  let ?es = "map shipped_entry [0, 1, 2]" and ?disk = "[(''nodes.json'', dumps (config_json (map shipped_entry [0, 1, 2])))]"
  let ?cfg = "\<lambda>k. serve_peers k shipped_configs" and ?ids = "set (map ne_id (map shipped_entry [0, 1, 2]))"
  have conf: "dget ?disk ''nodes.json'' = Some (dumps (config_json ?es))" by (simp add: dget_def)
  have cs: "complete_entries ?es = Inr shipped_configs" by (simp add: complete_entry_def shipped_entry_def shipped_configs_def)
  have ids: "distinct (map ne_id ?es)" "1 \<in> set (map ne_id ?es)" by (simp_all add: shipped_entry_def)
  have "cluster_config ?ids ?cfg" using raft_configured_cluster [of shipped_configs] ids(1) complete_ids [OF cs] by simp
  then have r: "reachable ?ids ?cfg (\<lambda>e s. (s, Inr [])) () (c_init ?cfg ())" by (simp add: reachable_def)
  have "dget ?disk (hard_state_path dir i) = None" "dget ?disk (log_path dir i) = None" for dir i
  proof -
    have e: "last (path_join dir n) = last n" if "n \<noteq> []" for n using that by (simp add: path_join_def)
    have "basename ''nodes.json'' = ''nodes.json''" by (simp add: basename_def)
    then have "hard_state_path dir i \<noteq> ''nodes.json''" "log_path dir i \<noteq> ''nodes.json''"
      using basename_paths [of dir i] by auto
    then show "dget ?disk (hard_state_path dir i) = None" "dget ?disk (log_path dir i) = None" by (simp_all add: dget_def)
  qed
  then have "on_disk dir (c_node (c_init ?cfg ()) 1) ?disk" for dir
    by (simp add: on_disk_def c_init_def init_node_fresh_eq)
  from raft_started_from_config [OF conf read_config_dumps cs ids r this] show ?thesis by blast
qed

section \<open>Addresses on the command line\<close>

text \<open>Servers that are told of each other agree on the tentative primary, in whatever order each lists its peers.\<close>

lemma connect_peers_primary: "rp_primary (connect_peers s) = rp_primary s"
proof -
  have "rp_primary (foldl (\<lambda>s a. connect_one_peer a s) s as) = rp_primary s" for "as" s
    by (induction "as" arbitrary: s) (simp_all add: connect_one_peer_def)
  then show ?thesis by (simp add: connect_peers_def)
qed

lemma pb_same_primary:
  assumes "mset (a # pb_peers pa) = mset (b # pb_peers pb)"
  shows "rp_primary (snd (pb_main a pa da disk)) = rp_primary (snd (pb_main b pb db disk'))"
proof -
  have "sort (a # pb_peers pa) = sort (b # pb_peers pb)" using assms by (metis sorted_list_of_multiset_mset)
  then show ?thesis by (simp add: pb_main_def rp_init_def connect_peers_primary Let_def)
qed

text \<open>An address is split at its last colon, so a host may have colons of its own.\<close>

lemma host_port_join: "host_port (h @ '':'' @ int_str p) = Inr (h, p)"
proof -
  have "CHR '':'' \<notin> set (int_str p)" using plain_int [of p] by (auto simp: plain_text_def is_digit_def)
  then have "split_at_char (CHR '':'') (rev (int_str p) @ CHR '':'' # rev h) = (rev (int_str p), Some (rev h))"
    by (simp add: split_at_char_append)
  then show ?thesis by (simp add: host_port_def py_int_str)
qed

lemma host_port_bare: "CHR '':'' \<notin> set s \<Longrightarrow> host_port s = Inl (ValueError ''not enough values to unpack (expected 2, got 1)'')"
  by (simp add: host_port_def split_at_char_none)

end
