(* ===== verification/Gateway_App.thy ===== *)
theory Gateway_App
  imports Startup Gateway_Theorems Client_Rpc_Theorems
begin

text \<open>
  The gateway as one program: the settings (\<open>config.py\<close>), the app that \<open>main.py\<close> puts together, its
  routes with the checks FastAPI makes before it calls them and the responses for what is wrong, and the
  status stream of \<open>api/cluster.py\<close>, all under \<open>part6_web/gateway\<close>.

  What a request meets outside the app is a record: the calls of the key-value client on a state \<open>'s\<close>,
  the clock, the nodes' status replies and the hash and UUID of the service.
\<close>

section \<open>Settings\<close>

record gw_settings =
  st_kv_nodes :: "addr list"
  st_rpc_timeout :: real
  st_deadline :: real
  st_max_value :: int
  st_origins :: "string list"
  st_interval :: real

definition default_settings :: gw_settings where
  "default_settings =
     \<lparr>st_kv_nodes = [''localhost:50051'', ''localhost:50052'', ''localhost:50053''], st_rpc_timeout = 3, st_deadline = 12,
      st_max_value = 64 * 1024, st_origins = [''http://localhost:5173''], st_interval = 1 / 2\<rparr>"

text \<open>\<open>float(env.get(name, default))\<close> and the same with \<open>int\<close>.\<close>

definition setting :: "(string \<Rightarrow> exn + 'a) \<Rightarrow> string option \<Rightarrow> 'a \<Rightarrow> exn + 'a" where
  "setting conv raw dflt = (case raw of None \<Rightarrow> Inr dflt | Some s \<Rightarrow> conv s)"

definition load_settings :: "(string \<Rightarrow> string option) \<Rightarrow> exn + gw_settings" where
  "load_settings env =
     (let d = default_settings in
      bind_sum (setting py_float (env ''KV_RPC_TIMEOUT'') (st_rpc_timeout d)) (\<lambda>rpc.
      bind_sum (setting py_float (env ''KV_REQUEST_DEADLINE'') (st_deadline d)) (\<lambda>deadline.
      bind_sum (setting py_int (env ''KV_MAX_VALUE_BYTES'') (st_max_value d)) (\<lambda>max_value.
      bind_sum (setting py_float (env ''STATUS_INTERVAL'') (st_interval d)) (\<lambda>interval.
        Inr \<lparr>st_kv_nodes = listed (env ''KV_NODES'') (st_kv_nodes d), st_rpc_timeout = rpc, st_deadline = deadline,
             st_max_value = max_value, st_origins = listed (env ''CORS_ORIGINS'') (st_origins d), st_interval = interval\<rparr>)))))"

section \<open>The app\<close>

text \<open>\<open>app.state\<close>; the service is the limit it was made with.\<close>

record gw_app =
  ap_settings :: gw_settings
  ap_cluster :: gw_cluster
  ap_max_value :: int

definition micros :: "real \<Rightarrow> int" where
  "micros x = \<lfloor>x * 1000000\<rfloor>"

text \<open>\<open>lifespan\<close> of \<open>create_app\<close>; \<open>fake\<close> is the client a test hands in.\<close>

definition start_app :: "(string \<Rightarrow> string option) \<Rightarrow> gw_settings option \<Rightarrow> gw_cluster option \<Rightarrow> exn + gw_app" where
  "start_app env given fake =
     bind_sum (case given of Some s \<Rightarrow> Inr s | None \<Rightarrow> load_settings env) (\<lambda>st.
     bind_sum (case fake of Some c \<Rightarrow> Inr c
               | None \<Rightarrow> new_gw_cluster (st_kv_nodes st) (micros (st_rpc_timeout st)) (micros (st_deadline st)) 250000) (\<lambda>c.
       Inr \<lparr>ap_settings = st, ap_cluster = c, ap_max_value = st_max_value st\<rparr>))"

section \<open>Requests\<close>

text \<open>
  What arrives, by route. \<open>ReadKey key consistency if_none_match\<close>, \<open>WriteKey key value if_match if_none_match
  idempotency_key\<close>, \<open>DeleteKey key if_match idempotency_key\<close>, \<open>Isolate node_id isolated heal_after\<close>. \<open>NoRoute\<close>:
  no route has the path or the method, and Starlette raises with this status and detail.
\<close>

datatype http_request =
    ReadKey string "string option" "string option"
  | WriteKey string unicode "string option" "string option" "string option"
  | DeleteKey string "string option" "string option"
  | ClusterStatus
  | Isolate int bool "int option"
  | Healthz
  | Readyz
  | NoRoute nat string

text \<open>The constraints the routes declare. A request that fails them never reaches a route.\<close>

definition valid_key :: "string \<Rightarrow> bool" where
  "valid_key k \<longleftrightarrow> 1 \<le> length k \<and> length k \<le> 512"

definition valid_idempotency_key :: "string option \<Rightarrow> bool" where
  "valid_idempotency_key i = (case i of None \<Rightarrow> True | Some k \<Rightarrow> length k \<le> 255)"

definition valid_consistency :: "string option \<Rightarrow> bool" where
  "valid_consistency c = (case c of None \<Rightarrow> True | Some s \<Rightarrow> s = ''leader'' \<or> s = ''linearizable'')"

definition valid_heal :: "int option \<Rightarrow> bool" where
  "valid_heal h = (case h of None \<Rightarrow> True | Some t \<Rightarrow> 5 \<le> t \<and> t \<le> 300)"

fun valid_request :: "http_request \<Rightarrow> bool" where
  "valid_request (ReadKey k c inm) \<longleftrightarrow> valid_key k \<and> valid_consistency c"
| "valid_request (WriteKey k v im inm i) \<longleftrightarrow> valid_key k \<and> valid_idempotency_key i"
| "valid_request (DeleteKey k im i) \<longleftrightarrow> valid_key k \<and> valid_idempotency_key i"
| "valid_request (Isolate n on h) \<longleftrightarrow> valid_heal h"
| "valid_request _ \<longleftrightarrow> True"

section \<open>Responses\<close>

datatype gw_body =
    KeyBody body
  | ClusterBody cluster_out
  | IsolationBody int bool
  | ReadyBody nat nat
  | AliveBody

definition answer_body :: "('a \<Rightarrow> gw_body) \<Rightarrow> 'a response \<Rightarrow> gw_body response" where
  "answer_body f r = \<lparr>rs_status = rs_status r, rs_headers = rs_headers r, rs_body = f (rs_body r)\<rparr>"

definition plain_answer :: "gw_body \<Rightarrow> gw_body response" where
  "plain_answer b = \<lparr>rs_status = 200, rs_headers = [], rs_body = b\<rparr>"

text \<open>\<open>_validation_error\<close>, without the list of what FastAPI found, and \<open>_http_error\<close>.\<close>

definition validation_error :: "(nat \<Rightarrow> string) \<Rightarrow> gw_body response" where
  "validation_error phrase = answer_body KeyBody (problem phrase 422 ''The request is not valid.'' [] None None)"

definition http_error :: "(nat \<Rightarrow> string) \<Rightarrow> nat \<Rightarrow> string \<Rightarrow> gw_body response" where
  "http_error phrase code detail = answer_body KeyBody (problem phrase code detail [] None None)"

record 's gw_env =
  ge_calls :: "'s kv_calls"
  ge_repr :: "string \<Rightarrow> string"
  ge_digest :: "string \<Rightarrow> write_request \<Rightarrow> string"
  ge_fresh :: string
  ge_phrase :: "nat \<Rightarrow> string"
  ge_now :: int
  ge_fetched :: int
  ge_ask :: "nat \<Rightarrow> status_reply call"
  ge_isolate :: "bool \<Rightarrow> int \<Rightarrow> bool call"

text \<open>A route's result, or the response of the handler registered for its exception.\<close>

definition finish_request :: "(nat \<Rightarrow> string) \<Rightarrow> gw_error + gw_body response \<Rightarrow> gw_body response" where
  "finish_request phrase r = (case r of Inl e \<Rightarrow> answer_body KeyBody (domain_handler phrase e) | Inr a \<Rightarrow> a)"

definition key_request :: "(nat \<Rightarrow> string) \<Rightarrow> gw_app \<Rightarrow> 's \<times> (gw_error + body response) \<Rightarrow> (gw_app \<times> 's) \<times> gw_body response" where
  "key_request phrase ap r = ((ap, fst r), finish_request phrase (map_sum id (answer_body KeyBody) (snd r)))"

definition cluster_request ::
  "(nat \<Rightarrow> string) \<Rightarrow> gw_app \<Rightarrow> 's \<Rightarrow> gw_cluster \<Rightarrow> gw_error + gw_body \<Rightarrow> (gw_app \<times> 's) \<times> gw_body response" where
  "cluster_request phrase ap s c r = ((ap\<lparr>ap_cluster := c\<rparr>, s), finish_request phrase (map_sum id plain_answer r))"

definition cluster_status :: "'s gw_env \<Rightarrow> gw_cluster \<Rightarrow> gw_cluster \<times> cluster_out" where
  "cluster_status ge c = (let (c', ss) = node_statuses (ge_now ge) (ge_fetched ge) (ge_ask ge) c in (c', summarize ss))"

fun run_route :: "'s gw_env \<Rightarrow> http_request \<Rightarrow> gw_app \<times> 's \<Rightarrow> (gw_app \<times> 's) \<times> gw_body response" where
  "run_route ge (ReadKey k c inm) (ap, s) =
     key_request (ge_phrase ge) ap
       (read_key (ge_repr ge) (ge_calls ge) k (case c of None \<Rightarrow> ''leader'' | Some x \<Rightarrow> x) inm s)"
| "run_route ge (WriteKey k v im inm i) (ap, s) =
     key_request (ge_phrase ge) ap
       (write_key (ge_repr ge) (ge_calls ge) (ap_max_value ap) (ge_digest ge) (ge_fresh ge) k v im inm i s)"
| "run_route ge (DeleteKey k im i) (ap, s) =
     key_request (ge_phrase ge) ap (delete_key (ge_repr ge) (ge_calls ge) (ge_digest ge) (ge_fresh ge) k im i s)"
| "run_route ge ClusterStatus (ap, s) =
     (let (c, out) = cluster_status ge (ap_cluster ap) in cluster_request (ge_phrase ge) ap s c (Inr (ClusterBody out)))"
| "run_route ge (Isolate n on h) (ap, s) =
     (let (c, r) = set_isolation n on (case h of None \<Rightarrow> 30 | Some t \<Rightarrow> t) (ge_isolate ge) (ap_cluster ap)
      in cluster_request (ge_phrase ge) ap s c (map_sum id (\<lambda>(m, x). IsolationBody m x) r))"
| "run_route ge Healthz (ap, s) = ((ap, s), plain_answer AliveBody)"
| "run_route ge Readyz (ap, s) =
     (let (c, ss) = node_statuses (ge_now ge) (ge_fetched ge) (ge_ask ge) (ap_cluster ap)
      in cluster_request (ge_phrase ge) ap s c (map_sum id (\<lambda>(l, t). ReadyBody l t) (readyz ss)))"
| "run_route ge (NoRoute code detail) (ap, s) = ((ap, s), http_error (ge_phrase ge) code detail)"

definition gw_handle :: "'s gw_env \<Rightarrow> http_request \<Rightarrow> gw_app \<times> 's \<Rightarrow> (gw_app \<times> 's) \<times> gw_body response" where
  "gw_handle ge q st = (if valid_request q then run_route ge q st else (st, validation_error (ge_phrase ge)))"

section \<open>The status stream\<close>

text \<open>
  One turn: the clock and the nodes' replies, whether the client could still be sent to, and what came of
  the wait: nothing in time, a message, or the client's disconnect.
\<close>

datatype stream_event = Nothing_came | Message_came | Client_gone

record stream_turn =
  tu_now :: int
  tu_fetched :: int
  tu_ask :: "nat \<Rightarrow> status_reply call"
  tu_sent :: bool
  tu_event :: stream_event

text \<open>The turns so far; what was pushed, and whether the stream is still open.\<close>

fun stream_status :: "stream_turn list \<Rightarrow> gw_cluster \<Rightarrow> gw_cluster \<times> cluster_out list \<times> bool" where
  "stream_status [] c = (c, [], True)"
| "stream_status (t # ts) c =
     (let (c', ss) = node_statuses (tu_now t) (tu_fetched t) (tu_ask t) c in
      if \<not> tu_sent t then (c', [], False)
      else if tu_event t = Client_gone then (c', [summarize ss], False)
      else (let (c'', outs, open') = stream_status ts c' in (c'', summarize ss # outs, open')))"

section \<open>From the environment to the leader\<close>

lemma split_comma_list:
  "\<forall>s \<in> set ss. CHR '','' \<notin> set s \<Longrightarrow> ss \<noteq> [] \<Longrightarrow> split_on (CHR '','') (comma_join ss) = ss"
  by (induction ss rule: comma_join.induct) (simp_all add: split_on_step split_on_none)

lemma strip_id: "\<forall>c \<in> set s. \<not> is_space c \<Longrightarrow> strip s = s"
  by (simp add: strip_def strip_by_def dropWhile_none)

definition clean :: "string \<Rightarrow> bool" where
  "clean s \<longleftrightarrow> (\<forall>c \<in> set s. \<not> is_space c \<and> c \<noteq> CHR '','')"

lemma listed_join:
  assumes "\<forall>s \<in> set ss. clean s \<and> s \<noteq> []" "ss \<noteq> []"
  shows "listed (Some (comma_join ss)) dflt = ss"
proof -
  have "comma_join ss \<noteq> []" using assms by (induction ss rule: comma_join.induct) auto
  moreover have "map strip ss = ss" using assms(1) by (intro map_idI) (simp add: strip_id clean_def)
  moreover have "filter (\<lambda>p. p \<noteq> []) ss = ss" using assms(1) by (intro filter_True) simp
  moreover have "split_on (CHR '','') (comma_join ss) = ss" by (rule split_comma_list) (use assms in \<open>auto simp: clean_def\<close>)
  ultimately show ?thesis by (cases "comma_join ss") (simp_all add: listed_def)
qed

lemma clean_address: "clean (nc_host c) \<Longrightarrow> clean (nc_address c) \<and> nc_address c \<noteq> []"
proof -
  have d: "\<not> is_space x \<and> x \<noteq> CHR '',''" if "is_digit x" for x using that by (auto simp: is_digit_def is_space_def)
  have "\<forall>x \<in> set (nat_str (nc_port c)). is_digit x" using nat_str_digits by (simp add: list_all_iff)
  moreover have "\<not> is_space (CHR '':'')" by (simp add: is_space_def)
  moreover assume "clean (nc_host c)"
  ultimately show ?thesis using d unfolding clean_def nc_address_def by auto
qed

lemma started_nodes:
  assumes "start_app env None None = Inr ap" "env ''KV_NODES'' = Some (comma_join (map nc_address cs))" "cs \<noteq> []"
    and "\<forall>c \<in> set cs. clean (nc_host c)"
  shows "gc_nodes (ap_cluster ap) = map nc_address cs"
proof -
  have l: "listed (env ''KV_NODES'') d = map nc_address cs" for d
    unfolding assms(2) by (rule listed_join) (use assms(3,4) clean_address in auto)
  from assms(1,3) show ?thesis
    by (auto simp: start_app_def load_settings_def bind_sum_Inr new_gw_cluster_def l Let_def split: if_splits)
qed

lemma by_address_nth:
  assumes "distinct as" "l < length as" shows "dget (by_address as) (as ! l) = Some l"
proof -
  have d: "distinct (map fst (zip as [0..<length as]))" using assms(1) by simp
  then have "by_address as = zip as [0..<length as]" by (simp add: by_address_def dict_of_distinct)
  moreover have "(as ! l, l) \<in> set (zip as [0..<length as])" using assms(2) by (force simp: set_zip)
  ultimately show ?thesis using d by (simp add: wf_dget_iff wf_dict_def)
qed

lemma find_by_id: "map nc_id cs = [i..<i + length cs] \<Longrightarrow> l < length cs \<Longrightarrow> find (\<lambda>c. nc_id c = i + l) cs = Some (cs ! l)"
proof (induction cs arbitrary: i l)
  case (Cons c cs)
  have u: "[i..<i + length (c # cs)] = i # [Suc i..<Suc i + length cs]" using upt_conv_Cons [of i "i + Suc (length cs)"] by simp
  with Cons.prems have c: "nc_id c = i" "map nc_id cs = [Suc i..<Suc i + length cs]" by simp_all
  show ?case
  proof (cases l)
    case (Suc m)
    with Cons.IH [OF c(2), of m] Cons.prems(2) c(1) show ?thesis by simp
  qed (simp add: c)
qed simp

text \<open>
  C36. The gateway finds the leader: started with the addresses of the cluster's configuration file in
  \<open>KV_NODES\<close>, in the order of the ids, its client takes what a server of that configuration answers while
  it follows leader \<open>l\<close> for a redirect to node \<open>l\<close>, whose address is the one in the file, and asks that
  node next without a pause, unless it is the node just asked, is known to be unreachable, or three
  redirects in a row were followed.
\<close>

theorem gw_redirect_reaches_leader:
  fixes r :: 'r
  assumes "start_app env None None = Inr ap" "env ''KV_NODES'' = Some (comma_join (map nc_address cs))"
    and cs: "\<forall>c \<in> set cs. clean (nc_host c)" "map nc_id cs = [0..<length cs]" "distinct (map nc_address cs)"
    and nd: "peers nd = serve_peers (node_id nd) cs" "leader_id nd = Some l" "l \<noteq> node_id nd" "l < length cs"
    and st: "l \<noteq> cs_node st" "l \<notin> cs_unreachable st" "cs_redirects st < 3"
    and r: "\<not> ok r" "msg r = redirect nd"
  defines "nodes \<equiv> gc_nodes (ap_cluster ap)"
  shows "nodes ! l = nc_address (cs ! l) \<and> redirect_target nodes (redirect nd) = Some l
    \<and> gw_judge nodes w ok msg st (Answered r)
      = AtOnce (st\<lparr>cs_node := l, cs_redirects := cs_redirects st + 1, cs_problem := nodes ! cs_node st @ '' is not the leader''\<rparr>)"
proof -
  from nd(4) have "cs \<noteq> []" by auto
  then have n: "nodes = map nc_address cs" unfolding nodes_def by (rule started_nodes [OF assms(1,2) _ cs(1)])
  have f: "find (\<lambda>c. nc_id c = l) cs = Some (cs ! l)" using find_by_id [of cs 0 l] cs(2) nd(4) by simp
  have "dget (peers nd) l = Some (nc_address (cs ! l))"
    using dget_serve_peers [of cs l "node_id nd"] cs(2) nd(1,3) f by simp
  then have m: "redirect nd = not_leader_msg (Some l) (Some (nc_address (cs ! l)))"
    using nd(2,3) by (simp add: redirect_def get_leader_info_def)
  have "dget (by_address nodes) (nc_address (cs ! l)) = Some l"
    using by_address_nth [of "map nc_address cs" l] cs(3) nd(4) by (simp add: n)
  then have t: "redirect_target nodes (redirect nd) = Some l"
    unfolding redirect_target_def m split_not_leader by (simp add: Let_def numeral_2_eq_2)
  have "startswith (redirect nd) ''NOT_LEADER:''" unfolding m by (simp add: not_leader_msg_def startswith_def)
  with t st r show ?thesis
    by (simp add: gw_judge_def Let_def split: prod.split) (simp add: n nd(4))
qed

definition shipped_env :: "string \<Rightarrow> string option" where
  "shipped_env k = (if k = ''KV_NODES'' then Some (comma_join (map nc_address shipped_configs)) else None)"

theorem gw_redirect_reaches_leader_witness:
  "\<exists>ap nd. start_app shipped_env None None = Inr ap
    \<and> gc_nodes (ap_cluster ap) ! 2 = nc_address (shipped_configs ! 2) \<and> redirect_target (gc_nodes (ap_cluster ap)) (redirect nd) = Some 2"
proof -
  let ?nd = "(init_node 1 (serve_peers 1 shipped_configs) None None)\<lparr>leader_id := Some 2\<rparr>"
  have l: "listed (shipped_env ''KV_NODES'') d = map nc_address shipped_configs" for d
  proof -
    have "shipped_env ''KV_NODES'' = Some (comma_join (map nc_address shipped_configs))" by (simp add: shipped_env_def)
    moreover have "\<forall>c \<in> set shipped_configs. clean (nc_host c)" "shipped_configs \<noteq> []" by (simp_all add: shipped_configs_def clean_def is_space_def)
    then have "listed (Some (comma_join (map nc_address shipped_configs))) d = map nc_address shipped_configs"
      by (intro listed_join) (use clean_address in auto)
    ultimately show ?thesis by simp
  qed
  have o: "shipped_env ''KV_RPC_TIMEOUT'' = None" "shipped_env ''KV_REQUEST_DEADLINE'' = None" "shipped_env ''KV_MAX_VALUE_BYTES'' = None"
    "shipped_env ''STATUS_INTERVAL'' = None" "shipped_configs \<noteq> []" by (simp_all add: shipped_env_def shipped_configs_def)
  obtain ap where ap: "start_app shipped_env None None = Inr ap"
    by (simp add: start_app_def load_settings_def setting_def l o Let_def new_gw_cluster_def)
  have clean: "\<forall>c \<in> set shipped_configs. clean (nc_host c)" by (simp add: shipped_configs_def clean_def is_space_def)
  have ids: "map nc_id shipped_configs = [0..<length shipped_configs]" by (simp add: shipped_configs_def upt_rec)
  have dist: "distinct (map nc_address shipped_configs)"
    by (auto simp: shipped_configs_def nc_address_def dest: nat_str_inj)
  have nd: "peers ?nd = serve_peers (node_id ?nd) shipped_configs" "leader_id ?nd = Some 2" "2 \<noteq> node_id ?nd" "2 < length shipped_configs"
    by (simp_all add: init_node_fresh_eq shipped_configs_def)
  have st: "2 \<noteq> cs_node (call_start 0)" "2 \<notin> cs_unreachable (call_start 0)" "cs_redirects (call_start 0) < 3" by (simp_all add: call_start_def)
  from gw_redirect_reaches_leader [where ok = "\<lambda>_. False" and msg = "\<lambda>x. x", OF ap _ clean ids dist nd st _ refl] ap
  show ?thesis by (auto simp: shipped_env_def)
qed

section \<open>Every request is answered\<close>

definition answer_codes :: "nat set" where
  "answer_codes = {200, 201, 204, 304, 400, 404, 412, 413, 422, 500, 502, 503, 504}"

lemma answer_status [simp]: "rs_status (answer_body f r) = rs_status r" "rs_status (plain_answer b) = 200"
  by (simp_all add: answer_body_def plain_answer_def)

lemma handler_status: "rs_status (domain_handler phrase e) \<in> {400, 404, 412, 413, 500, 502, 503, 504}"
  by (cases e) (simp_all add: domain_handler_def problem_def Let_def)

lemma route_status:
  "(case snd (read_key repr kc k c inm s) of Inl e \<Rightarrow> True | Inr r \<Rightarrow> rs_status r \<in> {200, 304})"
  "(case snd (write_key repr kc mb digest fresh k v im inm i s) of Inl e \<Rightarrow> True | Inr r \<Rightarrow> rs_status r \<in> {200, 201})"
  "(case snd (delete_key repr kc digest fresh k im i s) of Inl e \<Rightarrow> True | Inr r \<Rightarrow> rs_status r \<in> {204})"
  by (auto simp: read_key_def write_key_def delete_key_def Let_def split: sum.splits prod.splits)

lemma finish_status:
  "(case r of Inl e \<Rightarrow> True | Inr a \<Rightarrow> rs_status a \<in> S) \<Longrightarrow> rs_status (finish_request phrase r) \<in> S \<union> {400, 404, 412, 413, 500, 502, 503, 504}"
  using handler_status by (auto simp: finish_request_def split: sum.splits)

lemma key_codes:
  assumes "case snd r of Inl e \<Rightarrow> True | Inr a \<Rightarrow> rs_status a \<in> S" "S \<subseteq> {200, 201, 204, 304}"
  shows "rs_status (snd (key_request phrase ap r)) \<in> answer_codes - {422}" "fst (fst (key_request phrase ap r)) = ap"
proof -
  have "rs_status (snd (key_request phrase ap r)) \<in> S \<union> {400, 404, 412, 413, 500, 502, 503, 504}"
    unfolding key_request_def snd_conv by (rule finish_status) (use assms(1) in \<open>auto split: sum.splits\<close>)
  with assms(2) show "rs_status (snd (key_request phrase ap r)) \<in> answer_codes - {422}" by (auto simp: answer_codes_def)
qed (simp add: key_request_def)

lemma cluster_codes:
  "rs_status (snd (cluster_request phrase ap s c r)) \<in> answer_codes - {422}" "snd (fst (cluster_request phrase ap s c r)) = s"
proof -
  have "rs_status (snd (cluster_request phrase ap s c r)) \<in> {200} \<union> {400, 404, 412, 413, 500, 502, 503, 504}"
    unfolding cluster_request_def snd_conv by (rule finish_status, cases r) simp_all
  then show "rs_status (snd (cluster_request phrase ap s c r)) \<in> answer_codes - {422}" by (auto simp: answer_codes_def)
qed (simp add: cluster_request_def)

text \<open>A route's answer, and what it leaves alone.\<close>

lemma run_route_codes:
  "(\<exists>code d. q = NoRoute code d) \<or> rs_status (snd (run_route ge q (ap, s))) \<in> answer_codes - {422}"
  "fst (fst (run_route ge q (ap, s))) \<noteq> ap \<Longrightarrow> q \<in> {ClusterStatus, Readyz} \<union> (\<Union>n on h. {Isolate n on h}) \<and> snd (fst (run_route ge q (ap, s))) = s"
proof -
  have k: "rs_status (snd (key_request p ap (read_key repr kc k c inm s))) \<in> answer_codes - {422}"
    "rs_status (snd (key_request p ap (write_key repr kc mb digest fresh k v im inm i s))) \<in> answer_codes - {422}"
    "rs_status (snd (key_request p ap (delete_key repr kc digest fresh k im i s))) \<in> answer_codes - {422}"
    for p repr kc k c inm s mb digest fresh v im i and ap :: gw_app
    by (rule key_codes(1) [OF route_status(1)] key_codes(1) [OF route_status(2)] key_codes(1) [OF route_status(3)], simp)+
  have alive: "200 \<in> answer_codes - {422}" by (simp add: answer_codes_def)
  show "(\<exists>code d. q = NoRoute code d) \<or> rs_status (snd (run_route ge q (ap, s))) \<in> answer_codes - {422}"
    by (cases q) (simp_all add: k cluster_codes(1) alive del: Diff_iff split: prod.split)
  show "fst (fst (run_route ge q (ap, s))) \<noteq> ap \<Longrightarrow> q \<in> {ClusterStatus, Readyz} \<union> (\<Union>n on h. {Isolate n on h}) \<and> snd (fst (run_route ge q (ap, s))) = s"
    by (cases q) (simp_all add: key_request_def cluster_codes(2) split: prod.splits)
qed


text \<open>A read of the empty key never gets to the store.\<close>

definition demo_env :: "kv gw_env" where
  "demo_env = \<lparr>ge_calls = store_calls, ge_repr = id, ge_digest = (\<lambda>k q. k), ge_fresh = ''1'', ge_phrase = (\<lambda>n. []),
     ge_now = 0, ge_fetched = 0, ge_ask = (\<lambda>n. Status ''UNAVAILABLE'' []), ge_isolate = (\<lambda>on t. Answered on)\<rparr>"

definition demo_app :: gw_app where
  "demo_app = \<lparr>ap_settings = default_settings,
     ap_cluster = \<lparr>gc_nodes = [''a''], gc_rpc_timeout = 1, gc_deadline = 2, gc_ttl = 0, gc_leader = 0, gc_status = (0, None)\<rparr>,
     ap_max_value = 100\<rparr>"


section \<open>The stream\<close>

lemma stream_closed: "snd (snd (stream_status ts c)) = False \<Longrightarrow> stream_status (ts @ us) c = stream_status ts c"
  by (induction ts arbitrary: c) (auto simp: split_beta Let_def split: if_splits)

lemma stream_continues:
  "snd (snd (stream_status ts c)) \<Longrightarrow> stream_status (ts @ us) c =
     (fst (stream_status us (fst (stream_status ts c))),
      fst (snd (stream_status ts c)) @ fst (snd (stream_status us (fst (stream_status ts c)))),
      snd (snd (stream_status us (fst (stream_status ts c)))))"
  by (induction ts arbitrary: c) (auto simp: split_beta Let_def split: if_splits)

text \<open>One push for each turn while the stream is open; it closes at a disconnect or a failed push, and stays closed.\<close>

lemma stream_open_iff: "snd (snd (stream_status ts c)) \<longleftrightarrow> (\<forall>t \<in> set ts. tu_sent t \<and> tu_event t \<noteq> Client_gone)"
  by (induction ts arbitrary: c) (auto simp: split_beta Let_def)

lemma stream_pushes: "snd (snd (stream_status ts c)) \<Longrightarrow> length (fst (snd (stream_status ts c))) = length ts"
  by (induction ts arbitrary: c) (auto simp: split_beta Let_def split: if_splits)

text \<open>Turns closer together than the cache's life time push the same statuses, and only the first asks the nodes.\<close>

lemma stream_shares_fetch:
  assumes "gc_status c = (t0, Some ss)" "\<forall>t \<in> set ts. tu_now t - t0 < gc_ttl c"
  shows "set (fst (snd (stream_status ts c))) \<subseteq> {summarize ss} \<and> fst (stream_status ts c) = c"
  using assms(2)
proof (induction ts)
  case (Cons t ts)
  then have "node_statuses (tu_now t) (tu_fetched t) (tu_ask t) c = (c, ss)" using assms(1) by (simp add: node_statuses_def)
  with Cons show ?case by (auto simp: split_beta Let_def)
qed simp

end
