(* ===== verification/Pb_Client.thy ===== *)
theory Pb_Client
  imports Client_Stubs Client_Rpc_Theorems Primary_Backup_Theorems
begin

text \<open>
  The client stub of \<open>replication/client_stub.py\<close> in front of the cluster of \<open>replication/server.py\<close>: what
  its calls do while one primary serves the live servers, a fail-over, and the restart of a server.
\<close>

section \<open>The cluster as the client's calls see it\<close>

text \<open>A server that is not in \<open>pw_live\<close> answers nobody. \<open>down\<close>: what gRPC says of an address nobody listens on.\<close>

record pb_world =
  pw_servers :: cluster_state
  pw_live :: "addr set"

definition down :: "string" where
  "down = ''failed to connect to all addresses''"

definition pw_call :: "addr \<Rightarrow> (cluster_state \<Rightarrow> cluster_state \<times> 'r call) \<Rightarrow> pb_world \<Rightarrow> pb_world \<times> 'r call" where
  "pw_call a g w =
     (if a \<in> pw_live w then (let (c, r) = g (pw_servers w) in (w\<lparr>pw_servers := c\<rparr>, r)) else (w, Status ''UNAVAILABLE'' down))"

definition pw_info :: "addr \<Rightarrow> pb_world \<Rightarrow> pb_world \<times> addr option" where
  "pw_info a w = (w, if a \<in> pw_live w then Some (fst (rp_cluster_info (pw_servers w a))) else None)"

definition pw_create :: "os \<Rightarrow> addr \<Rightarrow> string \<Rightarrow> string \<Rightarrow> int \<Rightarrow> pb_world \<Rightarrow> pb_world \<times> create_response call" where
  "pw_create os a f cid seq w = pw_call a (cl_create os (\<lambda>b. b \<in> pw_live w) a f cid seq) w"

definition pw_version :: "addr \<Rightarrow> string \<Rightarrow> pb_world \<Rightarrow> pb_world \<times> int option call" where
  "pw_version a f = pw_call a (\<lambda>c. (c, case rp_test_version f (c a) of Answered v \<Rightarrow> Answered (Some v) | Status s d \<Rightarrow> Status s d))"

definition pw_open :: "os \<Rightarrow> addr \<Rightarrow> string \<Rightarrow> string \<Rightarrow> bool \<Rightarrow> pb_world \<Rightarrow> pb_world \<times> open_response call" where
  "pw_open os a f mode fetch = pw_call a (cl_open os a f mode fetch)"

definition pw_close :: "os \<Rightarrow> addr \<Rightarrow> int \<Rightarrow> bytes \<Rightarrow> string \<Rightarrow> int \<Rightarrow> pb_world \<Rightarrow> pb_world \<times> close_response call" where
  "pw_close os a h b cid seq w = pw_call a (cl_close os (\<lambda>b. b \<in> pw_live w) a h b cid seq) w"

section \<open>One primary\<close>

text \<open>
  \<open>has os f x s\<close>: the server \<open>s\<close> has version and contents \<open>x\<close> of the file \<open>f\<close>, or does not have it. In
  a steady cluster of the servers \<open>G\<close>, \<open>q\<close> is the primary of the live servers and they agree on \<open>f\<close>.
\<close>

definition has :: "os \<Rightarrow> string \<Rightarrow> (int \<times> bytes) option \<Rightarrow> rep \<Rightarrow> bool" where
  "has os f x s \<longleftrightarrow> dget (rp_versions s) f = map_option fst x \<and> contents os (rp_disk s) (rp_path s f) = map_option snd x
     \<and> (\<forall>v b. x = Some (v, b) \<longrightarrow> 0 < v)"

definition orderly :: "rep \<Rightarrow> bool" where
  "orderly s \<longleftrightarrow> wf_dict (rp_versions s) \<and> 0 < rp_next s \<and> (\<forall>h i. dget (rp_open s) h = Some i \<longrightarrow> 0 < h)"

definition placed :: "(addr \<Rightarrow> string) \<Rightarrow> addr set \<Rightarrow> cluster_state \<Rightarrow> bool" where
  "placed dir G c \<longleftrightarrow> (\<forall>a\<in>G. rp_addr (c a) = a \<and> rp_dir (c a) = dir a \<and> distinct (rp_stubs (c a)) \<and> set (rp_stubs (c a)) = G - {a})"

definition steady :: "os \<Rightarrow> (addr \<Rightarrow> string) \<Rightarrow> addr set \<Rightarrow> string \<Rightarrow> addr \<Rightarrow> (int \<times> bytes) option \<Rightarrow> pb_world \<Rightarrow> bool" where
  "steady os dir G f q x w \<longleftrightarrow> q \<in> pw_live w \<and> pw_live w \<subseteq> G \<and> placed dir G (pw_servers w)
     \<and> (\<forall>a\<in>pw_live w. let s = pw_servers w a in
          rp_ready s \<and> rp_primary s = q \<and> rp_role s = (if a = q then RPrimary else RBackup) \<and> orderly s \<and> has os f x s)"

text \<open>The client \<open>n\<close> has used no sequence number above \<open>B n\<close>.\<close>

definition used_below :: "(string \<Rightarrow> int) \<Rightarrow> addr set \<Rightarrow> cluster_state \<Rightarrow> bool" where
  "used_below B G c \<longleftrightarrow> (\<forall>a\<in>G. \<forall>n l r. dget (rp_dedup (c a)) n = Some (l, r) \<longrightarrow> l \<le> B n)"

definition writable :: "os \<Rightarrow> (addr \<Rightarrow> string) \<Rightarrow> addr set \<Rightarrow> string \<Rightarrow> bool" where
  "writable os dir G f \<longleftrightarrow> (\<forall>a\<in>G. \<exists>l. os (path_join (dir a) f) = File l)"

lemma steadyD:
  assumes "steady os dir G f q x w"
  shows "q \<in> pw_live w" "pw_live w \<subseteq> G" "placed dir G (pw_servers w)"
    and "a \<in> pw_live w \<Longrightarrow> rp_ready (pw_servers w a) \<and> rp_primary (pw_servers w a) = q
      \<and> rp_role (pw_servers w a) = (if a = q then RPrimary else RBackup) \<and> orderly (pw_servers w a) \<and> has os f x (pw_servers w a)"
  using assms by (simp_all add: steady_def Let_def)

lemma placedD:
  assumes "placed dir G c" "a \<in> G"
  shows "rp_addr (c a) = a" "rp_dir (c a) = dir a" "distinct (rp_stubs (c a))" "set (rp_stubs (c a)) = G - {a}"
  using assms by (simp_all add: placed_def)

lemma steady_step:
  assumes "steady os dir G f q x w" "\<And>a. a \<in> G \<Longrightarrow> same_server (pw_servers w a) (c a)"
    and "\<And>a. a \<in> pw_live w \<Longrightarrow> orderly (c a) \<and> has os f y (c a)"
  shows "steady os dir G f q y (w\<lparr>pw_servers := c\<rparr>)"
proof -
  have "placed dir G c"
    using steadyD(3) [OF assms(1)] assms(2) unfolding placed_def same_server_def by metis
  moreover have "rp_ready (c a) \<and> rp_primary (c a) = q \<and> rp_role (c a) = (if a = q then RPrimary else RBackup)" if "a \<in> pw_live w" for a
    using steadyD(4) [OF assms(1) that] assms(2) [of a] steadyD(2) [OF assms(1)] that unfolding same_server_def by auto
  ultimately show ?thesis using steadyD(1,2) [OF assms(1)] assms(3) by (simp add: steady_def)
qed

lemma used_mono: "used_below B G c \<Longrightarrow> (\<And>n. B n \<le> B' n) \<Longrightarrow> used_below B' G c"
  unfolding used_below_def by (meson order_trans)

lemma not_used: "used_below B G c \<Longrightarrow> a \<in> G \<Longrightarrow> B cid < seq \<Longrightarrow> rp_check_idempotent cid seq (c a) = None"
  by (auto simp: used_below_def rp_check_idempotent_def split: option.split) fastforce

lemma has_new: "has os f x s \<Longrightarrow> write_file os (rp_path s f) b (rp_disk s) = Inr d \<Longrightarrow> 0 < v
    \<Longrightarrow> has os f (Some (v, b)) (s\<lparr>rp_disk := d, rp_versions := dset (rp_versions s) f v\<rparr>)"
  by (simp add: has_def write_file_contents)

lemma has_cong: "has os f x s \<Longrightarrow> rp_versions t = rp_versions s \<Longrightarrow> rp_disk t = rp_disk s \<Longrightarrow> rp_dir t = rp_dir s \<Longrightarrow> has os f x t"
  by (simp add: has_def rp_path_def)

text \<open>What the primary sends out reaches the live servers.\<close>

lemma replicate_live:
  assumes "distinct as"
  shows "replicate_to os reach m as c a = (if a \<in> set as \<and> reach a then receive os m (c a) else c a)"
  using assms
proof (induction as arbitrary: c)
  case (Cons x xs)
  have "replicate_to os reach m (x # xs) c = replicate_to os reach m xs (if reach x then c(x := receive os m (c x)) else c)"
    by (simp add: replicate_to_def)
  then show ?case using Cons by auto
qed (simp add: replicate_to_def)

lemma receive_frame:
  "rp_dedup (receive os m s) = rp_dedup s" "rp_open (receive os m s) = rp_open s" "rp_next (receive os m s) = rp_next s"
  by (auto simp: receive_def rp_replicate_create_def rp_replicate_write_def split: replication.split sum.split)

lemma send_live:
  assumes "placed dir G (pw_servers w)" "pw_live w \<subseteq> G" "q \<in> G" "same_server (pw_servers w q) s"
  shows "send_out os (\<lambda>b. b \<in> pw_live w) q (Some m) ((pw_servers w)(q := s)) a
    = (if a = q then s else if a \<in> pw_live w then receive os m (pw_servers w a) else pw_servers w a)"
proof -
  have "rp_stubs s = rp_stubs (pw_servers w q)" using assms(4) by (simp add: same_server_def)
  then have "distinct (rp_stubs s)" "set (rp_stubs s) = G - {q}" using placedD [OF assms(1,3)] by simp_all
  then show ?thesis using assms(2) by (auto simp: send_out_def replicate_live)
qed

lemma exists_has: "has os f x s \<Longrightarrow> os (rp_path s f) = File l \<Longrightarrow> path_exists os (rp_disk s) (rp_path s f) \<longleftrightarrow> x \<noteq> None"
  by (cases x) (auto simp: has_def path_exists_def contents_def)

lemma receive_has:
  assumes "has os f x s" "os (rp_path s f) = File l" "orderly s"
  shows "x = None \<Longrightarrow> has os f (Some (1, [])) (receive os (SendCreate f) s) \<and> orderly (receive os (SendCreate f) s)"
    and "0 < v \<Longrightarrow> has os f (Some (v, b)) (receive os (SendWrite f b v) s) \<and> orderly (receive os (SendWrite f b v) s)"
proof -
  have w: "\<exists>d. write_file os (rp_path s f) b (rp_disk s) = Inr d" for b using assms(2) by (simp add: write_file_def)
  show "has os f (Some (1, [])) (receive os (SendCreate f) s) \<and> orderly (receive os (SendCreate f) s)" if "x = None"
  proof -
    obtain d where d: "write_file os (rp_path s f) [] (rp_disk s) = Inr d" using w by blast
    then show ?thesis using that exists_has [OF assms(1,2)] has_new [OF assms(1) d, of 1] assms(3)
      by (simp add: receive_def rp_replicate_create_def orderly_def)
  qed
  show "has os f (Some (v, b)) (receive os (SendWrite f b v) s) \<and> orderly (receive os (SendWrite f b v) s)" if "0 < v"
  proof -
    obtain d where d: "write_file os (rp_path s f) b (rp_disk s) = Inr d" using w by blast
    then show ?thesis using has_new [OF assms(1) d that] assms(3)
      by (simp add: receive_def rp_replicate_write_def orderly_def)
  qed
qed

section \<open>Calls to the primary\<close>

text \<open>The primary's write, sent to the others.\<close>

lemma primary_wrote:
  assumes st: "steady os dir G f q x w" and wr: "writable os dir G f" and u: "used_below B G (pw_servers w)"
    and s: "same_server (pw_servers w q) s" "orderly s" "has os f (Some y) s"
      "rp_dedup s = (if cid \<noteq> [] \<and> 0 < seq then dset (rp_dedup (pw_servers w q)) cid (seq, r) else rp_dedup (pw_servers w q))"
    and B: "B cid < seq"
    and m: "m = SendCreate f \<and> x = None \<and> y = (1, []) \<or> m = SendWrite f (snd y) (fst y) \<and> 0 < fst y"
    and c: "c = send_out os (\<lambda>b. b \<in> pw_live w) q (Some m) ((pw_servers w)(q := s))"
  shows "steady os dir G f q (Some y) (w\<lparr>pw_servers := c\<rparr>) \<and> used_below (B(cid := seq)) G c \<and> c q = s"
proof -
  note D = steadyD [OF st]
  have q: "q \<in> G" using D(1,2) by blast
  have e: "c a = (if a = q then s else if a \<in> pw_live w then receive os m (pw_servers w a) else pw_servers w a)" for a
    unfolding c by (rule send_live [OF D(3,2) q s(1)])
  have "orderly (c a) \<and> has os f (Some y) (c a)" if a: "a \<in> pw_live w" for a
  proof (cases "a = q")
    case False
    have "rp_dir (pw_servers w a) = dir a" using placedD(2) [OF D(3)] D(2) a by blast
    then obtain l where l: "os (rp_path (pw_servers w a) f) = File l"
      using wr D(2) a by (auto simp: writable_def rp_path_def)
    have h: "has os f x (pw_servers w a)" "orderly (pw_servers w a)" using D(4) [OF a] by simp_all
    show ?thesis using receive_has [OF h(1) l h(2)] m False a by (cases y) (auto simp: e)
  qed (use e s(2,3) in simp)
  moreover have "same_server (pw_servers w a) (c a)" if "a \<in> G" for a using s(1) receive_same by (simp add: e)
  ultimately have "steady os dir G f q (Some y) (w\<lparr>pw_servers := c\<rparr>)" by (intro steady_step [OF st])
  moreover have "used_below (B(cid := seq)) G c"
    unfolding used_below_def
  proof (intro ballI allI impI)
    fix a n l t assume a: "a \<in> G" and d: "dget (rp_dedup (c a)) n = Some (l, t)"
    show "l \<le> (B(cid := seq)) n"
    proof (cases "n = cid \<and> a = q \<and> cid \<noteq> [] \<and> 0 < seq")
      case True
      with d show ?thesis by (simp add: e s(4))
    next
      case False
      then have "dget (rp_dedup (pw_servers w a)) n = Some (l, t)" using d s(4) by (auto simp: e receive_frame split: if_splits)
      then have "l \<le> B n" using u a by (auto simp: used_below_def)
      with B show ?thesis by auto
    qed
  qed
  ultimately show ?thesis by (simp add: e)
qed

lemma pw_creates:
  assumes st: "steady os dir G f q None w" and wr: "writable os dir G f" and u: "used_below B G (pw_servers w)" and B: "B cid < seq"
  shows "\<exists>c. pw_create os q f cid seq w = (w\<lparr>pw_servers := c\<rparr>, Answered \<lparr>cre_handle = 0, cre_success = True, cre_error = []\<rparr>)
    \<and> steady os dir G f q (Some (1, [])) (w\<lparr>pw_servers := c\<rparr>) \<and> used_below (B(cid := seq)) G c \<and> rp_open (c q) = rp_open (pw_servers w q)"
proof -
  note D = steadyD [OF st]
  have q: "q \<in> G" using D(1,2) by blast
  let ?s = "pw_servers w q" and ?r = "\<lparr>cre_handle = 0, cre_success = True, cre_error = []\<rparr>"
  obtain l where l: "os (rp_path ?s f) = File l" using wr q placedD(2) [OF D(3) q] by (auto simp: writable_def rp_path_def)
  then obtain d where d: "write_file os (rp_path ?s f) [] (rp_disk ?s) = Inr d" by (simp add: write_file_def)
  have h: "has os f None ?s" "orderly ?s" "rp_ready ?s" "rp_role ?s = RPrimary" using D(4) [OF D(1)] by auto
  let ?t = "?s\<lparr>rp_disk := d, rp_versions := dset (rp_versions ?s) f 1\<rparr>"
  let ?u = "store_response cid seq (CachedCreate ?r) ?t"
  let ?c = "send_out os (\<lambda>b. b \<in> pw_live w) q (Some (SendCreate f)) ((pw_servers w)(q := ?u))"
  have e: "rp_create os f cid seq ?s = (?u, Answered ?r, Some (SendCreate f))"
    using h(3,4) not_used [OF u q B] exists_has [OF h(1) l] d
    by (simp add: rp_create_def not_ready_def require_primary_def Let_def)
  have 1: "same_server ?s ?u" by (simp add: store_response_def same_server_def)
  have 2: "orderly ?u" using h(2) by (simp add: orderly_def store_response_def)
  have 3: "has os f (Some (1, [])) ?u" by (rule has_cong [OF has_new [OF h(1) d]]) (simp_all add: store_response_def)
  have 4: "rp_dedup ?u = (if cid \<noteq> [] \<and> 0 < seq then dset (rp_dedup ?s) cid (seq, CachedCreate ?r) else rp_dedup ?s)"
    by (simp add: store_response_def)
  from primary_wrote [OF st wr u 1 2 3 4 B _ refl, of "SendCreate f"]
  have "steady os dir G f q (Some (1, [])) (w\<lparr>pw_servers := ?c\<rparr>) \<and> used_below (B(cid := seq)) G ?c \<and> ?c q = ?u" by simp
  moreover have "pw_create os q f cid seq w = (w\<lparr>pw_servers := ?c\<rparr>, Answered ?r)"
    using D(1) e by (simp add: pw_create_def pw_call_def cl_create_def)
  ultimately show ?thesis by (intro exI [of _ ?c]) (simp add: store_response_def)
qed

lemma pw_create_again:
  assumes st: "steady os dir G f q (Some y) w" and wr: "writable os dir G f" and u: "used_below B G (pw_servers w)" and B: "B cid < seq"
  shows "pw_create os q f cid seq w = (w, Answered (create_error ''File already exists''))"
proof -
  note D = steadyD [OF st]
  have q: "q \<in> G" using D(1,2) by blast
  let ?s = "pw_servers w q"
  obtain l where l: "os (rp_path ?s f) = File l" using wr q placedD(2) [OF D(3) q] by (auto simp: writable_def rp_path_def)
  have h: "has os f (Some y) ?s" "rp_ready ?s" "rp_role ?s = RPrimary" using D(4) [OF D(1)] by auto
  have "rp_create os f cid seq ?s = (?s, Answered (create_error ''File already exists''), None)"
    using h(2,3) not_used [OF u q B] exists_has [OF h(1) l] by (simp add: rp_create_def not_ready_def require_primary_def)
  then show ?thesis using D(1) by (simp add: pw_create_def pw_call_def cl_create_def send_out_def)
qed

lemma pw_tells_version:
  assumes "steady os dir G f q (Some (v, b)) w"
  shows "pw_version q f w = (w, Answered (Some v))" "0 < v"
  using steadyD(1,4) [OF assms] by (auto simp: pw_version_def pw_call_def rp_test_version_def not_ready_def has_def dget_or_def)

text \<open>A change of the primary alone that no other server sees.\<close>

lemma primary_only:
  assumes st: "steady os dir G f q x w" and s: "same_server (pw_servers w q) s" "orderly s" "has os f x s"
  shows "steady os dir G f q x (w\<lparr>pw_servers := (pw_servers w)(q := s)\<rparr>)"
  using steadyD(4) [OF st] s by (intro steady_step [OF st]) simp_all

lemma used_only:
  assumes s: "rp_dedup s = rp_dedup (c q)" and u: "used_below B G c"
  shows "used_below B G (c(q := s))"
    and "B cid < seq \<Longrightarrow> used_below (B(cid := seq)) G (c(q := store_response cid seq r s))"
proof -
  show "used_below B G (c(q := s))" using s u by (auto simp: used_below_def)
  assume B: "B cid < seq"
  show "used_below (B(cid := seq)) G (c(q := store_response cid seq r s))"
    unfolding used_below_def
  proof (intro ballI allI impI)
    fix a n l t assume a: "a \<in> G" and d: "dget (rp_dedup ((c(q := store_response cid seq r s)) a)) n = Some (l, t)"
    then have "n = cid \<and> l = seq \<or> dget (rp_dedup (c a)) n = Some (l, t)"
      using s by (auto simp: store_response_def split: if_splits)
    with u a B show "l \<le> (B(cid := seq)) n" by (fastforce simp: used_below_def)
  qed
qed

lemma pw_opens:
  assumes st: "steady os dir G f q (Some (v, b)) w" and u: "used_below B G (pw_servers w)" and m: "m \<in> {''r'', ''w''}"
  shows "\<exists>c r. pw_open os q f m fetch w = (w\<lparr>pw_servers := c\<rparr>, Answered r) \<and> opn_success r \<and> opn_version r = v
    \<and> (fetch \<longrightarrow> opn_data r = b) \<and> 0 < opn_handle r \<and> steady os dir G f q (Some (v, b)) (w\<lparr>pw_servers := c\<rparr>) \<and> used_below B G c
    \<and> rp_open (c q) = dset (rp_open (pw_servers w q)) (opn_handle r) \<lparr>h_file = f, h_mode = m\<rparr>"
proof -
  note D = steadyD [OF st]
  let ?s = "pw_servers w q"
  have h: "has os f (Some (v, b)) ?s" "orderly ?s" "rp_ready ?s" "rp_role ?s = RPrimary" using D(4) [OF D(1)] by auto
  have c: "contents os (rp_disk ?s) (rp_path ?s f) = Some b" and v: "dget (rp_versions ?s) f = Some v" using h(1) by (simp_all add: has_def)
  let ?b = "if fetch then b else []"
  obtain t r where t: "rp_open_section os f m ?b ?s = (t, r)" by fastforce
  have e: "rp_open_call os f m fetch ?s = (t, Answered r)"
    using h(3,4) m contents_exists [OF c] t read_file_contents [of os "rp_path ?s f" "rp_disk ?s" b] c
    by (auto simp: rp_open_call_def not_ready_def require_primary_def)
  have tr: "t = ?s\<lparr>rp_next := rp_next ?s + 1, rp_open := dset (rp_open ?s) (rp_next ?s) \<lparr>h_file = f, h_mode = m\<rparr>\<rparr>"
    "r = \<lparr>opn_handle = rp_next ?s, opn_data = ?b, opn_version = v, opn_success = True, opn_error = []\<rparr>"
    using t v by (auto simp: rp_open_section_def Let_def dget_or_def)
  have 1: "same_server ?s t" by (simp add: tr(1) same_server_def)
  have 2: "orderly t" using h(2) by (simp add: tr(1) orderly_def)
  have 3: "has os f (Some (v, b)) t" by (rule has_cong [OF h(1)]) (simp_all add: tr(1))
  have "pw_open os q f m fetch w = (w\<lparr>pw_servers := (pw_servers w)(q := t)\<rparr>, Answered r)"
    using D(1) e by (simp add: pw_open_def pw_call_def cl_open_def)
  then show ?thesis using primary_only [OF st 1 2 3] used_only(1) [of t "pw_servers w" q B G] u h(2)
    by (intro exI [of _ "(pw_servers w)(q := t)"] exI [of _ r]) (simp add: tr orderly_def)
qed

lemma pw_open_missing:
  assumes st: "steady os dir G f q None w" and wr: "writable os dir G f"
  shows "pw_open os q f ''r'' fetch w = (w, Answered (open_error ''File not found''))"
proof -
  note D = steadyD [OF st]
  have q: "q \<in> G" using D(1,2) by blast
  let ?s = "pw_servers w q"
  obtain l where l: "os (rp_path ?s f) = File l" using wr q placedD(2) [OF D(3) q] by (auto simp: writable_def rp_path_def)
  have h: "has os f None ?s" "rp_ready ?s" using D(4) [OF D(1)] by auto
  have "rp_open_call os f ''r'' fetch ?s = (?s, Answered (open_error ''File not found''))"
    using h(2) exists_has [OF h(1) l] by (simp add: rp_open_call_def not_ready_def)
  then show ?thesis using D(1) by (simp add: pw_open_def pw_call_def cl_open_def)
qed

lemma pw_closes:
  assumes st: "steady os dir G f q (Some (v, b0)) w" and wr: "writable os dir G f" and u: "used_below B G (pw_servers w)" and B: "B cid < seq"
    and h: "dget (rp_open (pw_servers w q)) h = Some \<lparr>h_file = f, h_mode = m\<rparr>"
    and y: "m = ''w'' \<and> y = (v + 1, b) \<and> nv = v + 1 \<or> m = ''r'' \<and> y = (v, b0) \<and> nv = 0"
  shows "\<exists>c. pw_close os q h b cid seq w = (w\<lparr>pw_servers := c\<rparr>, Answered \<lparr>clo_success = True, clo_version = nv, clo_error = []\<rparr>)
    \<and> steady os dir G f q (Some y) (w\<lparr>pw_servers := c\<rparr>) \<and> used_below (B(cid := seq)) G c"
proof -
  note D = steadyD [OF st]
  have q: "q \<in> G" using D(1,2) by blast
  let ?s = "pw_servers w q" and ?r = "\<lparr>clo_success = True, clo_version = nv, clo_error = []\<rparr>"
  obtain l where l: "os (rp_path ?s f) = File l" using wr q placedD(2) [OF D(3) q] by (auto simp: writable_def rp_path_def)
  have hs: "has os f (Some (v, b0)) ?s" "orderly ?s" "rp_ready ?s" "rp_role ?s = RPrimary" using D(4) [OF D(1)] by auto
  have v: "dget (rp_versions ?s) f = Some v" "0 < v" using hs(1) by (simp_all add: has_def)
  let ?s1 = "?s\<lparr>rp_open := dpop (rp_open ?s) h\<rparr>"
  have tk: "rp_close_take h cid seq ?s = (?s1, Inr \<lparr>h_file = f, h_mode = m\<rparr>)"
    using hs(3,4) not_used [OF u q B] h by (simp add: rp_close_take_def not_ready_def require_primary_def)
  from y show ?thesis
  proof
    assume y: "m = ''w'' \<and> y = (v + 1, b) \<and> nv = v + 1"
    obtain d where d: "write_file os (rp_path ?s f) b (rp_disk ?s) = Inr d" using l by (simp add: write_file_def)
    let ?t = "?s1\<lparr>rp_disk := d, rp_versions := dset (rp_versions ?s) f (v + 1)\<rparr>"
    let ?u = "store_response cid seq (CachedClose ?r) ?t"
    let ?c = "send_out os (\<lambda>b. b \<in> pw_live w) q (Some (SendWrite f b (v + 1))) ((pw_servers w)(q := ?u))"
    have e: "rp_close os h b cid seq ?s = (?u, Answered ?r, Some (SendWrite f b (v + 1)))"
      using tk d y v(1) by (simp add: rp_close_def rp_close_write_def rp_close_bump_def Let_def dget_or_def)
    have 1: "same_server ?s ?u" by (simp add: store_response_def same_server_def)
    have 2: "orderly ?u" using hs(2) by (simp add: orderly_def store_response_def)
    have 3: "has os f (Some (v + 1, b)) ?u" by (rule has_cong [OF has_new [OF hs(1) d, of "v + 1"]]) (use v(2) in \<open>simp_all add: store_response_def\<close>)
    have 4: "rp_dedup ?u = (if cid \<noteq> [] \<and> 0 < seq then dset (rp_dedup ?s) cid (seq, CachedClose ?r) else rp_dedup ?s)"
      by (simp add: store_response_def)
    from primary_wrote [OF st wr u 1 2 3 4 B _ refl, of "SendWrite f b (v + 1)"] v(2) y
    have "steady os dir G f q (Some y) (w\<lparr>pw_servers := ?c\<rparr>) \<and> used_below (B(cid := seq)) G ?c" by simp
    moreover have "pw_close os q h b cid seq w = (w\<lparr>pw_servers := ?c\<rparr>, Answered ?r)"
      using D(1) e by (simp add: pw_close_def pw_call_def cl_close_def)
    ultimately show ?thesis by blast
  next
    assume y: "m = ''r'' \<and> y = (v, b0) \<and> nv = 0"
    let ?u = "store_response cid seq (CachedClose ?r) ?s1"
    have e: "rp_close os h b cid seq ?s = (?u, Answered ?r, None)" using tk y by (simp add: rp_close_def Let_def)
    have 1: "same_server ?s ?u" by (simp add: store_response_def same_server_def)
    have 2: "orderly ?u" using hs(2) by (simp add: orderly_def store_response_def)
    have 3: "has os f (Some (v, b0)) ?u" by (rule has_cong [OF hs(1)]) (simp_all add: store_response_def)
    have "pw_close os q h b cid seq w = (w\<lparr>pw_servers := (pw_servers w)(q := ?u)\<rparr>, Answered ?r)"
      using D(1) e by (simp add: pw_close_def pw_call_def cl_close_def send_out_def)
    with primary_only [OF st 1 2 3] used_only(2) [of ?s1 "pw_servers w" q B G cid seq "CachedClose ?r"] u B y show ?thesis
      by (intro exI [of _ "(pw_servers w)(q := ?u)"]) simp
  qed
qed

section \<open>Fail-over\<close>

text \<open>
  The primary \<open>p\<close> dies; the servers \<open>ms\<close>, in this order, notice and hold an election among those that
  are left.
\<close>

definition fail_over :: "addr \<Rightarrow> addr list \<Rightarrow> pb_world \<Rightarrow> pb_world" where
  "fail_over p ms w =
     (let L = pw_live w - {p}
      in w\<lparr>pw_live := L, pw_servers := foldl (\<lambda>c m. cl_elect (\<lambda>b. b \<in> L) (\<lambda>b. b \<in> L) m c) (pw_servers w) ms\<rparr>)"

definition elected :: "addr \<Rightarrow> rep \<Rightarrow> rep" where
  "elected p s = s\<lparr>rp_primary := p, rp_role := (if p = rp_addr s then RPrimary else RBackup)\<rparr>"

lemma elected_simps [simp]:
  "elected p (elected p s) = elected p s" "rp_addr (elected p s) = rp_addr s" "rp_stubs (elected p s) = rp_stubs s"
  "rp_dir (elected p s) = rp_dir s" "rp_dedup (elected p s) = rp_dedup s" "rp_ready (elected p s) = rp_ready s"
  "rp_primary (elected p s) = p" "rp_role (elected p s) = (if p = rp_addr s then RPrimary else RBackup)"
  "orderly (elected p s) = orderly s" "has os f x (elected p s) = has os f x s"
  by (simp_all add: elected_def orderly_def has_def rp_path_def)

lemma elect_at:
  assumes "L \<subseteq> G" "placed dir G c" "m \<in> L"
  shows "cl_elect (\<lambda>b. b \<in> L) (\<lambda>b. b \<in> L) m c a = (if a \<in> L \<and> (m = Min L \<or> a = m) then elected (Min L) (c a) else c a)"
proof -
  let ?al = "\<lambda>b. b \<in> L"
  have mG: "m \<in> G" using assms(1,3) by blast
  note P = placedD [OF assms(2) mG]
  have p: "rp_primary (elect_new_primary ?al (c m)) = Min L"
    "rp_role (elect_new_primary ?al (c m)) = (if Min L = m then RPrimary else RBackup)"
    by (rule elect_Min [OF P(1,4) assms(1,3)], simp)+
  have e: "elect_new_primary ?al (c m) = elected (Min L) (c m)"
    using p P(1) by (auto simp: elect_new_primary_def elected_def Let_def)
  have an: "rp_announce_leader (Min L) s = elected (Min L) s" for s
    by (simp add: rp_announce_leader_def elected_def)
  show ?thesis using P assms(1,3)
    by (auto simp: cl_elect_def Let_def e an announce_leader_at)
qed

lemma elections:
  assumes "L \<subseteq> G" "placed dir G c" "set ms \<subseteq> L"
  shows "foldl (\<lambda>c m. cl_elect (\<lambda>b. b \<in> L) (\<lambda>b. b \<in> L) m c) c ms a
    = (if a \<in> L \<and> (Min L \<in> set ms \<or> a \<in> set ms) then elected (Min L) (c a) else c a)"
  using assms(2,3)
proof (induction ms arbitrary: c)
  case (Cons m ms)
  let ?c = "cl_elect (\<lambda>b. b \<in> L) (\<lambda>b. b \<in> L) m c"
  have m: "m \<in> L" using Cons.prems(2) by simp
  note e = elect_at [OF assms(1) Cons.prems(1) m]
  have "placed dir G ?c" using Cons.prems(1) by (simp add: placed_def e)
  from Cons.IH [OF this] Cons.prems(2)
  have f: "foldl (\<lambda>c m. cl_elect (\<lambda>b. b \<in> L) (\<lambda>b. b \<in> L) m c) c (m # ms) a
      = (if a \<in> L \<and> (Min L \<in> set ms \<or> a \<in> set ms) then elected (Min L) (?c a) else ?c a)" by simp
  show ?case unfolding f e by auto
qed simp

lemma fails_over:
  assumes st: "steady os dir G f q x w" and u: "used_below B G (pw_servers w)"
    and ms: "set ms \<subseteq> pw_live w - {q}" "Min (pw_live w - {q}) \<in> set ms" and fin: "finite G"
  shows "steady os dir G f (Min (pw_live w - {q})) x (fail_over q ms w)" "used_below B G (pw_servers (fail_over q ms w))"
    "pw_live (fail_over q ms w) = pw_live w - {q}" "pw_servers (fail_over q ms w) q = pw_servers w q"
proof -
  note D = steadyD [OF st]
  let ?L = "pw_live w - {q}"
  have L: "?L \<subseteq> G" "?L \<noteq> {}" "finite ?L" using D(2) ms fin finite_subset by auto
  have e: "pw_servers (fail_over q ms w) a = (if a \<in> ?L then elected (Min ?L) (pw_servers w a) else pw_servers w a)" for a
    using elections [OF L(1) D(3) ms(1)] ms(2) by (simp add: fail_over_def Let_def)
  show l: "pw_live (fail_over q ms w) = ?L" by (simp add: fail_over_def Let_def)
  have "placed dir G (pw_servers (fail_over q ms w))" using D(3) by (simp add: placed_def e)
  moreover have "rp_addr (pw_servers w a) = a" if "a \<in> ?L" for a using placedD(1) [OF D(3)] L(1) that by blast
  ultimately show "steady os dir G f (Min ?L) x (fail_over q ms w)"
    using D(4) L Min_in [OF L(3,2)] unfolding steady_def l Let_def by (auto simp: e)
  show "used_below B G (pw_servers (fail_over q ms w))" using u by (auto simp: used_below_def e)
  show "pw_servers (fail_over q ms w) q = pw_servers w q" by (simp add: e)
qed

section \<open>A server starts again\<close>

text \<open>
  \<open>p\<close> starts with the disk it left and the command line it had; the live servers answer. \<open>n\<close> attempts
  to synchronize fail before one comes back; \<open>names\<close> is what its directory lists.
\<close>

definition restarted :: "os \<Rightarrow> addr \<Rightarrow> addr list \<Rightarrow> string \<Rightarrow> string list \<Rightarrow> nat \<Rightarrow> pb_world \<Rightarrow> exn + pb_world" where
  "restarted os p ps dir names n w =
     (let s = rp_init p ps dir (rp_disk (pw_servers w p));
          answers = (\<lambda>a. snd (pw_info a w));
          attempts = (case query_peers_for_primary answers s of None \<Rightarrow> []
            | Some t \<Rightarrow> replicate n None @ [Some (rp_sync_state os (pw_servers w t))])
      in map_sum id (\<lambda>t. w\<lparr>pw_live := insert p (pw_live w), pw_servers := (pw_servers w)(p := t)\<rparr>)
           (determine_startup_role os names answers (\<lambda>a. a \<in> pw_live w) attempts s))"

text \<open>The servers' directories treat names in the same way.\<close>

definition dirs_alike :: "os \<Rightarrow> (addr \<Rightarrow> string) \<Rightarrow> addr set \<Rightarrow> bool" where
  "dirs_alike os dir G \<longleftrightarrow> (\<forall>a\<in>G. \<forall>b\<in>G.
     (\<forall>f g. (os (path_join (dir a) f) = os (path_join (dir a) g)) = (os (path_join (dir b) f) = os (path_join (dir b) g)))
   \<and> (\<forall>f. (\<exists>l. os (path_join (dir a) f) = File l) = (\<exists>l. os (path_join (dir b) f) = File l))
   \<and> (\<forall>f. (os (path_join (dir a) f) = Directory) = (os (path_join (dir b) f) = Directory)))"

lemma alike_dirs: "dirs_alike os dir G \<Longrightarrow> a \<in> G \<Longrightarrow> b \<in> G \<Longrightarrow> rp_dir s = dir a \<Longrightarrow> rp_dir t = dir b \<Longrightarrow> alike os s t"
proof -
  assume d: "dirs_alike os dir G" "a \<in> G" "b \<in> G" and e: "rp_dir s = dir a" "rp_dir t = dir b"
  show ?thesis unfolding alike_def rp_lay_def rp_path_def e using d unfolding dirs_alike_def by blast
qed

lemma connected_peers:
  "rp_dir (connect_peers s) = rp_dir s" "set (rp_stubs (connect_peers s)) = set (rp_stubs s) \<union> set (rp_peers s)"
  "rp_addr (connect_peers s) = rp_addr s"
proof -
  have "rp_dir (foldl (\<lambda>s a. connect_one_peer a s) s as) = rp_dir s \<and> rp_addr (foldl (\<lambda>s a. connect_one_peer a s) s as) = rp_addr s
      \<and> set (rp_stubs (foldl (\<lambda>s a. connect_one_peer a s) s as)) = set (rp_stubs s) \<union> set as" for as
    by (induction as arbitrary: s) (auto simp: connect_one_peer_def)
  then show "rp_dir (connect_peers s) = rp_dir s" "set (rp_stubs (connect_peers s)) = set (rp_stubs s) \<union> set (rp_peers s)"
    "rp_addr (connect_peers s) = rp_addr s" by (simp_all add: connect_peers_def)
qed

text \<open>When every answer names \<open>q\<close>, the vote is for \<open>q\<close>.\<close>

lemma votes_for:
  assumes "q \<noteq> []" "\<And>a. answers a \<in> {None, Some q}" "a \<in> set (rp_stubs s)" "answers a = Some q"
  shows "query_peers_for_primary answers s = Some q"
proof -
  let ?f = "\<lambda>d a. case answers a of Some p \<Rightarrow> if p \<noteq> [] then dset d p (dget_or d p 0 + 1) else d | None \<Rightarrow> d"
  have one: "foldl ?f [(q, n)] as = [(q, n + length (filter (\<lambda>a. answers a = Some q) as))]" for n as
  proof (induction as arbitrary: n)
    case (Cons a as)
    show ?case using assms(1) assms(2) [of a] Cons by (auto simp: dset_def dget_or_def dget_def)
  qed simp
  have "foldl ?f [] as = (if \<exists>a\<in>set as. answers a = Some q then [(q, length (filter (\<lambda>a. answers a = Some q) as))] else [])" for as
  proof (induction as)
    case (Cons a as)
    show ?case using assms(1) assms(2) [of a] Cons one by (auto simp: dset_def dget_or_def)
  qed simp
  then have "count_votes answers (rp_stubs s) = [(q, length (filter (\<lambda>a. answers a = Some q) (rp_stubs s)))]"
    using assms(3,4) by (auto simp: count_votes_def)
  then show ?thesis by (simp add: query_peers_for_primary_def)
qed

lemma sync_dir: "try_sync_from os src rs s = Inr (s', x) \<Longrightarrow> rp_dir s' = rp_dir s"
proof -
  have e: "install_entries sos es s = Inr t \<Longrightarrow> rp_dir t = rp_dir s" for sos es s t
    by (induction es arbitrary: s) (auto split: sum.splits)
  show "try_sync_from os src rs s = Inr (s', x) \<Longrightarrow> rp_dir s' = rp_dir s"
    by (induction os src rs s rule: try_sync_from.induct) (auto split: sum.splits dest: e)
qed

lemma restarts:
  assumes st: "steady os dir G f q (Some (v, b)) w" and p: "p \<in> G" "p \<notin> pw_live w" "set ps = G - {p}" and q: "q \<noteq> []"
    and al: "dirs_alike os dir G"
  shows "\<exists>t. restarted os p ps (dir p) names n w = Inr (w\<lparr>pw_live := insert p (pw_live w), pw_servers := (pw_servers w)(p := t)\<rparr>)
    \<and> rp_ready t \<and> rp_dir t = dir p \<and> rp_primary t = q \<and> rp_role t = RBackup \<and> contents os (rp_disk t) (rp_path t f) = Some b"
proof -
  note D = steadyD [OF st]
  let ?s = "rp_init p ps (dir p) (rp_disk (pw_servers w p))" and ?an = "\<lambda>a. snd (pw_info a w)" and ?q = "pw_servers w q"
  have qG: "q \<in> G" and pq: "q \<noteq> p" using D(1,2) p(2) by blast+
  have s: "rp_dir ?s = dir p" "set (rp_stubs ?s) = G - {p}" "rp_addr ?s = p"
    using p(3) by (simp_all add: rp_init_def connected_peers)
  have "snd (pw_info a w) \<in> {None, Some q}" for a using D(4) [of a] by (simp add: pw_info_def rp_cluster_info_def)
  moreover have "snd (pw_info q w) = Some q" using D(1) D(4) [OF D(1)] by (simp add: pw_info_def rp_cluster_info_def)
  ultimately have vq: "query_peers_for_primary ?an ?s = Some q"
    using s(2) qG pq by (intro votes_for [OF q, of _ q]) auto
  let ?t = "connect_one_peer q (?s\<lparr>rp_role := RBackup, rp_primary := q\<rparr>)"
  have dt: "rp_dir ?t = dir p" using s(1) by (simp add: connect_one_peer_def)
  then have alt: "alike os ?q ?t" by (rule alike_dirs [OF al qG p(1) placedD(2) [OF D(3) qG]])
  have h: "has os f (Some (v, b)) ?q" "wf_dict (rp_versions ?q)" using D(4) [OF D(1)] by (auto simp: orderly_def)
  have a: "rp_addr ?q = q" by (rule placedD(1) [OF D(3) qG])
  from pb_sync_roundtrip [OF alt h(2), of n "[]", unfolded a] h(1)
  obtain t where t: "try_sync_from os q (replicate n None @ [Some (rp_sync_state os ?q)]) ?t = Inr (t, True)"
    "rp_role t = RBackup" "rp_primary t = q" "rp_ready t" "contents os (rp_disk t) (rp_path t f) = Some b"
    by (auto simp: has_def)
  have "determine_startup_role os names ?an (\<lambda>a. a \<in> pw_live w) (replicate n None @ [Some (rp_sync_state os ?q)]) ?s = Inr t"
    using vq pq t(1) s(3) by (simp add: determine_startup_role_def sync_or_elect_def)
  with vq t(2-5) sync_dir [OF t(1), unfolded dt] show ?thesis by (intro exI [of _ t]) (simp add: restarted_def Let_def)
qed

end
