(* ===== verification/Rep_Script.thy ===== *)
theory Rep_Script
  imports Fs_Script Gateway_Api
begin

text \<open>
  The acceptance script of the primary-backup servers, \<open>part2_3_replication/replication/client.py\<close>: eight
  tests, of which the seventh waits for an operator to kill the primary and the eighth for the
  killed server to be started again. The first check that fails ends the process.

  The state \<open>'s\<close> and what the script does to it are an argument; what happens while it waits is a
  part of it. What is printed is left out.
\<close>

section \<open>What the script uses\<close>

text \<open>
  \<open>rt_start\<close> and \<open>rt_start2\<close> construct the two client stubs, \<open>rt_first\<close> and \<open>rt_second\<close> are their calls.
  \<open>rt_primary\<close> and \<open>rt_discover\<close> are the first stub's \<open>_primary_addr\<close> and its new discovery, \<open>rt_direct\<close> is
  \<open>Open\<close> on a channel of its own. \<open>rt_kill\<close> and \<open>rt_restart\<close> are the two waits.
\<close>

record 's rep_tools =
  rt_start :: "addr list \<Rightarrow> 's \<Rightarrow> 's \<times> (exn + unit)"
  rt_start2 :: "addr list \<Rightarrow> 's \<Rightarrow> 's \<times> (exn + unit)"
  rt_first :: "'s file_client"
  rt_second :: "'s file_client"
  rt_primary :: "'s \<Rightarrow> addr"
  rt_discover :: "'s \<Rightarrow> 's"
  rt_direct :: "addr \<Rightarrow> string \<Rightarrow> string \<Rightarrow> bool \<Rightarrow> 's \<Rightarrow> 's \<times> open_response call"
  rt_kill :: "'s \<Rightarrow> 's"
  rt_restart :: "'s \<Rightarrow> 's"

text \<open>
  \<open>sys.exit\<close> raises an exception that \<open>except Exception\<close> does not catch: \<open>Exit\<close> names the check that
  failed.
\<close>

datatype stop = Uncaught exn | Exit string

type_synonym ('s, 'a) scripted = "'s \<Rightarrow> 's \<times> (stop + 'a)"

definition step :: "('s \<Rightarrow> 's \<times> (exn + 'a)) \<Rightarrow> ('a \<Rightarrow> ('s, 'b) scripted) \<Rightarrow> ('s, 'b) scripted" where
  "step f k s = (case f s of (s', Inl x) \<Rightarrow> (s', Inl (Uncaught x)) | (s', Inr a) \<Rightarrow> k a s')"

definition also_then :: "('s, unit) scripted \<Rightarrow> ('s, 'b) scripted \<Rightarrow> ('s, 'b) scripted" where
  "also_then m k s = (case m s of (s', Inl x) \<Rightarrow> (s', Inl x) | (s', Inr _) \<Rightarrow> k s')"

definition check :: "string \<Rightarrow> bool \<Rightarrow> ('s, unit) scripted" where
  "check label b s = (s, if b then Inr () else Inl (Exit label))"

text \<open>\<open>try: ... except Exception as e: check(label, False, str(e))\<close>\<close>

definition guarded :: "string \<Rightarrow> ('s, unit) scripted \<Rightarrow> ('s, unit) scripted" where
  "guarded label m s = (case m s of (s', Inl (Uncaught _)) \<Rightarrow> check label False s' | r \<Rightarrow> r)"

definition grpc_raises :: "'r call \<Rightarrow> exn + 'r" where
  "grpc_raises r = (case r of Answered x \<Rightarrow> Inr x | Status code details \<Rightarrow> Inl (PyException details))"

definition newline :: char where "newline = CHR 0x0A"

definition rf :: string where "rf = ''test_repl.txt''"

section \<open>The tests\<close>

definition rtest1 :: "'s rep_tools \<Rightarrow> ('s, unit) scripted" where
  "rtest1 rt = guarded ''Create succeeded''
     (step (cl_create (rt_first rt) rf) (\<lambda>fh. check ''Create returned handle 0'' (fh = 0)))"

definition rtest2 :: "'s rep_tools \<Rightarrow> ('s, unit) scripted" where
  "rtest2 rt = guarded ''Write-close succeeded''
     (step (cl_open (rt_first rt) rf ''w'') (\<lambda>fh.
      also_then (check ''Open-write handle > 0'' (fh > 0))
     (step (cl_write (rt_first rt) fh 0 (Str (''Hello, replicated world!'' @ [newline]))) (\<lambda>_.
      step (cl_close (rt_first rt) fh) (\<lambda>_.
      check ''Write-close succeeded'' True)))))"

definition rtest3 :: "'s rep_tools \<Rightarrow> ('s, unit) scripted" where
  "rtest3 rt = guarded ''Read succeeded''
     (step (cl_open (rt_first rt) rf ''r'') (\<lambda>fh.
      step (cl_read (rt_first rt) fh 0 100) (\<lambda>data.
      step (cl_close (rt_first rt) fh) (\<lambda>_.
      check ''Data matches'' (data = ''Hello, replicated world!'' @ [newline])))))"

definition rtest4 :: "'s rep_tools \<Rightarrow> ('s, unit) scripted" where
  "rtest4 rt = guarded ''Cache hit''
     (step (cl_open (rt_first rt) rf ''r'') (\<lambda>fh.
      step (cl_read (rt_first rt) fh 0 100) (\<lambda>data.
      step (cl_close (rt_first rt) fh) (\<lambda>_.
      check ''Cache hit data correct'' (data = ''Hello, replicated world!'' @ [newline])))))"

definition rtest5 :: "'s rep_tools \<Rightarrow> ('s, unit) scripted" where
  "rtest5 rt = guarded ''Version increment''
     (step (cl_version (rt_first rt) rf) (\<lambda>v_before.
      step (cl_open (rt_first rt) rf ''w'') (\<lambda>fh.
      step (cl_write (rt_first rt) fh 0 (Str (''Updated content'' @ [newline]))) (\<lambda>_.
      step (cl_close (rt_first rt) fh) (\<lambda>_.
      step (cl_version (rt_first rt) rf) (\<lambda>v_after.
      check ''Version incremented'' (v_after = v_before + 1)))))))"

definition rtest6 :: "'s rep_tools \<Rightarrow> addr list \<Rightarrow> ('s, unit) scripted" where
  "rtest6 rt servers = guarded ''Cache miss after remote write''
     (step (rt_start2 rt servers) (\<lambda>_.
      step (cl_open (rt_second rt) rf ''w'') (\<lambda>fh.
      step (cl_write (rt_second rt) fh 0 (Str (''Written by client2'' @ [newline]))) (\<lambda>_.
      step (cl_close (rt_second rt) fh) (\<lambda>_.
      step (cl_open (rt_first rt) rf ''r'') (\<lambda>fh.
      step (cl_read (rt_first rt) fh 0 100) (\<lambda>data.
      step (cl_close (rt_first rt) fh) (\<lambda>_.
      check ''Stale cache refreshed'' (data = ''Written by client2'' @ [newline])))))))))"

definition rtest7 :: "'s rep_tools \<Rightarrow> ('s, unit) scripted" where
  "rtest7 rt s = guarded ''Failover read/write''
     (step (\<lambda>s. (rt_discover rt s, Inr ())) (\<lambda>_.
      step (cl_open (rt_first rt) rf ''r'') (\<lambda>fh.
      step (cl_read (rt_first rt) fh 0 100) (\<lambda>data.
      step (cl_close (rt_first rt) fh) (\<lambda>_.
      also_then (check ''Read after failover'' (sublist ''client2'' data \<or> sublist ''Updated'' data))
     (step (cl_open (rt_first rt) rf ''w'') (\<lambda>fh.
      step (cl_write (rt_first rt) fh 0 (Str (''After failover'' @ [newline]))) (\<lambda>_.
      step (cl_close (rt_first rt) fh) (\<lambda>_.
      check ''Write after failover'' True)))))))))
     (rt_kill rt s)"

text \<open>\<open>[s for s in servers if s != client._primary_addr][0]\<close>\<close>

definition recovered_addr :: "addr list \<Rightarrow> addr \<Rightarrow> exn + addr" where
  "recovered_addr servers p = (case filter (\<lambda>a. a \<noteq> p) servers of [] \<Rightarrow> Inl IndexError | a # _ \<Rightarrow> Inr a)"

definition rtest8 :: "'s rep_tools \<Rightarrow> addr list \<Rightarrow> ('s, unit) scripted" where
  "rtest8 rt servers s = guarded ''Recovery sync''
     (step (\<lambda>s. (s, recovered_addr servers (rt_primary rt s))) (\<lambda>a.
      step (\<lambda>s. let (s', r) = rt_direct rt a rf ''r'' True s in (s', grpc_raises r)) (\<lambda>resp.
      check ''Recovered server has latest data'' (opn_success resp \<and> sublist ''After failover'' (opn_data resp)))))
     (rt_restart rt s)"

section \<open>The script\<close>

definition run_tests :: "'s rep_tools \<Rightarrow> addr list \<Rightarrow> ('s, unit) scripted" where
  "run_tests rt servers =
     step (rt_start rt servers) (\<lambda>_.
     also_then (rtest1 rt) (also_then (rtest2 rt) (also_then (rtest3 rt) (also_then (rtest4 rt) (also_then (rtest5 rt)
    (also_then (rtest6 rt servers) (also_then (rtest7 rt) (rtest8 rt servers))))))))"

text \<open>\<open>main\<close> with the value of \<open>--servers\<close>.\<close>

definition rep_script_main :: "'s rep_tools \<Rightarrow> string \<Rightarrow> ('s, unit) scripted" where
  "rep_script_main rt arg = run_tests rt (map strip (split_on (CHR '','') arg))"

end
