(* ===== verification/Rep_Acceptance.thy ===== *)
theory Rep_Acceptance
  imports Pb_Client Fs_Session Rep_Script
begin

text \<open>
  The acceptance script of the primary-backup servers passes: its client keeps the contract of
  \<open>Fs_Session\<close> while one primary serves, and the fail-over and the restart of \<open>Pb_Client\<close> lead from one
  such phase to the next.
\<close>

section \<open>The client stub in front of the cluster\<close>

type_synonym rep_world = "rep_conn \<times> pb_world"

definition cw_create :: "(string \<Rightarrow> string \<Rightarrow> string) \<Rightarrow> os \<Rightarrow> string \<Rightarrow> rep_world \<Rightarrow> rep_world \<times> (exn + int)" where
  "cw_create shown os = rep_create shown pw_info (pw_create os)"

definition cw_version :: "string \<Rightarrow> rep_world \<Rightarrow> rep_world \<times> (exn + int)" where
  "cw_version f = rep_test_version pw_info (\<lambda>a. pw_version a f)"

definition cw_open :: "(string \<Rightarrow> string \<Rightarrow> string) \<Rightarrow> os \<Rightarrow> string \<Rightarrow> string \<Rightarrow> bool \<Rightarrow> rep_world \<Rightarrow> rep_world \<times> (exn + open_response)" where
  "cw_open shown os f m fetch = rep_execute opn_success opn_error shown pw_info (\<lambda>a. pw_open os a f m fetch)"

definition cw_close :: "(string \<Rightarrow> string \<Rightarrow> string) \<Rightarrow> os \<Rightarrow> int \<Rightarrow> bytes \<Rightarrow> rep_world \<Rightarrow> rep_world \<times> (exn + close_response)" where
  "cw_close shown os h b w =
     (let (c, seq) = rc_next_seq (fst w)
      in rep_execute clo_success clo_error shown pw_info (\<lambda>a. pw_close os a h b (rc_client c) seq) (c, snd w))"

lemma stub_calls:
  "rep_open los names shown pw_info pw_version (pw_open os) f m = cache_open los names (cw_version f) (cw_open shown os f m) f m"
  "rep_close los names shown pw_info (pw_close os) h = cache_close_early los names (cw_close shown os h) h"
  by (simp_all add: rep_open_def rep_close_def cw_version_def [abs_def] cw_open_def [abs_def] cw_close_def [abs_def])

text \<open>A call that the server the client takes for the primary answers.\<close>

lemma at_primary:
  assumes "rc_primary c \<in> set (rc_conns c)" "rpc (rc_primary c) s = (s', Answered r)"
  shows "ok r \<Longrightarrow> rep_execute ok msg shown info rpc (c, s) = ((c, s'), Inr r)"
    and "\<not> ok r \<Longrightarrow> \<not> startswith (msg r) ''NOT_PRIMARY:'' \<Longrightarrow> rep_execute ok msg shown info rpc (c, s) = ((c, s'), Inl (PyException (msg r)))"
  using assms by (simp_all add: rep_execute_def handle_not_primary_def)

section \<open>The contract\<close>

text \<open>The client takes \<open>q\<close>, which serves as the primary, for the primary; its sequence number is the largest it used.\<close>

definition linked :: "addr list \<Rightarrow> string \<Rightarrow> addr \<Rightarrow> rep_conn \<Rightarrow> bool" where
  "linked servers cid q c \<longleftrightarrow> rc_servers c = servers \<and> set servers \<subseteq> set (rc_conns c) \<and> rc_client c = cid
     \<and> rc_primary c = q \<and> q \<in> set (rc_conns c)"

definition cw_good ::
  "os \<Rightarrow> (addr \<Rightarrow> string) \<Rightarrow> addr list \<Rightarrow> string \<Rightarrow> (string \<Rightarrow> int) \<Rightarrow> string \<Rightarrow> addr \<Rightarrow> addr set \<Rightarrow> rep_world \<Rightarrow> bool" where
  "cw_good os dir servers f B cid q L w \<longleftrightarrow> linked servers cid q (fst w) \<and> writable os dir (set servers) f
     \<and> (\<exists>x. steady os dir (set servers) f q x (snd w))
     \<and> used_below (B(cid := rc_seq (fst w))) (set servers) (pw_servers (snd w)) \<and> pw_live (snd w) = L"

definition cw_stored :: "os \<Rightarrow> string \<Rightarrow> rep_world \<Rightarrow> string \<Rightarrow> (int \<times> bytes) option" where
  "cw_stored os f w g =
     (let s = pw_servers (snd w) (rc_primary (fst w))
      in if g = f then (case (dget (rp_versions s) f, contents os (rp_disk s) (rp_path s f)) of
                          (Some v, Some b) \<Rightarrow> Some (v, b) | _ \<Rightarrow> None) else None)"

definition cw_handles :: "rep_world \<Rightarrow> int \<Rightarrow> (string \<times> string) option" where
  "cw_handles w h = map_option (\<lambda>i. (h_file i, h_mode i)) (dget (rp_open (pw_servers (snd w) (rc_primary (fst w)))) h)"

lemma stored_steady:
  "steady os dir G f q x w \<Longrightarrow> rc_primary c = q \<Longrightarrow> cw_stored os f (c, w) = (\<lambda>g. if g = f then x else None)"
  using steadyD(1,4) [of os dir G f q x w] by (cases x) (auto simp: cw_stored_def has_def fun_eq_iff)

lemma goodD:
  assumes "cw_good os dir servers f B cid q L (c, w)"
  shows "linked servers cid q c" "writable os dir (set servers) f" "steady os dir (set servers) f q (cw_stored os f (c, w) f) w"
    "used_below (B(cid := rc_seq c)) (set servers) (pw_servers w)" "rc_primary c \<in> set (rc_conns c)" "rc_primary c = q" "rc_client c = cid" "pw_live w = L"
  using assms stored_steady by (auto simp: cw_good_def linked_def)

lemma good_intro:
  assumes "linked servers cid q c" "writable os dir (set servers) f" "steady os dir (set servers) f q x w"
    "used_below (B(cid := rc_seq c)) (set servers) (pw_servers w)" "pw_live w = L"
  shows "cw_good os dir servers f B cid q L (c, w)" "cw_stored os f (c, w) = (\<lambda>g. if g = f then x else None)"
  using assms stored_steady [OF assms(3), of c] by (auto simp: cw_good_def linked_def)

lemma cw_creates:
  assumes g: "cw_good os dir servers f B cid q L (c, w)"
  shows "cw_stored os f (c, w) f = None \<Longrightarrow> \<exists>s'. cw_create shown os f (c, w) = (s', Inr 0) \<and> cw_good os dir servers f B cid q L s'
      \<and> cw_stored os f s' = (cw_stored os f (c, w))(f \<mapsto> (1, [])) \<and> cw_handles s' = cw_handles (c, w)"
    and "cw_stored os f (c, w) f \<noteq> None \<Longrightarrow> \<exists>s' x. cw_create shown os f (c, w) = (s', Inl x) \<and> cw_good os dir servers f B cid q L s'
      \<and> cw_stored os f s' = cw_stored os f (c, w) \<and> cw_handles s' = cw_handles (c, w)"
proof -
  note G = goodD [OF g]
  let ?c = "c\<lparr>rc_seq := rc_seq c + 1\<rparr>" and ?B = "B(cid := rc_seq c)"
  have l: "linked servers cid q ?c" using G(1) by (simp add: linked_def)
  have B: "?B cid < rc_seq c + 1" by simp
  { assume n: "cw_stored os f (c, w) f = None"
    obtain k where k: "pw_create os q f cid (rc_seq c + 1) w
        = (w\<lparr>pw_servers := k\<rparr>, Answered \<lparr>cre_handle = 0, cre_success = True, cre_error = []\<rparr>)"
      "steady os dir (set servers) f q (Some (1, [])) (w\<lparr>pw_servers := k\<rparr>)"
      "used_below (?B(cid := rc_seq c + 1)) (set servers) k" "rp_open (k q) = rp_open (pw_servers w q)"
      using pw_creates [OF G(3) [unfolded n] G(2,4) B] by blast
    have e: "cw_create shown os f (c, w) = ((?c, w\<lparr>pw_servers := k\<rparr>), Inr 0)"
    proof -
      have "rep_execute cre_success cre_error shown pw_info (\<lambda>a. pw_create os a f cid (rc_seq c + 1)) (?c, w)
          = ((?c, w\<lparr>pw_servers := k\<rparr>), Inr \<lparr>cre_handle = 0, cre_success = True, cre_error = []\<rparr>)"
        by (rule at_primary(1)) (use G(5,6) k(1) in simp_all)
      then show ?thesis using G(7) by (simp add: cw_create_def rep_create_def rc_next_seq_def)
    qed
    from good_intro [OF l G(2) k(2) _, of B L] G(8) k(3,4) e G(6) stored_steady [OF G(3) [unfolded n] G(6)]
    show "\<exists>s'. cw_create shown os f (c, w) = (s', Inr 0) \<and> cw_good os dir servers f B cid q L s'
      \<and> cw_stored os f s' = (cw_stored os f (c, w))(f \<mapsto> (1, [])) \<and> cw_handles s' = cw_handles (c, w)"
      by (intro exI [of _ "(?c, w\<lparr>pw_servers := k\<rparr>)"]) (simp add: cw_handles_def fun_eq_iff) }
  assume n: "cw_stored os f (c, w) f \<noteq> None"
  then obtain y where y: "cw_stored os f (c, w) f = Some y" by blast
  have "pw_create os q f cid (rc_seq c + 1) w = (w, Answered (create_error ''File already exists''))"
    by (rule pw_create_again [OF G(3) [unfolded y] G(2,4) B])
  then have e: "cw_create shown os f (c, w) = ((?c, w), Inl (PyException ''File already exists''))"
  proof -
    have "rep_execute cre_success cre_error shown pw_info (\<lambda>a. pw_create os a f cid (rc_seq c + 1)) (?c, w)
        = ((?c, w), Inl (PyException (cre_error (create_error ''File already exists''))))"
      by (rule at_primary(2)) (use G(5,6) \<open>pw_create os q _ _ _ w = _\<close> in \<open>simp_all add: create_error_def startswith_def\<close>)
    then show ?thesis using G(7) by (simp add: cw_create_def rep_create_def rc_next_seq_def create_error_def)
  qed
  have "used_below (B(cid := rc_seq ?c)) (set servers) (pw_servers w)" by (rule used_mono [OF G(4)]) simp
  from good_intro [OF l G(2) G(3) [unfolded y] this G(8)] e stored_steady [OF G(3) [unfolded y] G(6)] G(6)
  show "\<exists>s' x. cw_create shown os f (c, w) = (s', Inl x) \<and> cw_good os dir servers f B cid q L s'
      \<and> cw_stored os f s' = cw_stored os f (c, w) \<and> cw_handles s' = cw_handles (c, w)"
    by (intro exI [of _ "(?c, w)"] exI [of _ "PyException ''File already exists''"]) (simp add: cw_handles_def fun_eq_iff)
qed

lemma cw_tells_version:
  assumes g: "cw_good os dir servers f B cid q L (c, w)" and st: "cw_stored os f (c, w) f = Some (v, b)"
  shows "cw_version f (c, w) = ((c, w), Inr v)" "0 < v"
proof -
  note G = goodD [OF g]
  note V = pw_tells_version [OF G(3) [unfolded st]]
  show "cw_version f (c, w) = ((c, w), Inr v)"
    using V(1) G(5,6) by (simp add: cw_version_def rep_test_version_def)
  show "0 < v" by (rule V(2))
qed

lemma cw_opens:
  assumes g: "cw_good os dir servers f B cid q L (c, w)" and st: "cw_stored os f (c, w) f = Some (v, b)" and m: "m \<in> {''r'', ''w''}"
  shows "\<exists>s' r. cw_open shown os f m fetch (c, w) = (s', Inr r) \<and> cw_good os dir servers f B cid q L s'
      \<and> cw_stored os f s' = cw_stored os f (c, w) \<and> opn_version r = v \<and> (fetch \<longrightarrow> opn_data r = b)
      \<and> cw_handles s' = (cw_handles (c, w))(opn_handle r \<mapsto> (f, m))"
proof -
  note G = goodD [OF g]
  obtain k r where k: "pw_open os q f m fetch w = (w\<lparr>pw_servers := k\<rparr>, Answered r)" "opn_success r" "opn_version r = v"
    "fetch \<longrightarrow> opn_data r = b" "steady os dir (set servers) f q (Some (v, b)) (w\<lparr>pw_servers := k\<rparr>)"
    "used_below (B(cid := rc_seq c)) (set servers) k"
    "rp_open (k q) = dset (rp_open (pw_servers w q)) (opn_handle r) \<lparr>h_file = f, h_mode = m\<rparr>"
    using pw_opens [OF G(3) [unfolded st] G(4) m] by blast
  have "rep_execute opn_success opn_error shown pw_info (\<lambda>a. pw_open os a f m fetch) (c, w) = ((c, w\<lparr>pw_servers := k\<rparr>), Inr r)"
    by (rule at_primary(1)) (use G(5,6) k(1,2) in simp_all)
  with good_intro [OF G(1,2) k(5) _, of B L] G(8) k(3,4,6,7) G(6) stored_steady [OF G(3) [unfolded st] G(6)] show ?thesis
    by (intro exI [of _ "(c, w\<lparr>pw_servers := k\<rparr>)"] exI [of _ r]) (simp add: cw_open_def cw_handles_def fun_eq_iff)
qed

lemma cw_open_missing:
  assumes g: "cw_good os dir servers f B cid q L (c, w)" and n: "cw_stored os f (c, w) f = None"
  shows "\<exists>x. cw_open shown os f ''r'' fetch (c, w) = ((c, w), Inl x)"
proof -
  note G = goodD [OF g]
  have "rep_execute opn_success opn_error shown pw_info (\<lambda>a. pw_open os a f ''r'' fetch) (c, w)
      = ((c, w), Inl (PyException (opn_error (open_error ''File not found''))))"
    by (rule at_primary(2)) (use G(5,6) pw_open_missing [OF G(3) [unfolded n] G(2)] in \<open>simp_all add: open_error_def startswith_def\<close>)
  then show ?thesis by (simp add: cw_open_def)
qed

lemma cw_closes:
  assumes g: "cw_good os dir servers f B cid q L (c, w)" and st: "cw_stored os f (c, w) f = Some (v, b0)"
    and h: "cw_handles (c, w) h = Some (f, m)" and y: "m = ''w'' \<and> y = (v + 1, b) \<and> nv = v + 1 \<or> m = ''r'' \<and> y = (v, b0) \<and> nv = 0"
  shows "\<exists>s' r. cw_close shown os h b (c, w) = (s', Inr r) \<and> clo_version r = nv \<and> cw_good os dir servers f B cid q L s'
      \<and> cw_stored os f s' = (cw_stored os f (c, w))(f \<mapsto> y)"
proof -
  note G = goodD [OF g]
  let ?c = "c\<lparr>rc_seq := rc_seq c + 1\<rparr>" and ?B = "B(cid := rc_seq c)"
  have l: "linked servers cid q ?c" using G(1) by (simp add: linked_def)
  have h': "dget (rp_open (pw_servers w q)) h = Some \<lparr>h_file = f, h_mode = m\<rparr>"
    using h G(6) by (auto simp: cw_handles_def)
  have B: "?B cid < rc_seq c + 1" by simp
  obtain k where k: "pw_close os q h b cid (rc_seq c + 1) w
      = (w\<lparr>pw_servers := k\<rparr>, Answered \<lparr>clo_success = True, clo_version = nv, clo_error = []\<rparr>)"
    "steady os dir (set servers) f q (Some y) (w\<lparr>pw_servers := k\<rparr>)" "used_below (?B(cid := rc_seq c + 1)) (set servers) k"
    using pw_closes [OF G(3) [unfolded st] G(2,4) B h' y] by blast
  have "rep_execute clo_success clo_error shown pw_info (\<lambda>a. pw_close os a h b cid (rc_seq c + 1)) (?c, w)
      = ((?c, w\<lparr>pw_servers := k\<rparr>), Inr \<lparr>clo_success = True, clo_version = nv, clo_error = []\<rparr>)"
    by (rule at_primary(1)) (use G(5,6) k(1) in simp_all)
  then have e: "cw_close shown os h b (c, w) = ((?c, w\<lparr>pw_servers := k\<rparr>), Inr \<lparr>clo_success = True, clo_version = nv, clo_error = []\<rparr>)"
    using G(7) by (simp add: cw_close_def rc_next_seq_def)
  from good_intro [OF l G(2) k(2) _, of B L] G(8) k(3) e stored_steady [OF G(3) [unfolded st] G(6)] show ?thesis
    by (intro exI [of _ "(?c, w\<lparr>pw_servers := k\<rparr>)"] exI [of _ "\<lparr>clo_success = True, clo_version = nv, clo_error = []\<rparr>"])
      (simp add: fun_eq_iff)
qed

interpretation rep: versioned_server "cw_create shown os" cw_version "cw_open shown os" "cw_close shown os"
  "cw_good os dir servers f B cid q L" "cw_stored os f" cw_handles "{f}" for shown os dir servers f B cid q L
proof (unfold_locales, goal_cases)
  case (1 s g)
  obtain c w where s: "s = (c, w)" by fastforce
  have f: "g = f" using 1(2) by simp
  show ?case using cw_creates(1) [of os dir servers f B cid q L c w shown] 1 unfolding s f by blast
next
  case (2 s g)
  obtain c w where s: "s = (c, w)" by fastforce
  have f: "g = f" using 2(2) by simp
  show ?case using cw_creates(2) [of os dir servers f B cid q L c w shown] 2 unfolding s f by blast
next
  case (3 s g v b)
  obtain c w where s: "s = (c, w)" by fastforce
  have f: "g = f" using 3(2) by simp
  show ?case using cw_tells_version [of os dir servers f B cid q L c w v b] 3 unfolding s f by blast
next
  case (4 s g v b m fetch)
  obtain c w where s: "s = (c, w)" by fastforce
  have f: "g = f" using 4(2) by simp
  show ?case using cw_opens [of os dir servers f B cid q L c w v b m shown fetch] 4 unfolding s f by blast
next
  case (5 s g fetch)
  obtain c w where s: "s = (c, w)" by fastforce
  have f: "g = f" using 5(2) by simp
  show ?case using cw_open_missing [of os dir servers f B cid q L c w shown fetch] 5 unfolding s f by blast
next
  case (6 s g h v b0 b)
  obtain c w where s: "s = (c, w)" by fastforce
  have f: "g = f" using 6(2) by simp
  show ?case using cw_closes [of os dir servers f B cid q L c w v b0 h "''w''" "(v + 1, b)" b "v + 1" shown] 6 unfolding s f by blast
next
  case (7 s g h v b0 b)
  obtain c w where s: "s = (c, w)" by fastforce
  have "(cw_stored os f s)(g \<mapsto> (v, b0)) = cw_stored os f s" using 7(4) by auto
  with s cw_closes [of os dir servers f B cid q L c w v b0 h "''r''" "(v, b0)" b 0 shown] 7 show ?case by auto
qed

section \<open>A client that rewrites a file\<close>

text \<open>
  What the tests need of a client: \<open>at v b z\<close> says that version \<open>v\<close> of the file, with contents \<open>b\<close>, is
  current in \<open>z\<close> and the client has no handle open.
\<close>

locale rewriter =
  fixes cl :: "'z file_client" and at :: "int \<Rightarrow> bytes \<Rightarrow> 'z \<Rightarrow> bool"
  assumes replaces: "at v b z \<Longrightarrow> \<exists>z1 z2 z3 h n. file_client.cl_open cl rf ''w'' z = (z1, Inr h) \<and> 0 < h
      \<and> cl_write cl h 0 (Str d) z1 = (z2, Inr n) \<and> file_client.cl_close cl h z2 = (z3, Inr True) \<and> at (v + 1) (utf8_encode d) z3"
    and rereads: "at v b z \<Longrightarrow> \<exists>z1 z2 h. file_client.cl_open cl rf ''r'' z = (z1, Inr h)
      \<and> cl_read cl h 0 100 z1 = (z1, Inr (take 100 b)) \<and> file_client.cl_close cl h z1 = (z2, Inr True) \<and> at v b z2"
    and tells: "at v b z \<Longrightarrow> \<exists>z'. cl_version cl rf z = (z', Inr v) \<and> at v b z'"
begin

lemma test2: "rt_first rt = cl \<Longrightarrow> at v b z \<Longrightarrow> \<exists>z'. rtest2 rt z = (z', Inr ()) \<and> at (v + 1) (''Hello, replicated world!'' @ [newline]) z'"
  using replaces [of v b z "''Hello, replicated world!'' @ [newline]"]
  by (auto simp: rtest2_def guarded_def step_def also_then_def check_def newline_def)

lemma test3:
  "rt_first rt = cl \<Longrightarrow> at v (''Hello, replicated world!'' @ [newline]) z
    \<Longrightarrow> \<exists>z'. rtest3 rt z = (z', Inr ()) \<and> at v (''Hello, replicated world!'' @ [newline]) z'"
  "rt_first rt = cl \<Longrightarrow> at v (''Hello, replicated world!'' @ [newline]) z
    \<Longrightarrow> \<exists>z'. rtest4 rt z = (z', Inr ()) \<and> at v (''Hello, replicated world!'' @ [newline]) z'"
  using rereads [of v "''Hello, replicated world!'' @ [newline]" z]
  by (auto simp: rtest3_def rtest4_def guarded_def step_def check_def)

lemma test5: 
  assumes "rt_first rt = cl" "at v b z"
  shows "\<exists>z'. rtest5 rt z = (z', Inr ()) \<and> at (v + 1) (''Updated content'' @ [newline]) z'"
proof -
  obtain z0 where z0: "cl_version cl rf z = (z0, Inr v)" "at v b z0" using tells [OF assms(2)] by blast
  obtain z1 z2 z3 h n where z3: "file_client.cl_open cl rf ''w'' z0 = (z1, Inr h)" "cl_write cl h 0 (Str (''Updated content'' @ [newline])) z1 = (z2, Inr n)"
    "file_client.cl_close cl h z2 = (z3, Inr True)" "at (v + 1) (utf8_encode (''Updated content'' @ [newline])) z3"
    using replaces [OF z0(2), of "''Updated content'' @ [newline]"] by blast
  obtain z4 where "cl_version cl rf z3 = (z4, Inr (v + 1))" "at (v + 1) (utf8_encode (''Updated content'' @ [newline])) z4"
    using tells [OF z3(4)] by blast
  with assms(1) z0(1) z3(1-3) show ?thesis by (auto simp: rtest5_def guarded_def step_def check_def newline_def)
qed

lemma test7:
  assumes "rt_first rt = cl" "at v b (rt_discover rt (rt_kill rt z))" "sublist ''client2'' (take 100 b)"
  shows "\<exists>z'. rtest7 rt z = (z', Inr ()) \<and> at (v + 1) (''After failover'' @ [newline]) z'"
proof -
  obtain z1 z2 h where z2: "file_client.cl_open cl rf ''r'' (rt_discover rt (rt_kill rt z)) = (z1, Inr h)"
    "cl_read cl h 0 100 z1 = (z1, Inr (take 100 b))" "file_client.cl_close cl h z1 = (z2, Inr True)" "at v b z2"
    using rereads [OF assms(2)] by blast
  from replaces [OF z2(4), of "''After failover'' @ [newline]"] assms(1,3) z2(1-3) show ?thesis
    by (auto simp: rtest7_def guarded_def step_def also_then_def check_def newline_def)
qed

end

section \<open>Two clients\<close>

record rep_run =
  rn_cache1 :: cache
  rn_conn1 :: rep_conn
  rn_cache2 :: cache
  rn_conn2 :: rep_conn
  rn_world :: pb_world
  rn_killed :: addr

definition rep_client :: "(string \<Rightarrow> string \<Rightarrow> string) \<Rightarrow> os \<Rightarrow> os \<Rightarrow> (cache \<Rightarrow> string list) \<Rightarrow> rep_world client_session file_client" where
  "rep_client shown os los ls =
     session_client (rep_create shown pw_info (pw_create os))
       (\<lambda>f m c. rep_open los (ls c) shown pw_info pw_version (pw_open os) f m c) (rep_read los) (cache_write_trunc los)
       (\<lambda>h c. rep_close los (ls c) shown pw_info (pw_close os) h c) (\<lambda>f. rep_test_version pw_info (\<lambda>a. pw_version a f))"

definition part1 :: "rep_run \<Rightarrow> rep_world client_session" where
  "part1 z = \<lparr>se_cache = rn_cache1 z, se_server = (rn_conn1 z, rn_world z)\<rparr>"

definition put1 :: "rep_world client_session \<Rightarrow> rep_run \<Rightarrow> rep_run" where
  "put1 w z = z\<lparr>rn_cache1 := se_cache w, rn_conn1 := fst (se_server w), rn_world := snd (se_server w)\<rparr>"

definition part2 :: "rep_run \<Rightarrow> rep_world client_session" where
  "part2 z = \<lparr>se_cache = rn_cache2 z, se_server = (rn_conn2 z, rn_world z)\<rparr>"

definition put2 :: "rep_world client_session \<Rightarrow> rep_run \<Rightarrow> rep_run" where
  "put2 w z = z\<lparr>rn_cache2 := se_cache w, rn_conn2 := fst (se_server w), rn_world := snd (se_server w)\<rparr>"

definition new_stub :: "string \<Rightarrow> string \<Rightarrow> addr list \<Rightarrow> rep_world client_session \<Rightarrow> exn + rep_world client_session" where
  "new_stub cd me servers w =
     (case new_rep_conn pw_info servers 5 me (snd (se_server w)) of
        Inl x \<Rightarrow> Inl x | Inr s \<Rightarrow> Inr \<lparr>se_cache = new_cache cd (ca_disk (se_cache w)), se_server = s\<rparr>)"

text \<open>
  The clients have ids \<open>me\<close> and \<open>me2\<close> and cache directories \<open>cd\<close> and \<open>cd2\<close>, apart from each other. The
  operator kills the server the first client takes for the primary and starts it again with its own
  command line; \<open>ms\<close>: the order in which the others notice; \<open>n\<close>: the attempts to synchronize that fail.
\<close>

definition run_tools ::
  "(string \<Rightarrow> string \<Rightarrow> string) \<Rightarrow> os \<Rightarrow> os \<Rightarrow> (cache \<Rightarrow> string list) \<Rightarrow> string \<Rightarrow> string \<Rightarrow> string \<Rightarrow> string
   \<Rightarrow> addr list \<Rightarrow> (addr \<Rightarrow> addr list) \<Rightarrow> (addr \<Rightarrow> string) \<Rightarrow> string list \<Rightarrow> nat \<Rightarrow> rep_run rep_tools" where
  "run_tools shown os los ls cd cd2 me me2 ms others dir names n =
     \<lparr>rt_start = \<lambda>servers z. case new_stub cd me servers (part1 z) of Inl x \<Rightarrow> (z, Inl x) | Inr w \<Rightarrow> (put1 w z, Inr ()),
      rt_start2 = \<lambda>servers z. case new_stub cd2 me2 servers (part2 z) of Inl x \<Rightarrow> (z, Inl x) | Inr w \<Rightarrow> (put2 w z, Inr ()),
      rt_first = client_part part1 put1 (rep_client shown os los ls),
      rt_second = client_part part2 put2 (rep_client shown os los ls),
      rt_primary = \<lambda>z. rc_primary (rn_conn1 z),
      rt_discover = \<lambda>z. let (c, w) = discover_primary pw_info (rn_conn1 z, rn_world z) in z\<lparr>rn_conn1 := c, rn_world := w\<rparr>,
      rt_direct = \<lambda>a f m fetch z. let (w, r) = pw_open os a f m fetch (rn_world z) in (z\<lparr>rn_world := w\<rparr>, r),
      rt_kill = \<lambda>z. let p = rc_primary (rn_conn1 z) in z\<lparr>rn_killed := p, rn_world := fail_over p ms (rn_world z)\<rparr>,
      rt_restart = \<lambda>z. let p = rn_killed z in
        case restarted os p (others p) (dir p) names n (rn_world z) of Inl x \<Rightarrow> z | Inr w \<Rightarrow> z\<lparr>rn_world := w\<rparr>\<rparr>"

section \<open>The client stub rewrites a file\<close>

lemma rep_client_simps:
  "file_client.cl_open (rep_client shown os los ls) f m w
    = (let (c, s, r) = cache_open los (ls (se_cache w)) (cw_version f) (cw_open shown os f m) f m (se_cache w) (se_server w)
       in (\<lparr>se_cache = c, se_server = s\<rparr>, r))"
  "file_client.cl_close (rep_client shown os los ls) h w
    = (let (c, s, r) = cache_close_early los (ls (se_cache w)) (cw_close shown os h) h (se_cache w) (se_server w)
       in (\<lparr>se_cache = c, se_server = s\<rparr>, r))"
  "cl_read (rep_client shown os los ls) h off n w = (w, cache_read los h off n (se_cache w))"
  "cl_write (rep_client shown os los ls) h off d w = (let (c, r) = cache_write_trunc los h off d (se_cache w) in (w\<lparr>se_cache := c\<rparr>, r))"
  "cl_version (rep_client shown os los ls) f w = (let (s, r) = cw_version f (se_server w) in (w\<lparr>se_server := s\<rparr>, r))"
  "file_client.cl_create (rep_client shown os los ls) f w = (let (s, r) = cw_create shown os f (se_server w) in (w\<lparr>se_server := s\<rparr>, r))"
  by (simp_all add: rep_client_def session_client_def stub_calls rep_read_def cw_version_def cw_create_def)

lemma handle_positive: "cw_good os dir servers f B cid q L s \<Longrightarrow> cw_handles s h = Some x \<Longrightarrow> 0 < h"
  using steadyD(1,4) by (cases s) (fastforce simp: cw_good_def cw_handles_def linked_def orderly_def)

lemma client_opens:
  assumes r: "se_ready (cw_good os dir servers f B cid q L) (cw_stored os f) los cd ls {f} w"
    and st: "cw_stored os f (se_server w) f = Some (v, b)" and m: "m \<in> {''r'', ''w''}"
  shows "\<exists>w1 h. file_client.cl_open (rep_client shown os los ls) f m w = (w1, Inr h) \<and> 0 < h
    \<and> se_holds (cw_good os dir servers f B cid q L) (cw_stored os f) cw_handles los cd ls {f} w1 h f m b
    \<and> cw_stored os f (se_server w1) f = Some (v, b)"
proof -
  obtain c s where w: "w = \<lparr>se_cache = c, se_server = s\<rparr>" by (cases w)
  obtain c' s' h where o': "cache_open los (ls c) (cw_version f) (cw_open shown os f m) f m c s = (c', s', Inr h)"
    "se_holds (cw_good os dir servers f B cid q L) (cw_stored os f) cw_handles los cd ls {f} \<lparr>se_cache = c', se_server = s'\<rparr> h f m b"
    "cw_stored os f s' = cw_stored os f s"
    using rep.session_open [of os dir servers f B cid q L los cd ls c s f v b m shown] r st m w by auto
  then have "0 < h" using handle_positive [of os dir servers f B cid q L s' h] by (auto simp: se_holds_def)
  with o' st w show ?thesis by (simp add: rep_client_simps)
qed

lemma client_closes:
  assumes h: "se_holds (cw_good os dir servers f B cid q L) (cw_stored os f) cw_handles los cd ls {f} w h f m b"
    and st: "cw_stored os f (se_server w) f = Some (v, b0)" and m: "m = ''w'' \<and> u = v + 1 \<or> m = ''r'' \<and> u = v \<and> b = b0"
  shows "\<exists>w1. file_client.cl_close (rep_client shown os los ls) h w = (w1, Inr True)
    \<and> se_ready (cw_good os dir servers f B cid q L) (cw_stored os f) los cd ls {f} w1
    \<and> cw_stored os f (se_server w1) f = Some (u, b) \<and> se_known w1 f = Some u"
proof -
  obtain c s where w: "w = \<lparr>se_cache = c, se_server = s\<rparr>" by (cases w)
  obtain c' s' where "cache_close_early los (ls c) (cw_close shown os h) h c s = (c', s', Inr True)"
    "se_ready (cw_good os dir servers f B cid q L) (cw_stored os f) los cd ls {f} \<lparr>se_cache = c', se_server = s'\<rparr>"
    "cw_stored os f s' = (cw_stored os f s)(f \<mapsto> (u, b))" "se_known \<lparr>se_cache = c', se_server = s'\<rparr> f = Some u"
    using rep.session_close [of os dir servers f B cid q L los cd ls c s h f m b v b0 u shown] h st m w by auto
  with w show ?thesis by (simp add: rep_client_simps)
qed

lemma client_writes:
  assumes h: "se_holds (cw_good os dir servers f B cid q L) (cw_stored os f) cw_handles los cd ls {f} w h f ''w'' b"
  shows "\<exists>w1 n. cl_write (rep_client shown os los ls) h 0 (Str d) w = (w1, Inr n)
    \<and> se_holds (cw_good os dir servers f B cid q L) (cw_stored os f) cw_handles los cd ls {f} w1 h f ''w'' (utf8_encode d)
    \<and> se_server w1 = se_server w"
proof -
  obtain c s where w: "w = \<lparr>se_cache = c, se_server = s\<rparr>" by (cases w)
  from rep.session_write_start [of os dir servers f B cid q L los cd ls c s h f b "Str d"] h w show ?thesis
    by (auto simp: rep_client_simps as_bytes_def)
qed

lemma client_reads:
  assumes "se_holds (cw_good os dir servers f B cid q L) (cw_stored os f) cw_handles los cd ls {f} w h f m b"
  shows "cl_read (rep_client shown os los ls) h 0 100 w = (w, Inr (take 100 b))"
  using assms by (auto simp: rep_client_simps cache_read_def se_holds_def read_at_def read_file_contents [symmetric])

definition phase ::
  "(rep_run \<Rightarrow> rep_world client_session) \<Rightarrow> (rep_run \<Rightarrow> bool) \<Rightarrow> os \<Rightarrow> os \<Rightarrow> (cache \<Rightarrow> string list) \<Rightarrow> string \<Rightarrow> (addr \<Rightarrow> string)
   \<Rightarrow> addr list \<Rightarrow> (string \<Rightarrow> int) \<Rightarrow> string \<Rightarrow> addr \<Rightarrow> addr set \<Rightarrow> int \<Rightarrow> bytes \<Rightarrow> rep_run \<Rightarrow> bool" where
  "phase part K os los ls cd dir servers B me q L v b z \<longleftrightarrow>
     se_ready (cw_good os dir servers rf B me q L) (cw_stored os rf) los cd ls {rf} (part z)
     \<and> cw_stored os rf (se_server (part z)) rf = Some (v, b) \<and> (\<forall>u. se_known (part z) rf = Some u \<longrightarrow> u \<le> v) \<and> K z"

lemma part_rewriter:
  assumes lens: "\<And>w z. part (put w z) = w" "\<And>w w' z. put w (put w' z) = put w z" "\<And>w z. K (put w z) = K z"
  shows "rewriter (client_part part put (rep_client shown os los ls)) (phase part K os los ls cd dir servers B me q L)"
proof
  fix v b z d assume p: "phase part K os los ls cd dir servers B me q L v b z"
  obtain w1 h where 1: "file_client.cl_open (rep_client shown os los ls) rf ''w'' (part z) = (w1, Inr h)" "0 < h"
    "se_holds (cw_good os dir servers rf B me q L) (cw_stored os rf) cw_handles los cd ls {rf} w1 h rf ''w'' b"
    "cw_stored os rf (se_server w1) rf = Some (v, b)"
    using client_opens [of os dir servers rf B me q L los cd ls "part z" v b "''w''" shown] p by (auto simp: phase_def)
  obtain w2 n where 2: "cl_write (rep_client shown os los ls) h 0 (Str d) w1 = (w2, Inr n)"
    "se_holds (cw_good os dir servers rf B me q L) (cw_stored os rf) cw_handles los cd ls {rf} w2 h rf ''w'' (utf8_encode d)"
    "se_server w2 = se_server w1" using client_writes [OF 1(3)] by blast
  obtain w3 where 3: "file_client.cl_close (rep_client shown os los ls) h w2 = (w3, Inr True)"
    "se_ready (cw_good os dir servers rf B me q L) (cw_stored os rf) los cd ls {rf} w3"
    "cw_stored os rf (se_server w3) rf = Some (v + 1, utf8_encode d)" "se_known w3 rf = Some (v + 1)"
    using client_closes [OF 2(2), of v b "v + 1" shown] 1(4) 2(3) by auto
  show "\<exists>z1 z2 z3 h n. file_client.cl_open (client_part part put (rep_client shown os los ls)) rf ''w'' z = (z1, Inr h) \<and> 0 < h
      \<and> cl_write (client_part part put (rep_client shown os los ls)) h 0 (Str d) z1 = (z2, Inr n)
      \<and> file_client.cl_close (client_part part put (rep_client shown os los ls)) h z2 = (z3, Inr True)
      \<and> phase part K os los ls cd dir servers B me q L (v + 1) (utf8_encode d) z3"
    using p 1(1,2) 2(1) 3 lens
    by (intro exI [of _ "put w1 z"] exI [of _ "put w2 z"] exI [of _ "put w3 z"] exI [of _ h] exI [of _ n])
      (simp add: with_part_def phase_def)
next
  fix v b z assume p: "phase part K os los ls cd dir servers B me q L v b z"
  obtain w1 h where 1: "file_client.cl_open (rep_client shown os los ls) rf ''r'' (part z) = (w1, Inr h)"
    "se_holds (cw_good os dir servers rf B me q L) (cw_stored os rf) cw_handles los cd ls {rf} w1 h rf ''r'' b"
    "cw_stored os rf (se_server w1) rf = Some (v, b)"
    using client_opens [of os dir servers rf B me q L los cd ls "part z" v b "''r''" shown] p by (auto simp: phase_def)
  obtain w3 where 3: "file_client.cl_close (rep_client shown os los ls) h w1 = (w3, Inr True)"
    "se_ready (cw_good os dir servers rf B me q L) (cw_stored os rf) los cd ls {rf} w3"
    "cw_stored os rf (se_server w3) rf = Some (v, b)" "se_known w3 rf = Some v"
    using client_closes [OF 1(2,3), of v shown] by auto
  show "\<exists>z1 z2 h. file_client.cl_open (client_part part put (rep_client shown os los ls)) rf ''r'' z = (z1, Inr h)
      \<and> cl_read (client_part part put (rep_client shown os los ls)) h 0 100 z1 = (z1, Inr (take 100 b))
      \<and> file_client.cl_close (client_part part put (rep_client shown os los ls)) h z1 = (z2, Inr True)
      \<and> phase part K os los ls cd dir servers B me q L v b z2"
    using p 1(1) client_reads [OF 1(2), of shown] 3 lens
    by (intro exI [of _ "put w1 z"] exI [of _ "put w3 z"] exI [of _ h]) (simp add: with_part_def phase_def)
next
  fix v b z assume p: "phase part K os los ls cd dir servers B me q L v b z"
  then have g: "cw_good os dir servers rf B me q L (se_server (part z))" "cw_stored os rf (se_server (part z)) rf = Some (v, b)"
    by (simp_all add: phase_def se_ready_def)
  obtain c s where cs: "se_server (part z) = (c, s)" by fastforce
  have "cw_version rf (se_server (part z)) = (se_server (part z), Inr v)"
    using cw_tells_version(1) g unfolding cs by blast
  with p lens show "\<exists>z'. cl_version (client_part part put (rep_client shown os los ls)) rf z = (z', Inr v)
      \<and> phase part K os los ls cd dir servers B me q L v b z'"
    by (intro exI [of _ "put (part z) z"]) (simp add: with_part_def phase_def rep_client_simps)
qed

lemma lenses [simp]:
  "part1 (put1 w z) = w" "put1 w (put1 w' z) = put1 w z" "part2 (put2 w z) = w" "put2 w (put2 w' z) = put2 w z"
  "rn_killed (put1 w z) = rn_killed z" "rn_killed (put2 w z) = rn_killed z" "rn_cache1 (put2 w z) = rn_cache1 z" "rn_conn1 (put2 w z) = rn_conn1 z"
  "rn_world (put1 w z) = snd (se_server w)" "rn_world (put2 w z) = snd (se_server w)" "se_server (part1 z) = (rn_conn1 z, rn_world z)"
  "se_server (part2 z) = (rn_conn2 z, rn_world z)" "se_cache (part1 z) = rn_cache1 z"
  by (simp_all add: part1_def put1_def part2_def put2_def)

interpretation first: rewriter "client_part part1 put1 (rep_client shown os los ls)"
  "phase part1 (\<lambda>z. rn_killed z = k) os los ls cd dir servers B me q L" for shown os los ls k cd dir servers B me q L
  by (rule part_rewriter) simp_all

interpretation second: rewriter "client_part part2 put2 (rep_client shown os los ls)"
  "phase part2 (\<lambda>z. rn_cache1 z = ca \<and> rn_conn1 z = co \<and> rn_killed z = k) os los ls cd dir servers B me q L"
  for shown os los ls ca co k cd dir servers B me q L
  by (rule part_rewriter) simp_all

section \<open>Starting, fail-over and restart\<close>

lemma info_steady:
  "steady os dir G f q x w \<Longrightarrow> s = w \<Longrightarrow> pw_info a s = (s', y) \<Longrightarrow> s' = w \<and> (y = Some q \<or> y = None \<and> a \<noteq> q)"
  using steadyD(1,4) [of os dir G f q x w] by (auto simp: pw_info_def rp_cluster_info_def)

lemma rediscovers:
  assumes st: "steady os dir (set servers) f q x w" and q: "q \<noteq> []"
    and c: "rc_servers c = servers" "set servers \<subseteq> set (rc_conns c)" "rc_client c = me"
  shows "\<exists>c'. discover_primary pw_info (c, w) = (c', w) \<and> linked servers me q c' \<and> rc_seq c' = rc_seq c"
proof -
  have qs: "q \<in> set (rc_servers c)" using steadyD(1,2) [OF st] c(1) by auto
  have "\<exists>s'. discover_primary pw_info (c, w) = ((rc_connect q c)\<lparr>rc_primary := q\<rparr>, s') \<and> s' = w"
    by (rule discover_primary_finds [where I = "\<lambda>s. s = w", OF qs q _ refl]) (use c info_steady [OF st] in auto)
  moreover have "rc_connect q c = c" using qs c(1,2) by (auto simp: rc_connect_def)
  ultimately show ?thesis using qs c by (auto simp: linked_def)
qed

lemma connected: 
  "rc_servers (foldl (\<lambda>c a. rc_connect a c) c as) = rc_servers c" "rc_client (foldl (\<lambda>c a. rc_connect a c) c as) = rc_client c"
  "rc_seq (foldl (\<lambda>c a. rc_connect a c) c as) = rc_seq c" "set (rc_conns (foldl (\<lambda>c a. rc_connect a c) c as)) = set (rc_conns c) \<union> set as"
  by (induction as arbitrary: c) (auto simp: rc_connect_def)

lemma stub_starts:
  assumes st: "steady os dir (set servers) rf q x (snd (se_server w))" and q: "q \<noteq> []" and wr: "writable os dir (set servers) rf"
    and u: "used_below B (set servers) (pw_servers (snd (se_server w)))" and B: "B me \<le> 0" and L: "pw_live (snd (se_server w)) = L"
    and ca: "cache_dir_ok los cd ls {rf}"
  shows "\<exists>w'. new_stub cd me servers w = Inr w' \<and> snd (se_server w') = snd (se_server w)
    \<and> se_ready (cw_good os dir servers rf B me q L) (cw_stored os rf) los cd ls {rf} w' \<and> cw_stored os rf (se_server w') rf = x
    \<and> (\<forall>g. dget (ca_meta (se_cache w')) g = None)"
proof -
  have s: "servers \<noteq> []" using steadyD(1,2) [OF st] by auto
  let ?c = "foldl (\<lambda>c a. rc_connect a c)
    \<lparr>rc_servers = servers, rc_max_retries = 5, rc_conns = [], rc_primary = [], rc_client = me, rc_seq = 0\<rparr> servers"
  obtain c where c: "discover_primary pw_info (?c, snd (se_server w)) = (c, snd (se_server w))" "linked servers me q c" "rc_seq c = 0"
    using rediscovers [OF st q, of ?c me] by (auto simp: connected)
  have "used_below (B(me := rc_seq c)) (set servers) (pw_servers (snd (se_server w)))" by (rule used_mono [OF u]) (use B c(3) in simp)
  note G = good_intro [OF c(2) wr st this L]
  have "new_stub cd me servers w = Inr \<lparr>se_cache = new_cache cd (ca_disk (se_cache w)), se_server = (c, snd (se_server w))\<rparr>"
    using s c(1) by (simp add: new_stub_def new_rep_conn_def)
  then show ?thesis using G ca by (simp add: se_ready_def Fs_Session.in_sync_def new_cache_def)
qed

lemma first_starts:
  fixes shown os los ls cd cd2 me me2 ms others dir names n
  assumes st: "steady os dir (set servers) rf q None (rn_world z)" and q: "q \<noteq> []" and wr: "writable os dir (set servers) rf"
    and u: "used_below B (set servers) (pw_servers (rn_world z))" and B: "B me \<le> 0" and ca: "cache_dir_ok los cd ls {rf}"
  shows "\<exists>z1 z2. rt_start (run_tools shown os los ls cd cd2 me me2 ms others dir names n) servers z = (z1, Inr ())
    \<and> rtest1 (run_tools shown os los ls cd cd2 me me2 ms others dir names n) z1 = (z2, Inr ())
    \<and> phase part1 (\<lambda>y. rn_killed y = rn_killed z) os los ls cd dir servers B me q (pw_live (rn_world z)) 1 [] z2"
proof -
  let ?L = "pw_live (rn_world z)"
  have w: "snd (se_server (part1 z)) = rn_world z" by simp
  obtain w where w: "new_stub cd me servers (part1 z) = Inr w" "cw_stored os rf (se_server w) rf = None"
    "se_ready (cw_good os dir servers rf B me q ?L) (cw_stored os rf) los cd ls {rf} w" "\<forall>g. dget (ca_meta (se_cache w)) g = None"
    using stub_starts [of os dir servers q None "part1 z", unfolded w, OF st q wr u B refl ca] by blast
  obtain c v where cv: "se_server w = (c, v)" by fastforce
  have g: "cw_good os dir servers rf B me q ?L (c, v)" using w(3) cv by (simp add: se_ready_def)
  obtain s where s: "cw_create shown os rf (c, v) = (s, Inr 0)" "cw_good os dir servers rf B me q ?L s"
    "cw_stored os rf s = (cw_stored os rf (c, v))(rf \<mapsto> (1, []))"
    using cw_creates(1) [OF g, of shown] w(2) cv by auto
  let ?w = "w\<lparr>se_server := s\<rparr>"
  have "phase part1 (\<lambda>y. rn_killed y = rn_killed z) os los ls cd dir servers B me q ?L 1 [] (put1 ?w (put1 w z))"
    using w(3,4) s(2,3) by (simp add: phase_def se_ready_def Fs_Session.in_sync_def se_known_def)
  with w(1) s(1) cv show ?thesis
    by (intro exI [of _ "put1 w z"] exI [of _ "put1 ?w (put1 w z)"])
      (simp add: run_tools_def rtest1_def guarded_def step_def check_def with_part_def rep_client_simps)
qed

text \<open>The second client writes; the first one's cached copy is older, so that it asks again.\<close>

lemma phaseD:
  assumes "phase part K os los ls cd dir servers B me q L v b z" "se_server (part z) = (c, w)"
  shows "cache_dir_ok los cd ls {rf}" "cw_good os dir servers rf B me q L (c, w)" "cw_stored os rf (c, w) rf = Some (v, b)"
    "Fs_Session.in_sync los cd {rf} (cw_stored os rf (c, w)) {} (se_cache (part z))" "\<And>h. dget (ca_active (se_cache (part z))) h = None"
    "se_known (part z) rf = Some u \<Longrightarrow> u \<le> v" "K z"
  using assms by (simp_all add: phase_def se_ready_def)

lemma phase_later:
  assumes p: "phase part1 K os los ls cd dir servers B me q L v b z"
    and z: "rn_cache1 z' = rn_cache1 z" "K' z'" and g: "cw_good os dir servers rf B' me q' L' (rn_conn1 z', rn_world z')"
    and st: "cw_stored os rf (rn_conn1 z', rn_world z') rf = Some (u, b')" and later: "v < u \<or> v = u \<and> b = b'"
  shows "phase part1 K' os los ls cd dir servers B' me q' L' u b' z'"
proof -
  note D = phaseD [OF p, of "rn_conn1 z" "rn_world z", simplified]
  have k: "x \<le> v" if "dget (ca_meta (rn_cache1 z)) rf = Some (x, y)" for x y
    using D(6) [of x] that by (simp add: se_known_def)
  have "Fs_Session.in_sync los cd {rf} (cw_stored os rf (rn_conn1 z', rn_world z')) {} (rn_cache1 z)"
    unfolding Fs_Session.in_sync_def
  proof (intro conjI allI impI)
    show "ca_dir (rn_cache1 z) = cd" using D(4) by (simp add: Fs_Session.in_sync_def)
    fix g x y assume e: "g \<notin> {} \<and> dget (ca_meta (rn_cache1 z)) g = Some (x, y)"
    then have o': "copy_ok los cd {rf} (cw_stored os rf (rn_conn1 z, rn_world z)) (ca_disk (rn_cache1 z)) g x y"
      using in_sync_copy [OF D(4)] by simp
    then have "g = rf" by (simp add: copy_ok_def)
    with o' k e later st D(3) show "copy_ok los cd {rf} (cw_stored os rf (rn_conn1 z', rn_world z')) (ca_disk (rn_cache1 z)) g x y"
      by (fastforce simp: copy_ok_def)
  qed
  moreover have "x \<le> u" if "se_known (part1 z') rf = Some x" for x
    using that k later z(1) by (force simp: se_known_def)
  ultimately show ?thesis using D(1,5) g st z by (simp add: phase_def se_ready_def)
qed

lemma second_writes:
  fixes shown os los ls cd cd2 me me2 ms others dir names n
  defines "rt \<equiv> run_tools shown os los ls cd cd2 me me2 ms others dir names n"
  assumes p: "phase part1 (\<lambda>z. rn_killed z = k) os los ls cd dir servers B me q L v b z"
    and q: "q \<noteq> []" and B: "B me2 \<le> 0" "me \<noteq> me2" and ca: "cache_dir_ok los cd2 ls {rf}"
  shows "\<exists>z' B'. rtest6 rt servers z = (z', Inr ())
    \<and> phase part1 (\<lambda>z. rn_killed z = k) os los ls cd dir servers B' me q L (v + 1) (''Written by client2'' @ [newline]) z'"
proof -
  let ?B = "B(me := rc_seq (rn_conn1 z))" and ?co = "rn_conn1 z" and ?d = "''Written by client2'' @ [newline]"
  note D = phaseD [OF p, of "rn_conn1 z" "rn_world z", simplified]
  note G = goodD [OF D(2)]
  have w: "snd (se_server (part2 z)) = rn_world z" by simp
  have B2: "?B me2 \<le> 0" using B by simp
  obtain w where w: "new_stub cd2 me2 servers (part2 z) = Inr w" "snd (se_server w) = rn_world z" "cw_stored os rf (se_server w) rf = Some (v, b)"
    "se_ready (cw_good os dir servers rf ?B me2 q L) (cw_stored os rf) los cd2 ls {rf} w" "\<forall>g. dget (ca_meta (se_cache w)) g = None"
    using stub_starts [of os dir servers q _ "part2 z", unfolded w, OF G(3) [unfolded D(3)] q G(2,4) B2 G(8) ca] by blast
  let ?z1 = "put2 w z"
  have "phase part2 (\<lambda>y. rn_cache1 y = rn_cache1 z \<and> rn_conn1 y = ?co \<and> rn_killed y = k) os los ls cd2 dir servers ?B me2 q L v b ?z1"
    using w(3-5) D(7) by (simp add: phase_def se_known_def)
  from second.replaces [OF this, of shown ?d] obtain z2 z3 z4 h i
    where z4: "file_client.cl_open (rt_second rt) rf ''w'' ?z1 = (z2, Inr h)" "cl_write (rt_second rt) h 0 (Str ?d) z2 = (z3, Inr i)"
    "file_client.cl_close (rt_second rt) h z3 = (z4, Inr True)"
    and ph: "phase part2 (\<lambda>y. rn_cache1 y = rn_cache1 z \<and> rn_conn1 y = ?co \<and> rn_killed y = k) os los ls cd2 dir servers ?B me2 q L
      (v + 1) (utf8_encode ?d) z4"
    by (auto simp: rt_def run_tools_def)
  note E = phaseD [OF ph, of "rn_conn2 z4" "rn_world z4", simplified]
  note H = goodD [OF E(2)]
  let ?B' = "B(me2 := rc_seq (rn_conn2 z4))"
  have "used_below (?B'(me := rc_seq ?co)) (set servers) (pw_servers (rn_world z4))"
    using H(4) B(2) by (simp add: fun_upd_twist)
  from good_intro [OF G(1,2) H(3) this H(8)] E(3,7)
  have 1: "cw_good os dir servers rf ?B' me q L (rn_conn1 z4, rn_world z4)"
    "cw_stored os rf (rn_conn1 z4, rn_world z4) rf = Some (v + 1, utf8_encode ?d)" by simp_all
  have e: "utf8_encode ?d = ?d" by (simp add: newline_def)
  have "phase part1 (\<lambda>z. rn_killed z = k) os los ls cd dir servers ?B' me q L (v + 1) ?d z4"
    by (rule phase_later [OF p _ _ 1(1) 1(2) [unfolded e]]) (use E(7) in simp_all)
  from first.rereads [OF this, of shown] obtain z5 z6 h'
    where z6: "file_client.cl_open (rt_first rt) rf ''r'' z4 = (z5, Inr h')" "cl_read (rt_first rt) h' 0 100 z5 = (z5, Inr (take 100 ?d))"
    "file_client.cl_close (rt_first rt) h' z5 = (z6, Inr True)"
    and ph': "phase part1 (\<lambda>z. rn_killed z = k) os los ls cd dir servers ?B' me q L (v + 1) ?d z6"
    by (auto simp: rt_def run_tools_def)
  have "rt_start2 rt servers z = (?z1, Inr ())" using w(1) by (simp add: rt_def run_tools_def check_def)
  with z4 z6 have "rtest6 rt servers z = (z6, Inr ())"
    by (simp add: rtest6_def guarded_def step_def check_def)
  with ph' show ?thesis by blast
qed

lemma first_fails_over:
  fixes shown os los ls cd cd2 me me2 ms others dir names n
  defines "rt \<equiv> run_tools shown os los ls cd cd2 me me2 ms others dir names n"
  assumes p: "phase part1 K os los ls cd dir servers B me q L v b z"
    and ms: "set ms \<subseteq> L - {q}" "Min (L - {q}) \<in> set ms" "[] \<notin> L"
  shows "phase part1 (\<lambda>z. rn_killed z = q) os los ls cd dir servers B me (Min (L - {q})) (L - {q}) v b (rt_discover rt (rt_kill rt z))"
    "pw_live (rn_world (rt_discover rt (rt_kill rt z))) = L - {q}"
proof -
  note D = phaseD [OF p, of "rn_conn1 z" "rn_world z", simplified]
  note G = goodD [OF D(2)]
  let ?q = "Min (L - {q})" and ?w = "fail_over q ms (rn_world z)"
  note F = fails_over [OF G(3,4), unfolded G(8), OF ms(1,2) finite_set]
  have q: "?q \<noteq> []" using DiffD1 [OF subsetD [OF ms(1,2)]] ms(3) by metis
  have c: "rc_servers (rn_conn1 z) = servers" "set servers \<subseteq> set (rc_conns (rn_conn1 z))" using G(1) by (simp_all add: linked_def)
  obtain c where c': "discover_primary pw_info (rn_conn1 z, ?w) = (c, ?w)" "linked servers me ?q c" "rc_seq c = rc_seq (rn_conn1 z)"
    using rediscovers [OF F(1) q c G(7)] by blast
  have e: "rt_discover rt (rt_kill rt z) = z\<lparr>rn_killed := q, rn_world := ?w, rn_conn1 := c\<rparr>"
    using c'(1) G(6) by (simp add: rt_def run_tools_def Let_def)
  have u: "used_below (B(me := rc_seq c)) (set servers) (pw_servers ?w)" using F(2) c'(3) by simp
  from good_intro [OF c'(2) G(2) F(1) u F(3)] D(3)
  show "phase part1 (\<lambda>z. rn_killed z = q) os los ls cd dir servers B me ?q (L - {q}) v b (rt_discover rt (rt_kill rt z))"
    unfolding e by (intro phase_later [OF p, where b' = b]) simp_all
  show "pw_live (rn_world (rt_discover rt (rt_kill rt z))) = L - {q}" using F(3) by (simp add: e)
qed

lemma serves_copy:
  assumes "rp_ready s" "contents os (rp_disk s) (rp_path s f) = Some b"
  shows "\<exists>s' r. rp_open_call os f ''r'' True s = (s', Answered r) \<and> opn_success r \<and> opn_data r = b
    \<and> rp_disk s' = rp_disk s \<and> rp_path s' = rp_path s"
proof -
  have "holds os s f b (snd (rp_view os s) f)" using assms(2) by (simp add: holds_def rp_view_def)
  from open_holds [OF this] assms(1) show ?thesis
    by (simp add: pb_open_reply) (auto simp: rp_open_section_def Let_def)
qed

text \<open>The killed server comes back, and the server the script asks has the file.\<close>

lemma last_test:
  fixes shown os los ls cd cd2 me me2 ms others dir names n
  defines "rt \<equiv> run_tools shown os los ls cd cd2 me me2 ms others dir names n"
  assumes ph: "phase part1 (\<lambda>z. rn_killed z = p) os los ls cd dir servers B me q (set servers - {p}) v b z"
    and p: "p \<in> set servers" "q \<noteq> []" "set (others p) = set servers - {p}" "dirs_alike os dir (set servers)" "sublist ''After failover'' b"
  shows "\<exists>z'. rtest8 rt servers z = (z', Inr ()) \<and> pw_live (rn_world z') = set servers
    \<and> (\<forall>a\<in>set servers. contents os (rp_disk (pw_servers (rn_world z') a)) (path_join (dir a) rf) = Some b)"
proof -
  note D = phaseD [OF ph, of "rn_conn1 z" "rn_world z", simplified]
  note G = goodD [OF D(2)]
  let ?w = "rn_world z"
  have st: "steady os dir (set servers) rf q (Some (v, b)) ?w" using G(3) unfolding D(3) .
  have pl: "p \<notin> pw_live ?w" unfolding G(8) by simp
  obtain t where t: "restarted os p (others p) (dir p) names n ?w
      = Inr (?w\<lparr>pw_live := insert p (pw_live ?w), pw_servers := (pw_servers ?w)(p := t)\<rparr>)"
    "rp_ready t" "contents os (rp_disk t) (rp_path t rf) = Some b" "rp_dir t = dir p"
    using restarts [OF st p(1) pl p(3,2,4), of names n] by blast
  let ?k = "(pw_servers ?w)(p := t)" and ?v = "?w\<lparr>pw_live := insert p (pw_live ?w), pw_servers := (pw_servers ?w)(p := t)\<rparr>"
  have rs: "rt_restart rt z = z\<lparr>rn_world := ?v\<rparr>" using t(1) D(7) by (simp add: rt_def run_tools_def Let_def)
  have all: "insert p (pw_live ?w) = set servers" using G(8) p(1) by auto
  have k: "rp_ready (?k a) \<and> contents os (rp_disk (?k a)) (rp_path (?k a) rf) = Some b \<and> rp_dir (?k a) = dir a" if "a \<in> set servers" for a
  proof (cases "a = p")
    case False
    then have a: "a \<in> pw_live ?w" using that G(8) by auto
    show ?thesis using steadyD(4) [OF st a] placedD(2) [OF steadyD(3) [OF st] that] False by (auto simp: has_def)
  qed (use t in simp)
  have "p \<noteq> q" using pl steadyD(1) [OF st] by blast
  then obtain a as where a: "filter (\<lambda>a. a \<noteq> q) servers = a # as" using p(1) by (cases "filter (\<lambda>a. a \<noteq> q) servers") (auto simp: filter_empty_conv)
  then have as: "a \<in> set servers" by (metis filter_is_subset list.set_intros(1) subsetD)
  from serves_copy [of "?k a" os rf b] k [OF as] obtain s r where s: "rp_open_call os rf ''r'' True (?k a) = (s, Answered r)"
    "opn_success r" "opn_data r = b" "rp_disk s = rp_disk (?k a)" by blast
  let ?z = "z\<lparr>rn_world := ?v\<lparr>pw_servers := ?k(a := s)\<rparr>\<rparr>"
  have "pw_open os a rf ''r'' True ?v = (?v\<lparr>pw_servers := ?k(a := s)\<rparr>, Answered r)"
    using s(1) as all by (simp add: pw_open_def pw_call_def Primary_Backup.cl_open_def)
  then have "rtest8 rt servers z = (?z, Inr ())"
    using rs a s(2,3) p(5) G(6)
    by (simp add: rtest8_def guarded_def step_def check_def recovered_addr_def grpc_raises_def) (simp add: rt_def run_tools_def check_def)
  moreover have "contents os (rp_disk (pw_servers (rn_world ?z) x)) (path_join (dir x) rf) = Some b" if "x \<in> set servers" for x
    using k [OF that] s(4) by (auto simp: rp_path_def split: if_splits)
  moreover have "pw_live (rn_world ?z) = set servers" using all by simp
  ultimately show ?thesis by blast
qed

section \<open>The script passes\<close>

text \<open>
  C30. The acceptance script of the primary-backup servers passes: all servers are up and agree on a
  primary, none has the script's file, and the clients' ids are new. When the operator then kills the
  primary, the others elect the lowest of them in whatever order they notice, and the killed server
  comes back, however many attempts to synchronize fail first. The script ends with all tests passed,
  and every server, the killed one included, has the bytes of the last write.
\<close>

theorem rep_script_passes:
  assumes "steady os dir (set servers) rf p None (rn_world z)" "pw_live (rn_world z) = set servers" "[] \<notin> set servers"
    and "writable os dir (set servers) rf" "dirs_alike os dir (set servers)"
    and "used_below B (set servers) (pw_servers (rn_world z))" "B me \<le> 0" "B me2 \<le> 0" "me \<noteq> me2"
    and "cache_dir_ok los cd ls {rf}" "cache_dir_ok los cd2 ls {rf}"
    and "set ms \<subseteq> set servers - {p}" "Min (set servers - {p}) \<in> set ms" "set (others p) = set servers - {p}"
  shows "\<exists>z'. run_tests (run_tools shown os los ls cd cd2 me me2 ms others dir names n) servers z = (z', Inr ())
    \<and> pw_live (rn_world z') = set servers
    \<and> (\<forall>a\<in>set servers. contents os (rp_disk (pw_servers (rn_world z') a)) (path_join (dir a) rf) = Some (''After failover'' @ [newline]))"
proof -
  let ?rt = "run_tools shown os los ls cd cd2 me me2 ms others dir names n" and ?L = "set servers" and ?q = "Min (set servers - {p})"
  have f: "rt_first ?rt = client_part part1 put1 (rep_client shown os los ls)" by (simp add: run_tools_def)
  have p: "p \<in> ?L" "p \<noteq> []" using steadyD(1) [OF assms(1)] assms(2,3) by auto
  have q: "?q \<noteq> []" using DiffD1 [OF subsetD [OF assms(12,13)]] assms(3) by metis
  obtain z0 z1 where 1: "rt_start ?rt servers z = (z0, Inr ())" "rtest1 ?rt z0 = (z1, Inr ())"
    "phase part1 (\<lambda>y. rn_killed y = rn_killed z) os los ls cd dir servers B me p ?L 1 [] z1"
    using first_starts [OF assms(1) p(2) assms(4,6,7,10), unfolded assms(2)] by blast
  obtain z2 where 2: "rtest2 ?rt z1 = (z2, Inr ())"
    "phase part1 (\<lambda>y. rn_killed y = rn_killed z) os los ls cd dir servers B me p ?L (1 + 1) (''Hello, replicated world!'' @ [newline]) z2"
    using first.test2 [OF f 1(3)] by blast
  obtain z3 where 3: "rtest3 ?rt z2 = (z3, Inr ())"
    "phase part1 (\<lambda>y. rn_killed y = rn_killed z) os los ls cd dir servers B me p ?L (1 + 1) (''Hello, replicated world!'' @ [newline]) z3"
    using first.test3(1) [OF f 2(2)] by blast
  obtain z4 where 4: "rtest4 ?rt z3 = (z4, Inr ())"
    "phase part1 (\<lambda>y. rn_killed y = rn_killed z) os los ls cd dir servers B me p ?L (1 + 1) (''Hello, replicated world!'' @ [newline]) z4"
    using first.test3(2) [OF f 3(2)] by blast
  obtain z5 v where 5: "rtest5 ?rt z4 = (z5, Inr ())"
    "phase part1 (\<lambda>y. rn_killed y = rn_killed z) os los ls cd dir servers B me p ?L v (''Updated content'' @ [newline]) z5"
    using first.test5 [OF f 4(2)] by blast
  obtain z6 u B' where 6: "rtest6 ?rt servers z5 = (z6, Inr ())"
    "phase part1 (\<lambda>y. rn_killed y = rn_killed z) os los ls cd dir servers B' me p ?L u (''Written by client2'' @ [newline]) z6"
    using second_writes [OF 5(2) p(2) assms(8,9,11)] by blast
  have "sublist ''client2'' (take 100 (''Written by client2'' @ [newline]))" 
    unfolding sublist_def by (rule exI [of _ "''Written by ''"], rule exI [of _ "[newline]"]) simp
  from first.test7 [OF f first_fails_over(1) [OF 6(2) assms(12,13,3)] this]
  obtain z7 x where 7: "rtest7 ?rt z6 = (z7, Inr ())"
    "phase part1 (\<lambda>y. rn_killed y = p) os los ls cd dir servers B' me ?q (?L - {p}) x (''After failover'' @ [newline]) z7" by blast
  have "sublist ''After failover'' (''After failover'' @ [newline])" by (auto simp: sublist_def)
  from last_test [where p = p and others = others, OF 7(2) p(1) q assms(14,5) this]
  obtain z8 where 8: "rtest8 ?rt servers z7 = (z8, Inr ())" "pw_live (rn_world z8) = set servers"
    "\<forall>a\<in>set servers. contents os (rp_disk (pw_servers (rn_world z8) a)) (path_join (dir a) rf) = Some (''After failover'' @ [newline])"
    by blast
  have "run_tests ?rt servers z = (z8, Inr ())"
    using 1(1,2) 2(1) 3(1) 4(1) 5(1) 6(1) 7(1) 8(1) by (simp add: run_tests_def step_def also_then_def)
  with 8(2,3) show ?thesis by blast
qed

text \<open>A second run stops at the first test: the file is still there, and the process exits.\<close>

lemma rep_script_again:
  assumes "steady os dir (set servers) rf p (Some y) (rn_world z)" "p \<noteq> []" "writable os dir (set servers) rf"
    and "used_below B (set servers) (pw_servers (rn_world z))" "B me \<le> 0" "cache_dir_ok los cd ls {rf}"
  shows "\<exists>z'. run_tests (run_tools shown os los ls cd cd2 me me2 ms others dir names n) servers z = (z', Inl (Exit ''Create succeeded''))"
proof -
  have w: "snd (se_server (part1 z)) = rn_world z" by simp
  obtain w where w: "new_stub cd me servers (part1 z) = Inr w" "cw_stored os rf (se_server w) rf = Some y"
    "se_ready (cw_good os dir servers rf B me p (pw_live (rn_world z))) (cw_stored os rf) los cd ls {rf} w"
    using stub_starts [of os dir servers p "Some y" "part1 z", unfolded w, OF assms(1-5) refl assms(6)] by blast
  obtain c v where cv: "se_server w = (c, v)" by fastforce
  have g: "cw_good os dir servers rf B me p (pw_live (rn_world z)) (c, v)" using w(3) cv by (simp add: se_ready_def)
  obtain s x where "cw_create shown os rf (c, v) = (s, Inl x)" using cw_creates(2) [OF g, of shown] w(2) cv by auto
  with w(1) cv show ?thesis
    by (simp add: run_tests_def step_def also_then_def run_tools_def rtest1_def guarded_def check_def with_part_def rep_client_simps)
qed

text \<open>
  Which server the last test asks: the first that is not the new primary. When the killed server is not
  that one, the test looks at a server that was up all the time.
\<close>

lemma last_test_asks_another: "recovered_addr [''a'', ''b'', ''c''] (Min ({''a'', ''b'', ''c''} - {''c''})) = Inr ''b''"
proof -
  have "Min {''a'', ''b''} = ''a''" by (simp add: min_def less_eq_char_def less_char_def)
  then show ?thesis by (simp add: recovered_addr_def insert_Diff_if)
qed

section \<open>A run\<close>

definition demo_rep :: "addr \<Rightarrow> rep" where
  "demo_rep a = \<lparr>rp_addr = a, rp_peers = [], rp_dir = ''d'' @ a, rp_disk = [], rp_versions = [], rp_open = [], rp_next = 1, rp_dedup = [],
     rp_primary = ''a'', rp_role = (if a = ''a'' then RPrimary else RBackup), rp_ready = True, rp_heard = [],
     rp_stubs = filter (\<lambda>b. b \<noteq> a) [''a'', ''b'', ''c'']\<rparr>"

definition demo_run :: rep_run where
  "demo_run = \<lparr>rn_cache1 = new_cache ''c1'' [], rn_conn1 = \<lparr>rc_servers = [], rc_max_retries = 0, rc_conns = [], rc_primary = [], rc_client = [], rc_seq = 0\<rparr>,
     rn_cache2 = new_cache ''c2'' [], rn_conn2 = \<lparr>rc_servers = [], rc_max_retries = 0, rc_conns = [], rc_primary = [], rc_client = [], rc_seq = 0\<rparr>,
     rn_world = \<lparr>pw_servers = demo_rep, pw_live = {''a'', ''b'', ''c''}\<rparr>, rn_killed = []\<rparr>"

lemma demo_steady: "steady flat_disk (\<lambda>a. ''d'' @ a) (set [''a'', ''b'', ''c'']) rf ''a'' None (rn_world demo_run)"
  by (auto simp: steady_def placed_def demo_run_def demo_rep_def orderly_def has_def contents_def flat_disk_def)

lemma demo_dirs: "dirs_alike flat_disk (\<lambda>a. ''d'' @ a) {''a'', ''b'', ''c''}"
  by (auto simp: dirs_alike_def flat_disk_def dest!: path_join_inj [rotated 2])

theorem rep_script_passes_witness:
  "\<exists>z'. run_tests (run_tools (\<lambda>c d. d) flat_disk flat_disk (\<lambda>c. map fst (ca_disk c)) ''c1'' ''c2'' ''me'' ''you'' [''c'', ''b'']
        (\<lambda>p. filter (\<lambda>b. b \<noteq> p) [''a'', ''b'', ''c'']) (\<lambda>a. ''d'' @ a) [] 1) [''a'', ''b'', ''c''] demo_run = (z', Inr ())
    \<and> contents flat_disk (rp_disk (pw_servers (rn_world z') ''a'')) (path_join ''da'' rf) = Some (''After failover'' @ [newline])"
proof -
  have m: "Min ({''a'', ''b'', ''c''} - {''a''}) = ''b''"
    by (simp add: insert_Diff_if min_def less_eq_char_def less_char_def)
  have u: "used_below (\<lambda>_. 0) G (pw_servers (rn_world demo_run))" for G by (simp add: used_below_def demo_run_def demo_rep_def)
  let ?rt = "run_tools (\<lambda>c d. d) flat_disk flat_disk (\<lambda>c. map fst (ca_disk c)) ''c1'' ''c2'' ''me'' ''you'' [''c'', ''b'']
    (\<lambda>p. filter (\<lambda>b. b \<noteq> p) [''a'', ''b'', ''c'']) (\<lambda>a. ''d'' @ a) [] 1"
  have "\<exists>z'. run_tests ?rt [''a'', ''b'', ''c''] demo_run = (z', Inr ()) \<and> pw_live (rn_world z') = set [''a'', ''b'', ''c'']
    \<and> (\<forall>a\<in>set [''a'', ''b'', ''c'']. contents flat_disk (rp_disk (pw_servers (rn_world z') a)) (path_join (''d'' @ a) rf)
        = Some (''After failover'' @ [newline]))"
  proof (rule rep_script_passes [OF demo_steady _ _ _ _ u])
    show "dirs_alike flat_disk (\<lambda>a. ''d'' @ a) (set [''a'', ''b'', ''c''])" using demo_dirs by simp
    show "Min (set [''a'', ''b'', ''c''] - {''a''}) \<in> set [''c'', ''b'']" using m by simp
  qed (simp_all add: flat_cache writable_def flat_disk_def demo_run_def)
  then show ?thesis by auto
qed

end
