(* ===== verification/Spec2Isabelle.thy ===== *)
theory Spec2Isabelle
  imports Raft_Theorems Kv_Theorems Kv_Cluster Raft_Rpc_Theorems Fs_Theorems Raft_Fs_Theorems Primary_Backup_Theorems
    Client_Rpc_Theorems Client_Cache_Theorems Fs_Plain_Acceptance Gateway_Call_Theorems Gateway_Theorems Ml_Theorems Ml_Progress
    Raft_Disk Startup Gateway_App Ml_Data Rep_Acceptance
begin

text \<open>
  A verification development for a distributed storage and compute system written in Python
  (paths below are under \<open>src/\<close>). Every definition that models code names the code's own function
  or type; the manifest maps it to its lines.

  \<^bold>\<open>The program and its parts.\<close>

  \<^item> \<open>part2_3_replication/raft_node.py\<close> is a Raft engine (\<open>RaftNode\<close>). Two servers run on it and hand
    it an \<open>apply\<close> function: the key-value store (\<open>kv_state_machine.py\<close>, \<open>raft_kv_server.py\<close>) and the
    replicated file server (\<open>raft_server.py\<close>, which also holds the RPC surface of the engine). Their
    clients are \<open>kv_client_stub.py\<close> and \<open>raft_client_stub.py\<close>: they follow the redirects to the leader.
  \<^item> \<open>part1_filesystem/fs\<close> is a single file server with locks over gRPC, \<open>part1_filesystem/fs_wo_grpc\<close>
    the same service over encrypted messages on plain TCP, \<open>part2_3_replication/replication\<close> a
    primary-backup file server. The clients of all file servers edit files in a local cache.
  \<^item> \<open>part6_web/gateway\<close> is an HTTP gateway in front of the key-value cluster.
  \<^item> \<open>part4_5_compute\<close> trains a logistic regression with a parameter server (\<open>ml_coordinator.py\<close>) that
    keeps its checkpoints in the key-value cluster, and workers (\<open>ml_worker.py\<close>).

  \<^bold>\<open>Foundations.\<close> \<open>Dist_Prelude\<close>: Python values, exceptions, ordered dictionaries, decimal numerals.
  \<open>Codec\<close>, \<open>Json\<close>, \<open>Unicode\<close>: the standard library's hex, Base64, JSON and UTF-8, each an instance of the
  locale \<open>codec\<close>. \<open>Files\<close>: disks, paths and the messages of \<open>fs.proto\<close>.

  \<^bold>\<open>The Raft engine.\<close> \<open>Raft_Node\<close> has the state of a node (record \<open>raft_node\<close>) and one definition per
  method or locked section of \<open>raft_node.py\<close>; \<open>Raft_Rpc\<close> the servicer, its message conversions, the
  cluster configuration and the redirects of \<open>raft_server.py\<close>. \<open>Raft_Spec\<close> is the abstract protocol
  (\<open>astep\<close>, over the locale \<open>quorum_system\<close>), \<open>Raft_Safety\<close> its invariant. \<open>Raft_Cluster\<close> puts the code's
  nodes into a network that loses, delays, repeats and reorders messages (\<open>cstep\<close>), interprets the
  locale for the majorities the code counts, and simulates the protocol. \<open>Raft_Local\<close> has what holds of
  one node alone, \<open>Raft_Exec\<close> what the applier and the waiting clients see. \<open>Raft_Theorems\<close> states the
  results for clusters of any size: one leader per term, commits are for ever, logs match, leaders are
  complete, replicas apply the same entries, an acknowledged call was committed and applied, a restart
  loses nothing, no index error, no node without a timer. \<open>Raft_Rpc_Theorems\<close>: the wire format and the
  configuration are transparent. \<open>Raft_Run\<close> and \<open>Sm_Run\<close> are the concrete run the witnesses use.
  \<open>Raft_Disk\<close> takes the two files of a node apart into file operations: wherever a process dies, the node
  that starts again is one of a reachable cluster, as each file is replaced at once and \<open>cstep\<close> has the
  steps of a handler that dies between its two writes.

  \<^bold>\<open>Start-up.\<close> \<open>Startup\<close> has \<open>main\<close> and \<open>serve\<close> of the Raft servers, the primary-backup server and the training
  coordinator, from a configuration file or a command line to the state of the server; one file gives
  one cluster, at the first start and at later ones.

  \<^bold>\<open>Key-value store.\<close> \<open>Kv_Machine\<close> is \<open>KVStateMachine\<close>, \<open>Kv_Server\<close> the servicer. \<open>Kv_Theorems\<close>: the tables stay
  well-formed and bounded, the operations refine versioned cells, versions never repeat, snapshots
  round-trip. \<open>Kv_Run\<close>, \<open>Kv_Cluster\<close>: with the engine below, reads see every acknowledged write, and a
  retry is answered as the first attempt was.

  \<^bold>\<open>File servers.\<close> \<open>Fs_Server\<close>/\<open>Fs_Theorems\<close> (single server, locks and notifications), \<open>Fs_Plain\<close>/
  \<open>Fs_Plain_Theorems\<close> (TCP framing, dispatcher, comparison with the gRPC server), \<open>Raft_Fs\<close>/
  \<open>Raft_Fs_Theorems\<close> (replicated server: refinement, versions, replay after a restart), \<open>Primary_Backup\<close>/
  \<open>Primary_Backup_Theorems\<close> (agreement while replication gets through, fail-over, split brain).

  \<^bold>\<open>Clients.\<close> \<open>Client_Rpc\<close> has the loops that find a leader or a primary, \<open>Client_Cache\<close> the file cache,
  \<open>Client_Stubs\<close> the calls of the three gRPC clients. \<open>Client_Rpc_Theorems\<close>: the loops reach the leader in
  a bounded number of attempts, and retries are executed once. \<open>Client_Cache_Theorems\<close>: an opened file has
  its current contents.

  \<^bold>\<open>Client and server together.\<close> \<open>Fs_Script\<close> has the acceptance scripts of the two single file servers
  (\<open>fs/client.py\<close>, \<open>fs_wo_grpc/client.py\<close>) over a record of a client's calls. \<open>Fs_Session\<close> states what a client
  promises (locale \<open>file_session\<close>), shows that the scripts pass with such a client, states what a server
  promises (\<open>versioned_server\<close>), and derives the first from the second for a client with a cache
  (\<open>cached_session\<close>, of which \<open>file_session\<close> is a sublocale). \<open>Fs_Acceptance\<close> and \<open>Fs_Plain_Acceptance\<close> interpret
  the contracts on the two servers and clients of the code, and follow the tests of locks call by call.
    \<open>Rep_Script\<close> is the script of the primary-backup servers (\<open>replication/client.py\<close>), the operator's part being
    an argument. \<open>Pb_Client\<close> has the cluster as a client sees it, the calls to a primary that serves, a fail-over
    and a restart; \<open>Rep_Acceptance\<close> interprets \<open>versioned_server\<close> on the stub in front of that cluster and shows
    that the script passes (its tests over the locale \<open>rewriter\<close>, with each of the two clients an instance).

  \<^bold>\<open>Gateway.\<close> \<open>Gateway_Cluster\<close> is the cluster client with its retry loop, \<open>Gateway_Api\<close> the key rules,
  the routes and the error responses. \<open>Gateway_Call_Theorems\<close>: a call ends, and what its timeouts mean.
  \<open>Gateway_Theorems\<close>: conditional writes, ETags and idempotency keys, proved over the locale \<open>cell_store\<close>,
  which the key-value state machine is shown to satisfy. \<open>Gateway_App\<close> is the program around them (settings,
  app, routing, checks, error handlers, status stream): every request is answered, and with the
  addresses of the cluster's configuration the gateway follows a server's redirect to the leader.

  \<^bold>\<open>Training.\<close> \<open>Ml_Training\<close> has coordinator and worker; \<open>Ml_Theorems\<close> and \<open>Ml_Progress\<close> show that training
  is gradient descent whatever happens to heartbeats and workers, goes on after a restart from a
  checkpoint, and ends. \<open>Ml_Data\<close> is the generator of the data set (\<open>ml_datamaker.py\<close>): what it writes is read
  back exactly once, rounded as printed, and can be trained on.

  \<^bold>\<open>How code becomes definitions.\<close> Objects are records, dicts ordered association lists, exceptions values
  of a sum type. A method that runs under a lock is one function on the state; a method that releases
  its lock is one function per locked section, and the step relations interleave them. Clocks, random
  pauses, networks and peers are arguments, so the theorems hold for all of them.

  \<^bold>\<open>Bounds and fuel.\<close> The JSON parser takes fuel, and \<open>loads\<close> gives it one more than the length of the
  text: every value \<open>dumps\<close> prints is parsed with that (\<open>loads_dumps\<close>). \<open>recvall_from\<close>, \<open>handle_client\<close>,
  \<open>evict\<close> and \<open>utf8_all\<close> are total functions with termination proofs. \<open>gw_loop\<close> and \<open>poll_notes\<close> are partial
  functions because they run on a clock: \<open>gw_call_returns\<close> shows that the first ends when time passes.
  Time is in whole microseconds in the gateway, in milliseconds elsewhere.

  \<^bold>\<open>Assumptions.\<close> Python's \<open>str\<close> is a list of characters up to 255, except for values in the gateway,
  which are whole Unicode; integers are unbounded, as in Python, and bounded where protobuf bounds
  them; floating-point numbers in the trainer are reals. A reply to an append request reaches a leader
  only in the term of the request (the code relies on its timeouts for that), and nobody sends
  \<open>InstallSnapshot\<close>, as no code path does. Python code of one handler is not interrupted inside a locked
  section, except that the process of a Raft node may die there. What a process has written to a file
  survives its death; a machine that loses what was not flushed is not considered.

  \<^bold>\<open>Parameters.\<close> The directory tree and names of files, network and peers, clocks, UUIDs and digests,
  pickling and encryption (\<open>Fernet\<close>), the printing of a string for a message, the random generator.

  \<^bold>\<open>Not modelled.\<close> Test suites, \<open>argparse\<close>, the objects and thread pools of gRPC and FastAPI, signals, logging,
  CORS headers, generated protobuf code, and the start scripts: they call what is modelled, or do input and output only.
  \<open>part2_3_replication/server.py\<close>, \<open>client_stub.py\<close> and \<open>client.py\<close> are copies of the files of \<open>part1_filesystem/fs\<close>.
\<close>

end
